(* ===== verification/Prelude.thy ===== *)
theory Prelude
  imports Main "HOL-Library.Signed_Division"
begin

unbundle bit_operations_syntax

text \<open>
  Shared vocabulary of the development.

  \<^item> \<open>error\<close>: what a C++ function of the verifier throws (or the assertion it trips), one
    constructor per exception type the sources use, with the literal text of the message.
  \<^item> \<open>'a result\<close>: a call that returns a value (\<open>Inr\<close>) or throws (\<open>Inl\<close>); \<open>rbind\<close> is the
    sequencing of two calls, \<open>rmap\<close> and \<open>rfold\<close> the loops over a vector.
  \<^item> generic facts on truncating division, bit masks and lists that several components use.

  An \<open>assert\<close> of the sources is modelled as the error \<open>Assert_Failed\<close>, i.e. the model is the
  build with assertions on.
\<close>

section \<open>Results\<close>

datatype error =
    Crab_Error string             \<comment> \<open>\<^verbatim>\<open>CRAB_ERROR\<close>: std::runtime_error\<close>
  | Runtime_Error string          \<comment> \<open>\<^verbatim>\<open>throw std::runtime_error\<close>\<close>
  | Invalid_Argument string       \<comment> \<open>\<^verbatim>\<open>throw std::invalid_argument\<close>\<close>
  | Invalid_Instruction nat string \<comment> \<open>\<^verbatim>\<open>InvalidInstruction\<close>: pc and message\<close>
  | Invalid_Control_Flow string   \<comment> \<open>\<^verbatim>\<open>InvalidControlFlow\<close>\<close>
  | Narrowing_Error               \<comment> \<open>\<^verbatim>\<open>gsl::narrow\<close>\<close>
  | Out_Of_Range                  \<comment> \<open>\<^verbatim>\<open>at\<close> on a container, a negative shift\<close>
  | Bad_Access                    \<comment> \<open>\<^verbatim>\<open>std::optional::value\<close>, \<^verbatim>\<open>std::get\<close>\<close>
  | Assert_Failed                 \<comment> \<open>\<^verbatim>\<open>assert\<close>\<close>
  | Unmarshal_Error string        \<comment> \<open>\<^verbatim>\<open>UnmarshalError\<close>\<close>
  | Std_Exception                 \<comment> \<open>\<^verbatim>\<open>throw std::exception()\<close>\<close>

type_synonym 'a result = "error + 'a"

definition rbind :: "'a result \<Rightarrow> ('a \<Rightarrow> 'b result) \<Rightarrow> 'b result" where
  "rbind m f = (case m of Inl e \<Rightarrow> Inl e | Inr x \<Rightarrow> f x)"

definition rmap :: "('a \<Rightarrow> 'b) \<Rightarrow> 'a result \<Rightarrow> 'b result" where
  "rmap f m = rbind m (\<lambda>x. Inr (f x))"

definition rguard :: "bool \<Rightarrow> error \<Rightarrow> unit result" where
  "rguard b e = (if b then Inr () else Inl e)"

definition is_ok :: "'a result \<Rightarrow> bool" where
  "is_ok m = (case m of Inl _ \<Rightarrow> False | Inr _ \<Rightarrow> True)"

fun rfold :: "('a \<Rightarrow> 's \<Rightarrow> 's result) \<Rightarrow> 'a list \<Rightarrow> 's \<Rightarrow> 's result" where
  "rfold f [] s = Inr s"
| "rfold f (x # xs) s = rbind (f x s) (rfold f xs)"

lemma rbind_simps [simp]:
  "rbind (Inl e) f = Inl e"
  "rbind (Inr x) f = f x"
  by (simp_all add: rbind_def)

lemma rbind_Inr_iff: "rbind m f = Inr y \<longleftrightarrow> (\<exists>x. m = Inr x \<and> f x = Inr y)"
  by (cases m) auto

lemma rbind_Inl_iff: "rbind m f = Inl e \<longleftrightarrow> m = Inl e \<or> (\<exists>x. m = Inr x \<and> f x = Inl e)"
  by (cases m) auto

lemma rbind_assoc: "rbind (rbind m f) g = rbind m (\<lambda>x. rbind (f x) g)"
  by (cases m) auto

lemma rbind_cong [fundef_cong]:
  "m = m' \<Longrightarrow> (\<And>x. m' = Inr x \<Longrightarrow> f x = f' x) \<Longrightarrow> rbind m f = rbind m' f'"
  by (cases m') auto

lemma rmap_simps [simp]:
  "rmap f (Inl e) = Inl e"
  "rmap f (Inr x) = Inr (f x)"
  by (simp_all add: rmap_def)

lemma rmap_Inr_iff: "rmap f m = Inr y \<longleftrightarrow> (\<exists>x. m = Inr x \<and> y = f x)"
  by (cases m) auto

lemma rguard_simps [simp]:
  "rguard True e = Inr ()"
  "rguard False e = Inl e"
  "rguard b e = Inr u \<longleftrightarrow> b"
  by (simp_all add: rguard_def)

lemma is_ok_simps [simp]: "is_ok (Inr x)" "\<not> is_ok (Inl e)"
  by (simp_all add: is_ok_def)

lemma is_ok_iff: "is_ok m \<longleftrightarrow> (\<exists>x. m = Inr x)"
  by (cases m) auto

lemmas result_iffs = rbind_Inr_iff rmap_Inr_iff

lemma rfold_invariant:
  assumes "rfold f xs s = Inr t" "I s"
    and "\<And>x s t. x \<in> set xs \<Longrightarrow> I s \<Longrightarrow> f x s = Inr t \<Longrightarrow> I t"
  shows "I t"
  using assms
proof (induction xs arbitrary: s)
  case (Cons x xs)
  then obtain s' where "f x s = Inr s'" "rfold f xs s' = Inr t"
    by (auto simp: rbind_Inr_iff)
  moreover from this Cons.prems have "I s'" by auto
  ultimately show ?case using Cons.IH Cons.prems(3) by auto
qed simp

section \<open>Calls that may not return\<close>

text \<open>
  \<open>'a out\<close> has three outcomes: a value, an exception, and \<^const>\<open>None\<close> for a loop that does not end
  (or has used up its fuel).
\<close>

type_synonym 'a out = "'a result option"

definition obind :: "'a out \<Rightarrow> ('a \<Rightarrow> 'b out) \<Rightarrow> 'b out" where
  "obind m f = (case m of None \<Rightarrow> None | Some (Inl e) \<Rightarrow> Some (Inl e) | Some (Inr x) \<Rightarrow> f x)"

fun oseq :: "('s \<Rightarrow> 's out) list \<Rightarrow> 's \<Rightarrow> 's out" where
  "oseq [] s = Some (Inr s)"
| "oseq (f # fs) s = obind (f s) (oseq fs)"

lemma obind_cong [fundef_cong]:
  "m = m' \<Longrightarrow> (\<And>x. m' = Some (Inr x) \<Longrightarrow> f x = f' x) \<Longrightarrow> obind m f = obind m' f'"
  by (auto simp: obind_def split: option.splits sum.splits)

lemma obind_iff: "obind m f = Some (Inr y) \<longleftrightarrow> (\<exists>x. m = Some (Inr x) \<and> f x = Some (Inr y))"
  by (auto simp: obind_def split: option.splits sum.splits)

lemma obind_None: "obind m f = None \<longleftrightarrow> m = None \<or> (\<exists>x. m = Some (Inr x) \<and> f x = None)"
  by (auto simp: obind_def split: option.splits sum.splits)

lemma oseq_invariant:
  assumes "oseq fs s = Some (Inr t)" "I s"
    and "\<And>f s t. f \<in> set fs \<Longrightarrow> I s \<Longrightarrow> f s = Some (Inr t) \<Longrightarrow> I t"
  shows "I t"
  using assms
proof (induction fs arbitrary: s)
  case (Cons f fs)
  then obtain s' where "f s = Some (Inr s')" "oseq fs s' = Some (Inr t)"
    by (auto simp: obind_iff)
  moreover from this Cons.prems have "I s'" by auto
  ultimately show ?case using Cons.IH Cons.prems(3) by auto
qed simp

lemma oseq_defined:
  assumes "I s" and "\<And>f s. f \<in> set fs \<Longrightarrow> I s \<Longrightarrow> f s \<noteq> None"
    and "\<And>f s t. f \<in> set fs \<Longrightarrow> I s \<Longrightarrow> f s = Some (Inr t) \<Longrightarrow> I t"
  shows "oseq fs s \<noteq> None"
  using assms
proof (induction fs arbitrary: s)
  case (Cons f fs)
  have "oseq fs t \<noteq> None" if "f s = Some (Inr t)" for t
  proof (rule Cons.IH)
    show "I t" using that Cons.prems(1) Cons.prems(3)[of f s t] by simp
    show "g u \<noteq> None" if "g \<in> set fs" "I u" for g u using Cons.prems(2)[of g u] that by simp
    show "I v" if "g \<in> set fs" "I u" "g u = Some (Inr v)" for g u v using Cons.prems(3)[of g u v] that by simp
  qed
  then show ?case using Cons.prems(1) Cons.prems(2)[of f s] by (auto simp: obind_None)
qed simp

section \<open>Proof collections\<close>

text \<open>
  The collections of the development: \<open>number_simps\<close> holds the characterisations of the
  big-integer operations, \<open>bound_simps\<close> the translations from the verifier's bounds to extended
  integers, and \<open>ivl_simps\<close> the membership lemmas of the interval operations.
\<close>

named_theorems number_simps
named_theorems bound_simps
named_theorems ivl_simps

section \<open>Truncating division\<close>

text \<open>
  C++ division truncates towards zero; on \<^typ>\<open>int\<close> that is \<open>sdiv\<close> of the library, with
  remainder \<open>smod\<close>. The facts below are the ones interval arithmetic needs.
\<close>

lemma sdiv_eq_div_pos: "0 \<le> a \<Longrightarrow> 0 < b \<Longrightarrow> (a::int) sdiv b = a div b"
  by (cases "a = 0") (simp_all add: signed_divide_int_def)

lemma sdiv_neg_left: "(- a :: int) sdiv b = - (a sdiv b)"
  by (simp add: signed_divide_int_def)

lemma sdiv_neg_right: "(a :: int) sdiv (- b) = - (a sdiv b)"
  by (simp add: signed_divide_int_def)

lemma sdiv_mono_pos:
  fixes a b c :: int
  assumes "a \<le> b" "0 < c"
  shows "a sdiv c \<le> b sdiv c"
proof -
  consider "0 \<le> a" | "a < 0" "0 \<le> b" | "b < 0" by linarith
  then show ?thesis
  proof cases
    case 1
    then show ?thesis using assms by (simp add: sdiv_eq_div_pos zdiv_mono1)
  next
    case 2
    have "a sdiv c = - ((- a) div c)"
      using sdiv_neg_left[of "- a" c] sdiv_eq_div_pos[of "- a" c] 2 assms by simp
    moreover have "0 \<le> (- a) div c" using 2 assms by (simp add: pos_imp_zdiv_nonneg_iff)
    moreover have "0 \<le> b sdiv c" using 2 assms by (simp add: sdiv_eq_div_pos pos_imp_zdiv_nonneg_iff)
    ultimately show ?thesis by linarith
  next
    case 3
    have "a sdiv c = - ((- a) div c)" "b sdiv c = - ((- b) div c)"
      using sdiv_neg_left[of "- a" c] sdiv_eq_div_pos[of "- a" c]
        sdiv_neg_left[of "- b" c] sdiv_eq_div_pos[of "- b" c] 3 assms by simp_all
    moreover have "(- b) div c \<le> (- a) div c" using assms by (simp add: zdiv_mono1)
    ultimately show ?thesis by linarith
  qed
qed

lemma sdiv_antimono_neg: "(a::int) \<le> b \<Longrightarrow> c < 0 \<Longrightarrow> b sdiv c \<le> a sdiv c"
  using sdiv_mono_pos[of a b "- c"] by (simp add: sdiv_neg_right)

lemma abs_smod_less: "(b::int) \<noteq> 0 \<Longrightarrow> \<bar>a smod b\<bar> < \<bar>b\<bar>"
  by (auto simp: smod_int_alt_def abs_mult sgn_if abs_mod_less)

lemma abs_smod_le: "\<bar>(a::int) smod b\<bar> \<le> \<bar>a\<bar>"
  by (cases "b = 0") (auto simp: smod_int_alt_def abs_mult sgn_if zmod_le_nonneg_dividend)

lemma smod_sign: "(0::int) \<le> a \<Longrightarrow> 0 \<le> a smod b" "(a::int) \<le> 0 \<Longrightarrow> a smod b \<le> 0"
  by (cases "b = 0"; auto simp: smod_int_alt_def sgn_if mult_le_0_iff)+

lemma smod_small: "\<bar>a::int\<bar> < \<bar>b\<bar> \<Longrightarrow> a smod b = a"
  by (cases "a = 0") (auto simp: smod_int_alt_def sgn_if)

end
