(* ===== verification/Number_Big.thy ===== *)
theory Number_Big
  imports Prelude
begin

unbundle bit_operations_syntax

text \<open>
  The arbitrary-precision integers of the verifier: \<^verbatim>\<open>class Number\<close> of
  \<^verbatim>\<open>arith/num_big.hpp\<close> over \<^verbatim>\<open>boost::multiprecision::cpp_int\<close>, and the integral types
  \<^verbatim>\<open>T\<close> its member templates are instantiated with.

  A \<^verbatim>\<open>cpp_int\<close> is a mathematical integer (\<^typ>\<open>int\<close>), whose \<^verbatim>\<open>&\<close>, \<^verbatim>\<open>|\<close>, \<^verbatim>\<open>^\<close>
  and \<^verbatim>\<open>>>\<close> act on the infinite two's complement representation and whose \<^verbatim>\<open>/\<close> and
  \<^verbatim>\<open>%\<close> truncate towards zero. A template parameter \<^verbatim>\<open>T\<close> is a value of \<open>ctype\<close>.
\<close>

section \<open>Integral types\<close>

datatype ctype = SInt nat | UInt nat

abbreviation (input) int8_t :: ctype where "int8_t \<equiv> SInt 8"
abbreviation (input) int16_t :: ctype where "int16_t \<equiv> SInt 16"
abbreviation (input) int32_t :: ctype where "int32_t \<equiv> SInt 32"
abbreviation (input) int64_t :: ctype where "int64_t \<equiv> SInt 64"
abbreviation (input) uint8_t :: ctype where "uint8_t \<equiv> UInt 8"
abbreviation (input) uint16_t :: ctype where "uint16_t \<equiv> UInt 16"
abbreviation (input) uint32_t :: ctype where "uint32_t \<equiv> UInt 32"
abbreviation (input) uint64_t :: ctype where "uint64_t \<equiv> UInt 64"

fun cwidth :: "ctype \<Rightarrow> nat" where
  "cwidth (SInt w) = w"
| "cwidth (UInt w) = w"

text \<open>\<^verbatim>\<open>std::numeric_limits<T>\<close>.\<close>

fun numeric_min :: "ctype \<Rightarrow> int" where
  "numeric_min (SInt w) = - (2 ^ (w - 1))"
| "numeric_min (UInt w) = 0"

fun numeric_max :: "ctype \<Rightarrow> int" where
  "numeric_max (SInt w) = 2 ^ (w - 1) - 1"
| "numeric_max (UInt w) = 2 ^ w - 1"

fun SwapSignedness :: "ctype \<Rightarrow> ctype" where
  "SwapSignedness (SInt w) = UInt w"
| "SwapSignedness (UInt w) = SInt w"

text \<open>\<^verbatim>\<open>static_cast<T>\<close> of an integer: reduction modulo \<open>2 ^ w\<close> into the range of \<^verbatim>\<open>T\<close>.\<close>

fun static_cast :: "ctype \<Rightarrow> int \<Rightarrow> int" where
  "static_cast (SInt w) n = signed_take_bit (w - 1) n"
| "static_cast (UInt w) n = take_bit w n"

definition in_ctype :: "ctype \<Rightarrow> int \<Rightarrow> bool" where
  "in_ctype T n \<longleftrightarrow> numeric_min T \<le> n \<and> n \<le> numeric_max T"

text \<open>\<^verbatim>\<open>gsl::narrow<T>\<close>: the cast, checked to be lossless and sign preserving.\<close>

definition gsl_narrow :: "ctype \<Rightarrow> int \<Rightarrow> int result" where
  "gsl_narrow T n =
     (let t = static_cast T n in if t = n then Inr t else Inl Narrowing_Error)"

definition to_signed :: "nat \<Rightarrow> int \<Rightarrow> int" where
  "to_signed w x = static_cast (SInt w) x"

definition to_unsigned :: "nat \<Rightarrow> int \<Rightarrow> int" where
  "to_unsigned w x = static_cast (UInt w) x"

section \<open>Number\<close>

definition num_fits :: "ctype \<Rightarrow> int \<Rightarrow> bool" where
  "num_fits T n \<longleftrightarrow> numeric_min T \<le> n \<and> n \<le> numeric_max T"

definition num_narrow :: "ctype \<Rightarrow> int \<Rightarrow> int result" where
  "num_narrow T n =
     (if \<not> num_fits T n then Inl (Crab_Error ''Number does not fit into'')
      else Inr (static_cast T n))"

definition num_fits_cast_to :: "ctype \<Rightarrow> int \<Rightarrow> bool" where
  "num_fits_cast_to T n \<longleftrightarrow> num_fits T n \<or> num_fits (SwapSignedness T) n"

definition num_cast_to :: "ctype \<Rightarrow> int \<Rightarrow> int result" where
  "num_cast_to T n =
     (if num_fits T n then Inr (static_cast T n)
      else if num_fits (SwapSignedness T) n
      then Inr (static_cast T (static_cast (SwapSignedness T) n))
      else Inl (Crab_Error ''Number does not fit into''))"

definition num_cast_to_sint :: "int \<Rightarrow> int \<Rightarrow> int result" where
  "num_cast_to_sint width n =
     (if width = 0 then Inr n
      else if width = 8 then num_cast_to int8_t n
      else if width = 16 then num_cast_to int16_t n
      else if width = 32 then num_cast_to int32_t n
      else if width = 64 then num_cast_to int64_t n
      else Inl (Crab_Error ''invalid finite width''))"

definition num_cast_to_uint :: "int \<Rightarrow> int \<Rightarrow> int result" where
  "num_cast_to_uint width n =
     (if width = 0 then Inr n
      else if width = 8 then num_cast_to uint8_t n
      else if width = 16 then num_cast_to uint16_t n
      else if width = 32 then num_cast_to uint32_t n
      else if width = 64 then num_cast_to uint64_t n
      else Inl (Crab_Error ''invalid finite width''))"

definition num_truncate_to :: "ctype \<Rightarrow> int \<Rightarrow> int" where
  "num_truncate_to T n =
     (let U = UInt (cwidth T); msk = numeric_max U
      in static_cast T (static_cast U (n AND msk)))"

definition num_sign_extend_impl :: "nat \<Rightarrow> int \<Rightarrow> int" where
  "num_sign_extend_impl width n =
     (let sign_bit = push_bit (width - 1) 1;
          value_mask = push_bit width 1 - 1;
          offset = push_bit width 1;
          truncated = n AND value_mask
      in if truncated AND sign_bit \<noteq> 0 then truncated - offset else truncated)"

definition num_zero_extend_impl :: "nat \<Rightarrow> int \<Rightarrow> int" where
  "num_zero_extend_impl width n =
     (let value_mask = push_bit width 1 - 1 in n AND value_mask)"

text \<open>
  The switch over the common widths and its default branch compute the same expression; a
  negative width reaches the default branch, where \<^verbatim>\<open>cpp_int\<close> refuses the negative shift.
\<close>

definition num_sign_extend :: "int \<Rightarrow> int \<Rightarrow> int result" where
  "num_sign_extend width n =
     (if width = 0 then Inr n
      else if width < 0 then Inl Out_Of_Range
      else Inr (num_sign_extend_impl (nat width) n))"

definition num_zero_extend :: "int \<Rightarrow> int \<Rightarrow> int result" where
  "num_zero_extend width n =
     (if width = 0 then Inr n
      else if width < 0 then Inl Out_Of_Range
      else Inr (num_zero_extend_impl (nat width) n))"

definition num_max_int :: "nat \<Rightarrow> int" where
  "num_max_int width = push_bit (width - 1) 1 - 1"

definition num_max_uint :: "nat \<Rightarrow> int" where
  "num_max_uint width = num_max_int (width + 1)"

definition num_min_int :: "nat \<Rightarrow> int" where
  "num_min_int width = - push_bit (width - 1) 1"

definition num_div :: "int \<Rightarrow> int \<Rightarrow> int result" where
  "num_div n x = (if x = 0 then Inl (Crab_Error ''Number: division by zero [1]'') else Inr (n sdiv x))"

definition num_mod :: "int \<Rightarrow> int \<Rightarrow> int result" where
  "num_mod n x = (if x = 0 then Inl (Crab_Error ''Number: division by zero [2]'') else Inr (n smod x))"

definition num_abs :: "int \<Rightarrow> int" where
  "num_abs n = (if n < 0 then - n else n)"

definition num_shl :: "int \<Rightarrow> int \<Rightarrow> int result" where
  "num_shl n x =
     (if x < 0 then Inl (Crab_Error ''Shift amount cannot be negative'')
      else if \<not> num_fits int32_t x then Inl (Crab_Error ''Number does not fit into an int32'')
      else rmap (\<lambda>k. push_bit (nat k) n) (num_narrow int32_t x))"

definition num_shr :: "int \<Rightarrow> int \<Rightarrow> int result" where
  "num_shr n x =
     (if x < 0 then Inl (Crab_Error ''Shift amount cannot be negative'')
      else if \<not> num_fits int32_t x then Inl (Crab_Error ''Number does not fit into an int32'')
      else rmap (\<lambda>k. drop_bit (nat k) n) (num_narrow int32_t x))"

text \<open>\<^verbatim>\<open>msb\<close> of a positive integer: the index of its highest one bit. It throws on other arguments.\<close>

fun msb_nat :: "nat \<Rightarrow> nat" where
  "msb_nat n = (if n \<le> 1 then 0 else Suc (msb_nat (n div 2)))"

declare msb_nat.simps [simp del]

definition num_msb :: "int \<Rightarrow> nat result" where
  "num_msb n = (if n \<le> 0 then Inl Out_Of_Range else Inr (msb_nat (nat n)))"

definition num_fill_ones :: "int \<Rightarrow> int result" where
  "num_fill_ones n =
     (if n = 0 then Inr 0 else rmap (\<lambda>m. push_bit (m + 1) 1 - 1) (num_msb n))"

section \<open>Characterisations\<close>

lemma static_cast_cong_mod: "0 < cwidth T \<Longrightarrow> static_cast T n mod 2 ^ cwidth T = n mod 2 ^ cwidth T"
proof (cases T)
  case (SInt w)
  assume "0 < cwidth T"
  then obtain k where k: "w = Suc k" using SInt by (cases w) auto
  have "take_bit (Suc k) (signed_take_bit k n) = take_bit (Suc k) n"
    by (simp add: take_bit_signed_take_bit)
  then show ?thesis using SInt k by (simp add: take_bit_eq_mod)
qed (simp add: take_bit_eq_mod)

lemma static_cast_in_ctype: "0 < cwidth T \<Longrightarrow> in_ctype T (static_cast T n)"
proof (cases T)
  case (SInt w)
  then show ?thesis
    using signed_take_bit_int_greater_eq_minus_exp[of "w - 1" n] signed_take_bit_int_less_exp[of "w - 1" n]
    by (auto simp: in_ctype_def)
next
  case (UInt w)
  then show ?thesis
    using take_bit_int_less_exp[of w n] by (auto simp: in_ctype_def)
qed

lemma static_cast_id: "0 < cwidth T \<Longrightarrow> in_ctype T n \<Longrightarrow> static_cast T n = n"
  by (cases T) (auto simp: in_ctype_def take_bit_int_eq_self_iff signed_take_bit_int_eq_self_iff)

lemma static_cast_eq_self_iff: "0 < cwidth T \<Longrightarrow> static_cast T n = n \<longleftrightarrow> in_ctype T n"
  using static_cast_id static_cast_in_ctype by metis

lemma num_fits_iff [number_simps]: "num_fits T n \<longleftrightarrow> in_ctype T n"
  by (simp add: num_fits_def in_ctype_def)

lemma gsl_narrow_iff: "0 < cwidth T \<Longrightarrow> gsl_narrow T n = (if in_ctype T n then Inr n else Inl Narrowing_Error)"
  by (auto simp: gsl_narrow_def Let_def static_cast_eq_self_iff static_cast_id)

lemma num_narrow_iff [number_simps]:
  "0 < cwidth T \<Longrightarrow> num_narrow T n = (if in_ctype T n then Inr n else Inl (Crab_Error ''Number does not fit into''))"
  by (auto simp: num_narrow_def num_fits_iff static_cast_id)

lemma cwidth_SwapSignedness [simp]: "cwidth (SwapSignedness T) = cwidth T"
  by (cases T) auto

lemma num_cast_to_eq:
  assumes "0 < cwidth T"
  shows "num_cast_to T n =
    (if num_fits_cast_to T n then Inr (static_cast T n) else Inl (Crab_Error ''Number does not fit into''))"
  using assms
  by (auto simp: num_cast_to_def num_fits_cast_to_def num_fits_iff static_cast_id)

text \<open>Two values of a type that are congruent modulo its width are equal: the cast is determined.\<close>

lemma in_ctype_cong_eq:
  assumes "0 < cwidth T" "in_ctype T a" "in_ctype T b" "a mod 2 ^ cwidth T = b mod 2 ^ cwidth T"
  shows "a = b"
proof (cases T)
  case (UInt w)
  then show ?thesis using assms by (simp add: in_ctype_def)
next
  case (SInt w)
  then obtain k where k: "w = Suc k" using assms by (cases w) auto
  have "(2::int) ^ Suc k dvd a - b" using assms SInt k by (simp add: mod_eq_dvd_iff)
  then obtain q where q: "a - b = 2 ^ Suc k * q" by (auto elim: dvdE)
  have "\<bar>a - b\<bar> < 2 ^ Suc k" using assms SInt k by (auto simp: in_ctype_def)
  then have "\<bar>q\<bar> * 2 ^ Suc k < 1 * 2 ^ Suc k" using q by (simp add: abs_mult mult.commute)
  then have "\<bar>q\<bar> < 1" by (rule mult_right_less_imp_less) simp
  then show ?thesis using q by simp
qed

lemma push_bit_1 [number_simps]: "push_bit w (1::int) = 2 ^ w"
  by (simp add: push_bit_eq_mult)

lemma and_ones [number_simps]: "(n::int) AND (2 ^ w - 1) = take_bit w n"
  by (simp add: take_bit_eq_mask mask_eq_exp_minus_1)

lemma and_push_bit_ones: "(n::int) AND (push_bit w 1 - 1) = take_bit w n"
  by (simp only: push_bit_1 and_ones)

lemma take_bit_and_sign_bit:
  "(take_bit (Suc k) (n::int) AND push_bit k 1 = 0) \<longleftrightarrow> \<not> bit n k"
proof -
  have "take_bit (Suc k) n AND push_bit k 1 = push_bit k (of_bool (bit n k))"
    by (rule bit_eqI) (auto simp: bit_simps)
  then show ?thesis by (simp add: push_bit_eq_mult)
qed

lemma num_sign_extend_impl_eq [number_simps]:
  assumes "0 < w"
  shows "num_sign_extend_impl w n = signed_take_bit (w - 1) n"
proof -
  obtain k where k: "w = Suc k" using assms by (cases w) auto
  have "signed_take_bit k n = take_bit (Suc k) n - 2 ^ Suc k * of_bool (bit n k)"
    by (simp add: signed_take_bit_eq_take_bit_minus)
  then show ?thesis
    unfolding num_sign_extend_impl_def Let_def k and_push_bit_ones diff_Suc_1 take_bit_and_sign_bit
    by simp
qed

lemma num_zero_extend_impl_eq [number_simps]: "num_zero_extend_impl w n = take_bit w n"
  by (simp add: num_zero_extend_impl_def number_simps Let_def)

lemma num_max_int_eq [number_simps]: "num_max_int w = 2 ^ (w - 1) - 1"
  by (simp add: num_max_int_def number_simps)

lemma num_max_uint_eq [number_simps]: "num_max_uint w = 2 ^ w - 1"
  by (simp add: num_max_uint_def number_simps)

lemma num_min_int_eq [number_simps]: "num_min_int w = - (2 ^ (w - 1))"
  by (simp add: num_min_int_def number_simps)

lemma num_abs_eq [number_simps]: "num_abs n = \<bar>n\<bar>"
  by (simp add: num_abs_def)

lemma num_truncate_to_eq [number_simps]:
  assumes "0 < cwidth T"
  shows "num_truncate_to T n = static_cast T n"
proof (cases T)
  case (SInt w)
  then obtain k where "w = Suc k" using assms by (cases w) auto
  then show ?thesis using SInt
    by (simp add: num_truncate_to_def Let_def and_ones signed_take_bit_take_bit del: power_Suc take_bit_and)
qed (simp add: num_truncate_to_def Let_def and_ones)

lemma num_shr_eq [number_simps]:
  "0 \<le> x \<Longrightarrow> x < 2 ^ 31 \<Longrightarrow> num_shr n x = Inr (drop_bit (nat x) n)"
  by (simp add: num_shr_def num_narrow_iff num_fits_iff in_ctype_def)

lemma num_shl_eq [number_simps]:
  "0 \<le> x \<Longrightarrow> x < 2 ^ 31 \<Longrightarrow> num_shl n x = Inr (push_bit (nat x) n)"
  by (simp add: num_shl_def num_narrow_iff num_fits_iff in_ctype_def)

lemma msb_nat_bounds: "0 < n \<Longrightarrow> 2 ^ msb_nat n \<le> n \<and> n < 2 ^ Suc (msb_nat n)"
proof (induction n rule: msb_nat.induct)
  case (1 n)
  show ?case
  proof (cases "n \<le> 1")
    case True
    with "1.prems" show ?thesis by (subst (1 2) msb_nat.simps) auto
  next
    case False
    with "1.IH" have "2 ^ msb_nat (n div 2) \<le> n div 2" "n div 2 < 2 ^ Suc (msb_nat (n div 2))"
      by auto
    with False show ?thesis by (subst (1 2) msb_nat.simps) auto
  qed
qed

text \<open>\<open>fill_ones\<close> returns the least all-ones number that is at least its argument.\<close>

lemma num_fill_ones_ok:
  assumes "0 \<le> n"
  shows "\<exists>k. num_fill_ones n = Inr (2 ^ k - 1) \<and> n < 2 ^ k \<and> (\<forall>j. n < 2 ^ j \<longrightarrow> k \<le> j)"
proof (cases "n = 0")
  case True
  then show ?thesis by (auto simp: num_fill_ones_def intro!: exI[of _ 0])
next
  case False
  define m where "m = msb_nat (nat n)"
  have "2 ^ m \<le> nat n" "nat n < 2 ^ Suc m"
    using msb_nat_bounds[of "nat n"] assms False by (auto simp: m_def)
  then have b: "2 ^ m \<le> n" "n < 2 ^ Suc m"
    using assms by (auto simp: nat_less_iff le_nat_iff)
  have "\<forall>j. n < 2 ^ j \<longrightarrow> Suc m \<le> j"
  proof (intro allI impI)
    fix j assume "n < 2 ^ j"
    with b have "(2::int) ^ m < 2 ^ j" by linarith
    then show "Suc m \<le> j" by (simp add: power_strict_increasing_iff)
  qed
  then show ?thesis
    using b assms False
    by (intro exI[of _ "Suc m"]) (simp add: num_fill_ones_def num_msb_def number_simps m_def)
qed

end
