(* ===== verification/Number_Extended.thy ===== *)
theory Number_Extended
  imports Number_Big
begin

text \<open>
  \<^verbatim>\<open>class ExtendedNumber\<close> of \<^verbatim>\<open>arith/num_extended.hpp\<close>, the bounds of intervals: a number
  or a signed infinity, represented as a flag and a \<^verbatim>\<open>Number\<close> that is \<open>1\<close> or \<open>-1\<close> for the
  infinities. The representation invariant is \<open>ext_wf\<close>; \<open>ext_abs\<close> maps a bound to the linearly
  ordered extended integers \<open>xint\<close>, which are the specification of the class: every operation
  is shown to compute the operation of \<open>xint\<close>, or to throw exactly where that is undefined.
\<close>

section \<open>The class\<close>

record ExtendedNumber =
  is_infinite :: bool
  ext_n :: int

definition ext_make :: "bool \<Rightarrow> int \<Rightarrow> ExtendedNumber" where
  "ext_make is_inf n =
     (if is_inf then (if n > 0 then \<lparr>is_infinite = True, ext_n = 1\<rparr> else \<lparr>is_infinite = True, ext_n = -1\<rparr>)
      else \<lparr>is_infinite = False, ext_n = n\<rparr>)"

definition plus_infinity :: ExtendedNumber where
  "plus_infinity = ext_make True 1"

definition minus_infinity :: ExtendedNumber where
  "minus_infinity = ext_make True (-1)"

definition ext_of :: "int \<Rightarrow> ExtendedNumber" where
  "ext_of n = \<lparr>is_infinite = False, ext_n = n\<rparr>"

definition ext_narrow :: "ctype \<Rightarrow> ExtendedNumber \<Rightarrow> int result" where
  "ext_narrow T x =
     (if is_infinite x then Inl (Crab_Error ''Bound: cannot narrow infinite value'')
      else num_narrow T (ext_n x))"

definition is_finite :: "ExtendedNumber \<Rightarrow> bool" where
  "is_finite x \<longleftrightarrow> \<not> is_infinite x"

definition is_plus_infinity :: "ExtendedNumber \<Rightarrow> bool" where
  "is_plus_infinity x \<longleftrightarrow> is_infinite x \<and> ext_n x > 0"

definition is_minus_infinity :: "ExtendedNumber \<Rightarrow> bool" where
  "is_minus_infinity x \<longleftrightarrow> is_infinite x \<and> ext_n x < 0"

definition ext_neg :: "ExtendedNumber \<Rightarrow> ExtendedNumber" where
  "ext_neg x = ext_make (is_infinite x) (- ext_n x)"

definition ext_add :: "ExtendedNumber \<Rightarrow> ExtendedNumber \<Rightarrow> ExtendedNumber result" where
  "ext_add a x =
     (if is_finite a then (if is_finite x then Inr (ext_of (ext_n a + ext_n x)) else Inr x)
      else if is_finite x \<or> ext_n x = ext_n a then Inr a
      else Inl (Crab_Error ''Bound: undefined operation -oo + +oo''))"

definition ext_sub :: "ExtendedNumber \<Rightarrow> ExtendedNumber \<Rightarrow> ExtendedNumber result" where
  "ext_sub a x = ext_add a (ext_neg x)"

definition ext_mul :: "ExtendedNumber \<Rightarrow> ExtendedNumber \<Rightarrow> ExtendedNumber" where
  "ext_mul a x =
     (if ext_n x = 0 then x
      else if ext_n a = 0 then a
      else ext_make (is_infinite a \<or> is_infinite x) (ext_n a * ext_n x))"

definition ext_AbsDiv ::
  "ExtendedNumber \<Rightarrow> ExtendedNumber \<Rightarrow> (int \<Rightarrow> int \<Rightarrow> ExtendedNumber result) \<Rightarrow> ExtendedNumber result" where
  "ext_AbsDiv a x f =
     (if ext_n x = 0 then Inl (Crab_Error ''Bound: division by zero'')
      else if is_infinite x then
        (if is_infinite a then Inl (Crab_Error ''Bound: inf / inf'') else Inr (ext_of 0))
      else if is_infinite a then Inr a
      else f (ext_n a) (ext_n x))"

definition ext_div :: "ExtendedNumber \<Rightarrow> ExtendedNumber \<Rightarrow> ExtendedNumber result" where
  "ext_div a x = ext_AbsDiv a x (\<lambda>dividend divisor. rmap ext_of (num_div dividend divisor))"

definition ext_mod :: "ExtendedNumber \<Rightarrow> ExtendedNumber \<Rightarrow> ExtendedNumber result" where
  "ext_mod a x = ext_AbsDiv a x (\<lambda>dividend divisor. rmap ext_of (num_mod dividend divisor))"

text \<open>The operand conversion of \<^verbatim>\<open>udiv\<close> and \<^verbatim>\<open>urem\<close>: a negative number is read as a \<^verbatim>\<open>uint64_t\<close>.\<close>

definition as_uint64 :: "int \<Rightarrow> int result" where
  "as_uint64 n = (if n \<ge> 0 then Inr n else num_cast_to uint64_t n)"

definition ext_udiv :: "ExtendedNumber \<Rightarrow> ExtendedNumber \<Rightarrow> ExtendedNumber result" where
  "ext_udiv a x = ext_AbsDiv a x (\<lambda>dividend divisor.
     rbind (as_uint64 dividend) (\<lambda>p. rbind (as_uint64 divisor) (\<lambda>q. rmap ext_of (num_div p q))))"

definition ext_urem :: "ExtendedNumber \<Rightarrow> ExtendedNumber \<Rightarrow> ExtendedNumber result" where
  "ext_urem a x = ext_AbsDiv a x (\<lambda>dividend divisor.
     rbind (as_uint64 dividend) (\<lambda>p. rbind (as_uint64 divisor) (\<lambda>q. rmap ext_of (num_mod p q))))"

definition ext_le :: "ExtendedNumber \<Rightarrow> ExtendedNumber \<Rightarrow> bool" where
  "ext_le a x =
     (if is_infinite a \<noteq> is_infinite x then
        (if is_infinite a then ext_n a < 0 else ext_n x > 0)
      else ext_n a \<le> ext_n x)"

definition ext_ge :: "ExtendedNumber \<Rightarrow> ExtendedNumber \<Rightarrow> bool" where
  "ext_ge a x =
     (if is_infinite a \<noteq> is_infinite x then
        (if is_infinite a then ext_n a > 0 else ext_n x < 0)
      else ext_n a \<ge> ext_n x)"

definition ext_lt :: "ExtendedNumber \<Rightarrow> ExtendedNumber \<Rightarrow> bool" where
  "ext_lt a x \<longleftrightarrow> \<not> ext_ge a x"

definition ext_gt :: "ExtendedNumber \<Rightarrow> ExtendedNumber \<Rightarrow> bool" where
  "ext_gt a x \<longleftrightarrow> \<not> ext_le a x"

definition ext_eq :: "ExtendedNumber \<Rightarrow> ExtendedNumber \<Rightarrow> bool" where
  "ext_eq a x \<longleftrightarrow> is_infinite a = is_infinite x \<and> ext_n a = ext_n x"

definition ext_sign_extend :: "int \<Rightarrow> ExtendedNumber \<Rightarrow> int result" where
  "ext_sign_extend width x =
     (if is_infinite x then Inl (Crab_Error ''Bound: infinity cannot be sign_extended'')
      else num_sign_extend width (ext_n x))"

definition ext_zero_extend :: "int \<Rightarrow> ExtendedNumber \<Rightarrow> int result" where
  "ext_zero_extend width x =
     (if is_infinite x then Inl (Crab_Error ''Bound: infinity cannot be zero_extended'')
      else num_zero_extend width (ext_n x))"

definition ext_abs_val :: "ExtendedNumber \<Rightarrow> ExtendedNumber" where
  "ext_abs_val x = (if ext_ge x (ext_of 0) then x else ext_neg x)"

definition ext_number :: "ExtendedNumber \<Rightarrow> int option" where
  "ext_number x = (if is_infinite x then None else Some (ext_n x))"

text \<open>\<^verbatim>\<open>std::min\<close>, \<^verbatim>\<open>std::max\<close> and \<^verbatim>\<open>std::minmax\<close> of a list at this type.\<close>

definition ext_min :: "ExtendedNumber \<Rightarrow> ExtendedNumber \<Rightarrow> ExtendedNumber" where
  "ext_min a b = (if ext_lt b a then b else a)"

definition ext_max :: "ExtendedNumber \<Rightarrow> ExtendedNumber \<Rightarrow> ExtendedNumber" where
  "ext_max a b = (if ext_lt a b then b else a)"

definition ext_minmax :: "ExtendedNumber \<Rightarrow> ExtendedNumber list \<Rightarrow> ExtendedNumber \<times> ExtendedNumber" where
  "ext_minmax a xs = (foldl ext_min a xs, foldl ext_max a xs)"

section \<open>Specification: extended integers\<close>

datatype xint = MInf | Fin int | PInf

instantiation xint :: linorder
begin

fun less_eq_xint :: "xint \<Rightarrow> xint \<Rightarrow> bool" where
  "less_eq_xint MInf y = True"
| "less_eq_xint (Fin a) MInf = False"
| "less_eq_xint (Fin a) (Fin b) = (a \<le> b)"
| "less_eq_xint (Fin a) PInf = True"
| "less_eq_xint PInf y = (y = PInf)"

definition less_xint :: "xint \<Rightarrow> xint \<Rightarrow> bool" where
  "less_xint x y \<longleftrightarrow> x \<le> y \<and> \<not> y \<le> x"

instance
proof
  fix x y z :: xint
  show "(x < y) = (x \<le> y \<and> \<not> y \<le> x)" by (rule less_xint_def)
  show "x \<le> x" by (cases x) auto
  show "x \<le> y \<Longrightarrow> y \<le> z \<Longrightarrow> x \<le> z" by (cases x; cases y; cases z) auto
  show "x \<le> y \<Longrightarrow> y \<le> x \<Longrightarrow> x = y" by (cases x; cases y) auto
  show "x \<le> y \<or> y \<le> x" by (cases x; cases y) auto
qed

end

lemma xint_le_simps [simp]:
  "Fin a \<le> Fin b \<longleftrightarrow> a \<le> b" "x \<le> PInf" "PInf \<le> x \<longleftrightarrow> x = PInf" "MInf \<le> x" "x \<le> MInf \<longleftrightarrow> x = MInf"
  by (cases x; auto)+

lemma xint_less_simps [simp]:
  "Fin a < Fin b \<longleftrightarrow> a < b" "Fin a < PInf" "MInf < Fin a" "MInf < PInf"
  "\<not> PInf < x" "\<not> x < MInf"
  by (auto simp: less_xint_def)

definition ext_wf :: "ExtendedNumber \<Rightarrow> bool" where
  "ext_wf x \<longleftrightarrow> (is_infinite x \<longrightarrow> ext_n x = 1 \<or> ext_n x = -1)"

definition ext_abs :: "ExtendedNumber \<Rightarrow> xint" where
  "ext_abs x = (if is_infinite x then (if ext_n x > 0 then PInf else MInf) else Fin (ext_n x))"

fun xint_neg :: "xint \<Rightarrow> xint" where
  "xint_neg MInf = PInf"
| "xint_neg (Fin a) = Fin (- a)"
| "xint_neg PInf = MInf"

text \<open>The sum, where it is defined: opposite infinities have none.\<close>

fun xint_add :: "xint \<Rightarrow> xint \<Rightarrow> xint option" where
  "xint_add (Fin a) (Fin b) = Some (Fin (a + b))"
| "xint_add (Fin a) y = Some y"
| "xint_add x (Fin b) = Some x"
| "xint_add x y = (if x = y then Some x else None)"

text \<open>The product, with \<open>0 * \<infinity> = 0\<close>.\<close>

fun xint_sgn :: "xint \<Rightarrow> int" where
  "xint_sgn MInf = -1"
| "xint_sgn (Fin a) = sgn a"
| "xint_sgn PInf = 1"

fun xint_mul :: "xint \<Rightarrow> xint \<Rightarrow> xint" where
  "xint_mul (Fin a) (Fin b) = Fin (a * b)"
| "xint_mul x y = (case xint_sgn x * xint_sgn y of s \<Rightarrow> if s = 0 then Fin 0 else if s > 0 then PInf else MInf)"

section \<open>Refinement\<close>

lemma ext_wf_intros [simp]:
  "ext_wf (ext_make b n)" "ext_wf plus_infinity" "ext_wf minus_infinity" "ext_wf (ext_of n)"
  "ext_wf (ext_neg x)"
  by (auto simp: ext_wf_def ext_make_def plus_infinity_def minus_infinity_def ext_of_def ext_neg_def)

lemma ext_abs_consts [simp]:
  "ext_abs plus_infinity = PInf" "ext_abs minus_infinity = MInf" "ext_abs (ext_of n) = Fin n"
  by (simp_all add: ext_abs_def plus_infinity_def minus_infinity_def ext_make_def ext_of_def)

lemma ext_abs_inj: "ext_wf a \<Longrightarrow> ext_wf b \<Longrightarrow> ext_abs a = ext_abs b \<Longrightarrow> a = b"
  by (cases a; cases b) (auto simp: ext_wf_def ext_abs_def split: if_splits)

lemma ext_abs_Fin_iff [bound_simps]: "ext_abs x = Fin n \<longleftrightarrow> \<not> is_infinite x \<and> ext_n x = n"
  by (auto simp: ext_abs_def)

lemma ext_wf_cases:
  assumes "ext_wf x"
  obtains "x = plus_infinity" | "x = minus_infinity" | n where "x = ext_of n"
proof (cases "ext_abs x")
  case MInf
  then show ?thesis using that assms ext_abs_inj[of x minus_infinity] by simp
next
  case (Fin n)
  then show ?thesis using that assms ext_abs_inj[of x "ext_of n"] by simp
next
  case PInf
  then show ?thesis using that assms ext_abs_inj[of x plus_infinity] by simp
qed

lemma ext_le_abs [bound_simps]: "ext_wf a \<Longrightarrow> ext_wf b \<Longrightarrow> ext_le a b \<longleftrightarrow> ext_abs a \<le> ext_abs b"
  by (auto simp: ext_le_def ext_abs_def ext_wf_def)

lemma ext_ge_abs [bound_simps]: "ext_wf a \<Longrightarrow> ext_wf b \<Longrightarrow> ext_ge a b \<longleftrightarrow> ext_abs b \<le> ext_abs a"
  by (auto simp: ext_ge_def ext_abs_def ext_wf_def)

lemma ext_lt_abs [bound_simps]: "ext_wf a \<Longrightarrow> ext_wf b \<Longrightarrow> ext_lt a b \<longleftrightarrow> ext_abs a < ext_abs b"
  by (auto simp: ext_lt_def ext_ge_abs)

lemma ext_gt_abs [bound_simps]: "ext_wf a \<Longrightarrow> ext_wf b \<Longrightarrow> ext_gt a b \<longleftrightarrow> ext_abs b < ext_abs a"
  by (auto simp: ext_gt_def ext_le_abs)

lemma ext_eq_abs [bound_simps]: "ext_wf a \<Longrightarrow> ext_wf b \<Longrightarrow> ext_eq a b \<longleftrightarrow> ext_abs a = ext_abs b"
  by (auto simp: ext_eq_def ext_abs_def ext_wf_def)

lemma ext_eq_iff [simp]: "ext_eq a b \<longleftrightarrow> a = (b :: ExtendedNumber)"
  by (cases a; cases b) (auto simp: ext_eq_def)

lemma ext_abs_neg [bound_simps]: "ext_wf x \<Longrightarrow> ext_abs (ext_neg x) = xint_neg (ext_abs x)"
  by (auto simp: ext_neg_def ext_make_def ext_abs_def ext_wf_def)

lemma ext_add_abs:
  assumes "ext_wf a" "ext_wf b"
  shows "case xint_add (ext_abs a) (ext_abs b) of
      None \<Rightarrow> ext_add a b = Inl (Crab_Error ''Bound: undefined operation -oo + +oo'')
    | Some z \<Rightarrow> (\<exists>r. ext_add a b = Inr r \<and> ext_wf r \<and> ext_abs r = z)"
  using assms by (auto simp: ext_add_def ext_abs_def is_finite_def ext_wf_def ext_of_def)

lemma ext_add_ok:
  assumes "ext_wf a" "ext_wf b" "xint_add (ext_abs a) (ext_abs b) = Some z"
  shows "\<exists>r. ext_add a b = Inr r \<and> ext_wf r \<and> ext_abs r = z"
  using ext_add_abs[OF assms(1,2)] assms(3) by simp

lemma ext_mul_abs [bound_simps]:
  assumes "ext_wf a" "ext_wf b"
  shows "ext_wf (ext_mul a b) \<and> ext_abs (ext_mul a b) = xint_mul (ext_abs a) (ext_abs b)"
  using assms
  by (auto simp: ext_mul_def ext_abs_def ext_wf_def ext_make_def sgn_if zero_less_mult_iff split: if_splits)

lemma ext_min_abs [bound_simps]:
  "ext_wf a \<Longrightarrow> ext_wf b \<Longrightarrow> ext_wf (ext_min a b) \<and> ext_abs (ext_min a b) = min (ext_abs a) (ext_abs b)"
  by (auto simp: ext_min_def ext_lt_abs min_def)

lemma ext_max_abs [bound_simps]:
  "ext_wf a \<Longrightarrow> ext_wf b \<Longrightarrow> ext_wf (ext_max a b) \<and> ext_abs (ext_max a b) = max (ext_abs a) (ext_abs b)"
  by (auto simp: ext_max_def ext_lt_abs max_def)

lemma ext_foldl_min:
  "ext_wf a \<Longrightarrow> (\<forall>x\<in>set xs. ext_wf x) \<Longrightarrow>
    ext_wf (foldl ext_min a xs) \<and> ext_abs (foldl ext_min a xs) = foldl min (ext_abs a) (map ext_abs xs)"
  by (induction xs arbitrary: a) (auto simp: ext_min_abs)

lemma ext_foldl_max:
  "ext_wf a \<Longrightarrow> (\<forall>x\<in>set xs. ext_wf x) \<Longrightarrow>
    ext_wf (foldl ext_max a xs) \<and> ext_abs (foldl ext_max a xs) = foldl max (ext_abs a) (map ext_abs xs)"
  by (induction xs arbitrary: a) (auto simp: ext_max_abs)

lemma is_infinite_consts [simp]:
  "is_infinite plus_infinity" "is_infinite minus_infinity" "\<not> is_infinite (ext_of n)" "ext_n (ext_of n) = n"
  by (simp_all add: plus_infinity_def minus_infinity_def ext_make_def ext_of_def)

lemma ext_div_finite [bound_simps]:
  "b \<noteq> 0 \<Longrightarrow> ext_div (ext_of a) (ext_of b) = Inr (ext_of (a sdiv b))"
  by (simp add: ext_div_def ext_AbsDiv_def num_div_def)

lemma ext_udiv_finite [bound_simps]:
  "0 \<le> a \<Longrightarrow> 0 < b \<Longrightarrow> ext_udiv (ext_of a) (ext_of b) = Inr (ext_of (a div b))"
  by (simp add: ext_udiv_def ext_AbsDiv_def num_div_def as_uint64_def sdiv_eq_div_pos)

end
