(* ===== verification/Interval_Domain.thy ===== *)
theory Interval_Domain
  imports Number_Extended
begin

unbundle bit_operations_syntax

text \<open>
  \<^verbatim>\<open>class Interval\<close> of \<^verbatim>\<open>crab/interval.hpp\<close> and \<^verbatim>\<open>crab/interval.cpp\<close>: the intervals of
  integers with possibly infinite bounds on which the numeric analysis of registers rests.
  Operations that can throw (an undefined sum of bounds, a division of infinities, a value
  that does not fit a machine type) return a \<open>result\<close>.

  This theory holds the class; \<open>Interval_Sound\<close> gives its meaning and proves the operations
  against it.
\<close>

section \<open>Construction and tests\<close>

record Interval =
  iv_lb :: ExtendedNumber
  iv_ub :: ExtendedNumber

definition iv_bottom :: Interval where
  "iv_bottom = \<lparr>iv_lb = ext_of 0, iv_ub = ext_of (-1)\<rparr>"

definition iv_make :: "ExtendedNumber \<Rightarrow> ExtendedNumber \<Rightarrow> Interval" where
  "iv_make l u =
     \<lparr>iv_lb = (if ext_gt l u then ext_of 0 else l),
      iv_ub = (if ext_gt l u then ext_of (-1) else u)\<rparr>"

definition iv_top :: Interval where
  "iv_top = iv_make minus_infinity plus_infinity"

definition iv_of_bound :: "ExtendedNumber \<Rightarrow> Interval" where
  "iv_of_bound b =
     \<lparr>iv_lb = (if is_infinite b then ext_of 0 else b),
      iv_ub = (if is_infinite b then ext_of (-1) else b)\<rparr>"

definition iv_of :: "int \<Rightarrow> Interval" where
  "iv_of n = \<lparr>iv_lb = ext_of n, iv_ub = ext_of n\<rparr>"

definition iv_range :: "int \<Rightarrow> int \<Rightarrow> Interval" where
  "iv_range l u = iv_make (ext_of l) (ext_of u)"

definition iv_pair_number :: "Interval \<Rightarrow> (int \<times> int) result" where
  "iv_pair_number i =
     (case ext_number (iv_lb i) of None \<Rightarrow> Inl Bad_Access
      | Some l \<Rightarrow> (case ext_number (iv_ub i) of None \<Rightarrow> Inl Bad_Access | Some u \<Rightarrow> Inr (l, u)))"

definition iv_pair :: "ctype \<Rightarrow> Interval \<Rightarrow> (int \<times> int) result" where
  "iv_pair T i = rbind (ext_narrow T (iv_lb i)) (\<lambda>l. rmap (Pair l) (ext_narrow T (iv_ub i)))"

definition iv_finite_size :: "Interval \<Rightarrow> int option result" where
  "iv_finite_size i = rmap ext_number (ext_sub (iv_ub i) (iv_lb i))"

definition iv_is_bottom :: "Interval \<Rightarrow> bool" where
  "iv_is_bottom i \<longleftrightarrow> ext_gt (iv_lb i) (iv_ub i)"

definition iv_is_top :: "Interval \<Rightarrow> bool" where
  "iv_is_top i \<longleftrightarrow> is_infinite (iv_lb i) \<and> is_infinite (iv_ub i)"

definition iv_eq :: "Interval \<Rightarrow> Interval \<Rightarrow> bool" where
  "iv_eq i x =
     (if iv_is_bottom i then iv_is_bottom x
      else ext_eq (iv_lb i) (iv_lb x) \<and> ext_eq (iv_ub i) (iv_ub x))"

definition iv_size :: "Interval \<Rightarrow> ExtendedNumber result" where
  "iv_size i =
     (if iv_is_bottom i then Inr (ext_of 0)
      else rbind (ext_sub (iv_ub i) (iv_lb i)) (\<lambda>d. ext_add d (ext_of 1)))"

definition iv_is_singleton :: "Interval \<Rightarrow> bool" where
  "iv_is_singleton i \<longleftrightarrow> ext_eq (iv_lb i) (iv_ub i)"

definition iv_singleton :: "Interval \<Rightarrow> int option" where
  "iv_singleton i = (if iv_is_singleton i then ext_number (iv_lb i) else None)"

definition iv_contains :: "Interval \<Rightarrow> int \<Rightarrow> bool" where
  "iv_contains i n =
     (if iv_is_bottom i then False
      else ext_le (iv_lb i) (ext_of n) \<and> ext_le (ext_of n) (iv_ub i))"

section \<open>Lattice operations\<close>

definition iv_le :: "Interval \<Rightarrow> Interval \<Rightarrow> bool" where
  "iv_le i x =
     (if iv_is_bottom i then True
      else if iv_is_bottom x then False
      else ext_le (iv_lb x) (iv_lb i) \<and> ext_le (iv_ub i) (iv_ub x))"

definition iv_join :: "Interval \<Rightarrow> Interval \<Rightarrow> Interval" where
  "iv_join i x =
     (if iv_is_bottom i then x
      else if iv_is_bottom x then i
      else iv_make (ext_min (iv_lb i) (iv_lb x)) (ext_max (iv_ub i) (iv_ub x)))"

definition iv_meet :: "Interval \<Rightarrow> Interval \<Rightarrow> Interval" where
  "iv_meet i x =
     (if iv_is_bottom i \<or> iv_is_bottom x then iv_bottom
      else iv_make (ext_max (iv_lb i) (iv_lb x)) (ext_min (iv_ub i) (iv_ub x)))"

definition iv_widen :: "Interval \<Rightarrow> Interval \<Rightarrow> Interval" where
  "iv_widen i x =
     (if iv_is_bottom i then x
      else if iv_is_bottom x then i
      else iv_make (if ext_lt (iv_lb x) (iv_lb i) then minus_infinity else iv_lb i)
                   (if ext_lt (iv_ub i) (iv_ub x) then plus_infinity else iv_ub i))"

definition iv_narrow :: "Interval \<Rightarrow> Interval \<Rightarrow> Interval" where
  "iv_narrow i x =
     (if iv_is_bottom i \<or> iv_is_bottom x then iv_bottom
      else iv_make (if is_infinite (iv_lb i) \<and> is_finite (iv_lb x) then iv_lb x else iv_lb i)
                   (if is_infinite (iv_ub i) \<and> is_finite (iv_ub x) then iv_ub x else iv_ub i))"

text \<open>\<^verbatim>\<open>Interval::bound\<close>: the bounds, clipped to a range of the machine type and narrowed to it.\<close>

definition iv_bound :: "ctype \<Rightarrow> int \<Rightarrow> int \<Rightarrow> Interval \<Rightarrow> (int \<times> int) result" where
  "iv_bound T l u i =
     (let b = iv_meet (iv_range l u) i
      in if iv_is_bottom b then Inl (Crab_Error ''Cannot convert bottom to tuple'') else iv_pair T b)"

section \<open>Arithmetic\<close>

definition iv_add :: "Interval \<Rightarrow> Interval \<Rightarrow> Interval result" where
  "iv_add i x =
     (if iv_is_bottom i \<or> iv_is_bottom x then Inr iv_bottom
      else rbind (ext_add (iv_lb i) (iv_lb x)) (\<lambda>l.
           rbind (ext_add (iv_ub i) (iv_ub x)) (\<lambda>u. Inr (iv_make l u))))"

definition iv_neg :: "Interval \<Rightarrow> Interval" where
  "iv_neg i = (if iv_is_bottom i then iv_bottom else iv_make (ext_neg (iv_ub i)) (ext_neg (iv_lb i)))"

definition iv_sub :: "Interval \<Rightarrow> Interval \<Rightarrow> Interval result" where
  "iv_sub i x =
     (if iv_is_bottom i \<or> iv_is_bottom x then Inr iv_bottom
      else rbind (ext_sub (iv_lb i) (iv_ub x)) (\<lambda>l.
           rbind (ext_sub (iv_ub i) (iv_lb x)) (\<lambda>u. Inr (iv_make l u))))"

definition iv_mul :: "Interval \<Rightarrow> Interval \<Rightarrow> Interval" where
  "iv_mul i x =
     (if iv_is_bottom i \<or> iv_is_bottom x then iv_bottom
      else let (clb, cub) = ext_minmax (ext_mul (iv_lb i) (iv_lb x))
                 [ext_mul (iv_lb i) (iv_ub x), ext_mul (iv_ub i) (iv_lb x), ext_mul (iv_ub i) (iv_ub x)]
           in iv_make clb cub)"

definition make_dividend_when_both_nonzero :: "Interval \<Rightarrow> Interval \<Rightarrow> Interval result" where
  "make_dividend_when_both_nonzero dividend divisor =
     (if ext_ge (iv_ub dividend) (ext_of 0) then Inr dividend
      else if ext_lt (iv_ub divisor) (ext_of 0)
      then rbind (iv_add dividend divisor) (\<lambda>s. iv_add s (iv_of 1))
      else rbind (iv_add dividend (iv_of 1)) (\<lambda>s. iv_sub s divisor))"

text \<open>
  The quotients of the four pairs of end points, in the order of the initializer list; the
  common tail of \<^verbatim>\<open>operator/\<close>, \<^verbatim>\<open>sdiv\<close> and \<^verbatim>\<open>udiv\<close> once zero is excluded on both sides.
\<close>

definition iv_quotients ::
  "(ExtendedNumber \<Rightarrow> ExtendedNumber \<Rightarrow> ExtendedNumber result) \<Rightarrow> Interval \<Rightarrow> Interval \<Rightarrow> Interval result" where
  "iv_quotients q i x =
     rbind (make_dividend_when_both_nonzero i x) (\<lambda>a.
     rbind (q (iv_lb a) (iv_lb x)) (\<lambda>q1.
     rbind (q (iv_lb a) (iv_ub x)) (\<lambda>q2.
     rbind (q (iv_ub a) (iv_lb x)) (\<lambda>q3.
     rbind (q (iv_ub a) (iv_ub x)) (\<lambda>q4.
       let (clb, cub) = ext_minmax q1 [q2, q3, q4] in Inr (iv_make clb cub))))))"

lemma iv_make_neg_not_contains_0: "\<not> iv_contains (iv_make l (ext_of (-1))) 0"
  by (auto simp: iv_contains_def iv_make_def iv_is_bottom_def ext_gt_def ext_le_def ext_of_def)

lemma iv_make_pos_not_contains_0: "\<not> iv_contains (iv_make (ext_of 1) u) 0"
  by (auto simp: iv_contains_def iv_make_def iv_is_bottom_def ext_gt_def ext_le_def ext_of_def)

lemmas iv_halves_not_contains_0 [simp] = iv_make_neg_not_contains_0 iv_make_pos_not_contains_0

abbreviation zero_count :: "Interval \<times> Interval \<Rightarrow> nat" where
  "zero_count \<equiv> \<lambda>(i, x). of_bool (iv_contains i 0) + of_bool (iv_contains x 0)"

text \<open>
  \<^verbatim>\<open>operator/\<close>: signed division by splitting first the divisor, then the dividend at zero. The
  recursion ends because each call removes one zero.
\<close>

function iv_div :: "Interval \<Rightarrow> Interval \<Rightarrow> Interval result" where
  "iv_div i x =
     (if iv_is_bottom i \<or> iv_is_bottom x then Inr iv_bottom
      else case iv_singleton x of
        Some c \<Rightarrow>
          (if c = 1 then Inr i
           else if c > 0 then
             rbind (ext_div (iv_lb i) (ext_of c)) (\<lambda>l. rbind (ext_div (iv_ub i) (ext_of c)) (\<lambda>u. Inr (iv_make l u)))
           else if c < 0 then
             rbind (ext_div (iv_ub i) (ext_of c)) (\<lambda>l. rbind (ext_div (iv_lb i) (ext_of c)) (\<lambda>u. Inr (iv_make l u)))
           else Inr (iv_of 0))
      | None \<Rightarrow>
          (if iv_contains x 0 then
             rbind (iv_div i (iv_make (iv_lb x) (ext_of (-1)))) (\<lambda>r1.
             rbind (iv_div i (iv_make (ext_of 1) (iv_ub x))) (\<lambda>r2.
               Inr (iv_join (iv_join r1 r2) (iv_of 0))))
           else if iv_contains i 0 then
             rbind (iv_div (iv_make (iv_lb i) (ext_of (-1))) x) (\<lambda>r1.
             rbind (iv_div (iv_make (ext_of 1) (iv_ub i)) x) (\<lambda>r2.
               Inr (iv_join (iv_join r1 r2) (iv_of 0))))
           else iv_quotients ext_div i x))"
  by pat_completeness auto
termination
  by (relation "measure zero_count") simp_all

declare iv_div.simps [simp del]

text \<open>
  \<^verbatim>\<open>sdiv\<close>. A singleton divisor that fits a 64-bit cast takes the fast path, where the quotients of
  the two end points are taken in the order of the dividend's bounds whatever the divisor's sign.
\<close>

definition iv_singleton_cast :: "ctype \<Rightarrow> Interval \<Rightarrow> int option result" where
  "iv_singleton_cast T x =
     (case iv_singleton x of
        Some n \<Rightarrow> (if num_fits_cast_to int64_t n then rmap Some (num_cast_to T n) else Inr None)
      | None \<Rightarrow> Inr None)"

function iv_sdiv :: "Interval \<Rightarrow> Interval \<Rightarrow> Interval result" where
  "iv_sdiv i x =
     (if iv_is_bottom i \<or> iv_is_bottom x then Inr iv_bottom
      else rbind (iv_singleton_cast int64_t x) (\<lambda>s. case s of
        Some c \<Rightarrow>
          (if c = 1 then Inr i
           else if c \<noteq> 0 then
             rbind (ext_div (iv_lb i) (ext_of c)) (\<lambda>l. rbind (ext_div (iv_ub i) (ext_of c)) (\<lambda>u. Inr (iv_make l u)))
           else Inr (iv_of 0))
      | None \<Rightarrow>
          (if iv_contains x 0 then
             rbind (iv_sdiv i (iv_make (iv_lb x) (ext_of (-1)))) (\<lambda>r1.
             rbind (iv_sdiv i (iv_make (ext_of 1) (iv_ub x))) (\<lambda>r2.
               Inr (iv_join (iv_join r1 r2) (iv_of 0))))
           else if iv_contains i 0 then
             rbind (iv_sdiv (iv_make (iv_lb i) (ext_of (-1))) x) (\<lambda>r1.
             rbind (iv_sdiv (iv_make (ext_of 1) (iv_ub i)) x) (\<lambda>r2.
               Inr (iv_join (iv_join r1 r2) (iv_of 0))))
           else iv_quotients ext_div i x)))"
  by pat_completeness auto
termination
  by (relation "measure zero_count") simp_all

declare iv_sdiv.simps [simp del]

function iv_udiv :: "Interval \<Rightarrow> Interval \<Rightarrow> Interval result" where
  "iv_udiv i x =
     (if iv_is_bottom i \<or> iv_is_bottom x then Inr iv_bottom
      else rbind (iv_singleton_cast uint64_t x) (\<lambda>s. case s of
        Some c \<Rightarrow>
          (if c = 1 then Inr i
           else if c > 0 then
             rbind (ext_udiv (iv_lb i) (ext_of c)) (\<lambda>l. rbind (ext_udiv (iv_ub i) (ext_of c)) (\<lambda>u. Inr (iv_make l u)))
           else Inr (iv_of 0))
      | None \<Rightarrow>
          (if iv_contains x 0 then
             rbind (iv_udiv i (iv_make (iv_lb x) (ext_of (-1)))) (\<lambda>r1.
             rbind (iv_udiv i (iv_make (ext_of 1) (iv_ub x))) (\<lambda>r2.
               Inr (iv_join (iv_join r1 r2) (iv_of 0))))
           else if iv_contains i 0 then
             rbind (iv_udiv (iv_make (iv_lb i) (ext_of (-1))) x) (\<lambda>r1.
             rbind (iv_udiv (iv_make (ext_of 1) (iv_ub i)) x) (\<lambda>r2.
               Inr (iv_join (iv_join r1 r2) (iv_of 0))))
           else iv_quotients ext_udiv i x)))"
  by pat_completeness auto
termination
  by (relation "measure zero_count") simp_all

declare iv_udiv.simps [simp del]

function iv_srem :: "Interval \<Rightarrow> Interval \<Rightarrow> Interval result" where
  "iv_srem i x =
     (if iv_is_bottom i \<or> iv_is_bottom x then Inr iv_bottom
      else case (iv_singleton i, iv_singleton x) of
        (Some dividend, Some divisor) \<Rightarrow>
          (if divisor = 0 then Inr (iv_of dividend) else rmap iv_of (num_mod dividend divisor))
      | _ \<Rightarrow>
          (if iv_contains x 0 then
             rbind (iv_srem i (iv_make (iv_lb x) (ext_of (-1)))) (\<lambda>r1.
             rbind (iv_srem i (iv_make (ext_of 1) (iv_ub x))) (\<lambda>r2.
               Inr (iv_join (iv_join r1 r2) i)))
           else if is_finite (iv_ub x) \<and> is_finite (iv_lb x) then
             rbind (iv_pair_number x) (\<lambda>(xlb, xub).
               let min_divisor = min (num_abs xlb) (num_abs xub);
                   max_divisor = max (num_abs xlb) (num_abs xub)
               in if ext_lt (iv_ub i) (ext_of min_divisor) \<and> ext_lt (ext_neg (iv_lb i)) (ext_of min_divisor)
                  then Inr i
                  else if ext_lt (iv_lb i) (ext_of 0) then
                    (if ext_gt (iv_ub i) (ext_of 0)
                     then Inr (iv_range (- (max_divisor - 1)) (max_divisor - 1))
                     else Inr (iv_range (- (max_divisor - 1)) 0))
                  else Inr (iv_range 0 (max_divisor - 1)))
           else Inr (iv_join i (iv_of 0))))"
  by pat_completeness auto
termination
  by (relation "measure zero_count") simp_all

declare iv_srem.simps [simp del]

text \<open>\<^verbatim>\<open>number()->cast_to<uint64_t>()\<close>, for a bound already known to be finite.\<close>

definition ext_to_uint64 :: "ExtendedNumber \<Rightarrow> int result" where
  "ext_to_uint64 b = (case ext_number b of None \<Rightarrow> Inl Bad_Access | Some n \<Rightarrow> num_cast_to uint64_t n)"

definition iv_urem_nonzero :: "Interval \<Rightarrow> Interval \<Rightarrow> Interval result" where
  "iv_urem_nonzero i x =
     (if is_infinite (iv_lb x) \<or> is_infinite (iv_ub x) then
        (if ext_lt (iv_ub i) (ext_of 0) then Inr iv_top
         else rmap (\<lambda>d. iv_join d (iv_of 0)) (iv_sub i (iv_of 1)))
      else
        rbind (if is_finite (iv_ub i)
               then rbind (ext_to_uint64 (iv_ub i)) (\<lambda>u. rmap ((<) u) (ext_to_uint64 (iv_lb x)))
               else Inr False) (\<lambda>lower.
        if lower then Inr i
        else rmap (\<lambda>max_divisor. iv_range 0 (max_divisor - 1)) (ext_to_uint64 (iv_ub x))))"

text \<open>The fast path for two singletons that fit a 64-bit cast.\<close>

definition iv_urem_singletons :: "Interval \<Rightarrow> Interval \<Rightarrow> Interval result option" where
  "iv_urem_singletons i x =
     (case (iv_singleton i, iv_singleton x) of
        (Some dividend, Some divisor) \<Rightarrow>
          (if num_fits_cast_to uint64_t dividend \<and> num_fits_cast_to uint64_t divisor then
             Some (if divisor = 0 then Inr (iv_of dividend)
                   else rbind (num_cast_to uint64_t dividend) (\<lambda>d.
                        rbind (num_cast_to uint64_t divisor) (\<lambda>v. Inr (iv_of (d mod v)))))
           else None)
      | _ \<Rightarrow> None)"

function iv_urem :: "Interval \<Rightarrow> Interval \<Rightarrow> Interval result" where
  "iv_urem i x =
     (if iv_is_bottom i \<or> iv_is_bottom x then Inr iv_bottom
      else case iv_urem_singletons i x of
        Some r \<Rightarrow> r
      | None \<Rightarrow>
          (if iv_contains x 0 then
             rbind (iv_urem i (iv_make (iv_lb x) (ext_of (-1)))) (\<lambda>r1.
             rbind (iv_urem i (iv_make (ext_of 1) (iv_ub x))) (\<lambda>r2.
               Inr (iv_join (iv_join r1 r2) i)))
           else if iv_contains i 0 then
             rbind (iv_urem (iv_make (iv_lb i) (ext_of (-1))) x) (\<lambda>r1.
             rbind (iv_urem (iv_make (ext_of 1) (iv_ub i)) x) (\<lambda>r2.
               Inr (iv_join (iv_join r1 r2) i)))
           else iv_urem_nonzero i x))"
  by pat_completeness auto
termination
  by (relation "measure zero_count") simp_all

declare iv_urem.simps [simp del]

section \<open>Machine widths\<close>

definition iv_signed_int :: "nat \<Rightarrow> Interval" where
  "iv_signed_int width = iv_range (num_min_int width) (num_max_int width)"

definition iv_unsigned_int :: "nat \<Rightarrow> Interval" where
  "iv_unsigned_int width = iv_range 0 (num_max_uint width)"

definition iv_nonnegative :: "nat \<Rightarrow> Interval" where
  "iv_nonnegative width = iv_range 0 (num_max_int width)"

definition iv_negative :: "nat \<Rightarrow> Interval" where
  "iv_negative width = iv_range (num_min_int width) (-1)"

definition iv_unsigned_high :: "nat \<Rightarrow> Interval" where
  "iv_unsigned_high width = iv_range (num_max_int width + 1) (num_max_uint width)"

definition iv_extend ::
  "(int \<Rightarrow> ExtendedNumber \<Rightarrow> int result) \<Rightarrow> int \<Rightarrow> Interval \<Rightarrow> Interval \<Rightarrow> Interval result" where
  "iv_extend ext width full_range i =
     rbind (iv_size i) (\<lambda>s. rbind (iv_size full_range) (\<lambda>fs.
       if ext_lt s fs then
         rbind (ext width (iv_lb i)) (\<lambda>l. rbind (ext width (iv_ub i)) (\<lambda>u.
           let extended = iv_range l u
           in if \<not> iv_is_bottom extended then Inr extended else Inr full_range))
       else Inr full_range))"

definition iv_sign_extend :: "int \<Rightarrow> Interval \<Rightarrow> Interval result" where
  "iv_sign_extend width i =
     (if width \<le> 0 then Inl (Crab_Error ''Invalid width '')
      else iv_extend ext_sign_extend width (iv_signed_int (nat width)) i)"

definition iv_zero_extend :: "int \<Rightarrow> Interval \<Rightarrow> Interval result" where
  "iv_zero_extend width i =
     (if width \<le> 0 then Inl (Crab_Error ''Invalid width '')
      else iv_extend ext_zero_extend width (iv_unsigned_int (nat width)) i)"

definition iv_truncate_to :: "ctype \<Rightarrow> Interval \<Rightarrow> Interval result" where
  "iv_truncate_to T i =
     (case T of SInt w \<Rightarrow> iv_sign_extend (int w) i | UInt w \<Rightarrow> iv_zero_extend (int w) i)"

section \<open>Bitwise operations\<close>

definition iv_bitwise_and :: "Interval \<Rightarrow> Interval \<Rightarrow> Interval result" where
  "iv_bitwise_and i x =
     (if iv_is_bottom i \<or> iv_is_bottom x then Inr iv_bottom
      else if \<not> (iv_is_top i \<or> ext_ge (iv_lb i) (ext_of 0)) then Inl Assert_Failed
      else if \<not> (iv_is_top x \<or> ext_ge (iv_lb x) (ext_of 0)) then Inl Assert_Failed
      else if iv_eq i (iv_of 0) \<or> iv_eq x (iv_of 0) then Inr (iv_of 0)
      else
        (let general =
           (if iv_contains x (numeric_max uint64_t) then iv_truncate_to uint64_t i
            else if \<not> iv_is_top i \<and> \<not> iv_is_top x then Inr (iv_make (ext_of 0) (ext_min (iv_ub i) (iv_ub x)))
            else if \<not> iv_is_top x then Inr (iv_make (ext_of 0) (iv_ub x))
            else if \<not> iv_is_top i then Inr (iv_make (ext_of 0) (iv_ub i))
            else Inr iv_top)
         in case iv_singleton x of
              Some right \<Rightarrow>
                (case iv_singleton i of
                   Some left \<Rightarrow> Inr (iv_of (left AND right))
                 | None \<Rightarrow>
                     (if right = num_max_uint 32 then iv_zero_extend 32 i
                      else if right = num_max_uint 16 then iv_zero_extend 16 i
                      else if right = num_max_uint 8 then iv_zero_extend 8 i
                      else general))
            | None \<Rightarrow> general))"

definition iv_mask_value :: "int \<Rightarrow> Interval \<Rightarrow> Interval result" where
  "iv_mask_value width i =
     (if width > 0 \<and> width < 64 then iv_bitwise_and i (iv_of (push_bit (nat width) 1 - 1)) else Inr i)"

definition iv_mask_shift_count :: "int \<Rightarrow> Interval \<Rightarrow> Interval result" where
  "iv_mask_shift_count width i =
     (if width > 0 then iv_bitwise_and i (iv_of (width - 1)) else Inr i)"

definition iv_bitwise_or :: "Interval \<Rightarrow> Interval \<Rightarrow> Interval result" where
  "iv_bitwise_or i x =
     (if iv_is_bottom i \<or> iv_is_bottom x then Inr iv_bottom
      else case (iv_singleton i, iv_singleton x) of
        (Some left_op, Some right_op) \<Rightarrow> Inr (iv_of (left_op OR right_op))
      | _ \<Rightarrow>
          (if ext_ge (iv_lb i) (ext_of 0) \<and> ext_ge (iv_lb x) (ext_of 0) then
             (case (ext_number (iv_ub i), ext_number (iv_ub x)) of
                (Some left_ub, Some right_ub) \<Rightarrow> rmap (iv_range 0) (num_fill_ones (max left_ub right_ub))
              | _ \<Rightarrow> Inr (iv_make (ext_of 0) plus_infinity))
           else Inr iv_top))"

definition iv_bitwise_xor :: "Interval \<Rightarrow> Interval \<Rightarrow> Interval result" where
  "iv_bitwise_xor i x =
     (if iv_is_bottom i \<or> iv_is_bottom x then Inr iv_bottom
      else case (iv_singleton i, iv_singleton x) of
        (Some left_op, Some right_op) \<Rightarrow> Inr (iv_of (left_op XOR right_op))
      | _ \<Rightarrow> iv_bitwise_or i x)"

text \<open>The loop \<^verbatim>\<open>for (int i = 0; k > i; i++) factor *= 2\<close>.\<close>

fun double_loop :: "nat \<Rightarrow> int \<Rightarrow> int" where
  "double_loop 0 factor = factor"
| "double_loop (Suc i) factor = double_loop i (factor * 2)"

definition iv_shl :: "Interval \<Rightarrow> Interval \<Rightarrow> Interval" where
  "iv_shl i x =
     (if iv_is_bottom i \<or> iv_is_bottom x then iv_bottom
      else case iv_singleton x of
        Some k \<Rightarrow> (if k < 0 then iv_top
                    else if k \<le> 128 then iv_mul i (iv_of (double_loop (nat k) 1)) else iv_top)
      | None \<Rightarrow> iv_top)"

definition iv_ashr :: "Interval \<Rightarrow> Interval \<Rightarrow> Interval result" where
  "iv_ashr i x =
     (if iv_is_bottom i \<or> iv_is_bottom x then Inr iv_bottom
      else case iv_singleton x of
        Some k \<Rightarrow> (if k < 0 then Inr iv_top
                    else if k \<le> 128 then iv_div i (iv_of (double_loop (nat k) 1)) else Inr iv_top)
      | None \<Rightarrow> Inr iv_top)"

definition iv_lshr :: "Interval \<Rightarrow> Interval \<Rightarrow> Interval result" where
  "iv_lshr i x =
     (if iv_is_bottom i \<or> iv_is_bottom x then Inr iv_bottom
      else case iv_singleton x of
        Some shift \<Rightarrow>
          (if shift > 0 \<and> ext_ge (iv_lb i) (ext_of 0) \<and> is_finite (iv_ub i)
           then rbind (iv_pair_number i) (\<lambda>(l, u).
                rbind (num_shr l shift) (\<lambda>l'. rbind (num_shr u shift) (\<lambda>u'. Inr (iv_range l' u'))))
           else Inr iv_top)
      | None \<Rightarrow> Inr iv_top)"

end
