(* ===== verification/Abstract_Domain.thy ===== *)
theory Abstract_Domain
  imports Prelude
begin

text \<open>
  The interfaces between the abstract domains and the analysis that runs on them.

  \<^item> \<open>abstract_domain\<close>: what the forward analysis asks of a domain. \<open>gamma\<close> is the set of
    concrete values an element stands for, \<open>wf\<close> its representation invariant, \<open>leq\<close>
    the inclusion test \<^verbatim>\<open>operator<=\<close> and \<open>join\<close> the upper bound \<^verbatim>\<open>operator|\<close>.
  \<^item> \<open>lattice_domain\<close> adds the meet \<^verbatim>\<open>operator&\<close> and the narrowing.
  \<^item> \<open>widening_domain\<close> adds the widening, with a height that every step of a widening sequence
    which is not yet stable decreases: this is what makes fixpoint iteration stop.
  \<^item> \<open>value_domain\<close>: a binary abstract operation is sound for a concrete one.

  Each domain of the verifier interprets these locales in its own theory.
\<close>

locale abstract_domain =
  fixes gamma :: "'d \<Rightarrow> 'c set"
    and wf :: "'d \<Rightarrow> bool"
    and leq :: "'d \<Rightarrow> 'd \<Rightarrow> bool"
    and join :: "'d \<Rightarrow> 'd \<Rightarrow> 'd"
    and bot :: "'d"
    and top :: "'d"
  assumes wf_bot: "wf bot"
    and wf_top: "wf top"
    and wf_join: "wf a \<Longrightarrow> wf b \<Longrightarrow> wf (join a b)"
    and leq_iff: "wf a \<Longrightarrow> wf b \<Longrightarrow> leq a b \<longleftrightarrow> gamma a \<subseteq> gamma b"
    and join_upper: "wf a \<Longrightarrow> wf b \<Longrightarrow> gamma a \<union> gamma b \<subseteq> gamma (join a b)"
    and gamma_bot: "gamma bot = {}"
    and gamma_top: "gamma top = UNIV"
begin

lemma leq_refl: "wf a \<Longrightarrow> leq a a"
  by (simp add: leq_iff)

lemma leq_trans: "wf a \<Longrightarrow> wf b \<Longrightarrow> wf c \<Longrightarrow> leq a b \<Longrightarrow> leq b c \<Longrightarrow> leq a c"
  by (auto simp: leq_iff)

text \<open>The join of the states of all predecessors, as the analysis computes it.\<close>

lemma wf_join_all: "(\<forall>a\<in>set as. wf a) \<Longrightarrow> wf b \<Longrightarrow> wf (foldl join b as)"
  by (induction as arbitrary: b) (auto intro: wf_join)

lemma join_all_upper:
  "(\<forall>a\<in>set as. wf a) \<Longrightarrow> wf b \<Longrightarrow> gamma b \<union> (\<Union>a\<in>set as. gamma a) \<subseteq> gamma (foldl join b as)"
proof (induction as arbitrary: b)
  case (Cons a as)
  then have "gamma b \<union> gamma a \<subseteq> gamma (join b a)" by (intro join_upper) auto
  moreover have "gamma (join b a) \<union> (\<Union>a\<in>set as. gamma a) \<subseteq> gamma (foldl join (join b a) as)"
    using Cons by (intro Cons.IH) (auto intro: wf_join)
  ultimately show ?case by auto
qed simp

end

locale lattice_domain = abstract_domain +
  fixes meet :: "'a \<Rightarrow> 'a \<Rightarrow> 'a"
    and narrow :: "'a \<Rightarrow> 'a \<Rightarrow> 'a"
  assumes wf_meet: "wf a \<Longrightarrow> wf b \<Longrightarrow> wf (meet a b)"
    and meet_gamma: "wf a \<Longrightarrow> wf b \<Longrightarrow> gamma (meet a b) = gamma a \<inter> gamma b"
    and wf_narrow: "wf a \<Longrightarrow> wf b \<Longrightarrow> wf (narrow a b)"
    and narrow_lower: "wf a \<Longrightarrow> wf b \<Longrightarrow> leq b a \<Longrightarrow> gamma b \<subseteq> gamma (narrow a b)"
    and narrow_upper: "wf a \<Longrightarrow> wf b \<Longrightarrow> leq b a \<Longrightarrow> gamma (narrow a b) \<subseteq> gamma a"
begin

lemma meet_leq: "wf a \<Longrightarrow> wf b \<Longrightarrow> leq (meet a b) a \<and> leq (meet a b) b"
  by (auto simp: leq_iff wf_meet meet_gamma)

lemma meet_greatest: "wf a \<Longrightarrow> wf b \<Longrightarrow> wf c \<Longrightarrow> leq c a \<Longrightarrow> leq c b \<Longrightarrow> leq c (meet a b)"
  by (auto simp: leq_iff wf_meet meet_gamma)

end

locale widening_domain = abstract_domain +
  fixes widen :: "'a \<Rightarrow> 'a \<Rightarrow> 'a"
    and height :: "'a \<Rightarrow> nat"
  assumes wf_widen: "wf a \<Longrightarrow> wf b \<Longrightarrow> wf (widen a b)"
    and widen_upper: "wf a \<Longrightarrow> wf b \<Longrightarrow> gamma a \<union> gamma b \<subseteq> gamma (widen a b)"
    and widen_height: "wf a \<Longrightarrow> wf b \<Longrightarrow> \<not> leq b a \<Longrightarrow> height (widen a b) < height a"
begin

text \<open>
  A widening sequence: \<open>f\<close> is any (not necessarily monotone) transformer, and the sequence goes
  on while \<open>f\<close> of the current element is not below it. It reaches a post-fixpoint after at most
  \<open>height\<close> steps.
\<close>

lemma widening_stabilises:
  assumes "wf a" and "\<And>b. wf b \<Longrightarrow> wf (f b)"
  shows "\<exists>n \<le> height a. leq (f (((\<lambda>b. widen b (f b)) ^^ n) a)) (((\<lambda>b. widen b (f b)) ^^ n) a)"
  using assms(1)
proof (induction "height a" arbitrary: a rule: less_induct)
  case less
  show ?case
  proof (cases "leq (f a) a")
    case True
    then show ?thesis by (intro exI[of _ 0]) simp
  next
    case False
    let ?w = "widen a (f a)"
    have lt: "height ?w < height a" and wf: "wf ?w"
      using False less.prems assms(2) by (auto intro: widen_height wf_widen)
    from less.hyps[OF lt wf] obtain n where n: "n \<le> height ?w"
      "leq (f (((\<lambda>b. widen b (f b)) ^^ n) ?w)) (((\<lambda>b. widen b (f b)) ^^ n) ?w)" by blast
    have "((\<lambda>b. widen b (f b)) ^^ Suc n) a = ((\<lambda>b. widen b (f b)) ^^ n) ?w"
      by (simp add: funpow_Suc_right del: funpow.simps)
    with n lt show ?thesis by (intro exI[of _ "Suc n"]) auto
  qed
qed

end

locale value_domain =
  fixes gamma :: "'d \<Rightarrow> int set"
    and wf :: "'d \<Rightarrow> bool"
    and pre :: "'d \<Rightarrow> 'd \<Rightarrow> bool"
    and abs_op :: "'d \<Rightarrow> 'd \<Rightarrow> 'd result"
    and conc_op :: "int \<Rightarrow> int \<Rightarrow> int"
  assumes op_ok: "wf a \<Longrightarrow> wf b \<Longrightarrow> pre a b \<Longrightarrow>
      \<exists>r. abs_op a b = Inr r \<and> wf r \<and> (\<forall>n\<in>gamma a. \<forall>m\<in>gamma b. conc_op n m \<in> gamma r)"
begin

lemma op_total: "wf a \<Longrightarrow> wf b \<Longrightarrow> pre a b \<Longrightarrow> is_ok (abs_op a b)"
  using op_ok by (fastforce simp: is_ok_iff)

lemma op_sound:
  "wf a \<Longrightarrow> wf b \<Longrightarrow> pre a b \<Longrightarrow> abs_op a b = Inr r \<Longrightarrow> n \<in> gamma a \<Longrightarrow> m \<in> gamma b \<Longrightarrow> conc_op n m \<in> gamma r"
  using op_ok by fastforce

lemma op_wf: "wf a \<Longrightarrow> wf b \<Longrightarrow> pre a b \<Longrightarrow> abs_op a b = Inr r \<Longrightarrow> wf r"
  using op_ok by fastforce

text \<open>Soundness lifts to sets of concrete values: the collecting semantics is over-approximated.\<close>

lemma op_collecting:
  assumes "wf a" "wf b" "pre a b" "abs_op a b = Inr r" "N \<subseteq> gamma a" "M \<subseteq> gamma b"
  shows "{conc_op n m | n m. n \<in> N \<and> m \<in> M} \<subseteq> gamma r"
  using assms op_sound by blast

end

end
