(* ===== verification/Interval_Sound.thy ===== *)
theory Interval_Sound
  imports Interval_Domain Abstract_Domain
begin

unbundle bit_operations_syntax

text \<open>
  The meaning of an interval is the set of integers it contains (\<open>iv_gamma\<close>). The representation
  invariant \<open>iv_wf\<close> says that the empty interval has its canonical form and that no bound of
  another is an infinity of the wrong sign. Every operation keeps the invariant; the lattice
  operations are inclusion, hull and intersection; the arithmetic operations over-approximate the
  integer operations, on the operands on which the code does.
\<close>

section \<open>Meaning and invariant\<close>

definition iv_gamma :: "Interval \<Rightarrow> int set" where
  "iv_gamma i = {n. iv_contains i n}"

definition iv_wf :: "Interval \<Rightarrow> bool" where
  "iv_wf i \<longleftrightarrow> ext_wf (iv_lb i) \<and> ext_wf (iv_ub i) \<and>
     (i = iv_bottom \<or>
      (ext_le (iv_lb i) (iv_ub i) \<and> \<not> is_plus_infinity (iv_lb i) \<and> \<not> is_minus_infinity (iv_ub i)))"

abbreviation lbx :: "Interval \<Rightarrow> xint" where "lbx i \<equiv> ext_abs (iv_lb i)"
abbreviation ubx :: "Interval \<Rightarrow> xint" where "ubx i \<equiv> ext_abs (iv_ub i)"

lemma is_plus_infinity_abs [bound_simps]: "is_plus_infinity x \<longleftrightarrow> ext_abs x = PInf"
  by (auto simp: is_plus_infinity_def ext_abs_def)

lemma is_minus_infinity_abs [bound_simps]: "ext_wf x \<Longrightarrow> is_minus_infinity x \<longleftrightarrow> ext_abs x = MInf"
  by (auto simp: is_minus_infinity_def ext_abs_def ext_wf_def)

lemma iv_bottom_bounds [simp]: "iv_lb iv_bottom = ext_of 0" "iv_ub iv_bottom = ext_of (-1)"
  by (simp_all add: iv_bottom_def)

lemma iv_wf_bounds: "iv_wf i \<Longrightarrow> ext_wf (iv_lb i) \<and> ext_wf (iv_ub i)"
  by (simp add: iv_wf_def)

lemma iv_wf_iff:
  "iv_wf i \<longleftrightarrow> ext_wf (iv_lb i) \<and> ext_wf (iv_ub i) \<and>
     (i = iv_bottom \<or> (lbx i \<le> ubx i \<and> lbx i \<noteq> PInf \<and> ubx i \<noteq> MInf))"
  by (auto simp: iv_wf_def bound_simps)

lemma iv_wfD: "iv_wf i \<Longrightarrow> i \<noteq> iv_bottom \<Longrightarrow> lbx i \<le> ubx i \<and> lbx i \<noteq> PInf \<and> ubx i \<noteq> MInf"
  by (auto simp: iv_wf_iff)

lemma iv_is_bottom_abs [bound_simps]:
  "ext_wf (iv_lb i) \<Longrightarrow> ext_wf (iv_ub i) \<Longrightarrow> iv_is_bottom i \<longleftrightarrow> ubx i < lbx i"
  by (simp add: iv_is_bottom_def bound_simps)

lemma iv_is_bottom_bottom [simp]: "iv_is_bottom iv_bottom"
  by (simp add: iv_is_bottom_def bound_simps)

lemma iv_is_bottom_iff: "iv_wf i \<Longrightarrow> iv_is_bottom i \<longleftrightarrow> i = iv_bottom"
  by (auto simp: iv_wf_iff bound_simps)

lemma iv_gamma_iff [ivl_simps]:
  "iv_wf i \<Longrightarrow> n \<in> iv_gamma i \<longleftrightarrow> lbx i \<le> Fin n \<and> Fin n \<le> ubx i"
  by (auto simp: iv_gamma_def iv_contains_def bound_simps iv_is_bottom_iff iv_wf_bounds)

lemma iv_make_bounds:
  "ext_wf l \<Longrightarrow> ext_wf u \<Longrightarrow> ext_abs l \<le> ext_abs u \<Longrightarrow> iv_make l u = \<lparr>iv_lb = l, iv_ub = u\<rparr>"
  by (simp add: iv_make_def bound_simps not_less)

lemma iv_make_empty:
  "ext_wf l \<Longrightarrow> ext_wf u \<Longrightarrow> ext_abs u < ext_abs l \<Longrightarrow> iv_make l u = iv_bottom"
  by (simp add: iv_make_def bound_simps iv_bottom_def)

lemma iv_wf_make:
  "ext_wf l \<Longrightarrow> ext_wf u \<Longrightarrow> ext_abs l \<noteq> PInf \<Longrightarrow> ext_abs u \<noteq> MInf \<Longrightarrow> iv_wf (iv_make l u)"
  by (cases "ext_abs l \<le> ext_abs u") (auto simp: iv_make_bounds iv_make_empty iv_wf_iff)

lemma iv_wf_make_nonempty:
  "ext_wf l \<Longrightarrow> ext_wf u \<Longrightarrow> ext_abs l \<le> Fin n \<Longrightarrow> Fin n \<le> ext_abs u \<Longrightarrow> iv_wf (iv_make l u)"
  by (intro iv_wf_make) auto

lemma iv_gamma_make [ivl_simps]:
  assumes "ext_wf l" "ext_wf u"
  shows "n \<in> iv_gamma (iv_make l u) \<longleftrightarrow> ext_abs l \<le> Fin n \<and> Fin n \<le> ext_abs u"
proof (cases "ext_abs l \<le> ext_abs u")
  case True
  then show ?thesis using assms
    by (auto simp: iv_make_bounds iv_gamma_def iv_contains_def iv_is_bottom_def bound_simps)
next
  case False
  then show ?thesis using assms
    by (auto simp: iv_make_empty not_le iv_gamma_def iv_contains_def)
qed

lemma iv_make_memI:
  "ext_wf l \<Longrightarrow> ext_wf u \<Longrightarrow> ext_abs l \<le> Fin n \<Longrightarrow> Fin n \<le> ext_abs u \<Longrightarrow> n \<in> iv_gamma (iv_make l u)"
  by (simp add: iv_gamma_make)

lemma iv_gammaD: "n \<in> iv_gamma i \<Longrightarrow> iv_wf i \<Longrightarrow> lbx i \<le> Fin n \<and> Fin n \<le> ubx i"
  by (simp add: iv_gamma_iff)

lemma iv_of_neq_bottom [simp]: "iv_of c \<noteq> iv_bottom" "iv_bottom \<noteq> iv_of c"
  by (auto simp: iv_of_def iv_bottom_def ext_of_def)

lemma iv_wf_consts [simp]:
  "iv_wf iv_bottom" "iv_wf iv_top" "iv_wf (iv_of n)" "iv_wf (iv_range a b)"
  by (simp_all add: iv_top_def iv_range_def iv_wf_make) (simp_all add: iv_wf_iff iv_of_def)

lemma iv_gamma_consts [simp]:
  "iv_gamma iv_bottom = {}" "iv_gamma iv_top = UNIV" "iv_gamma (iv_of n) = {n}" "iv_gamma (iv_range a b) = {a..b}"
  by (auto simp: iv_top_def iv_range_def iv_gamma_make iv_gamma_iff)
    (auto simp: iv_of_def)

text \<open>A well-formed interval other than bottom contains an integer.\<close>

lemma iv_nonempty:
  assumes "iv_wf i" "i \<noteq> iv_bottom"
  shows "\<exists>n. lbx i \<le> Fin n \<and> Fin n \<le> ubx i"
proof -
  have h: "lbx i \<le> ubx i" "lbx i \<noteq> PInf" "ubx i \<noteq> MInf" using assms by (auto simp: iv_wf_iff)
  show ?thesis
  proof (cases "lbx i")
    case (Fin a)
    then show ?thesis using h by (intro exI[of _ a]) auto
  next
    case MInf
    then show ?thesis using h by (cases "ubx i") auto
  qed (use h in auto)
qed

lemma iv_gamma_empty_iff: "iv_wf i \<Longrightarrow> iv_gamma i = {} \<longleftrightarrow> i = iv_bottom"
  using iv_nonempty[of i] by (auto simp: iv_gamma_iff set_eq_iff)

text \<open>An interval is determined by its meaning.\<close>

lemma iv_singleton_iff:
  "iv_wf i \<Longrightarrow> iv_singleton i = Some c \<longleftrightarrow> i = iv_of c"
  by (cases i) (auto simp: iv_singleton_def iv_is_singleton_def ext_number_def iv_of_def ext_of_def
      split: if_splits)

lemma iv_contains_iff: "iv_contains i n \<longleftrightarrow> n \<in> iv_gamma i"
  by (simp add: iv_gamma_def)

section \<open>Lattice\<close>

lemma xint_interval_subset:
  assumes "l \<le> (u::xint)" "l \<noteq> PInf" "u \<noteq> MInf"
  shows "(\<forall>n. l \<le> Fin n \<and> Fin n \<le> u \<longrightarrow> l' \<le> Fin n \<and> Fin n \<le> u') \<longleftrightarrow> l' \<le> l \<and> u \<le> u'"
proof
  assume h: "\<forall>n. l \<le> Fin n \<and> Fin n \<le> u \<longrightarrow> l' \<le> Fin n \<and> Fin n \<le> u'"
  have "l' \<le> l"
  proof (cases l)
    case (Fin a)
    then show ?thesis using h assms by (cases u) auto
  next
    case MInf
    show ?thesis
    proof (cases l')
      case (Fin b)
      then show ?thesis using h assms MInf
      proof (cases u)
        case (Fin c)
        then show ?thesis using spec[OF h, of "min (b - 1) c"] MInf \<open>l' = Fin b\<close> by auto
      next
        case PInf
        then show ?thesis using spec[OF h, of "b - 1"] MInf \<open>l' = Fin b\<close> by auto
      qed simp
    next
      case PInf
      then show ?thesis using h MInf assms by (cases u) auto
    qed simp
  qed (use assms in auto)
  moreover have "u \<le> u'"
  proof (cases u)
    case (Fin a)
    then show ?thesis using h assms by (cases l) auto
  next
    case PInf
    show ?thesis
    proof (cases u')
      case (Fin b)
      then show ?thesis using h assms PInf
      proof (cases l)
        case (Fin c)
        then show ?thesis using spec[OF h, of "max (b + 1) c"] PInf \<open>u' = Fin b\<close> by auto
      next
        case MInf
        then show ?thesis using spec[OF h, of "b + 1"] PInf \<open>u' = Fin b\<close> by auto
      qed simp
    next
      case MInf
      then show ?thesis using h PInf assms by (cases l) auto
    qed simp
  qed (use assms in auto)
  ultimately show "l' \<le> l \<and> u \<le> u'" ..
next
  assume "l' \<le> l \<and> u \<le> u'"
  then show "\<forall>n. l \<le> Fin n \<and> Fin n \<le> u \<longrightarrow> l' \<le> Fin n \<and> Fin n \<le> u'"
    by (auto intro: order_trans)
qed

lemma iv_le_iff_subset:
  assumes "iv_wf i" "iv_wf x"
  shows "iv_le i x \<longleftrightarrow> iv_gamma i \<subseteq> iv_gamma x"
proof (cases "i = iv_bottom")
  case True
  then show ?thesis by (simp add: iv_le_def)
next
  case False
  note nb = False
  show ?thesis
  proof (cases "x = iv_bottom")
    case True
    then show ?thesis using nb assms by (simp add: iv_le_def iv_is_bottom_iff iv_gamma_empty_iff)
  next
    case False
    have h: "lbx i \<le> ubx i" "lbx i \<noteq> PInf" "ubx i \<noteq> MInf" using assms nb by (auto simp: iv_wf_iff)
    have "iv_gamma i \<subseteq> iv_gamma x \<longleftrightarrow>
        (\<forall>n. lbx i \<le> Fin n \<and> Fin n \<le> ubx i \<longrightarrow> lbx x \<le> Fin n \<and> Fin n \<le> ubx x)"
      using assms by (auto simp: iv_gamma_iff)
    then show ?thesis using nb False assms xint_interval_subset[OF h]
      by (simp add: iv_le_def iv_is_bottom_iff bound_simps iv_wf_bounds)
  qed
qed

lemma iv_wf_join: "iv_wf i \<Longrightarrow> iv_wf x \<Longrightarrow> iv_wf (iv_join i x)"
  by (auto simp: iv_join_def iv_is_bottom_iff iv_wf_bounds ext_min_abs ext_max_abs min_def max_def
      dest: iv_wfD intro!: iv_wf_make split: if_splits)

lemma iv_join_gamma [ivl_simps]:
  assumes "iv_wf i" "iv_wf x"
  shows "n \<in> iv_gamma (iv_join i x) \<longleftrightarrow>
    (if i = iv_bottom then n \<in> iv_gamma x else if x = iv_bottom then n \<in> iv_gamma i
     else min (lbx i) (lbx x) \<le> Fin n \<and> Fin n \<le> max (ubx i) (ubx x))"
  using assms
  by (auto simp: iv_join_def iv_is_bottom_iff iv_gamma_make iv_wf_bounds ext_min_abs ext_max_abs)

lemma iv_join_upper: "iv_wf i \<Longrightarrow> iv_wf x \<Longrightarrow> iv_gamma i \<union> iv_gamma x \<subseteq> iv_gamma (iv_join i x)"
  by (auto simp: iv_join_gamma iv_gamma_iff min_le_iff_disj le_max_iff_disj)

text \<open>The join is the least interval above both operands.\<close>

lemma iv_join_least:
  assumes "iv_wf i" "iv_wf x" "iv_wf y" "iv_le i y" "iv_le x y"
  shows "iv_le (iv_join i x) y"
  using assms
  by (auto simp: iv_join_def iv_le_def iv_is_bottom_iff iv_make_def bound_simps iv_wf_bounds
      ext_min_abs ext_max_abs split: if_splits)

lemma iv_meet_gamma:
  assumes "iv_wf i" "iv_wf x"
  shows "iv_gamma (iv_meet i x) = iv_gamma i \<inter> iv_gamma x"
  using assms
  by (auto simp: iv_meet_def iv_is_bottom_iff iv_gamma_make iv_wf_bounds ext_min_abs ext_max_abs iv_gamma_iff)

lemma iv_wf_meet: "iv_wf i \<Longrightarrow> iv_wf x \<Longrightarrow> iv_wf (iv_meet i x)"
  by (auto simp: iv_meet_def iv_is_bottom_iff iv_wf_bounds ext_min_abs ext_max_abs min_def max_def
      dest: iv_wfD intro!: iv_wf_make split: if_splits)

lemma iv_wf_widen: "iv_wf i \<Longrightarrow> iv_wf x \<Longrightarrow> iv_wf (iv_widen i x)"
  by (auto simp: iv_widen_def iv_is_bottom_iff iv_wf_bounds dest: iv_wfD intro!: iv_wf_make)

lemma iv_widen_upper:
  assumes "iv_wf i" "iv_wf x"
  shows "iv_gamma i \<union> iv_gamma x \<subseteq> iv_gamma (iv_widen i x)"
proof (cases "i = iv_bottom \<or> x = iv_bottom")
  case True
  then show ?thesis using assms by (auto simp: iv_widen_def iv_is_bottom_iff)
next
  case False
  then show ?thesis using assms
    by (auto simp: iv_widen_def iv_is_bottom_iff iv_gamma_make iv_wf_bounds iv_gamma_iff bound_simps
        not_less intro: order_trans)
qed

definition iv_height :: "Interval \<Rightarrow> nat" where
  "iv_height i =
     (if iv_is_bottom i then 3
      else (if is_infinite (iv_lb i) then 0 else 1) + (if is_infinite (iv_ub i) then 0 else 1))"

lemma is_infinite_abs: "is_infinite x \<longleftrightarrow> (case ext_abs x of Fin _ \<Rightarrow> False | _ \<Rightarrow> True)"
  by (simp add: ext_abs_def)

lemma iv_widen_height:
  assumes "iv_wf i" "iv_wf x" "\<not> iv_le x i"
  shows "iv_height (iv_widen i x) < iv_height i"
proof (cases "i = iv_bottom")
  case True
  then show ?thesis using assms by (auto simp: iv_widen_def iv_height_def iv_le_def)
next
  case False
  then have nb: "\<not> iv_is_bottom i" "\<not> iv_is_bottom x"
    using assms by (auto simp: iv_le_def iv_is_bottom_iff)
  let ?l = "if ext_lt (iv_lb x) (iv_lb i) then minus_infinity else iv_lb i"
  let ?u = "if ext_lt (iv_ub i) (iv_ub x) then plus_infinity else iv_ub i"
  have w: "iv_widen i x = iv_make ?l ?u" using nb by (simp add: iv_widen_def)
  have "ext_abs ?l \<le> ext_abs ?u"
    using assms False by (auto simp: iv_wf_iff)
  then have w': "iv_widen i x = \<lparr>iv_lb = ?l, iv_ub = ?u\<rparr>"
    unfolding w using assms by (intro iv_make_bounds) (auto simp: iv_wf_bounds)
  have "ext_lt (iv_lb x) (iv_lb i) \<or> ext_lt (iv_ub i) (iv_ub x)"
    using assms nb by (auto simp: iv_le_def bound_simps iv_wf_bounds)
  moreover have "ext_lt (iv_lb x) (iv_lb i) \<Longrightarrow> \<not> is_infinite (iv_lb i)"
    using assms False by (auto simp: is_infinite_abs bound_simps iv_wf_iff split: xint.splits)
  moreover have "ext_lt (iv_ub i) (iv_ub x) \<Longrightarrow> \<not> is_infinite (iv_ub i)"
    using assms False by (auto simp: is_infinite_abs bound_simps iv_wf_iff split: xint.splits)
  moreover have "\<not> iv_is_bottom (iv_widen i x)"
    using \<open>ext_abs ?l \<le> ext_abs ?u\<close> assms by (simp add: w' bound_simps iv_wf_bounds not_less)
  ultimately show ?thesis using nb by (auto simp: iv_height_def w')
qed

lemma iv_wf_narrow:
  assumes "iv_wf i" "iv_wf x"
  shows "iv_wf (iv_narrow i x)"
  using assms
  by (auto simp: iv_narrow_def iv_is_bottom_iff iv_wf_bounds dest: iv_wfD intro!: iv_wf_make)

lemma iv_narrow_between:
  assumes "iv_wf i" "iv_wf x" "iv_le x i"
  shows "iv_gamma x \<subseteq> iv_gamma (iv_narrow i x)" "iv_gamma (iv_narrow i x) \<subseteq> iv_gamma i"
proof -
  have 1: "iv_gamma x \<subseteq> iv_gamma i" using assms by (simp add: iv_le_iff_subset)
  then show "iv_gamma x \<subseteq> iv_gamma (iv_narrow i x)" using assms
    by (auto simp: iv_narrow_def iv_is_bottom_iff iv_gamma_make iv_wf_bounds iv_gamma_iff)
  have "lbx i \<noteq> PInf" "ubx i \<noteq> MInf" if "i \<noteq> iv_bottom" using assms that by (auto simp: iv_wf_iff)
  then show "iv_gamma (iv_narrow i x) \<subseteq> iv_gamma i" using assms
    by (auto simp: iv_narrow_def iv_is_bottom_iff iv_gamma_make iv_wf_bounds iv_gamma_iff
        is_infinite_abs is_finite_def split: if_splits xint.splits)
qed

interpretation ivl: lattice_domain iv_gamma iv_wf iv_le iv_join iv_bottom iv_top iv_meet iv_narrow
  by unfold_locales
    (simp_all add: iv_wf_join iv_le_iff_subset iv_join_upper[simplified] iv_wf_meet iv_meet_gamma
      iv_wf_narrow iv_narrow_between)

interpretation ivl: widening_domain iv_gamma iv_wf iv_le iv_join iv_bottom iv_top iv_widen iv_height
  by unfold_locales (simp_all add: iv_wf_widen iv_widen_upper[simplified] iv_widen_height)

end
