(* ===== verification/Interval_Arith.thy ===== *)
theory Interval_Arith
  imports Interval_Sound
begin

unbundle bit_operations_syntax

text \<open>
  Soundness of the arithmetic and bitwise operations of intervals. For each operation: it does
  not throw, the result is well formed, and it contains the result of the integer operation on
  every pair of members of the operands. The operations of the code are sound on part of their
  operands only; the preconditions say on which, and the last section shows by concrete values
  that they cannot be dropped.
\<close>

section \<open>Addition, negation, subtraction\<close>

lemma xint_add_lower:
  "x \<le> Fin n \<Longrightarrow> y \<le> Fin m \<Longrightarrow> \<exists>z. xint_add x y = Some z \<and> z \<le> Fin (n + m)"
  by (cases x; cases y) auto

lemma xint_add_upper:
  "Fin n \<le> x \<Longrightarrow> Fin m \<le> y \<Longrightarrow> \<exists>z. xint_add x y = Some z \<and> Fin (n + m) \<le> z"
  by (cases x; cases y) auto

lemma ext_add_lower:
  assumes "ext_wf a" "ext_wf b" "ext_abs a \<noteq> PInf" "ext_abs b \<noteq> PInf"
  shows "\<exists>r. ext_add a b = Inr r \<and> ext_wf r \<and> ext_abs r \<noteq> PInf \<and>
    (\<forall>n m. ext_abs a \<le> Fin n \<longrightarrow> ext_abs b \<le> Fin m \<longrightarrow> ext_abs r \<le> Fin (n + m))"
proof -
  from assms(3,4) obtain z where z: "xint_add (ext_abs a) (ext_abs b) = Some z" "z \<noteq> PInf"
    by (cases "ext_abs a"; cases "ext_abs b") auto
  then obtain r where "ext_add a b = Inr r" "ext_wf r" "ext_abs r = z"
    using ext_add_ok[OF assms(1,2)] by blast
  then show ?thesis using z xint_add_lower[of "ext_abs a" _ "ext_abs b"] by auto
qed

lemma ext_add_upper:
  assumes "ext_wf a" "ext_wf b" "ext_abs a \<noteq> MInf" "ext_abs b \<noteq> MInf"
  shows "\<exists>r. ext_add a b = Inr r \<and> ext_wf r \<and> ext_abs r \<noteq> MInf \<and>
    (\<forall>n m. Fin n \<le> ext_abs a \<longrightarrow> Fin m \<le> ext_abs b \<longrightarrow> Fin (n + m) \<le> ext_abs r)"
proof -
  from assms(3,4) obtain z where z: "xint_add (ext_abs a) (ext_abs b) = Some z" "z \<noteq> MInf"
    by (cases "ext_abs a"; cases "ext_abs b") auto
  then obtain r where "ext_add a b = Inr r" "ext_wf r" "ext_abs r = z"
    using ext_add_ok[OF assms(1,2)] by blast
  then show ?thesis using z xint_add_upper[of _ "ext_abs a" _ "ext_abs b"] by auto
qed

lemma iv_add_ok:
  assumes "iv_wf i" "iv_wf x"
  shows "\<exists>r. iv_add i x = Inr r \<and> iv_wf r \<and> (\<forall>n\<in>iv_gamma i. \<forall>m\<in>iv_gamma x. n + m \<in> iv_gamma r)"
proof (cases "i = iv_bottom \<or> x = iv_bottom")
  case True
  then show ?thesis using assms by (auto simp: iv_add_def)
next
  case False
  then have h: "\<not> iv_is_bottom i" "\<not> iv_is_bottom x" using assms by (auto simp: iv_is_bottom_iff)
  have w: "ext_wf (iv_lb i)" "ext_wf (iv_ub i)" "ext_wf (iv_lb x)" "ext_wf (iv_ub x)"
    "lbx i \<noteq> PInf" "lbx x \<noteq> PInf" "ubx i \<noteq> MInf" "ubx x \<noteq> MInf"
    using assms False by (auto simp: iv_wf_bounds dest: iv_wfD)
  obtain l where l: "ext_add (iv_lb i) (iv_lb x) = Inr l" "ext_wf l" "ext_abs l \<noteq> PInf"
    "\<forall>n m. lbx i \<le> Fin n \<longrightarrow> lbx x \<le> Fin m \<longrightarrow> ext_abs l \<le> Fin (n + m)"
    using ext_add_lower[of "iv_lb i" "iv_lb x"] w by blast
  obtain u where u: "ext_add (iv_ub i) (iv_ub x) = Inr u" "ext_wf u" "ext_abs u \<noteq> MInf"
    "\<forall>n m. Fin n \<le> ubx i \<longrightarrow> Fin m \<le> ubx x \<longrightarrow> Fin (n + m) \<le> ext_abs u"
    using ext_add_upper[of "iv_ub i" "iv_ub x"] w by blast
  show ?thesis using h l u assms
    by (auto simp: iv_add_def iv_gamma_make iv_gamma_iff intro!: iv_wf_make)
qed

lemma xint_neg_le [simp]: "xint_neg x \<le> xint_neg y \<longleftrightarrow> y \<le> x"
  by (cases x; cases y) auto

lemma xint_neg_Fin_le [simp]: "xint_neg x \<le> Fin n \<longleftrightarrow> Fin (- n) \<le> x" "Fin n \<le> xint_neg x \<longleftrightarrow> x \<le> Fin (- n)"
  by (cases x; auto)+

lemma xint_neg_inf [simp]: "xint_neg x = PInf \<longleftrightarrow> x = MInf" "xint_neg x = MInf \<longleftrightarrow> x = PInf"
  by (cases x; auto)+

lemma iv_wf_neg: "iv_wf i \<Longrightarrow> iv_wf (iv_neg i)"
  by (auto simp: iv_neg_def iv_is_bottom_iff ext_abs_neg iv_wf_bounds dest: iv_wfD intro!: iv_wf_make)

text \<open>Negation is exact.\<close>

lemma iv_neg_gamma: "iv_wf i \<Longrightarrow> iv_gamma (iv_neg i) = uminus ` iv_gamma i"
proof -
  assume wf: "iv_wf i"
  have "n \<in> iv_gamma (iv_neg i) \<longleftrightarrow> - n \<in> iv_gamma i" for n
    using wf by (auto simp: iv_neg_def iv_is_bottom_iff iv_gamma_make iv_gamma_iff ext_abs_neg iv_wf_bounds)
  then show ?thesis by (force simp: image_iff)
qed

text \<open>Subtraction is addition of the negated interval, also in the code's direct form.\<close>

lemma iv_sub_eq_add_neg:
  assumes "iv_wf i" "iv_wf x"
  shows "iv_sub i x = iv_add i (iv_neg x)"
proof (cases "i = iv_bottom \<or> x = iv_bottom")
  case True
  then show ?thesis using assms by (auto simp: iv_sub_def iv_add_def iv_neg_def)
next
  case False
  then have h: "\<not> iv_is_bottom i" "\<not> iv_is_bottom x" using assms by (auto simp: iv_is_bottom_iff)
  have "lbx x \<le> ubx x" using False assms iv_wfD by blast
  then have n: "iv_neg x = \<lparr>iv_lb = ext_neg (iv_ub x), iv_ub = ext_neg (iv_lb x)\<rparr>"
    using h assms by (auto simp: iv_neg_def iv_make_bounds ext_abs_neg iv_wf_bounds)
  moreover have "\<not> iv_is_bottom (iv_neg x)"
    using \<open>lbx x \<le> ubx x\<close> assms by (simp add: n iv_is_bottom_def bound_simps iv_wf_bounds not_less)
  ultimately show ?thesis using h by (simp add: iv_sub_def iv_add_def ext_sub_def)
qed

lemma iv_sub_ok:
  assumes "iv_wf i" "iv_wf x"
  shows "\<exists>r. iv_sub i x = Inr r \<and> iv_wf r \<and> (\<forall>n\<in>iv_gamma i. \<forall>m\<in>iv_gamma x. n - m \<in> iv_gamma r)"
  using iv_add_ok[OF assms(1) iv_wf_neg[OF assms(2)]] assms
  by (auto simp: iv_sub_eq_add_neg iv_neg_gamma)

section \<open>Multiplication\<close>

lemma xint_mul_commute: "xint_mul x y = xint_mul y x"
  by (cases x; cases y) (simp_all add: mult.commute)

lemma xint_mul_mono:
  assumes "0 \<le> xint_sgn x" "y \<le> z"
  shows "xint_mul x y \<le> xint_mul x z"
  using assms
  by (cases x; cases y; cases z) (auto simp: sgn_if mult_left_mono split: if_splits)

lemma xint_mul_antimono:
  assumes "xint_sgn x \<le> 0" "y \<le> z"
  shows "xint_mul x z \<le> xint_mul x y"
  using assms
  by (cases x; cases y; cases z) (auto simp: sgn_if mult_left_mono_neg split: if_splits)

lemma xint_mul_between:
  assumes "yl \<le> y" "y \<le> yu"
  shows "min (xint_mul x yl) (xint_mul x yu) \<le> xint_mul x y"
    and "xint_mul x y \<le> max (xint_mul x yl) (xint_mul x yu)"
proof -
  consider "0 \<le> xint_sgn x" | "xint_sgn x \<le> 0" by linarith
  then show "min (xint_mul x yl) (xint_mul x yu) \<le> xint_mul x y"
    "xint_mul x y \<le> max (xint_mul x yl) (xint_mul x yu)"
    using xint_mul_mono[of x] xint_mul_antimono[of x] assms
    by (cases; auto simp: min_le_iff_disj le_max_iff_disj)+
qed

text \<open>The product of two members lies between the extreme products of the end points.\<close>

lemma xint_mul_corners:
  assumes "xl \<le> Fin n" "Fin n \<le> xu" "yl \<le> Fin m" "Fin m \<le> yu"
  shows "min (min (xint_mul xl yl) (xint_mul xl yu)) (min (xint_mul xu yl) (xint_mul xu yu)) \<le> Fin (n * m)"
    and "Fin (n * m) \<le> max (max (xint_mul xl yl) (xint_mul xl yu)) (max (xint_mul xu yl) (xint_mul xu yu))"
proof -
  note n = xint_mul_between[OF assms(1,2), of "Fin m"] and m = xint_mul_between[OF assms(3,4)]
  have "min (xint_mul xl (Fin m)) (xint_mul xu (Fin m)) \<le> Fin (n * m)"
    using n(1) by (simp add: xint_mul_commute mult.commute)
  then show "min (min (xint_mul xl yl) (xint_mul xl yu)) (min (xint_mul xu yl) (xint_mul xu yu)) \<le> Fin (n * m)"
    by (rule order_trans[OF min.mono[OF m(1) m(1)]])
  have "Fin (n * m) \<le> max (xint_mul xl (Fin m)) (xint_mul xu (Fin m))"
    using n(2) by (simp add: xint_mul_commute mult.commute)
  then show "Fin (n * m) \<le> max (max (xint_mul xl yl) (xint_mul xl yu)) (max (xint_mul xu yl) (xint_mul xu yu))"
    by (rule order_trans[OF _ max.mono[OF m(2) m(2)]])
qed

lemma ext_minmax_4:
  assumes "ext_wf a" "ext_wf b" "ext_wf c" "ext_wf d"
  shows "ext_minmax a [b, c, d] = (l, u) \<Longrightarrow> ext_wf l \<and> ext_wf u \<and>
    ext_abs l = min (min (ext_abs a) (ext_abs b)) (min (ext_abs c) (ext_abs d)) \<and>
    ext_abs u = max (max (ext_abs a) (ext_abs b)) (max (ext_abs c) (ext_abs d))"
  using ext_foldl_min[of a "[b, c, d]"] ext_foldl_max[of a "[b, c, d]"] assms
  by (auto simp: ext_minmax_def min.assoc max.assoc)

lemma iv_mul_ok:
  assumes "iv_wf i" "iv_wf x"
  shows "iv_wf (iv_mul i x) \<and> (\<forall>n\<in>iv_gamma i. \<forall>m\<in>iv_gamma x. n * m \<in> iv_gamma (iv_mul i x))"
proof (cases "i = iv_bottom \<or> x = iv_bottom")
  case True
  then show ?thesis using assms by (auto simp: iv_mul_def)
next
  case False
  then have h: "\<not> iv_is_bottom i" "\<not> iv_is_bottom x" using assms by (auto simp: iv_is_bottom_iff)
  obtain l u where lu: "ext_minmax (ext_mul (iv_lb i) (iv_lb x))
      [ext_mul (iv_lb i) (iv_ub x), ext_mul (iv_ub i) (iv_lb x), ext_mul (iv_ub i) (iv_ub x)] = (l, u)"
    by fastforce
  have a: "ext_wf l \<and> ext_wf u \<and>
      ext_abs l = min (min (xint_mul (lbx i) (lbx x)) (xint_mul (lbx i) (ubx x)))
                      (min (xint_mul (ubx i) (lbx x)) (xint_mul (ubx i) (ubx x))) \<and>
      ext_abs u = max (max (xint_mul (lbx i) (lbx x)) (xint_mul (lbx i) (ubx x)))
                      (max (xint_mul (ubx i) (lbx x)) (xint_mul (ubx i) (ubx x)))"
    using ext_minmax_4[OF _ _ _ _ lu] assms by (simp add: ext_mul_abs iv_wf_bounds)
  have m: "iv_mul i x = iv_make l u" using h lu by (simp add: iv_mul_def)
  have s: "ext_abs l \<le> Fin (n * m) \<and> Fin (n * m) \<le> ext_abs u"
    if "lbx i \<le> Fin n" "Fin n \<le> ubx i" "lbx x \<le> Fin m" "Fin m \<le> ubx x" for n m
    using xint_mul_corners[OF that] a by simp
  obtain n m where "lbx i \<le> Fin n" "Fin n \<le> ubx i" "lbx x \<le> Fin m" "Fin m \<le> ubx x"
    using iv_nonempty assms False by meson
  then have "iv_wf (iv_make l u)" using s a by (blast intro: iv_wf_make_nonempty)
  moreover have "n * m \<in> iv_gamma (iv_make l u)" if "n \<in> iv_gamma i" "m \<in> iv_gamma x" for n m
    using s a that assms by (blast dest: iv_gammaD intro: iv_make_memI)
  ultimately show ?thesis by (simp add: m)
qed

lemma double_loop_eq: "double_loop k f = f * 2 ^ k"
  by (induction k arbitrary: f) simp_all

lemma iv_shl_ok:
  assumes "iv_wf i" "iv_wf x"
  shows "iv_wf (iv_shl i x) \<and>
    (\<forall>n\<in>iv_gamma i. \<forall>k\<in>iv_gamma x. push_bit (nat k) n \<in> iv_gamma (iv_shl i x))"
proof (cases "iv_singleton x")
  case None
  then show ?thesis using assms by (auto simp: iv_shl_def iv_is_bottom_iff)
next
  case (Some c)
  then have x: "x = iv_of c" using assms by (simp add: iv_singleton_iff)
  show ?thesis using Some assms iv_mul_ok[OF assms(1), of "iv_of (2 ^ nat c)"]
    by (auto simp: iv_shl_def iv_is_bottom_iff double_loop_eq push_bit_eq_mult x)
qed

section \<open>Division\<close>

text \<open>
  The three divisions of the code, \<^verbatim>\<open>operator/\<close>, \<^verbatim>\<open>sdiv\<close> and \<^verbatim>\<open>udiv\<close>, share their case
  analysis. \<open>nonneg_division\<close> states the cases as laws of a division \<open>dv\<close> over quotients of
  bounds \<open>q\<close>, for divisors that the fast path reads unchanged (\<open>ok\<close>), and proves once that
  \<open>dv\<close> is sound for non-negative operands with a bounded divisor.
\<close>

lemma iv_bounds_nonneg:
  assumes "iv_wf i" "i \<noteq> iv_bottom" "\<forall>n\<in>iv_gamma i. k \<le> n"
  shows "\<exists>a. iv_lb i = ext_of a \<and> k \<le> a \<and> ((\<exists>b. iv_ub i = ext_of b \<and> a \<le> b) \<or> iv_ub i = plus_infinity)"
proof -
  have w: "ext_wf (iv_lb i)" "ext_wf (iv_ub i)" "lbx i \<le> ubx i" "lbx i \<noteq> PInf" "ubx i \<noteq> MInf"
    using assms iv_wfD iv_wf_bounds by blast+
  obtain n0 where n0: "lbx i \<le> Fin n0" "Fin n0 \<le> ubx i" using iv_nonempty assms by blast
  have "lbx i \<noteq> MInf"
  proof
    assume "lbx i = MInf"
    then have "min n0 (k - 1) \<in> iv_gamma i" using n0 assms
      by (cases "ubx i") (auto simp: iv_gamma_iff)
    then show False using assms(3) by fastforce
  qed
  then obtain a where a: "iv_lb i = ext_of a" using w(4) by - (rule ext_wf_cases[OF w(1)], auto)
  then have "a \<in> iv_gamma i" using w assms by (auto simp: iv_gamma_iff)
  then show ?thesis using a assms(3) w(3,5) by - (rule ext_wf_cases[OF w(2)], auto)
qed

text \<open>The positive half of a non-negative interval, and its empty negative half.\<close>

lemma nonneg_halves:
  assumes "iv_wf i" "\<forall>n\<in>iv_gamma i. 0 \<le> n" "0 \<in> iv_gamma i"
  shows "iv_make (iv_lb i) (ext_of (-1)) = iv_bottom" "iv_wf (iv_make (ext_of 1) (iv_ub i))"
    "iv_gamma (iv_make (ext_of 1) (iv_ub i)) = iv_gamma i - {0}"
proof -
  have "i \<noteq> iv_bottom" using assms by auto
  then obtain a where a: "iv_lb i = ext_of a" "0 \<le> a"
      and u: "(\<exists>b. iv_ub i = ext_of b \<and> a \<le> b) \<or> iv_ub i = plus_infinity"
    using iv_bounds_nonneg[OF assms(1) _ assms(2)] by blast
  have a0: "a = 0" using a assms by (auto simp: iv_gamma_iff)
  show "iv_make (iv_lb i) (ext_of (-1)) = iv_bottom" using a by (intro iv_make_empty) auto
  show "iv_wf (iv_make (ext_of 1) (iv_ub i))" using u by (intro iv_wf_make) auto
  show "iv_gamma (iv_make (ext_of 1) (iv_ub i)) = iv_gamma i - {0}"
    using u assms a a0 by (auto simp: iv_gamma_make iv_gamma_iff)
qed

locale nonneg_division =
  fixes dv :: "Interval \<Rightarrow> Interval \<Rightarrow> Interval result"
    and q :: "ExtendedNumber \<Rightarrow> ExtendedNumber \<Rightarrow> ExtendedNumber result"
    and ok :: "int \<Rightarrow> bool"
  assumes dv_bottom: "iv_is_bottom i \<or> iv_is_bottom x \<Longrightarrow> dv i x = Inr iv_bottom"
    and dv_singleton: "\<not> iv_is_bottom i \<Longrightarrow> 0 \<le> c \<Longrightarrow> ok c \<Longrightarrow> dv i (iv_of c) =
          (if c = 1 then Inr i
           else if c \<noteq> 0 then rbind (q (iv_lb i) (ext_of c)) (\<lambda>l. rbind (q (iv_ub i) (ext_of c)) (\<lambda>u. Inr (iv_make l u)))
           else Inr (iv_of 0))"
    and dv_divisor_0: "\<not> iv_is_bottom i \<Longrightarrow> iv_singleton x = None \<Longrightarrow> iv_contains x 0 \<Longrightarrow> dv i x =
          rbind (dv i (iv_make (iv_lb x) (ext_of (-1)))) (\<lambda>r1.
          rbind (dv i (iv_make (ext_of 1) (iv_ub x))) (\<lambda>r2. Inr (iv_join (iv_join r1 r2) (iv_of 0))))"
    and dv_dividend_0: "\<not> iv_is_bottom x \<Longrightarrow> iv_singleton x = None \<Longrightarrow> \<not> iv_contains x 0 \<Longrightarrow> iv_contains i 0 \<Longrightarrow>
          dv i x =
          rbind (dv (iv_make (iv_lb i) (ext_of (-1))) x) (\<lambda>r1.
          rbind (dv (iv_make (ext_of 1) (iv_ub i)) x) (\<lambda>r2. Inr (iv_join (iv_join r1 r2) (iv_of 0))))"
    and dv_nonzero: "\<not> iv_is_bottom i \<Longrightarrow> \<not> iv_is_bottom x \<Longrightarrow> iv_singleton x = None \<Longrightarrow>
          \<not> iv_contains x 0 \<Longrightarrow> \<not> iv_contains i 0 \<Longrightarrow> dv i x = iv_quotients q i x"
    and q_finite: "0 \<le> a \<Longrightarrow> 0 < b \<Longrightarrow> q (ext_of a) (ext_of b) = Inr (ext_of (a div b))"
    and q_infinite: "0 < b \<Longrightarrow> q plus_infinity (ext_of b) = Inr plus_infinity"
begin

lemma q_upper:
  assumes "u = ext_of b \<and> 0 \<le> b \<or> u = plus_infinity" "0 < c"
  shows "\<exists>r. q u (ext_of c) = Inr r \<and> ext_wf r \<and> ext_abs r \<noteq> MInf \<and>
    (\<forall>n. 0 \<le> n \<longrightarrow> Fin n \<le> ext_abs u \<longrightarrow> Fin (n div c) \<le> ext_abs r)"
  using assms by (auto simp: q_finite q_infinite zdiv_mono1)

lemma dv_pos_singleton_ok:
  assumes "iv_wf i" "\<forall>n\<in>iv_gamma i. 0 \<le> n" "0 \<le> c" "ok c"
  shows "\<exists>r. dv i (iv_of c) = Inr r \<and> iv_wf r \<and> (\<forall>n\<in>iv_gamma i. n div c \<in> iv_gamma r)"
proof (cases "i = iv_bottom \<or> c = 0 \<or> c = 1")
  case True
  then show ?thesis using assms
    by (cases "i = iv_bottom") (auto simp: dv_bottom dv_singleton iv_is_bottom_iff)
next
  case False
  obtain a where a: "iv_lb i = ext_of a" "0 \<le> a"
      and u: "(\<exists>b. iv_ub i = ext_of b \<and> a \<le> b) \<or> iv_ub i = plus_infinity"
    using iv_bounds_nonneg[OF assms(1) _ assms(2)] False by blast
  then obtain b where "iv_ub i = ext_of b \<and> 0 \<le> b \<or> iv_ub i = plus_infinity" by fastforce
  then obtain r where r: "q (iv_ub i) (ext_of c) = Inr r" "ext_wf r" "ext_abs r \<noteq> MInf"
    "\<forall>n. 0 \<le> n \<longrightarrow> Fin n \<le> ubx i \<longrightarrow> Fin (n div c) \<le> ext_abs r"
    using q_upper[of "iv_ub i" b c] False assms(3) by auto
  have "dv i (iv_of c) = Inr (iv_make (ext_of (a div c)) r)"
    using False assms a r by (simp add: dv_singleton iv_is_bottom_iff q_finite)
  moreover have "iv_wf (iv_make (ext_of (a div c)) r)" using r by (intro iv_wf_make) auto
  moreover have "n div c \<in> iv_gamma (iv_make (ext_of (a div c)) r)" if "n \<in> iv_gamma i" for n
    using that assms a r False by (auto simp: iv_gamma_iff zdiv_mono1 intro!: iv_make_memI)
  ultimately show ?thesis by blast
qed

lemma dv_pos_pos_ok:
  assumes "iv_wf i" "iv_wf x" "i \<noteq> iv_bottom" "x \<noteq> iv_bottom" "iv_singleton x = None"
    and "\<forall>n\<in>iv_gamma i. 1 \<le> n" "\<forall>m\<in>iv_gamma x. 1 \<le> m" "ubx x \<noteq> PInf"
  shows "\<exists>r. dv i x = Inr r \<and> iv_wf r \<and> (\<forall>n\<in>iv_gamma i. \<forall>m\<in>iv_gamma x. n div m \<in> iv_gamma r)"
proof -
  obtain a where a: "iv_lb i = ext_of a" "1 \<le> a"
      and u: "(\<exists>b. iv_ub i = ext_of b \<and> a \<le> b) \<or> iv_ub i = plus_infinity"
    using iv_bounds_nonneg[OF assms(1,3,6)] by blast
  obtain c d where cd: "iv_lb x = ext_of c" "1 \<le> c" "iv_ub x = ext_of d" "c \<le> d"
    using iv_bounds_nonneg[OF assms(2,4,7)] assms(8) by auto
  from u obtain b where "iv_ub i = ext_of b \<and> 0 \<le> b \<or> iv_ub i = plus_infinity" using a by fastforce
  then obtain r3 r4 where r3: "q (iv_ub i) (ext_of c) = Inr r3" "ext_wf r3" "ext_abs r3 \<noteq> MInf"
      "\<forall>n. 0 \<le> n \<longrightarrow> Fin n \<le> ubx i \<longrightarrow> Fin (n div c) \<le> ext_abs r3"
    and r4: "q (iv_ub i) (ext_of d) = Inr r4" "ext_wf r4"
    using q_upper[of "iv_ub i" b c] q_upper[of "iv_ub i" b d] cd by auto
  have mk: "make_dividend_when_both_nonzero i x = Inr i"
    using u a by (auto simp: make_dividend_when_both_nonzero_def bound_simps)
  obtain l h where lh: "ext_minmax (ext_of (a div c)) [ext_of (a div d), r3, r4] = (l, h)" by fastforce
  have lha: "ext_wf l \<and> ext_wf h \<and>
      ext_abs l = min (min (Fin (a div c)) (Fin (a div d))) (min (ext_abs r3) (ext_abs r4)) \<and>
      ext_abs h = max (max (Fin (a div c)) (Fin (a div d))) (max (ext_abs r3) (ext_abs r4))"
    using ext_minmax_4[OF _ _ _ _ lh] r3 r4 by simp
  have nc: "\<not> iv_contains x 0" "\<not> iv_contains i 0"
    using assms(6,7) by (auto simp: iv_contains_iff)
  have d: "dv i x = Inr (iv_make l h)"
    using dv_nonzero[OF _ _ assms(5) nc] assms a cd r3 r4 lh mk
    by (simp add: iv_quotients_def iv_is_bottom_iff q_finite)
  have s: "ext_abs l \<le> Fin (n div m) \<and> Fin (n div m) \<le> ext_abs h"
    if "n \<in> iv_gamma i" "m \<in> iv_gamma x" for n m
  proof -
    have n: "a \<le> n" "Fin n \<le> ubx i" and m: "c \<le> m" "m \<le> d" using that assms a cd by (auto simp: iv_gamma_iff)
    have lo: "a div d \<le> n div m" using n m a cd
      by (meson dual_order.trans zdiv_mono1 zdiv_mono2 zero_le_one order_less_le_trans zero_less_one)
    have "n div m \<le> n div c" using n m a cd by (intro zdiv_mono2) auto
    then have "Fin (n div m) \<le> Fin (n div c)" by simp
    also have "Fin (n div c) \<le> ext_abs r3" using n a r3 by auto
    finally show ?thesis using lo lha by (auto simp: min_le_iff_disj le_max_iff_disj)
  qed
  moreover obtain n m where "n \<in> iv_gamma i" "m \<in> iv_gamma x"
    using iv_gamma_empty_iff assms by blast
  ultimately have "iv_wf (iv_make l h)" using lha by (blast intro: iv_wf_make_nonempty)
  then show ?thesis using d s lha by (blast intro: iv_make_memI)
qed

lemma join_zero:
  assumes "iv_wf r"
  shows "iv_wf (iv_join (iv_join iv_bottom r) (iv_of 0))"
    "n \<in> iv_gamma r \<or> n = 0 \<Longrightarrow> n \<in> iv_gamma (iv_join (iv_join iv_bottom r) (iv_of 0))"
  using assms iv_join_upper[of r "iv_of 0"] by (auto simp: iv_join_def[of iv_bottom] iv_wf_join)

lemma dv_pos_divisor_ok:
  assumes "iv_wf i" "iv_wf x" "x \<noteq> iv_bottom" "\<forall>n\<in>iv_gamma i. 0 \<le> n" "\<forall>m\<in>iv_gamma x. 1 \<le> m \<and> ok m"
    and "ubx x \<noteq> PInf"
  shows "\<exists>r. dv i x = Inr r \<and> iv_wf r \<and> (\<forall>n\<in>iv_gamma i. \<forall>m\<in>iv_gamma x. n div m \<in> iv_gamma r)"
proof (cases "iv_singleton x")
  case (Some c)
  then have x: "x = iv_of c" using assms by (simp add: iv_singleton_iff)
  then show ?thesis using dv_pos_singleton_ok[OF assms(1,4), of c] assms(5) by auto
next
  case None
  show ?thesis
  proof (cases "0 \<in> iv_gamma i")
    case False
    then have "\<forall>n\<in>iv_gamma i. 1 \<le> n" using assms(4) by (metis int_one_le_iff_zero_less order_le_less)
    then show ?thesis using dv_pos_pos_ok[of i x] None assms
      by (cases "i = iv_bottom") (auto simp: dv_bottom)
  next
    case True
    let ?u = "iv_make (ext_of 1) (iv_ub i)"
    note hs = nonneg_halves[OF assms(1,4) True]
    have "\<exists>r. dv ?u x = Inr r \<and> iv_wf r \<and> (\<forall>n\<in>iv_gamma ?u. \<forall>m\<in>iv_gamma x. n div m \<in> iv_gamma r)"
      using dv_pos_pos_ok[of ?u x] None assms hs(2,3)
      by (cases "?u = iv_bottom") (force simp: dv_bottom)+
    then obtain r where r: "dv ?u x = Inr r" "iv_wf r" "\<forall>n\<in>iv_gamma ?u. \<forall>m\<in>iv_gamma x. n div m \<in> iv_gamma r"
      by blast
    have nc: "\<not> iv_contains x 0" using assms(5) by (auto simp: iv_contains_iff)
    have d: "dv i x = Inr (iv_join (iv_join iv_bottom r) (iv_of 0))"
      using dv_dividend_0[OF _ None nc] True assms r hs(1)
      by (simp add: iv_contains_iff iv_is_bottom_iff dv_bottom)
    have "n div m \<in> iv_gamma r \<or> n div m = 0" if "n \<in> iv_gamma i" "m \<in> iv_gamma x" for n m
      using that r hs(3) by (cases "n = 0") auto
    then show ?thesis using d join_zero[OF r(2)] by blast
  qed
qed

theorem dv_ok:
  assumes "iv_wf i" "iv_wf x" "\<forall>n\<in>iv_gamma i. 0 \<le> n" "\<forall>m\<in>iv_gamma x. 0 \<le> m \<and> ok m" "ubx x \<noteq> PInf"
  shows "\<exists>r. dv i x = Inr r \<and> iv_wf r \<and> (\<forall>n\<in>iv_gamma i. \<forall>m\<in>iv_gamma x. n div m \<in> iv_gamma r)"
proof (cases "i = iv_bottom \<or> x = iv_bottom")
  case True
  then show ?thesis by (auto simp: dv_bottom)
next
  case nb: False
  show ?thesis
  proof (cases "iv_singleton x")
    case (Some c)
    then have x: "x = iv_of c" using assms by (simp add: iv_singleton_iff)
    then show ?thesis using dv_pos_singleton_ok[OF assms(1,3), of c] assms(4) by auto
  next
    case None
    show ?thesis
    proof (cases "0 \<in> iv_gamma x")
      case False
      then have "\<forall>m\<in>iv_gamma x. 1 \<le> m \<and> ok m"
        using assms(4) by (metis int_one_le_iff_zero_less order_le_less)
      then show ?thesis using dv_pos_divisor_ok[OF assms(1,2) _ assms(3)] assms(5) nb by blast
    next
      case True
      let ?u = "iv_make (ext_of 1) (iv_ub x)"
      have nn: "\<forall>m\<in>iv_gamma x. 0 \<le> m" using assms(4) by blast
      note hs = nonneg_halves[OF assms(2) nn True]
      have "ubx ?u \<noteq> PInf" using assms(5) by (simp add: iv_make_def)
      then have "\<exists>r. dv i ?u = Inr r \<and> iv_wf r \<and> (\<forall>n\<in>iv_gamma i. \<forall>m\<in>iv_gamma ?u. n div m \<in> iv_gamma r)"
        using dv_pos_divisor_ok[OF assms(1) hs(2) _ assms(3)] hs(3) assms(4)
        by (cases "?u = iv_bottom") (force simp: dv_bottom)+
      then obtain r where r: "dv i ?u = Inr r" "iv_wf r" "\<forall>n\<in>iv_gamma i. \<forall>m\<in>iv_gamma ?u. n div m \<in> iv_gamma r"
        by blast
      have d: "dv i x = Inr (iv_join (iv_join iv_bottom r) (iv_of 0))"
        using dv_divisor_0[OF _ None] True assms r hs(1) nb
        by (simp add: iv_contains_iff iv_is_bottom_iff dv_bottom)
      have "n div m \<in> iv_gamma r \<or> n div m = 0" if "n \<in> iv_gamma i" "m \<in> iv_gamma x" for n m
        using that r hs(3) by (cases "m = 0") auto
      then show ?thesis using d join_zero[OF r(2)] by blast
    qed
  qed
qed

end

lemma iv_of_tests [simp]: "\<not> iv_is_bottom (iv_of c)" "iv_singleton (iv_of c) = Some c"
  by (simp_all add: iv_is_bottom_iff iv_singleton_iff)

lemma iv_contains_not_bottom: "iv_contains i n \<Longrightarrow> \<not> iv_is_bottom i"
  by (auto simp: iv_contains_def)

lemma ext_div_infinite: "0 < b \<Longrightarrow> ext_div plus_infinity (ext_of b) = Inr plus_infinity"
  "0 < b \<Longrightarrow> ext_udiv plus_infinity (ext_of b) = Inr plus_infinity"
  by (simp_all add: ext_div_def ext_udiv_def ext_AbsDiv_def)

interpretation iv_div: nonneg_division iv_div ext_div "\<lambda>_. True"
proof unfold_locales
  fix i :: Interval and c :: int
  assume "\<not> iv_is_bottom i" "0 \<le> c"
  then show "iv_div i (iv_of c) = (if c = 1 then Inr i
      else if c \<noteq> 0 then rbind (ext_div (iv_lb i) (ext_of c)) (\<lambda>l. rbind (ext_div (iv_ub i) (ext_of c)) (\<lambda>u. Inr (iv_make l u)))
      else Inr (iv_of 0))"
    by (subst iv_div.simps) auto
qed (auto simp: iv_div.simps iv_contains_not_bottom ext_div_finite ext_div_infinite sdiv_eq_div_pos)

lemma iv_singleton_cast_of:
  assumes "T = int64_t \<and> c < 2 ^ 63 \<or> T = uint64_t \<and> c < 2 ^ 64" "0 \<le> c"
  shows "iv_singleton_cast T (iv_of c) = Inr (Some c)"
proof -
  have "num_fits_cast_to int64_t c" "num_fits_cast_to T c" "in_ctype T c"
    using assms by (auto simp: num_fits_cast_to_def num_fits_def in_ctype_def)
  then show ?thesis using assms static_cast_id[of T c] by (auto simp: iv_singleton_cast_def num_cast_to_eq)
qed

lemma iv_singleton_cast_None: "iv_singleton x = None \<Longrightarrow> iv_singleton_cast T x = Inr None"
  by (simp add: iv_singleton_cast_def)

interpretation iv_sdiv: nonneg_division iv_sdiv ext_div "\<lambda>c. c < 2 ^ 63"
proof unfold_locales
  fix i :: Interval and c :: int
  assume "\<not> iv_is_bottom i" "0 \<le> c" "c < 2 ^ 63"
  then show "iv_sdiv i (iv_of c) = (if c = 1 then Inr i
      else if c \<noteq> 0 then rbind (ext_div (iv_lb i) (ext_of c)) (\<lambda>l. rbind (ext_div (iv_ub i) (ext_of c)) (\<lambda>u. Inr (iv_make l u)))
      else Inr (iv_of 0))"
    by (subst iv_sdiv.simps) (simp add: iv_singleton_cast_of)
qed (auto simp: iv_sdiv.simps iv_contains_not_bottom iv_singleton_cast_None ext_div_finite ext_div_infinite
    sdiv_eq_div_pos)

interpretation iv_udiv: nonneg_division iv_udiv ext_udiv "\<lambda>c. c < 2 ^ 64"
proof unfold_locales
  fix i :: Interval and c :: int
  assume "\<not> iv_is_bottom i" "0 \<le> c" "c < 2 ^ 64"
  then show "iv_udiv i (iv_of c) = (if c = 1 then Inr i
      else if c \<noteq> 0 then rbind (ext_udiv (iv_lb i) (ext_of c)) (\<lambda>l. rbind (ext_udiv (iv_ub i) (ext_of c)) (\<lambda>u. Inr (iv_make l u)))
      else Inr (iv_of 0))"
    by (subst iv_udiv.simps) (simp add: iv_singleton_cast_of)
qed (auto simp: iv_udiv.simps iv_contains_not_bottom iv_singleton_cast_None ext_udiv_finite ext_div_infinite)

end
