(* ===== verification/Interval_Bits.thy ===== *)
theory Interval_Bits
  imports Interval_Arith
begin

unbundle bit_operations_syntax

text \<open>
  Soundness of the operations of \<^verbatim>\<open>crab/interval.cpp\<close> that depend on the binary representation:
  truncation to a machine type (\<^verbatim>\<open>sign_extend\<close>, \<^verbatim>\<open>zero_extend\<close>, \<^verbatim>\<open>truncate_to\<close>), the bitwise
  operations, the shifts, and the remainders.
\<close>

section \<open>Case analysis of intervals\<close>

lemma iv_finite_eq_range: "a \<le> b \<Longrightarrow> \<lparr>iv_lb = ext_of a, iv_ub = ext_of b\<rparr> = iv_range a b"
  by (simp add: iv_range_def iv_make_bounds)

lemma iv_range_bounds [simp]: "a \<le> b \<Longrightarrow> iv_lb (iv_range a b) = ext_of a" "a \<le> b \<Longrightarrow> iv_ub (iv_range a b) = ext_of b"
  by (simp_all flip: iv_finite_eq_range)

lemma iv_is_bottom_range [simp]: "iv_is_bottom (iv_range l u) \<longleftrightarrow> u < l"
  using iv_gamma_empty_iff[of "iv_range l u"] by (auto simp: iv_is_bottom_iff not_le)

lemma iv_wf_cases [case_names bottom finite below above top, consumes 1]:
  assumes "iv_wf i"
  obtains "i = iv_bottom"
    | a b where "i = iv_range a b" "a \<le> b"
    | b where "i = \<lparr>iv_lb = minus_infinity, iv_ub = ext_of b\<rparr>"
    | a where "i = \<lparr>iv_lb = ext_of a, iv_ub = plus_infinity\<rparr>"
    | "i = \<lparr>iv_lb = minus_infinity, iv_ub = plus_infinity\<rparr>"
proof (cases "i = iv_bottom")
  case False
  have w: "ext_wf (iv_lb i)" "ext_wf (iv_ub i)" "lbx i \<le> ubx i" "lbx i \<noteq> PInf" "ubx i \<noteq> MInf"
    using assms False iv_wfD iv_wf_bounds by blast+
  obtain l u where i: "i = \<lparr>iv_lb = l, iv_ub = u\<rparr>" by (cases i) auto
  have w': "ext_wf l" "ext_wf u" using w i by auto
  have "(\<exists>a b. l = ext_of a \<and> u = ext_of b \<and> a \<le> b) \<or> (\<exists>b. l = minus_infinity \<and> u = ext_of b) \<or>
      (\<exists>a. l = ext_of a \<and> u = plus_infinity) \<or> l = minus_infinity \<and> u = plus_infinity"
    by (rule ext_wf_cases[OF w'(1)]; rule ext_wf_cases[OF w'(2)]) (use w(3-5) i in auto)
  then show ?thesis using i that(2-5) by (elim disjE exE conjE) (simp_all add: iv_finite_eq_range)
qed (rule that(1))

lemma iv_size_range: "a \<le> b \<Longrightarrow> iv_size (iv_range a b) = Inr (ext_of (b - a + 1))"
  by (simp add: iv_size_def is_finite_def ext_sub_def ext_add_def ext_neg_def ext_make_def ext_of_def)

lemma iv_size_bottom [simp]: "iv_size iv_bottom = Inr (ext_of 0)"
  by (simp add: iv_size_def)

lemma iv_size_infinite:
  "iv_size \<lparr>iv_lb = minus_infinity, iv_ub = ext_of b\<rparr> = Inr plus_infinity"
  "iv_size \<lparr>iv_lb = ext_of a, iv_ub = plus_infinity\<rparr> = Inr plus_infinity"
  "iv_size \<lparr>iv_lb = minus_infinity, iv_ub = plus_infinity\<rparr> = Inr plus_infinity"
  by (simp_all add: iv_size_def iv_is_bottom_def ext_gt_def ext_le_def is_finite_def ext_sub_def ext_add_def
      ext_neg_def ext_make_def ext_of_def plus_infinity_def minus_infinity_def)

lemma iv_gamma_ge: "iv_wf i \<Longrightarrow> Fin k \<le> lbx i \<Longrightarrow> n \<in> iv_gamma i \<Longrightarrow> k \<le> n"
  by (metis iv_gammaD order_trans xint_le_simps(1))

section \<open>Truncation\<close>

text \<open>
  Truncating both ends of a range shorter than the type: when the images are in order, no value
  of the range wraps between them.
\<close>

lemma static_cast_no_wrap:
  assumes "0 < cwidth T" "a \<le> n" "n \<le> b" "b - a < 2 ^ cwidth T - 1" "static_cast T a \<le> static_cast T b"
  shows "static_cast T a \<le> static_cast T n \<and> static_cast T n \<le> static_cast T b"
proof -
  let ?a = "static_cast T a"
  have max: "numeric_max T - numeric_min T = 2 ^ cwidth T - 1"
    using assms(1) by (cases T) (auto simp: power_eq_if)
  have ina: "in_ctype T ?a" using assms(1) by (rule static_cast_in_ctype)
  have shift: "static_cast T m = ?a + (m - a)" if "in_ctype T (?a + (m - a))" for m
  proof (rule in_ctype_cong_eq[OF assms(1) static_cast_in_ctype[OF assms(1)] that])
    show "static_cast T m mod 2 ^ cwidth T = (?a + (m - a)) mod 2 ^ cwidth T"
      using static_cast_cong_mod[OF assms(1), of m] static_cast_cong_mod[OF assms(1), of a]
      by (metis add_diff_cancel_left' add.commute diff_add_cancel mod_add_left_eq)
  qed
  have "in_ctype T (?a + (b - a))"
  proof (rule ccontr)
    assume "\<not> in_ctype T (?a + (b - a))"
    then have big: "numeric_max T < ?a + (b - a)" using ina assms(2,3) by (auto simp: in_ctype_def)
    then have in2: "in_ctype T (?a + (b - a) - 2 ^ cwidth T)"
      using ina assms(4) max by (auto simp: in_ctype_def)
    have "static_cast T b = ?a + (b - a) - 2 ^ cwidth T"
    proof (rule in_ctype_cong_eq[OF assms(1) static_cast_in_ctype[OF assms(1)] in2])
      show "static_cast T b mod 2 ^ cwidth T = (?a + (b - a) - 2 ^ cwidth T) mod 2 ^ cwidth T"
        using static_cast_cong_mod[OF assms(1), of b] static_cast_cong_mod[OF assms(1), of a]
        by (metis add_diff_cancel_left' add.commute diff_add_cancel mod_add_left_eq minus_mod_self2)
    qed
    then show False using assms(4,5) by linarith
  qed
  then have "in_ctype T (?a + (n - a))" using ina assms(2,3) by (auto simp: in_ctype_def)
  then show ?thesis using shift[of n] shift[OF \<open>in_ctype T (?a + (b - a))\<close>] assms(2,3) by auto
qed

lemma iv_extend_ok:
  assumes "iv_wf i" "0 < cwidth T" and e: "\<And>n. e width (ext_of n) = Inr (static_cast T n)"
  shows "\<exists>r. iv_extend e width (iv_range (numeric_min T) (numeric_max T)) i = Inr r \<and> iv_wf r \<and>
    (\<forall>n\<in>iv_gamma i. static_cast T n \<in> iv_gamma r) \<and> iv_gamma r \<subseteq> {n. in_ctype T n}"
proof -
  let ?f = "iv_range (numeric_min T) (numeric_max T)"
  have le: "numeric_min T \<le> numeric_max T" by (cases T) auto
  have max: "numeric_max T - numeric_min T = 2 ^ cwidth T - 1"
    using assms(2) by (cases T) (auto simp: power_eq_if)
  have fs: "iv_size ?f = Inr (ext_of (2 ^ cwidth T))"
    using iv_size_range[OF le] max by simp
  have inT: "static_cast T n \<in> iv_gamma ?f" "iv_gamma ?f \<subseteq> {n. in_ctype T n}" for n
    using static_cast_in_ctype[OF assms(2), of n] by (auto simp: in_ctype_def)
  have rng: "iv_gamma (iv_range (static_cast T a) (static_cast T b)) \<subseteq> {n. in_ctype T n}" for a b
    using static_cast_in_ctype[OF assms(2), of a] static_cast_in_ctype[OF assms(2), of b] by (auto simp: in_ctype_def)
  show ?thesis using assms(1)
  proof (cases rule: iv_wf_cases)
    case bottom
    then show ?thesis using rng[of 0 "-1"] inT(2) by (simp add: iv_extend_def fs e Let_def bound_simps)
  next
    case (finite a b)
    then have ext: "iv_extend e width ?f i =
        Inr (if b - a + 1 < 2 ^ cwidth T \<and> static_cast T a \<le> static_cast T b
             then iv_range (static_cast T a) (static_cast T b) else ?f)"
      by (simp add: iv_extend_def iv_size_range fs e Let_def bound_simps not_less)
    show ?thesis
    proof (cases "b - a + 1 < 2 ^ cwidth T \<and> static_cast T a \<le> static_cast T b")
      case True
      then show ?thesis using ext finite rng[of a b] static_cast_no_wrap[OF assms(2), of a _ b] by simp
    next
      case False
      then show ?thesis using ext inT by auto
    qed
  qed (use inT in \<open>simp_all add: iv_extend_def iv_size_infinite fs bound_simps\<close>)
qed

lemma iv_sign_extend_ok:
  assumes "iv_wf i" "0 < w"
  shows "\<exists>r. iv_sign_extend (int w) i = Inr r \<and> iv_wf r \<and>
    (\<forall>n\<in>iv_gamma i. signed_take_bit (w - 1) n \<in> iv_gamma r) \<and> iv_gamma r \<subseteq> {n. in_ctype (SInt w) n}"
  using iv_extend_ok[OF assms(1), of "SInt w" ext_sign_extend "int w"] assms(2)
  by (simp add: iv_sign_extend_def iv_signed_int_def number_simps ext_sign_extend_def num_sign_extend_def)

lemma iv_zero_extend_ok:
  assumes "iv_wf i" "0 < w"
  shows "\<exists>r. iv_zero_extend (int w) i = Inr r \<and> iv_wf r \<and>
    (\<forall>n\<in>iv_gamma i. take_bit w n \<in> iv_gamma r) \<and> iv_gamma r \<subseteq> {n. in_ctype (UInt w) n}"
  using iv_extend_ok[OF assms(1), of "UInt w" ext_zero_extend "int w"] assms(2)
  by (simp add: iv_zero_extend_def iv_unsigned_int_def number_simps ext_zero_extend_def num_zero_extend_def)

lemma iv_truncate_to_ok:
  assumes "iv_wf i" "0 < cwidth T"
  shows "\<exists>r. iv_truncate_to T i = Inr r \<and> iv_wf r \<and>
    (\<forall>n\<in>iv_gamma i. static_cast T n \<in> iv_gamma r) \<and> iv_gamma r \<subseteq> {n. in_ctype T n}"
  using iv_sign_extend_ok[OF assms(1)] iv_zero_extend_ok[OF assms(1)] assms(2)
  by (cases T) (auto simp: iv_truncate_to_def)

lemma iv_of_bounds [simp]: "iv_lb (iv_of c) = ext_of c" "iv_ub (iv_of c) = ext_of c"
  by (simp_all add: iv_of_def)

lemma iv_range_singleton: "iv_range c c = iv_of c"
  by (simp add: iv_range_def iv_make_bounds iv_of_def)

lemma iv_of_inject: "iv_of a = iv_of b \<longleftrightarrow> a = b"
  by (auto simp: iv_of_def ext_of_def)

lemma iv_eq_iff: "iv_wf i \<Longrightarrow> iv_wf x \<Longrightarrow> iv_eq i x \<longleftrightarrow> i = x"
  by (auto simp: iv_eq_def iv_is_bottom_iff intro: Interval.equality)

section \<open>Shifts\<close>

lemma iv_lshr_ok:
  assumes "iv_wf i" "iv_wf x" "\<forall>m\<in>iv_gamma x. m < 2 ^ 31"
  shows "\<exists>r. iv_lshr i x = Inr r \<and> iv_wf r \<and> (\<forall>n\<in>iv_gamma i. \<forall>m\<in>iv_gamma x. drop_bit (nat m) n \<in> iv_gamma r)"
proof (cases "i = iv_bottom \<or> x = iv_bottom")
  case True
  then show ?thesis using assms by (auto simp: iv_lshr_def)
next
  case nb: False
  show ?thesis
  proof (cases "\<exists>k a b. x = iv_of k \<and> 0 < k \<and> i = iv_range a b \<and> a \<le> b \<and> 0 \<le> a")
    case True
    then obtain k a b where h: "x = iv_of k" "0 < k" "i = iv_range a b" "a \<le> b" "0 \<le> a" by blast
    then have "iv_lshr i x = Inr (iv_range (drop_bit (nat k) a) (drop_bit (nat k) b))"
      using assms(3)
      by (simp add: iv_lshr_def bound_simps is_finite_def iv_pair_number_def ext_number_def num_shr_eq)
    then show ?thesis using h by (auto simp: drop_bit_eq_div intro: zdiv_mono1)
  next
    case False
    have "iv_lshr i x = Inr iv_top"
      using assms(1)
    proof (cases rule: iv_wf_cases)
      case (finite a b)
      then show ?thesis using False nb assms(2)
        by (auto simp: iv_lshr_def bound_simps iv_singleton_iff iv_is_bottom_iff split: option.split)
    qed (use nb assms in \<open>auto simp: iv_lshr_def iv_is_bottom_iff bound_simps is_finite_def split: option.split\<close>)
    then show ?thesis by simp
  qed
qed

lemma iv_ashr_ok:
  assumes "iv_wf i" "iv_wf x" "\<forall>n\<in>iv_gamma i. 0 \<le> n"
  shows "\<exists>r. iv_ashr i x = Inr r \<and> iv_wf r \<and> (\<forall>n\<in>iv_gamma i. \<forall>m\<in>iv_gamma x. drop_bit (nat m) n \<in> iv_gamma r)"
proof (cases "\<exists>k. x = iv_of k \<and> 0 \<le> k \<and> k \<le> 128 \<and> i \<noteq> iv_bottom")
  case True
  then obtain k where k: "x = iv_of k" "0 \<le> k" "k \<le> 128" "i \<noteq> iv_bottom" by blast
  then have "iv_ashr i x = iv_div i (iv_of (2 ^ nat k))"
    using assms by (simp add: iv_ashr_def iv_is_bottom_iff double_loop_eq)
  then show ?thesis using iv_div.dv_pos_singleton_ok[OF assms(1,3), of "2 ^ nat k"] k
    by (simp add: drop_bit_eq_div)
next
  case False
  then have "iv_ashr i x = (if i = iv_bottom \<or> x = iv_bottom then Inr iv_bottom else Inr iv_top)"
    using assms by (auto simp: iv_ashr_def iv_is_bottom_iff iv_singleton_iff split: option.split)
  then show ?thesis by auto
qed

section \<open>Bitwise operations\<close>

lemma iv_or_xor_general:
  assumes "iv_wf i" "iv_wf x" "i \<noteq> iv_bottom" "x \<noteq> iv_bottom" "\<not> (iv_singleton i \<noteq> None \<and> iv_singleton x \<noteq> None)"
  shows "\<exists>r. iv_bitwise_or i x = Inr r \<and> iv_wf r \<and>
    (\<forall>n\<in>iv_gamma i. \<forall>m\<in>iv_gamma x. n OR m \<in> iv_gamma r \<and> n XOR m \<in> iv_gamma r)"
proof (cases "Fin 0 \<le> lbx i \<and> Fin 0 \<le> lbx x")
  case False
  then have "iv_bitwise_or i x = Inr iv_top"
    using assms by (auto simp: iv_bitwise_or_def iv_is_bottom_iff bound_simps iv_wf_bounds split: option.split)
  then show ?thesis by simp
next
  case nn: True
  have nonneg: "0 \<le> n" "0 \<le> m" if "n \<in> iv_gamma i" "m \<in> iv_gamma x" for n m
    using that nn assms iv_gamma_ge by blast+
  show ?thesis
  proof (cases "\<exists>u v. iv_ub i = ext_of u \<and> iv_ub x = ext_of v")
    case True
    then obtain u v where uv: "iv_ub i = ext_of u" "iv_ub x = ext_of v" by blast
    have "0 \<le> max u v" using nn uv assms iv_wfD[of i] by (auto simp: le_max_iff_disj dest: order_trans)
    then obtain k where k: "num_fill_ones (max u v) = Inr (2 ^ k - 1)" "max u v < 2 ^ k"
      using num_fill_ones_ok by blast
    have "iv_bitwise_or i x = Inr (iv_range 0 (2 ^ k - 1))"
      using nn uv assms k
      by (auto simp: iv_bitwise_or_def iv_is_bottom_iff bound_simps iv_wf_bounds ext_number_def split: option.split)
    moreover have "n < 2 ^ k" "m < 2 ^ k" if "n \<in> iv_gamma i" "m \<in> iv_gamma x" for n m
      using that uv k assms by (auto dest!: iv_gammaD)
    ultimately show ?thesis using nonneg by (auto simp: OR_upper XOR_upper)
  next
    case False
    have "is_infinite (iv_ub i) \<or> is_infinite (iv_ub x)"
      using False assms iv_wf_bounds by (metis ext_wf_cases is_infinite_consts(1,2))
    then have "iv_bitwise_or i x = Inr (iv_make (ext_of 0) plus_infinity)"
      using nn assms
      by (auto simp: iv_bitwise_or_def iv_is_bottom_iff bound_simps iv_wf_bounds ext_number_def split: option.split)
    then show ?thesis using nonneg by (auto simp: iv_gamma_make intro!: iv_wf_make)
  qed
qed

lemma iv_bitwise_or_ok:
  assumes "iv_wf i" "iv_wf x"
  shows "\<exists>r. iv_bitwise_or i x = Inr r \<and> iv_wf r \<and> (\<forall>n\<in>iv_gamma i. \<forall>m\<in>iv_gamma x. n OR m \<in> iv_gamma r)"
proof (cases "i = iv_bottom \<or> x = iv_bottom \<or> (iv_singleton i \<noteq> None \<and> iv_singleton x \<noteq> None)")
  case True
  then show ?thesis using assms by (auto simp: iv_bitwise_or_def iv_is_bottom_iff iv_singleton_iff)
next
  case False
  then show ?thesis using iv_or_xor_general[OF assms] by blast
qed

lemma iv_bitwise_xor_ok:
  assumes "iv_wf i" "iv_wf x"
  shows "\<exists>r. iv_bitwise_xor i x = Inr r \<and> iv_wf r \<and> (\<forall>n\<in>iv_gamma i. \<forall>m\<in>iv_gamma x. n XOR m \<in> iv_gamma r)"
proof (cases "i = iv_bottom \<or> x = iv_bottom \<or> (iv_singleton i \<noteq> None \<and> iv_singleton x \<noteq> None)")
  case True
  then show ?thesis using assms by (auto simp: iv_bitwise_xor_def iv_is_bottom_iff iv_singleton_iff)
next
  case False
  then have "iv_bitwise_xor i x = iv_bitwise_or i x"
    using assms by (auto simp: iv_bitwise_xor_def iv_is_bottom_iff split: option.split)
  then show ?thesis using False iv_or_xor_general[OF assms] by auto
qed

text \<open>
  Conjunction of non-negative operands. The code treats a right operand that merely contains
  \<^verbatim>\<open>UINT64_MAX\<close> like the mask \<^verbatim>\<open>UINT64_MAX\<close> itself, which is right for the singleton only.
\<close>

lemma iv_bitwise_and_general:
  assumes "iv_wf i" "iv_wf x" "i \<noteq> iv_bottom" "x \<noteq> iv_bottom"
    "\<forall>n\<in>iv_gamma i. 0 \<le> n" "\<forall>m\<in>iv_gamma x. 0 \<le> m" "n \<in> iv_gamma i" "m \<in> iv_gamma x"
  shows "\<not> iv_is_top i \<and> \<not> iv_is_top x \<and> iv_wf (iv_make (ext_of 0) (ext_min (iv_ub i) (iv_ub x))) \<and>
    n AND m \<in> iv_gamma (iv_make (ext_of 0) (ext_min (iv_ub i) (iv_ub x)))"
proof -
  have t: "\<not> iv_is_top i" "\<not> iv_is_top x"
    using iv_bounds_nonneg[OF assms(1,3,5)] iv_bounds_nonneg[OF assms(2,4,6)] by (auto simp: iv_is_top_def)
  have "n AND m \<le> n" "n AND m \<le> m" "0 \<le> n AND m" using assms by (auto simp: AND_upper1 AND_upper2)
  moreover have "Fin n \<le> ubx i" "Fin m \<le> ubx x" using assms(1,2,7,8) by (auto dest: iv_gammaD)
  ultimately have "Fin (n AND m) \<le> ubx i" "Fin (n AND m) \<le> ubx x" "0 \<le> n AND m"
    by (metis order_trans xint_le_simps(1))+
  moreover have "ubx i \<noteq> MInf" "ubx x \<noteq> MInf" using assms(1-4) iv_wfD by blast+
  moreover note ext_min_abs[of "iv_ub i" "iv_ub x"] iv_wf_bounds[OF assms(1)] iv_wf_bounds[OF assms(2)]
  ultimately show ?thesis using t
    by (intro conjI iv_wf_make iv_make_memI) (auto simp: min_def)
qed

lemma iv_bitwise_and_ok:
  assumes "iv_wf i" "iv_wf x" "\<forall>n\<in>iv_gamma i. 0 \<le> n" "\<forall>m\<in>iv_gamma x. 0 \<le> m"
    "2 ^ 64 - 1 \<notin> iv_gamma x \<or> x = iv_of (2 ^ 64 - 1)"
  shows "\<exists>r. iv_bitwise_and i x = Inr r \<and> iv_wf r \<and> (\<forall>n\<in>iv_gamma i. \<forall>m\<in>iv_gamma x. n AND m \<in> iv_gamma r)"
proof (cases "i = iv_bottom \<or> x = iv_bottom")
  case True
  then have "iv_bitwise_and i x = Inr iv_bottom" using assms(1,2) by (simp add: iv_bitwise_and_def iv_is_bottom_iff)
  then show ?thesis using True by auto
next
  case nb: False
  let ?g = "iv_make (ext_of 0) (ext_min (iv_ub i) (iv_ub x))"
  obtain n0 m0 where "n0 \<in> iv_gamma i" "m0 \<in> iv_gamma x" using iv_gamma_empty_iff assms(1,2) nb by blast
  then have g: "\<not> iv_is_top i" "\<not> iv_is_top x" "iv_wf ?g"
    using iv_bitwise_and_general[of i x n0 m0] assms nb by auto
  have gs: "\<forall>n\<in>iv_gamma i. \<forall>m\<in>iv_gamma x. n AND m \<in> iv_gamma ?g"
    using iv_bitwise_and_general[of i x] assms(1-4) nb by blast
  have pos: "ext_ge (iv_lb i) (ext_of 0)" "ext_ge (iv_lb x) (ext_of 0)"
    using iv_bounds_nonneg[of i 0] iv_bounds_nonneg[of x 0] assms nb by (auto simp: bound_simps)
  consider (zero) "i = iv_of 0 \<or> x = iv_of 0"
    | (exact) l r where "i = iv_of l" "x = iv_of r" "\<not> (i = iv_of 0 \<or> x = iv_of 0)"
    | (mask) w where "w \<in> {8, 16, 32, 64}" "x = iv_of (2 ^ w - 1)" "iv_singleton i = None"
    | (gen) "\<not> (i = iv_of 0 \<or> x = iv_of 0)" "iv_singleton x = None \<or> iv_singleton i = None"
        "\<forall>w\<in>{8, 16, 32, 64}. x \<noteq> iv_of (2 ^ w - 1)"
    using assms(1,2) iv_singleton_iff by (metis option.exhaust)
  then show ?thesis
  proof cases
    case zero
    then have "iv_bitwise_and i x = Inr (iv_of 0)"
      using pos nb assms by (auto simp: iv_bitwise_and_def iv_is_bottom_iff iv_eq_iff)
    then show ?thesis using zero by auto
  next
    case exact
    then have "iv_bitwise_and i x = Inr (iv_of (l AND r))"
      using pos nb assms by (auto simp: iv_bitwise_and_def iv_is_bottom_iff iv_eq_iff Let_def)
    then show ?thesis using exact by auto
  next
    case mask
    have i0: "i \<noteq> iv_of 0" using mask(3) by auto
    have "iv_bitwise_and i x = iv_zero_extend (int w) i"
      using pos nb assms(1,2) mask i0
      by (elim insertE emptyE)
        (simp_all add: iv_bitwise_and_def iv_is_bottom_iff iv_eq_iff Let_def num_max_uint_eq iv_truncate_to_def
          iv_contains_iff iv_of_inject)
    then show ?thesis
      using iv_zero_extend_ok[OF assms(1), of w] mask by (auto simp: and_ones[of _ w])
  next
    case gen
    have "2 ^ 64 - 1 \<notin> iv_gamma x" using gen(3) assms(5) by auto
    moreover have "r \<noteq> num_max_uint w" if "iv_singleton x = Some r" "w \<in> {8, 16, 32}" for r w
      using gen(3) that assms(2) by (auto simp: iv_singleton_iff num_max_uint_eq)
    ultimately have "iv_bitwise_and i x = Inr ?g"
      using pos nb assms(1,2) gen(1,2) g(1,2)
      by (cases "iv_singleton x"; cases "iv_singleton i")
        (simp_all add: iv_bitwise_and_def iv_is_bottom_iff iv_eq_iff Let_def iv_contains_iff)
    then show ?thesis using g gs by blast
  qed
qed

section \<open>Remainders\<close>

text \<open>The remainders of the instruction set: a zero divisor leaves the dividend.\<close>

definition srem_conc :: "int \<Rightarrow> int \<Rightarrow> int" where
  "srem_conc n m = (if m = 0 then n else n smod m)"

definition urem_conc :: "int \<Rightarrow> int \<Rightarrow> int" where
  "urem_conc n m = (if m = 0 then n else n mod m)"

lemma zero_halves:
  assumes "iv_wf x" "0 \<in> iv_gamma x"
  shows "iv_wf (iv_make (iv_lb x) (ext_of (-1)))" "iv_wf (iv_make (ext_of 1) (iv_ub x))"
    "iv_gamma (iv_make (iv_lb x) (ext_of (-1))) = {m \<in> iv_gamma x. m < 0}"
    "iv_gamma (iv_make (ext_of 1) (iv_ub x)) = {m \<in> iv_gamma x. 0 < m}"
proof -
  have b: "lbx x \<le> Fin 0" "Fin 0 \<le> ubx x" "ext_wf (iv_lb x)" "ext_wf (iv_ub x)"
    using assms iv_gammaD iv_wf_bounds by blast+
  show "iv_wf (iv_make (iv_lb x) (ext_of (-1)))" "iv_wf (iv_make (ext_of 1) (iv_ub x))"
    using b by (auto intro!: iv_wf_make)
  show "iv_gamma (iv_make (iv_lb x) (ext_of (-1))) = {m \<in> iv_gamma x. m < 0}"
    using b assms(1) by (cases "ubx x") (auto simp: iv_gamma_make iv_gamma_iff)
  show "iv_gamma (iv_make (ext_of 1) (iv_ub x)) = {m \<in> iv_gamma x. 0 < m}"
    using b assms(1) by (cases "lbx x") (auto simp: iv_gamma_make iv_gamma_iff)
qed

lemma iv_srem_finite:
  assumes "iv_wf i" "i \<noteq> iv_bottom" "xl \<le> xu" "0 \<notin> {xl..xu}" "\<not> (iv_singleton i \<noteq> None \<and> xl = xu)"
  shows "\<exists>r. iv_srem i (iv_range xl xu) = Inr r \<and> iv_wf r \<and> (\<forall>n\<in>iv_gamma i. \<forall>m\<in>{xl..xu}. n smod m \<in> iv_gamma r)"
proof -
  let ?lo = "min \<bar>xl\<bar> \<bar>xu\<bar>" and ?hi = "max \<bar>xl\<bar> \<bar>xu\<bar>"
  have s: "iv_singleton (iv_range xl xu) \<noteq> None \<longleftrightarrow> xl = xu"
    using assms(3) by (auto simp: iv_singleton_def iv_is_singleton_def ext_number_def ext_of_def)
  have w: "ext_wf (iv_lb i)" "ext_wf (iv_ub i)" using assms(1) iv_wf_bounds by blast+
  have eq: "iv_srem i (iv_range xl xu) = Inr (
      if ubx i < Fin ?lo \<and> xint_neg (lbx i) < Fin ?lo then i
      else if lbx i < Fin 0 then (if Fin 0 < ubx i then iv_range (- (?hi - 1)) (?hi - 1) else iv_range (- (?hi - 1)) 0)
      else iv_range 0 (?hi - 1))"
    using assms s w
    by (subst iv_srem.simps) (auto simp: iv_is_bottom_iff iv_contains_iff is_finite_def iv_pair_number_def ext_number_def
        Let_def num_abs_eq bound_simps split: option.split)
  have md: "?lo \<le> \<bar>m\<bar>" "\<bar>m\<bar> \<le> ?hi" "m \<noteq> 0" if "m \<in> {xl..xu}" for m
    using that assms(4) by auto
  have bd: "- (?hi - 1) \<le> n smod m" "n smod m \<le> ?hi - 1" if "m \<in> {xl..xu}" for n m
    using abs_smod_less[of m n] md[OF that] by linarith+
  show ?thesis
  proof (cases "ubx i < Fin ?lo \<and> xint_neg (lbx i) < Fin ?lo")
    case True
    have "n smod m = n" if "n \<in> iv_gamma i" "m \<in> {xl..xu}" for n m
    proof -
      have "Fin n < Fin ?lo" "Fin (- n) < Fin ?lo"
        using True iv_gammaD[OF that(1) assms(1)] by (metis order_le_less_trans xint_neg_Fin_le(2) minus_minus)+
      then have "\<bar>n\<bar> < ?lo" by (simp only: xint_less_simps abs_less_iff)
      then show ?thesis using md(1)[OF that(2)] by (intro smod_small) linarith
    qed
    then show ?thesis using eq True assms(1) by simp
  next
    case False
    have nn: "0 \<le> n" if "\<not> lbx i < Fin 0" "n \<in> iv_gamma i" for n
      using that iv_gamma_ge[OF assms(1), of 0] by (simp add: not_less)
    have np: "n \<le> 0" if "\<not> Fin 0 < ubx i" "n \<in> iv_gamma i" for n
      using that iv_gammaD[OF that(2) assms(1)] by (metis not_less order_trans xint_le_simps(1))
    have "n smod m \<in> iv_gamma (if lbx i < Fin 0
        then (if Fin 0 < ubx i then iv_range (- (?hi - 1)) (?hi - 1) else iv_range (- (?hi - 1)) 0)
        else iv_range 0 (?hi - 1))" if "n \<in> iv_gamma i" "m \<in> {xl..xu}" for n m
      using bd[OF that(2), of n] nn[OF _ that(1)] np[OF _ that(1)] smod_sign[of n m]
      by (simp split: if_split del: minus_diff_eq)
    then show ?thesis using eq unfolding if_not_P[OF False] by simp
  qed
qed

text \<open>An unbounded divisor: the remainder lies between zero and the dividend.\<close>

lemma iv_join_zero_smod:
  assumes "iv_wf i" "n \<in> iv_gamma i"
  shows "n smod m \<in> iv_gamma (iv_join i (iv_of 0))"
proof -
  have b: "lbx i \<le> Fin n" "Fin n \<le> ubx i" using assms iv_gammaD by blast+
  have "min n 0 \<le> n smod m" "n smod m \<le> max n 0"
    using abs_smod_le[of n m] smod_sign[of n m] by linarith+
  then have "min (Fin n) (Fin 0) \<le> Fin (n smod m)" "Fin (n smod m) \<le> max (Fin n) (Fin 0)"
    by (auto simp: min_def max_def split: if_splits)
  moreover have "min (lbx i) (Fin 0) \<le> min (Fin n) (Fin 0)" "max (Fin n) (Fin 0) \<le> max (ubx i) (Fin 0)"
    using b by (auto intro: min.coboundedI1 max.coboundedI1)
  ultimately have "min (lbx i) (Fin 0) \<le> Fin (n smod m)" "Fin (n smod m) \<le> max (ubx i) (Fin 0)"
    by (meson order_trans)+
  then show ?thesis using assms by (auto simp: iv_join_gamma)
qed

lemma iv_srem_nonzero:
  assumes "iv_wf i" "iv_wf x" "0 \<notin> iv_gamma x"
  shows "\<exists>r. iv_srem i x = Inr r \<and> iv_wf r \<and> (\<forall>n\<in>iv_gamma i. \<forall>m\<in>iv_gamma x. n smod m \<in> iv_gamma r)"
proof (cases "i = iv_bottom \<or> x = iv_bottom")
  case True
  then show ?thesis by (auto simp: iv_srem.simps)
next
  case nb: False
  have inf: ?thesis if "is_infinite (iv_lb x) \<or> is_infinite (iv_ub x)"
  proof -
    have "iv_singleton x = None" using that assms(2) nb
      by (auto simp: iv_singleton_def iv_is_singleton_def ext_number_def)
    then have "iv_srem i x = Inr (iv_join i (iv_of 0))"
      using that nb assms
      by (subst iv_srem.simps) (auto simp: iv_is_bottom_iff iv_contains_iff is_finite_def split: option.split)
    then show ?thesis using iv_join_zero_smod[OF assms(1)] iv_wf_join[OF assms(1), of "iv_of 0"] by auto
  qed
  from assms(2) show ?thesis
  proof (cases rule: iv_wf_cases)
    case (finite a b)
    show ?thesis
    proof (cases "\<exists>c. i = iv_of c \<and> a = b")
      case True
      then obtain c where c: "i = iv_of c" "x = iv_of a" "a \<noteq> 0"
        using finite assms(3) by (auto simp: iv_range_singleton)
      then show ?thesis by (subst iv_srem.simps) (simp add: num_mod_def)
    next
      case False
      then show ?thesis
        using iv_srem_finite[of i a b] finite assms nb by (fastforce simp: iv_singleton_iff)
    qed
  qed (use nb inf in auto)
qed

lemma iv_srem_ok:
  assumes "iv_wf i" "iv_wf x"
  shows "\<exists>r. iv_srem i x = Inr r \<and> iv_wf r \<and> (\<forall>n\<in>iv_gamma i. \<forall>m\<in>iv_gamma x. srem_conc n m \<in> iv_gamma r)"
proof (cases "0 \<in> iv_gamma x")
  case False
  then show ?thesis using iv_srem_nonzero[OF assms] by (fastforce simp: srem_conc_def)
next
  case zx: True
  note hs = zero_halves[OF assms(2) zx]
  obtain r1 r2 where
      r1: "iv_srem i (iv_make (iv_lb x) (ext_of (-1))) = Inr r1" "iv_wf r1"
        "\<forall>n\<in>iv_gamma i. \<forall>m\<in>iv_gamma x. m < 0 \<longrightarrow> n smod m \<in> iv_gamma r1"
      and r2: "iv_srem i (iv_make (ext_of 1) (iv_ub x)) = Inr r2" "iv_wf r2"
        "\<forall>n\<in>iv_gamma i. \<forall>m\<in>iv_gamma x. 0 < m \<longrightarrow> n smod m \<in> iv_gamma r2"
    using iv_srem_nonzero[OF assms(1) hs(1)] iv_srem_nonzero[OF assms(1) hs(2)] hs(3,4) by fastforce
  show ?thesis
  proof (cases "\<exists>c d. i = iv_of c \<and> x = iv_of d")
    case True
    then obtain c where "i = iv_of c" "x = iv_of 0" using zx by auto
    then show ?thesis by (subst iv_srem.simps) (simp add: srem_conc_def)
  next
    case False
    then have eq: "i \<noteq> iv_bottom \<Longrightarrow> iv_srem i x = Inr (iv_join (iv_join r1 r2) i)"
      using zx assms r1(1) r2(1)
      by (subst iv_srem.simps) (auto simp: iv_is_bottom_iff iv_contains_iff iv_singleton_iff split: option.split)
    have "srem_conc n m \<in> iv_gamma (iv_join (iv_join r1 r2) i)" if "n \<in> iv_gamma i" "m \<in> iv_gamma x" for n m
      using that r1 r2 iv_join_upper[OF r1(2) r2(2)] iv_join_upper[OF iv_wf_join[OF r1(2) r2(2)] assms(1)]
      by (cases m "0::int" rule: linorder_cases) (simp_all add: srem_conc_def subset_iff)
    moreover have "iv_wf (iv_join (iv_join r1 r2) i)" using r1 r2 assms iv_wf_join by blast
    ultimately show ?thesis using eq by (cases "i = iv_bottom") (auto simp: iv_srem.simps)
  qed
qed

text \<open>Unsigned remainder, for operands in the range of \<^verbatim>\<open>uint64_t\<close>.\<close>

lemma uint64_cast [simp]:
  assumes "0 \<le> n" "n < 2 ^ 64"
  shows "num_fits_cast_to uint64_t n" "num_cast_to uint64_t n = Inr n" "ext_to_uint64 (ext_of n) = Inr n"
proof -
  have "in_ctype uint64_t n" using assms by (auto simp: in_ctype_def)
  then show f: "num_fits_cast_to uint64_t n" "num_cast_to uint64_t n = Inr n"
    using static_cast_id[of uint64_t n]
    by (auto simp: num_fits_cast_to_def num_fits_iff num_cast_to_eq)
  then show "ext_to_uint64 (ext_of n) = Inr n" by (simp add: ext_to_uint64_def ext_number_def)
qed

lemma uint64_range_cases:
  assumes "iv_wf i" "i \<noteq> iv_bottom" "iv_gamma i \<subseteq> {k..<2 ^ 64}"
  obtains a b where "i = iv_range a b" "k \<le> a" "a \<le> b" "b < 2 ^ 64"
proof -
  obtain a where a: "iv_lb i = ext_of a" "k \<le> a" "(\<exists>b. iv_ub i = ext_of b \<and> a \<le> b) \<or> iv_ub i = plus_infinity"
    using iv_bounds_nonneg[OF assms(1,2), of k] assms(3) by (meson atLeastLessThan_iff subsetD)
  have "iv_ub i \<noteq> plus_infinity"
  proof
    assume "iv_ub i = plus_infinity"
    then have "max a (2 ^ 64) \<in> iv_gamma i" using a assms(1) by (simp add: iv_gamma_iff)
    then show False using assms(3) by auto
  qed
  then obtain b where b: "iv_ub i = ext_of b" "a \<le> b" using a by blast
  have "b \<in> iv_gamma i" using a b assms(1) by (simp add: iv_gamma_iff)
  then have "b < 2 ^ 64" using assms(3) by auto
  moreover have "i = iv_range a b" using a b by (simp flip: iv_finite_eq_range)
  ultimately show thesis using that a b by blast
qed

lemma iv_urem_singletons_of:
  assumes "0 \<le> c" "c < 2 ^ 64" "0 \<le> d" "d < 2 ^ 64"
  shows "iv_urem (iv_of c) (iv_of d) = Inr (iv_of (urem_conc c d))"
  using assms by (subst iv_urem.simps) (auto simp: iv_urem_singletons_def urem_conc_def)

lemma iv_urem_step:
  assumes "iv_wf i" "iv_wf x" "\<not> (\<exists>c d. i = iv_of c \<and> x = iv_of d)"
  shows "iv_urem_singletons i x = None"
  using assms by (auto simp: iv_urem_singletons_def iv_singleton_iff split: option.split)

lemma iv_urem_pos_pos:
  assumes "1 \<le> a" "a \<le> b" "b < 2 ^ 64" "1 \<le> c" "c \<le> d" "d < 2 ^ 64"
  shows "\<exists>r. iv_urem (iv_range a b) (iv_range c d) = Inr r \<and> iv_wf r \<and>
    (\<forall>n\<in>{a..b}. \<forall>m\<in>{c..d}. urem_conc n m \<in> iv_gamma r)"
proof (cases "a = b \<and> c = d")
  case True
  then show ?thesis using assms iv_urem_singletons_of[of a c] by (simp add: iv_range_singleton)
next
  case False
  have "iv_urem_singletons (iv_range a b) (iv_range c d) = None"
    using iv_urem_step False assms by (metis iv_gamma_consts(3,4) iv_wf_consts(4) atLeastAtMost_singleton_iff)
  then have "iv_urem (iv_range a b) (iv_range c d) = Inr (if b < c then iv_range a b else iv_range 0 (d - 1))"
    using assms by (subst iv_urem.simps) (simp add: iv_contains_iff iv_urem_nonzero_def is_finite_def)
  moreover have "urem_conc n m \<in> {0..d - 1}" if "m \<in> {c..d}" for n m
  proof -
    have "0 < m" "m \<le> d" using that assms by auto
    then show ?thesis using pos_mod_bound[of m n] pos_mod_sign[of m n] by (simp add: urem_conc_def del: pos_mod_bound)
  qed
  moreover have "urem_conc n m = n" if "b < c" "n \<in> {a..b}" "m \<in> {c..d}" for n m
    using that assms by (auto simp: urem_conc_def)
  ultimately show ?thesis by auto
qed

lemma join_last_ok:
  assumes "iv_wf r" "iv_wf i" "n \<in> iv_gamma r \<or> n \<in> iv_gamma i"
  shows "n \<in> iv_gamma (iv_join (iv_join iv_bottom r) i)" "iv_wf (iv_join (iv_join iv_bottom r) i)"
  using assms iv_join_upper[of r i] by (auto simp: iv_join_def[of iv_bottom] iv_wf_join)

lemma iv_urem_pos:
  assumes "iv_wf i" "iv_gamma i \<subseteq> {0..<2 ^ 64}" "1 \<le> c" "c \<le> d" "d < 2 ^ 64"
  shows "\<exists>r. iv_urem i (iv_range c d) = Inr r \<and> iv_wf r \<and> (\<forall>n\<in>iv_gamma i. \<forall>m\<in>{c..d}. urem_conc n m \<in> iv_gamma r)"
proof (cases "i = iv_bottom")
  case True
  then show ?thesis by (simp add: iv_urem.simps)
next
  case nb: False
  obtain a b where i: "i = iv_range a b" "0 \<le> a" "a \<le> b" "b < 2 ^ 64"
    using uint64_range_cases[OF assms(1) nb assms(2)] by blast
  show ?thesis
  proof (cases "a = 0")
    case False
    then show ?thesis using i iv_urem_pos_pos[of a b c d] assms by auto
  next
    case a0: True
    show ?thesis
    proof (cases "b = 0 \<and> c = d")
      case True
      then show ?thesis using i a0 assms iv_urem_singletons_of[of 0 c] by (simp add: iv_range_singleton)
    next
      case False
      have st: "iv_urem_singletons i (iv_range c d) = None"
        using iv_urem_step[OF assms(1)] False i a0 assms
        by (metis iv_gamma_consts(3,4) iv_wf_consts(4) atLeastAtMost_singleton_iff)
      obtain r where r: "iv_urem (iv_range 1 b) (iv_range c d) = Inr r" "iv_wf r"
          "\<forall>n\<in>{1..b}. \<forall>m\<in>{c..d}. urem_conc n m \<in> iv_gamma r"
      proof (cases "1 \<le> b")
        case True
        then show ?thesis using iv_urem_pos_pos[of 1 b c d] i assms that by auto
      next
        case False
        then show ?thesis using that[of iv_bottom] i a0 by (simp add: iv_urem.simps)
      qed
      have "iv_make (ext_of 0) (ext_of (-1)) = iv_bottom" by (intro iv_make_empty) auto
      then have eq: "iv_urem i (iv_range c d) = Inr (iv_join (iv_join iv_bottom r) i)"
        using st i a0 assms r(1)
        by (subst iv_urem.simps) (simp add: iv_contains_iff iv_urem.simps[of iv_bottom] iv_range_def[symmetric])
      have "urem_conc n m \<in> iv_gamma r \<or> urem_conc n m \<in> iv_gamma i" if "n \<in> iv_gamma i" "m \<in> {c..d}" for n m
        using that i a0 r(3) by (cases "n = 0") (auto simp: urem_conc_def)
      then show ?thesis using eq join_last_ok[OF r(2) assms(1)] iv_wf_join r(2) assms(1)
        by (metis iv_wf_consts(1))
    qed
  qed
qed

lemma iv_urem_ok:
  assumes "iv_wf i" "iv_wf x" "iv_gamma i \<subseteq> {0..<2 ^ 64}" "iv_gamma x \<subseteq> {0..<2 ^ 64}"
  shows "\<exists>r. iv_urem i x = Inr r \<and> iv_wf r \<and> (\<forall>n\<in>iv_gamma i. \<forall>m\<in>iv_gamma x. urem_conc n m \<in> iv_gamma r)"
proof (cases "i = iv_bottom \<or> x = iv_bottom")
  case True
  then show ?thesis by (auto simp: iv_urem.simps)
next
  case nb: False
  obtain c d where x: "x = iv_range c d" "0 \<le> c" "c \<le> d" "d < 2 ^ 64"
    using uint64_range_cases[OF assms(2) _ assms(4)] nb by blast
  show ?thesis
  proof (cases "c = 0")
    case False
    then show ?thesis using iv_urem_pos[OF assms(1,3), of c d] x by auto
  next
    case c0: True
    show ?thesis
    proof (cases "\<exists>a b. i = iv_of a \<and> x = iv_of b")
      case True
      then show ?thesis using assms(3,4) iv_urem_singletons_of by fastforce
    next
      case False
      note st = iv_urem_step[OF assms(1,2) False]
      obtain r where r: "iv_urem i (iv_range 1 d) = Inr r" "iv_wf r"
          "\<forall>n\<in>iv_gamma i. \<forall>m\<in>{1..d}. urem_conc n m \<in> iv_gamma r"
      proof (cases "1 \<le> d")
        case True
        then show ?thesis using iv_urem_pos[OF assms(1,3), of 1 d] x that by auto
      next
        case False
        then show ?thesis using that[of iv_bottom] x c0 by (simp add: iv_urem.simps)
      qed
      have "iv_make (ext_of 0) (ext_of (-1)) = iv_bottom" by (intro iv_make_empty) auto
      then have eq: "iv_urem i x = Inr (iv_join (iv_join iv_bottom r) i)"
        using st x c0 assms(1) nb r(1)
        by (subst iv_urem.simps)
          (simp add: iv_contains_iff iv_urem.simps[of _ iv_bottom] iv_range_def[symmetric] iv_is_bottom_iff)
      have "urem_conc n m \<in> iv_gamma r \<or> urem_conc n m \<in> iv_gamma i" if "n \<in> iv_gamma i" "m \<in> iv_gamma x" for n m
        using that x c0 r(3) by (cases "m = 0") (auto simp: urem_conc_def)
      then show ?thesis using eq join_last_ok[OF r(2) assms(1)] iv_wf_join r(2) assms(1)
        by (metis iv_wf_consts(1))
    qed
  qed
qed

end
