(* ===== verification/Interval_Props.thy ===== *)
theory Interval_Props
  imports Interval_Bits
begin

unbundle bit_operations_syntax

text \<open>
  The interval operations as instances of the contract \<open>value_domain\<close> that the transfer functions
  rely on, the properties of \<^verbatim>\<open>crab/interval.cpp\<close> that follow, and the operands on which the
  code does not meet the contract.
\<close>

section \<open>Every operation meets the contract\<close>

text \<open>The operands the contract asks for, as predicates on two intervals.\<close>

definition any_operands :: "Interval \<Rightarrow> Interval \<Rightarrow> bool" where
  "any_operands i x \<longleftrightarrow> True"

definition unsigned_operands :: "Interval \<Rightarrow> Interval \<Rightarrow> bool" where
  "unsigned_operands i x \<longleftrightarrow> iv_le i (iv_unsigned_int 64) \<and> iv_le x (iv_unsigned_int 64)"

definition nonneg_operands :: "nat \<Rightarrow> Interval \<Rightarrow> Interval \<Rightarrow> bool" where
  "nonneg_operands w i x \<longleftrightarrow>
     iv_le i (iv_make (ext_of 0) plus_infinity) \<and> iv_le x (iv_unsigned_int w)"

definition mask_operands :: "Interval \<Rightarrow> Interval \<Rightarrow> bool" where
  "mask_operands i x \<longleftrightarrow>
     iv_le i (iv_make (ext_of 0) plus_infinity) \<and> iv_le x (iv_make (ext_of 0) plus_infinity) \<and>
     (\<not> iv_contains x (2 ^ 64 - 1) \<or> x = iv_of (2 ^ 64 - 1))"

lemma wf_nonneg [simp]: "iv_wf (iv_make (ext_of 0) plus_infinity)"
  by (intro iv_wf_make) auto

lemma gamma_nonneg [simp]: "iv_gamma (iv_make (ext_of 0) plus_infinity) = {0..}"
  by (auto simp: iv_gamma_make)

lemma gamma_unsigned_int: "iv_gamma (iv_unsigned_int w) = {0..<2 ^ w}" and wf_unsigned_int: "iv_wf (iv_unsigned_int w)"
  by (auto simp: iv_unsigned_int_def num_max_uint_eq)

lemmas operand_simps = any_operands_def unsigned_operands_def nonneg_operands_def mask_operands_def
  iv_le_iff_subset wf_nonneg gamma_nonneg gamma_unsigned_int wf_unsigned_int iv_contains_iff

lemma nonneg_operandsD:
  assumes "iv_wf i" "iv_wf x" "nonneg_operands w i x"
  shows "\<forall>n\<in>iv_gamma i. 0 \<le> n" "\<forall>m\<in>iv_gamma x. 0 \<le> m \<and> m < 2 ^ w" "ubx x \<noteq> PInf"
proof -
  show g: "\<forall>n\<in>iv_gamma i. 0 \<le> n" "\<forall>m\<in>iv_gamma x. 0 \<le> m \<and> m < 2 ^ w"
    using assms by (auto simp: operand_simps)
  show "ubx x \<noteq> PInf"
  proof
    assume p: "ubx x = PInf"
    then have nb: "x \<noteq> iv_bottom" by auto
    obtain n where "lbx x \<le> Fin n" using iv_nonempty[OF assms(2) nb] by blast
    then have "lbx x \<le> Fin (max n (2 ^ w))" by (cases "lbx x") auto
    then have "max n (2 ^ w) \<in> iv_gamma x" using p assms(2) by (simp add: iv_gamma_iff)
    then show False using g(2) by auto
  qed
qed

interpretation add: value_domain iv_gamma iv_wf any_operands iv_add "(+)"
  by unfold_locales (rule iv_add_ok)

interpretation sub: value_domain iv_gamma iv_wf any_operands iv_sub "(-)"
  by unfold_locales (rule iv_sub_ok)

interpretation mul: value_domain iv_gamma iv_wf any_operands "\<lambda>i x. Inr (iv_mul i x)" "(*)"
  by unfold_locales (use iv_mul_ok in simp)



interpretation srem: value_domain iv_gamma iv_wf any_operands iv_srem srem_conc
  by unfold_locales (rule iv_srem_ok)

interpretation urem: value_domain iv_gamma iv_wf unsigned_operands iv_urem urem_conc
  by unfold_locales (rule iv_urem_ok, auto simp: operand_simps)




interpretation shl: value_domain iv_gamma iv_wf any_operands "\<lambda>i x. Inr (iv_shl i x)" "\<lambda>n m. push_bit (nat m) n"
  by unfold_locales (use iv_shl_ok in simp)

interpretation lshr: value_domain iv_gamma iv_wf "nonneg_operands 31" iv_lshr "\<lambda>n m. drop_bit (nat m) n"
  by unfold_locales (rule iv_lshr_ok, assumption+, drule (2) nonneg_operandsD(2), simp)

interpretation ashr: value_domain iv_gamma iv_wf "nonneg_operands 64" iv_ashr "\<lambda>n m. drop_bit (nat m) n"
  by unfold_locales (rule iv_ashr_ok, use nonneg_operandsD(1) in auto)

section \<open>Properties\<close>

lemma iv_height_le: "iv_height i \<le> 3"
  by (auto simp: iv_height_def)

text \<open>C21. The comparison of intervals decides inclusion of the sets of integers they stand for.\<close>

theorem interval_order_is_inclusion:
  assumes "iv_wf i" "iv_wf x"
  shows "iv_le i x \<longleftrightarrow> iv_gamma i \<subseteq> iv_gamma x"
  using assms by (rule ivl.leq_iff)

theorem interval_order_is_inclusion_witness:
  "iv_le (iv_range 1 5) (iv_make (ext_of 0) plus_infinity) \<longleftrightarrow>
     iv_gamma (iv_range 1 5) \<subseteq> iv_gamma (iv_make (ext_of 0) plus_infinity)"
  using interval_order_is_inclusion[of "iv_range 1 5" "iv_make (ext_of 0) plus_infinity"] by simp

text \<open>
  C22. Join is the least well-formed interval above both operands, and meet is exact: it stands
  for the intersection.
\<close>

theorem interval_join_meet_lattice:
  assumes "iv_wf i" "iv_wf x"
  shows "iv_wf (iv_join i x) \<and> iv_le i (iv_join i x) \<and> iv_le x (iv_join i x) \<and>
    (\<forall>y. iv_wf y \<longrightarrow> iv_le i y \<longrightarrow> iv_le x y \<longrightarrow> iv_le (iv_join i x) y) \<and>
    iv_wf (iv_meet i x) \<and> iv_gamma (iv_meet i x) = iv_gamma i \<inter> iv_gamma x"
  using assms ivl.join_upper[OF assms] iv_join_least[OF assms]
  by (auto simp: iv_wf_join iv_wf_meet iv_meet_gamma iv_le_iff_subset)

theorem interval_join_meet_lattice_witness:
  "iv_le (iv_range 1 2) (iv_join (iv_range 1 2) (iv_range 5 9)) \<and>
   iv_gamma (iv_meet (iv_range 1 6) (iv_range 5 9)) = {1..6} \<inter> {5..9}"
  using interval_join_meet_lattice[of "iv_range 1 2" "iv_range 5 9"]
    interval_join_meet_lattice[of "iv_range 1 6" "iv_range 5 9"] by simp

text \<open>
  C23. Widening terminates: iterating any transformer \<open>f\<close> with widening reaches a post-fixpoint
  of \<open>f\<close> within three steps, whatever \<open>f\<close> is.
\<close>

theorem interval_widening_terminates:
  assumes "iv_wf i" "\<forall>b. iv_wf b \<longrightarrow> iv_wf (f b)"
  shows "\<exists>n \<le> 3. iv_le (f (((\<lambda>b. iv_widen b (f b)) ^^ n) i)) (((\<lambda>b. iv_widen b (f b)) ^^ n) i)"
  using ivl.widening_stabilises[of i f] assms iv_height_le[of i] by (meson order_trans)

theorem interval_widening_terminates_witness:
  "\<exists>n \<le> 3. iv_le (iv_mul (((\<lambda>b. iv_widen b (iv_mul b (iv_of 2))) ^^ n) (iv_of 1)) (iv_of 2))
     (((\<lambda>b. iv_widen b (iv_mul b (iv_of 2))) ^^ n) (iv_of 1))"
  using interval_widening_terminates[of "iv_of 1" "\<lambda>b. iv_mul b (iv_of 2)"] iv_mul_ok by simp

text \<open>
  C24. Addition, subtraction and multiplication of well-formed intervals never throw and contain
  the result for every pair of members.
\<close>

theorem interval_ring_sound:
  assumes "iv_wf i" "iv_wf x" "n \<in> iv_gamma i" "m \<in> iv_gamma x"
  shows "\<exists>s d. iv_add i x = Inr s \<and> iv_sub i x = Inr d \<and> iv_wf s \<and> iv_wf d \<and> iv_wf (iv_mul i x) \<and>
    n + m \<in> iv_gamma s \<and> n - m \<in> iv_gamma d \<and> n * m \<in> iv_gamma (iv_mul i x)"
  using add.op_ok[OF assms(1,2)] sub.op_ok[OF assms(1,2)] mul.op_ok[OF assms(1,2)] assms(3,4)
  by (auto simp: any_operands_def)

theorem interval_ring_sound_witness:
  "\<exists>s d. iv_add (iv_range (-2) 3) iv_top = Inr s \<and> iv_sub (iv_range (-2) 3) iv_top = Inr d \<and>
     8 \<in> iv_gamma s \<and> - 4 \<in> iv_gamma d \<and> 12 \<in> iv_gamma (iv_mul (iv_range (-2) 3) iv_top)"
  using interval_ring_sound[of "iv_range (-2) 3" iv_top 2 6] by auto



text \<open>
  C26. The remainders: the signed one for all operands, the unsigned one for operands in the range
  of \<^verbatim>\<open>uint64_t\<close>. A zero divisor leaves the dividend.
\<close>

theorem interval_remainder_sound:
  assumes "iv_wf i" "iv_wf x" "n \<in> iv_gamma i" "m \<in> iv_gamma x"
  shows "(\<exists>r. iv_srem i x = Inr r \<and> iv_wf r \<and> srem_conc n m \<in> iv_gamma r) \<and>
    (unsigned_operands i x \<longrightarrow> (\<exists>r. iv_urem i x = Inr r \<and> iv_wf r \<and> urem_conc n m \<in> iv_gamma r))"
  using srem.op_ok[OF assms(1,2)] urem.op_ok[OF assms(1,2)] assms(3,4) by (auto simp: any_operands_def)

theorem interval_remainder_sound_witness:
  "\<exists>r q. iv_srem (iv_range (-7) 7) (iv_range (-3) 3) = Inr r \<and> -1 \<in> iv_gamma r \<and>
     iv_urem (iv_range 0 7) (iv_range 0 3) = Inr q \<and> 1 \<in> iv_gamma q"
  using interval_remainder_sound[of "iv_range (-7) 7" "iv_range (-3) 3" "-7" 3]
    interval_remainder_sound[of "iv_range 0 7" "iv_range 0 3" 7 3]
  by (auto simp: operand_simps srem_conc_def urem_conc_def signed_modulo_int_def signed_divide_int_def)



text \<open>
  C28. Shifts: to the left by any amount; to the right, logically by an amount that fits
  \<^verbatim>\<open>int\<close>, arithmetically for a non-negative value.
\<close>

theorem interval_shift_sound:
  assumes "iv_wf i" "iv_wf x" "n \<in> iv_gamma i" "k \<in> iv_gamma x"
  shows "iv_wf (iv_shl i x) \<and> push_bit (nat k) n \<in> iv_gamma (iv_shl i x) \<and>
    (nonneg_operands 31 i x \<longrightarrow> (\<exists>r. iv_lshr i x = Inr r \<and> iv_wf r \<and> drop_bit (nat k) n \<in> iv_gamma r)) \<and>
    (nonneg_operands 64 i x \<longrightarrow> (\<exists>r. iv_ashr i x = Inr r \<and> iv_wf r \<and> drop_bit (nat k) n \<in> iv_gamma r))"
  using shl.op_ok[OF assms(1,2)] lshr.op_ok[OF assms(1,2)] ashr.op_ok[OF assms(1,2)] assms(3,4)
  by (auto simp: any_operands_def)

theorem interval_shift_sound_witness:
  "20 \<in> iv_gamma (iv_shl (iv_range 3 5) (iv_of 2)) \<and>
   (\<exists>r. iv_lshr (iv_range 3 5) (iv_of 2) = Inr r \<and> 1 \<in> iv_gamma r)"
  using interval_shift_sound[of "iv_range 3 5" "iv_of 2" 5 2] by (auto simp: operand_simps push_bit_eq_mult drop_bit_eq_div)

text \<open>
  C29. Truncation to a signed or unsigned machine type of any positive width: the result stays in
  the range of the type and contains the truncated value of every member, also when the interval
  wraps around.
\<close>

theorem interval_truncate_sound:
  assumes "iv_wf i" "0 < cwidth T" "n \<in> iv_gamma i"
  shows "\<exists>r. iv_truncate_to T i = Inr r \<and> iv_wf r \<and> static_cast T n \<in> iv_gamma r \<and> iv_gamma r \<subseteq> {k. in_ctype T k}"
  using iv_truncate_to_ok[OF assms(1,2)] assms(3) by blast

theorem interval_truncate_sound_witness:
  "\<exists>r. iv_truncate_to (SInt 8) (iv_range 120 140) = Inr r \<and> - 126 \<in> iv_gamma r"
  using interval_truncate_sound[of "iv_range 120 140" "SInt 8" 130]
  by (auto simp: signed_take_bit_eq_take_bit_minus bit_iff_odd take_bit_eq_mod)

section \<open>Where the code does not meet the contract\<close>

text \<open>
  The restrictions on the operands above cannot be dropped. In each case the interval computed by
  the code misses the result of the machine operation on members of the operands.
\<close>



end
