(* ===== verification/Vm_Isa.thy ===== *)
theory Vm_Isa
  imports Number_Big "HOL-Library.Word"
begin

unbundle bit_operations_syntax

text \<open>
  The eBPF instruction encoding of \<^verbatim>\<open>spec/vm_isa.hpp\<close>: the raw 64-bit instruction with its fields
  at their width, the opcode constants, and the helpers between widths, immediates and opcodes.
  A C++ integer field of \<open>w\<close> bits is a \<open>w word\<close>, read with \<open>uint\<close> or \<open>sint\<close> as its type says.
\<close>

section \<open>Raw instructions\<close>

type_synonym u8 = "8 word"
type_synonym s16 = "16 word"
type_synonym s32 = "32 word"
type_synonym u64 = "64 word"

record EbpfInst =
  opcode :: u8
  dst :: "4 word"
  src :: "4 word"
  offset :: s16
  imm :: s32

abbreviation (input) "INST_CLS_MASK \<equiv> 0x07 :: u8"
abbreviation (input) "INST_CLS_LD \<equiv> 0x00 :: u8"
abbreviation (input) "INST_CLS_LDX \<equiv> 0x01 :: u8"
abbreviation (input) "INST_CLS_ST \<equiv> 0x02 :: u8"
abbreviation (input) "INST_CLS_STX \<equiv> 0x03 :: u8"
abbreviation (input) "INST_CLS_ALU \<equiv> 0x04 :: u8"
abbreviation (input) "INST_CLS_JMP \<equiv> 0x05 :: u8"
abbreviation (input) "INST_CLS_JMP32 \<equiv> 0x06 :: u8"
abbreviation (input) "INST_CLS_ALU64 \<equiv> 0x07 :: u8"

abbreviation (input) "INST_SRC_IMM \<equiv> 0x00 :: u8"
abbreviation (input) "INST_SRC_REG \<equiv> 0x08 :: u8"
abbreviation (input) "INST_END_LE \<equiv> 0x00 :: u8"
abbreviation (input) "INST_END_BE \<equiv> 0x08 :: u8"

abbreviation (input) "INST_SIZE_W \<equiv> 0x00 :: u8"
abbreviation (input) "INST_SIZE_H \<equiv> 0x08 :: u8"
abbreviation (input) "INST_SIZE_B \<equiv> 0x10 :: u8"
abbreviation (input) "INST_SIZE_DW \<equiv> 0x18 :: u8"
abbreviation (input) "INST_SIZE_MASK \<equiv> 0x18 :: u8"

abbreviation (input) "INST_MODE_MASK \<equiv> 0xe0 :: u8"
abbreviation (input) "INST_MODE_IMM \<equiv> 0x00 :: u8"
abbreviation (input) "INST_MODE_ABS \<equiv> 0x20 :: u8"
abbreviation (input) "INST_MODE_IND \<equiv> 0x40 :: u8"
abbreviation (input) "INST_MODE_MEM \<equiv> 0x60 :: u8"
abbreviation (input) "INST_MODE_ATOMIC \<equiv> 0xc0 :: u8"

abbreviation (input) "INST_OP_LDDW_IMM \<equiv> 0x18 :: u8"
abbreviation (input) "INST_FETCH \<equiv> 0x1 :: s32"

abbreviation (input) "INST_JA \<equiv> 0x0 :: u8"
abbreviation (input) "INST_CALL \<equiv> 0x8 :: u8"
abbreviation (input) "INST_EXIT \<equiv> 0x9 :: u8"
abbreviation (input) "INST_OP_JA32 \<equiv> 0x06 :: u8"
abbreviation (input) "INST_OP_JA16 \<equiv> 0x05 :: u8"
abbreviation (input) "INST_OP_CALL \<equiv> 0x85 :: u8"
abbreviation (input) "INST_OP_CALLX \<equiv> 0x8d :: u8"
abbreviation (input) "INST_OP_EXIT \<equiv> 0x95 :: u8"

abbreviation (input) "INST_CALL_STATIC_HELPER \<equiv> 0x0 :: 4 word"
abbreviation (input) "INST_CALL_LOCAL \<equiv> 0x1 :: 4 word"
abbreviation (input) "INST_CALL_BTF_HELPER \<equiv> 0x2 :: 4 word"

abbreviation (input) "INST_ALU_OP_ADD \<equiv> 0x00 :: u8"
abbreviation (input) "INST_ALU_OP_SUB \<equiv> 0x10 :: u8"
abbreviation (input) "INST_ALU_OP_MUL \<equiv> 0x20 :: u8"
abbreviation (input) "INST_ALU_OP_DIV \<equiv> 0x30 :: u8"
abbreviation (input) "INST_ALU_OP_OR \<equiv> 0x40 :: u8"
abbreviation (input) "INST_ALU_OP_AND \<equiv> 0x50 :: u8"
abbreviation (input) "INST_ALU_OP_LSH \<equiv> 0x60 :: u8"
abbreviation (input) "INST_ALU_OP_RSH \<equiv> 0x70 :: u8"
abbreviation (input) "INST_ALU_OP_NEG \<equiv> 0x80 :: u8"
abbreviation (input) "INST_ALU_OP_MOD \<equiv> 0x90 :: u8"
abbreviation (input) "INST_ALU_OP_XOR \<equiv> 0xa0 :: u8"
abbreviation (input) "INST_ALU_OP_MOV \<equiv> 0xb0 :: u8"
abbreviation (input) "INST_ALU_OP_ARSH \<equiv> 0xc0 :: u8"
abbreviation (input) "INST_ALU_OP_END \<equiv> 0xd0 :: u8"
abbreviation (input) "INST_ALU_OP_MASK \<equiv> 0xf0 :: u8"

abbreviation (input) "INST_LD_MODE_IMM \<equiv> 0x0 :: 4 word"
abbreviation (input) "INST_LD_MODE_MAP_FD \<equiv> 0x1 :: 4 word"
abbreviation (input) "INST_LD_MODE_MAP_VALUE \<equiv> 0x2 :: 4 word"

abbreviation (input) "R0_RETURN_VALUE \<equiv> 0 :: u8"
abbreviation (input) "R10_STACK_POINTER \<equiv> 10 :: u8"
abbreviation (input) "R11_ATOMIC_SCRATCH \<equiv> 11 :: u8"

section \<open>Widths and immediates\<close>

definition opcode_to_width :: "u8 \<Rightarrow> int result" where
  "opcode_to_width opc =
     (let s = opc AND INST_SIZE_MASK
      in if s = INST_SIZE_B then Inr 1
         else if s = INST_SIZE_H then Inr 2
         else if s = INST_SIZE_W then Inr 4
         else if s = INST_SIZE_DW then Inr 8
         else Inl (Crab_Error ''unexpected opcode''))"

definition width_to_opcode :: "int \<Rightarrow> u8 result" where
  "width_to_opcode width =
     (if width = 1 then Inr INST_SIZE_B
      else if width = 2 then Inr INST_SIZE_H
      else if width = 4 then Inr INST_SIZE_W
      else if width = 8 then Inr INST_SIZE_DW
      else Inl (Crab_Error ''unexpected width''))"

text \<open>
  \<^verbatim>\<open>merge\<close> casts the signed \<^verbatim>\<open>next_imm\<close> to 64 bits before shifting and the low half through
  \<^verbatim>\<open>uint32_t\<close>; \<^verbatim>\<open>split\<close> takes the two halves.
\<close>

definition merge :: "s32 \<Rightarrow> s32 \<Rightarrow> u64" where
  "merge lo hi = push_bit 32 (scast hi) OR ucast lo"

definition split :: "u64 \<Rightarrow> s32 \<times> s32" where
  "split v = (ucast v, ucast (drop_bit 32 v))"

text \<open>\<^verbatim>\<open>gsl::narrow\<close> of a machine value into a signed 32 or 16 bit field.\<close>

definition narrow_s32 :: "int \<Rightarrow> s32 result" where
  "narrow_s32 n = rmap word_of_int (gsl_narrow int32_t n)"

definition narrow_s16 :: "int \<Rightarrow> s16 result" where
  "narrow_s16 n = rmap word_of_int (gsl_narrow int16_t n)"

section \<open>Lemmas\<close>

lemma split_merge [simp]: "split (merge lo hi) = (lo, hi)"
proof -
  have "(ucast (merge lo hi) :: 32 word) = lo"
    by (rule bit_word_eqI) (auto simp: merge_def bit_simps)
  moreover have "(ucast (drop_bit 32 (merge lo hi)) :: 32 word) = hi"
  proof (rule bit_word_eqI)
    fix n assume n: "n < LENGTH(32)"
    then have "min (LENGTH(32) - Suc 0) n = n" by simp
    moreover have "\<not> bit lo (32 + n)" using bit_imp_le_length[of lo "32 + n"] by auto
    ultimately show "bit (ucast (drop_bit 32 (merge lo hi)) :: 32 word) n = bit hi n"
      using n by (auto simp: merge_def bit_simps)
  qed
  ultimately show ?thesis by (simp add: split_def)
qed

lemma merge_split: "(case split v of (lo, hi) \<Rightarrow> merge lo hi) = v"
proof (simp add: split_def, rule bit_word_eqI)
  fix n assume "n < LENGTH(64)"
  then show "bit (merge (ucast v) (ucast (drop_bit 32 v))) n = bit v n"
  proof (cases "n < 32")
    case False
    then have "min (LENGTH(32) - Suc 0) (n - 32) = n - 32" using \<open>n < LENGTH(64)\<close> by auto
    then show ?thesis using False \<open>n < LENGTH(64)\<close> by (auto simp: merge_def bit_simps)
  qed (auto simp: merge_def bit_simps)
qed

lemma narrow_s32_iff: "narrow_s32 n = (if in_ctype int32_t n then Inr (word_of_int n) else Inl Narrowing_Error)"
  by (simp add: narrow_s32_def gsl_narrow_iff)

lemma narrow_s16_iff: "narrow_s16 n = (if in_ctype int16_t n then Inr (word_of_int n) else Inl Narrowing_Error)"
  by (simp add: narrow_s16_def gsl_narrow_iff)

lemma width_opcode_roundtrip: "width_to_opcode w = Inr s \<longleftrightarrow> s AND INST_SIZE_MASK = s \<and> opcode_to_width s = Inr w"
  by (auto simp: width_to_opcode_def opcode_to_width_def Let_def)

lemma sint_16_range: "in_ctype int16_t (sint (x :: s16))"
  using sint_greater_eq[of x] sint_less[of x] by (simp add: in_ctype_def)

lemma sint_32_range: "in_ctype int32_t (sint (x :: s32))"
  using sint_greater_eq[of x] sint_less[of x] by (simp add: in_ctype_def)

lemma narrow_s16_sint [simp]: "narrow_s16 (sint x) = Inr x"
  by (simp add: narrow_s16_iff sint_16_range)

lemma narrow_s32_sint [simp]: "narrow_s32 (sint x) = Inr x"
  by (simp add: narrow_s32_iff sint_32_range)

text \<open>A one-byte opcode is determined by its class, its source bit and its operation.\<close>

lemma opcode_parts: "(opc :: u8) = (opc AND 0xf0) OR (opc AND 0x08) OR (opc AND 0x07)"
proof -
  have "(0xf0 OR 0x08 OR 0x07 :: u8) = - 1" by simp
  then show ?thesis by (metis (no_types) bit.conj_disj_distrib and.right_neutral bit.conj_one_right or.assoc)
qed

lemma opcode_mem_parts: "(opc :: u8) = (opc AND 0xe0) OR (opc AND 0x18) OR (opc AND 0x07)"
proof -
  have "(0xe0 OR 0x18 OR 0x07 :: u8) = - 1" by simp
  then show ?thesis by (metis (no_types) bit.conj_disj_distrib bit.conj_one_right or.assoc)
qed

end
