(* ===== verification/Labels.thy ===== *)
theory Labels
  imports Vm_Isa "HOL-Library.Product_Lexorder" "HOL-Library.List_Lexorder" "HOL-Library.Char_ord"
begin

text \<open>
  Labels of control-flow graph nodes, from \<^verbatim>\<open>cfg/label.hpp\<close>: the four members of
  \<^verbatim>\<open>struct Label\<close>, their defaulted three-way comparison (lexicographic in the order of the
  members), and the functions that turn a jump target into the 16 or 32 bit offset of the
  instruction encoding.
\<close>

section \<open>Labels\<close>

datatype Label = Label
  (stack_frame_prefix: string)
  (label_from: int)
  (label_to: int)
  (special_label: string)

abbreviation STACK_FRAME_DELIMITER :: char where
  "STACK_FRAME_DELIMITER \<equiv> CHR ''/''"

definition label_at :: "int \<Rightarrow> Label" where
  "label_at index = Label '''' index (-1) ''''"

definition make_jump :: "Label \<Rightarrow> Label \<Rightarrow> Label" where
  "make_jump src_label target_label =
     Label (stack_frame_prefix target_label) (label_from src_label) (label_from target_label) ''''"

definition make_increment_counter :: "Label \<Rightarrow> Label" where
  "make_increment_counter l = Label (stack_frame_prefix l) (label_from l) (label_to l) ''counter''"

definition isjump :: "Label \<Rightarrow> bool" where
  "isjump l \<longleftrightarrow> label_to l \<noteq> -1"

definition call_stack_depth :: "Label \<Rightarrow> int" where
  "call_stack_depth l =
     (if stack_frame_prefix l = '''' then 1
      else 2 + int (length (filter ((=) STACK_FRAME_DELIMITER) (stack_frame_prefix l))))"

definition label_entry :: Label where
  "label_entry = label_at (-1)"

definition label_exit :: Label where
  "label_exit = label_at (2 ^ 31 - 1)"

text \<open>\<^verbatim>\<open>operator<=>\<close>: lexicographic comparison of the members.\<close>

definition label_key :: "Label \<Rightarrow> string \<times> int \<times> int \<times> string" where
  "label_key l = (stack_frame_prefix l, label_from l, label_to l, special_label l)"

instantiation Label :: linorder
begin

definition less_eq_Label :: "Label \<Rightarrow> Label \<Rightarrow> bool" where
  "less_eq_Label a b \<longleftrightarrow> label_key a \<le> label_key b"

definition less_Label :: "Label \<Rightarrow> Label \<Rightarrow> bool" where
  "less_Label a b \<longleftrightarrow> label_key a < label_key b"

instance
proof
  fix x y z :: Label
  show "x < y \<longleftrightarrow> x \<le> y \<and> \<not> y \<le> x" by (auto simp: less_eq_Label_def less_Label_def)
  show "x \<le> x" by (simp add: less_eq_Label_def)
  show "x \<le> y \<Longrightarrow> y \<le> z \<Longrightarrow> x \<le> z" by (auto simp: less_eq_Label_def)
  show "x \<le> y \<Longrightarrow> y \<le> x \<Longrightarrow> x = y"
    by (cases x; cases y) (auto simp: less_eq_Label_def label_key_def dest: order_antisym)
  show "x \<le> y \<or> y \<le> x" by (auto simp: less_eq_Label_def)
qed

end

section \<open>Jump offsets\<close>

text \<open>
  A program counter \<^verbatim>\<open>Pc\<close> is a \<^verbatim>\<open>uint32_t\<close>; the distance to a label is computed in 64 bits, so
  it does not wrap. The 16-bit form is zero when the distance does not fit, the 32-bit form is
  zero when it fits 16 bits.
\<close>

definition label_offset :: "nat \<Rightarrow> Label \<Rightarrow> int" where
  "label_offset pc l = label_from l - int pc - 1"

definition label_to_offset16 :: "nat \<Rightarrow> Label \<Rightarrow> s16 result" where
  "label_to_offset16 pc l =
     (let d = label_offset pc l; is16 = in_ctype int16_t d in narrow_s16 (if is16 then d else 0))"

definition label_to_offset32 :: "nat \<Rightarrow> Label \<Rightarrow> s32 result" where
  "label_to_offset32 pc l =
     (let d = label_offset pc l; is16 = in_ctype int16_t d in if is16 then Inr 0 else narrow_s32 d)"

section \<open>Lemmas\<close>

lemma label_to_offset16_fits:
  "in_ctype int16_t (label_offset pc l) \<Longrightarrow> label_to_offset16 pc l = Inr (word_of_int (label_offset pc l))"
  by (simp add: label_to_offset16_def narrow_s16_iff Let_def)

lemma label_to_offset32_fits [simp]:
  "in_ctype int16_t (label_offset pc l) \<Longrightarrow> label_to_offset32 pc l = Inr 0"
  by (simp add: label_to_offset32_def Let_def)

lemma label_to_offset32_far:
  "\<not> in_ctype int16_t (label_offset pc l) \<Longrightarrow> in_ctype int32_t (label_offset pc l) \<Longrightarrow>
   label_to_offset32 pc l = Inr (word_of_int (label_offset pc l))"
  by (simp add: label_to_offset32_def narrow_s32_iff Let_def)

lemma label_at_simps [simp]:
  "label_from (label_at n) = n" "label_to (label_at n) = -1" "stack_frame_prefix (label_at n) = ''''"
  "special_label (label_at n) = ''''" "label_at m = label_at n \<longleftrightarrow> m = n"
  by (simp_all add: label_at_def)

lemma make_jump_simps [simp]:
  "label_from (make_jump a b) = label_from a" "label_to (make_jump a b) = label_from b"
  "stack_frame_prefix (make_jump a b) = stack_frame_prefix b" "special_label (make_jump a b) = ''''"
  by (simp_all add: make_jump_def)

lemma call_stack_depth_pos: "0 < call_stack_depth l"
  by (simp add: call_stack_depth_def)

lemma label_at_less [simp]: "label_at m < label_at n \<longleftrightarrow> m < n" "label_at m \<le> label_at n \<longleftrightarrow> m \<le> n"
  by (auto simp: less_Label_def less_eq_Label_def label_key_def)

end
