(* ===== verification/Asm_Syntax.thy ===== *)
theory Asm_Syntax
  imports Labels
begin

text \<open>
  The instruction set as the verifier sees it (\<^verbatim>\<open>ir/syntax.hpp\<close>), the assertions it generates
  for an instruction, and the descriptions of helper functions, programs and platforms that the
  front end reads (\<^verbatim>\<open>spec/\<close>, \<^verbatim>\<open>platform.hpp\<close>, \<^verbatim>\<open>crab/type_encoding.hpp\<close>).

  A struct with several members is a record, an enum a datatype, and the variant \<^verbatim>\<open>Instruction\<close>
  a datatype with one constructor per alternative.
\<close>

section \<open>Operands\<close>

type_synonym Reg = u8

datatype Value = Imm u64 | Reg Reg

datatype Bin_Op = MOV | ADD | SUB | MUL | UDIV | UMOD | BIN_OR | BIN_AND | LSH | RSH | ARSH | BIN_XOR | SDIV | SMOD
  | MOVSX8 | MOVSX16 | MOVSX32

datatype Un_Op = BE16 | BE32 | BE64 | LE16 | LE32 | LE64 | SWAP16 | SWAP32 | SWAP64 | NEG

datatype Condition_Op = EQ | NE | SET | NSET | LT | LE | GT | GE | SLT | SLE | SGT | SGE

datatype Atomic_Op = A_ADD | A_OR | A_AND | A_XOR | A_XCHG | A_CMPXCHG

record Condition =
  cond_op :: Condition_Op
  cond_left :: Reg
  cond_right :: Value
  cond_is64 :: bool

record Deref =
  width :: int
  basereg :: Reg
  deref_offset :: int

section \<open>Calls\<close>

datatype ArgSingle_Kind = MAP_FD | MAP_FD_PROGRAMS | PTR_TO_MAP_KEY | PTR_TO_MAP_VALUE | PTR_TO_CTX
  | PTR_TO_STACK | ANYTHING

record ArgSingle =
  single_kind :: ArgSingle_Kind
  single_or_null :: bool
  single_reg :: Reg

datatype ArgPair_Kind = PTR_TO_READABLE_MEM | PTR_TO_WRITABLE_MEM

record ArgPair =
  pair_kind :: ArgPair_Kind
  pair_or_null :: bool
  pair_mem :: Reg
  pair_size :: Reg
  pair_can_be_zero :: bool

record Call =
  func :: s32
  call_name :: string
  is_map_lookup :: bool
  reallocate_packet :: bool
  singles :: "ArgSingle list"
  pairs :: "ArgPair list"
  call_stack_frame_prefix :: string

section \<open>Instructions\<close>

record Bin =
  bin_op :: Bin_Op
  bin_dst :: Reg
  bin_v :: Value
  bin_is64 :: bool
  bin_lddw :: bool

record Mem =
  mem_access :: Deref
  mem_value :: Value
  mem_is_load :: bool

record Atomic =
  atomic_op :: Atomic_Op
  atomic_fetch :: bool
  atomic_access :: Deref
  atomic_valreg :: Reg

datatype Instruction =
    Undefined int
  | Bin Bin
  | Un_ins Un_Op Reg bool
  | LoadMapFd Reg s32
  | Call Call
  | CallLocal Label string
  | Callx Reg
  | Exit string
  | Jmp "Condition option" Label
  | Mem Mem
  | Packet int int "Reg option"
  | Atomic Atomic
  | Assume Condition bool
  | IncrementLoopCounter Label
  | LoadMapAddress Reg s32 s32

text \<open>\<^verbatim>\<open>Call::operator==\<close> compares the function number only; the other members are derived from it.\<close>

definition call_eq :: "Call \<Rightarrow> Call \<Rightarrow> bool" where
  "call_eq a b \<longleftrightarrow> func a = func b"

fun instruction_size :: "Instruction \<Rightarrow> nat" where
  "instruction_size (Bin b) = (if bin_lddw b then 2 else 1)"
| "instruction_size (LoadMapFd _ _) = 2"
| "instruction_size (LoadMapAddress _ _ _) = 2"
| "instruction_size _ = 1"

record btf_line_info_t =
  file_name :: string
  source_line :: string
  line_number :: nat
  column_number :: nat

type_synonym LabeledInstruction = "Label \<times> Instruction \<times> btf_line_info_t option"
type_synonym InstructionSeq = "LabeledInstruction list"

section \<open>Assertions\<close>

datatype TypeEncoding = T_UNINIT | T_MAP_PROGRAMS | T_MAP | T_NUM | T_CTX | T_PACKET | T_STACK | T_SHARED

fun type_code :: "TypeEncoding \<Rightarrow> int" where
  "type_code T_UNINIT = -7"
| "type_code T_MAP_PROGRAMS = -6"
| "type_code T_MAP = -5"
| "type_code T_NUM = -4"
| "type_code T_CTX = -3"
| "type_code T_PACKET = -2"
| "type_code T_STACK = -1"
| "type_code T_SHARED = 0"

datatype TypeGroup = number | map_fd | ctx | ctx_or_num | packet | stack | stack_or_num | shared
  | map_fd_programs | mem | mem_or_num | pointer | ptr_or_num | stack_or_packet | singleton_ptr

datatype AccessType = ACCESS_COMPARE | ACCESS_READ | ACCESS_WRITE

record ValidAccess =
  va_call_stack_depth :: int
  va_reg :: Reg
  va_offset :: int
  va_width :: Value
  va_or_null :: bool
  va_access_type :: AccessType

datatype Assertion =
    Comparable Reg Reg bool
  | Addable Reg Reg
  | ValidDivisor Reg bool
  | ValidAccess ValidAccess
  | ValidStore Reg Reg
  | ValidSize Reg bool
  | ValidMapKeyValue Reg Reg bool
  | ValidCall s32 string
  | TypeConstraint Reg TypeGroup
  | FuncConstraint Reg
  | ZeroCtxOffset Reg bool
  | BoundedLoopCount Label

abbreviation BoundedLoopCount_limit :: int where
  "BoundedLoopCount_limit \<equiv> 100000"

section \<open>Helper prototypes, programs and platforms\<close>

datatype ebpf_return_type_t = EBPF_RETURN_TYPE_INTEGER | EBPF_RETURN_TYPE_PTR_TO_MAP_VALUE_OR_NULL
  | EBPF_RETURN_TYPE_INTEGER_OR_NO_RETURN_IF_SUCCEED | EBPF_RETURN_TYPE_UNSUPPORTED

datatype ebpf_argument_type_t =
    EBPF_ARGUMENT_TYPE_DONTCARE
  | EBPF_ARGUMENT_TYPE_ANYTHING
  | EBPF_ARGUMENT_TYPE_CONST_SIZE
  | EBPF_ARGUMENT_TYPE_CONST_SIZE_OR_ZERO
  | EBPF_ARGUMENT_TYPE_PTR_TO_STACK
  | EBPF_ARGUMENT_TYPE_PTR_TO_STACK_OR_NULL
  | EBPF_ARGUMENT_TYPE_PTR_TO_CTX
  | EBPF_ARGUMENT_TYPE_PTR_TO_CTX_OR_NULL
  | EBPF_ARGUMENT_TYPE_PTR_TO_MAP
  | EBPF_ARGUMENT_TYPE_PTR_TO_MAP_OF_PROGRAMS
  | EBPF_ARGUMENT_TYPE_PTR_TO_MAP_KEY
  | EBPF_ARGUMENT_TYPE_PTR_TO_MAP_VALUE
  | EBPF_ARGUMENT_TYPE_PTR_TO_READABLE_MEM
  | EBPF_ARGUMENT_TYPE_PTR_TO_READABLE_MEM_OR_NULL
  | EBPF_ARGUMENT_TYPE_PTR_TO_WRITABLE_MEM
  | EBPF_ARGUMENT_TYPE_PTR_TO_WRITABLE_MEM_OR_NULL
  | EBPF_ARGUMENT_TYPE_UNSUPPORTED

abbreviation MAX_CALL_STACK_FRAMES :: int where "MAX_CALL_STACK_FRAMES \<equiv> 8"
abbreviation EBPF_SUBPROGRAM_STACK_SIZE :: int where "EBPF_SUBPROGRAM_STACK_SIZE \<equiv> 512"
abbreviation EBPF_TOTAL_STACK_SIZE :: int where "EBPF_TOTAL_STACK_SIZE \<equiv> 4096"

record EbpfHelperPrototype =
  proto_name :: string
  return_type :: ebpf_return_type_t
  argument_type :: "ebpf_argument_type_t list"
  proto_reallocate_packet :: bool
  proto_unsupported :: bool

text \<open>
  The conformance groups are declared by the bpf_conformance project; the code only asks whether
  the platform supports one of them.
\<close>

datatype bpf_conformance_groups_t = base32 | base64 | divmul32 | divmul64 | atomic32 | atomic64 | callx_group
  | packet_group

text \<open>
  \<^verbatim>\<open>ebpf_platform_t\<close>: the callbacks the front end uses. They are members of a structure supplied
  by the platform and parameters of the model.
\<close>

record ebpf_platform_t =
  get_helper_prototype :: "s32 \<Rightarrow> EbpfHelperPrototype"
  is_helper_usable :: "s32 \<Rightarrow> bool"
  supports_group :: "bpf_conformance_groups_t \<Rightarrow> bool"

text \<open>
  \<^verbatim>\<open>ProgramInfo\<close>, as far as the front end reads it. \<^verbatim>\<open>line_info\<close> is a \<^verbatim>\<open>std::map\<close> from instruction
  indices, listed with its keys.
\<close>

record ProgramInfo =
  platform :: ebpf_platform_t
  is_privileged :: bool
  line_info :: "(nat \<times> btf_line_info_t) list"

end
