(* ===== verification/Marshal.thy ===== *)
theory Marshal
  imports Asm_Syntax
begin

unbundle bit_operations_syntax

text \<open>
  \<^verbatim>\<open>ir/marshal.cpp\<close>: encoding of instructions into raw eBPF instructions. A failing assertion, a
  lossy \<^verbatim>\<open>gsl::narrow\<close>, an unknown label and the explicit throws are the error values of the result.
  Assigning a register number to a four-bit field of \<^verbatim>\<open>EbpfInst\<close> keeps its low four bits.
\<close>

section \<open>Operation codes\<close>

fun cond_opcode :: "Condition_Op \<Rightarrow> u8 result" where
  "cond_opcode EQ = Inr 0x1"
| "cond_opcode GT = Inr 0x2"
| "cond_opcode GE = Inr 0x3"
| "cond_opcode SET = Inr 0x4"
| "cond_opcode NSET = Inl Assert_Failed"
| "cond_opcode NE = Inr 0x5"
| "cond_opcode SGT = Inr 0x6"
| "cond_opcode SGE = Inr 0x7"
| "cond_opcode LT = Inr 0xa"
| "cond_opcode LE = Inr 0xb"
| "cond_opcode SLT = Inr 0xc"
| "cond_opcode SLE = Inr 0xd"

fun bin_opcode :: "Bin_Op \<Rightarrow> u8" where
  "bin_opcode ADD = 0x0"
| "bin_opcode SUB = 0x1"
| "bin_opcode MUL = 0x2"
| "bin_opcode SDIV = 0x3"
| "bin_opcode UDIV = 0x3"
| "bin_opcode BIN_OR = 0x4"
| "bin_opcode BIN_AND = 0x5"
| "bin_opcode LSH = 0x6"
| "bin_opcode RSH = 0x7"
| "bin_opcode SMOD = 0x9"
| "bin_opcode UMOD = 0x9"
| "bin_opcode BIN_XOR = 0xa"
| "bin_opcode MOV = 0xb"
| "bin_opcode MOVSX8 = 0xb"
| "bin_opcode MOVSX16 = 0xb"
| "bin_opcode MOVSX32 = 0xb"
| "bin_opcode ARSH = 0xc"

definition bin_offset :: "Bin_Op \<Rightarrow> s16" where
  "bin_offset o' = (case o' of SDIV \<Rightarrow> 1 | SMOD \<Rightarrow> 1 | MOVSX8 \<Rightarrow> 8 | MOVSX16 \<Rightarrow> 16 | MOVSX32 \<Rightarrow> 32 | _ \<Rightarrow> 0)"

fun imm_endian :: "Un_Op \<Rightarrow> s32 result" where
  "imm_endian NEG = Inl Assert_Failed"
| "imm_endian BE16 = Inr 16"
| "imm_endian LE16 = Inr 16"
| "imm_endian SWAP16 = Inr 16"
| "imm_endian BE32 = Inr 32"
| "imm_endian LE32 = Inr 32"
| "imm_endian SWAP32 = Inr 32"
| "imm_endian BE64 = Inr 64"
| "imm_endian LE64 = Inr 64"
| "imm_endian SWAP64 = Inr 64"

fun atomic_code :: "Atomic_Op \<Rightarrow> s32" where
  "atomic_code A_ADD = 0x00"
| "atomic_code A_OR = 0x40"
| "atomic_code A_AND = 0x50"
| "atomic_code A_XOR = 0xa0"
| "atomic_code A_XCHG = 0xe0"
| "atomic_code A_CMPXCHG = 0xf0"

section \<open>The visitor\<close>

abbreviation raw :: "u8 \<Rightarrow> Reg \<Rightarrow> Reg \<Rightarrow> s16 \<Rightarrow> s32 \<Rightarrow> EbpfInst" where
  "raw opc d s o' i \<equiv> \<lparr>opcode = opc, dst = ucast d, src = ucast s, offset = o', imm = i\<rparr>"

definition marshal_makeLddw :: "Reg \<Rightarrow> u8 \<Rightarrow> s32 \<Rightarrow> s32 \<Rightarrow> EbpfInst list result" where
  "marshal_makeLddw d type i next_imm =
     rbind (width_to_opcode 8) (\<lambda>w. Inr [raw (INST_CLS_LD OR w) d type 0 i, raw 0 0 0 0 next_imm])"

definition marshal_Bin :: "Bin \<Rightarrow> EbpfInst list result" where
  "marshal_Bin b =
     (if bin_lddw b then
        (case bin_v b of
           Imm v \<Rightarrow> (case split v of (i, next_imm) \<Rightarrow> marshal_makeLddw (bin_dst b) 0 i next_imm)
         | Reg _ \<Rightarrow> Inl Assert_Failed)
      else
        let opc = (if bin_is64 b then INST_CLS_ALU64 else INST_CLS_ALU) OR push_bit 4 (bin_opcode (bin_op b))
        in case bin_v b of
             Reg right \<Rightarrow> Inr [raw (opc OR INST_SRC_REG) (bin_dst b) right (bin_offset (bin_op b)) 0]
           | Imm right \<Rightarrow> rmap (\<lambda>i. [raw opc (bin_dst b) 0 (bin_offset (bin_op b)) i]) (narrow_s32 (uint right)))"

definition marshal_Un :: "Un_Op \<Rightarrow> Reg \<Rightarrow> bool \<Rightarrow> EbpfInst list result" where
  "marshal_Un uop d is64 =
     (if uop = NEG then
        Inr [raw ((if is64 then INST_CLS_ALU64 else INST_CLS_ALU) OR INST_ALU_OP_NEG) d 0 0 0]
      else if uop \<in> {LE16, LE32, LE64} then
        rmap (\<lambda>i. [raw (INST_CLS_ALU OR INST_END_LE OR INST_ALU_OP_END) d 0 0 i]) (imm_endian uop)
      else if uop \<in> {BE16, BE32, BE64} then
        rmap (\<lambda>i. [raw (INST_CLS_ALU OR INST_END_BE OR INST_ALU_OP_END) d 0 0 i]) (imm_endian uop)
      else
        rmap (\<lambda>i. [raw (INST_CLS_ALU64 OR INST_ALU_OP_END) d 0 0 i]) (imm_endian uop))"

definition marshal_Jmp :: "nat \<Rightarrow> Condition option \<Rightarrow> Label \<Rightarrow> EbpfInst list result" where
  "marshal_Jmp pc cond target =
     (case cond of
        Some c \<Rightarrow>
          rbind (cond_opcode (cond_op c)) (\<lambda>o'.
          rbind (label_to_offset16 pc target) (\<lambda>off.
            let opc = INST_CLS_JMP OR push_bit 4 o'
            in case cond_right c of
                 Reg right \<Rightarrow> Inr [raw (opc OR INST_SRC_REG) (cond_left c) right off 0]
               | Imm right \<Rightarrow> rmap (\<lambda>i. [raw opc (cond_left c) 0 off i]) (narrow_s32 (uint right))))
      | None \<Rightarrow>
          rbind (label_to_offset32 pc target) (\<lambda>i.
            if i \<noteq> 0 then Inr [raw INST_OP_JA32 0 0 0 i]
            else rmap (\<lambda>off. [raw INST_OP_JA16 0 0 off 0]) (label_to_offset16 pc target)))"

definition marshal_Mem :: "Mem \<Rightarrow> EbpfInst list result" where
  "marshal_Mem b =
     (let access = mem_access b in
      rbind (width_to_opcode (width access)) (\<lambda>w.
      rbind (narrow_s16 (deref_offset access)) (\<lambda>off.
        let opc = INST_MODE_MEM OR w
        in if mem_is_load b then
             (case mem_value b of
                Reg v \<Rightarrow> Inr [raw (opc OR (INST_CLS_LD OR 0x1)) v (basereg access) off 0]
              | Imm _ \<Rightarrow> Inl (Runtime_Error ''LD IMM: ''))
           else
             (case mem_value b of
                Reg v \<Rightarrow> Inr [raw (opc OR INST_CLS_ST OR 0x1) (basereg access) v off 0]
              | Imm v \<Rightarrow> rmap (\<lambda>i. [raw (opc OR INST_CLS_ST OR 0x0) (basereg access) 0 off i]) (narrow_s32 (uint v))))))"

definition marshal_Packet :: "int \<Rightarrow> int \<Rightarrow> Reg option \<Rightarrow> EbpfInst list result" where
  "marshal_Packet w off regoffset =
     rbind (width_to_opcode w) (\<lambda>wo.
     rbind (narrow_s32 off) (\<lambda>i.
       let opc = INST_CLS_LD OR wo
       in case regoffset of
            Some r \<Rightarrow> Inr [raw (opc OR INST_MODE_IND) 0 r 0 i]
          | None \<Rightarrow> Inr [raw (opc OR INST_MODE_ABS) 0 0 0 i]))"

definition marshal_Atomic :: "Atomic \<Rightarrow> EbpfInst list result" where
  "marshal_Atomic b =
     (let i = atomic_code (atomic_op b); i = (if atomic_fetch b then i OR INST_FETCH else i)
      in rbind (width_to_opcode (width (atomic_access b))) (\<lambda>w.
         rbind (narrow_s16 (deref_offset (atomic_access b))) (\<lambda>off.
           Inr [raw (INST_CLS_STX OR INST_MODE_ATOMIC OR w) (basereg (atomic_access b)) (atomic_valreg b) off i])))"

fun marshal_ins :: "nat \<Rightarrow> Instruction \<Rightarrow> EbpfInst list result" where
  "marshal_ins pc (Undefined _) = Inl Assert_Failed"
| "marshal_ins pc (LoadMapFd d fd) = marshal_makeLddw d 1 fd 0"
| "marshal_ins pc (LoadMapAddress d fd off) = marshal_makeLddw d 2 fd off"
| "marshal_ins pc (Bin b) = marshal_Bin b"
| "marshal_ins pc (Un_ins uop d is64) = marshal_Un uop d is64"
| "marshal_ins pc (Call c) = Inr [raw INST_OP_CALL 0 0 0 (func c)]"
| "marshal_ins pc (CallLocal target _) =
     rmap (\<lambda>i. [raw INST_OP_CALL 0 1 0 i]) (label_to_offset32 pc target)"
| "marshal_ins pc (Callx f) = Inr [raw INST_OP_CALLX f 0 0 0]"
| "marshal_ins pc (Exit _) = Inr [raw INST_OP_EXIT 0 0 0 0]"
| "marshal_ins pc (Assume _ _) = Inl (Invalid_Argument ''Cannot marshal assumptions'')"
| "marshal_ins pc (Jmp c target) = marshal_Jmp pc c target"
| "marshal_ins pc (Mem b) = marshal_Mem b"
| "marshal_ins pc (Packet w off r) = marshal_Packet w off r"
| "marshal_ins pc (Atomic b) = marshal_Atomic b"
| "marshal_ins pc (IncrementLoopCounter _) = Inr []"

section \<open>Whole programs\<close>

fun get_labels_from :: "nat \<Rightarrow> (Label \<rightharpoonup> nat) \<Rightarrow> InstructionSeq \<Rightarrow> (Label \<rightharpoonup> nat)" where
  "get_labels_from pc m [] = m"
| "get_labels_from pc m ((l, ins, _) # rest) =
     get_labels_from (pc + instruction_size ins) (m(l \<mapsto> pc)) rest"

definition get_labels :: "InstructionSeq \<Rightarrow> (Label \<rightharpoonup> nat)" where
  "get_labels insts = get_labels_from 0 Map.empty insts"

text \<open>Unconditional and conditional jumps get the target that the first pass computed.\<close>

fun relocate :: "(Label \<rightharpoonup> nat) \<Rightarrow> Instruction \<Rightarrow> Instruction result" where
  "relocate m (Jmp c target) =
     (case m target of
        None \<Rightarrow> Inl Out_Of_Range
      | Some p \<Rightarrow> rmap (\<lambda>n. Jmp c (label_at n)) (gsl_narrow int32_t (int p)))"
| "relocate m ins = Inr ins"

fun marshal_loop :: "(Label \<rightharpoonup> nat) \<Rightarrow> nat \<Rightarrow> InstructionSeq \<Rightarrow> EbpfInst list result" where
  "marshal_loop m pc [] = Inr []"
| "marshal_loop m pc ((_, ins, _) # rest) =
     rbind (relocate m ins) (\<lambda>ins'.
     rbind (marshal_ins pc ins') (\<lambda>es.
     rmap ((@) es) (marshal_loop m (pc + length es) rest)))"

definition marshal :: "InstructionSeq \<Rightarrow> EbpfInst list result" where
  "marshal insts = marshal_loop (get_labels insts) 0 insts"

section \<open>Lemmas\<close>

lemma marshal_Jmp_length: "marshal_Jmp pc c target = Inr es \<Longrightarrow> length es = 1"
proof (cases c)
  case (Some d)
  assume "marshal_Jmp pc c target = Inr es"
  then show ?thesis using Some
    by (cases "cond_right d") (auto simp: marshal_Jmp_def Let_def result_iffs)
qed (auto simp: marshal_Jmp_def Let_def result_iffs split: if_splits)

text \<open>
  Every instruction that can be encoded takes as many slots as \<^verbatim>\<open>size\<close> says, except the loop
  counter pseudo-instruction, which takes none.
\<close>

lemma marshal_ins_length:
  "marshal_ins pc ins = Inr es \<Longrightarrow>
   length es = (case ins of IncrementLoopCounter _ \<Rightarrow> 0 | _ \<Rightarrow> instruction_size ins)"
  by (cases ins)
    (auto simp: marshal_makeLddw_def marshal_Bin_def marshal_Un_def marshal_Jmp_length marshal_Mem_def
      marshal_Packet_def marshal_Atomic_def Let_def width_to_opcode_def result_iffs
      split: option.splits Value.splits if_splits prod.splits)

end
