(* ===== verification/Unmarshal.thy ===== *)
theory Unmarshal
  imports Asm_Syntax
begin

unbundle bit_operations_syntax

text \<open>
  \<^verbatim>\<open>ir/unmarshal.cpp\<close>: decoding of raw eBPF instructions. \<^verbatim>\<open>InvalidInstruction\<close> carries the program
  counter and a message; it is caught by \<^verbatim>\<open>unmarshal\<close> and turned into the message, all other
  exceptions leave it. The notes that the decoder attaches to a program counter are returned with
  the decoded instruction. The platform, the line information and the option
  \<^verbatim>\<open>allow_division_by_zero\<close> are arguments.
\<close>

section \<open>Messages\<close>

definition digit_char :: "nat \<Rightarrow> char" where
  "digit_char d = ''0123456789abcdef'' ! d"

fun digits_in :: "nat \<Rightarrow> nat \<Rightarrow> string" where
  "digits_in b n = (if b < 2 \<or> n < b then [digit_char (n mod 16)] else digits_in b (n div b) @ [digit_char (n mod b)])"

declare digits_in.simps [simp del]

definition show_nat :: "nat \<Rightarrow> string" where
  "show_nat n = digits_in 10 n"

definition show_int :: "int \<Rightarrow> string" where
  "show_int n = (if n < 0 then ''-'' @ show_nat (nat (- n)) else show_nat (nat n))"

definition make_opcode_message :: "string \<Rightarrow> u8 \<Rightarrow> string" where
  "make_opcode_message msg opc = msg @ '' op 0x'' @ digits_in 16 (unat opc)"

abbreviation bad_opcode :: "nat \<Rightarrow> u8 \<Rightarrow> error" where
  "bad_opcode pc opc \<equiv> Invalid_Instruction pc (make_opcode_message ''bad instruction'' opc)"

abbreviation opcode_error :: "nat \<Rightarrow> string \<Rightarrow> u8 \<Rightarrow> error" where
  "opcode_error pc msg opc \<equiv> Invalid_Instruction pc (make_opcode_message msg opc)"

section \<open>Fields\<close>

definition getMemIsLoad :: "u8 \<Rightarrow> bool result" where
  "getMemIsLoad opc =
     (let c = opc AND INST_CLS_MASK
      in if c = INST_CLS_LD \<or> c = INST_CLS_LDX then Inr True
         else if c = INST_CLS_ST \<or> c = INST_CLS_STX then Inr False
         else Inl (Crab_Error ''unexpected opcode''))"

definition getMemWidth :: "u8 \<Rightarrow> int result" where
  "getMemWidth opc =
     (let s = opc AND INST_SIZE_MASK
      in if s = INST_SIZE_B then Inr 1
         else if s = INST_SIZE_H then Inr 2
         else if s = INST_SIZE_W then Inr 4
         else if s = INST_SIZE_DW then Inr 8
         else Inl (Crab_Error ''unexpected opcode''))"

definition shift32 :: "Reg \<Rightarrow> Bin_Op \<Rightarrow> Instruction" where
  "shift32 d sop = Bin \<lparr>bin_op = sop, bin_dst = d, bin_v = Imm 32, bin_is64 = True, bin_lddw = False\<rparr>"

definition sign_extend :: "s32 \<Rightarrow> u64" where
  "sign_extend i = scast i"

definition zero_extend :: "s32 \<Rightarrow> u64" where
  "zero_extend i = ucast i"

section \<open>Arithmetic instructions\<close>

definition is_alu64 :: "EbpfInst \<Rightarrow> bool" where
  "is_alu64 inst \<longleftrightarrow> opcode inst AND INST_CLS_MASK = INST_CLS_ALU64"

definition supports_divmul :: "ProgramInfo \<Rightarrow> EbpfInst \<Rightarrow> bool" where
  "supports_divmul info inst = supports_group (platform info) (if is_alu64 inst then divmul64 else divmul32)"

text \<open>The second half of \<^verbatim>\<open>getAluOp\<close> for byte swaps: 16, 32 or 64 bits by the immediate.\<close>

definition getEndianOp :: "ProgramInfo \<Rightarrow> nat \<Rightarrow> EbpfInst \<Rightarrow> Un_Op \<Rightarrow> Un_Op \<Rightarrow> Un_Op \<Rightarrow> Un_Op result" where
  "getEndianOp info pc inst o16 o32 o64 =
     (if imm inst = 16 then
        (if \<not> supports_group (platform info) base32 then Inl (bad_opcode pc (opcode inst)) else Inr o16)
      else if imm inst = 32 then
        (if \<not> supports_group (platform info) base32 then Inl (bad_opcode pc (opcode inst)) else Inr o32)
      else if imm inst = 64 then
        (if \<not> supports_group (platform info) base64 then Inl (bad_opcode pc (opcode inst)) else Inr o64)
      else Inl (Invalid_Instruction pc ''unsupported immediate''))"

definition getAluOp_end :: "ProgramInfo \<Rightarrow> nat \<Rightarrow> EbpfInst \<Rightarrow> Un_Op result" where
  "getAluOp_end info pc inst =
     (if src inst \<noteq> 0 then Inl (bad_opcode pc (opcode inst))
      else if opcode inst AND INST_CLS_MASK = INST_CLS_ALU64 then
        (if opcode inst AND INST_END_BE \<noteq> 0 then Inl (bad_opcode pc (opcode inst))
         else getEndianOp info pc inst SWAP16 SWAP32 SWAP64)
      else if opcode inst AND INST_END_BE \<noteq> 0 then getEndianOp info pc inst BE16 BE32 BE64
      else getEndianOp info pc inst LE16 LE32 LE64)"

definition getAluOp_rest :: "ProgramInfo \<Rightarrow> nat \<Rightarrow> EbpfInst \<Rightarrow> (string list \<times> (Bin_Op + Un_Op)) result" where
  "getAluOp_rest info pc inst =
     (let aop = opcode inst AND INST_ALU_OP_MASK; bin = (\<lambda>b. Inr ([], Inl b))
      in if aop = INST_ALU_OP_ADD then bin ADD
         else if aop = INST_ALU_OP_SUB then bin SUB
         else if aop = INST_ALU_OP_MUL then
           (if \<not> supports_divmul info inst then Inl (bad_opcode pc (opcode inst)) else bin MUL)
         else if aop = INST_ALU_OP_OR then bin BIN_OR
         else if aop = INST_ALU_OP_AND then bin BIN_AND
         else if aop = INST_ALU_OP_LSH then bin LSH
         else if aop = INST_ALU_OP_RSH then bin RSH
         else if aop = INST_ALU_OP_NEG then
           (if opcode inst AND INST_SRC_REG \<noteq> 0 then Inl (bad_opcode pc (opcode inst))
            else if src inst \<noteq> 0 then Inl (bad_opcode pc (opcode inst))
            else if imm inst \<noteq> 0 then Inl (opcode_error pc ''nonzero imm for'' (opcode inst))
            else Inr ([], Inr NEG))
         else if aop = INST_ALU_OP_XOR then bin BIN_XOR
         else if aop = INST_ALU_OP_ARSH then
           Inr (if opcode inst AND INST_CLS_MASK = INST_CLS_ALU then [''arsh32 is not allowed''] else [], Inl ARSH)
         else if aop = INST_ALU_OP_END then rmap (\<lambda>u. ([], Inr u)) (getAluOp_end info pc inst)
         else Inl (bad_opcode pc (opcode inst)))"

definition getAluOp :: "ProgramInfo \<Rightarrow> nat \<Rightarrow> EbpfInst \<Rightarrow> (string list \<times> (Bin_Op + Un_Op)) result" where
  "getAluOp info pc inst =
     (let aop = opcode inst AND INST_ALU_OP_MASK; off = offset inst;
          bin = (\<lambda>b. Inr ([], Inl b));
          bad_offset = Inl (opcode_error pc ''invalid offset for'' (opcode inst))
      in if aop = INST_ALU_OP_DIV then
           (if \<not> supports_divmul info inst then Inl (bad_opcode pc (opcode inst))
            else if off = 0 then bin UDIV else if off = 1 then bin SDIV else bad_offset)
         else if aop = INST_ALU_OP_MOD then
           (if \<not> supports_divmul info inst then Inl (bad_opcode pc (opcode inst))
            else if off = 0 then bin UMOD else if off = 1 then bin SMOD else bad_offset)
         else if aop = INST_ALU_OP_MOV then
           (if 0 < sint off \<and> opcode inst AND INST_SRC_REG = 0
            then Inl (opcode_error pc ''nonzero offset for'' (opcode inst))
            else if off = 0 then bin MOV else if off = 8 then bin MOVSX8
            else if off = 16 then bin MOVSX16 else if off = 32 then bin MOVSX32 else bad_offset)
         else if off \<noteq> 0 then Inl (opcode_error pc ''nonzero offset for'' (opcode inst))
         else getAluOp_rest info pc inst)"

definition getBinValue :: "nat \<Rightarrow> EbpfInst \<Rightarrow> Value result" where
  "getBinValue pc inst =
     (if opcode inst AND INST_SRC_REG \<noteq> 0 then
        (if imm inst \<noteq> 0 then Inl (opcode_error pc ''nonzero imm for'' (opcode inst)) else Inr (Reg (ucast (src inst))))
      else if src inst \<noteq> 0 then Inl (bad_opcode pc (opcode inst))
      else Inr (Imm (sign_extend (imm inst))))"

definition makeAluOp ::
  "bool \<Rightarrow> ProgramInfo \<Rightarrow> nat \<Rightarrow> EbpfInst \<Rightarrow> (string list \<times> Instruction) result" where
  "makeAluOp allow_division_by_zero info pc inst =
     (let is64 = is_alu64 inst
      in if \<not> supports_group (platform info) (if is64 then base64 else base32) then Inl (bad_opcode pc (opcode inst))
         else if dst inst = 10 then Inl (Invalid_Instruction pc ''invalid target r10'')
         else if dst inst > 10 \<or> src inst > 10 then Inl (Invalid_Instruction pc ''bad register'')
         else rbind (getAluOp info pc inst) (\<lambda>(notes, aop).
           case aop of
             Inr u \<Rightarrow> Inr (notes, Un_ins u (ucast (dst inst)) is64)
           | Inl b \<Rightarrow> rbind (getBinValue pc inst) (\<lambda>v.
               Inr (notes @ (if \<not> allow_division_by_zero \<and> (b = UDIV \<or> b = UMOD) \<and> v = Imm 0
                             then [''division by zero''] else []),
                    Bin \<lparr>bin_op = b, bin_dst = ucast (dst inst), bin_v = v, bin_is64 = is64, bin_lddw = False\<rparr>))))"

section \<open>Memory instructions\<close>

definition getAtomicOp :: "nat \<Rightarrow> EbpfInst \<Rightarrow> Atomic_Op result" where
  "getAtomicOp pc inst =
     (let aop = imm inst AND NOT INST_FETCH; fetch = imm inst AND INST_FETCH \<noteq> 0;
          bad = Inl (Invalid_Instruction pc ''unsupported immediate'')
      in if aop = 0xe0 then (if \<not> fetch then bad else Inr A_XCHG)
         else if aop = 0xf0 then (if \<not> fetch then bad else Inr A_CMPXCHG)
         else if aop = 0x00 then Inr A_ADD
         else if aop = 0x40 then Inr A_OR
         else if aop = 0x50 then Inr A_AND
         else if aop = 0xa0 then Inr A_XOR
         else bad)"

definition makePacket :: "ProgramInfo \<Rightarrow> nat \<Rightarrow> EbpfInst \<Rightarrow> int \<Rightarrow> bool \<Rightarrow> Instruction result" where
  "makePacket info pc inst w ind =
     (if \<not> supports_group (platform info) packet_group \<or> opcode inst AND INST_CLS_MASK \<noteq> INST_CLS_LD \<or> w = 8
      then Inl (bad_opcode pc (opcode inst))
      else if dst inst \<noteq> 0 then Inl (opcode_error pc ''nonzero dst for register'' (opcode inst))
      else if \<not> ind \<and> src inst > 0 then Inl (bad_opcode pc (opcode inst))
      else if ind \<and> src inst > 10 then Inl (Invalid_Instruction pc ''bad register'')
      else if offset inst \<noteq> 0 then Inl (opcode_error pc ''nonzero offset for'' (opcode inst))
      else Inr (Packet w (sint (imm inst)) (if ind then Some (ucast (src inst)) else None)))"

definition makeMem :: "nat \<Rightarrow> EbpfInst \<Rightarrow> int \<Rightarrow> (string list \<times> Instruction) result" where
  "makeMem pc inst w =
     (if opcode inst AND INST_CLS_MASK = INST_CLS_LD then Inl (bad_opcode pc (opcode inst))
      else rbind (getMemIsLoad (opcode inst)) (\<lambda>isLoad.
        let isImm = (opcode inst AND 1 = 0)
        in if isLoad \<and> dst inst = 10 then Inl (Invalid_Instruction pc ''cannot modify r10'')
           else if isImm \<and> src inst \<noteq> 0 then Inl (bad_opcode pc (opcode inst))
           else if \<not> isImm \<and> imm inst \<noteq> 0 then Inl (opcode_error pc ''nonzero imm for'' (opcode inst))
           else if isLoad \<and> isImm then Inl Assert_Failed
           else
             let breg = (if isLoad then src inst else dst inst);
                 off = sint (offset inst)
             in rbind (opcode_to_width (opcode inst)) (\<lambda>ow.
                  Inr (if breg = 10 \<and> (off + ow > 0 \<or> off < - EBPF_TOTAL_STACK_SIZE)
                       then [''Stack access out of bounds''] else [],
                       Mem \<lparr>mem_access = \<lparr>width = w, basereg = ucast breg, deref_offset = off\<rparr>,
                            mem_value = (if isLoad then Reg (ucast (dst inst))
                                         else if isImm then Imm (zero_extend (imm inst))
                                         else Reg (ucast (src inst))),
                            mem_is_load = isLoad\<rparr>))))"

definition makeAtomic :: "ProgramInfo \<Rightarrow> nat \<Rightarrow> EbpfInst \<Rightarrow> int \<Rightarrow> Instruction result" where
  "makeAtomic info pc inst w =
     (let sz = opcode inst AND INST_SIZE_MASK
      in if opcode inst AND INST_CLS_MASK \<noteq> INST_CLS_STX \<or> (sz \<noteq> INST_SIZE_W \<and> sz \<noteq> INST_SIZE_DW)
         then Inl (bad_opcode pc (opcode inst))
         else if \<not> supports_group (platform info) (if sz = INST_SIZE_DW then atomic64 else atomic32)
         then Inl (bad_opcode pc (opcode inst))
         else rbind (getAtomicOp pc inst) (\<lambda>aop.
           Inr (Atomic \<lparr>atomic_op = aop, atomic_fetch = (imm inst AND INST_FETCH = INST_FETCH),
                        atomic_access = \<lparr>width = w, basereg = ucast (dst inst), deref_offset = sint (offset inst)\<rparr>,
                        atomic_valreg = ucast (src inst)\<rparr>)))"

definition makeMemOp :: "ProgramInfo \<Rightarrow> nat \<Rightarrow> EbpfInst \<Rightarrow> (string list \<times> Instruction) result" where
  "makeMemOp info pc inst =
     (if dst inst > 10 \<or> src inst > 10 then Inl (Invalid_Instruction pc ''bad register'')
      else rbind (getMemWidth (opcode inst)) (\<lambda>w.
        if \<not> supports_group (platform info) (if w = 8 then base64 else base32) then Inl (bad_opcode pc (opcode inst))
        else
          let mode = opcode inst AND INST_MODE_MASK
          in if mode = INST_MODE_IMM then Inl (bad_opcode pc (opcode inst))
             else if mode = INST_MODE_ABS then rmap (Pair []) (makePacket info pc inst w False)
             else if mode = INST_MODE_IND then rmap (Pair []) (makePacket info pc inst w True)
             else if mode = INST_MODE_MEM then makeMem pc inst w
             else if mode = INST_MODE_ATOMIC then rmap (Pair []) (makeAtomic info pc inst w)
             else Inl (bad_opcode pc (opcode inst))))"

definition makeLddw :: "ProgramInfo \<Rightarrow> EbpfInst \<Rightarrow> s32 \<Rightarrow> EbpfInst list \<Rightarrow> nat \<Rightarrow> Instruction result" where
  "makeLddw info inst next_imm insts pc =
     (if \<not> supports_group (platform info) base64 then Inl (bad_opcode pc (opcode inst))
      else if pc \<ge> length insts - 1 then Inl (Invalid_Instruction pc ''incomplete lddw'')
      else
        let nxt = insts ! (pc + 1)
        in if opcode nxt \<noteq> 0 \<or> dst nxt \<noteq> 0 \<or> src nxt \<noteq> 0 \<or> offset nxt \<noteq> 0
           then Inl (Invalid_Instruction pc ''invalid lddw'')
           else if src inst > INST_LD_MODE_MAP_VALUE then Inl (bad_opcode pc (opcode inst))
           else if offset inst \<noteq> 0 then Inl (opcode_error pc ''nonzero offset for'' (opcode inst))
           else if dst inst > 10 then Inl (Invalid_Instruction pc ''bad register'')
           else if src inst = INST_LD_MODE_IMM then
             Inr (Bin \<lparr>bin_op = MOV, bin_dst = ucast (dst inst), bin_v = Imm (merge (imm inst) next_imm),
                       bin_is64 = True, bin_lddw = True\<rparr>)
           else if src inst = INST_LD_MODE_MAP_FD then
             (if imm nxt \<noteq> 0 then Inl (Invalid_Instruction pc ''lddw uses reserved fields'')
              else Inr (LoadMapFd (ucast (dst inst)) (imm inst)))
           else if src inst = INST_LD_MODE_MAP_VALUE then
             Inr (LoadMapAddress (ucast (dst inst)) (imm inst) next_imm)
           else Inl (bad_opcode pc (opcode inst)))"

section \<open>Calls\<close>

fun toArgSingleKind :: "ebpf_argument_type_t \<Rightarrow> ArgSingle_Kind" where
  "toArgSingleKind EBPF_ARGUMENT_TYPE_ANYTHING = ANYTHING"
| "toArgSingleKind EBPF_ARGUMENT_TYPE_PTR_TO_STACK = PTR_TO_STACK"
| "toArgSingleKind EBPF_ARGUMENT_TYPE_PTR_TO_STACK_OR_NULL = PTR_TO_STACK"
| "toArgSingleKind EBPF_ARGUMENT_TYPE_PTR_TO_MAP = MAP_FD"
| "toArgSingleKind EBPF_ARGUMENT_TYPE_PTR_TO_MAP_OF_PROGRAMS = MAP_FD_PROGRAMS"
| "toArgSingleKind EBPF_ARGUMENT_TYPE_PTR_TO_MAP_KEY = PTR_TO_MAP_KEY"
| "toArgSingleKind EBPF_ARGUMENT_TYPE_PTR_TO_MAP_VALUE = PTR_TO_MAP_VALUE"
| "toArgSingleKind EBPF_ARGUMENT_TYPE_PTR_TO_CTX = PTR_TO_CTX"
| "toArgSingleKind EBPF_ARGUMENT_TYPE_PTR_TO_CTX_OR_NULL = PTR_TO_CTX"
| "toArgSingleKind _ = MAP_FD"

fun toArgPairKind :: "ebpf_argument_type_t \<Rightarrow> ArgPair_Kind" where
  "toArgPairKind EBPF_ARGUMENT_TYPE_PTR_TO_READABLE_MEM_OR_NULL = PTR_TO_READABLE_MEM"
| "toArgPairKind EBPF_ARGUMENT_TYPE_PTR_TO_READABLE_MEM = PTR_TO_READABLE_MEM"
| "toArgPairKind EBPF_ARGUMENT_TYPE_PTR_TO_WRITABLE_MEM_OR_NULL = PTR_TO_WRITABLE_MEM"
| "toArgPairKind EBPF_ARGUMENT_TYPE_PTR_TO_WRITABLE_MEM = PTR_TO_WRITABLE_MEM"
| "toArgPairKind _ = PTR_TO_READABLE_MEM"

definition plain_single :: "ebpf_argument_type_t \<Rightarrow> bool" where
  "plain_single t \<longleftrightarrow> t \<in> {EBPF_ARGUMENT_TYPE_ANYTHING, EBPF_ARGUMENT_TYPE_PTR_TO_MAP,
     EBPF_ARGUMENT_TYPE_PTR_TO_MAP_OF_PROGRAMS, EBPF_ARGUMENT_TYPE_PTR_TO_MAP_KEY,
     EBPF_ARGUMENT_TYPE_PTR_TO_MAP_VALUE, EBPF_ARGUMENT_TYPE_PTR_TO_STACK, EBPF_ARGUMENT_TYPE_PTR_TO_CTX}"

definition nullable_single :: "ebpf_argument_type_t \<Rightarrow> bool" where
  "nullable_single t \<longleftrightarrow>
     t \<in> {EBPF_ARGUMENT_TYPE_PTR_TO_STACK_OR_NULL, EBPF_ARGUMENT_TYPE_PTR_TO_CTX_OR_NULL}"

text \<open>
  The loop of \<^verbatim>\<open>makeCall\<close> over the argument types, from index \<open>i\<close>: the list holds the remaining
  types, the last one being the terminating \<^verbatim>\<open>DONTCARE\<close> that the loop looks ahead to but does not
  visit. A pointer to memory consumes the size argument that follows it.
\<close>

fun makeCall_args :: "string \<Rightarrow> nat \<Rightarrow> ebpf_argument_type_t list \<Rightarrow> Call \<Rightarrow> Call result" where
  "makeCall_args name i (a # b # rest) res =
     (if a = EBPF_ARGUMENT_TYPE_UNSUPPORTED then Inl (Runtime_Error (''unsupported function: '' @ name))
      else if a = EBPF_ARGUMENT_TYPE_DONTCARE then Inr res
      else if plain_single a \<or> nullable_single a then
        makeCall_args name (Suc i) (b # rest)
          (res\<lparr>singles := singles res @
             [\<lparr>single_kind = toArgSingleKind a, single_or_null = nullable_single a, single_reg = of_nat i\<rparr>]\<rparr>)
      else if a = EBPF_ARGUMENT_TYPE_CONST_SIZE then
        Inl (Runtime_Error (''mismatched EBPF_ARGUMENT_TYPE_PTR_TO* and EBPF_ARGUMENT_TYPE_CONST_SIZE: '' @ name))
      else if a = EBPF_ARGUMENT_TYPE_CONST_SIZE_OR_ZERO then
        Inl (Runtime_Error (''mismatched EBPF_ARGUMENT_TYPE_PTR_TO* and EBPF_ARGUMENT_TYPE_CONST_SIZE_OR_ZERO: '' @ name))
      else if b \<noteq> EBPF_ARGUMENT_TYPE_CONST_SIZE \<and> b \<noteq> EBPF_ARGUMENT_TYPE_CONST_SIZE_OR_ZERO then
        Inl (Runtime_Error (''Pointer argument not followed by EBPF_ARGUMENT_TYPE_CONST_SIZE or '' @
               ''EBPF_ARGUMENT_TYPE_CONST_SIZE_OR_ZERO: '' @ name))
      else
        makeCall_args name (i + 2) rest
          (res\<lparr>pairs := pairs res @
             [\<lparr>pair_kind = toArgPairKind a,
               pair_or_null = (a = EBPF_ARGUMENT_TYPE_PTR_TO_READABLE_MEM_OR_NULL \<or>
                               a = EBPF_ARGUMENT_TYPE_PTR_TO_WRITABLE_MEM_OR_NULL),
               pair_mem = of_nat i, pair_size = of_nat (i + 1),
               pair_can_be_zero = (b = EBPF_ARGUMENT_TYPE_CONST_SIZE_OR_ZERO)\<rparr>]\<rparr>))"
| "makeCall_args name i _ res = Inr res"

definition makeCall :: "ProgramInfo \<Rightarrow> s32 \<Rightarrow> Call result" where
  "makeCall info i =
     (let proto = get_helper_prototype (platform info) i
      in if return_type proto = EBPF_RETURN_TYPE_UNSUPPORTED
         then Inl (Runtime_Error (''unsupported function: '' @ proto_name proto))
         else makeCall_args (proto_name proto) 1 (argument_type proto @ [EBPF_ARGUMENT_TYPE_DONTCARE])
                \<lparr>func = i, call_name = proto_name proto,
                 is_map_lookup = (return_type proto = EBPF_RETURN_TYPE_PTR_TO_MAP_VALUE_OR_NULL),
                 reallocate_packet = proto_reallocate_packet proto, singles = [], pairs = [],
                 call_stack_frame_prefix = ''''\<rparr>)"

section \<open>Jumps\<close>

text \<open>The target is computed in \<^verbatim>\<open>Pc\<close>, that is modulo \<open>2 ^ 32\<close>, before it is compared with the size.\<close>

definition getJumpTarget :: "s32 \<Rightarrow> EbpfInst list \<Rightarrow> nat \<Rightarrow> Label result" where
  "getJumpTarget off insts pc =
     (let new_pc = nat ((int pc + 1 + sint off) mod 2 ^ 32)
      in if new_pc \<ge> length insts then Inl (Invalid_Instruction pc ''jump out of bounds'')
         else if opcode (insts ! new_pc) = 0 then Inl (Invalid_Instruction pc ''jump to middle of lddw'')
         else rmap label_at (gsl_narrow int32_t (int new_pc)))"

definition makeCallLocal :: "EbpfInst \<Rightarrow> EbpfInst list \<Rightarrow> nat \<Rightarrow> Instruction result" where
  "makeCallLocal inst insts pc =
     (if opcode inst AND INST_SRC_REG \<noteq> 0 then Inl (bad_opcode pc (opcode inst))
      else if dst inst \<noteq> 0 then Inl (opcode_error pc ''nonzero dst for register'' (opcode inst))
      else rmap (\<lambda>t. CallLocal t '''') (getJumpTarget (imm inst) insts pc))"

definition makeCallx :: "EbpfInst \<Rightarrow> nat \<Rightarrow> Instruction result" where
  "makeCallx inst pc =
     (if dst inst > 10 then Inl (Invalid_Instruction pc ''bad register'')
      else if imm inst \<noteq> 0 then
        (if dst inst > 0 then Inl (opcode_error pc ''nonzero imm for'' (opcode inst))
         else if sint (imm inst) < 0 \<or> sint (imm inst) > 10 then Inl (Invalid_Instruction pc ''bad register'')
         else Inr (Callx (ucast (imm inst))))
      else Inr (Callx (ucast (dst inst))))"

definition getJmpOp :: "nat \<Rightarrow> u8 \<Rightarrow> Condition_Op result" where
  "getJmpOp pc opc =
     (let code = drop_bit 4 opc AND 0xf
      in if code = 0x1 then Inr EQ
         else if code = 0x2 then Inr GT
         else if code = 0x3 then Inr GE
         else if code = 0x4 then Inr SET
         else if code = 0x5 then Inr NE
         else if code = 0x6 then Inr SGT
         else if code = 0x7 then Inr SGE
         else if code = 0xa then Inr LT
         else if code = 0xb then Inr LE
         else if code = 0xc then Inr SLT
         else if code = 0xd then Inr SLE
         else if code = 0xe \<or> code = 0xf then Inl (bad_opcode pc opc)
         else Inr EQ)"

text \<open>The default branch of \<^verbatim>\<open>makeJmp\<close>: conditional jumps, and gotos once their fields are checked.\<close>

definition makeJmp_default :: "ProgramInfo \<Rightarrow> EbpfInst \<Rightarrow> EbpfInst list \<Rightarrow> nat \<Rightarrow> Instruction result" where
  "makeJmp_default info inst insts pc =
     (let opc = opcode inst; is64 = (opc AND INST_CLS_MASK = INST_CLS_JMP);
          is_reg = (opc AND INST_SRC_REG \<noteq> 0); is_ja = (opc = INST_OP_JA16 \<or> opc = INST_OP_JA32)
      in if \<not> supports_group (platform info) (if is64 then base64 else base32) then Inl (bad_opcode pc opc)
         else rbind (getJmpOp pc opc) (\<lambda>jop.
           if \<not> is_reg \<and> src inst \<noteq> 0 then Inl (bad_opcode pc opc)
           else if is_reg \<and> imm inst \<noteq> 0 then Inl (opcode_error pc ''nonzero imm for'' opc)
           else rbind (getJumpTarget (if opc = INST_OP_JA32 then imm inst else scast (offset inst)) insts pc) (\<lambda>target.
             if \<not> is_ja \<and> dst inst > 10 then Inl (Invalid_Instruction pc ''bad register'')
             else if \<not> is_ja \<and> is_reg \<and> src inst > 10 then Inl (Invalid_Instruction pc ''bad register'')
             else Inr (Jmp (if is_ja then None
                            else Some \<lparr>cond_op = jop, cond_left = ucast (dst inst),
                                       cond_right = (if is_reg then Reg (ucast (src inst))
                                                     else Imm (sign_extend (imm inst))),
                                       cond_is64 = is64\<rparr>) target))))"

definition makeJmp_call :: "ProgramInfo \<Rightarrow> EbpfInst \<Rightarrow> EbpfInst list \<Rightarrow> nat \<Rightarrow> Instruction result" where
  "makeJmp_call info inst insts pc =
     (let opc = opcode inst
      in if opc AND INST_CLS_MASK \<noteq> INST_CLS_JMP then Inl (bad_opcode pc opc)
         else if \<not> supports_group (platform info) callx_group \<and> opc AND INST_SRC_REG \<noteq> 0 then Inl (bad_opcode pc opc)
         else if \<not> supports_group (platform info) base32 then Inl (bad_opcode pc opc)
         else if src inst \<ge> INST_CALL_BTF_HELPER then Inl (bad_opcode pc opc)
         else if offset inst \<noteq> 0 then Inl (opcode_error pc ''nonzero offset for'' opc)
         else if src inst = INST_CALL_LOCAL then makeCallLocal inst insts pc
         else if opc AND INST_SRC_REG \<noteq> 0 then makeCallx inst pc
         else if dst inst \<noteq> 0 then Inl (opcode_error pc ''nonzero dst for register'' opc)
         else if \<not> is_helper_usable (platform info) (imm inst)
         then Inl (Invalid_Instruction pc (''invalid helper function id '' @ show_int (sint (imm inst))))
         else rmap Call (makeCall info (imm inst)))"

definition makeJmp_exit :: "ProgramInfo \<Rightarrow> EbpfInst \<Rightarrow> nat \<Rightarrow> Instruction result" where
  "makeJmp_exit info inst pc =
     (let opc = opcode inst
      in if \<not> supports_group (platform info) base32 then Inl (bad_opcode pc opc)
         else if opc AND INST_CLS_MASK \<noteq> INST_CLS_JMP \<or> opc AND INST_SRC_REG \<noteq> 0 then Inl (bad_opcode pc opc)
         else if src inst \<noteq> 0 then Inl (bad_opcode pc opc)
         else if dst inst \<noteq> 0 then Inl (opcode_error pc ''nonzero dst for register'' opc)
         else if imm inst \<noteq> 0 then Inl (opcode_error pc ''nonzero imm for'' opc)
         else if offset inst \<noteq> 0 then Inl (opcode_error pc ''nonzero offset for'' opc)
         else Inr (Exit ''''))"

definition makeJmp :: "ProgramInfo \<Rightarrow> EbpfInst \<Rightarrow> EbpfInst list \<Rightarrow> nat \<Rightarrow> Instruction result" where
  "makeJmp info inst insts pc =
     (let opc = opcode inst; code = drop_bit 4 opc AND 0xf; cls = opc AND INST_CLS_MASK
      in if code = INST_CALL then makeJmp_call info inst insts pc
         else if code = INST_EXIT then makeJmp_exit info inst pc
         else if code = INST_JA then
           (if cls \<noteq> INST_CLS_JMP \<and> cls \<noteq> INST_CLS_JMP32 then Inl (bad_opcode pc opc)
            else if \<not> supports_group (platform info) base32 then Inl (bad_opcode pc opc)
            else if opc AND INST_SRC_REG \<noteq> 0 then Inl (bad_opcode pc opc)
            else if cls = INST_CLS_JMP \<and> imm inst \<noteq> 0 then Inl (opcode_error pc ''nonzero imm for'' opc)
            else if cls = INST_CLS_JMP32 \<and> offset inst \<noteq> 0 then Inl (opcode_error pc ''nonzero offset for'' opc)
            else if dst inst \<noteq> 0 then Inl (opcode_error pc ''nonzero dst for register'' opc)
            else makeJmp_default info inst insts pc)
         else makeJmp_default info inst insts pc)"

section \<open>Programs\<close>

text \<open>One iteration of the loop: the instruction, whether it takes the next slot too, and its notes.\<close>

record Step =
  step_notes :: "string list"
  step_ins :: Instruction
  skip_instruction :: bool

definition unmarshal_alu :: "bool \<Rightarrow> ProgramInfo \<Rightarrow> EbpfInst list \<Rightarrow> nat \<Rightarrow> Step result" where
  "unmarshal_alu allow0 info insts pc =
     (let inst = insts ! pc; d = ucast (dst inst)
      in rbind (makeAluOp allow0 info pc inst) (\<lambda>(notes, new_ins).
           let plain = \<lparr>step_notes = notes, step_ins = new_ins, skip_instruction = False\<rparr>
           in if pc \<ge> length insts - 1 then Inr plain
              else if new_ins \<noteq> shift32 d LSH then Inr plain
              else
                let nxt = insts ! (pc + 1)
                in if opcode nxt AND INST_CLS_MASK \<noteq> INST_CLS_ALU64 then Inr plain
                   else rbind (makeAluOp allow0 info (pc + 1) nxt) (\<lambda>(next_notes, next_ins).
                     let ns = notes @ next_notes
                     in if next_ins = shift32 d RSH then
                          Inr \<lparr>step_notes = ns,
                               step_ins = Bin \<lparr>bin_op = MOV, bin_dst = d, bin_v = Reg d, bin_is64 = False,
                                              bin_lddw = False\<rparr>,
                               skip_instruction = True\<rparr>
                        else if next_ins = shift32 d ARSH then
                          Inr \<lparr>step_notes = ns,
                               step_ins = Bin \<lparr>bin_op = MOVSX32, bin_dst = d, bin_v = Reg d, bin_is64 = True,
                                              bin_lddw = False\<rparr>,
                               skip_instruction = True\<rparr>
                        else Inr \<lparr>step_notes = ns, step_ins = new_ins, skip_instruction = False\<rparr>)))"

definition unmarshal_step :: "bool \<Rightarrow> ProgramInfo \<Rightarrow> EbpfInst list \<Rightarrow> nat \<Rightarrow> Step result" where
  "unmarshal_step allow0 info insts pc =
     (let inst = insts ! pc; cls = opcode inst AND INST_CLS_MASK
      in if cls = INST_CLS_LD \<and> opcode inst = INST_OP_LDDW_IMM then
           let next_imm = (if pc < length insts - 1 then imm (insts ! (pc + 1)) else 0)
           in rmap (\<lambda>i. \<lparr>step_notes = [], step_ins = i, skip_instruction = True\<rparr>)
                (makeLddw info inst next_imm insts pc)
         else if cls = INST_CLS_LD \<or> cls = INST_CLS_LDX \<or> cls = INST_CLS_ST \<or> cls = INST_CLS_STX then
           rmap (\<lambda>(ns, i). \<lparr>step_notes = ns, step_ins = i, skip_instruction = False\<rparr>) (makeMemOp info pc inst)
         else if cls = INST_CLS_ALU \<or> cls = INST_CLS_ALU64 then unmarshal_alu allow0 info insts pc
         else rmap (\<lambda>i. \<lparr>step_notes = [], step_ins = i, skip_instruction = False\<rparr>) (makeJmp info inst insts pc))"

fun falls_through :: "Instruction \<Rightarrow> bool" where
  "falls_through (Exit _) = False"
| "falls_through (Jmp None _) = False"
| "falls_through _ = True"

fun is_exit :: "Instruction \<Rightarrow> bool" where
  "is_exit (Exit _) = True"
| "is_exit _ = False"

text \<open>\<^verbatim>\<open>info.line_info.at(pc)\<close> under the guard on the size of the map.\<close>

definition current_line_info :: "ProgramInfo \<Rightarrow> nat \<Rightarrow> btf_line_info_t option result" where
  "current_line_info info pc =
     (if pc < length (line_info info) then
        (case map_of (line_info info) pc of None \<Rightarrow> Inl Out_Of_Range | Some l \<Rightarrow> Inr (Some l))
      else Inr None)"

function unmarshal_loop ::
  "bool \<Rightarrow> ProgramInfo \<Rightarrow> EbpfInst list \<Rightarrow> nat \<Rightarrow> (InstructionSeq \<times> string list list) result" where
  "unmarshal_loop allow0 info insts pc =
     (if pc \<ge> length insts then Inr ([], [])
      else
        rbind (unmarshal_step allow0 info insts pc) (\<lambda>s.
        let notes = step_notes s @
              (if pc = length insts - 1 \<and> falls_through (step_ins s) then [''fallthrough in last instruction''] else [])
        in rbind (current_line_info info pc) (\<lambda>li.
           rbind (gsl_narrow int32_t (int pc)) (\<lambda>l.
           rbind (unmarshal_loop allow0 info insts (if skip_instruction s then pc + 2 else pc + 1)) (\<lambda>(prog, rest).
             Inr ((label_at l, step_ins s, li) # prog,
                  notes # (if skip_instruction s then [] # rest else rest)))))))"
  by pat_completeness auto
termination
  by (relation "measure (\<lambda>(_, _, insts, pc). length insts - pc)") auto

declare unmarshal_loop.simps [simp del]

definition unmarshal_prog ::
  "bool \<Rightarrow> ProgramInfo \<Rightarrow> EbpfInst list \<Rightarrow> (InstructionSeq \<times> string list list) result" where
  "unmarshal_prog allow0 info insts =
     (if insts = [] then Inl (Invalid_Argument ''Zero length programs are not allowed'')
      else rmap (\<lambda>(prog, notes).
        (prog, notes @ [if \<exists>(_, ins, _)\<in>set prog. is_exit ins then [] else [''no exit instruction'']]))
        (unmarshal_loop allow0 info insts 0))"

definition unmarshal ::
  "bool \<Rightarrow> ProgramInfo \<Rightarrow> EbpfInst list \<Rightarrow> (string + InstructionSeq \<times> string list list) result" where
  "unmarshal allow0 info insts =
     (case unmarshal_prog allow0 info insts of
        Inr r \<Rightarrow> Inr (Inr r)
      | Inl (Invalid_Instruction pc what) \<Rightarrow> Inr (Inl (show_nat pc @ '': '' @ what @ [CHR 0x0A]))
      | Inl e \<Rightarrow> Inl e)"

end
