(* ===== verification/Roundtrip.thy ===== *)
theory Roundtrip
  imports Marshal Unmarshal
begin

unbundle bit_operations_syntax

text \<open>
  The decoder and the encoder against each other. For every raw instruction that \<^verbatim>\<open>unmarshal\<close>
  accepts and that has a canonical form, \<^verbatim>\<open>marshal\<close> gives the raw instruction back; a canonical
  program survives the round trip unchanged. The second part shows where jump targets of a decoded
  program can point.
\<close>

section \<open>Arithmetic\<close>

lemma ucast_4_8 [simp]: "(ucast (ucast (r :: 4 word) :: 8 word) :: 4 word) = r"
  by (rule bit_word_eqI) (auto simp: bit_simps)

lemma and_bit_cases: "(x :: 'a::len word) AND push_bit k 1 = 0 \<or> x AND push_bit k 1 = push_bit k 1"
proof (cases "bit x k")
  case True
  then have "x AND push_bit k 1 = push_bit k 1" by (intro bit_word_eqI) (auto simp: bit_simps)
  then show ?thesis ..
next
  case False
  then have "x AND push_bit k 1 = 0" by (intro bit_word_eqI) (auto simp: bit_simps)
  then show ?thesis ..
qed

lemma and_8_cases: "(x :: u8) AND 8 = 0 \<or> x AND 8 = 8"
  using and_bit_cases[of x 3] by simp

lemma and_1_cases: "(x :: 'a::len word) AND 1 = 0 \<or> x AND 1 = 1"
  using and_bit_cases[of x 0] by simp

lemma narrow_sign_extend: "0 \<le> sint i \<Longrightarrow> narrow_s32 (uint (sign_extend i)) = Inr i"
proof -
  assume "0 \<le> sint i"
  then have "take_bit 64 (sint i) = sint i"
    using sint_32_range[of i] by (simp add: in_ctype_def take_bit_int_eq_self_iff)
  moreover have "uint (sign_extend i) = take_bit 64 (sint i)"
    unfolding sign_extend_def scast_eq uint_word_of_int_eq by simp
  ultimately show ?thesis by simp
qed

lemma narrow_zero_extend: "0 \<le> sint i \<Longrightarrow> narrow_s32 (uint (zero_extend i)) = Inr i"
proof -
  assume nn: "0 \<le> sint i"
  have "take_bit 32 (sint i) = sint i"
    using nn sint_32_range[of i] by (simp add: in_ctype_def take_bit_int_eq_self_iff)
  moreover have "uint i = take_bit 32 (sint i)"
    using uint_bounded[of i] unfolding sint_uint
    by (simp add: take_bit_signed_take_bit take_bit_int_eq_self_iff[THEN iffD2])
  moreover have "uint (zero_extend i) = take_bit 64 (uint i)"
    unfolding zero_extend_def unsigned_ucast_eq by simp
  moreover have "take_bit 64 (uint i) = uint i"
    using uint_bounded[of i] by (simp add: take_bit_int_eq_self_iff)
  ultimately show ?thesis by simp
qed

lemma ucast_sign_extend: "(ucast (sign_extend i) :: s32) = i"
proof (rule bit_word_eqI)
  fix n assume n: "n < LENGTH(32)"
  then have "min (LENGTH(32) - Suc 0) n = n" by simp
  then show "bit (ucast (sign_extend i) :: s32) n = bit i n"
    using n by (simp add: sign_extend_def bit_simps)
qed

lemma getAluOp_bin:
  "getAluOp info pc inst = Inr (ns, Inl b) \<Longrightarrow>
   push_bit 4 (bin_opcode b) = opcode inst AND 0xf0 \<and> bin_offset b = offset inst"
  by (auto simp: getAluOp_def getAluOp_rest_def Let_def bin_offset_def result_iffs split: if_splits)

lemma getAluOp_un:
  assumes "getAluOp info pc inst = Inr (ns, Inr u)"
  shows "offset inst = 0 \<and> src inst = 0 \<and>
    (if u = NEG then opcode inst AND 0xf0 = 0x80 \<and> opcode inst AND 8 = 0 \<and> imm inst = 0
     else opcode inst AND 0xf0 = 0xd0 \<and> imm_endian u = Inr (imm inst) \<and>
       (if u \<in> {LE16, LE32, LE64} then opcode inst AND 7 \<noteq> 7 \<and> opcode inst AND 8 = 0
        else if u \<in> {BE16, BE32, BE64} then opcode inst AND 7 \<noteq> 7 \<and> opcode inst AND 8 \<noteq> 0
        else opcode inst AND 7 = 7 \<and> opcode inst AND 8 = 0))"
  using assms
  by (auto simp: getAluOp_def getAluOp_rest_def getAluOp_end_def getEndianOp_def Let_def result_iffs
      split: if_splits)

lemma makeAluOp_cases [consumes 1, case_names bin un]:
  assumes "makeAluOp a info pc inst = Inr (ns, i)"
  obtains ns' b v where "getAluOp info pc inst = Inr (ns', Inl b)" "getBinValue pc inst = Inr v"
      "i = Bin \<lparr>bin_op = b, bin_dst = ucast (dst inst), bin_v = v, bin_is64 = is_alu64 inst, bin_lddw = False\<rparr>"
    | ns' u where "getAluOp info pc inst = Inr (ns', Inr u)" "i = Un_ins u (ucast (dst inst)) (is_alu64 inst)"
proof -
  obtain ns' aop where g: "getAluOp info pc inst = Inr (ns', aop)"
    using assms by (auto simp: makeAluOp_def Let_def result_iffs split: if_splits)
  show thesis
  proof (cases aop)
    case (Inl b)
    then show ?thesis using that(1) assms g by (auto simp: makeAluOp_def Let_def result_iffs split: if_splits)
  next
    case (Inr u)
    then show ?thesis using that(2) assms g by (auto simp: makeAluOp_def Let_def result_iffs split: if_splits)
  qed
qed

lemma opcode_from_parts:
  assumes "(opc :: u8) AND 7 = k" "opc AND 8 = s" "opc AND 0xf0 = c"
  shows "opc = c OR s OR k"
  using opcode_parts[of opc] assms by simp

lemma alu_reencode:
  assumes m: "makeAluOp a info pc inst = Inr (ns, i)"
    and cls: "opcode inst AND 7 = 4 \<or> opcode inst AND 7 = 7"
    and imm: "opcode inst AND 8 \<noteq> 0 \<or> 0 \<le> sint (imm inst)"
  shows "marshal_ins p i = Inr [inst]"
proof -
  obtain k where k: "opcode inst AND 7 = k" "k = (if is_alu64 inst then 7 else 4)"
    using cls by (auto simp: is_alu64_def)
  from m show ?thesis
  proof (cases rule: makeAluOp_cases)
    case (bin ns' b v)
    note ga = getAluOp_bin[OF bin(1)] and v = bin(2,3)
    show ?thesis
    proof (cases "opcode inst AND 8 = 0")
      case True
      then have "opcode inst = k OR (opcode inst AND 0xf0)"
        using opcode_from_parts[OF k(1) True refl] by (simp add: or.commute)
      then show ?thesis
        using True v k(2) ga imm
        by (auto simp: getBinValue_def marshal_Bin_def Let_def narrow_sign_extend split: if_splits)
    next
      case False
      then have "opcode inst AND 8 = 8" using and_8_cases by blast
      then have "opcode inst = (k OR (opcode inst AND 0xf0)) OR 8"
        using opcode_from_parts[OF k(1) _ refl, of 8] by (simp add: ac_simps)
      then show ?thesis
        using False v k(2) ga by (auto simp: getBinValue_def marshal_Bin_def Let_def split: if_splits)
    qed
  next
    case (un ns' u)
    note ga = getAluOp_un[OF un(1)] and i = un(2)
    have "opcode inst AND 8 = 0 \<or> opcode inst AND 8 = 8" by (rule and_8_cases)
    then obtain s where s: "opcode inst AND 8 = s" "s = 0 \<or> s = 8" by blast
    have "opcode inst = (opcode inst AND 0xf0) OR s OR k" using opcode_from_parts[OF k(1) s(1) refl] .
    then show ?thesis
      using ga i k s by (cases inst; cases u) (auto simp: marshal_Un_def is_alu64_def split: if_splits)
  qed
qed

section \<open>Memory\<close>

lemma opcode_mem_from_parts:
  assumes "(opc :: u8) AND 7 = k" "opc AND 0x18 = s" "opc AND 0xe0 = c"
  shows "opc = c OR s OR k"
  using opcode_mem_parts[of opc] assms by simp

lemma getMemWidth_roundtrip: "getMemWidth opc = Inr w \<Longrightarrow> width_to_opcode w = Inr (opc AND 0x18)"
  by (auto simp: getMemWidth_def width_to_opcode_def Let_def split: if_splits)

lemma packet_reencode:
  assumes "makePacket info pc inst w ind = Inr i" "getMemWidth (opcode inst) = Inr w"
    "opcode inst AND 0xe0 = (if ind then 0x40 else 0x20)"
  shows "marshal_ins p i = Inr [inst]"
proof -
  have c: "opcode inst AND 7 = 0" "dst inst = 0" "offset inst = 0" "\<not> ind \<Longrightarrow> src inst = 0"
      "i = Packet w (sint (imm inst)) (if ind then Some (ucast (src inst)) else None)"
    using assms(1) by (auto simp: makePacket_def word_neq_0_conv[symmetric] split: if_splits)
  have "opcode inst = (opcode inst AND 0xe0) OR (opcode inst AND 0x18) OR 0"
    by (rule opcode_mem_from_parts[OF c(1) refl refl])
  then have "opcode inst = (opcode inst AND 0x18) OR (opcode inst AND 0xe0)" by (simp add: ac_simps)
  then show ?thesis
    using c assms(3) getMemWidth_roundtrip[OF assms(2)] by (cases ind) (auto simp: marshal_Packet_def Let_def)
qed

lemma cls_1_bit: "(opc :: u8) AND 7 = k \<Longrightarrow> opc AND 1 = k AND 1"
proof -
  assume "opc AND 7 = k"
  then have "k AND 1 = opc AND (7 AND 1)" by (simp add: and.assoc flip: \<open>opc AND 7 = k\<close>)
  then show ?thesis by simp
qed

lemma mem_reencode:
  assumes "makeMem pc inst w = Inr (ns, i)" "getMemWidth (opcode inst) = Inr w" "opcode inst AND 0xe0 = 0x60"
    and imm: "opcode inst AND 7 = 2 \<longrightarrow> 0 \<le> sint (imm inst)"
  shows "marshal_ins p i = Inr [inst]"
proof -
  have "opcode inst AND 7 = 1 \<or> opcode inst AND 7 = 2 \<or> opcode inst AND 7 = 3"
    using assms(1) by (auto simp: makeMem_def getMemIsLoad_def Let_def result_iffs split: if_splits)
  moreover obtain k where k: "opcode inst AND 7 = k" by blast
  ultimately have kc: "k = 1 \<or> k = 2 \<or> k = 3" by simp
  have e: "(0x60 OR (opcode inst AND 0x18)) OR k = opcode inst"
    using opcode_mem_from_parts[OF k refl assms(3)] by (simp only: or.assoc)
  note b = cls_1_bit[OF k]
  note w = getMemWidth_roundtrip[OF assms(2)]
  note defs = makeMem_def getMemIsLoad_def marshal_Mem_def Let_def result_iffs
  from kc show ?thesis
  proof (elim disjE)
    assume "k = 1"
    then show ?thesis using assms(1) k b w e by (auto simp: defs split: if_splits)
  next
    assume "k = 2"
    then show ?thesis using assms(1) k b w e imm by (auto simp: defs narrow_zero_extend split: if_splits)
  next
    assume "k = 3"
    then show ?thesis using assms(1) k b w e by (auto simp: defs split: if_splits)
  qed
qed

lemma getAtomicOp_code: "getAtomicOp pc inst = Inr aop \<Longrightarrow> atomic_code aop = imm inst AND NOT 1"
  by (auto simp: getAtomicOp_def Let_def split: if_splits)

lemma and_not_1_or: "(x :: 'a::len word) = (x AND NOT 1) OR (x AND 1)"
  by (simp flip: bit.conj_disj_distrib)

lemma atomic_reencode:
  assumes "makeAtomic info pc inst w = Inr i" "getMemWidth (opcode inst) = Inr w" "opcode inst AND 0xe0 = 0xc0"
  shows "marshal_ins p i = Inr [inst]"
proof -
  obtain aop where a: "getAtomicOp pc inst = Inr aop" "opcode inst AND 7 = 3"
      "i = Atomic \<lparr>atomic_op = aop, atomic_fetch = (imm inst AND INST_FETCH = INST_FETCH),
         atomic_access = \<lparr>width = w, basereg = ucast (dst inst), deref_offset = sint (offset inst)\<rparr>,
         atomic_valreg = ucast (src inst)\<rparr>"
    using assms(1) by (auto simp: makeAtomic_def Let_def result_iffs split: if_splits)
  have "opcode inst = 0xc0 OR (opcode inst AND 0x18) OR 3"
    by (rule opcode_mem_from_parts[OF a(2) refl assms(3)])
  also have "\<dots> = 3 OR 0xc0 OR (opcode inst AND 0x18)" by (simp only: ac_simps)
  finally have e: "3 OR 0xc0 OR (opcode inst AND 0x18) = opcode inst" by (rule sym)
  have "(if imm inst AND 1 = 1 then atomic_code aop OR 1 else atomic_code aop) = imm inst"
    using and_1_cases[of "imm inst"] and_not_1_or[of "imm inst"] getAtomicOp_code[OF a(1)] by auto
  then show ?thesis
    using a(3) e getMemWidth_roundtrip[OF assms(2)] by (simp add: marshal_Atomic_def Let_def)
qed

lemma memop_reencode:
  assumes "makeMemOp info pc inst = Inr (ns, i)" "opcode inst AND 7 = 2 \<longrightarrow> 0 \<le> sint (imm inst)"
  shows "marshal_ins p i = Inr [inst]"
proof -
  obtain w where w: "getMemWidth (opcode inst) = Inr w"
    using assms(1) by (auto simp: makeMemOp_def result_iffs split: if_splits)
  note d = assms(1)[unfolded makeMemOp_def w Let_def]
  consider "makePacket info pc inst w False = Inr i" "opcode inst AND 0xe0 = 0x20"
    | "makePacket info pc inst w True = Inr i" "opcode inst AND 0xe0 = 0x40"
    | "makeMem pc inst w = Inr (ns, i)" "opcode inst AND 0xe0 = 0x60"
    | "makeAtomic info pc inst w = Inr i" "opcode inst AND 0xe0 = 0xc0"
    using d by (auto simp: result_iffs split: if_splits)
  then show ?thesis
    by cases (use w assms(2) packet_reencode mem_reencode atomic_reencode in auto)
qed

lemma lddw_reencode:
  assumes "makeLddw info inst next_imm insts pc = Inr i" "insts ! pc = inst" "opcode inst = 0x18"
    "next_imm = imm (insts ! (pc + 1))"
  shows "pc + 1 < length insts \<and> marshal_ins p i = Inr [inst, insts ! (pc + 1)] \<and> instruction_size i = 2 \<and>
    opcode (insts ! (pc + 1)) = 0"
proof -
  have 1: "src inst \<le> 2 \<Longrightarrow> src inst = 0 \<or> src inst = 1 \<or> src inst = 2"
    by unat_arith
  show ?thesis using assms 1
    by (auto simp: makeLddw_def Let_def marshal_Bin_def marshal_makeLddw_def width_to_opcode_def not_less
        split: if_splits)
qed

section \<open>Jumps and calls\<close>

lemma opcode_high: "drop_bit 4 (opc :: u8) AND 0xf = c \<Longrightarrow> opc AND 0xf0 = push_bit 4 c"
proof -
  assume "drop_bit 4 opc AND 0xf = c"
  moreover have "push_bit 4 (drop_bit 4 opc AND 0xf) = push_bit 4 (drop_bit 4 opc) AND (push_bit 4 0xf :: u8)"
    by (simp only: push_bit_and)
  moreover have "push_bit 4 (drop_bit 4 opc) AND (0xf0 :: u8) = opc AND 0xf0"
  proof -
    have "push_bit 4 (drop_bit 4 opc) = opc AND NOT (mask 4)" by (rule bit_word_eqI) (auto simp: bit_simps)
    then show ?thesis by (simp add: and.assoc mask_eq_exp_minus_1)
  qed
  ultimately show ?thesis by simp
qed

lemma nibble_cases: "(x :: u8) AND 0xf \<in> {0, 1, 2, 3, 4, 5, 6, 7, 8, 9, 10, 11, 12, 13, 14, 15}"
proof -
  have "x AND 0xf \<le> 0xf" by (rule word_and_le1)
  then show ?thesis by unat_arith
qed

lemma getJmpOp_code:
  "getJmpOp pc opc = Inr jop \<Longrightarrow> drop_bit 4 opc AND 0xf = c \<Longrightarrow> c \<notin> {0, 8, 9} \<Longrightarrow> cond_opcode jop = Inr c"
  using nibble_cases[of "drop_bit 4 opc"] by (auto simp: getJmpOp_def Let_def split: if_splits)

lemma getJumpTarget_ok:
  assumes "getJumpTarget off insts pc = Inr l" "pc < 2 ^ 31"
  shows "l = label_at (int pc + 1 + sint off) \<and> 0 \<le> int pc + 1 + sint off \<and>
    nat (int pc + 1 + sint off) < length insts \<and> opcode (insts ! nat (int pc + 1 + sint off)) \<noteq> 0"
proof -
  let ?t = "int pc + 1 + sint off"
  let ?n = "?t mod 2 ^ 32"
  have g: "nat ?n < length insts" "opcode (insts ! nat ?n) \<noteq> 0" "in_ctype int32_t ?n" "l = label_at ?n"
    using assms(1) by (auto simp: getJumpTarget_def Let_def gsl_narrow_iff result_iffs split: if_splits)
  have r: "- (2 ^ 31) \<le> sint off" "sint off < 2 ^ 31" using sint_32_range[of off] by (auto simp: in_ctype_def)
  have "0 \<le> ?t"
  proof (rule ccontr)
    assume n: "\<not> 0 \<le> ?t"
    then have "(?t + 2 ^ 32) mod 2 ^ 32 = ?t + 2 ^ 32" using r by (intro mod_pos_pos_trivial) auto
    then have "?n = ?t + 2 ^ 32" by (simp only: mod_add_self2)
    then show False using g(3) n r by (simp add: in_ctype_def)
  qed
  moreover have "?t < 2 ^ 32" using r assms(2) by simp
  ultimately have "?n = ?t" by (intro mod_pos_pos_trivial) auto
  then show ?thesis using g \<open>0 \<le> ?t\<close> by simp
qed

lemma sint_scast_16 [simp]: "sint (scast (x :: s16) :: s32) = sint x"
  using sint_16_range[of x] by (simp add: signed_scast_eq in_ctype_def signed_take_bit_int_eq_self_iff)

lemma label_offset_target [simp]: "label_offset pc (label_at (int pc + 1 + d)) = d"
  by (simp add: label_offset_def)

lemma makeCall_args_func: "makeCall_args name i ts res = Inr c \<Longrightarrow> func c = func res"
  by (induction name i ts res rule: makeCall_args.induct) (auto split: if_splits)

lemma makeCall_func: "makeCall info i = Inr c \<Longrightarrow> func c = i"
  by (auto simp: makeCall_def Let_def dest: makeCall_args_func split: if_splits)

text \<open>The raw jumps and calls that have only one encoding, which the encoder chooses.\<close>

definition canonical_jmp :: "EbpfInst \<Rightarrow> bool" where
  "canonical_jmp inst \<longleftrightarrow>
     (let opc = opcode inst; code = drop_bit 4 opc AND 0xf
      in if opc AND 7 = 5 then
           (if code = 8 then src inst = 0 \<and> (opc AND 8 \<noteq> 0 \<longrightarrow> imm inst = 0)
            else opc AND 8 \<noteq> 0 \<or> 0 \<le> sint (imm inst))
         else opc = 6 \<and> \<not> in_ctype int16_t (sint (imm inst)))"

lemma jmp_default_reencode:
  assumes "makeJmp_default info inst insts pc = Inr i" "pc < 2 ^ 31" "canonical_jmp inst"
    "drop_bit 4 (opcode inst) AND 0xf \<noteq> 8" "drop_bit 4 (opcode inst) AND 0xf \<noteq> 9"
    "drop_bit 4 (opcode inst) AND 0xf = 0 \<longrightarrow>
       dst inst = 0 \<and> opcode inst AND 8 = 0 \<and> (opcode inst AND 7 = 5 \<and> imm inst = 0 \<or> opcode inst AND 7 = 6 \<and> offset inst = 0)"
  shows "marshal_ins pc i = Inr [inst]"
proof -
  let ?c = "drop_bit 4 (opcode inst) AND 0xf" and ?o = "if opcode inst = 6 then imm inst else scast (offset inst)"
  obtain jop l where j: "getJmpOp pc (opcode inst) = Inr jop" "getJumpTarget ?o insts pc = Inr l"
    using assms(1) by (auto simp: makeJmp_default_def Let_def result_iffs split: if_splits)
  have l: "l = label_at (int pc + 1 + sint ?o)" using getJumpTarget_ok[OF j(2) assms(2)] by blast
  have lo: "label_offset pc l = sint ?o" by (simp only: l label_offset_target)
  have src: "opcode inst AND 8 = 0 \<Longrightarrow> src inst = 0" "opcode inst AND 8 \<noteq> 0 \<Longrightarrow> imm inst = 0"
    using assms(1) by (auto simp: makeJmp_default_def Let_def result_iffs split: if_splits)
  note hi = opcode_high[OF refl, of "opcode inst"]
  show ?thesis
  proof (cases "?c = 0")
    case ja: True
    have "opcode inst = 0 OR 0 OR (opcode inst AND 7)"
      using opcode_from_parts[of "opcode inst", OF refl _ hi] assms(6) ja by simp
    then have op: "opcode inst = 5 \<and> imm inst = 0 \<or> opcode inst = 6 \<and> offset inst = 0"
      using assms(6) ja by auto
    have i: "i = Jmp None l" using assms(1) j op by (auto simp: makeJmp_default_def Let_def split: if_splits)
    show ?thesis
    proof (cases "opcode inst = 6")
      case True
      then have far: "\<not> in_ctype int16_t (sint (imm inst))" using assms(3) by (simp add: canonical_jmp_def)
      then have "imm inst \<noteq> 0" by (auto simp: in_ctype_def)
      then show ?thesis
        using i True op ja assms(6) src far lo label_to_offset32_far[of pc l] sint_32_range[of "imm inst"]
        by (auto simp: marshal_Jmp_def)
    next
      case False
      then show ?thesis
        using i op ja assms(6) src lo label_to_offset16_fits[of pc l] sint_16_range[of "offset inst"]
        by (auto simp: marshal_Jmp_def)
    qed
  next
    case False
    have n6: "opcode inst \<noteq> 6" "opcode inst \<noteq> 5" using False by auto
    then have c5: "opcode inst AND 7 = 5" using assms(3) by (auto simp: canonical_jmp_def Let_def split: if_splits)
    have i: "i = Jmp (Some \<lparr>cond_op = jop, cond_left = ucast (dst inst),
        cond_right = (if opcode inst AND 8 \<noteq> 0 then Reg (ucast (src inst)) else Imm (sign_extend (imm inst))),
        cond_is64 = True\<rparr>) l"
      using assms(1) j n6 c5 by (auto simp: makeJmp_default_def Let_def split: if_splits)
    have co: "cond_opcode jop = Inr ?c" using getJmpOp_code[OF j(1) refl] False assms(4,5) by simp
    have off: "label_to_offset16 pc l = Inr (offset inst)"
      using n6 lo label_to_offset16_fits[of pc l] sint_16_range[of "offset inst"] by simp
    show ?thesis
    proof (cases "opcode inst AND 8 = 0")
      case True
      have "5 OR push_bit 4 ?c = opcode inst"
        using opcode_from_parts[of "opcode inst", OF c5 True hi] by (simp add: ac_simps)
      moreover have "0 \<le> sint (imm inst)"
        using assms(3,4) c5 True by (auto simp: canonical_jmp_def Let_def)
      ultimately show ?thesis
        using True i co off src by (simp add: marshal_Jmp_def Let_def narrow_sign_extend)
    next
      case r: False
      then have 8: "opcode inst AND 8 = 8" using and_8_cases by blast
      have "(5 OR push_bit 4 ?c) OR 8 = opcode inst"
        using opcode_from_parts[of "opcode inst", OF c5 8 hi, symmetric] by (simp only: ac_simps)
      then show ?thesis using r i co off src by (simp add: marshal_Jmp_def Let_def)
    qed
  qed
qed

lemma jmp_reencode:
  assumes "makeJmp info inst insts pc = Inr i" "pc < 2 ^ 31" "canonical_jmp inst"
  shows "marshal_ins pc i = Inr [inst]"
proof -
  let ?c = "drop_bit 4 (opcode inst) AND 0xf"
  note hi = opcode_high[OF refl, of "opcode inst"]
  consider (call) "?c = 8" | (exit) "?c = 9" | (jump) "?c \<noteq> 8" "?c \<noteq> 9" by blast
  then show ?thesis
  proof cases
    case call
    have d: "makeJmp_call info inst insts pc = Inr i" using assms(1) call by (simp add: makeJmp_def)
    then have c: "opcode inst AND 7 = 5" "offset inst = 0"
      by (auto simp: makeJmp_call_def Let_def split: if_splits)
    then have s: "src inst = 0" "opcode inst AND 8 \<noteq> 0 \<Longrightarrow> imm inst = 0"
      using assms(3) call by (auto simp: canonical_jmp_def Let_def)
    show ?thesis
    proof (cases "opcode inst AND 8 = 0")
      case True
      have "opcode inst = 0x85"
        using opcode_from_parts[of "opcode inst", OF c(1) True hi] call by simp
      then show ?thesis
        using d s(1) c True
        by (auto simp: makeJmp_call_def Let_def result_iffs makeCall_func split: if_splits)
    next
      case False
      have "opcode inst = 0x8d"
        using opcode_from_parts[of "opcode inst", OF c(1) _ hi] call False and_8_cases[of "opcode inst"] by auto
      then show ?thesis
        using d s c False by (auto simp: makeJmp_call_def makeCallx_def Let_def split: if_splits)
    qed
  next
    case exit
    have d: "makeJmp_exit info inst pc = Inr i" using assms(1) exit by (simp add: makeJmp_def)
    then have c: "opcode inst AND 7 = 5" "opcode inst AND 8 = 0"
      by (auto simp: makeJmp_exit_def Let_def split: if_splits)
    have "opcode inst = 0x95" using opcode_from_parts[of "opcode inst", OF c hi] exit by simp
    then show ?thesis using d by (auto simp: makeJmp_exit_def Let_def split: if_splits)
  next
    case jump
    have d: "makeJmp_default info inst insts pc = Inr i" using assms(1) jump
      by (auto simp: makeJmp_def Let_def split: if_splits)
    show ?thesis
      by (rule jmp_default_reencode[OF d assms(2,3) jump])
        (use assms(1) jump in \<open>auto simp: makeJmp_def Let_def split: if_splits\<close>)
  qed
qed

section \<open>Programs\<close>

text \<open>
  A pair of shifts by 32 that the decoder merges into one move, and the raw instructions with a
  canonical encoding: immediates that fit \<^verbatim>\<open>gsl::narrow<int32_t>\<close> of the stored 64-bit value, jumps
  and calls as above.
\<close>

definition shift_pair :: "EbpfInst \<Rightarrow> EbpfInst \<Rightarrow> bool" where
  "shift_pair a b \<longleftrightarrow> opcode a = 0x67 \<and> imm a = 32 \<and> (opcode b = 0x77 \<or> opcode b = 0xc7) \<and> imm b = 32 \<and> dst a = dst b"

definition canonical :: "EbpfInst \<Rightarrow> bool" where
  "canonical inst \<longleftrightarrow>
     (let cls = opcode inst AND 7
      in if cls = 4 \<or> cls = 7 then opcode inst AND 8 \<noteq> 0 \<or> 0 \<le> sint (imm inst)
         else if cls = 2 then 0 \<le> sint (imm inst)
         else if cls = 5 \<or> cls = 6 then canonical_jmp inst
         else True)"

lemma alu_shift32:
  assumes "makeAluOp a info pc inst = Inr (ns, shift32 d sop)" "opcode inst AND 7 = 7"
    "sop \<in> {LSH, RSH, ARSH}"
  shows "ucast (dst inst) = d \<and> imm inst = 32 \<and> opcode inst = (if sop = LSH then 0x67 else if sop = RSH then 0x77 else 0xc7)"
proof -
  have v: "getBinValue pc inst = Inr (Imm 32)" "ucast (dst inst) = d"
    and g: "\<exists>ns'. getAluOp info pc inst = Inr (ns', Inl sop)"
    using assms(1) by (auto simp: shift32_def elim!: makeAluOp_cases)
  have "opcode inst AND 8 = 0" "sign_extend (imm inst) = 32"
    using v(1) by (auto simp: getBinValue_def split: if_splits)
  moreover have "opcode inst AND 0xf0 = push_bit 4 (bin_opcode sop)" using g getAluOp_bin by fastforce
  ultimately have "opcode inst = push_bit 4 (bin_opcode sop) OR 0 OR 7"
    using opcode_from_parts[OF assms(2)] by blast
  moreover have "imm inst = 32" using \<open>sign_extend (imm inst) = 32\<close> ucast_sign_extend[of "imm inst"] by simp
  ultimately show ?thesis using v(2) assms(3) by auto
qed

lemma alu_step:
  assumes "unmarshal_alu a info insts pc = Inr s" "pc < length insts"
    and cls: "opcode (insts ! pc) AND 7 = 4 \<or> opcode (insts ! pc) AND 7 = 7"
  shows "if skip_instruction s then pc + 1 < length insts \<and> shift_pair (insts ! pc) (insts ! (pc + 1))
    else \<exists>ns. makeAluOp a info pc (insts ! pc) = Inr (ns, step_ins s)"
proof -
  let ?i = "insts ! pc" and ?n = "insts ! (pc + 1)" and ?d = "ucast (dst (insts ! pc)) :: Reg"
  obtain ns new where m: "makeAluOp a info pc ?i = Inr (ns, new)"
    using assms(1) by (auto simp: unmarshal_alu_def Let_def result_iffs split: if_splits)
  note d = assms(1)[unfolded unmarshal_alu_def Let_def m]
  show ?thesis
  proof (cases "skip_instruction s")
    case False
    then have "step_ins s = new" using d by (auto simp: result_iffs split: if_splits)
    then show ?thesis using False m by auto
  next
    case True
    obtain ns2 nxt where n: "pc + 1 < length insts" "new = shift32 ?d LSH" "opcode ?n AND 7 = 7"
        "makeAluOp a info (pc + 1) ?n = Inr (ns2, nxt)" "nxt = shift32 ?d RSH \<or> nxt = shift32 ?d ARSH"
      using d True by (auto simp: result_iffs split: if_splits)
    have 7: "opcode ?i AND 7 = 7"
      using cls m n(2) by (auto simp: shift32_def is_alu64_def elim!: makeAluOp_cases)
    have "opcode ?i = 0x67 \<and> imm ?i = 32"
      using alu_shift32[of a info pc ?i ns ?d LSH] m n(2) 7 by simp
    moreover have "ucast (dst ?n) = ?d \<and> imm ?n = 32 \<and> (opcode ?n = 0x77 \<or> opcode ?n = 0xc7)"
      using n(4,5) alu_shift32[of a info "pc + 1" ?n ns2 ?d RSH] alu_shift32[of a info "pc + 1" ?n ns2 ?d ARSH] n(3)
      by auto
    moreover have "dst ?n = dst ?i" if "(ucast (dst ?n) :: Reg) = ucast (dst ?i)"
      using arg_cong[OF that, of "ucast :: Reg \<Rightarrow> 4 word"] by simp
    ultimately show ?thesis using True n(1) by (simp add: shift_pair_def)
  qed
qed

lemma opcode_class_cases: "(opc :: u8) AND 7 \<in> {0, 1, 2, 3, 4, 5, 6, 7}"
proof -
  have "opc AND 7 \<le> 7" by (rule word_and_le1)
  then show ?thesis by unat_arith
qed

lemma unmarshal_step_reencode:
  assumes s: "unmarshal_step a info insts pc = Inr s" "pc < length insts" "pc < 2 ^ 31" "canonical (insts ! pc)"
    and np: "pc + 1 < length insts \<Longrightarrow> \<not> shift_pair (insts ! pc) (insts ! (pc + 1))"
  shows "marshal_ins pc (step_ins s) = Inr (take (if skip_instruction s then 2 else 1) (drop pc insts)) \<and>
    pc + (if skip_instruction s then 2 else 1) \<le> length insts \<and>
    (skip_instruction s \<longrightarrow> opcode (insts ! (pc + 1)) = 0)"
proof -
  let ?i = "insts ! pc"
  have t1: "take 1 (drop pc insts) = [?i]" using s(2) by (simp add: take_Suc_conv_app_nth Cons_nth_drop_Suc[symmetric])
  have t2: "pc + 1 < length insts \<Longrightarrow> take 2 (drop pc insts) = [?i, insts ! (pc + 1)]"
    using Cons_nth_drop_Suc[of pc insts] Cons_nth_drop_Suc[of "pc + 1" insts] s(2)
    by (metis Suc_eq_plus1 numeral_2_eq_2 take_Suc_Cons take0)
  consider (lddw) "opcode ?i = 0x18" | (mem) "opcode ?i \<noteq> 0x18" "opcode ?i AND 7 \<in> {0, 1, 2, 3}"
    | (alu) "opcode ?i AND 7 = 4 \<or> opcode ?i AND 7 = 7" | (jmp) "opcode ?i AND 7 = 5 \<or> opcode ?i AND 7 = 6"
    using opcode_class_cases[of "opcode ?i"] by auto
  then show ?thesis
  proof cases
    case lddw
    obtain i where i: "makeLddw info ?i (if pc < length insts - 1 then imm (insts ! (pc + 1)) else 0) insts pc = Inr i"
        "s = \<lparr>step_notes = [], step_ins = i, skip_instruction = True\<rparr>"
      using s(1) lddw by (auto simp: unmarshal_step_def Let_def result_iffs)
    have "pc < length insts - 1" using i(1) by (auto simp: makeLddw_def split: if_splits)
    then show ?thesis using lddw_reencode[of info ?i "imm (insts ! (pc + 1))" insts pc i] i lddw t2 by auto
  next
    case mem
    then obtain ns where i: "makeMemOp info pc ?i = Inr (ns, step_ins s)" "\<not> skip_instruction s"
      using s(1) by (auto simp: unmarshal_step_def Let_def result_iffs)
    have "opcode ?i AND 7 = 2 \<longrightarrow> 0 \<le> sint (imm ?i)" using s(4) by (auto simp: canonical_def Let_def)
    then show ?thesis using memop_reencode[OF i(1)] i(2) t1 s(2) by simp
  next
    case alu
    then have u: "unmarshal_alu a info insts pc = Inr s" using s(1) by (auto simp: unmarshal_step_def Let_def)
    have ns: "\<not> skip_instruction s" using alu_step[OF u s(2) alu] np by (auto split: if_splits)
    then obtain ns where m: "makeAluOp a info pc ?i = Inr (ns, step_ins s)" using alu_step[OF u s(2) alu] by auto
    have "opcode ?i AND 8 \<noteq> 0 \<or> 0 \<le> sint (imm ?i)" using s(4) alu by (auto simp: canonical_def Let_def)
    then show ?thesis using alu_reencode[OF m alu] ns t1 s(2) by simp
  next
    case jmp
    then have i: "makeJmp info ?i insts pc = Inr (step_ins s)" "\<not> skip_instruction s"
      using s(1) by (auto simp: unmarshal_step_def Let_def result_iffs)
    have "canonical_jmp ?i" using s(4) jmp by (auto simp: canonical_def Let_def)
    then show ?thesis using jmp_reencode[OF i(1) s(3)] i(2) t1 s(2) by simp
  qed
qed

section \<open>Jump targets\<close>

fun jump_target :: "Instruction \<Rightarrow> Label option" where
  "jump_target (Jmp _ t) = Some t"
| "jump_target (CallLocal t _) = Some t"
| "jump_target _ = None"

definition seq_labels :: "InstructionSeq \<Rightarrow> Label set" where
  "seq_labels prog = fst ` set prog"

lemma seq_labels_simps [simp]: "seq_labels [] = {}" "seq_labels (x # xs) = insert (fst x) (seq_labels xs)"
  by (simp_all add: seq_labels_def)

text \<open>A position of the raw program that starts no instruction of its own.\<close>

definition inside_pair :: "EbpfInst list \<Rightarrow> nat \<Rightarrow> bool" where
  "inside_pair insts p \<longleftrightarrow> 0 < p \<and> shift_pair (insts ! (p - 1)) (insts ! p)"

lemma jump_target_makeAluOp: "makeAluOp a info pc inst = Inr (ns, i) \<Longrightarrow> jump_target i = None"
  by (auto elim!: makeAluOp_cases)

lemma jump_target_makeMemOp: "makeMemOp info pc inst = Inr (ns, i) \<Longrightarrow> jump_target i = None"
  by (auto simp: makeMemOp_def makePacket_def makeMem_def makeAtomic_def Let_def result_iffs split: if_splits)

lemma jump_target_makeLddw: "makeLddw info inst n insts pc = Inr i \<Longrightarrow> jump_target i = None"
  by (auto simp: makeLddw_def Let_def split: if_splits)

lemma jump_target_makeJmp:
  assumes "makeJmp info inst insts pc = Inr i" "jump_target i = Some t" "pc < 2 ^ 31"
  shows "\<exists>p < length insts. t = label_at (int p) \<and> opcode (insts ! p) \<noteq> 0"
proof -
  obtain off where "getJumpTarget off insts pc = Inr t"
    using assms(1,2)
    by (auto simp: makeJmp_def makeJmp_call_def makeJmp_exit_def makeJmp_default_def makeCallLocal_def makeCallx_def
        Let_def result_iffs split: if_splits)
  then show ?thesis using getJumpTarget_ok[OF _ assms(3)] by (intro exI[of _ "nat (int pc + 1 + sint off)"]) auto
qed

lemma unmarshal_step_target:
  assumes "unmarshal_step a info insts pc = Inr s" "jump_target (step_ins s) = Some t" "pc < length insts" "pc < 2 ^ 31"
  shows "\<exists>p < length insts. t = label_at (int p) \<and> opcode (insts ! p) \<noteq> 0"
proof -
  have "jump_target (step_ins s) = None" if "unmarshal_alu a info insts pc = Inr s"
    using that
    by (auto simp: unmarshal_alu_def Let_def result_iffs dest: jump_target_makeAluOp split: if_splits)
  then show ?thesis
    using assms jump_target_makeJmp[OF _ _ assms(4)]
    by (auto simp: unmarshal_step_def Let_def result_iffs dest: jump_target_makeMemOp jump_target_makeLddw split: if_splits)
qed

lemma unmarshal_step_skip:
  assumes "unmarshal_step a info insts pc = Inr s" "skip_instruction s" "pc < length insts"
  shows "pc + 1 < length insts \<and> (opcode (insts ! (pc + 1)) = 0 \<or> inside_pair insts (pc + 1))"
proof (cases "opcode (insts ! pc) = 0x18")
  case True
  then obtain i where "makeLddw info (insts ! pc) (if pc < length insts - 1 then imm (insts ! (pc + 1)) else 0) insts pc = Inr i"
    using assms(1) by (auto simp: unmarshal_step_def Let_def result_iffs)
  then show ?thesis by (auto simp: makeLddw_def Let_def split: if_splits)
next
  case False
  then have u: "unmarshal_alu a info insts pc = Inr s" "opcode (insts ! pc) AND 7 = 4 \<or> opcode (insts ! pc) AND 7 = 7"
    using assms(1,2) by (auto simp: unmarshal_step_def Let_def result_iffs split: if_splits)
  show ?thesis using alu_step[OF u(1) assms(3) u(2)] assms(2) by (simp add: inside_pair_def)
qed

lemma unmarshal_loop_end: "length insts \<le> pc \<Longrightarrow> unmarshal_loop a info insts pc = Inr ([], [])"
  by (subst unmarshal_loop.simps) simp

lemma unmarshal_loop_step:
  assumes "unmarshal_loop a info insts pc = Inr (prog, nts)" "pc < length insts"
  obtains s li rest nts' where "unmarshal_step a info insts pc = Inr s" "pc < 2 ^ 31"
    "unmarshal_loop a info insts (pc + (if skip_instruction s then 2 else 1)) = Inr (rest, nts')"
    "prog = (label_at (int pc), step_ins s, li) # rest"
proof -
  note d = assms(1)[unfolded unmarshal_loop.simps[of a info insts pc]]
  obtain s li l rest nts' where o: "unmarshal_step a info insts pc = Inr s" "gsl_narrow int32_t (int pc) = Inr l"
      "unmarshal_loop a info insts (if skip_instruction s then pc + 2 else pc + 1) = Inr (rest, nts')"
      "prog = (label_at l, step_ins s, li) # rest"
    using d assms(2) by (simp add: Let_def result_iffs not_le split: prod.splits) blast
  have l: "l = int pc" "pc < 2 ^ 31" using o(2) by (auto simp: gsl_narrow_iff in_ctype_def split: if_splits)
  have "(if skip_instruction s then pc + 2 else pc + 1) = pc + (if skip_instruction s then 2 else 1)" by simp
  then show thesis using that[OF o(1) l(2), of rest nts' li] o(3,4) l(1) by simp
qed

lemma unmarshal_loop_invariant:
  "unmarshal_loop a info insts pc = Inr (prog, nts) \<Longrightarrow>
   (\<forall>p. pc \<le> p \<and> p < length insts \<longrightarrow>
      label_at (int p) \<in> seq_labels prog \<or> opcode (insts ! p) = 0 \<or> inside_pair insts p) \<and>
   (\<forall>l \<in> seq_labels prog. \<exists>p. l = label_at (int p) \<and> pc \<le> p \<and> p < length insts \<and> p < 2 ^ 31) \<and>
   (\<forall>(l, ins, li) \<in> set prog. \<forall>t. jump_target ins = Some t \<longrightarrow>
      (\<exists>p < length insts. t = label_at (int p) \<and> opcode (insts ! p) \<noteq> 0))"
proof (induction "length insts - pc" arbitrary: pc prog nts rule: less_induct)
  case less
  show ?case
  proof (cases "pc < length insts")
    case False
    then show ?thesis using less.prems by (auto simp: unmarshal_loop_end)
  next
    case True
    obtain s li rest nts' where st: "unmarshal_step a info insts pc = Inr s" "pc < 2 ^ 31"
      "unmarshal_loop a info insts (pc + (if skip_instruction s then 2 else 1)) = Inr (rest, nts')"
      "prog = (label_at (int pc), step_ins s, li) # rest"
      by (rule unmarshal_loop_step[OF less.prems True])
    let ?k = "if skip_instruction s then 2 else 1 :: nat"
    have "length insts - (pc + ?k) < length insts - pc" using True by auto
    note ih = less.hyps[OF this st(3)]
    have "label_at (int p) \<in> seq_labels prog \<or> opcode (insts ! p) = 0 \<or> inside_pair insts p"
      if "pc \<le> p" "p < length insts" for p
    proof -
      consider "p = pc" | "p = pc + 1" "skip_instruction s" | "pc + ?k \<le> p" using \<open>pc \<le> p\<close>
        by (cases "skip_instruction s"; cases "p = pc"; cases "p = pc + 1") auto
      then show ?thesis
        by cases (use st(4) ih that unmarshal_step_skip[OF st(1) _ True] in auto)
    qed
    moreover have "\<exists>p. l = label_at (int p) \<and> pc \<le> p \<and> p < length insts \<and> p < 2 ^ 31"
      if l: "l \<in> seq_labels prog" for l
    proof (cases "l = label_at (int pc)")
      case False
      then obtain p where "l = label_at (int p)" "pc + ?k \<le> p" "p < length insts" "p < 2 ^ 31"
        using l st(4) ih by auto
      then show ?thesis by (intro exI[of _ p]) auto
    qed (use True st(2) in auto)
    ultimately show ?thesis using st(4) ih unmarshal_step_target[OF st(1) _ True st(2)] by auto
  qed
qed

section \<open>The round trip of a program\<close>

definition canonical_program :: "EbpfInst list \<Rightarrow> bool" where
  "canonical_program insts \<longleftrightarrow>
     list_all canonical insts \<and> list_all (\<lambda>p. \<not> inside_pair insts p) [0..<length insts]"

lemma canonical_program_no_pair:
  "canonical_program insts \<Longrightarrow> pc + 1 < length insts \<Longrightarrow> \<not> shift_pair (insts ! pc) (insts ! (pc + 1))"
  by (auto simp: canonical_program_def inside_pair_def list_all_iff dest: bspec[of _ _ "pc + 1"])

text \<open>The labels map of the encoder sends the label of a decoded instruction to its own position.\<close>

lemma decoded_size:
  assumes "marshal_ins pc ins = Inr es" "es \<noteq> []"
  shows "instruction_size ins = length es"
  using marshal_ins_length[OF assms(1)] assms(2) by (cases ins) auto

lemma unmarshal_loop_reencode:
  assumes "canonical_program insts"
  shows "unmarshal_loop a info insts pc = Inr (prog, nts) \<Longrightarrow> pc \<le> length insts \<Longrightarrow>
    (\<forall>l. get_labels_from pc m0 prog l = (if l \<in> seq_labels prog then Some (nat (label_from l)) else m0 l)) \<and>
    ((\<forall>(l, ins, li) \<in> set prog. relocate m ins = Inr ins) \<longrightarrow> marshal_loop m pc prog = Inr (drop pc insts))"
proof (induction "length insts - pc" arbitrary: pc prog nts m0 rule: less_induct)
  case less
  show ?case
  proof (cases "pc < length insts")
    case False
    then show ?thesis using less.prems by (auto simp: unmarshal_loop_end)
  next
    case True
    obtain s li rest nts' where st: "unmarshal_step a info insts pc = Inr s" "pc < 2 ^ 31"
      "unmarshal_loop a info insts (pc + (if skip_instruction s then 2 else 1)) = Inr (rest, nts')"
      "prog = (label_at (int pc), step_ins s, li) # rest"
      by (rule unmarshal_loop_step[OF less.prems(1) True])
    let ?k = "if skip_instruction s then 2 else 1 :: nat"
    have "canonical (insts ! pc)" using assms True by (simp add: canonical_program_def list_all_length)
    then have re: "marshal_ins pc (step_ins s) = Inr (take ?k (drop pc insts))" "pc + ?k \<le> length insts"
      using unmarshal_step_reencode[OF st(1) True st(2)] canonical_program_no_pair[OF assms] by auto
    have len: "length (take ?k (drop pc insts)) = ?k" using re(2) by auto
    moreover from this have "take ?k (drop pc insts) \<noteq> []" by (auto split: if_splits)
    ultimately have size: "instruction_size (step_ins s) = ?k" using decoded_size[OF re(1)] by simp
    have "length insts - (pc + ?k) < length insts - pc" using True by auto
    note ih = less.hyps[OF this st(3) re(2)]
    have "drop pc insts = take ?k (drop pc insts) @ drop (pc + ?k) insts"
      by (metis append_take_drop_id drop_drop add.commute)
    then show ?thesis using ih st(4) re(1) len size by auto
  qed
qed

lemma unmarshal_marshal:
  assumes "canonical_program insts" "unmarshal_prog a info insts = Inr (prog, nts)"
  shows "marshal prog = Inr insts"
proof -
  obtain nts' where l: "unmarshal_loop a info insts 0 = Inr (prog, nts')"
    using assms(2) by (auto simp: unmarshal_prog_def result_iffs split: if_splits)
  note inv = unmarshal_loop_invariant[OF l]
  note re = unmarshal_loop_reencode[OF assms(1) l]
  have gl: "get_labels prog t = Some (nat (label_from t))" if "t \<in> seq_labels prog" for t
    using re that by (simp add: get_labels_def)
  have "relocate (get_labels prog) ins = Inr ins" if i: "(l, ins, li) \<in> set prog" for l ins li
  proof (cases "\<exists>c t. ins = Jmp c t")
    case True
    then obtain c t where j: "ins = Jmp c t" by blast
    then obtain p where p: "p < length insts" "t = label_at (int p)" "opcode (insts ! p) \<noteq> 0"
      using inv i by fastforce
    have "label_at (int p) \<in> seq_labels prog"
      using inv p assms(1) by (auto simp: canonical_program_def list_all_iff)
    moreover from this have "in_ctype int32_t (int p)" using inv by (auto simp: in_ctype_def)
    ultimately show ?thesis using j p gl by (auto simp: gsl_narrow_iff)
  next
    case False
    then show ?thesis by (cases ins) auto
  qed
  then have "\<forall>x\<in>set prog. case x of (l, ins, li) \<Rightarrow> relocate (get_labels prog) ins = Inr ins" by auto
  then show ?thesis using re[of Map.empty "get_labels prog"] by (simp add: marshal_def)
qed

lemma unmarshal_progD:
  "unmarshal a info insts = Inr (Inr (prog, nts)) \<Longrightarrow> unmarshal_prog a info insts = Inr (prog, nts)"
  by (auto simp: unmarshal_def split: sum.splits error.splits)

lemma unmarshal_loopD:
  "unmarshal_prog a info insts = Inr (prog, nts) \<Longrightarrow> \<exists>nts'. unmarshal_loop a info insts 0 = Inr (prog, nts')"
  by (auto simp: unmarshal_prog_def result_iffs split: if_splits)

section \<open>Helper calls\<close>

definition call_regs :: "Call \<Rightarrow> Reg list" where
  "call_regs c = map single_reg (singles c) @ concat (map (\<lambda>p. [pair_mem p, pair_size p]) (pairs c))"

definition regs_below :: "nat \<Rightarrow> Call \<Rightarrow> bool" where
  "regs_below i c \<longleftrightarrow> distinct (call_regs c) \<and> (\<forall>r\<in>set (call_regs c). 1 \<le> unat r \<and> unat r < i)"

lemma regs_below_mono: "regs_below i c \<Longrightarrow> i \<le> j \<Longrightarrow> regs_below j c"
  by (auto simp: regs_below_def)

lemma unat_small: "i \<le> 6 \<Longrightarrow> unat (of_nat i :: Reg) = i"
  by (simp add: unat_of_nat)

lemma call_regs_single:
  "set (call_regs (res\<lparr>singles := singles res @ [s]\<rparr>)) = insert (single_reg s) (set (call_regs res))"
  "distinct (call_regs (res\<lparr>singles := singles res @ [s]\<rparr>)) \<longleftrightarrow>
     single_reg s \<notin> set (call_regs res) \<and> distinct (call_regs res)"
  by (auto simp: call_regs_def)

lemma call_regs_pair:
  "set (call_regs (res\<lparr>pairs := pairs res @ [p]\<rparr>)) = {pair_mem p, pair_size p} \<union> set (call_regs res)"
  "distinct (call_regs (res\<lparr>pairs := pairs res @ [p]\<rparr>)) \<longleftrightarrow>
     pair_mem p \<noteq> pair_size p \<and> pair_mem p \<notin> set (call_regs res) \<and> pair_size p \<notin> set (call_regs res) \<and>
     distinct (call_regs res)"
  by (auto simp: call_regs_def)

lemma regs_below_single:
  assumes "regs_below i res" "1 \<le> i" "i \<le> 5" "single_reg s = of_nat i"
  shows "regs_below (Suc i) (res\<lparr>singles := singles res @ [s]\<rparr>)"
  using assms unat_small[of i] unfolding regs_below_def call_regs_single by auto

lemma regs_below_pair:
  assumes "regs_below i res" "1 \<le> i" "i \<le> 4" "pair_mem p = of_nat i" "pair_size p = of_nat (i + 1)"
  shows "regs_below (i + 2) (res\<lparr>pairs := pairs res @ [p]\<rparr>)"
proof -
  have u: "unat (pair_mem p) = i" "unat (pair_size p) = i + 1"
    using assms unat_small[of i] unat_small[of "i + 1"] by simp_all
  then have "pair_mem p \<noteq> pair_size p" by auto
  then show ?thesis using assms(1,2) u unfolding regs_below_def call_regs_pair by auto
qed

lemma makeCall_args_regs:
  assumes "makeCall_args name i ts res = Inr c" "regs_below i res" "1 \<le> i" "i + length ts \<le> 7"
    "ts \<noteq> []" "last ts = EBPF_ARGUMENT_TYPE_DONTCARE"
  shows "regs_below 6 c"
  using assms
proof (induction name i ts res rule: makeCall_args.induct)
  case (1 name i a b rest res)
  note pr = 1(3-8)
  consider (stop) "a = EBPF_ARGUMENT_TYPE_DONTCARE" | (single) "a \<noteq> EBPF_ARGUMENT_TYPE_DONTCARE" "plain_single a \<or> nullable_single a"
    | (pair) "a \<noteq> EBPF_ARGUMENT_TYPE_DONTCARE" "\<not> (plain_single a \<or> nullable_single a)" by blast
  then show ?case
  proof cases
    case stop
    then show ?thesis using pr by (auto intro: regs_below_mono)
  next
    case single
    then have na: "a \<noteq> EBPF_ARGUMENT_TYPE_UNSUPPORTED" by (auto simp: plain_single_def nullable_single_def)
    show ?thesis
      by (rule 1(1)[OF na single]) (use pr na single regs_below_single[OF pr(2,3)] in auto)
  next
    case pair
    have na: "a \<noteq> EBPF_ARGUMENT_TYPE_UNSUPPORTED" "a \<noteq> EBPF_ARGUMENT_TYPE_CONST_SIZE"
        "a \<noteq> EBPF_ARGUMENT_TYPE_CONST_SIZE_OR_ZERO"
        and nb: "\<not> (b \<noteq> EBPF_ARGUMENT_TYPE_CONST_SIZE \<and> b \<noteq> EBPF_ARGUMENT_TYPE_CONST_SIZE_OR_ZERO)"
      using pr(1) pair by (auto split: if_splits)
    have rest: "rest \<noteq> []" using pr(6) nb by auto
    then have "i \<le> 4" using pr(4) by (cases rest) auto
    then show ?thesis
      by (intro 1(2)[OF na(1) pair na(2,3) nb])
        (use pr na nb pair rest regs_below_pair[OF pr(2,3)] in auto)
  qed
qed (auto intro: regs_below_mono)

lemma makeCall_regs:
  assumes "makeCall info i = Inr c" "length (argument_type (get_helper_prototype (platform info) i)) = 5"
  shows "regs_below 6 c"
proof -
  let ?res = "\<lparr>func = i, call_name = proto_name (get_helper_prototype (platform info) i),
    is_map_lookup = (return_type (get_helper_prototype (platform info) i) = EBPF_RETURN_TYPE_PTR_TO_MAP_VALUE_OR_NULL),
    reallocate_packet = proto_reallocate_packet (get_helper_prototype (platform info) i), singles = [], pairs = [],
    call_stack_frame_prefix = []\<rparr>"
  have "regs_below 1 ?res" by (simp add: regs_below_def call_regs_def)
  moreover have "makeCall_args (proto_name (get_helper_prototype (platform info) i)) 1
      (argument_type (get_helper_prototype (platform info) i) @ [EBPF_ARGUMENT_TYPE_DONTCARE]) ?res = Inr c"
    using assms(1) by (simp add: makeCall_def Let_def split: if_splits)
  ultimately show ?thesis by (intro makeCall_args_regs) (use assms(2) in auto)
qed

end
