(* ===== verification/Codec_Props.thy ===== *)
theory Codec_Props
  imports Roundtrip
begin

unbundle bit_operations_syntax

text \<open>
  Properties of the decoder and the encoder (\<^verbatim>\<open>ir/unmarshal.cpp\<close>, \<^verbatim>\<open>ir/marshal.cpp\<close>), with a
  platform and small programs on which they are evaluated.
\<close>

section \<open>A platform and programs for evaluation\<close>

definition lookup_prototype :: EbpfHelperPrototype where
  "lookup_prototype =
     \<lparr>proto_name = ''map_lookup_elem'', return_type = EBPF_RETURN_TYPE_PTR_TO_MAP_VALUE_OR_NULL,
      argument_type = [EBPF_ARGUMENT_TYPE_PTR_TO_MAP, EBPF_ARGUMENT_TYPE_PTR_TO_MAP_KEY, EBPF_ARGUMENT_TYPE_DONTCARE,
                       EBPF_ARGUMENT_TYPE_DONTCARE, EBPF_ARGUMENT_TYPE_DONTCARE],
      proto_reallocate_packet = False, proto_unsupported = False\<rparr>"

definition demo_info :: ProgramInfo where
  "demo_info =
     \<lparr>platform = \<lparr>get_helper_prototype = (\<lambda>_. lookup_prototype), is_helper_usable = (\<lambda>n. n = 1),
                  supports_group = (\<lambda>_. True)\<rparr>,
      is_privileged = False, line_info = []\<rparr>"

text \<open>\<^verbatim>\<open>r1 = 7 ll; if r1 == 7 goto exit; call 1; exit\<close>.\<close>

definition demo_program :: "EbpfInst list" where
  "demo_program =
     [raw 0x18 1 0 0 7, raw 0 0 0 0 0, raw 0x15 1 0 1 7, raw 0x85 0 0 0 1, raw 0x95 0 0 0 0]"

definition demo_decoded :: InstructionSeq where
  "demo_decoded =
     [(label_at 0, Bin \<lparr>bin_op = MOV, bin_dst = 1, bin_v = Imm 7, bin_is64 = True, bin_lddw = True\<rparr>, None),
      (label_at 2, Jmp (Some \<lparr>cond_op = EQ, cond_left = 1, cond_right = Imm 7, cond_is64 = True\<rparr>) (label_at 4), None),
      (label_at 3, Call \<lparr>func = 1, call_name = ''map_lookup_elem'', is_map_lookup = True, reallocate_packet = False,
         singles = [\<lparr>single_kind = MAP_FD, single_or_null = False, single_reg = 1\<rparr>,
                    \<lparr>single_kind = PTR_TO_MAP_KEY, single_or_null = False, single_reg = 2\<rparr>],
         pairs = [], call_stack_frame_prefix = ''''\<rparr>, None),
      (label_at 4, Exit '''', None)]"

lemma demo_unmarshal: "unmarshal False demo_info demo_program = Inr (Inr (demo_decoded, [[], [], [], [], [], []]))"
  by code_simp

lemma demo_canonical: "canonical_program demo_program"
  by code_simp

section \<open>Properties\<close>

text \<open>
  C7. A canonical program that decodes is encoded back to exactly the raw instructions it came
  from: no field is lost on the way, jump offsets and wide immediates included.
\<close>

theorem unmarshal_marshal_roundtrip:
  assumes "canonical_program insts" "unmarshal allow0 info insts = Inr (Inr (prog, notes))"
  shows "marshal prog = Inr insts"
  using unmarshal_marshal[OF assms(1) unmarshal_progD[OF assms(2)]] .

theorem unmarshal_marshal_roundtrip_witness: "marshal demo_decoded = Inr demo_program"
  using unmarshal_marshal_roundtrip[OF demo_canonical demo_unmarshal] .

text \<open>
  C8. The jump and call targets of a decoded program are labels of its instructions, or the
  second half of a pair of shifts that the decoder merged.
\<close>

theorem unmarshal_jump_targets:
  assumes "unmarshal allow0 info insts = Inr (Inr (prog, notes))" "(l, ins, li) \<in> set prog" "jump_target ins = Some t"
  shows "t \<in> seq_labels prog \<or> (\<exists>p < length insts. t = label_at (int p) \<and> inside_pair insts p)"
proof -
  obtain nts' where l: "unmarshal_loop allow0 info insts 0 = Inr (prog, nts')"
    using unmarshal_loopD[OF unmarshal_progD[OF assms(1)]] by blast
  note inv = unmarshal_loop_invariant[OF l]
  obtain p where "p < length insts" "t = label_at (int p)" "opcode (insts ! p) \<noteq> 0"
    using inv assms(2,3) by blast
  then show ?thesis using inv by auto
qed

theorem unmarshal_jump_targets_witness: "label_at 4 \<in> seq_labels demo_decoded \<or>
   (\<exists>p < length demo_program. label_at 4 = label_at (int p) \<and> inside_pair demo_program p)"
  using unmarshal_jump_targets[OF demo_unmarshal, of "label_at 2"
      "Jmp (Some \<lparr>cond_op = EQ, cond_left = 1, cond_right = Imm 7, cond_is64 = True\<rparr>) (label_at 4)" None "label_at 4"]
  by (simp add: demo_decoded_def)



text \<open>
  C30. The arguments of a helper call: for a prototype with five argument types, the registers of
  the decoded call are pairwise distinct and all among \<^verbatim>\<open>R1\<close> to \<^verbatim>\<open>R5\<close>.
\<close>

theorem makeCall_argument_registers:
  assumes "makeCall info i = Inr c" "length (argument_type (get_helper_prototype (platform info) i)) = 5"
  shows "func c = i \<and> distinct (call_regs c) \<and> (\<forall>r\<in>set (call_regs c). 1 \<le> unat r \<and> unat r \<le> 5)"
  using makeCall_regs[OF assms] makeCall_func[OF assms(1)] by (auto simp: regs_below_def)

theorem makeCall_argument_registers_witness:
  "\<exists>c. makeCall demo_info 1 = Inr c \<and> func c = 1 \<and> distinct (call_regs c)"
proof -
  have "is_ok (makeCall demo_info 1)" by code_simp
  then obtain c where "makeCall demo_info 1 = Inr c" by (auto simp: is_ok_iff)
  then show ?thesis
    using makeCall_argument_registers[of demo_info 1 c] by (auto simp: demo_info_def lookup_prototype_def)
qed

end
