(* ===== verification/Containers.thy ===== *)
theory Containers
  imports Prelude
begin

text \<open>
  The ordered containers of the C++ library that the program uses, as sorted lists: a
  \<^verbatim>\<open>std::set\<close> is a strictly increasing list, a \<^verbatim>\<open>std::map\<close> a list of pairs with strictly
  increasing keys, so that iteration visits them in the order the code sees. The locales
  \<open>ordered_set\<close> and \<open>ordered_map\<close> state what the clients rely on; the interpretations discharge
  it for the lists.
\<close>

section \<open>Contracts\<close>

locale ordered_set =
  fixes invar :: "'s \<Rightarrow> bool" and elems :: "'s \<Rightarrow> 'a set" and ins :: "'a \<Rightarrow> 's \<Rightarrow> 's" and del :: "'a \<Rightarrow> 's \<Rightarrow> 's"
  assumes invar_ins: "invar s \<Longrightarrow> invar (ins x s)"
    and invar_del: "invar s \<Longrightarrow> invar (del x s)"
    and elems_ins: "elems (ins x s) = insert x (elems s)"
    and elems_del: "elems (del x s) = elems s - {x}"
begin

lemma elems_ins_del: "elems (ins x (del x s)) = elems (ins x s)"
  by (simp add: elems_ins elems_del)

lemma invar_fold_ins: "invar s \<Longrightarrow> invar (fold ins xs s)" and elems_fold_ins: "elems (fold ins xs s) = set xs \<union> elems s"
  by (induction xs arbitrary: s) (auto simp: invar_ins elems_ins)

end

locale ordered_map =
  fixes invar :: "'m \<Rightarrow> bool" and lookup :: "'m \<Rightarrow> 'k \<Rightarrow> 'v option" and update :: "'k \<Rightarrow> 'v \<Rightarrow> 'm \<Rightarrow> 'm"
    and keys :: "'m \<Rightarrow> 'k set"
  assumes invar_update: "invar m \<Longrightarrow> invar (update k v m)"
    and lookup_update: "invar m \<Longrightarrow> lookup (update k v m) = (lookup m)(k \<mapsto> v)"
    and keys_dom: "keys m = dom (lookup m)"
begin

lemma keys_update: "invar m \<Longrightarrow> keys (update k v m) = insert k (keys m)"
  by (simp add: keys_dom lookup_update)

lemma lookup_update_same: "invar m \<Longrightarrow> lookup (update k v m) k = Some v"
  and lookup_update_other: "invar m \<Longrightarrow> j \<noteq> k \<Longrightarrow> lookup (update k v m) j = lookup m j"
  by (simp_all add: lookup_update)

lemma not_key_iff: "k \<notin> keys m \<longleftrightarrow> lookup m k = None"
  by (auto simp: keys_dom)

end

section \<open>Sets\<close>

fun os_insert :: "'a::linorder \<Rightarrow> 'a list \<Rightarrow> 'a list" where
  "os_insert x [] = [x]"
| "os_insert x (y # ys) = (if x < y then x # y # ys else if x = y then y # ys else y # os_insert x ys)"

definition os_erase :: "'a \<Rightarrow> 'a list \<Rightarrow> 'a list" where
  "os_erase x xs = filter (\<lambda>y. y \<noteq> x) xs"

definition os_wf :: "'a::linorder list \<Rightarrow> bool" where
  "os_wf xs \<longleftrightarrow> sorted_wrt (<) xs"

lemma set_os_insert [simp]: "set (os_insert x xs) = insert x (set xs)"
  by (induction xs) auto

lemma set_os_erase [simp]: "set (os_erase x xs) = set xs - {x}"
  by (auto simp: os_erase_def)

lemma os_wf_insert: "os_wf xs \<Longrightarrow> os_wf (os_insert x xs)"
  by (induction xs) (auto simp: os_wf_def)

lemma os_wf_erase: "os_wf xs \<Longrightarrow> os_wf (os_erase x xs)"
  by (simp add: os_wf_def os_erase_def sorted_wrt_filter)

interpretation os: ordered_set os_wf set os_insert os_erase
  by unfold_locales (simp_all add: os_wf_insert os_wf_erase)

lemma os_wf_distinct: "os_wf xs \<Longrightarrow> distinct xs"
  by (induction xs) (auto simp: os_wf_def)

text \<open>An ordered set is determined by its elements.\<close>

lemma os_wf_unique: "os_wf xs \<Longrightarrow> os_wf ys \<Longrightarrow> set xs = set ys \<Longrightarrow> xs = ys"
  unfolding os_wf_def strict_sorted_iff by (metis sorted_distinct_set_unique)

lemma os_insert_absorb: "os_wf xs \<Longrightarrow> x \<in> set xs \<Longrightarrow> os_insert x xs = xs"
  by (rule os_wf_unique) (auto simp: os_wf_insert)

section \<open>Maps\<close>

abbreviation om_lookup :: "('k \<times> 'v) list \<Rightarrow> 'k \<Rightarrow> 'v option" where
  "om_lookup \<equiv> map_of"

fun om_update :: "'k::linorder \<Rightarrow> 'v \<Rightarrow> ('k \<times> 'v) list \<Rightarrow> ('k \<times> 'v) list" where
  "om_update k v [] = [(k, v)]"
| "om_update k v ((j, w) # m) =
     (if k < j then (k, v) # (j, w) # m else if k = j then (k, v) # m else (j, w) # om_update k v m)"

definition om_keys :: "('k \<times> 'v) list \<Rightarrow> 'k list" where
  "om_keys m = map fst m"

definition om_wf :: "('k::linorder \<times> 'v) list \<Rightarrow> bool" where
  "om_wf m \<longleftrightarrow> sorted_wrt (<) (map fst m)"

lemma om_keys_update [simp]: "om_keys (om_update k v m) = os_insert k (om_keys m)"
  by (induction m) (auto simp: om_keys_def)

lemma om_keys_wf: "om_wf m \<longleftrightarrow> os_wf (om_keys m)"
  by (simp add: om_wf_def os_wf_def om_keys_def)

lemma om_wf_update: "om_wf m \<Longrightarrow> om_wf (om_update k v m)"
  by (simp add: om_keys_wf os_wf_insert)

lemma om_lookup_update: "om_wf m \<Longrightarrow> om_lookup (om_update k v m) = (om_lookup m)(k \<mapsto> v)"
  by (induction m) (auto simp: om_wf_def)

interpretation om: ordered_map om_wf om_lookup om_update "\<lambda>m. set (om_keys m)"
  by unfold_locales (simp_all add: om_wf_update om_lookup_update om_keys_def dom_map_of_conv_image_fst)

end
