(* ===== verification/Cfg.thy ===== *)
theory Cfg
  imports Containers Asm_Syntax Unmarshal
begin

text \<open>
  The control-flow graph (\<^verbatim>\<open>cfg/cfg.hpp\<close>), the program around it (\<^verbatim>\<open>ir/program.hpp\<close>) and the
  editing operations of \<^verbatim>\<open>CfgBuilder\<close> (\<^verbatim>\<open>ir/cfg_builder.cpp\<close>). \<open>cfg_inv\<close> is the invariant of
  the graph: every edge is recorded at both ends and joins nodes of the graph.
\<close>

section \<open>Graphs\<close>

record Adjacent =
  parents :: "Label list"
  children :: "Label list"

definition no_adjacent :: Adjacent where
  "no_adjacent = \<lparr>parents = [], children = []\<rparr>"

type_synonym Cfg = "(Label \<times> Adjacent) list"

definition empty_cfg :: Cfg where
  "empty_cfg = [(label_entry, no_adjacent), (label_exit, no_adjacent)]"

definition cfg_contains :: "Cfg \<Rightarrow> Label \<Rightarrow> bool" where
  "cfg_contains g l \<longleftrightarrow> om_lookup g l \<noteq> None"

definition get_node :: "Cfg \<Rightarrow> Label \<Rightarrow> Adjacent result" where
  "get_node g l = (case om_lookup g l of None \<Rightarrow> Inl (Crab_Error ''Label not found in the CFG: '') | Some a \<Rightarrow> Inr a)"

definition children_of :: "Cfg \<Rightarrow> Label \<Rightarrow> Label list result" where
  "children_of g l = rmap children (get_node g l)"

definition parents_of :: "Cfg \<Rightarrow> Label \<Rightarrow> Label list result" where
  "parents_of g l = rmap parents (get_node g l)"

definition cfg_labels :: "Cfg \<Rightarrow> Label list" where
  "cfg_labels g = om_keys g"

definition in_degree :: "Cfg \<Rightarrow> Label \<Rightarrow> nat result" where
  "in_degree g l = rmap (\<lambda>a. length (parents a)) (get_node g l)"

definition out_degree :: "Cfg \<Rightarrow> Label \<Rightarrow> nat result" where
  "out_degree g l = rmap (\<lambda>a. length (children a)) (get_node g l)"

definition get_child :: "Cfg \<Rightarrow> Label \<Rightarrow> Label result" where
  "get_child g l =
     rbind (out_degree g l) (\<lambda>d.
       if d \<noteq> 1 then Inl (Crab_Error ''Label does not have a single child'') else rmap hd (children_of g l))"

definition get_parent :: "Cfg \<Rightarrow> Label \<Rightarrow> Label result" where
  "get_parent g l =
     rbind (in_degree g l) (\<lambda>d.
       if d \<noteq> 1 then Inl (Crab_Error ''Label does not have a single parent'') else rmap hd (parents_of g l))"

definition num_siblings :: "Cfg \<Rightarrow> Label \<Rightarrow> nat result" where
  "num_siblings g l = rbind (get_parent g l) (out_degree g)"

section \<open>Programs\<close>

record Program =
  m_instructions :: "(Label \<times> Instruction) list"
  m_assertions :: "(Label \<times> Assertion list) list"
  m_cfg :: Cfg

definition empty_program :: Program where
  "empty_program =
     \<lparr>m_instructions = [(label_entry, Undefined 0), (label_exit, Undefined 0)],
      m_assertions = [(label_entry, []), (label_exit, [])], m_cfg = empty_cfg\<rparr>"

definition instruction_at :: "Program \<Rightarrow> Label \<Rightarrow> Instruction result" where
  "instruction_at p l =
     (case om_lookup (m_instructions p) l of
        None \<Rightarrow> Inl (Crab_Error ''Label not found in the CFG: '') | Some i \<Rightarrow> Inr i)"

definition assertions_at :: "Program \<Rightarrow> Label \<Rightarrow> Assertion list result" where
  "assertions_at p l =
     (case om_lookup (m_assertions p) l of
        None \<Rightarrow> Inl (Crab_Error ''Label not found in the CFG: '') | Some a \<Rightarrow> Inr a)"

text \<open>\<^verbatim>\<open>std::map::emplace\<close> keeps an existing entry.\<close>

definition om_emplace :: "'k::linorder \<Rightarrow> 'v \<Rightarrow> ('k \<times> 'v) list \<Rightarrow> ('k \<times> 'v) list" where
  "om_emplace k v m = (if om_lookup m k = None then om_update k v m else m)"

section \<open>Editing\<close>

definition cfg_insert :: "Label \<Rightarrow> Instruction \<Rightarrow> Program \<Rightarrow> Program result" where
  "cfg_insert l ins p =
     (if cfg_contains (m_cfg p) l then Inl (Crab_Error ''Label already exists'')
      else Inr (p\<lparr>m_cfg := om_emplace l no_adjacent (m_cfg p),
                  m_instructions := om_emplace l ins (m_instructions p)\<rparr>))"

definition link :: "Label \<Rightarrow> Label \<Rightarrow> Cfg \<Rightarrow> Cfg result" where
  "link a b g =
     (case om_lookup g a of
        None \<Rightarrow> Inl Out_Of_Range
      | Some na \<Rightarrow>
          let g1 = om_update a (na\<lparr>children := os_insert b (children na)\<rparr>) g
          in (case om_lookup g1 b of
                None \<Rightarrow> Inl Out_Of_Range
              | Some nb \<Rightarrow> Inr (om_update b (nb\<lparr>parents := os_insert a (parents nb)\<rparr>) g1)))"

definition add_child :: "Label \<Rightarrow> Label \<Rightarrow> Program \<Rightarrow> Program result" where
  "add_child a b p =
     (if b = label_entry \<or> a = label_exit then Inl Assert_Failed
      else rmap (\<lambda>g. p\<lparr>m_cfg := g\<rparr>) (link a b (m_cfg p)))"

definition erase_child :: "Label \<Rightarrow> Label \<Rightarrow> Cfg \<Rightarrow> Cfg result" where
  "erase_child a b g = rmap (\<lambda>na. om_update a (na\<lparr>children := os_erase b (children na)\<rparr>) g) (get_node g a)"

definition erase_parent :: "Label \<Rightarrow> Label \<Rightarrow> Cfg \<Rightarrow> Cfg result" where
  "erase_parent a b g = rmap (\<lambda>nb. om_update b (nb\<lparr>parents := os_erase a (parents nb)\<rparr>) g) (get_node g b)"

definition remove_child :: "Label \<Rightarrow> Label \<Rightarrow> Program \<Rightarrow> Program result" where
  "remove_child a b p =
     rmap (\<lambda>g. p\<lparr>m_cfg := g\<rparr>) (rbind (erase_child a b (m_cfg p)) (erase_parent a b))"

definition insert_jump :: "Label \<Rightarrow> Label \<Rightarrow> Instruction \<Rightarrow> Program \<Rightarrow> Program result" where
  "insert_jump a b ins p =
     (let jump_label = make_jump a b
      in if cfg_contains (m_cfg p) jump_label then Inl (Crab_Error ''Jump label already exists'')
         else rbind (cfg_insert jump_label ins p) (\<lambda>p.
              rbind (add_child a jump_label p) (add_child jump_label b)))"

definition insert_after :: "Label \<Rightarrow> Label \<Rightarrow> Instruction \<Rightarrow> Program \<Rightarrow> Program result" where
  "insert_after prev_label new_label ins p =
     (if prev_label = new_label then Inl (Crab_Error ''Cannot insert after the same label'')
      else rbind (get_node (m_cfg p) prev_label) (\<lambda>n.
        let prev_children = children n;
            g = om_update prev_label (n\<lparr>children := []\<rparr>) (m_cfg p)
        in rbind (rfold (erase_parent prev_label) prev_children g) (\<lambda>g.
           rbind (cfg_insert new_label ins (p\<lparr>m_cfg := g\<rparr>)) (\<lambda>p.
             rfold (\<lambda>next_label p. rbind (add_child prev_label new_label p) (add_child new_label next_label))
               prev_children p))))"

definition set_assertions :: "Label \<Rightarrow> Assertion list \<Rightarrow> Program \<Rightarrow> Program result" where
  "set_assertions l as p =
     (if \<not> cfg_contains (m_cfg p) l then Inl (Crab_Error ''Label not found in the CFG: '')
      else Inr (p\<lparr>m_assertions := om_update l as (m_assertions p)\<rparr>))"

definition cfg_from_adjacency_list :: "(Label \<times> Label list) list \<Rightarrow> Cfg result" where
  "cfg_from_adjacency_list adj =
     rbind (rfold (\<lambda>l p. if l = label_entry \<or> l = label_exit then Inr p else cfg_insert l (Undefined 0) p)
              (om_keys adj) empty_program) (\<lambda>p.
       rmap m_cfg (rfold (\<lambda>(l, cs) p. rfold (\<lambda>child. add_child l child) cs p) adj p))"

section \<open>Invariant\<close>

text \<open>The edges as a relation, seen from the children and from the parents.\<close>

definition edge :: "Cfg \<Rightarrow> Label \<Rightarrow> Label \<Rightarrow> bool" where
  "edge g a b \<longleftrightarrow> (case om_lookup g a of None \<Rightarrow> False | Some n \<Rightarrow> b \<in> set (children n))"

definition back_edge :: "Cfg \<Rightarrow> Label \<Rightarrow> Label \<Rightarrow> bool" where
  "back_edge g a b \<longleftrightarrow> (case om_lookup g b of None \<Rightarrow> False | Some n \<Rightarrow> a \<in> set (parents n))"

definition adjacent_wf :: "Adjacent \<Rightarrow> bool" where
  "adjacent_wf n \<longleftrightarrow> os_wf (parents n) \<and> os_wf (children n)"

definition cfg_inv :: "Cfg \<Rightarrow> bool" where
  "cfg_inv g \<longleftrightarrow> om_wf g \<and> (\<forall>l n. om_lookup g l = Some n \<longrightarrow> adjacent_wf n) \<and>
     (\<forall>a b. edge g a b \<longleftrightarrow> back_edge g a b)"

text \<open>
  The invariant of a program under construction: a consistent graph with the entry and the exit,
  no edge into the entry or out of the exit, an instruction at every label and at no other, and
  assertions only at labels.
\<close>

definition program_inv :: "Program \<Rightarrow> bool" where
  "program_inv p \<longleftrightarrow> cfg_inv (m_cfg p) \<and> om_wf (m_instructions p) \<and> om_wf (m_assertions p) \<and>
     set (om_keys (m_instructions p)) = set (cfg_labels (m_cfg p)) \<and>
     set (om_keys (m_assertions p)) \<subseteq> set (cfg_labels (m_cfg p)) \<and>
     label_entry \<in> set (cfg_labels (m_cfg p)) \<and> label_exit \<in> set (cfg_labels (m_cfg p)) \<and>
     (\<forall>a. \<not> edge (m_cfg p) a label_entry \<and> \<not> edge (m_cfg p) label_exit a)"

lemma edge_contains: "cfg_inv g \<Longrightarrow> edge g a b \<Longrightarrow> cfg_contains g a \<and> cfg_contains g b"
  unfolding cfg_inv_def by (metis back_edge_def cfg_contains_def edge_def option.simps(4))

lemma cfg_contains_iff: "cfg_contains g l \<longleftrightarrow> l \<in> set (cfg_labels g)"
  by (auto simp: cfg_contains_def cfg_labels_def om.keys_dom)

section \<open>Effect of the operations on the edges\<close>

lemma edge_update [simp]:
  "om_wf g \<Longrightarrow> edge (om_update a n g) x y \<longleftrightarrow> (if x = a then y \<in> set (children n) else edge g x y)"
  by (auto simp: edge_def om_lookup_update)

lemma back_edge_update [simp]:
  "om_wf g \<Longrightarrow> back_edge (om_update b n g) x y \<longleftrightarrow> (if y = b then x \<in> set (parents n) else back_edge g x y)"
  by (auto simp: back_edge_def om_lookup_update)

lemma labels_update [simp]: "set (cfg_labels (om_update a n g)) = insert a (set (cfg_labels g))"
  by (simp add: cfg_labels_def)

lemma lookup_label: "om_lookup g l = Some n \<Longrightarrow> l \<in> set (cfg_labels g)"
  by (auto simp: cfg_labels_def om.keys_dom)

lemma edge_lookup: "om_lookup g a = Some n \<Longrightarrow> edge g a b \<longleftrightarrow> b \<in> set (children n)"
  and back_edge_lookup: "om_lookup g b = Some n \<Longrightarrow> back_edge g a b \<longleftrightarrow> a \<in> set (parents n)"
  by (simp_all add: edge_def back_edge_def)

text \<open>Everything the invariant asks for except that the two directions agree.\<close>

definition cfg_shape :: "Cfg \<Rightarrow> bool" where
  "cfg_shape g \<longleftrightarrow> om_wf g \<and> (\<forall>l n. om_lookup g l = Some n \<longrightarrow> adjacent_wf n)"

lemma cfg_inv_shape: "cfg_inv g \<longleftrightarrow> cfg_shape g \<and> (\<forall>a b. edge g a b \<longleftrightarrow> back_edge g a b)"
  by (auto simp: cfg_inv_def cfg_shape_def)

lemma cfg_shape_update: "cfg_shape g \<Longrightarrow> adjacent_wf n \<Longrightarrow> cfg_shape (om_update a n g)"
  by (auto simp: cfg_shape_def om_wf_update om_lookup_update split: if_splits)

lemma cfg_shape_wf [simp]: "cfg_shape g \<Longrightarrow> om_wf g"
  by (simp add: cfg_shape_def)

lemma cfg_shape_lookup: "cfg_shape g \<Longrightarrow> om_lookup g l = Some n \<Longrightarrow> adjacent_wf n"
  by (simp add: cfg_shape_def)

lemma adjacent_wf_edit:
  "adjacent_wf n \<Longrightarrow> adjacent_wf (n\<lparr>children := os_insert x (children n)\<rparr>)"
  "adjacent_wf n \<Longrightarrow> adjacent_wf (n\<lparr>parents := os_insert x (parents n)\<rparr>)"
  "adjacent_wf n \<Longrightarrow> adjacent_wf (n\<lparr>children := os_erase x (children n)\<rparr>)"
  "adjacent_wf n \<Longrightarrow> adjacent_wf (n\<lparr>parents := os_erase x (parents n)\<rparr>)"
  "adjacent_wf n \<Longrightarrow> adjacent_wf (n\<lparr>children := []\<rparr>)" "adjacent_wf no_adjacent"
  by (simp_all add: adjacent_wf_def os_wf_insert os_wf_erase no_adjacent_def) (simp_all add: os_wf_def)

lemma link_spec:
  assumes "link a b g = Inr g'" "cfg_inv g"
  shows "cfg_inv g' \<and> cfg_contains g a \<and> cfg_contains g b \<and> set (cfg_labels g') = set (cfg_labels g) \<and>
    (\<forall>x y. edge g' x y \<longleftrightarrow> edge g x y \<or> x = a \<and> y = b)"
proof -
  obtain na where na: "om_lookup g a = Some na" using assms(1) by (auto simp: link_def split: option.splits)
  let ?g1 = "om_update a (na\<lparr>children := os_insert b (children na)\<rparr>) g"
  obtain nb where nb: "om_lookup ?g1 b = Some nb" "g' = om_update b (nb\<lparr>parents := os_insert a (parents nb)\<rparr>) ?g1"
    using assms(1) na by (auto simp: link_def Let_def split: option.splits)
  have sh: "cfg_shape g" "\<And>x y. edge g x y \<longleftrightarrow> back_edge g x y" using assms(2) by (auto simp: cfg_inv_shape)
  have s1: "cfg_shape ?g1" using sh na by (intro cfg_shape_update adjacent_wf_edit) (auto dest: cfg_shape_lookup)
  have s2: "cfg_shape g'" using s1 nb by (auto intro!: cfg_shape_update adjacent_wf_edit dest: cfg_shape_lookup)
  have in_g: "b \<in> set (cfg_labels g)" using nb(1) na lookup_label[of ?g1 b] lookup_label[of g a] by auto
  have chb: "y \<in> set (children nb) \<longleftrightarrow> edge ?g1 b y" and pab: "x \<in> set (parents nb) \<longleftrightarrow> back_edge ?g1 x b" for x y
    using nb(1) by (auto simp: edge_def back_edge_def)
  have e: "edge g' x y \<longleftrightarrow> edge g x y \<or> x = a \<and> y = b" for x y
    using nb(2) chb s1 sh(1) na by (auto simp: edge_lookup)
  have be: "back_edge g' x y \<longleftrightarrow> back_edge g x y \<or> x = a \<and> y = b" for x y
    using nb(2) pab s1 sh(1) na by (auto simp: back_edge_lookup)
  have "set (cfg_labels g') = set (cfg_labels g)" using nb(2) na in_g lookup_label[OF na] by auto
  then show ?thesis
    using s2 e be sh in_g lookup_label[OF na] by (simp add: cfg_inv_shape cfg_contains_iff)
qed

lemma erase_child_spec:
  assumes "erase_child a b g = Inr g'" "cfg_shape g"
  shows "cfg_shape g' \<and> set (cfg_labels g') = set (cfg_labels g) \<and>
    (\<forall>x y. edge g' x y \<longleftrightarrow> edge g x y \<and> \<not> (x = a \<and> y = b)) \<and> (\<forall>x y. back_edge g' x y \<longleftrightarrow> back_edge g x y)"
proof -
  obtain na where na: "om_lookup g a = Some na" "g' = om_update a (na\<lparr>children := os_erase b (children na)\<rparr>) g"
    using assms(1) by (auto simp: erase_child_def get_node_def result_iffs split: option.splits)
  show ?thesis using na assms(2) lookup_label[OF na(1)] cfg_shape_lookup[OF assms(2) na(1)]
    by (auto simp: edge_lookup back_edge_lookup intro!: cfg_shape_update adjacent_wf_edit)
qed

lemma erase_parent_spec:
  assumes "erase_parent a b g = Inr g'" "cfg_shape g"
  shows "cfg_shape g' \<and> set (cfg_labels g') = set (cfg_labels g) \<and>
    (\<forall>x y. edge g' x y \<longleftrightarrow> edge g x y) \<and> (\<forall>x y. back_edge g' x y \<longleftrightarrow> back_edge g x y \<and> \<not> (x = a \<and> y = b))"
proof -
  obtain nb where nb: "om_lookup g b = Some nb" "g' = om_update b (nb\<lparr>parents := os_erase a (parents nb)\<rparr>) g"
    using assms(1) by (auto simp: erase_parent_def get_node_def result_iffs split: option.splits)
  show ?thesis using nb assms(2) lookup_label[OF nb(1)] cfg_shape_lookup[OF assms(2) nb(1)]
    by (auto simp: edge_lookup back_edge_lookup intro!: cfg_shape_update adjacent_wf_edit)
qed

text \<open>
  What an operation of the builder does, with the edges as a relation: \<open>program_update p p' E\<close>
  says that the labels, instructions and assertions are those of \<open>p\<close> and the edges are \<open>E\<close>.
\<close>

definition program_update :: "Program \<Rightarrow> Program \<Rightarrow> (Label \<Rightarrow> Label \<Rightarrow> bool) \<Rightarrow> bool" where
  "program_update p p' E \<longleftrightarrow> m_instructions p' = m_instructions p \<and> m_assertions p' = m_assertions p \<and>
     set (cfg_labels (m_cfg p')) = set (cfg_labels (m_cfg p)) \<and> (\<forall>x y. edge (m_cfg p') x y \<longleftrightarrow> E x y)"

lemma add_child_spec:
  assumes "add_child a b p = Inr p'" "program_inv p"
  shows "program_inv p'" "program_update p p' (\<lambda>x y. edge (m_cfg p) x y \<or> x = a \<and> y = b)"
    "a \<in> set (cfg_labels (m_cfg p))" "b \<in> set (cfg_labels (m_cfg p))"
proof -
  obtain g where g: "link a b (m_cfg p) = Inr g" "p' = p\<lparr>m_cfg := g\<rparr>" and ne: "b \<noteq> label_entry" "a \<noteq> label_exit"
    using assms(1) by (auto simp: add_child_def result_iffs split: if_splits)
  have inv: "cfg_inv (m_cfg p)" using assms(2) by (simp add: program_inv_def)
  note l = link_spec[OF g(1) inv]
  show "program_inv p'" using assms(2) l ne by (auto simp: program_inv_def g(2))
  show "program_update p p' (\<lambda>x y. edge (m_cfg p) x y \<or> x = a \<and> y = b)" using l by (simp add: program_update_def g(2))
  show "a \<in> set (cfg_labels (m_cfg p))" "b \<in> set (cfg_labels (m_cfg p))" using l by (simp_all add: cfg_contains_iff)
qed

lemma link_defined: "cfg_contains g a \<Longrightarrow> cfg_contains g b \<Longrightarrow> om_wf g \<Longrightarrow> is_ok (link a b g)"
  by (auto simp: link_def cfg_contains_def om_lookup_update Let_def split: option.splits)

lemma add_child_defined:
  assumes "program_inv p" "a \<in> set (cfg_labels (m_cfg p))" "b \<in> set (cfg_labels (m_cfg p))" "b \<noteq> label_entry" "a \<noteq> label_exit"
  shows "is_ok (add_child a b p)"
  using assms link_defined[of "m_cfg p" a b]
  by (auto simp: add_child_def program_inv_def cfg_inv_def cfg_contains_iff is_ok_iff result_iffs)

lemma remove_child_spec:
  assumes "remove_child a b p = Inr p'" "program_inv p"
  shows "program_inv p'" "program_update p p' (\<lambda>x y. edge (m_cfg p) x y \<and> \<not> (x = a \<and> y = b))"
proof -
  obtain g1 g2 where g: "erase_child a b (m_cfg p) = Inr g1" "erase_parent a b g1 = Inr g2" "p' = p\<lparr>m_cfg := g2\<rparr>"
    using assms(1) by (auto simp: remove_child_def result_iffs)
  have inv: "cfg_shape (m_cfg p)" "\<And>x y. back_edge (m_cfg p) x y \<longleftrightarrow> edge (m_cfg p) x y"
    using assms(2) by (auto simp: program_inv_def cfg_inv_shape)
  note l1 = erase_child_spec[OF g(1) inv(1)]
  then have l2: "cfg_shape g2" "set (cfg_labels g2) = set (cfg_labels (m_cfg p))"
    "\<And>x y. edge g2 x y \<longleftrightarrow> edge (m_cfg p) x y \<and> \<not> (x = a \<and> y = b)"
    "\<And>x y. back_edge g2 x y \<longleftrightarrow> edge (m_cfg p) x y \<and> \<not> (x = a \<and> y = b)"
    using erase_parent_spec[OF g(2)] inv(2) by auto
  then have "cfg_inv g2" by (simp add: cfg_inv_shape)
  then show "program_inv p'" using assms(2) l2 by (simp add: program_inv_def g(3))
  show "program_update p p' (\<lambda>x y. edge (m_cfg p) x y \<and> \<not> (x = a \<and> y = b))"
    using l2 by (simp add: program_update_def g(3))
qed

lemma om_emplace_fresh: "k \<notin> set (om_keys m) \<Longrightarrow> om_emplace k v m = om_update k v m"
  by (simp add: om_emplace_def om.not_key_iff)

lemma cfg_insert_spec:
  assumes "cfg_insert l ins p = Inr p'" "program_inv p"
  shows "program_inv p'" "l \<notin> set (cfg_labels (m_cfg p))"
    "set (cfg_labels (m_cfg p')) = insert l (set (cfg_labels (m_cfg p)))"
    "om_lookup (m_instructions p') = (om_lookup (m_instructions p))(l \<mapsto> ins)"
    "m_assertions p' = m_assertions p" "edge (m_cfg p') x y \<longleftrightarrow> edge (m_cfg p) x y"
proof -
  have fresh: "l \<notin> set (cfg_labels (m_cfg p))" using assms(1) by (auto simp: cfg_insert_def cfg_contains_iff split: if_splits)
  have inv: "om_wf (m_cfg p)" "cfg_inv (m_cfg p)" "om_wf (m_instructions p)" "l \<notin> set (om_keys (m_instructions p))"
    using assms(2) fresh by (simp_all add: program_inv_def cfg_inv_def)
  have p': "p' = p\<lparr>m_cfg := om_update l no_adjacent (m_cfg p), m_instructions := om_update l ins (m_instructions p)\<rparr>"
    using assms(1) fresh inv by (auto simp: cfg_insert_def om_emplace_fresh cfg_labels_def split: if_splits)
  have no_l: "\<not> edge (m_cfg p) l y" "\<not> edge (m_cfg p) x l" for x y
    using fresh edge_contains[OF inv(2)] by (auto simp: cfg_contains_iff)
  have e: "edge (m_cfg p') x y \<longleftrightarrow> edge (m_cfg p) x y" "back_edge (m_cfg p') x y \<longleftrightarrow> edge (m_cfg p) x y" for x y
    using inv no_l by (auto simp: p' no_adjacent_def cfg_inv_shape)
  have "cfg_inv (m_cfg p')" using inv e by (simp add: cfg_inv_shape p' cfg_shape_update adjacent_wf_edit)
  then show "program_inv p'" using assms(2) e inv by (auto simp: program_inv_def p' om_wf_update)
  show "l \<notin> set (cfg_labels (m_cfg p))" by (fact fresh)
  show "set (cfg_labels (m_cfg p')) = insert l (set (cfg_labels (m_cfg p)))" by (simp add: p')
  show "om_lookup (m_instructions p') = (om_lookup (m_instructions p))(l \<mapsto> ins)" using inv by (simp add: p' om_lookup_update)
  show "m_assertions p' = m_assertions p" by (simp add: p')
  show "edge (m_cfg p') x y \<longleftrightarrow> edge (m_cfg p) x y" by (fact e)
qed

lemma insert_jump_spec:
  assumes "insert_jump a b ins p = Inr p'" "program_inv p"
  shows "program_inv p'" "make_jump a b \<notin> set (cfg_labels (m_cfg p))"
    "set (cfg_labels (m_cfg p')) = insert (make_jump a b) (set (cfg_labels (m_cfg p)))"
    "om_lookup (m_instructions p') = (om_lookup (m_instructions p))(make_jump a b \<mapsto> ins)"
    "m_assertions p' = m_assertions p"
    "edge (m_cfg p') x y \<longleftrightarrow> edge (m_cfg p) x y \<or> x = a \<and> y = make_jump a b \<or> x = make_jump a b \<and> y = b"
proof -
  obtain p1 p2 where s: "cfg_insert (make_jump a b) ins p = Inr p1" "add_child a (make_jump a b) p1 = Inr p2"
    "add_child (make_jump a b) b p2 = Inr p'"
    using assms(1) by (auto simp: insert_jump_def Let_def result_iffs split: if_splits)
  note i = cfg_insert_spec[OF s(1) assms(2)]
  note c1 = add_child_spec[OF s(2) i(1)]
  note c2 = add_child_spec[OF s(3) c1(1)]
  show "program_inv p'" "make_jump a b \<notin> set (cfg_labels (m_cfg p))" by (fact c2(1) i(2))+
  show "set (cfg_labels (m_cfg p')) = insert (make_jump a b) (set (cfg_labels (m_cfg p)))"
    "om_lookup (m_instructions p') = (om_lookup (m_instructions p))(make_jump a b \<mapsto> ins)"
    "m_assertions p' = m_assertions p"
    using i(3-5) c1(2) c2(2) by (simp_all add: program_update_def)
  show "edge (m_cfg p') x y \<longleftrightarrow> edge (m_cfg p) x y \<or> x = a \<and> y = make_jump a b \<or> x = make_jump a b \<and> y = b"
    using i(6) c1(2) c2(2) by (auto simp: program_update_def)
qed

lemma set_assertions_spec:
  assumes "set_assertions l as p = Inr p'" "program_inv p"
  shows "program_inv p'" "m_cfg p' = m_cfg p" "m_instructions p' = m_instructions p"
    "om_lookup (m_assertions p') = (om_lookup (m_assertions p))(l \<mapsto> as)"
  using assms
  by (auto simp: set_assertions_def cfg_contains_iff program_inv_def om_wf_update om_lookup_update split: if_splits)

lemma empty_program_inv: "program_inv empty_program"
proof -
  have w: "om_wf empty_cfg" by (simp add: om_wf_def empty_cfg_def label_entry_def label_exit_def)
  have e: "\<not> edge empty_cfg a b" "\<not> back_edge empty_cfg a b" for a b
    by (auto simp: edge_def back_edge_def empty_cfg_def no_adjacent_def split: if_splits option.splits)
  have "adjacent_wf n" if "om_lookup empty_cfg l = Some n" for l n
    using that by (auto simp: empty_cfg_def adjacent_wf_edit split: if_splits)
  then have "cfg_inv empty_cfg" using w e by (simp add: cfg_inv_def)
  then show ?thesis using e by (auto simp: program_inv_def empty_program_def om_wf_def om_keys_def cfg_labels_def
    label_entry_def label_exit_def empty_cfg_def)
qed

section \<open>Insertion after a node\<close>

lemma erase_parents_spec:
  assumes "rfold (erase_parent a) cs g = Inr g'" "cfg_shape g"
  shows "cfg_shape g' \<and> set (cfg_labels g') = set (cfg_labels g) \<and>
    (\<forall>x y. edge g' x y \<longleftrightarrow> edge g x y) \<and> (\<forall>x y. back_edge g' x y \<longleftrightarrow> back_edge g x y \<and> \<not> (x = a \<and> y \<in> set cs))"
  using assms
proof (induction cs arbitrary: g)
  case (Cons c cs)
  then obtain g1 where g1: "erase_parent a c g = Inr g1" "rfold (erase_parent a) cs g1 = Inr g'" by (auto simp: result_iffs)
  note e = erase_parent_spec[OF g1(1) Cons.prems(2)]
  then show ?case using Cons.IH[OF g1(2)] by auto
qed simp

lemma add_children_through:
  assumes "rfold (\<lambda>next_label p. rbind (add_child a n p) (add_child n next_label)) cs p = Inr p'" "program_inv p"
  shows "program_inv p' \<and>
    program_update p p' (\<lambda>x y. edge (m_cfg p) x y \<or> x = a \<and> y = n \<and> cs \<noteq> [] \<or> x = n \<and> y \<in> set cs)"
  using assms
proof (induction cs arbitrary: p)
  case (Cons c cs)
  then obtain p1 p2 where s: "add_child a n p = Inr p1" "add_child n c p1 = Inr p2"
    "rfold (\<lambda>next_label p. rbind (add_child a n p) (add_child n next_label)) cs p2 = Inr p'"
    by (auto simp: result_iffs)
  note c1 = add_child_spec[OF s(1) Cons.prems(2)]
  note c2 = add_child_spec[OF s(2) c1(1)]
  show ?case using Cons.IH[OF s(3) c2(1)] c1(2) c2(2) by (auto simp: program_update_def)
qed (simp add: program_update_def)

lemma insert_after_spec:
  assumes "insert_after a n ins p = Inr p'" "program_inv p"
  shows "program_inv p'" "a \<in> set (cfg_labels (m_cfg p))" "n \<notin> set (cfg_labels (m_cfg p))"
    "set (cfg_labels (m_cfg p')) = insert n (set (cfg_labels (m_cfg p)))"
    "om_lookup (m_instructions p') = (om_lookup (m_instructions p))(n \<mapsto> ins)"
    "m_assertions p' = m_assertions p"
    "edge (m_cfg p') x y \<longleftrightarrow> x \<noteq> a \<and> edge (m_cfg p) x y \<or>
       x = a \<and> y = n \<and> (\<exists>z. edge (m_cfg p) a z) \<or> x = n \<and> edge (m_cfg p) a y"
proof -
  obtain na g p1 where s: "om_lookup (m_cfg p) a = Some na"
      "rfold (erase_parent a) (children na) (om_update a (na\<lparr>children := []\<rparr>) (m_cfg p)) = Inr g"
      "cfg_insert n ins (p\<lparr>m_cfg := g\<rparr>) = Inr p1"
      "rfold (\<lambda>next_label p. rbind (add_child a n p) (add_child n next_label)) (children na) p1 = Inr p'"
    using assms(1) by (auto simp: insert_after_def get_node_def Let_def result_iffs split: if_splits option.splits)
  let ?g1 = "om_update a (na\<lparr>children := []\<rparr>) (m_cfg p)"
  have inv: "cfg_shape (m_cfg p)" "\<And>x y. back_edge (m_cfg p) x y \<longleftrightarrow> edge (m_cfg p) x y"
    using assms(2) by (auto simp: program_inv_def cfg_inv_shape)
  have sh: "cfg_shape ?g1" using inv(1) s(1) by (auto intro!: cfg_shape_update adjacent_wf_edit dest: cfg_shape_lookup)
  have ch: "y \<in> set (children na) \<longleftrightarrow> edge (m_cfg p) a y" for y using s(1) by (simp add: edge_lookup)
  have pa: "x \<in> set (parents na) \<longleftrightarrow> edge (m_cfg p) x a" for x using s(1) inv(2) by (metis back_edge_lookup)
  have e1: "edge ?g1 x y \<longleftrightarrow> x \<noteq> a \<and> edge (m_cfg p) x y" "back_edge ?g1 x y \<longleftrightarrow> edge (m_cfg p) x y" for x y
    using inv pa by auto
  note d = erase_parents_spec[OF s(2) sh]
  have g: "cfg_shape g" "\<And>x y. edge g x y \<longleftrightarrow> x \<noteq> a \<and> edge (m_cfg p) x y"
      "\<And>x y. back_edge g x y \<longleftrightarrow> x \<noteq> a \<and> edge (m_cfg p) x y" "set (cfg_labels g) = set (cfg_labels (m_cfg p))"
    using d e1 ch lookup_label[OF s(1)] by auto
  then have "cfg_inv g" by (simp add: cfg_inv_shape)
  then have pi: "program_inv (p\<lparr>m_cfg := g\<rparr>)" using assms(2) g by (simp add: program_inv_def)
  note i = cfg_insert_spec[OF s(3) pi]
  note r = add_children_through[OF s(4) i(1)]
  show "program_inv p'" "a \<in> set (cfg_labels (m_cfg p))" using r lookup_label[OF s(1)] by simp_all
  show "n \<notin> set (cfg_labels (m_cfg p))" "set (cfg_labels (m_cfg p')) = insert n (set (cfg_labels (m_cfg p)))"
    "om_lookup (m_instructions p') = (om_lookup (m_instructions p))(n \<mapsto> ins)" "m_assertions p' = m_assertions p"
    using i(2-5) r g(4) by (simp_all add: program_update_def)
  have ne: "children na \<noteq> [] \<longleftrightarrow> (\<exists>z. edge (m_cfg p) a z)" using ch by (metis ex_in_conv set_empty)
  show "edge (m_cfg p') x y \<longleftrightarrow> x \<noteq> a \<and> edge (m_cfg p) x y \<or>
       x = a \<and> y = n \<and> (\<exists>z. edge (m_cfg p) a z) \<or> x = n \<and> edge (m_cfg p) a y"
    using r i(6)[of x y] g(2)[of x y] ch[of y] ne by (simp add: program_update_def)
qed

end
