(* ===== verification/Wto.thy ===== *)
theory Wto
  imports Cfg "HOL-Library.While_Combinator"
begin

text \<open>
  The weak topological ordering (\<^verbatim>\<open>cfg/wto.hpp\<close>, \<^verbatim>\<open>cfg/wto.cpp\<close>): Bourdoncle's decomposition of
  the graph into nested cycles, built with an explicit stack of tasks.

  A \<^verbatim>\<open>WtoCycle\<close> is shared between the partitions, the table of containing cycles and the pending
  tasks and is modified through all of them, so cycles live in a store and a
  \<^verbatim>\<open>shared_ptr\<close> or \<^verbatim>\<open>weak_ptr\<close> is an index into it; every cycle is kept alive by the vertex data
  of its head while the builder runs and by its partition afterwards. The reference
  \<^verbatim>\<open>WtoPartition&\<close> of a task names the top level or the components of a cycle. The vectors of
  components are filled at the back and read in reverse: here they are lists in reading order,
  so that \<^verbatim>\<open>emplace_back\<close> is \<open>#\<close>. Depth-first numbers are integers: an \<^verbatim>\<open>int\<close> overflows only after
  \<open>2 ^ 31\<close> visits.
\<close>

section \<open>Data\<close>

datatype CycleOrLabel = Cycle_Ref nat | Label_Ref Label

datatype Partition_Ref = Top_Partition | Cycle_Partition nat

record WtoCycle =
  cycle_components :: "CycleOrLabel list"
  cycle_containing :: "nat option"

record Wto =
  wto_components :: "CycleOrLabel list"
  wto_containing :: "(Label \<times> nat option) list"
  wto_cycles :: "WtoCycle list"

definition cycle_head :: "WtoCycle \<Rightarrow> Label result" where
  "cycle_head c =
     (case cycle_components c of
        [] \<Rightarrow> Inl (Crab_Error ''Empty cycle'')
      | Label_Ref l # _ \<Rightarrow> Inr l
      | Cycle_Ref _ # _ \<Rightarrow> Inl (Crab_Error ''Expected Label at the back of _components''))"

definition nesting_gt :: "Label list \<Rightarrow> Label list \<Rightarrow> bool" where
  "nesting_gt heads other =
     (let this_size = length heads; other_size = length other
      in if this_size \<le> other_size then False
         else list_all (\<lambda>index. heads ! (this_size - 1 - index) = other ! (other_size - 1 - index)) [0..<other_size])"

section \<open>Builder\<close>

datatype VisitTaskType = PushSuccessors | StartVisit | ContinueVisit

record VisitArgs =
  task_type :: VisitTaskType
  task_vertex :: Label
  task_partition :: Partition_Ref
  task_cycle :: "nat option"

record WtoVertexData =
  dfn :: int
  head_dfn :: int
  vd_cycle :: "nat option"

abbreviation DFN_INF :: int where
  "DFN_INF \<equiv> 2147483647"

record WtoBuilder =
  vertex_data :: "(Label \<times> WtoVertexData) list"
  num :: int
  dfs_stack :: "Label list"
  visit_stack :: "VisitArgs list"
  wto :: Wto

definition no_vertex_data :: WtoVertexData where
  "no_vertex_data = \<lparr>dfn = 0, head_dfn = 0, vd_cycle = None\<rparr>"

text \<open>\<^verbatim>\<open>_vertex_data[v]\<close> default-constructs a missing entry.\<close>

definition vd :: "WtoBuilder \<Rightarrow> Label \<Rightarrow> WtoVertexData" where
  "vd b v = (case om_lookup (vertex_data b) v of None \<Rightarrow> no_vertex_data | Some d \<Rightarrow> d)"

definition set_vd :: "Label \<Rightarrow> WtoVertexData \<Rightarrow> WtoBuilder \<Rightarrow> WtoBuilder" where
  "set_vd v d b = b\<lparr>vertex_data := om_update v d (vertex_data b)\<rparr>"

definition push_task :: "VisitTaskType \<Rightarrow> Label \<Rightarrow> Partition_Ref \<Rightarrow> nat option \<Rightarrow> WtoBuilder \<Rightarrow> WtoBuilder" where
  "push_task t v p c b =
     b\<lparr>visit_stack := \<lparr>task_type = t, task_vertex = v, task_partition = p, task_cycle = c\<rparr> # visit_stack b\<rparr>"

definition partition_push :: "Partition_Ref \<Rightarrow> CycleOrLabel \<Rightarrow> Wto \<Rightarrow> Wto" where
  "partition_push p x w =
     (case p of
        Top_Partition \<Rightarrow> w\<lparr>wto_components := x # wto_components w\<rparr>
      | Cycle_Partition c \<Rightarrow>
          w\<lparr>wto_cycles := (wto_cycles w)[c := (wto_cycles w ! c)\<lparr>cycle_components := x # cycle_components (wto_cycles w ! c)\<rparr>]\<rparr>)"

text \<open>Scheduling of the successors that have no number yet, in reverse order.\<close>

definition push_unvisited :: "Label list \<Rightarrow> Partition_Ref \<Rightarrow> nat option \<Rightarrow> WtoBuilder \<Rightarrow> WtoBuilder" where
  "push_unvisited succs p c b =
     fold (\<lambda>succ b. if dfn (vd b succ) = 0 then push_task PushSuccessors succ p c b else b) (rev succs) b"

definition push_successors :: "Cfg \<Rightarrow> Label \<Rightarrow> Partition_Ref \<Rightarrow> nat option \<Rightarrow> WtoBuilder \<Rightarrow> WtoBuilder result" where
  "push_successors cfg v p c b =
     (if dfn (vd b v) \<noteq> 0 then Inr b
      else let b = b\<lparr>num := num b + 1\<rparr>;
               b = set_vd v ((vd b v)\<lparr>dfn := num b\<rparr>) b;
               b = b\<lparr>dfs_stack := v # dfs_stack b\<rparr>;
               b = push_task StartVisit v p c b
           in rmap (\<lambda>succs. push_unvisited succs p c b) (children_of cfg v))"

definition min_dfn :: "WtoVertexData \<Rightarrow> int" where
  "min_dfn d = (if head_dfn d \<noteq> 0 \<and> dfn d \<noteq> DFN_INF then head_dfn d else dfn d)"

text \<open>The loop over the successors: the smallest number reached, and whether there is a loop.\<close>

definition find_head :: "WtoBuilder \<Rightarrow> Label list \<Rightarrow> int \<Rightarrow> int \<times> bool" where
  "find_head b succs h0 =
     fold (\<lambda>succ (h, loop). let m = min_dfn (vd b succ) in if m \<le> h then (m, True) else (h, loop)) succs (h0, False)"

text \<open>
  Popping the vertices above \<open>v\<close>, whose numbers are reset; the first argument is \<^verbatim>\<open>element\<close>, already
  popped. \<^verbatim>\<open>top\<close> of an empty stack is not defined in C++ and an error here.
\<close>

fun pop_until :: "Label \<Rightarrow> Label list \<Rightarrow> Label \<Rightarrow> WtoBuilder \<Rightarrow> WtoBuilder result" where
  "pop_until element rest v b =
     (if element = v then Inr (b\<lparr>dfs_stack := rest\<rparr>)
      else let b = set_vd element ((vd b element)\<lparr>dfn := 0, head_dfn := 0\<rparr>) b
           in (case rest of [] \<Rightarrow> Inl Bad_Access | e # es \<Rightarrow> pop_until e es v b))"

definition start_visit :: "Cfg \<Rightarrow> Label \<Rightarrow> Partition_Ref \<Rightarrow> nat option \<Rightarrow> WtoBuilder \<Rightarrow> WtoBuilder result" where
  "start_visit cfg v p c b =
     rbind (children_of cfg v) (\<lambda>succs.
       let (h, loop) = find_head b succs (dfn (vd b v))
       in if h = dfn (vd b v) then
            let b = set_vd v ((vd b v)\<lparr>dfn := DFN_INF\<rparr>) b
            in (case dfs_stack b of
                  [] \<Rightarrow> Inl Bad_Access
                | element # rest \<Rightarrow>
                    if loop then
                      rmap (\<lambda>b.
                        let cycle = length (wto_cycles (wto b));
                            b = b\<lparr>wto := (wto b)\<lparr>wto_cycles := wto_cycles (wto b) @ [\<lparr>cycle_components = [], cycle_containing = c\<rparr>]\<rparr>\<rparr>;
                            b = set_vd v ((vd b v)\<lparr>head_dfn := h, vd_cycle := Some cycle\<rparr>) b;
                            b = push_task ContinueVisit v p (Some cycle) b
                        in push_unvisited succs (Cycle_Partition cycle) (Some cycle) b)
                      (pop_until element rest v b)
                    else
                      let b = b\<lparr>dfs_stack := rest\<rparr>;
                          b = b\<lparr>wto := partition_push p (Label_Ref v) (wto b)\<rparr>;
                          b = b\<lparr>wto := (wto b)\<lparr>wto_containing := om_emplace v c (wto_containing (wto b))\<rparr>\<rparr>
                      in Inr (set_vd v ((vd b v)\<lparr>head_dfn := h\<rparr>) b))
          else Inr (set_vd v ((vd b v)\<lparr>head_dfn := h\<rparr>) b))"

definition continue_visit :: "Label \<Rightarrow> Partition_Ref \<Rightarrow> nat option \<Rightarrow> WtoBuilder \<Rightarrow> WtoBuilder result" where
  "continue_visit v p c b =
     (case c of
        None \<Rightarrow> Inl Bad_Access
      | Some cycle \<Rightarrow>
          let w = partition_push (Cycle_Partition cycle) (Label_Ref v) (wto b);
              w = partition_push p (Cycle_Ref cycle) w
          in Inr (b\<lparr>wto := w\<lparr>wto_containing := om_emplace v (Some cycle) (wto_containing w)\<rparr>\<rparr>))"

definition wto_step :: "Cfg \<Rightarrow> WtoBuilder \<Rightarrow> WtoBuilder result" where
  "wto_step cfg b =
     (case visit_stack b of
        [] \<Rightarrow> Inr b
      | args2 # rest \<Rightarrow>
          let b = b\<lparr>visit_stack := rest\<rparr>; v = task_vertex args2; p = task_partition args2; c = task_cycle args2
          in (case task_type args2 of
                PushSuccessors \<Rightarrow> push_successors cfg v p c b
              | StartVisit \<Rightarrow> start_visit cfg v p c b
              | ContinueVisit \<Rightarrow> continue_visit v p c b))"

definition initial_builder :: "Cfg \<Rightarrow> WtoBuilder" where
  "initial_builder cfg =
     \<lparr>vertex_data = map (\<lambda>l. (l, no_vertex_data)) (cfg_labels cfg), num = 0, dfs_stack = [],
      visit_stack = [\<lparr>task_type = PushSuccessors, task_vertex = label_entry, task_partition = Top_Partition, task_cycle = None\<rparr>],
      wto = \<lparr>wto_components = [], wto_containing = [], wto_cycles = []\<rparr>\<rparr>"

text \<open>The loop of the constructor; \<^const>\<open>None\<close> would be a loop that does not end.\<close>

definition build_wto :: "Cfg \<Rightarrow> Wto result option" where
  "build_wto cfg =
     map_option (rmap wto)
       (while_option (\<lambda>r. case r of Inl _ \<Rightarrow> False | Inr b \<Rightarrow> visit_stack b \<noteq> [])
          (\<lambda>r. rbind r (wto_step cfg)) (Inr (initial_builder cfg)))"

section \<open>Queries\<close>

text \<open>
  \<^verbatim>\<open>Wto::head\<close>: a weak pointer that is empty (the top level) gives no head. \<open>collect_heads\<close> follows
  it outwards; every step goes to a cycle that encloses the previous one, so there are at most as
  many steps as cycles, and one more than their number is enough fuel.
\<close>

definition wto_head :: "Wto \<Rightarrow> Label \<Rightarrow> Label option result" where
  "wto_head w l =
     (case om_lookup (wto_containing w) l of
        None \<Rightarrow> Inr None
      | Some None \<Rightarrow> Inr None
      | Some (Some c) \<Rightarrow>
          rbind (cycle_head (wto_cycles w ! c)) (\<lambda>first.
            if first \<noteq> l then Inr (Some first)
            else (case cycle_containing (wto_cycles w ! c) of
                    None \<Rightarrow> Inr None
                  | Some parent \<Rightarrow> rmap Some (cycle_head (wto_cycles w ! parent)))))"

fun collect_heads :: "nat \<Rightarrow> Wto \<Rightarrow> Label \<Rightarrow> Label list result option" where
  "collect_heads 0 w l = None"
| "collect_heads (Suc n) w l =
     (case wto_head w l of
        Inl e \<Rightarrow> Some (Inl e)
      | Inr None \<Rightarrow> Some (Inr [])
      | Inr (Some h) \<Rightarrow> map_option (rmap ((#) h)) (collect_heads n w h))"

definition nesting :: "Wto \<Rightarrow> Label \<Rightarrow> Label list result option" where
  "nesting w l = collect_heads (Suc (length (wto_cycles w))) w l"

text \<open>
  Once built the cycles are only read, so they can be read off the store as trees: a \<open>Cycle\<close> lists
  its components in iteration order, the head first. Nested cycles have larger indices than the
  cycle around them, which bounds the descent by the number of cycles.
\<close>

datatype component = Vertex Label | Cycle "component list"

fun component_of :: "nat \<Rightarrow> Wto \<Rightarrow> CycleOrLabel \<Rightarrow> component" where
  "component_of n w (Label_Ref l) = Vertex l"
| "component_of 0 w (Cycle_Ref c) = Cycle []"
| "component_of (Suc n) w (Cycle_Ref c) = Cycle (map (component_of n w) (cycle_components (wto_cycles w ! c)))"

definition wto_trees :: "Wto \<Rightarrow> component list" where
  "wto_trees w = map (component_of (length (wto_cycles w)) w) (wto_components w)"

fun tree_head :: "component list \<Rightarrow> Label result" where
  "tree_head [] = Inl (Crab_Error ''Empty cycle'')"
| "tree_head (Vertex l # _) = Inr l"
| "tree_head (Cycle _ # _) = Inl (Crab_Error ''Expected Label at the back of _components'')"

fun is_component_member :: "Label \<Rightarrow> component \<Rightarrow> bool result" where
  "is_component_member l (Vertex v) = Inr (v = l)"
| "is_component_member l (Cycle cs) =
     rbind (tree_head cs) (\<lambda>h. if h = l then Inr True else
       foldr (\<lambda>c rest. rbind (is_component_member l c) (\<lambda>m. if m then Inr True else rest)) cs (Inr False))"

text \<open>The labels \<^verbatim>\<open>for_each_loop_head\<close> visits.\<close>

fun loop_head :: "component \<Rightarrow> Label list result" where
  "loop_head (Vertex _) = Inr []"
| "loop_head (Cycle cs) = rmap (\<lambda>h. [h]) (tree_head cs)"

fun rconcat :: "'a list result list \<Rightarrow> 'a list result" where
  "rconcat [] = Inr []"
| "rconcat (r # rs) = rbind r (\<lambda>xs. rmap (\<lambda>ys. xs @ ys) (rconcat rs))"

definition for_each_loop_head :: "component list \<Rightarrow> Label list result" where
  "for_each_loop_head cs = rconcat (map loop_head cs)"

end
