(* ===== verification/Assertions.thy ===== *)
theory Assertions
  imports Asm_Syntax
begin

text \<open>
  The preconditions of an instruction (\<^verbatim>\<open>ir/assertions.cpp\<close>): \<open>get_assertions\<close> lists what the
  verifier has to prove before the instruction runs. Each overload of
  \<^verbatim>\<open>AssertExtractor::operator()\<close> that is more than a constant is one definition.

  The lemmas show which accesses are checked, with which bounds, and on which calls the
  extractor's own assertion (a map key or value argument after the map it belongs to) holds.
\<close>

section \<open>Extraction\<close>

definition zero_offset_ctx :: "Reg \<Rightarrow> bool \<Rightarrow> Assertion list" where
  "zero_offset_ctx reg or_null =
     [TypeConstraint reg (if or_null then ctx_or_num else ctx), ZeroCtxOffset reg or_null]"

definition make_valid_access :: "Label option \<Rightarrow> Reg \<Rightarrow> int \<Rightarrow> Value \<Rightarrow> bool \<Rightarrow> AccessType \<Rightarrow> Assertion" where
  "make_valid_access current_label reg off w or_null access_type =
     (let depth = (case current_label of Some l \<Rightarrow> call_stack_depth l | None \<Rightarrow> 1)
      in ValidAccess \<lparr>va_call_stack_depth = depth, va_reg = reg, va_offset = off, va_width = w,
           va_or_null = or_null, va_access_type = access_type\<rparr>)"

definition assert_exit :: "Label option \<Rightarrow> Assertion list result" where
  "assert_exit current_label =
     (case current_label of
        None \<Rightarrow> Inl Bad_Access
      | Some l \<Rightarrow> Inr (if stack_frame_prefix l = [] then [TypeConstraint 0 number] else []))"

text \<open>The loop over \<^verbatim>\<open>call.singles\<close> with its variable \<^verbatim>\<open>map_fd_reg\<close>.\<close>

fun assert_singles :: "ProgramInfo \<Rightarrow> Reg option \<Rightarrow> ArgSingle list \<Rightarrow> Assertion list result" where
  "assert_singles info map_fd_reg [] = Inr []"
| "assert_singles info map_fd_reg (arg # rest) =
     (case single_kind arg of
        ANYTHING \<Rightarrow>
          rmap (\<lambda>as. (if is_privileged info then [] else [TypeConstraint (single_reg arg) number]) @ as)
            (assert_singles info map_fd_reg rest)
      | MAP_FD_PROGRAMS \<Rightarrow>
          rmap (\<lambda>as. TypeConstraint (single_reg arg) map_fd_programs # as) (assert_singles info map_fd_reg rest)
      | MAP_FD \<Rightarrow>
          rmap (\<lambda>as. TypeConstraint (single_reg arg) map_fd # as) (assert_singles info (Some (single_reg arg)) rest)
      | PTR_TO_STACK \<Rightarrow>
          rmap (\<lambda>as. TypeConstraint (single_reg arg) (if single_or_null arg then stack_or_num else stack) # as)
            (assert_singles info map_fd_reg rest)
      | PTR_TO_CTX \<Rightarrow>
          rmap (\<lambda>as. zero_offset_ctx (single_reg arg) (single_or_null arg) @ as) (assert_singles info map_fd_reg rest)
      | _ \<Rightarrow>
          (case map_fd_reg of
             None \<Rightarrow> Inl Assert_Failed
           | Some m \<Rightarrow>
               rmap (\<lambda>as. [TypeConstraint (single_reg arg) mem,
                       ValidMapKeyValue (single_reg arg) m (single_kind arg = PTR_TO_MAP_KEY)] @ as)
                 (assert_singles info map_fd_reg rest)))"

definition assert_pair :: "Label option \<Rightarrow> ArgPair \<Rightarrow> Assertion list" where
  "assert_pair current_label arg =
     (let group = (if pair_or_null arg then mem_or_num else mem);
          access_type = (if pair_kind arg = PTR_TO_READABLE_MEM then ACCESS_READ else ACCESS_WRITE)
      in [TypeConstraint (pair_size arg) number, ValidSize (pair_size arg) (pair_can_be_zero arg),
          TypeConstraint (pair_mem arg) group,
          make_valid_access current_label (pair_mem arg) 0 (Reg (pair_size arg)) (pair_or_null arg) access_type])"

definition assert_call :: "ProgramInfo \<Rightarrow> Label option \<Rightarrow> Call \<Rightarrow> Assertion list result" where
  "assert_call info current_label call =
     rmap (\<lambda>as. ValidCall (func call) (call_stack_frame_prefix call) # as
            @ concat (map (assert_pair current_label) (pairs call)))
       (assert_singles info None (singles call))"

fun allows_pointers :: "Condition_Op \<Rightarrow> bool" where
  "allows_pointers SLT = False"
| "allows_pointers SLE = False"
| "allows_pointers SGT = False"
| "allows_pointers SGE = False"
| "allows_pointers _ = True"

definition explicate :: "ProgramInfo \<Rightarrow> Label option \<Rightarrow> Condition \<Rightarrow> Assertion list" where
  "explicate info current_label cond =
     (if is_privileged info then []
      else case cond_right cond of
        Imm v \<Rightarrow>
          if v \<noteq> 0 then [TypeConstraint (cond_left cond) number]
          else (if allows_pointers (cond_op cond) \<and> cond_is64 cond then [] else [TypeConstraint (cond_left cond) number])
               @ [make_valid_access current_label (cond_left cond) 0 (Imm 0) False ACCESS_COMPARE]
      | Reg reg_right \<Rightarrow>
          [make_valid_access current_label (cond_left cond) 0 (Imm 0) False ACCESS_COMPARE,
           make_valid_access current_label reg_right 0 (Imm 0) False ACCESS_COMPARE]
          @ (if cond_op cond \<noteq> EQ \<and> cond_op cond \<noteq> NE then [TypeConstraint (cond_left cond) ptr_or_num] else [])
          @ [Comparable (cond_left cond) reg_right False])"

definition assert_mem :: "ProgramInfo \<Rightarrow> Label option \<Rightarrow> Mem \<Rightarrow> Assertion list result" where
  "assert_mem info current_label ins =
     (let base = basereg (mem_access ins);
          w = width (mem_access ins);
          off = deref_offset (mem_access ins);
          access_type = (if mem_is_load ins then ACCESS_READ else ACCESS_WRITE)
      in if w < 0 then Inl Narrowing_Error
         else let access = make_valid_access current_label base off (Imm (word_of_int w)) False access_type
         in Inr (if base = 10 then
                   if off < - EBPF_SUBPROGRAM_STACK_SIZE \<or> off + w > 0 then [access] else []
                 else [TypeConstraint base pointer, access]
                   @ (if \<not> is_privileged info \<and> \<not> mem_is_load ins then
                        case mem_value ins of
                          Reg preg \<Rightarrow> if w \<noteq> 8 then [TypeConstraint preg number] else [ValidStore base preg]
                        | Imm _ \<Rightarrow> []
                      else [])))"

definition assert_atomic :: "Label option \<Rightarrow> Atomic \<Rightarrow> Assertion list" where
  "assert_atomic current_label ins =
     [TypeConstraint (atomic_valreg ins) number, TypeConstraint (basereg (atomic_access ins)) pointer,
      make_valid_access current_label (basereg (atomic_access ins)) (deref_offset (atomic_access ins))
        (Imm (word_of_int (width (atomic_access ins) mod 2 ^ 32))) False ACCESS_COMPARE]"

definition assert_bin :: "Bin \<Rightarrow> Assertion list" where
  "assert_bin ins =
     (let d = bin_dst ins in
      case bin_op ins of
        MOV \<Rightarrow> (case bin_v ins of Reg s \<Rightarrow> if \<not> bin_is64 ins then [TypeConstraint s number] else [] | Imm _ \<Rightarrow> [])
      | MOVSX8 \<Rightarrow> (case bin_v ins of Reg s \<Rightarrow> [TypeConstraint s number] | Imm _ \<Rightarrow> [])
      | MOVSX16 \<Rightarrow> (case bin_v ins of Reg s \<Rightarrow> [TypeConstraint s number] | Imm _ \<Rightarrow> [])
      | MOVSX32 \<Rightarrow> (case bin_v ins of Reg s \<Rightarrow> [TypeConstraint s number] | Imm _ \<Rightarrow> [])
      | ADD \<Rightarrow>
          (case bin_v ins of
             Reg s \<Rightarrow> [TypeConstraint d ptr_or_num, TypeConstraint s ptr_or_num, Addable s d, Addable d s]
           | Imm _ \<Rightarrow> [TypeConstraint d ptr_or_num])
      | SUB \<Rightarrow>
          (case bin_v ins of
             Reg r \<Rightarrow> [TypeConstraint d ptr_or_num, Comparable d r True]
           | Imm _ \<Rightarrow> [TypeConstraint d ptr_or_num])
      | bop \<Rightarrow>
          if bop \<in> {UDIV, UMOD, SDIV, SMOD} then
            (case bin_v ins of
               Reg s \<Rightarrow> [TypeConstraint d number, ValidDivisor s (bop = SDIV \<or> bop = SMOD)]
             | Imm _ \<Rightarrow> [TypeConstraint d number])
          else
            (case bin_v ins of
               Reg s \<Rightarrow> [TypeConstraint d number, TypeConstraint s number]
             | Imm _ \<Rightarrow> [TypeConstraint d number]))"

fun get_assertions :: "Instruction \<Rightarrow> ProgramInfo \<Rightarrow> Label option \<Rightarrow> Assertion list result" where
  "get_assertions (Undefined _) info l = Inr []"
| "get_assertions (IncrementLoopCounter name) info l = Inr [BoundedLoopCount name]"
| "get_assertions (LoadMapFd _ _) info l = Inr []"
| "get_assertions (LoadMapAddress _ _ _) info l = Inr []"
| "get_assertions (Packet _ _ _) info l = Inr (zero_offset_ctx 6 False)"
| "get_assertions (Exit _) info l = assert_exit l"
| "get_assertions (Call call) info l = assert_call info l call"
| "get_assertions (CallLocal _ _) info l = Inr []"
| "get_assertions (Callx f) info l = Inr [TypeConstraint f number, FuncConstraint f]"
| "get_assertions (Assume cond is_implicit) info l = Inr (if \<not> is_implicit then explicate info l cond else [])"
| "get_assertions (Jmp None _) info l = Inr []"
| "get_assertions (Jmp (Some cond) _) info l = Inr (explicate info l cond)"
| "get_assertions (Mem m) info l = assert_mem info l m"
| "get_assertions (Atomic a) info l = Inr (assert_atomic l a)"
| "get_assertions (Un_ins _ d _) info l = Inr [TypeConstraint d number]"
| "get_assertions (Bin b) info l = Inr (assert_bin b)"

section \<open>What is checked\<close>

text \<open>The contract of an argument: its type group, and the map register that the loop has seen before it.\<close>

fun arg_groups :: "ProgramInfo \<Rightarrow> ArgSingle \<Rightarrow> TypeGroup option" where
  "arg_groups info a =
     (case single_kind a of
        ANYTHING \<Rightarrow> if is_privileged info then None else Some number
      | MAP_FD_PROGRAMS \<Rightarrow> Some map_fd_programs
      | MAP_FD \<Rightarrow> Some map_fd
      | PTR_TO_STACK \<Rightarrow> Some (if single_or_null a then stack_or_num else stack)
      | PTR_TO_CTX \<Rightarrow> Some (if single_or_null a then ctx_or_num else ctx)
      | _ \<Rightarrow> Some mem)"

definition needs_map :: "ArgSingle \<Rightarrow> bool" where
  "needs_map a \<longleftrightarrow> single_kind a = PTR_TO_MAP_KEY \<or> single_kind a = PTR_TO_MAP_VALUE"

fun last_map :: "Reg option \<Rightarrow> ArgSingle list \<Rightarrow> Reg option" where
  "last_map m [] = m"
| "last_map m (a # as) = last_map (if single_kind a = MAP_FD then Some (single_reg a) else m) as"

lemma last_map_append: "last_map m (xs @ ys) = last_map (last_map m xs) ys"
  by (induction xs arbitrary: m) auto

lemma last_map_None: "last_map m as = None \<longleftrightarrow> m = None \<and> (\<forall>a\<in>set as. single_kind a \<noteq> MAP_FD)"
  by (induction as arbitrary: m) auto

definition arg_checks :: "ProgramInfo \<Rightarrow> Reg option \<Rightarrow> ArgSingle \<Rightarrow> Assertion list" where
  "arg_checks info m a =
     (case arg_groups info a of None \<Rightarrow> [] | Some g \<Rightarrow> [TypeConstraint (single_reg a) g])
     @ (if single_kind a = PTR_TO_CTX then [ZeroCtxOffset (single_reg a) (single_or_null a)] else [])
     @ (if needs_map a then [ValidMapKeyValue (single_reg a) (the m) (single_kind a = PTR_TO_MAP_KEY)] else [])"

lemma assert_singles_step:
  "assert_singles info m (a # as) =
     (if needs_map a \<and> m = None then Inl Assert_Failed
      else rmap (\<lambda>r. arg_checks info m a @ r) (assert_singles info (last_map m [a]) as))"
  by (cases "assert_singles info (last_map m [a]) as"; cases "single_kind a"; cases m)
    (simp_all add: needs_map_def zero_offset_ctx_def arg_checks_def)

lemma assert_singles_Cons_ok:
  "is_ok (assert_singles info m (b # as)) \<longleftrightarrow> \<not> (needs_map b \<and> m = None) \<and> is_ok (assert_singles info (last_map m [b]) as)"
  unfolding assert_singles_step by (cases "assert_singles info (last_map m [b]) as") auto

lemma assert_singles_ok:
  "is_ok (assert_singles info m as) \<longleftrightarrow>
     (\<forall>pre a post. as = pre @ a # post \<and> needs_map a \<longrightarrow> last_map m pre \<noteq> None)"
proof (induction as arbitrary: m)
  case (Cons b as)
  have "is_ok (assert_singles info m (b # as)) \<longleftrightarrow> \<not> (needs_map b \<and> m = None) \<and> is_ok (assert_singles info (last_map m [b]) as)"
    by (rule assert_singles_Cons_ok)
  also have "\<dots> \<longleftrightarrow> (\<forall>pre a post. b # as = pre @ a # post \<and> needs_map a \<longrightarrow> last_map m pre \<noteq> None)" (is "_ \<longleftrightarrow> ?R")
  proof
    assume l: "\<not> (needs_map b \<and> m = None) \<and> is_ok (assert_singles info (last_map m [b]) as)"
    show ?R
    proof (intro allI impI)
      fix pre a post
      assume "b # as = pre @ a # post \<and> needs_map a"
      then show "last_map m pre \<noteq> None" using l Cons.IH by (cases pre) auto
    qed
  next
    assume r: ?R
    have "last_map (last_map m [b]) pre \<noteq> None" if "as = pre @ a # post \<and> needs_map a" for pre a post
      using r[rule_format, of "b # pre" a post] that by simp
    moreover have "\<not> (needs_map b \<and> m = None)" using r[rule_format, of "[]" b as] by auto
    ultimately show "\<not> (needs_map b \<and> m = None) \<and> is_ok (assert_singles info (last_map m [b]) as)"
      using Cons.IH by blast
  qed
  finally show ?case .
qed simp

lemma assert_singles_checks:
  assumes "assert_singles info m (pre @ a # post) = Inr r"
  shows "set (arg_checks info (last_map m pre) a) \<subseteq> set r \<and> (needs_map a \<longrightarrow> last_map m pre \<noteq> None)"
  using assms
proof (induction pre arbitrary: m r)
  case Nil
  then have "assert_singles info m (a # post) = Inr r" by simp
  then show ?case unfolding assert_singles_step by (auto simp: result_iffs split: if_splits)
next
  case (Cons b pre)
  have "assert_singles info m (b # pre @ a # post) = Inr r" using Cons.prems by simp
  then obtain r' where r': "assert_singles info (last_map m [b]) (pre @ a # post) = Inr r'" "set r' \<subseteq> set r"
    unfolding assert_singles_step by (auto simp: result_iffs split: if_splits)
  show ?case using Cons.IH[OF r'(1)] r'(2) by auto
qed

text \<open>An access through a register is checked with the offset, width and direction of the instruction.\<close>

definition mem_check :: "Label \<Rightarrow> Mem \<Rightarrow> Assertion" where
  "mem_check l m =
     ValidAccess \<lparr>va_call_stack_depth = call_stack_depth l, va_reg = basereg (mem_access m),
       va_offset = deref_offset (mem_access m), va_width = Imm (word_of_int (width (mem_access m))), va_or_null = False,
       va_access_type = (if mem_is_load m then ACCESS_READ else ACCESS_WRITE)\<rparr>"

definition inside_frame :: "Mem \<Rightarrow> bool" where
  "inside_frame m \<longleftrightarrow> basereg (mem_access m) = 10 \<and> - EBPF_SUBPROGRAM_STACK_SIZE \<le> deref_offset (mem_access m) \<and>
     deref_offset (mem_access m) + width (mem_access m) \<le> 0"

lemma assert_mem_cases:
  "assert_mem info (Some l) m = Inr as \<longleftrightarrow> 0 \<le> width (mem_access m) \<and>
     as = (if inside_frame m then [] else if basereg (mem_access m) = 10 then [mem_check l m]
           else [TypeConstraint (basereg (mem_access m)) pointer, mem_check l m]
             @ (if is_privileged info \<or> mem_is_load m then [] else
                 case mem_value m of Imm _ \<Rightarrow> []
                 | Reg r \<Rightarrow> [if width (mem_access m) \<noteq> 8 then TypeConstraint r number
                            else ValidStore (basereg (mem_access m)) r]))"
  by (cases "mem_value m") (auto simp: assert_mem_def mem_check_def inside_frame_def make_valid_access_def Let_def)

end
