(* ===== verification/Fwd_Analyzer.thy ===== *)
theory Fwd_Analyzer
  imports Wto Assertions Interval_Domain
begin

text \<open>
  The forward fixpoint iterator (\<^verbatim>\<open>fwd_analyzer.cpp\<close>, with the result structures of
  \<^verbatim>\<open>result.hpp\<close> and \<^verbatim>\<open>result.cpp\<close>): the components of the weak topological order are visited in
  turn, a cycle by an increasing iteration with widening and a decreasing one with narrowing.

  The iterator treats \<^verbatim>\<open>EbpfDomain\<close> as an opaque value with the operations of the record
  \<open>domain_ops\<close>, over which the model is polymorphic. The state \<open>analyzer\<close> holds the member
  \<^verbatim>\<open>_skip\<close> and the fields of \<^verbatim>\<open>AnalysisResult\<close> that the visits change. The result type \<open>'a out\<close>
  has three outcomes: a value, an exception, and \<^const>\<open>None\<close> for a loop that has used up its fuel, the
  number of increasing iterations allowed on each cycle.
  Iteration counters are natural numbers: the \<^verbatim>\<open>unsigned int\<close> of the code wraps after \<open>2 ^ 32\<close>
  iterations. \<^verbatim>\<open>set_pre(head, std::move(invariant))\<close> in the decreasing iteration leaves \<^verbatim>\<open>invariant\<close>
  usable: \<^verbatim>\<open>TypeToNumDomain\<close> declares no move assignment and \<^verbatim>\<open>ArrayDomain\<close> is a bit set, so the
  assignment copies.
\<close>

section \<open>State\<close>

record 'd domain_ops =
  dom_bottom :: 'd
  dom_is_bottom :: "'d \<Rightarrow> bool"
  dom_le :: "'d \<Rightarrow> 'd \<Rightarrow> bool"
  dom_join_into :: "'d \<Rightarrow> 'd \<Rightarrow> 'd"
  dom_join :: "'d \<Rightarrow> 'd \<Rightarrow> 'd"
  dom_meet :: "'d \<Rightarrow> 'd \<Rightarrow> 'd"
  dom_widen :: "'d \<Rightarrow> 'd \<Rightarrow> bool \<Rightarrow> 'd"
  dom_narrow :: "'d \<Rightarrow> 'd \<Rightarrow> 'd"
  dom_check :: "'d \<Rightarrow> Assertion \<Rightarrow> Label \<Rightarrow> string option"
  dom_transform :: "'d \<Rightarrow> Instruction \<Rightarrow> 'd"
  dom_init_loop_counter :: "'d \<Rightarrow> Label \<Rightarrow> 'd"
  dom_loop_count_upper_bound :: "'d \<Rightarrow> ExtendedNumber"
  dom_r0 :: "'d \<Rightarrow> Interval"

record 'd InvariantMapPair =
  inv_pre :: 'd
  inv_error :: "string option"
  inv_post :: 'd

record 'd analyzer =
  skip :: bool
  invariants :: "(Label \<times> 'd InvariantMapPair) list"
  failed :: bool

record 'd AnalysisResult =
  res_invariants :: "(Label \<times> 'd InvariantMapPair) list"
  res_failed :: bool
  res_max_loop_count :: int
  res_exit_value :: Interval

definition inv_at :: "'d analyzer \<Rightarrow> Label \<Rightarrow> 'd InvariantMapPair result" where
  "inv_at A l = (case om_lookup (invariants A) l of None \<Rightarrow> Inl Out_Of_Range | Some p \<Rightarrow> Inr p)"

definition has_error :: "'d analyzer \<Rightarrow> Label \<Rightarrow> bool result" where
  "has_error A node = rmap (\<lambda>p. inv_error p \<noteq> None) (inv_at A node)"

definition set_error :: "Label \<Rightarrow> string \<Rightarrow> 'd analyzer \<Rightarrow> 'd analyzer result" where
  "set_error node e A =
     rmap (\<lambda>p. A\<lparr>failed := True, invariants := om_update node (p\<lparr>inv_error := Some e\<rparr>) (invariants A)\<rparr>) (inv_at A node)"

definition set_pre :: "Label \<Rightarrow> 'd \<Rightarrow> 'd analyzer \<Rightarrow> 'd analyzer result" where
  "set_pre l v A = rmap (\<lambda>p. A\<lparr>invariants := om_update l (p\<lparr>inv_pre := v\<rparr>) (invariants A)\<rparr>) (inv_at A l)"

definition set_post :: "Label \<Rightarrow> 'd \<Rightarrow> 'd analyzer \<Rightarrow> 'd analyzer result" where
  "set_post l v A = rmap (\<lambda>p. A\<lparr>invariants := om_update l (p\<lparr>inv_post := v\<rparr>) (invariants A)\<rparr>) (inv_at A l)"

definition get_pre :: "'d analyzer \<Rightarrow> Label \<Rightarrow> 'd result" where
  "get_pre A node = rmap inv_pre (inv_at A node)"

definition get_post :: "'d analyzer \<Rightarrow> Label \<Rightarrow> 'd result" where
  "get_post A node = rmap inv_post (inv_at A node)"

section \<open>One node\<close>

fun check_all :: "'d domain_ops \<Rightarrow> 'd \<Rightarrow> Label \<Rightarrow> Assertion list \<Rightarrow> string option" where
  "check_all D d l [] = None"
| "check_all D d l (a # as) = (case dom_check D d a l of Some e \<Rightarrow> Some e | None \<Rightarrow> check_all D d l as)"

fun is_loop_counter :: "Instruction \<Rightarrow> bool" where
  "is_loop_counter (IncrementLoopCounter _) = True"
| "is_loop_counter _ = False"

definition transform_to_post :: "'d domain_ops \<Rightarrow> Program \<Rightarrow> Label \<Rightarrow> 'd \<Rightarrow> 'd analyzer \<Rightarrow> 'd analyzer result" where
  "transform_to_post D P l d A =
     rbind (instruction_at P l) (\<lambda>ins.
       if is_loop_counter ins then set_post l (dom_transform D d ins) A
       else rbind (has_error A l) (\<lambda>e.
         if e then Inr A
         else rbind (assertions_at P l) (\<lambda>as.
           case check_all D d l as of
             Some err \<Rightarrow> set_error l err A
           | None \<Rightarrow> set_post l (dom_transform D d ins) A)))"

definition join_all_prevs :: "'d domain_ops \<Rightarrow> Program \<Rightarrow> Label \<Rightarrow> 'd analyzer \<Rightarrow> 'd result" where
  "join_all_prevs D P node A =
     (if node = label_entry then get_pre A node
      else rbind (parents_of (m_cfg P) node) (\<lambda>prevs.
        rfold (\<lambda>prev res. rmap (dom_join_into D res) (get_post A prev)) prevs (dom_bottom D)))"

definition visit_label :: "'d domain_ops \<Rightarrow> Program \<Rightarrow> Label \<Rightarrow> 'd analyzer \<Rightarrow> 'd analyzer result" where
  "visit_label D P node A =
     (let A = (if skip A \<and> node = label_entry then A\<lparr>skip := False\<rparr> else A)
      in if skip A then Inr A
         else rbind (join_all_prevs D P node A) (\<lambda>d.
              rbind (set_pre node d A) (transform_to_post D P node d)))"

section \<open>Cycles\<close>

definition extrapolate :: "'d domain_ops \<Rightarrow> 'd \<Rightarrow> 'd \<Rightarrow> nat \<Rightarrow> 'd" where
  "extrapolate D before after iteration =
     (if iteration < 2 then dom_join D before after else dom_widen D before after (iteration = 2))"

definition refine :: "'d domain_ops \<Rightarrow> 'd \<Rightarrow> 'd \<Rightarrow> nat \<Rightarrow> 'd" where
  "refine D before after iteration = (if iteration = 1 then dom_meet D before after else dom_narrow D before after)"

text \<open>The states of the predecessors of the head that are not inside the cycle.\<close>

definition incoming :: "'d domain_ops \<Rightarrow> Program \<Rightarrow> Wto \<Rightarrow> Label \<Rightarrow> 'd analyzer \<Rightarrow> 'd out" where
  "incoming D P W head A =
     obind (nesting W head) (\<lambda>cycle_nesting.
       obind (Some (parents_of (m_cfg P) head)) (\<lambda>prevs.
         oseq (map (\<lambda>prev d. obind (nesting W prev) (\<lambda>n.
                      if \<not> nesting_gt n cycle_nesting then Some (rmap (dom_join_into D d) (get_post A prev))
                      else Some (Inr d))) prevs)
           (dom_bottom D)))"

text \<open>One round of an iteration: the head with the given state, then the rest of the cycle.\<close>

definition cycle_round ::
    "'d domain_ops \<Rightarrow> Program \<Rightarrow> Label \<Rightarrow> ('d analyzer \<Rightarrow> 'd analyzer out) \<Rightarrow> 'd \<Rightarrow> 'd analyzer \<Rightarrow> ('d \<times> 'd analyzer) out" where
  "cycle_round D P head body d A =
     obind (Some (transform_to_post D P head d A)) (\<lambda>A.
       obind (body A) (\<lambda>A. Some (rmap (\<lambda>new_pre. (new_pre, A)) (join_all_prevs D P head A))))"

fun increasing ::
    "nat \<Rightarrow> 'd domain_ops \<Rightarrow> Program \<Rightarrow> Label \<Rightarrow> ('d analyzer \<Rightarrow> 'd analyzer out) \<Rightarrow> 'd \<Rightarrow> nat \<Rightarrow> 'd analyzer \<Rightarrow> ('d \<times> 'd analyzer) out" where
  "increasing 0 D P head body d iteration A = None"
| "increasing (Suc n) D P head body d iteration A =
     obind (Some (set_pre head d A)) (\<lambda>A.
       obind (cycle_round D P head body d A) (\<lambda>(new_pre, A).
         if dom_le D new_pre d then Some (rmap (\<lambda>A. (new_pre, A)) (set_pre head new_pre A))
         else increasing n D P head body (extrapolate D d new_pre iteration) (iteration + 1) A))"

abbreviation descending_iterations :: nat where
  "descending_iterations \<equiv> 2000000"

function decreasing ::
    "'d domain_ops \<Rightarrow> Program \<Rightarrow> Label \<Rightarrow> ('d analyzer \<Rightarrow> 'd analyzer out) \<Rightarrow> 'd \<Rightarrow> nat \<Rightarrow> 'd analyzer \<Rightarrow> 'd analyzer out" where
  "decreasing D P head body d iteration A =
     obind (cycle_round D P head body d A) (\<lambda>(new_pre, A).
       if dom_le D d new_pre then Some (Inr A)
       else if iteration > descending_iterations then Some (Inr A)
       else let d' = refine D d new_pre iteration
            in obind (Some (set_pre head d' A)) (decreasing D P head body d' (iteration + 1)))"
  by pat_completeness auto
termination
  by (relation "measure (\<lambda>(_, _, _, _, _, iteration, _). descending_iterations + 1 - iteration)") auto

text \<open>The same equation with the bound as an \<^typ>\<open>int\<close>, whose numerals evaluate in binary.\<close>

lemma decreasing_code [code]:
  "decreasing D P head body d iteration A =
     obind (cycle_round D P head body d A) (\<lambda>(new_pre, A).
       if dom_le D d new_pre then Some (Inr A)
       else if int iteration > 2000000 then Some (Inr A)
       else let d' = refine D d new_pre iteration
            in obind (Some (set_pre head d' A)) (decreasing D P head body d' (iteration + 1)))"
proof -
  have bound: "int iteration > 2000000 \<longleftrightarrow> iteration > descending_iterations" by linarith
  show ?thesis unfolding bound by (rule decreasing.simps)
qed

definition visit_cycle ::
    "nat \<Rightarrow> 'd domain_ops \<Rightarrow> Program \<Rightarrow> Wto \<Rightarrow> component list \<Rightarrow> (Label \<Rightarrow> 'd analyzer \<Rightarrow> 'd analyzer out) \<Rightarrow>
     'd analyzer \<Rightarrow> 'd analyzer out" where
  "visit_cycle fuel D P W cs body A =
     obind (Some (tree_head cs)) (\<lambda>head.
     obind (Some (if skip A then is_component_member label_entry (Cycle cs) else Inr False)) (\<lambda>entry_in_this_cycle.
       let A = A\<lparr>skip := skip A \<and> \<not> entry_in_this_cycle\<rparr>
       in if skip A then Some (Inr A)
          else obind (if entry_in_this_cycle then Some (get_pre A label_entry) else incoming D P W head A) (\<lambda>d.
               obind (increasing fuel D P head (body head) d 1 A) (\<lambda>(d, A).
                 decreasing D P head (body head) d 1 A))))"

fun visit :: "nat \<Rightarrow> 'd domain_ops \<Rightarrow> Program \<Rightarrow> Wto \<Rightarrow> component \<Rightarrow> 'd analyzer \<Rightarrow> 'd analyzer out" where
  "visit fuel D P W (Vertex l) A = Some (visit_label D P l A)"
| "visit fuel D P W (Cycle cs) A =
     visit_cycle fuel D P W cs
       (\<lambda>head. oseq (map (\<lambda>c A. if c = Vertex head then Some (Inr A) else visit fuel D P W c A) cs)) A"

section \<open>The whole analysis\<close>

definition check_loop_bound :: "'d domain_ops \<Rightarrow> Program \<Rightarrow> Label \<Rightarrow> 'd \<Rightarrow> string option result" where
  "check_loop_bound D P l d =
     rbind (instruction_at P l) (\<lambda>ins.
       if is_loop_counter ins then
         rbind (assertions_at P l) (\<lambda>as.
           if length as \<noteq> 1 then Inl (Crab_Error ''Expected exactly 1 assertion for IncrementLoopCounter'')
           else Inr (dom_check D d (hd as) l))
       else Inr None)"

definition find_termination_errors :: "'d domain_ops \<Rightarrow> Program \<Rightarrow> 'd analyzer \<Rightarrow> 'd analyzer result" where
  "find_termination_errors D P A =
     rfold (\<lambda>(l, p) A.
       if dom_is_bottom D (inv_pre p) then Inr A
       else rbind (check_loop_bound D P l (inv_pre p)) (\<lambda>e.
         case e of Some err \<Rightarrow> set_error l err A | None \<Rightarrow> Inr A)) (invariants A) A"

definition max_loop_count :: "'d domain_ops \<Rightarrow> 'd analyzer \<Rightarrow> int" where
  "max_loop_count D A =
     (let loop_count = foldl (\<lambda>c (l, p). let b = dom_loop_count_upper_bound D (inv_post p) in if ext_lt c b then b else c)
           (ext_of 0) (invariants A)
      in case ext_number loop_count of
           Some m \<Rightarrow> if in_ctype int32_t m then m else 2 ^ 31 - 1
         | None \<Rightarrow> 2 ^ 31 - 1)"

definition initial_analyzer :: "'d domain_ops \<Rightarrow> Program \<Rightarrow> 'd analyzer" where
  "initial_analyzer D P =
     \<lparr>skip = True,
      invariants = map (\<lambda>l. (l, \<lparr>inv_pre = dom_bottom D, inv_error = None, inv_post = dom_bottom D\<rparr>)) (cfg_labels (m_cfg P)),
      failed = False\<rparr>"

definition entry_state :: "'d domain_ops \<Rightarrow> bool \<Rightarrow> component list \<Rightarrow> 'd \<Rightarrow> 'd result" where
  "entry_state D check_for_termination trees entry_inv =
     (if check_for_termination then rmap (foldl (dom_init_loop_counter D) entry_inv) (for_each_loop_head trees)
      else Inr entry_inv)"

definition finish_analysis :: "'d domain_ops \<Rightarrow> Program \<Rightarrow> bool \<Rightarrow> 'd analyzer \<Rightarrow> 'd AnalysisResult result" where
  "finish_analysis D P check_for_termination A =
     rbind (if \<not> failed A \<and> check_for_termination then
              rmap (\<lambda>A. (A, if failed A then 0 else max_loop_count D A)) (find_termination_errors D P A)
            else Inr (A, 0)) (\<lambda>(A, count).
       rmap (\<lambda>d. \<lparr>res_invariants = invariants A, res_failed = failed A, res_max_loop_count = count,
                  res_exit_value = dom_r0 D d\<rparr>) (get_post A label_exit))"

definition run_analysis :: "nat \<Rightarrow> 'd domain_ops \<Rightarrow> Program \<Rightarrow> bool \<Rightarrow> 'd \<Rightarrow> 'd AnalysisResult out" where
  "run_analysis fuel D P check_for_termination entry_inv =
     obind (build_wto (m_cfg P)) (\<lambda>W.
       obind (Some (rbind (entry_state D check_for_termination (wto_trees W) entry_inv) (\<lambda>d.
                set_pre label_entry d (initial_analyzer D P)))) (\<lambda>A.
       obind (oseq (map (visit fuel D P W) (wto_trees W)) A) (\<lambda>A.
         Some (finish_analysis D P check_for_termination A))))"

definition find_first_error :: "'d domain_ops \<Rightarrow> 'd AnalysisResult \<Rightarrow> string option" where
  "find_first_error D r =
     foldr (\<lambda>(l, p) rest. if dom_is_bottom D (inv_pre p) then rest
        else case inv_error p of Some e \<Rightarrow> Some e | None \<Rightarrow> rest) (res_invariants r) None"

end
