(* ===== verification/Fwd_Sound.thy ===== *)
theory Fwd_Sound
  imports Fwd_Analyzer
begin

text \<open>
  Soundness of the fixpoint iterator. A concrete execution moves along the edges of the graph;
  \<open>reachable\<close> collects the states in which a label can be reached. The locale \<open>sound_analysis\<close> is
  what the iterator relies on: \<open>gamma\<close> gives the concrete states of an abstract one, the inclusion
  test, joins, meets, narrowing, checks and transfer functions are sound for it. Widening and the
  join of the increasing iteration need no law: the inclusion test alone decides when an
  increasing iteration ends. The second ingredient is \<open>wto_valid\<close>, an executable
  test of the ordering: within a list of components no edge leads backwards, except to the head of
  an enclosing cycle.

  The invariants found are not required to be inductive (the decreasing iteration may lose
  that); what is shown is that they contain the reachable states. The proof is by induction on the
  component: a visitor is sound if it over-approximates the states reachable inside its labels
  when the states outside are what the analyzer has recorded.
\<close>

section \<open>Ordering\<close>

fun comp_labels :: "component \<Rightarrow> Label list" where
  "comp_labels (Vertex l) = [l]"
| "comp_labels (Cycle cs) = concat (map comp_labels cs)"

definition edge_list :: "Cfg \<Rightarrow> Label \<Rightarrow> Label list" where
  "edge_list g a = (case om_lookup g a of None \<Rightarrow> [] | Some n \<Rightarrow> children n)"

definition no_edges :: "Cfg \<Rightarrow> Label list \<Rightarrow> Label list \<Rightarrow> bool" where
  "no_edges g us vs = list_all (\<lambda>u. list_all (\<lambda>v. v \<notin> set vs) (edge_list g u)) us"

fun ordered :: "Cfg \<Rightarrow> component list \<Rightarrow> bool" where
  "ordered g [] = True"
| "ordered g (c # cs) =
     (list_all (\<lambda>l. l \<notin> set (comp_labels c)) (concat (map comp_labels cs)) \<and>
      no_edges g (concat (map comp_labels cs)) (comp_labels c) \<and> ordered g cs)"

fun comp_valid :: "Cfg \<Rightarrow> component \<Rightarrow> bool" where
  "comp_valid g (Vertex l) = (l \<notin> set (edge_list g l))"
| "comp_valid g (Cycle (Vertex h # body)) =
     (label_entry \<notin> set (h # concat (map comp_labels body)) \<and> h \<notin> set (concat (map comp_labels body)) \<and>
      ordered g body \<and> list_all (comp_valid g) body)"
| "comp_valid g (Cycle _) = False"

text \<open>The ordering starts at the entry and contains every label that is reached from a label in it.\<close>

definition wto_valid :: "Cfg \<Rightarrow> component list \<Rightarrow> bool" where
  "wto_valid g cs \<longleftrightarrow>
     (case cs of Vertex e # _ \<Rightarrow> e = label_entry | _ \<Rightarrow> False) \<and> ordered g cs \<and> list_all (comp_valid g) cs \<and>
     list_all (\<lambda>u. list_all (\<lambda>v. v \<in> set (concat (map comp_labels cs))) (edge_list g u)) (concat (map comp_labels cs))"

lemma edge_list_iff: "v \<in> set (edge_list g u) \<longleftrightarrow> edge g u v"
  by (simp add: edge_list_def edge_def split: option.splits)

lemma no_edges_iff: "no_edges g us vs \<longleftrightarrow> (\<forall>u\<in>set us. \<forall>v\<in>set vs. \<not> edge g u v)"
  by (auto simp: no_edges_def list_all_iff edge_list_iff)

section \<open>Concrete executions\<close>

inductive reachable :: "Cfg \<Rightarrow> (Label \<Rightarrow> 's \<Rightarrow> 's \<Rightarrow> bool) \<Rightarrow> 's set \<Rightarrow> Label \<Rightarrow> 's \<Rightarrow> bool"
  for g step S0 where
  reachable_entry: "s \<in> S0 \<Longrightarrow> reachable g step S0 label_entry s"
| reachable_step: "reachable g step S0 u s \<Longrightarrow> step u s s' \<Longrightarrow> edge g u v \<Longrightarrow> reachable g step S0 v s'"

text \<open>Executions inside a set of labels, entered from outside with the states \<open>In\<close>.\<close>

inductive reach_in :: "Cfg \<Rightarrow> (Label \<Rightarrow> 's \<Rightarrow> 's \<Rightarrow> bool) \<Rightarrow> Label set \<Rightarrow> (Label \<Rightarrow> 's set) \<Rightarrow> 's set \<Rightarrow> Label \<Rightarrow> 's \<Rightarrow> bool"
  for g step C In S0 where
  enter: "v \<in> C \<Longrightarrow> u \<notin> C \<Longrightarrow> edge g u v \<Longrightarrow> s \<in> In u \<Longrightarrow> reach_in g step C In S0 v s"
| move: "v \<in> C \<Longrightarrow> u \<in> C \<Longrightarrow> edge g u v \<Longrightarrow> reach_in g step C In S0 u s \<Longrightarrow> step u s s' \<Longrightarrow> reach_in g step C In S0 v s'"
| start: "label_entry \<in> C \<Longrightarrow> s \<in> S0 \<Longrightarrow> reach_in g step C In S0 label_entry s"

lemma reach_in_member: "reach_in g step C In S0 l s \<Longrightarrow> l \<in> C"
  by (induction rule: reach_in.induct) auto

lemma reach_in_start:
  assumes "label_entry \<in> C \<Longrightarrow> S0' = S0" "reach_in g step C In S0 l s"
  shows "reach_in g step C In S0' l s"
  using assms(2) by (induction rule: reach_in.induct) (use assms(1) in \<open>auto intro: reach_in.intros\<close>)

text \<open>Two consecutive groups of labels, without edges back, entered one after the other.\<close>

lemma reach_in_first:
  assumes "reach_in g step (C1 \<union> C2) In S0 l s" "\<forall>u\<in>C2. \<forall>v\<in>C1. \<not> edge g u v" "l \<in> C1"
  shows "reach_in g step C1 In S0 l s"
  using assms(1,3)
proof (induction rule: reach_in.induct)
  case (enter v u s)
  then show ?case by (auto intro: reach_in.enter)
next
  case (move v u s s')
  then have "u \<in> C1" using assms(2) by blast
  then show ?case using move by (auto intro: reach_in.move)
next
  case (start s)
  then show ?case by (auto intro: reach_in.start)
qed

lemma reach_in_second:
  assumes "reach_in g step (C1 \<union> C2) In S0 l s" "\<forall>u\<in>C2. \<forall>v\<in>C1. \<not> edge g u v" "l \<in> C2" "C1 \<inter> C2 = {}"
    and "\<And>l s s'. reach_in g step C1 In S0 l s \<Longrightarrow> step l s s' \<Longrightarrow> s' \<in> In' l"
    and "\<And>u. u \<notin> C1 \<Longrightarrow> In' u = In u"
  shows "reach_in g step C2 In' S0 l s"
  using assms(1,3)
proof (induction rule: reach_in.induct)
  case (enter v u s)
  then show ?case using assms(6)[of u] by (auto intro: reach_in.enter)
next
  case (move v u s s')
  show ?case
  proof (cases "u \<in> C2")
    case True
    then show ?thesis using move by (auto intro: reach_in.move)
  next
    case False
    then have "u \<in> C1" using move by blast
    then have "s' \<in> In' u" using reach_in_first[OF move.hyps(4) assms(2)] assms(5) move.hyps(5) by blast
    then show ?thesis using False move.prems move.hyps by (auto intro: reach_in.enter)
  qed
next
  case (start s)
  then show ?case by (auto intro: reach_in.start)
qed

text \<open>A cycle: once the states of the head are covered, the rest is reached from outside it.\<close>

lemma reach_in_body:
  assumes "reach_in g step (insert h B) In S0 l s" "h \<notin> B" "label_entry \<notin> insert h B"
    and "\<And>u s. u \<notin> insert h B \<Longrightarrow> edge g u h \<Longrightarrow> s \<in> In u \<Longrightarrow> s \<in> H"
    and "\<And>u s s'. reach_in g step B In' S0' u s \<Longrightarrow> edge g u h \<Longrightarrow> step u s s' \<Longrightarrow> s' \<in> H"
    and "\<And>s s'. s \<in> H \<Longrightarrow> step h s s' \<Longrightarrow> s' \<in> In' h \<and> (edge g h h \<longrightarrow> s' \<in> H)"
    and "\<And>u. u \<notin> insert h B \<Longrightarrow> In' u = In u"
  shows "if l = h then s \<in> H else reach_in g step B In' S0' l s"
  using assms(1)
proof (induction rule: reach_in.induct)
  case (enter v u s)
  then show ?case using assms(4)[of u s] assms(7)[of u] by (auto intro: reach_in.enter)
next
  case (move v u s s')
  have u: "if u = h then s \<in> H else reach_in g step B In' S0' u s" by (fact move.IH)
  show ?case
  proof (cases "u = h")
    case True
    then have "s' \<in> In' h" "edge g h h \<Longrightarrow> s' \<in> H" using u move.hyps(5) assms(6)[of s s'] by auto
    then show ?thesis using True move.hyps(1,3) assms(2) by (auto intro: reach_in.enter[where u = h])
  next
    case False
    then have b: "reach_in g step B In' S0' u s" "u \<in> B" using u move.hyps(2) by auto
    show ?thesis
    proof (cases "v = h")
      case True
      then show ?thesis using assms(5)[OF b(1) _ move.hyps(5)] move.hyps(3) by simp
    next
      case False
      then show ?thesis using b move.hyps by (auto intro: reach_in.move)
    qed
  qed
next
  case (start s)
  then show ?case using assms(3) by simp
qed

lemma reach_in_known_head:
  assumes "reach_in g step (insert h B) In S0 l s" "label_entry \<notin> insert h B" "l \<noteq> h"
    and "\<And>s s'. reach_in g step (insert h B) In S0 h s \<Longrightarrow> step h s s' \<Longrightarrow> s' \<in> In' h"
    and "\<And>u. u \<notin> insert h B \<Longrightarrow> In' u = In u"
  shows "reach_in g step (B - {h}) In' S0' l s"
  using assms(1,3)
proof (induction rule: reach_in.induct)
  case (enter v u s)
  then show ?case using assms(5)[of u] by (auto intro: reach_in.enter)
next
  case (move v u s s')
  show ?case
  proof (cases "u = h")
    case True
    then have "s' \<in> In' h" using assms(4) move.hyps(4,5) by blast
    then show ?thesis using True move.hyps(1,3) move.prems by (auto intro: reach_in.enter[where u = h])
  next
    case False
    then show ?thesis using move by (auto intro: reach_in.move)
  qed
next
  case (start s)
  then show ?case using assms(2) by simp
qed

lemma reach_in_cong:
  assumes "\<And>u. u \<notin> C \<Longrightarrow> In u = In' u"
  shows "reach_in g step C In S0 l s \<Longrightarrow> reach_in g step C In' S0 l s"
proof (induction rule: reach_in.induct)
  case (enter v u s)
  then show ?case using assms[of u] by (auto intro: reach_in.enter)
qed (auto intro: reach_in.move reach_in.start)

section \<open>Analyzer states\<close>

definition pres :: "('d \<Rightarrow> 's set) \<Rightarrow> 'd analyzer \<Rightarrow> Label \<Rightarrow> 's set" where
  "pres gamma A l = (case om_lookup (invariants A) l of None \<Rightarrow> {} | Some p \<Rightarrow> gamma (inv_pre p))"

definition posts :: "('d \<Rightarrow> 's set) \<Rightarrow> 'd analyzer \<Rightarrow> Label \<Rightarrow> 's set" where
  "posts gamma A l = (case om_lookup (invariants A) l of None \<Rightarrow> {} | Some p \<Rightarrow> gamma (inv_post p))"

text \<open>Well-formed states; an error is recorded only together with the failure of the analysis.\<close>

definition state_ok :: "('d \<Rightarrow> bool) \<Rightarrow> 'd analyzer \<Rightarrow> bool" where
  "state_ok dwf A \<longleftrightarrow> om_wf (invariants A) \<and>
     (\<forall>l p. om_lookup (invariants A) l = Some p \<longrightarrow> dwf (inv_pre p) \<and> dwf (inv_post p) \<and> (inv_error p \<noteq> None \<longrightarrow> failed A))"

text \<open>What every visit of the labels \<open>C\<close> keeps.\<close>

definition evolves :: "('d \<Rightarrow> bool) \<Rightarrow> Label set \<Rightarrow> 'd analyzer \<Rightarrow> 'd analyzer \<Rightarrow> bool" where
  "evolves dwf C A A' \<longleftrightarrow> state_ok dwf A' \<and> (\<forall>u. u \<notin> C \<longrightarrow> om_lookup (invariants A') u = om_lookup (invariants A) u) \<and>
     (failed A \<longrightarrow> failed A') \<and> (skip A' \<longrightarrow> skip A) \<and>
     (\<forall>u. om_lookup (invariants A) u \<noteq> None \<longrightarrow> om_lookup (invariants A') u \<noteq> None)"

lemma evolves_refl: "state_ok dwf A \<Longrightarrow> evolves dwf C A A"
  by (simp add: evolves_def)

lemma evolves_trans: "evolves dwf C A B \<Longrightarrow> evolves dwf C' B B' \<Longrightarrow> evolves dwf (C \<union> C') A B'"
  by (auto simp: evolves_def)

lemma evolves_mono: "evolves dwf C A B \<Longrightarrow> C \<subseteq> C' \<Longrightarrow> evolves dwf C' A B"
  by (auto simp: evolves_def)

lemma evolves_ok: "evolves dwf C A B \<Longrightarrow> state_ok dwf B"
  by (simp add: evolves_def)

lemma evolves_outside: "evolves dwf C A B \<Longrightarrow> u \<notin> C \<Longrightarrow> posts gamma B u = posts gamma A u \<and> pres gamma B u = pres gamma A u"
  by (auto simp: evolves_def posts_def pres_def)

lemma evolves_failed: "evolves dwf C A B \<Longrightarrow> \<not> failed B \<Longrightarrow> \<not> failed A"
  by (auto simp: evolves_def)

lemma evolves_skip: "evolves dwf C A B \<Longrightarrow> \<not> skip A \<Longrightarrow> \<not> skip B"
  by (auto simp: evolves_def)

lemma inv_at_iff: "inv_at A l = Inr p \<longleftrightarrow> om_lookup (invariants A) l = Some p"
  by (simp add: inv_at_def split: option.splits)

lemma update_evolves:
  assumes "state_ok dwf A" "om_lookup (invariants A) l = Some p" "dwf (inv_pre q)" "dwf (inv_post q)"
    "inv_error q \<noteq> None \<longrightarrow> failed A'" "failed A \<longrightarrow> failed A'" "skip A' = skip A"
    "invariants A' = om_update l q (invariants A)"
  shows "evolves dwf {l} A A' \<and> om_lookup (invariants A') l = Some q"
  using assms by (auto simp: evolves_def state_ok_def om_wf_update om_lookup_update split: if_splits)

lemma set_pre_spec:
  assumes "set_pre l d A = Inr A'" "state_ok dwf A" "dwf d"
  shows "evolves dwf {l} A A'" "pres gamma A' l = gamma d" "posts gamma A' u = posts gamma A u" "failed A' = failed A"
proof -
  obtain p where p: "om_lookup (invariants A) l = Some p" "A' = A\<lparr>invariants := om_update l (p\<lparr>inv_pre := d\<rparr>) (invariants A)\<rparr>"
    using assms(1) by (auto simp: set_pre_def result_iffs inv_at_iff)
  have e: "evolves dwf {l} A A' \<and> om_lookup (invariants A') l = Some (p\<lparr>inv_pre := d\<rparr>)"
    by (rule update_evolves[OF assms(2) p(1)]) (use assms(2,3) p in \<open>auto simp: state_ok_def\<close>)
  then show "evolves dwf {l} A A'" "pres gamma A' l = gamma d" "failed A' = failed A" using p(2) by (auto simp: pres_def)
  show "posts gamma A' u = posts gamma A u"
    using e p(1) evolves_outside[of dwf "{l}" A A' u gamma] by (cases "u = l") (auto simp: posts_def)
qed

section \<open>Contract of the domain\<close>

text \<open>The assertions of a node that a visit checks: all of them, except on a loop counter.\<close>

definition safe_at :: "Program \<Rightarrow> (Assertion \<Rightarrow> Label \<Rightarrow> 's \<Rightarrow> bool) \<Rightarrow> Label \<Rightarrow> 's \<Rightarrow> bool" where
  "safe_at P holds l s \<longleftrightarrow>
     (\<forall>ins as. instruction_at P l = Inr ins \<and> \<not> is_loop_counter ins \<and> assertions_at P l = Inr as \<longrightarrow> (\<forall>a\<in>set as. holds a l s))"

text \<open>
  A state at a label is covered when it is in the recorded state before the node, satisfies its
  assertions, and its successors are in the recorded state after the node.
\<close>

definition covered ::
    "Program \<Rightarrow> ('d \<Rightarrow> 's set) \<Rightarrow> (Label \<Rightarrow> 's \<Rightarrow> 's \<Rightarrow> bool) \<Rightarrow> (Assertion \<Rightarrow> Label \<Rightarrow> 's \<Rightarrow> bool) \<Rightarrow> 'd analyzer \<Rightarrow> Label \<Rightarrow> 's \<Rightarrow> bool" where
  "covered P gamma step holds A l s \<longleftrightarrow>
     s \<in> pres gamma A l \<and> safe_at P holds l s \<and> (\<forall>s'. step l s s' \<longrightarrow> s' \<in> posts gamma A l)"

definition sound_visitor ::
    "Program \<Rightarrow> ('d \<Rightarrow> 's set) \<Rightarrow> ('d \<Rightarrow> bool) \<Rightarrow> (Label \<Rightarrow> 's \<Rightarrow> 's \<Rightarrow> bool) \<Rightarrow> (Assertion \<Rightarrow> Label \<Rightarrow> 's \<Rightarrow> bool) \<Rightarrow>
     Label set \<Rightarrow> ('d analyzer \<Rightarrow> 'd analyzer out) \<Rightarrow> bool" where
  "sound_visitor P gamma dwf step holds C f \<longleftrightarrow>
     (\<forall>A A'. state_ok dwf A \<and> \<not> skip A \<and> f A = Some (Inr A') \<longrightarrow>
        evolves dwf C A A' \<and>
        (\<not> failed A' \<longrightarrow> (\<forall>l s. reach_in (m_cfg P) step C (posts gamma A) (pres gamma A label_entry) l s \<longrightarrow>
           covered P gamma step holds A' l s)))"

lemma sound_visitorD:
  assumes "sound_visitor P gamma dwf step holds C f" "state_ok dwf A" "\<not> skip A" "f A = Some (Inr A')"
  shows "evolves dwf C A A'"
    "\<not> failed A' \<Longrightarrow> reach_in (m_cfg P) step C (posts gamma A) (pres gamma A label_entry) l s \<Longrightarrow> covered P gamma step holds A' l s"
  using assms unfolding sound_visitor_def by blast+

lemma covered_outside:
  "evolves dwf C A A' \<Longrightarrow> l \<notin> C \<Longrightarrow> covered P gamma step holds A l s \<Longrightarrow> covered P gamma step holds A' l s"
  by (auto simp: covered_def evolves_outside)

lemma sound_visitor_seq:
  assumes f: "sound_visitor P gamma dwf step holds C1 f" and fs: "sound_visitor P gamma dwf step holds C2 (oseq fs)"
    and dis: "C1 \<inter> C2 = {}" and nb: "\<forall>u\<in>C2. \<forall>v\<in>C1. \<not> edge (m_cfg P) u v"
  shows "sound_visitor P gamma dwf step holds (C1 \<union> C2) (oseq (f # fs))"
  unfolding sound_visitor_def
proof (intro allI impI)
  fix A A'
  assume a: "state_ok dwf A \<and> \<not> skip A \<and> oseq (f # fs) A = Some (Inr A')"
  then obtain A1 where A1: "f A = Some (Inr A1)" "oseq fs A1 = Some (Inr A')" by (auto simp: obind_iff)
  note s1 = sound_visitorD[OF f _ _ A1(1)]
  have e1: "evolves dwf C1 A A1" using s1(1) a by blast
  then have A1ok: "state_ok dwf A1" "\<not> skip A1" using a evolves_ok evolves_skip by blast+
  note s2 = sound_visitorD[OF fs A1ok A1(2)]
  have "covered P gamma step holds A' l s"
    if nf: "\<not> failed A'" and r: "reach_in (m_cfg P) step (C1 \<union> C2) (posts gamma A) (pres gamma A label_entry) l s" for l s
  proof -
    have nf1: "\<not> failed A1" using evolves_failed[OF s2(1) nf] .
    have c1: "covered P gamma step holds A1 l s"
      if "reach_in (m_cfg P) step C1 (posts gamma A) (pres gamma A label_entry) l s" for l s
      using s1(2)[OF _ _ nf1 that] a by blast
    show ?thesis
    proof (cases "l \<in> C1")
      case True
      then have "covered P gamma step holds A1 l s" using c1 reach_in_first[OF r nb] by blast
      moreover have "l \<notin> C2" using True dis by blast
      ultimately show ?thesis by (intro covered_outside[OF s2(1)])
    next
      case False
      then have l2: "l \<in> C2" using reach_in_member[OF r] by blast
      have out: "u \<notin> C1 \<Longrightarrow> posts gamma A1 u = posts gamma A u" for u using evolves_outside[OF e1, of u gamma] by simp
      have r2: "reach_in (m_cfg P) step C2 (posts gamma A1) (pres gamma A label_entry) l s"
        by (rule reach_in_second[OF r nb l2 dis]) (use c1 out in \<open>auto simp: covered_def\<close>)
      have "pres gamma A1 label_entry = pres gamma A label_entry" if "label_entry \<in> C2"
        using evolves_outside[OF e1, of label_entry gamma] that dis by blast
      then have "reach_in (m_cfg P) step C2 (posts gamma A1) (pres gamma A1 label_entry) l s"
        using r2 by (rule reach_in_start)
      then show ?thesis by (rule s2(2)[OF nf])
    qed
  qed
  then show "evolves dwf (C1 \<union> C2) A A' \<and> (\<not> failed A' \<longrightarrow>
      (\<forall>l s. reach_in (m_cfg P) step (C1 \<union> C2) (posts gamma A) (pres gamma A label_entry) l s \<longrightarrow> covered P gamma step holds A' l s))"
    using evolves_trans[OF e1 s2(1)] by blast
qed

lemma sound_visitor_empty: "sound_visitor P gamma dwf step holds {} (oseq [])"
  by (auto simp: sound_visitor_def evolves_refl dest: reach_in_member)

locale sound_analysis =
  fixes D :: "'d domain_ops" and P :: Program and gamma :: "'d \<Rightarrow> 's set" and dwf :: "'d \<Rightarrow> bool"
    and step :: "Label \<Rightarrow> 's \<Rightarrow> 's \<Rightarrow> bool" and holds :: "Assertion \<Rightarrow> Label \<Rightarrow> 's \<Rightarrow> bool"
  assumes dwf_bottom: "dwf (dom_bottom D)"
    and dwf_join_into: "dwf a \<Longrightarrow> dwf b \<Longrightarrow> dwf (dom_join_into D a b)"
    and dwf_join: "dwf a \<Longrightarrow> dwf b \<Longrightarrow> dwf (dom_join D a b)"
    and dwf_meet: "dwf a \<Longrightarrow> dwf b \<Longrightarrow> dwf (dom_meet D a b)"
    and dwf_widen: "dwf a \<Longrightarrow> dwf b \<Longrightarrow> dwf (dom_widen D a b c)"
    and dwf_narrow: "dwf a \<Longrightarrow> dwf b \<Longrightarrow> dwf (dom_narrow D a b)"
    and dwf_transform: "dwf d \<Longrightarrow> dwf (dom_transform D d ins)"
    and le_sound: "dwf a \<Longrightarrow> dwf b \<Longrightarrow> dom_le D a b \<Longrightarrow> gamma a \<subseteq> gamma b"
    and join_sound: "dwf a \<Longrightarrow> dwf b \<Longrightarrow> gamma a \<union> gamma b \<subseteq> gamma (dom_join_into D a b)"
    and meet_sound: "dwf a \<Longrightarrow> dwf b \<Longrightarrow> gamma a \<inter> gamma b \<subseteq> gamma (dom_meet D a b)"
    and narrow_sound: "dwf a \<Longrightarrow> dwf b \<Longrightarrow> gamma a \<inter> gamma b \<subseteq> gamma (dom_narrow D a b)"
    and is_bottom_sound: "dwf d \<Longrightarrow> dom_is_bottom D d \<Longrightarrow> gamma d = {}"
    and check_sound: "dwf d \<Longrightarrow> dom_check D d asrt l = None \<Longrightarrow> s \<in> gamma d \<Longrightarrow> holds asrt l s"
    and transform_sound: "dwf d \<Longrightarrow> instruction_at P l = Inr ins \<Longrightarrow> s \<in> gamma d \<Longrightarrow> safe_at P holds l s \<Longrightarrow>
      step l s s' \<Longrightarrow> s' \<in> gamma (dom_transform D d ins)"
    and prog: "program_inv P"
begin

lemma dwf_refine: "dwf a \<Longrightarrow> dwf b \<Longrightarrow> dwf (refine D a b n)"
  and dwf_extrapolate: "dwf a \<Longrightarrow> dwf b \<Longrightarrow> dwf (extrapolate D a b n)"
  and refine_sound: "dwf a \<Longrightarrow> dwf b \<Longrightarrow> s \<in> gamma a \<Longrightarrow> s \<in> gamma b \<Longrightarrow> s \<in> gamma (refine D a b n)"
  using meet_sound[of a b] narrow_sound[of a b]
  by (auto simp: refine_def extrapolate_def dwf_meet dwf_narrow dwf_join dwf_widen)

lemma check_all_sound:
  "check_all D d l as = None \<Longrightarrow> dwf d \<Longrightarrow> s \<in> gamma d \<Longrightarrow> \<forall>a\<in>set as. holds a l s"
  by (induction as) (auto split: option.splits intro: check_sound)

lemma set_post_spec:
  assumes "set_post l d A = Inr A'" "state_ok dwf A" "dwf d"
  shows "evolves dwf {l} A A' \<and> posts gamma A' l = gamma d \<and> pres gamma A' l = pres gamma A l"
proof -
  obtain p where p: "om_lookup (invariants A) l = Some p" "A' = A\<lparr>invariants := om_update l (p\<lparr>inv_post := d\<rparr>) (invariants A)\<rparr>"
    using assms(1) by (auto simp: set_post_def result_iffs inv_at_iff)
  have "evolves dwf {l} A A' \<and> om_lookup (invariants A') l = Some (p\<lparr>inv_post := d\<rparr>)"
    by (rule update_evolves[OF assms(2) p(1)]) (use assms(2,3) p in \<open>auto simp: state_ok_def\<close>)
  then show ?thesis using p(1) by (auto simp: posts_def pres_def)
qed

lemma set_error_spec:
  assumes "set_error l e A = Inr A'" "state_ok dwf A"
  shows "evolves dwf {l} A A' \<and> failed A'"
proof -
  obtain p where p: "om_lookup (invariants A) l = Some p"
    "A' = A\<lparr>failed := True, invariants := om_update l (p\<lparr>inv_error := Some e\<rparr>) (invariants A)\<rparr>"
    using assms(1) by (auto simp: set_error_def result_iffs inv_at_iff)
  have "evolves dwf {l} A A' \<and> om_lookup (invariants A') l = Some (p\<lparr>inv_error := Some e\<rparr>)"
    by (rule update_evolves[OF assms(2) p(1)]) (use assms(2) p in \<open>auto simp: state_ok_def\<close>)
  then show ?thesis using p(2) by simp
qed

text \<open>A node whose checks pass covers the states it starts from and the states it steps to.\<close>

lemma transform_to_post_spec:
  assumes "transform_to_post D P l d A = Inr A'" "state_ok dwf A" "dwf d"
  shows "evolves dwf {l} A A'" "\<not> failed A' \<Longrightarrow> pres gamma A' l = pres gamma A l"
    "\<not> failed A' \<Longrightarrow> s \<in> gamma d \<Longrightarrow> safe_at P holds l s \<and> (\<forall>s'. step l s s' \<longrightarrow> s' \<in> posts gamma A' l)"
proof -
  obtain ins where ins: "instruction_at P l = Inr ins" using assms(1) by (auto simp: transform_to_post_def result_iffs)
  have err: "has_error A l = Inr True \<Longrightarrow> failed A"
    using assms(2) by (auto simp: has_error_def result_iffs inv_at_iff state_ok_def)
  have safe: "safe_at P holds l s" if "is_loop_counter ins \<or> assertions_at P l = Inr as \<and> check_all D d l as = None" "s \<in> gamma d" for as s
    using that ins check_all_sound[OF _ assms(3)] by (auto simp: safe_at_def)
  consider (post) as where "set_post l (dom_transform D d ins) A = Inr A'"
      "is_loop_counter ins \<or> assertions_at P l = Inr as \<and> check_all D d l as = None"
    | (fail) "evolves dwf {l} A A'" "failed A'"
    using assms(1,2) ins err set_error_spec[of l _ A A']
    by (auto simp: transform_to_post_def result_iffs evolves_refl split: if_splits option.splits) (metis not_None_eq)
  then have *: "evolves dwf {l} A A' \<and> (\<not> failed A' \<longrightarrow> pres gamma A' l = pres gamma A l \<and>
      (s \<in> gamma d \<longrightarrow> safe_at P holds l s \<and> (\<forall>s'. step l s s' \<longrightarrow> s' \<in> posts gamma A' l)))"
  proof cases
    case post
    have "safe_at P holds l s \<and> (\<forall>s'. step l s s' \<longrightarrow> s' \<in> posts gamma A' l)" if "s \<in> gamma d"
      using transform_sound[OF assms(3) ins that] safe[OF post(2) that] set_post_spec[OF post(1) assms(2)] assms(3)
      by (simp add: dwf_transform)
    then show ?thesis using set_post_spec[OF post(1) assms(2)] assms(3) by (simp add: dwf_transform)
  qed simp
  then show "evolves dwf {l} A A'" "\<not> failed A' \<Longrightarrow> pres gamma A' l = pres gamma A l"
    "\<not> failed A' \<Longrightarrow> s \<in> gamma d \<Longrightarrow> safe_at P holds l s \<and> (\<forall>s'. step l s s' \<longrightarrow> s' \<in> posts gamma A' l)" by blast+
qed

lemma join_posts:
  assumes "rfold (\<lambda>prev res. rmap (dom_join_into D res) (get_post A prev)) prevs d0 = Inr d" "state_ok dwf A" "dwf d0"
  shows "dwf d \<and> gamma d0 \<subseteq> gamma d \<and> (\<forall>u\<in>set prevs. posts gamma A u \<subseteq> gamma d)"
  using assms
proof (induction prevs arbitrary: d0)
  case (Cons u us)
  then obtain p where p: "om_lookup (invariants A) u = Some p"
      "rfold (\<lambda>prev res. rmap (dom_join_into D res) (get_post A prev)) us (dom_join_into D d0 (inv_post p)) = Inr d"
    by (auto simp: result_iffs get_post_def inv_at_iff)
  have w: "dwf (inv_post p)" using p(1) Cons.prems(2) by (simp add: state_ok_def)
  have "gamma d0 \<union> posts gamma A u \<subseteq> gamma (dom_join_into D d0 (inv_post p))"
    using join_sound[OF Cons.prems(3) w] p(1) by (simp add: posts_def)
  then show ?case using Cons.IH[OF p(2) Cons.prems(2) dwf_join_into[OF Cons.prems(3) w]] by auto
qed simp

lemma join_all_prevs_spec:
  assumes "join_all_prevs D P l A = Inr d" "state_ok dwf A" "l \<noteq> label_entry"
  shows "dwf d \<and> (\<forall>u. edge (m_cfg P) u l \<longrightarrow> posts gamma A u \<subseteq> gamma d)"
proof -
  obtain n where n: "om_lookup (m_cfg P) l = Some n"
      "rfold (\<lambda>prev res. rmap (dom_join_into D res) (get_post A prev)) (parents n) (dom_bottom D) = Inr d"
    using assms(1,3) by (auto simp: join_all_prevs_def parents_of_def get_node_def result_iffs split: option.splits)
  have "u \<in> set (parents n)" if "edge (m_cfg P) u l" for u
    using that n(1) prog by (simp add: program_inv_def cfg_inv_def back_edge_lookup)
  then show ?thesis using join_posts[OF n(2) assms(2) dwf_bottom] by auto
qed

text \<open>A single vertex without a loop on itself.\<close>

lemma visit_label_sound:
  assumes "\<not> edge (m_cfg P) l l"
  shows "sound_visitor P gamma dwf step holds {l} (\<lambda>A. Some (visit_label D P l A))"
  unfolding sound_visitor_def
proof (intro allI impI)
  fix A A'
  assume a: "state_ok dwf A \<and> \<not> skip A \<and> Some (visit_label D P l A) = Some (Inr A')"
  then obtain d A1 where s: "join_all_prevs D P l A = Inr d" "set_pre l d A = Inr A1" "transform_to_post D P l d A1 = Inr A'"
    by (auto simp: visit_label_def Let_def result_iffs split: if_splits)
  have cover: "dwf d \<and> (\<forall>u s. u \<noteq> l \<longrightarrow> edge (m_cfg P) u l \<longrightarrow> s \<in> posts gamma A u \<longrightarrow> s \<in> gamma d) \<and>
      (l = label_entry \<longrightarrow> gamma d = pres gamma A l)"
  proof (cases "l = label_entry")
    case True
    have "\<not> edge (m_cfg P) u l" for u using prog True by (simp add: program_inv_def)
    moreover obtain p where "om_lookup (invariants A) l = Some p" "d = inv_pre p"
      using s(1) True by (auto simp: join_all_prevs_def get_pre_def result_iffs inv_at_iff)
    ultimately show ?thesis using a by (auto simp: pres_def state_ok_def)
  next
    case False
    then show ?thesis using join_all_prevs_spec[OF s(1)] a by blast
  qed
  have A: "state_ok dwf A" and d: "dwf d" using a cover by blast+
  note s1 = set_pre_spec[OF s(2) A d]
  note s2 = transform_to_post_spec[OF s(3) evolves_ok[OF s1(1)] d]
  have "evolves dwf {l} A A'" using evolves_trans[OF s1(1) s2(1)] by simp
  moreover have "covered P gamma step holds A' v x"
    if nf: "\<not> failed A'" and r: "reach_in (m_cfg P) step {l} (posts gamma A) (pres gamma A label_entry) v x" for v x
  proof -
    have v: "v = l" using reach_in_member[OF r] by simp
    have "x \<in> gamma d" using r v cover assms by cases auto
    then show ?thesis using s2(2)[OF nf] s2(3)[OF nf] s1(2)[of gamma] v by (simp add: covered_def)
  qed
  ultimately show "evolves dwf {l} A A' \<and> (\<not> failed A' \<longrightarrow> (\<forall>v s.
      reach_in (m_cfg P) step {l} (posts gamma A) (pres gamma A label_entry) v s \<longrightarrow> covered P gamma step holds A' v s))" by blast
qed

text \<open>
  One round over a cycle. The facts about it that the iterations use: every state of \<open>d\<close> is safe
  at the head and steps to the recorded state after it, the rest of the cycle covers what is
  reached from the recorded states, and the new state covers all predecessors of the head.
\<close>

lemma cycle_round_spec:
  assumes body: "sound_visitor P gamma dwf step holds B body" and h: "h \<notin> B" "h \<noteq> label_entry"
    and r: "cycle_round D P h body d A = Some (Inr (np, A2))" and ok: "state_ok dwf A" "\<not> skip A" "dwf d"
  shows "evolves dwf (insert h B) A A2 \<and> dwf np" "u \<noteq> h \<or> \<not> failed A2 \<Longrightarrow> u \<notin> B \<Longrightarrow> pres gamma A2 u = pres gamma A u"
    "\<not> failed A2 \<Longrightarrow> s \<in> gamma d \<Longrightarrow> safe_at P holds h s \<and> (\<forall>s'. step h s s' \<longrightarrow> s' \<in> posts gamma A2 h)"
    "\<not> failed A2 \<Longrightarrow> label_entry \<notin> B \<Longrightarrow> reach_in (m_cfg P) step B (posts gamma A2) S0 l s \<Longrightarrow> covered P gamma step holds A2 l s"
    "edge (m_cfg P) u h \<Longrightarrow> posts gamma A2 u \<subseteq> gamma np"
proof -
  obtain A1 where s: "transform_to_post D P h d A = Inr A1" "body A1 = Some (Inr A2)" "join_all_prevs D P h A2 = Inr np"
    using r by (auto simp: cycle_round_def obind_iff result_iffs)
  note t = transform_to_post_spec[OF s(1) ok(1,3)]
  note A1 = evolves_ok[OF t(1)] evolves_skip[OF t(1) ok(2)]
  note b = sound_visitorD[OF body A1 s(2)]
  note j = join_all_prevs_spec[OF s(3) evolves_ok[OF b(1)] h(2)]
  show "evolves dwf (insert h B) A A2 \<and> dwf np" using evolves_trans[OF t(1) b(1)] j by simp
  show "edge (m_cfg P) u h \<Longrightarrow> posts gamma A2 u \<subseteq> gamma np" using j by blast
  have nf: "\<not> failed A2 \<Longrightarrow> \<not> failed A1" using evolves_failed[OF b(1)] .
  show "u \<noteq> h \<or> \<not> failed A2 \<Longrightarrow> u \<notin> B \<Longrightarrow> pres gamma A2 u = pres gamma A u"
    using evolves_outside[OF b(1), of u gamma] evolves_outside[OF t(1), of u gamma] t(2) nf by (cases "u = h") auto
  have ph: "posts gamma A2 h = posts gamma A1 h" using evolves_outside[OF b(1) h(1), of gamma] by simp
  show "\<not> failed A2 \<Longrightarrow> s \<in> gamma d \<Longrightarrow> safe_at P holds h s \<and> (\<forall>s'. step h s s' \<longrightarrow> s' \<in> posts gamma A2 h)"
    using t(3)[OF nf] ph by simp
  assume f: "\<not> failed A2" and e: "label_entry \<notin> B" and re: "reach_in (m_cfg P) step B (posts gamma A2) S0 l s"
  have "posts gamma A2 u = posts gamma A1 u" if "u \<notin> B" for u using evolves_outside[OF b(1) that, of gamma] by simp
  then have "reach_in (m_cfg P) step B (posts gamma A1) S0 l s" using reach_in_cong[OF _ re] by simp
  then have "reach_in (m_cfg P) step B (posts gamma A1) (pres gamma A1 label_entry) l s"
    by (rule reach_in_start[rotated]) (use e in simp)
  then show "covered P gamma step holds A2 l s" by (rule b(2)[OF f])
qed

text \<open>A round from a state that contains the states of the head covers the whole cycle.\<close>

lemma round_cover:
  assumes body: "sound_visitor P gamma dwf step holds B body" and h: "h \<notin> B" "label_entry \<notin> insert h B"
    and ev: "evolves dwf (insert h B) A A1" and ok: "state_ok dwf A1" "\<not> skip A1" "dwf d"
    and r: "cycle_round D P h body d A1 = Some (Inr (np, A2))" and nf: "\<not> failed A2"
    and head: "\<And>s. reach_in (m_cfg P) step (insert h B) (posts gamma A) S0 h s \<Longrightarrow> s \<in> gamma d"
    and re: "reach_in (m_cfg P) step (insert h B) (posts gamma A) S0 l s"
  shows "if l = h then s \<in> gamma np \<and> safe_at P holds h s \<and> (\<forall>s'. step h s s' \<longrightarrow> s' \<in> posts gamma A2 h)
    else covered P gamma step holds A2 l s"
proof -
  have ne: "h \<noteq> label_entry" and eB: "label_entry \<notin> B" using h(2) by auto
  note rs = cycle_round_spec[OF body h(1) ne r ok]
  have ev2: "evolves dwf (insert h B) A A2" using evolves_trans[OF ev conjunct1[OF rs(1)]] by simp
  have out: "u \<notin> insert h B \<Longrightarrow> posts gamma A2 u = posts gamma A u" for u using evolves_outside[OF ev2, of u gamma] by simp
  have inB: "covered P gamma step holds A2 u x"
    if "reach_in (m_cfg P) step (insert h B) (posts gamma A) S0 u x" "u \<noteq> h" for u x
  proof -
    have "reach_in (m_cfg P) step (B - {h}) (posts gamma A2) S0 u x"
      by (rule reach_in_known_head[OF that(1) h(2) that(2)]) (use head rs(3)[OF nf] out in auto)
    then show ?thesis using rs(4)[OF nf eB] h(1) by simp
  qed
  have inh: "safe_at P holds h x \<and> (\<forall>s'. step h x s' \<longrightarrow> s' \<in> posts gamma A2 h)"
    if "reach_in (m_cfg P) step (insert h B) (posts gamma A) S0 h x" for x using rs(3)[OF nf head[OF that]] .
  have "s \<in> gamma np" if "l = h"
    using re
  proof cases
    case (enter u)
    then show ?thesis using out[of u] rs(5)[of u] that by auto
  next
    case (move u s0)
    then have "s \<in> posts gamma A2 u" using inB[of u s0] inh[of s0] by (cases "u = h") (auto simp: covered_def)
    then show ?thesis using rs(5)[of u] move that by auto
  qed (use h(2) in auto)
  then show ?thesis using inh inB re by auto
qed

lemma increasing_spec:
  assumes body: "sound_visitor P gamma dwf step holds B body" and h: "h \<notin> B" "label_entry \<notin> insert h B"
    and "increasing n D P h body d it A1 = Some (Inr (d', A'))"
    and "evolves dwf (insert h B) A A1" "\<not> skip A1" "dwf d"
  shows "evolves dwf (insert h B) A A' \<and> \<not> skip A' \<and> dwf d' \<and> pres gamma A' h = gamma d' \<and>
    (\<not> failed A' \<longrightarrow> (\<forall>s. reach_in (m_cfg P) step (insert h B) (posts gamma A) S0 h s \<longrightarrow> s \<in> gamma d'))"
  using assms(4-)
proof (induction n arbitrary: d it A1)
  case (Suc n)
  have ne: "h \<noteq> label_entry" using h(2) by auto
  obtain A2 np A3 where s: "set_pre h d A1 = Inr A2" "cycle_round D P h body d A2 = Some (Inr (np, A3))"
    and res: "(if dom_le D np d then Some (rmap (\<lambda>A. (np, A)) (set_pre h np A3))
         else increasing n D P h body (extrapolate D d np it) (it + 1) A3) = Some (Inr (d', A'))"
    using Suc.prems(1) by (auto simp: obind_iff)
  note sp = set_pre_spec[OF s(1) evolves_ok[OF Suc.prems(2)] Suc.prems(4)]
  have ev2: "evolves dwf (insert h B) A A2" using evolves_trans[OF Suc.prems(2) sp(1)] by (simp add: insert_absorb)
  have ok2: "state_ok dwf A2" "\<not> skip A2" using evolves_ok[OF sp(1)] evolves_skip[OF sp(1) Suc.prems(3)] .
  note rs = cycle_round_spec[OF body h(1) ne s(2) ok2 Suc.prems(4)]
  have ev3: "evolves dwf (insert h B) A A3" using evolves_trans[OF ev2 conjunct1[OF rs(1)]] by simp
  have ok3: "state_ok dwf A3" "\<not> skip A3" using evolves_ok[OF ev3] evolves_skip[OF conjunct1[OF rs(1)] ok2(2)] .
  show ?case
  proof (cases "dom_le D np d")
    case False
    then show ?thesis
      using Suc.IH[OF _ ev3 ok3(2), of "extrapolate D d np it" "it + 1"] res rs(1) Suc.prems(4) by (simp add: dwf_extrapolate)
  next
    case True
    then have fin: "set_pre h np A3 = Inr A'" "d' = np" using res by (auto simp: result_iffs)
    note sp3 = set_pre_spec[OF fin(1) ok3(1) conjunct2[OF rs(1)]]
    have sub: "gamma np \<subseteq> gamma d" using le_sound[OF conjunct2[OF rs(1)] Suc.prems(4) True] .
    have "x \<in> gamma np" if nf: "\<not> failed A'" and rx: "reach_in (m_cfg P) step (insert h B) (posts gamma A) S0 h x" for x
    proof -
      have nf3: "\<not> failed A3" using nf sp3(4) by simp
      have out: "u \<notin> insert h B \<Longrightarrow> posts gamma A3 u = posts gamma A u" for u using evolves_outside[OF ev3, of u gamma] by simp
      have eB: "label_entry \<notin> B" using h(2) by simp
      have "y \<in> gamma d" if ry: "reach_in (m_cfg P) step (insert h B) (posts gamma A) S0 h y" for y
      proof -
        have "if h = h then y \<in> gamma d else reach_in (m_cfg P) step B (posts gamma A3) S0 h y"
          by (rule reach_in_body[OF ry h])
            (use sub out rs(5) rs(3)[OF nf3] rs(4)[OF nf3 eB] in \<open>fastforce simp: covered_def\<close>)+
        then show ?thesis by simp
      qed
      from round_cover[OF body h ev2 ok2 Suc.prems(4) s(2) nf3 this rx] show ?thesis by simp
    qed
    moreover have "evolves dwf (insert h B) A A'" using evolves_trans[OF ev3 sp3(1)] by (simp add: insert_absorb)
    ultimately show ?thesis using fin(2) rs(1) sp3(2)[of gamma] evolves_skip[OF sp3(1) ok3(2)] by simp
  qed
qed simp

lemma decreasing_spec:
  assumes body: "sound_visitor P gamma dwf step holds B body" and h: "h \<notin> B" "label_entry \<notin> insert h B"
    and "decreasing D P h body d it A1 = Some (Inr A')"
    and "evolves dwf (insert h B) A A1" "\<not> skip A1" "dwf d"
    and "\<not> failed A1 \<longrightarrow> pres gamma A1 h = gamma d \<and>
      (\<forall>s. reach_in (m_cfg P) step (insert h B) (posts gamma A) S0 h s \<longrightarrow> s \<in> gamma d)"
  shows "evolves dwf (insert h B) A A' \<and> (\<not> failed A' \<longrightarrow>
    (\<forall>l s. reach_in (m_cfg P) step (insert h B) (posts gamma A) S0 l s \<longrightarrow> covered P gamma step holds A' l s))"
  using assms(4-)
proof (induction "descending_iterations + 1 - it" arbitrary: d it A1 rule: less_induct)
  case less
  have ne: "h \<noteq> label_entry" using h(2) by auto
  obtain np A2 where s: "cycle_round D P h body d A1 = Some (Inr (np, A2))"
    and res: "(if dom_le D d np \<or> it > descending_iterations then Some (Inr A2)
       else obind (Some (set_pre h (refine D d np it) A2)) (decreasing D P h body (refine D d np it) (it + 1))) = Some (Inr A')"
    using less.prems(1) unfolding decreasing.simps[of D P h body d it A1]
    by (auto simp: obind_iff Let_def simp del: decreasing.simps split: if_splits)
  have ok1: "state_ok dwf A1" using evolves_ok[OF less.prems(2)] .
  note rs = cycle_round_spec[OF body h(1) ne s ok1 less.prems(3,4)]
  have ev2: "evolves dwf (insert h B) A A2" using evolves_trans[OF less.prems(2) conjunct1[OF rs(1)]] by simp
  have ok2: "state_ok dwf A2" "\<not> skip A2" using evolves_ok[OF ev2] evolves_skip[OF conjunct1[OF rs(1)] less.prems(3)] .
  have nf1: "\<not> failed A2 \<Longrightarrow> \<not> failed A1" using evolves_failed[OF conjunct1[OF rs(1)]] .
  have rc: "if l = h then x \<in> gamma np \<and> safe_at P holds h x \<and> (\<forall>s'. step h x s' \<longrightarrow> s' \<in> posts gamma A2 h)
      else covered P gamma step holds A2 l x"
    if "\<not> failed A2" "reach_in (m_cfg P) step (insert h B) (posts gamma A) S0 l x" for l x
    using round_cover[OF body h less.prems(2) ok1 less.prems(3,4) s that(1) _ that(2)] less.prems(5) nf1[OF that(1)] by blast
  show ?case
  proof (cases "dom_le D d np \<or> it > descending_iterations")
    case True
    then have A': "A' = A2" using res by simp
    have "covered P gamma step holds A2 l x"
      if nf: "\<not> failed A2" and rx: "reach_in (m_cfg P) step (insert h B) (posts gamma A) S0 l x" for l x
    proof (cases "l = h")
      case True
      have "pres gamma A2 h = gamma d" using rs(2)[of h] h(1) nf less.prems(5) nf1[OF nf] by simp
      moreover have "x \<in> gamma d" using less.prems(5) nf1[OF nf] rx True by blast
      ultimately show ?thesis using rc[OF nf rx] True by (simp add: covered_def)
    qed (use rc[OF nf rx] in simp)
    then show ?thesis using ev2 A' by simp
  next
    case False
    then obtain A3 where A3: "set_pre h (refine D d np it) A2 = Inr A3"
        "decreasing D P h body (refine D d np it) (it + 1) A3 = Some (Inr A')"
      using res by (auto simp: obind_iff simp del: decreasing.simps)
    have dr: "dwf (refine D d np it)" using dwf_refine[OF less.prems(4) conjunct2[OF rs(1)]] .
    note sp = set_pre_spec[OF A3(1) ok2(1) dr]
    have ev3: "evolves dwf (insert h B) A A3" using evolves_trans[OF ev2 sp(1)] by (simp add: insert_absorb)
    have lt: "descending_iterations + 1 - (it + 1) < descending_iterations + 1 - it" using False by arith
    have cov: "x \<in> gamma (refine D d np it)"
      if nf: "\<not> failed A3" and rx: "reach_in (m_cfg P) step (insert h B) (posts gamma A) S0 h x" for x
    proof -
      have nf2: "\<not> failed A2" using nf sp(4) by simp
      then have "x \<in> gamma d" using less.prems(5) nf1[OF nf2] rx by blast
      then show ?thesis using refine_sound[OF less.prems(4) conjunct2[OF rs(1)]] rc[OF nf2 rx] by simp
    qed
    have inv: "\<not> failed A3 \<longrightarrow> pres gamma A3 h = gamma (refine D d np it) \<and>
        (\<forall>s. reach_in (m_cfg P) step (insert h B) (posts gamma A) S0 h s \<longrightarrow> s \<in> gamma (refine D d np it))"
      using cov sp(2)[of gamma] by blast
    show ?thesis by (rule less.hyps[OF lt A3(2) ev3 evolves_skip[OF sp(1) ok2(2)] dr inv])
  qed
qed

lemma dwf_incoming:
  assumes "oseq (map (\<lambda>prev d. obind (nesting W prev) (\<lambda>n. if \<not> nesting_gt n cn then Some (rmap (dom_join_into D d) (get_post A prev))
      else Some (Inr d))) prevs) d0 = Some (Inr d)" "state_ok dwf A" "dwf d0"
  shows "dwf d"
  using assms
proof (induction prevs arbitrary: d0)
  case (Cons u us)
  then obtain d1 where d1: "d1 = d0 \<or> (\<exists>p. om_lookup (invariants A) u = Some p \<and> d1 = dom_join_into D d0 (inv_post p))"
      "oseq (map (\<lambda>prev d. obind (nesting W prev) (\<lambda>n. if \<not> nesting_gt n cn then Some (rmap (dom_join_into D d) (get_post A prev))
      else Some (Inr d))) us) d1 = Some (Inr d)"
    by (auto simp: obind_iff result_iffs get_post_def inv_at_iff split: if_splits)
  then have "dwf d1" using Cons.prems(2,3) dwf_join_into by (auto simp: state_ok_def)
  then show ?case using Cons.IH[OF d1(2) Cons.prems(2)] by blast
qed simp

lemma visit_cycle_sound:
  assumes body: "sound_visitor P gamma dwf step holds B (body h)" and h: "h \<notin> B" "label_entry \<notin> insert h B"
  shows "sound_visitor P gamma dwf step holds (insert h B) (visit_cycle fuel D P W (Vertex h # cs) body)"
  unfolding sound_visitor_def
proof (intro allI impI)
  fix A A'
  assume a: "state_ok dwf A \<and> \<not> skip A \<and> visit_cycle fuel D P W (Vertex h # cs) body A = Some (Inr A')"
  then have sk: "A\<lparr>skip := False\<rparr> = A" by (cases A) simp
  from a obtain d d' A2 where s: "incoming D P W h A = Some (Inr d)" "increasing fuel D P h (body h) d 1 A = Some (Inr (d', A2))"
      "decreasing D P h (body h) d' 1 A2 = Some (Inr A')"
    by (auto simp: visit_cycle_def obind_iff Let_def sk simp del: decreasing.simps)
  have d: "dwf d" using s(1) a dwf_incoming[of W _ A _ "dom_bottom D"] dwf_bottom by (auto simp: incoming_def obind_iff)
  note i = increasing_spec[OF body h s(2) evolves_refl _ d, where ?S0.0 = "pres gamma A label_entry"]
  show "evolves dwf (insert h B) A A' \<and> (\<not> failed A' \<longrightarrow>
    (\<forall>l s. reach_in (m_cfg P) step (insert h B) (posts gamma A) (pres gamma A label_entry) l s \<longrightarrow> covered P gamma step holds A' l s))"
    by (rule decreasing_spec[OF body h s(3)]) (use i a in blast)+
qed

lemma visit_all_sound:
  assumes "ordered (m_cfg P) cs" and "\<And>c. c \<in> set cs \<Longrightarrow> sound_visitor P gamma dwf step holds (set (comp_labels c)) (f c)"
  shows "sound_visitor P gamma dwf step holds (set (concat (map comp_labels cs))) (oseq (map f cs))"
  using assms
proof (induction cs)
  case (Cons c cs)
  have "sound_visitor P gamma dwf step holds (set (comp_labels c) \<union> set (concat (map comp_labels cs))) (oseq (f c # map f cs))"
    by (rule sound_visitor_seq) (use Cons in \<open>auto simp: no_edges_iff list_all_iff\<close>)
  then show ?case by (simp del: oseq.simps)
qed (use sound_visitor_empty in simp)

lemma visit_sound:
  "comp_valid (m_cfg P) c \<Longrightarrow> sound_visitor P gamma dwf step holds (set (comp_labels c)) (visit fuel D P W c)"
proof (induction "m_cfg P" c rule: comp_valid.induct)
  case (1 l)
  have "visit fuel D P W (Vertex l) = (\<lambda>A. Some (visit_label D P l A))" by (rule ext) simp
  then show ?case using 1 visit_label_sound[of l] by (simp add: edge_list_iff)
next
  case (2 h body)
  let ?B = "set (concat (map comp_labels body))"
  let ?b = "\<lambda>head. oseq (map (\<lambda>c A. if c = Vertex head then Some (Inr A) else visit fuel D P W c A) (Vertex h # body))"
  have h: "h \<notin> ?B" "label_entry \<notin> insert h ?B" using 2(2) by auto
  have "c \<noteq> Vertex h" if "c \<in> set body" for c using h(1) that by (force simp: image_iff)
  then have "map (\<lambda>c A. if c = Vertex h then Some (Inr A) else visit fuel D P W c A) body = map (visit fuel D P W) body"
    by (intro map_cong) auto
  then have b: "?b h = oseq (map (visit fuel D P W) body)"
    by (intro ext) (simp only: list.map oseq.simps simp_thms if_True obind_def option.case sum.case)
  have "sound_visitor P gamma dwf step holds ?B (?b h)" unfolding b
    by (rule visit_all_sound) (use 2 in \<open>auto simp: list_all_iff\<close>)
  then have "sound_visitor P gamma dwf step holds (insert h ?B) (visit_cycle fuel D P W (Vertex h # body) ?b)"
    by (rule visit_cycle_sound[where body = ?b]) (use h in auto)
  moreover have "visit fuel D P W (Cycle (Vertex h # body)) = visit_cycle fuel D P W (Vertex h # body) ?b"
    by (rule ext) (rule visit.simps(2))
  ultimately show ?case by simp
qed auto

lemma visit_from_entry: "visit fuel D P W (Vertex label_entry) A = visit fuel D P W (Vertex label_entry) (A\<lparr>skip := False\<rparr>)"
  by (cases A) (simp add: visit_label_def Let_def)

text \<open>A visit of all components, started with the entry, covers the reachable states.\<close>

lemma visits_cover:
  assumes "oseq (map (visit fuel D P W) cs) A = Some (Inr A')" "wto_valid (m_cfg P) cs" "state_ok dwf A" "\<not> failed A'"
    and "reachable (m_cfg P) step (pres gamma A label_entry) l s"
  shows "state_ok dwf A' \<and> covered P gamma step holds A' l s"
proof -
  let ?C = "set (concat (map comp_labels cs))" and ?A = "A\<lparr>skip := False\<rparr>"
  obtain cs' where cs: "cs = Vertex label_entry # cs'"
    using assms(2) by (auto simp: wto_valid_def split: list.splits component.splits)
  have run: "oseq (map (visit fuel D P W) cs) ?A = Some (Inr A')"
    using assms(1) visit_from_entry[of fuel W A] unfolding cs by simp
  have "sound_visitor P gamma dwf step holds ?C (oseq (map (visit fuel D P W) cs))"
    using assms(2) visit_sound by (intro visit_all_sound) (auto simp: wto_valid_def list_all_iff)
  note sv = sound_visitorD[OF this _ _ run]
  have ok: "state_ok dwf ?A" "\<not> skip ?A" using assms(3) by (simp_all add: state_ok_def)
  have same: "posts gamma ?A = posts gamma A" "pres gamma ?A = pres gamma A" by (simp_all add: posts_def pres_def fun_eq_iff)
  have "reach_in (m_cfg P) step ?C (posts gamma A) (pres gamma A label_entry) l s"
    using assms(5)
  proof (induction rule: reachable.induct)
    case (reachable_entry s)
    then show ?case by (intro reach_in.start) (auto simp: cs)
  next
    case (reachable_step u s s' v)
    have u: "u \<in> ?C" using reach_in_member[OF reachable_step.IH] .
    then have "v \<in> ?C" using assms(2) reachable_step.hyps(3) by (auto simp: wto_valid_def list_all_iff edge_list_iff)
    then show ?case using reach_in.move[OF _ u reachable_step.hyps(3) reachable_step.IH reachable_step.hyps(2)] by blast
  qed
  then show ?thesis using sv(1)[OF ok] sv(2)[OF ok assms(4)] same evolves_ok by simp
qed

lemma set_error_keeps: "set_error l e A = Inr A' \<Longrightarrow> state_ok dwf A \<Longrightarrow> failed A' \<and> state_ok dwf A'"
  using set_error_spec evolves_ok by blast

text \<open>The pass over the loop counters changes errors only, and fails unless every bound is proved.\<close>

lemma termination_pass:
  assumes "rfold (\<lambda>(l, p) A. if dom_is_bottom D (inv_pre p) then Inr A
       else rbind (check_loop_bound D P l (inv_pre p)) (\<lambda>e. case e of Some err \<Rightarrow> set_error l err A | None \<Rightarrow> Inr A)) ps A = Inr A'"
    and "state_ok dwf A" "\<not> failed A'"
  shows "A' = A \<and> (\<forall>(l, p)\<in>set ps. dom_is_bottom D (inv_pre p) \<or> check_loop_bound D P l (inv_pre p) = Inr None)"
  using assms
proof (induction ps arbitrary: A)
  case (Cons lp ps)
  obtain l p where lp: "lp = (l, p)" by (cases lp)
  let ?f = "\<lambda>(l, p) A. if dom_is_bottom D (inv_pre p) then Inr A
       else rbind (check_loop_bound D P l (inv_pre p)) (\<lambda>e. case e of Some err \<Rightarrow> set_error l err A | None \<Rightarrow> Inr A)"
  obtain A1 where A1: "?f (l, p) A = Inr A1" "rfold ?f ps A1 = Inr A'"
    using Cons.prems(1) unfolding lp by (auto simp: result_iffs)
  have mono: "failed A \<Longrightarrow> state_ok dwf A \<Longrightarrow> rfold ?f ps A = Inr A' \<Longrightarrow> failed A'" for A
    by (rule conjunct1[OF rfold_invariant[where I = "\<lambda>A. failed A \<and> state_ok dwf A"]], assumption)
      (auto simp: result_iffs set_error_keeps[THEN conjunct1] set_error_keeps[THEN conjunct2] split: if_splits option.splits)
  have "A1 = A \<and> (dom_is_bottom D (inv_pre p) \<or> check_loop_bound D P l (inv_pre p) = Inr None) \<or> (\<exists>e. set_error l e A = Inr A1)"
    using A1(1) by (cases "dom_is_bottom D (inv_pre p)"; cases "check_loop_bound D P l (inv_pre p)") (auto split: option.splits)
  then consider "A1 = A" "dom_is_bottom D (inv_pre p) \<or> check_loop_bound D P l (inv_pre p) = Inr None" | e where "set_error l e A = Inr A1"
    by blast
  then show ?case
  proof cases
    case 1
    then show ?thesis using Cons.IH[OF A1(2)] Cons.prems lp by auto
  next
    case 2
    note k = set_error_keeps[OF 2 Cons.prems(2)]
    have "failed A'" by (rule mono[OF conjunct1[OF k] conjunct2[OF k] A1(2)])
    then show ?thesis using Cons.prems(3) by simp
  qed
qed simp

lemma initial_analyzer_ok: "state_ok dwf (initial_analyzer D P)"
proof -
  have "om_wf (m_cfg P)" using prog by (simp add: program_inv_def cfg_inv_def)
  then have "om_wf (invariants (initial_analyzer D P))"
    by (simp add: om_wf_def initial_analyzer_def cfg_labels_def om_keys_def comp_def)
  moreover have "om_lookup (map (\<lambda>l. (l, x)) ls) k = Some y \<Longrightarrow> y = x" for ls k and x y :: "'d InvariantMapPair"
    by (induction ls) (auto split: if_splits)
  ultimately show ?thesis using dwf_bottom by (fastforce simp: state_ok_def initial_analyzer_def)
qed

lemma check_loop_bound_sound:
  assumes "check_loop_bound D P l d = Inr None" "dwf d" "s \<in> gamma d"
    "instruction_at P l = Inr ins" "is_loop_counter ins" "assertions_at P l = Inr as"
  shows "\<forall>a\<in>set as. holds a l s"
proof -
  have "length as = 1" "dom_check D d (hd as) l = None"
    using assms by (auto simp: check_loop_bound_def split: if_splits)
  then show ?thesis using check_sound[OF assms(2) _ assms(3)] by (cases as) auto
qed

text \<open>
  What an accepted analysis says: at every label the reachable states are in the invariant before
  the node, satisfy its assertions (on loop counters, if termination is checked), and their
  successors are in the invariant after it.
\<close>

lemma analysis_sound:
  assumes "run_analysis fuel D P cft entry_inv = Some (Inr r)" "\<not> res_failed r"
    and "build_wto (m_cfg P) = Some (Inr W)" "wto_valid (m_cfg P) (wto_trees W)"
    and "entry_state D cft (wto_trees W) entry_inv = Inr d" "dwf d"
    and "reachable (m_cfg P) step (gamma d) l s"
  shows "\<exists>p. om_lookup (res_invariants r) l = Some p \<and> s \<in> gamma (inv_pre p) \<and>
    (\<forall>s'. step l s s' \<longrightarrow> s' \<in> gamma (inv_post p)) \<and>
    (\<forall>ins as. instruction_at P l = Inr ins \<and> assertions_at P l = Inr as \<and> (is_loop_counter ins \<longrightarrow> cft) \<longrightarrow> (\<forall>a\<in>set as. holds a l s))"
proof -
  obtain A1 A2 where A: "set_pre label_entry d (initial_analyzer D P) = Inr A1"
      "oseq (map (visit fuel D P W) (wto_trees W)) A1 = Some (Inr A2)" "finish_analysis D P cft A2 = Inr r"
    using assms(1,3,5) by (auto simp: run_analysis_def obind_iff)
  note sp = set_pre_spec[OF A(1) initial_analyzer_ok assms(6)]
  have A1: "state_ok dwf A1" "pres gamma A1 label_entry = gamma d" using evolves_ok[OF sp(1)] sp(2)[of gamma] by simp_all
  obtain A3 where A3: "res_invariants r = invariants A3" "failed A3 = res_failed r"
      "if \<not> failed A2 \<and> cft then find_termination_errors D P A2 = Inr A3 else A3 = A2"
    using A(3) by (cases "\<not> failed A2 \<and> cft") (auto simp: finish_analysis_def result_iffs)
  have nf: "\<not> failed A2" using A3 assms(2) by (metis)
  note c = visits_cover[OF A(2) assms(4) A1(1) nf, of l s]
  then have ok: "state_ok dwf A2" and cov: "covered P gamma step holds A2 l s" using assms(7) A1(2) by auto
  have pass: "A3 = A2 \<and> (cft \<longrightarrow> (\<forall>(l, p)\<in>set (invariants A2). dom_is_bottom D (inv_pre p) \<or> check_loop_bound D P l (inv_pre p) = Inr None))"
  proof (cases cft)
    case True
    then have t: "find_termination_errors D P A2 = Inr A3" using A3(3) nf by simp
    have "\<not> failed A3" using A3(2) assms(2) by simp
    then show ?thesis using termination_pass[OF t[unfolded find_termination_errors_def] ok] by blast
  next
    case False
    then show ?thesis using A3(3) by simp
  qed
  obtain p where p: "om_lookup (invariants A2) l = Some p" "s \<in> gamma (inv_pre p)" "\<forall>s'. step l s s' \<longrightarrow> s' \<in> gamma (inv_post p)"
    using cov by (auto simp: covered_def pres_def posts_def split: option.splits)
  have dp: "dwf (inv_pre p)" using ok p(1) by (simp add: state_ok_def)
  have "\<forall>a\<in>set as. holds a l s"
    if "instruction_at P l = Inr ins" "assertions_at P l = Inr as" "is_loop_counter ins \<longrightarrow> cft" for ins as
  proof (cases "is_loop_counter ins")
    case True
    have "\<not> dom_is_bottom D (inv_pre p)" using is_bottom_sound[OF dp] p(2) by auto
    then have "check_loop_bound D P l (inv_pre p) = Inr None"
      using pass True that(3) map_of_SomeD[OF p(1)] by auto
    then show ?thesis using check_loop_bound_sound[OF _ dp p(2) that(1) True that(2)] by blast
  next
    case False
    then show ?thesis using cov that by (auto simp: covered_def safe_at_def)
  qed
  then show ?thesis using p pass A3(1) by auto
qed

end

end
