(* ===== verification/Fwd_Termination.thy ===== *)
theory Fwd_Termination
  imports Fwd_Sound
begin

text \<open>
  Termination of the fixpoint iterator: with enough fuel an analysis returns, if every widening
  sequence of the domain is finite. Fuel only bounds the number of increasing
  iterations, so more fuel never changes an outcome (\<open>fuel_mono\<close>), and the amounts that the
  parts of a cycle need can be combined by taking the larger one.
\<close>

section \<open>Fuel\<close>

definition fuel_mono :: "(nat \<Rightarrow> 's \<Rightarrow> 't out) \<Rightarrow> bool" where
  "fuel_mono f \<longleftrightarrow> (\<forall>n m s r. n \<le> m \<and> f n s = Some r \<longrightarrow> f m s = Some r)"

definition settles :: "('s \<Rightarrow> bool) \<Rightarrow> (nat \<Rightarrow> 's \<Rightarrow> 't out) \<Rightarrow> bool" where
  "settles Q f \<longleftrightarrow> (\<forall>s. Q s \<longrightarrow> (\<exists>n. f n s \<noteq> None))"

lemma fuel_mono_at: "fuel_mono f \<Longrightarrow> n \<le> m \<Longrightarrow> f n s = Some r \<Longrightarrow> f m s = Some r"
  unfolding fuel_mono_def by blast

lemma obind_mono:
  assumes "obind m f = Some r" "\<And>x. m = Some x \<Longrightarrow> m' = Some x" "\<And>x. f x = Some r \<Longrightarrow> f' x = Some r"
  shows "obind m' f' = Some r"
proof -
  obtain x where x: "m = Some x" using assms(1) by (cases m) (auto simp: obind_def)
  then show ?thesis using assms(1) assms(2)[OF x] assms(3) by (cases x) (simp_all add: obind_def)
qed

lemma obind_returns:
  "m = Some x \<Longrightarrow> (\<And>y. x = Inr y \<Longrightarrow> f y \<noteq> None) \<Longrightarrow> obind m f \<noteq> None"
  by (auto simp: obind_None)

lemma oseq_mono:
  assumes "list_all2 (\<lambda>f g. \<forall>s r. f s = Some r \<longrightarrow> g s = Some r) fs gs" "oseq fs s = Some r"
  shows "oseq gs s = Some r"
  using assms
proof (induction arbitrary: s rule: list_all2_induct)
  case (Cons f fs g gs)
  have "obind (g s) (oseq gs) = Some r"
    by (rule obind_mono[of "f s" "oseq fs"]) (use Cons in auto)
  then show ?case by simp
qed simp

lemma fuel_mono_seq: "(\<And>f. f \<in> set fs \<Longrightarrow> fuel_mono f) \<Longrightarrow> fuel_mono (\<lambda>n. oseq (map (\<lambda>f. f n) fs))"
  unfolding fuel_mono_def
proof (intro allI impI, elim conjE)
  fix n m s r
  assume f: "\<And>f. f \<in> set fs \<Longrightarrow> \<forall>n m s r. n \<le> m \<and> f n s = Some r \<longrightarrow> f m s = Some r"
    and nm: "(n::nat) \<le> m" and r: "oseq (map (\<lambda>f. f n) fs) s = Some r"
  show "oseq (map (\<lambda>f. f m) fs) s = Some r"
    by (rule oseq_mono[OF _ r]) (use f nm in \<open>auto simp: list_all2_map1 list_all2_map2 list_all2_same\<close>)
qed

text \<open>A sequence settles when its parts do and the states they produce stay in \<open>Q\<close>.\<close>

lemma settles_seq:
  assumes "\<And>f. f \<in> set fs \<Longrightarrow> fuel_mono f" "\<And>f. f \<in> set fs \<Longrightarrow> settles Q f"
    "\<And>f n s t. f \<in> set fs \<Longrightarrow> Q s \<Longrightarrow> f n s = Some (Inr t) \<Longrightarrow> Q t"
  shows "settles Q (\<lambda>n. oseq (map (\<lambda>f. f n) fs))"
  unfolding settles_def
proof (intro allI impI)
  fix s
  assume "Q s"
  with assms show "\<exists>n. oseq (map (\<lambda>f. f n) fs) s \<noteq> None"
  proof (induction fs arbitrary: s)
    case (Cons f fs)
    obtain n0 x where n0: "f n0 s = Some x" using Cons.prems(2)[of f] Cons.prems(4) by (auto simp: settles_def)
    show ?case
    proof (cases x)
      case (Inl e)
      then show ?thesis using n0 by (intro exI[of _ n0]) (simp add: obind_def)
    next
      case (Inr t)
      have "Q t" using Cons.prems(3)[of f s n0 t] Cons.prems(4) n0 Inr by simp
      then have "\<exists>n1. oseq (map (\<lambda>f. f n1) fs) t \<noteq> None"
        by (intro Cons.IH) (use Cons.prems(1,2) Cons.prems(3)[OF list.set_intros(2)] in auto)
      then obtain n1 where n1: "oseq (map (\<lambda>f. f n1) fs) t \<noteq> None" by blast
      let ?n = "max n0 n1"
      have "fuel_mono f" "fuel_mono (\<lambda>n. oseq (map (\<lambda>f. f n) fs))" using Cons.prems(1) by (simp_all add: fuel_mono_seq)
      note mono = this[unfolded fuel_mono_def, rule_format]
      have "f ?n s = Some (Inr t)" using mono(1)[of n0 ?n s] n0 Inr by simp
      moreover have "oseq (map (\<lambda>f. f ?n) fs) t \<noteq> None" using n1 mono(2)[of n1 ?n t] by auto
      ultimately show ?thesis by (intro exI[of _ ?n]) (simp add: obind_def)
    qed
  qed simp
qed

section \<open>Monotonicity of the iterator in the fuel\<close>

lemma cycle_round_mono:
  assumes "cycle_round D P h body d A = Some r" "\<And>A r. body A = Some r \<Longrightarrow> body' A = Some r"
  shows "cycle_round D P h body' d A = Some r"
  using assms(1) unfolding cycle_round_def
  by (rule obind_mono) (auto elim!: obind_mono intro: assms(2))

lemma increasing_mono:
  assumes "increasing n D P h body d it A = Some r" "n \<le> m" "\<And>A r. body A = Some r \<Longrightarrow> body' A = Some r"
  shows "increasing m D P h body' d it A = Some r"
  using assms(1,2)
proof (induction n arbitrary: m d it A)
  case (Suc n)
  then obtain m' where m: "m = Suc m'" "n \<le> m'" by (cases m) auto
  show ?case using Suc.prems(1) unfolding m(1) increasing.simps
  proof (rule obind_mono, goal_cases)
    case (2 A2)
    from 2 show ?case
      by (rule obind_mono) (auto intro: cycle_round_mono[OF _ assms(3)] Suc.IH[OF _ m(2)] split: if_splits)
  qed simp
qed simp

lemma decreasing_mono:
  assumes "decreasing D P h body d it A = Some r" "\<And>A r. body A = Some r \<Longrightarrow> body' A = Some r"
  shows "decreasing D P h body' d it A = Some r"
  using assms(1)
proof (induction "descending_iterations + 1 - it" arbitrary: d it A r rule: less_induct)
  case less
  have step: "decreasing D P h body' d' (Suc it) A' = Some r'"
    if "decreasing D P h body d' (Suc it) A' = Some r'" "\<not> it > descending_iterations" for d' A' r'
    by (rule less.hyps[OF _ that(1)]) (use that(2) in arith)
  show ?case using less.prems unfolding decreasing.simps[of D P h _ d it A]
  proof (rule obind_mono, goal_cases)
    case (1 x)
    then show ?case by (rule cycle_round_mono[OF _ assms(2)])
  next
    case (2 x)
    then show ?case by (cases x) (auto simp: Let_def simp del: decreasing.simps elim!: obind_mono intro: step split: if_splits)
  qed
qed

lemma visit_cycle_mono:
  assumes "visit_cycle n D P W cs body A = Some r" "n \<le> m" "\<And>h A r. body h A = Some r \<Longrightarrow> body' h A = Some r"
  shows "visit_cycle m D P W cs body' A = Some r"
  using assms(1) unfolding visit_cycle_def
proof (rule obind_mono, goal_cases)
  case (2 h)
  then show ?case
  proof (rule obind_mono, goal_cases)
    case (2 e)
    let ?A = "A\<lparr>skip := skip A \<and> \<not> e\<rparr>"
    show ?case
    proof (cases "skip ?A")
      case False
      then have "obind (if e then Some (get_pre ?A label_entry) else incoming D P W h ?A)
          (\<lambda>d. obind (increasing n D P h (body h) d 1 ?A) (\<lambda>(d, A). decreasing D P h (body h) d 1 A)) = Some r"
        using 2 by (simp only: Let_def if_False)
      then have "obind (if e then Some (get_pre ?A label_entry) else incoming D P W h ?A)
          (\<lambda>d. obind (increasing m D P h (body' h) d 1 ?A) (\<lambda>(d, A). decreasing D P h (body' h) d 1 A)) = Some r"
      proof (rule obind_mono, goal_cases)
        case (2 d)
        then show ?case
        proof (rule obind_mono, goal_cases)
          case (1 x)
          then show ?case by (rule increasing_mono[OF _ assms(2) assms(3)])
        next
          case (2 x)
          then show ?case by (cases x) (simp del: decreasing.simps add: decreasing_mono[OF _ assms(3)])
        qed
      qed
      then show ?thesis using False by (simp only: Let_def if_False)
    qed (use 2 in \<open>simp only: Let_def if_True\<close>)
  qed
qed

lemma visit_fuel_mono: "fuel_mono (\<lambda>n. visit n D P W c)"
proof (induction c)
  case (Vertex l)
  then show ?case by (simp add: fuel_mono_def)
next
  case (Cycle cs)
  let ?f = "\<lambda>h c n A. if c = Vertex h then Some (Inr A) else visit n D P W c A"
  have each: "fuel_mono (?f h c)" if "c \<in> set cs" for h c
  proof (cases "c = Vertex h")
    case False
    then have "?f h c = (\<lambda>n. visit n D P W c)" by (intro ext) simp
    then show ?thesis using Cycle.IH[OF that] by simp
  qed (simp add: fuel_mono_def)
  have fm: "fuel_mono (\<lambda>n. oseq (map (\<lambda>f. f n) (map (?f h) cs)))" for h
    by (rule fuel_mono_seq) (use each in auto)
  have "map (\<lambda>f. f n) (map (?f h) cs) = map (\<lambda>c. ?f h c n) cs" for h n by simp
  then have body: "oseq (map (\<lambda>c. ?f h c m) cs) A = Some r"
    if "oseq (map (\<lambda>c. ?f h c n) cs) A = Some r" "n \<le> m" for h n m A r
    using fuel_mono_at[OF fm that(2), of h A r] that(1) by (simp only:)
  show ?case unfolding fuel_mono_def
  proof (intro allI impI, elim conjE)
    fix n m A r
    assume nm: "(n::nat) \<le> m" and r: "visit n D P W (Cycle cs) A = Some r"
    show "visit m D P W (Cycle cs) A = Some r"
      using r unfolding visit.simps by (rule visit_cycle_mono[OF _ nm]) (rule body[OF _ nm])
  qed
qed

section \<open>Termination\<close>

context sound_analysis
begin

lemma round_returns:
  assumes "fuel_mono body" "settles (\<lambda>A. state_ok dwf A \<and> \<not> skip A) body" "state_ok dwf A" "\<not> skip A" "dwf d"
  shows "\<exists>n x. cycle_round D P h (body n) d A = Some x"
proof (cases "transform_to_post D P h d A")
  case (Inl e)
  then show ?thesis by (simp add: cycle_round_def obind_def)
next
  case (Inr A1)
  note t = transform_to_post_spec(1)[OF Inr assms(3,5)]
  obtain n x where "body n A1 = Some x"
    using assms(2) evolves_ok[OF t] evolves_skip[OF t assms(4)] by (auto simp: settles_def)
  then show ?thesis using Inr by (intro exI[of _ n]) (cases x; simp add: cycle_round_def obind_def)
qed

lemma increasing_step:
  assumes mono: "fuel_mono body" and settle: "settles (\<lambda>A. state_ok dwf A \<and> \<not> skip A) body"
    and sound: "\<And>n. sound_visitor P gamma dwf step holds B (body n)" and h: "h \<notin> B" "h \<noteq> label_entry"
    and A: "dwf d" "state_ok dwf A" "\<not> skip A"
    and rec: "\<And>np A2. dwf np \<Longrightarrow> state_ok dwf A2 \<Longrightarrow> \<not> skip A2 \<Longrightarrow> \<not> dom_le D np d \<Longrightarrow>
      \<exists>n. increasing n D P h (body n) (extrapolate D d np it) (it + 1) A2 \<noteq> None"
  shows "\<exists>n. increasing n D P h (body n) d it A \<noteq> None"
proof (cases "set_pre h d A")
  case (Inl e)
  then show ?thesis by (intro exI[of _ 1]) (simp add: obind_def)
next
  case (Inr A1)
  note sp = set_pre_spec[OF Inr A(2,1)]
  have A1: "state_ok dwf A1" "\<not> skip A1" using evolves_ok[OF sp(1)] evolves_skip[OF sp(1) A(3)] .
  obtain n0 x where n0: "cycle_round D P h (body n0) d A1 = Some x"
    using round_returns[OF mono settle A1 A(1)] by blast
  have round: "cycle_round D P h (body n) d A1 = Some x" if "n0 \<le> n" for n
    by (rule cycle_round_mono[OF n0]) (rule fuel_mono_at[OF mono that])
  show ?thesis
  proof (cases "\<exists>np A2. x = Inr (np, A2) \<and> \<not> dom_le D np d")
    case False
    then show ?thesis using Inr round[of "Suc n0"] by (intro exI[of _ "Suc n0"]) (cases x; auto simp: obind_def)
  next
    case True
    then obtain np A2 where x: "x = Inr (np, A2)" "\<not> dom_le D np d" by blast
    note rs = cycle_round_spec[OF sound h n0[unfolded x(1)] A1 A(1)]
    have A2: "state_ok dwf A2" "\<not> skip A2" using evolves_ok[OF conjunct1[OF rs(1)]] evolves_skip[OF conjunct1[OF rs(1)] A1(2)] .
    obtain n1 y where n1: "increasing n1 D P h (body n1) (extrapolate D d np it) (it + 1) A2 = Some y"
      using rec[OF conjunct2[OF rs(1)] A2 x(2)] by auto
    let ?n = "max n0 n1"
    have "increasing ?n D P h (body (Suc ?n)) (extrapolate D d np it) (it + 1) A2 = Some y"
      by (rule increasing_mono[OF n1], simp, rule fuel_mono_at[OF mono, of n1]) simp
    then show ?thesis using Inr round[of "Suc ?n"] x by (intro exI[of _ "Suc ?n"]) (simp add: obind_def)
  qed
qed

text \<open>The increasing iteration, by induction on the widening sequence that starts at the second round.\<close>

lemma increasing_returns:
  assumes wfw: "wf {(dom_widen D a b c, a) |a b c. dwf a \<and> dwf b \<and> \<not> dom_le D b a}"
    and mono: "fuel_mono body" and settle: "settles (\<lambda>A. state_ok dwf A \<and> \<not> skip A) body"
    and sound: "\<And>n. sound_visitor P gamma dwf step holds B (body n)" and h: "h \<notin> B" "h \<noteq> label_entry"
    and A: "dwf d" "state_ok dwf A" "\<not> skip A"
  shows "\<exists>n. increasing n D P h (body n) d 1 A \<noteq> None"
proof -
  have late: "2 \<le> it \<Longrightarrow> dwf d \<Longrightarrow> state_ok dwf A \<Longrightarrow> \<not> skip A \<Longrightarrow> \<exists>n. increasing n D P h (body n) d it A \<noteq> None" for it d A
    using wfw
  proof (induction d arbitrary: it A rule: wf_induct_rule)
    case (less d)
    show ?case
    proof (rule increasing_step[OF mono settle sound h less.prems(2-4)])
      fix np A2
      assume np: "dwf np" "state_ok dwf A2" "\<not> skip A2" "\<not> dom_le D np d"
      have "extrapolate D d np it = dom_widen D d np (it = 2)" using less.prems(1) by (simp add: extrapolate_def)
      then have "(extrapolate D d np it, d) \<in> {(dom_widen D a b c, a) |a b c. dwf a \<and> dwf b \<and> \<not> dom_le D b a}"
        using less.prems(2) np by blast
      from less.IH[OF this _ dwf_extrapolate[OF less.prems(2) np(1)] np(2,3)] less.prems(1)
      show "\<exists>n. increasing n D P h (body n) (extrapolate D d np it) (it + 1) A2 \<noteq> None" by simp
    qed
  qed
  show ?thesis
    by (rule increasing_step[OF mono settle sound h A], rule late) (auto intro: dwf_extrapolate A)
qed

lemma decreasing_returns:
  assumes mono: "fuel_mono body" and settle: "settles (\<lambda>A. state_ok dwf A \<and> \<not> skip A) body"
    and sound: "\<And>n. sound_visitor P gamma dwf step holds B (body n)" and h: "h \<notin> B" "h \<noteq> label_entry"
  shows "dwf d \<Longrightarrow> state_ok dwf A \<Longrightarrow> \<not> skip A \<Longrightarrow> \<exists>n. decreasing D P h (body n) d it A \<noteq> None"
proof (induction "descending_iterations + 1 - it" arbitrary: d it A rule: less_induct)
  case less
  obtain n0 x where n0: "cycle_round D P h (body n0) d A = Some x"
    using round_returns[OF mono settle less.prems(2,3,1)] by blast
  show ?case
  proof (cases "\<exists>np A2 A3. x = Inr (np, A2) \<and> \<not> dom_le D d np \<and> \<not> it > descending_iterations \<and> set_pre h (refine D d np it) A2 = Inr A3")
    case False
    then have "decreasing D P h (body n0) d it A \<noteq> None"
      unfolding decreasing.simps[of D P h "body n0" d it A] n0
      by (cases x) (auto simp: obind_def Let_def simp del: decreasing.simps split: sum.splits)
    then show ?thesis by blast
  next
    case True
    then obtain np A2 A3 where x: "x = Inr (np, A2)" "\<not> dom_le D d np" "\<not> it > descending_iterations"
        "set_pre h (refine D d np it) A2 = Inr A3" by blast
    note rs = cycle_round_spec[OF sound h n0[unfolded x(1)] less.prems(2,3,1)]
    have A2: "state_ok dwf A2" "\<not> skip A2"
      using evolves_ok[OF conjunct1[OF rs(1)]] evolves_skip[OF conjunct1[OF rs(1)] less.prems(3)] .
    have dr: "dwf (refine D d np it)" using dwf_refine[OF less.prems(1) conjunct2[OF rs(1)]] .
    note sp = set_pre_spec(1)[OF x(4) A2(1) dr]
    have lt: "descending_iterations + 1 - (it + 1) < descending_iterations + 1 - it" using x(3) by arith
    obtain n1 y where n1: "decreasing D P h (body n1) (refine D d np it) (it + 1) A3 = Some y"
      using less.hyps[OF lt dr evolves_ok[OF sp] evolves_skip[OF sp A2(2)]] by auto
    let ?n = "max n0 n1"
    have "cycle_round D P h (body ?n) d A = Some x"
      by (rule cycle_round_mono[OF n0], rule fuel_mono_at[OF mono, of n0]) simp
    moreover have "decreasing D P h (body ?n) (refine D d np it) (it + 1) A3 = Some y"
      by (rule decreasing_mono[OF n1], rule fuel_mono_at[OF mono, of n1]) simp
    ultimately have "decreasing D P h (body ?n) d it A = Some y"
      using x unfolding decreasing.simps[of D P h "body ?n" d it A] by (simp add: obind_def Let_def del: decreasing.simps)
    then show ?thesis by blast
  qed
qed

lemma incoming_returns:
  assumes "\<And>l. nesting W l \<noteq> None"
  shows "incoming D P W h A \<noteq> None"
proof -
  have "oseq (map (\<lambda>prev d. obind (nesting W prev) (\<lambda>n. if \<not> nesting_gt n cn then Some (rmap (dom_join_into D d) (get_post A prev))
      else Some (Inr d))) prevs) d \<noteq> None" for cn prevs d
    by (induction prevs arbitrary: d) (auto simp: obind_None assms simp del: not_None_eq split: if_splits)
  then show ?thesis by (auto simp: incoming_def obind_None assms simp del: not_None_eq)
qed

lemma visit_cycle_returns:
  assumes wfw: "wf {(dom_widen D a b c, a) |a b c. dwf a \<and> dwf b \<and> \<not> dom_le D b a}" and nest: "\<And>l. nesting W l \<noteq> None"
    and mono: "fuel_mono (\<lambda>n. body n h)" and settle: "settles (\<lambda>A. state_ok dwf A \<and> \<not> skip A) (\<lambda>n. body n h)"
    and sound: "\<And>n. sound_visitor P gamma dwf step holds B (body n h)" and h: "h \<notin> B" "label_entry \<notin> insert h B"
    and A: "state_ok dwf A" "\<not> skip A"
  shows "\<exists>n. visit_cycle n D P W (Vertex h # cs) (body n) A \<noteq> None"
proof -
  have ne: "h \<noteq> label_entry" using h(2) by auto
  have sk: "A\<lparr>skip := False\<rparr> = A" using A(2) by (cases A) simp
  have eq: "visit_cycle n D P W (Vertex h # cs) (body n) A = obind (incoming D P W h A) (\<lambda>d.
      obind (increasing n D P h (body n h) d 1 A) (\<lambda>(d, A). decreasing D P h (body n h) d 1 A))" for n
    using A(2) by (simp add: visit_cycle_def obind_def[of "Some _"] sk Let_def del: decreasing.simps)
  obtain x where x: "incoming D P W h A = Some x" using incoming_returns[OF nest] by blast
  show ?thesis
  proof (cases x)
    case (Inl e)
    then show ?thesis unfolding eq x by (simp add: obind_def)
  next
    case (Inr d)
    have d: "dwf d" using x[unfolded Inr] A(1) dwf_incoming[of W _ A _ "dom_bottom D"] dwf_bottom by (auto simp: incoming_def obind_iff)
    obtain n0 y where n0: "increasing n0 D P h (body n0 h) d 1 A = Some y"
      using increasing_returns[OF wfw mono settle sound h(1) ne d A] by auto
    have inc: "increasing n D P h (body n h) d 1 A = Some y" if "n0 \<le> n" for n
      by (rule increasing_mono[OF n0 that]) (rule fuel_mono_at[OF mono that])
    show ?thesis
    proof (cases y)
      case (Inl e)
      then show ?thesis unfolding eq x \<open>x = Inr d\<close> using n0 by (intro exI[of _ n0]) (simp add: obind_def)
    next
      case (Inr dA)
      obtain d' A' where y: "y = Inr (d', A')" using Inr by (cases dA) auto
      note i = increasing_spec[OF sound h n0[unfolded y] evolves_refl[OF A(1)] A(2) d]
      obtain n1 z where n1: "decreasing D P h (body n1 h) d' 1 A' = Some z"
        using decreasing_returns[OF mono settle sound h(1) ne, of d' A' 1] i evolves_ok by fastforce
      let ?n = "max n0 n1"
      have "decreasing D P h (body ?n h) d' 1 A' = Some z"
        by (rule decreasing_mono[OF n1], rule fuel_mono_at[OF mono, of n1]) simp
      then have "visit_cycle ?n D P W (Vertex h # cs) (body ?n) A = Some z"
        unfolding eq x \<open>x = Inr d\<close> using inc[of ?n] y by (simp add: obind_def)
      then show ?thesis by blast
    qed
  qed
qed

lemma visit_all_settles:
  assumes "\<And>c. c \<in> set cs \<Longrightarrow> comp_valid (m_cfg P) c"
    and "\<And>c. c \<in> set cs \<Longrightarrow> settles (\<lambda>A. state_ok dwf A \<and> \<not> skip A) (\<lambda>n. visit n D P W c)"
  shows "settles (\<lambda>A. state_ok dwf A \<and> \<not> skip A) (\<lambda>n. oseq (map (visit n D P W) cs))"
proof -
  have "settles (\<lambda>A. state_ok dwf A \<and> \<not> skip A) (\<lambda>n. oseq (map (\<lambda>f. f n) (map (\<lambda>c n. visit n D P W c) cs)))"
  proof (rule settles_seq)
    fix f n A A'
    assume f: "f \<in> set (map (\<lambda>c n. visit n D P W c) cs)" and A: "state_ok dwf A \<and> \<not> skip A" and r: "f n A = Some (Inr A')"
    then obtain c where c: "c \<in> set cs" "visit n D P W c A = Some (Inr A')" by auto
    note e = sound_visitorD(1)[OF visit_sound[OF assms(1)[OF c(1)]] _ _ c(2)]
    show "state_ok dwf A' \<and> \<not> skip A'" using A evolves_ok[OF e] evolves_skip[OF e] by blast
  qed (use assms(2) visit_fuel_mono in auto)
  then show ?thesis by (simp add: comp_def)
qed

lemma visit_settles:
  assumes wfw: "wf {(dom_widen D a b c, a) |a b c. dwf a \<and> dwf b \<and> \<not> dom_le D b a}" and nest: "\<And>l. nesting W l \<noteq> None"
  shows "comp_valid (m_cfg P) c \<Longrightarrow> settles (\<lambda>A. state_ok dwf A \<and> \<not> skip A) (\<lambda>n. visit n D P W c)"
proof (induction "m_cfg P" c rule: comp_valid.induct)
  case (1 l)
  then show ?case by (simp add: settles_def)
next
  case (2 h body)
  let ?B = "set (concat (map comp_labels body))"
  let ?b = "\<lambda>n head. oseq (map (\<lambda>c A. if c = Vertex head then Some (Inr A) else visit n D P W c A) (Vertex h # body))"
  have h: "h \<notin> ?B" "label_entry \<notin> insert h ?B" using 2(2) by auto
  have valid: "comp_valid (m_cfg P) c" if "c \<in> set body" for c using 2(2) that by (simp add: list_all_iff)
  have "c \<noteq> Vertex h" if "c \<in> set body" for c using h(1) that by (force simp: image_iff)
  then have "map (\<lambda>c A. if c = Vertex h then Some (Inr A) else visit n D P W c A) body = map (visit n D P W) body" for n
    by (intro map_cong) auto
  then have b: "?b n h = oseq (map (visit n D P W) body)" for n
    by (intro ext) (simp only: list.map oseq.simps simp_thms if_True obind_def option.case sum.case)
  have "fuel_mono (\<lambda>n. oseq (map (\<lambda>f. f n) (map (\<lambda>c n. visit n D P W c) body)))"
    by (rule fuel_mono_seq) (use visit_fuel_mono in auto)
  then have mono: "fuel_mono (\<lambda>n. ?b n h)" unfolding b by (simp add: comp_def)
  have settle: "settles (\<lambda>A. state_ok dwf A \<and> \<not> skip A) (\<lambda>n. ?b n h)"
    unfolding b by (rule visit_all_settles) (use 2 valid in auto)
  have sound: "sound_visitor P gamma dwf step holds ?B (?b n h)" for n
    unfolding b by (rule visit_all_sound) (use 2(2) visit_sound valid in auto)
  have "\<exists>n. visit_cycle n D P W (Vertex h # body) (?b n) A \<noteq> None" if "state_ok dwf A \<and> \<not> skip A" for A
    by (rule visit_cycle_returns[where body = ?b, OF wfw nest mono settle sound h]) (use that in auto)
  then show ?case unfolding settles_def visit.simps by blast
qed (simp_all add: settles_def)

lemma analysis_returns:
  assumes wfw: "wf {(dom_widen D a b c, a) |a b c. dwf a \<and> dwf b \<and> \<not> dom_le D b a}"
    and W: "build_wto (m_cfg P) = Some (Inr W)" "wto_valid (m_cfg P) (wto_trees W)" "\<And>l. nesting W l \<noteq> None"
    and d: "\<And>d. entry_state D cft (wto_trees W) entry_inv = Inr d \<Longrightarrow> dwf d"
  shows "\<exists>fuel. run_analysis fuel D P cft entry_inv \<noteq> None"
proof (cases "rbind (entry_state D cft (wto_trees W) entry_inv) (\<lambda>d. set_pre label_entry d (initial_analyzer D P))")
  case (Inl e)
  then show ?thesis using W(1) by (simp add: run_analysis_def obind_def)
next
  case (Inr A)
  then obtain d0 where d0: "entry_state D cft (wto_trees W) entry_inv = Inr d0" "set_pre label_entry d0 (initial_analyzer D P) = Inr A"
    by (auto simp: result_iffs)
  note sp = set_pre_spec(1)[OF d0(2) initial_analyzer_ok d[OF d0(1)]]
  obtain cs where cs: "wto_trees W = Vertex label_entry # cs"
    using W(2) by (auto simp: wto_valid_def split: list.splits component.splits)
  have "settles (\<lambda>A. state_ok dwf A \<and> \<not> skip A) (\<lambda>n. oseq (map (visit n D P W) (wto_trees W)))"
    by (rule visit_all_settles) (use W(2) visit_settles[OF wfw W(3)] in \<open>auto simp: wto_valid_def list_all_iff\<close>)
  moreover have "state_ok dwf (A\<lparr>skip := False\<rparr>)" using evolves_ok[OF sp] by (simp add: state_ok_def)
  ultimately obtain n where "oseq (map (visit n D P W) (wto_trees W)) (A\<lparr>skip := False\<rparr>) \<noteq> None"
    by (fastforce simp: settles_def)
  then have "oseq (map (visit n D P W) (wto_trees W)) A \<noteq> None"
    using visit_from_entry[of n W A] unfolding cs by simp
  then have "run_analysis n D P cft entry_inv \<noteq> None"
    unfolding run_analysis_def W(1) by (auto simp: obind_None Inr simp del: not_None_eq)
  then show ?thesis by blast
qed

end

end
