(* ===== verification/Cfg_Builder.thy ===== *)
theory Cfg_Builder
  imports Wto Assertions
begin

text \<open>
  Construction of the program that is analyzed (\<^verbatim>\<open>ir/cfg_builder.cpp\<close>): from the decoded
  instructions to a control-flow graph in which conditional jumps are assumptions on the edges,
  local functions are inlined, loops have counters and every node has its assertions; and the
  readers of the result, basic blocks and statistics.

  The two loops whose termination is not evident (the inlining of a function body and the
  weak topological order) are \<^const>\<open>while_option\<close>, where \<^const>\<open>None\<close> is a loop that does not end. The
  recursion of \<^verbatim>\<open>add_cfg_nodes\<close> into nested calls has as fuel the bound on the number of call
  stack frames.
\<close>

section \<open>Conditions and labels\<close>

fun reverse_op :: "Condition_Op \<Rightarrow> Condition_Op" where
  "reverse_op EQ = NE"
| "reverse_op NE = EQ"
| "reverse_op GE = LT"
| "reverse_op LT = GE"
| "reverse_op SGE = SLT"
| "reverse_op SLT = SGE"
| "reverse_op LE = GT"
| "reverse_op GT = LE"
| "reverse_op SLE = SGT"
| "reverse_op SGT = SLE"
| "reverse_op SET = NSET"
| "reverse_op NSET = SET"

definition reverse_condition :: "Condition \<Rightarrow> Condition" where
  "reverse_condition cond = cond\<lparr>cond_op := reverse_op (cond_op cond)\<rparr>"

fun has_fall :: "Instruction \<Rightarrow> bool" where
  "has_fall (Exit _) = False"
| "has_fall (Jmp None _) = False"
| "has_fall _ = True"

text \<open>\<^verbatim>\<open>to_string(Label)\<close>, from \<^verbatim>\<open>printing.cpp\<close>: it is the prefix of the labels of an inlined function.\<close>

definition label_to_string :: "Label \<Rightarrow> string" where
  "label_to_string l =
     (if l = label_entry then ''entry''
      else if l = label_exit then ''exit''
      else (if stack_frame_prefix l \<noteq> [] then stack_frame_prefix l @ [STACK_FRAME_DELIMITER] else [])
           @ show_int (label_from l)
           @ (if label_to l \<noteq> -1 then '':'' @ show_int (label_to l) else [])
           @ (if special_label l \<noteq> [] then '' ('' @ special_label l @ '')'' else []))"

section \<open>Inlining of local functions\<close>

definition clone_label :: "string \<Rightarrow> Label \<Rightarrow> Label" where
  "clone_label prefix l = Label prefix (label_from l) (label_to l) []"

fun clone_instruction :: "string \<Rightarrow> Instruction \<Rightarrow> Instruction" where
  "clone_instruction prefix (Exit _) = Exit prefix"
| "clone_instruction prefix (Call c) = Call (c\<lparr>call_stack_frame_prefix := prefix\<rparr>)"
| "clone_instruction prefix ins = ins"

record Macro_State =
  ms_prog :: Program
  ms_first :: bool
  macro_labels :: "Label list"
  seen_labels :: "Label list"

text \<open>The edges from the clones of the predecessors, and the walk over the successors.\<close>

definition macro_prevs :: "string \<Rightarrow> Label \<Rightarrow> Label list \<Rightarrow> Program \<Rightarrow> Program result" where
  "macro_prevs prefix label prevs p =
     rfold (\<lambda>prev p. let prev_label = clone_label prefix prev
                     in if cfg_contains (m_cfg p) prev_label then add_child prev_label label p else Inr p) prevs p"

definition macro_next :: "Label \<Rightarrow> Label \<Rightarrow> Label \<Rightarrow> Label \<Rightarrow> Macro_State \<Rightarrow> Macro_State result" where
  "macro_next exit_to macro_label label next_label s =
     (if next_label = label_exit then rmap (\<lambda>p. s\<lparr>ms_prog := p\<rparr>) (add_child label exit_to (ms_prog s))
      else if next_label \<notin> set (seen_labels s) then
        Inr (s\<lparr>macro_labels := os_insert next_label (macro_labels s), seen_labels := os_insert macro_label (seen_labels s)\<rparr>)
      else Inr s)"

definition macro_step :: "Label \<Rightarrow> Label \<Rightarrow> string \<Rightarrow> Macro_State \<Rightarrow> Macro_State result" where
  "macro_step caller_label exit_to prefix s =
     (case macro_labels s of
        [] \<Rightarrow> Inr s
      | macro_label # rest \<Rightarrow>
          if prefix = stack_frame_prefix macro_label then Inl (Invalid_Control_Flow (prefix @ '': illegal recursion''))
          else let label = clone_label prefix macro_label in
            rbind (instruction_at (ms_prog s) macro_label) (\<lambda>inst.
            rbind (cfg_insert label (clone_instruction prefix inst) (ms_prog s)) (\<lambda>p.
            rbind (if ms_first s then add_child caller_label label p else Inr p) (\<lambda>p.
            rbind (parents_of (m_cfg p) macro_label) (\<lambda>prevs.
            rbind (macro_prevs prefix label prevs p) (\<lambda>p.
            rbind (children_of (m_cfg p) macro_label) (\<lambda>nexts.
              rfold (macro_next exit_to macro_label label) nexts
                (s\<lparr>ms_prog := p, ms_first := False, macro_labels := rest\<rparr>))))))))"

definition macro_loop :: "Label \<Rightarrow> Label \<Rightarrow> string \<Rightarrow> Macro_State \<Rightarrow> Macro_State out" where
  "macro_loop caller_label exit_to prefix s =
     while_option (\<lambda>r. case r of Inl _ \<Rightarrow> False | Inr s \<Rightarrow> macro_labels s \<noteq> [])
       (\<lambda>r. rbind r (macro_step caller_label exit_to prefix)) (Inr s)"

definition set_call_prefix :: "Label \<Rightarrow> string \<Rightarrow> Program \<Rightarrow> Program result" where
  "set_call_prefix caller_label prefix p =
     rmap (\<lambda>ins. case ins of
         CallLocal target _ \<Rightarrow> p\<lparr>m_instructions := om_update caller_label (CallLocal target prefix) (m_instructions p)\<rparr>
       | _ \<Rightarrow> p) (instruction_at p caller_label)"

definition stack_frame_depth :: "string \<Rightarrow> int" where
  "stack_frame_depth caller_label_str = int (length (filter ((=) STACK_FRAME_DELIMITER) caller_label_str)) + 2"

text \<open>The whole inlining of one call, without the calls nested in it: the program and the labels walked.\<close>

definition inline_call :: "Label \<Rightarrow> Label \<Rightarrow> Program \<Rightarrow> (Label list \<times> Program) out" where
  "inline_call caller_label entry_label p =
     (let prefix = label_to_string caller_label in
      obind (Some (get_child (m_cfg p) caller_label)) (\<lambda>exit_to.
      obind (Some (set_call_prefix caller_label prefix p)) (\<lambda>p.
      obind (macro_loop caller_label exit_to prefix
               \<lparr>ms_prog = p, ms_first = True, macro_labels = [entry_label], seen_labels = [entry_label]\<rparr>) (\<lambda>s.
        Some (rmap (\<lambda>p. (seen_labels s, p)) (remove_child caller_label exit_to (ms_prog s)))))))"

fun add_cfg_nodes :: "nat \<Rightarrow> Label \<Rightarrow> Label \<Rightarrow> Program \<Rightarrow> Program out" where
  "add_cfg_nodes 0 caller_label entry_label p = None"
| "add_cfg_nodes (Suc n) caller_label entry_label p =
     obind (inline_call caller_label entry_label p) (\<lambda>(seen, p).
       let caller_label_str = label_to_string caller_label in
       oseq (map (\<lambda>macro_label p.
           let label = clone_label caller_label_str macro_label in
           obind (Some (instruction_at p label)) (\<lambda>ins.
             case ins of
               CallLocal target _ \<Rightarrow>
                 if stack_frame_depth caller_label_str \<ge> MAX_CALL_STACK_FRAMES
                 then Some (Inl (Invalid_Control_Flow ''too many call stack frames''))
                 else add_cfg_nodes n label target p
             | _ \<Rightarrow> Some (Inr p))) seen) p)"

section \<open>From instructions to a graph\<close>

fun is_undefined :: "Instruction \<Rightarrow> bool" where
  "is_undefined (Undefined _) = True"
| "is_undefined _ = False"

definition insert_instructions :: "InstructionSeq \<Rightarrow> Program \<Rightarrow> Program result" where
  "insert_instructions insts = rfold (\<lambda>(l, ins, _) p. if is_undefined ins then Inr p else cfg_insert l ins p) insts"

definition connect :: "Label \<Rightarrow> Instruction \<Rightarrow> Label \<Rightarrow> Program \<Rightarrow> Program result" where
  "connect l ins fallthrough p =
     (case ins of
        Jmp (Some cond) target \<Rightarrow>
          if target = fallthrough then add_child l fallthrough p
          else if \<not> cfg_contains (m_cfg p) target
          then Inl (Invalid_Control_Flow (''jump to undefined label '' @ label_to_string target))
          else rbind (insert_jump l target (Assume cond True) p) (\<lambda>p.
               insert_jump l fallthrough (Assume (reverse_condition cond) True) p)
      | Jmp None target \<Rightarrow> add_child l target p
      | Exit _ \<Rightarrow> add_child l label_exit p
      | _ \<Rightarrow> add_child l fallthrough p)"

fun connect_all :: "bool \<Rightarrow> InstructionSeq \<Rightarrow> Program \<Rightarrow> Program result" where
  "connect_all must_have_exit [] p = Inr p"
| "connect_all must_have_exit ((l, ins, li) # rest) p =
     rbind (if is_undefined ins then Inr p
            else case rest of
              [] \<Rightarrow> if has_fall ins \<and> must_have_exit
                   then Inl (Invalid_Control_Flow ''fallthrough in last instruction'')
                   else connect l ins label_exit p
            | (next_label, _) # _ \<Rightarrow> connect l ins next_label p) (connect_all must_have_exit rest)"

definition inline_calls :: "InstructionSeq \<Rightarrow> Program \<Rightarrow> Program out" where
  "inline_calls insts =
     oseq (map (\<lambda>(l, ins, _) p. case ins of
         CallLocal target _ \<Rightarrow> add_cfg_nodes (nat MAX_CALL_STACK_FRAMES) l target p | _ \<Rightarrow> Some (Inr p)) insts)"

definition instruction_seq_to_cfg :: "InstructionSeq \<Rightarrow> bool \<Rightarrow> Program out" where
  "instruction_seq_to_cfg insts must_have_exit =
     obind (Some (rbind (insert_instructions insts empty_program) (\<lambda>p.
       case insts of
         [] \<Rightarrow> Inl (Invalid_Control_Flow ''empty instruction sequence'')
       | (l, _) # _ \<Rightarrow> rbind (add_child label_entry l p) (connect_all must_have_exit insts))))
     (inline_calls insts)"

definition add_counters :: "Label list \<Rightarrow> Program \<Rightarrow> Program result" where
  "add_counters heads = rfold (\<lambda>l. insert_after l (make_increment_counter l) (IncrementLoopCounter l)) heads"

definition annotate :: "ProgramInfo \<Rightarrow> Program \<Rightarrow> Program result" where
  "annotate info p =
     rfold (\<lambda>l p. rbind (instruction_at p l) (\<lambda>ins.
        rbind (get_assertions ins info (Some l)) (\<lambda>as. set_assertions l as p))) (cfg_labels (m_cfg p)) p"

record prepare_cfg_options =
  check_for_termination :: bool
  must_have_exit :: bool

definition from_sequence :: "InstructionSeq \<Rightarrow> ProgramInfo \<Rightarrow> prepare_cfg_options \<Rightarrow> Program out" where
  "from_sequence insts info options =
     obind (instruction_seq_to_cfg insts (must_have_exit options)) (\<lambda>p.
     obind (if check_for_termination options
            then obind (build_wto (m_cfg p)) (\<lambda>w.
                 obind (Some (for_each_loop_head (wto_trees w))) (\<lambda>heads. Some (add_counters heads p)))
            else Some (Inr p)) (\<lambda>p.
       Some (annotate info p)))"

end
