(* ===== verification/Cfg_Sound.thy ===== *)
theory Cfg_Sound
  imports Cfg_Builder Roundtrip
begin

text \<open>
  Lemmas on the construction of the control-flow graph: what inlining a call keeps of the rest
  of the program, that the invariant of programs holds throughout, that inlining ends, and the
  control flow of the graph compared with the one of the instruction sequence.
\<close>

unbundle bit_operations_syntax

section \<open>Labels as strings\<close>

definition slashes :: "string \<Rightarrow> nat" where
  "slashes s = length (filter ((=) STACK_FRAME_DELIMITER) s)"

lemma slashes_simps [simp]:
  "slashes [] = 0" "slashes (c # s) = (if c = STACK_FRAME_DELIMITER then 1 else 0) + slashes s"
  "slashes (s @ t) = slashes s + slashes t"
  by (auto simp: slashes_def)

lemma digits_nonempty: "digits_in b n \<noteq> []"
  by (subst digits_in.simps) simp

lemma digit_char_not_slash: "d < 16 \<Longrightarrow> digit_char d \<noteq> STACK_FRAME_DELIMITER"
proof -
  have "\<forall>d \<in> {..<16}. digit_char d \<noteq> STACK_FRAME_DELIMITER" by code_simp
  then show "d < 16 \<Longrightarrow> digit_char d \<noteq> STACK_FRAME_DELIMITER" by simp
qed

lemma slashes_digits: "b \<le> 16 \<Longrightarrow> slashes (digits_in b n) = 0"
proof (induction b n rule: digits_in.induct)
  case (1 b n)
  show ?case
  proof (cases "b < 2 \<or> n < b")
    case True
    then show ?thesis using digit_char_not_slash[of "n mod 16"] by (subst digits_in.simps) simp
  next
    case False
    then have "n mod b < 16" using mod_less_divisor[of b n] 1(2) by linarith
    then show ?thesis using False 1 digit_char_not_slash[of "n mod b"] by (subst digits_in.simps) simp
  qed
qed

lemma slashes_show_int [simp]: "slashes (show_int n) = 0" and show_int_nonempty [simp]: "show_int n \<noteq> []"
  by (simp_all add: show_int_def show_nat_def slashes_digits digits_nonempty)

lemma length_label_to_string: "length (stack_frame_prefix l) < length (label_to_string l)"
proof -
  have "0 < length (show_int (label_from l))" by (simp del: length_0_conv)
  then show ?thesis by (simp add: label_to_string_def label_entry_def label_exit_def)
qed

lemma label_to_string_nonempty [simp]: "label_to_string l \<noteq> []"
  and label_to_string_prefix [simp]: "label_to_string l \<noteq> stack_frame_prefix l" "stack_frame_prefix l \<noteq> label_to_string l"
  using length_label_to_string[of l] by auto

lemma clone_label_simps [simp]:
  "stack_frame_prefix (clone_label q l) = q" "label_from (clone_label q l) = label_from l"
  "label_to (clone_label q l) = label_to l" "special_label (clone_label q l) = []"
  by (simp_all add: clone_label_def)

lemma prefix_label_entry [simp]: "stack_frame_prefix label_entry = []" and prefix_label_exit [simp]: "stack_frame_prefix label_exit = []"
  by (simp_all add: label_entry_def label_exit_def)

text \<open>The nesting of calls, counted in the name of a label.\<close>

lemma slashes_label_to_string:
  assumes "special_label l = []"
  shows "slashes (label_to_string l) = (if stack_frame_prefix l = [] then 0 else Suc (slashes (stack_frame_prefix l)))"
  using assms by (auto simp: label_to_string_def label_entry_def label_exit_def)

lemma call_stack_depth_slashes:
  "call_stack_depth l = (if stack_frame_prefix l = [] then 1 else 2 + int (slashes (stack_frame_prefix l)))"
  by (simp add: call_stack_depth_def slashes_def)

lemma stack_frame_depth_slashes: "stack_frame_depth s = int (slashes s) + 2"
  by (simp add: stack_frame_depth_def slashes_def)

section \<open>What inlining keeps\<close>

text \<open>
  \<open>frame c q p p'\<close>: from \<open>p\<close> to \<open>p'\<close> nodes were added whose labels have the prefix \<open>q\<close>; of the nodes
  that \<open>p\<close> has, only \<open>c\<close> and those with prefix \<open>q\<close> may have other edges, and only \<open>c\<close> another instruction.
\<close>

abbreviation labels_of :: "Program \<Rightarrow> Label set" where
  "labels_of p \<equiv> set (cfg_labels (m_cfg p))"

abbreviation has_edge :: "Program \<Rightarrow> Label \<Rightarrow> Label \<Rightarrow> bool" where
  "has_edge p \<equiv> edge (m_cfg p)"

abbreviation ins_at :: "Program \<Rightarrow> Label \<Rightarrow> Instruction option" where
  "ins_at p \<equiv> om_lookup (m_instructions p)"

definition frame :: "Label \<Rightarrow> string \<Rightarrow> Program \<Rightarrow> Program \<Rightarrow> bool" where
  "frame c q p p' \<longleftrightarrow> program_inv p' \<and> labels_of p \<subseteq> labels_of p' \<and>
     (\<forall>l \<in> labels_of p' - labels_of p. stack_frame_prefix l = q \<and> special_label l = []) \<and>
     (\<forall>l \<in> labels_of p. l \<noteq> c \<longrightarrow> ins_at p' l = ins_at p l) \<and>
     (\<forall>l y. l \<noteq> c \<and> stack_frame_prefix l \<noteq> q \<longrightarrow> has_edge p' l y = has_edge p l y) \<and>
     m_assertions p' = m_assertions p"

lemma frame_refl: "program_inv p \<Longrightarrow> frame c q p p"
  by (simp add: frame_def)

lemma frame_trans: "frame c q p p' \<Longrightarrow> frame c q p' p'' \<Longrightarrow> frame c q p p''"
  unfolding frame_def by (auto simp: subset_iff) 

lemma frame_add_child:
  assumes "add_child a b p = Inr p'" "program_inv p" "a = c \<or> stack_frame_prefix a = q"
  shows "frame c q p p'"
  using add_child_spec[OF assms(1,2)] assms(3) by (auto simp: frame_def program_update_def)

lemma frame_remove_child:
  assumes "remove_child c b p = Inr p'" "program_inv p"
  shows "frame c q p p'"
  using remove_child_spec[OF assms] by (auto simp: frame_def program_update_def)

lemma frame_insert:
  assumes "cfg_insert l ins p = Inr p'" "program_inv p" "stack_frame_prefix l = q" "special_label l = []"
  shows "frame c q p p'"
  using cfg_insert_spec[OF assms(1,2)] assms(3,4) by (auto simp: frame_def)

text \<open>
  One round of the walk over a function body: a fresh copy of the node is added, and of the
  caller's edges only the one to the first copy is new.
\<close>

definition grown :: "Label \<Rightarrow> string \<Rightarrow> Program \<Rightarrow> Program \<Rightarrow> bool" where
  "grown c q p p' \<longleftrightarrow> frame c q p p' \<and> labels_of p' = labels_of p \<and> (\<forall>y. has_edge p' c y = has_edge p c y) \<and>
     m_instructions p' = m_instructions p"

lemma grown_refl: "program_inv p \<Longrightarrow> grown c q p p"
  by (simp add: grown_def frame_refl)

lemma grown_trans: "grown c q p p' \<Longrightarrow> grown c q p' p'' \<Longrightarrow> grown c q p p''"
  by (auto simp: grown_def intro: frame_trans)

lemma grown_inv: "grown c q p p' \<Longrightarrow> program_inv p'"
  by (simp add: grown_def frame_def)

lemma grown_add_child:
  assumes "add_child a b p = Inr p'" "program_inv p" "stack_frame_prefix a = q" "a \<noteq> c"
  shows "grown c q p p'"
  using add_child_spec[OF assms(1,2)] frame_add_child[of a b p p' c q] assms by (auto simp: grown_def program_update_def)

lemma macro_prevs_grown:
  assumes "macro_prevs q l prevs p = Inr p'" "program_inv p" "stack_frame_prefix c \<noteq> q"
  shows "grown c q p p'"
  using assms(1) unfolding macro_prevs_def
proof (rule rfold_invariant)
  show "grown c q p p" using assms(2) by (rule grown_refl)
next
  fix x s t assume s: "grown c q p s"
    and "(let prev_label = clone_label q x in if cfg_contains (m_cfg s) prev_label then add_child prev_label l s else Inr s) = Inr t"
  then have "t = s \<or> add_child (clone_label q x) l s = Inr t" by (auto simp: Let_def split: if_splits)
  then have "grown c q s t"
    using grown_add_child[of "clone_label q x" l s t q c] grown_inv[OF s] assms(3) grown_refl[of s c q]
      clone_label_simps(1)[of q x] by metis
  then show "grown c q p t" using s by (rule grown_trans[rotated])
qed

lemma macro_nexts_grown:
  assumes "rfold (macro_next e m l) nexts s = Inr s'" "program_inv (ms_prog s)" "stack_frame_prefix l = q" "l \<noteq> c"
  shows "grown c q (ms_prog s) (ms_prog s') \<and> ms_first s' = ms_first s"
  using assms(1)
proof (rule rfold_invariant)
  show "grown c q (ms_prog s) (ms_prog s) \<and> ms_first s = ms_first s" using assms(2) by (simp add: grown_refl)
next
  fix x t u assume t: "grown c q (ms_prog s) (ms_prog t) \<and> ms_first t = ms_first s" and u: "macro_next e m l x t = Inr u"
  then have "ms_prog u = ms_prog t \<or> add_child l e (ms_prog t) = Inr (ms_prog u)"
    by (auto simp: macro_next_def result_iffs split: if_splits)
  then have "grown c q (ms_prog t) (ms_prog u)"
    using grown_add_child[of l e "ms_prog t" "ms_prog u" q c] grown_inv[of c q "ms_prog s" "ms_prog t"]
      grown_refl[of "ms_prog t" c q] t assms(3,4) by auto
  moreover have "ms_first u = ms_first t" using u by (auto simp: macro_next_def result_iffs split: if_splits)
  ultimately show "grown c q (ms_prog s) (ms_prog u) \<and> ms_first u = ms_first s" using t by (auto intro: grown_trans)
qed

lemma macro_step_spec:
  assumes step: "macro_step c e q s = Inr s'" and ml: "macro_labels s = m # rest"
    and inv: "program_inv (ms_prog s)" and cq: "stack_frame_prefix c \<noteq> q"
  shows "frame c q (ms_prog s) (ms_prog s')" "stack_frame_prefix m \<noteq> q" "m \<in> labels_of (ms_prog s)"
    "clone_label q m \<notin> labels_of (ms_prog s)"
    "labels_of (ms_prog s') = insert (clone_label q m) (labels_of (ms_prog s))" "\<not> ms_first s'"
    "has_edge (ms_prog s') c y \<longleftrightarrow> has_edge (ms_prog s) c y \<or> ms_first s \<and> y = clone_label q m"
proof -
  let ?l = "clone_label q m"
  obtain inst p1 p2 prevs p3 nexts where ne: "q \<noteq> stack_frame_prefix m" and at: "instruction_at (ms_prog s) m = Inr inst"
    and p1: "cfg_insert ?l (clone_instruction q inst) (ms_prog s) = Inr p1"
    and p2: "(if ms_first s then add_child c ?l p1 else Inr p1) = Inr p2"
    and p3: "macro_prevs q ?l prevs p2 = Inr p3"
    and last: "rfold (macro_next e m ?l) nexts (s\<lparr>ms_prog := p3, ms_first := False, macro_labels := rest\<rparr>) = Inr s'"
    using step ml by (cases "q = stack_frame_prefix m") (auto simp: macro_step_def Let_def result_iffs)
  have "m \<in> dom (ins_at (ms_prog s))" using at by (auto simp: instruction_at_def split: option.splits)
  then show m: "m \<in> labels_of (ms_prog s)" using inv by (simp add: program_inv_def om.keys_dom)
  show "stack_frame_prefix m \<noteq> q" using ne by simp
  note i = cfg_insert_spec[OF p1 inv]
  show "?l \<notin> labels_of (ms_prog s)" by (rule i(2))
  have c: "?l \<noteq> c" using cq by auto
  have f2: "frame c q p1 p2 \<and> labels_of p2 = labels_of p1 \<and> (has_edge p2 c y \<longleftrightarrow> has_edge p1 c y \<or> ms_first s \<and> y = ?l)"
  proof (cases "ms_first s")
    case True
    then show ?thesis using p2 add_child_spec[of c ?l p1 p2] frame_add_child[of c ?l p1 p2 c q] i(1) by (auto simp: program_update_def)
  next
    case False
    then show ?thesis using p2 i(1) by (simp add: frame_refl)
  qed
  then have g3: "grown c q p2 p3" using macro_prevs_grown[OF p3 _ cq] by (simp add: frame_def)
  have g4: "grown c q p3 (ms_prog s') \<and> ms_first s' = False"
    using macro_nexts_grown[OF last, of q c] grown_inv[OF g3] c by simp
  then have g: "grown c q p2 (ms_prog s')" using g3 by (blast intro: grown_trans)
  have "frame c q (ms_prog s) p1" using frame_insert[OF p1 inv] by simp
  then show "frame c q (ms_prog s) (ms_prog s')" using f2 g by (auto simp: grown_def intro: frame_trans)
  show "labels_of (ms_prog s') = insert ?l (labels_of (ms_prog s))" using i(3) f2 g by (simp add: grown_def)
  show "\<not> ms_first s'" using g4 by simp
  show "has_edge (ms_prog s') c y \<longleftrightarrow> has_edge (ms_prog s) c y \<or> ms_first s \<and> y = ?l" using g f2 i(6) by (simp add: grown_def)
qed

lemma macro_loop_spec:
  assumes loop: "macro_loop c e q s = Some (Inr s')" and inv: "program_inv (ms_prog s)"
    and cq: "stack_frame_prefix c \<noteq> q" and start: "ms_first s" "macro_labels s = [t]"
  shows "frame c q (ms_prog s) (ms_prog s')" "clone_label q t \<notin> labels_of (ms_prog s)"
    "has_edge (ms_prog s') c y \<longleftrightarrow> has_edge (ms_prog s) c y \<or> y = clone_label q t"
proof -
  let ?I = "\<lambda>r :: Macro_State result. case r of Inl _ \<Rightarrow> True | Inr u \<Rightarrow> frame c q (ms_prog s) (ms_prog u) \<and>
      (if ms_first u then u = s
       else clone_label q t \<notin> labels_of (ms_prog s) \<and>
         (\<forall>y. has_edge (ms_prog u) c y \<longleftrightarrow> has_edge (ms_prog s) c y \<or> y = clone_label q t))"
  have "?I (Inr s')"
  proof (rule while_option_rule[where P = ?I, OF _ loop[unfolded macro_loop_def]])
    fix r :: "Macro_State result"
    assume I: "?I r" and b: "case r of Inl _ \<Rightarrow> False | Inr s \<Rightarrow> macro_labels s \<noteq> []"
    then obtain u m rest where u: "r = Inr u" "macro_labels u = m # rest"
      by (auto simp: neq_Nil_conv split: sum.splits)
    show "?I (rbind r (macro_step c e q))"
    proof (cases "macro_step c e q u")
      case (Inr v)
      have "program_inv (ms_prog u)" using I u by (simp add: frame_def)
      note st = macro_step_spec[OF Inr u(2) this cq]
      have m: "ms_first u \<Longrightarrow> u = s \<and> m = t" using I u start by (auto split: if_splits)
      have "frame c q (ms_prog s) (ms_prog v)" using I u st(1) by (auto intro: frame_trans)
      moreover have "clone_label q t \<notin> labels_of (ms_prog s)" using I u m st(4) by (cases "ms_first u") auto
      moreover have "has_edge (ms_prog v) c y \<longleftrightarrow> has_edge (ms_prog s) c y \<or> y = clone_label q t" for y
        using I u m st(7)[of y] by (cases "ms_first u") auto
      ultimately show ?thesis using Inr u st(6) by simp
    qed (simp add: u)
  qed (simp add: frame_refl inv start)
  moreover have "\<not> ms_first s'"
    using while_option_stop[OF loop[unfolded macro_loop_def]] calculation start by auto
  ultimately show "frame c q (ms_prog s) (ms_prog s')" "clone_label q t \<notin> labels_of (ms_prog s)"
    "has_edge (ms_prog s') c y \<longleftrightarrow> has_edge (ms_prog s) c y \<or> y = clone_label q t" by auto
qed

text \<open>Every round copies one more of the nodes that the program had with another prefix, so the loop ends.\<close>

lemma macro_loop_terminates:
  assumes inv: "program_inv (ms_prog s)" and cq: "stack_frame_prefix c \<noteq> q"
  shows "macro_loop c e q s \<noteq> None"
proof -
  let ?A = "clone_label q ` {l \<in> labels_of (ms_prog s). stack_frame_prefix l \<noteq> q}"
  let ?P = "\<lambda>r :: Macro_State result. case r of Inl _ \<Rightarrow> True | Inr u \<Rightarrow> program_inv (ms_prog u) \<and>
      {l \<in> labels_of (ms_prog u). stack_frame_prefix l \<noteq> q} = {l \<in> labels_of (ms_prog s). stack_frame_prefix l \<noteq> q}"
  let ?m = "\<lambda>r :: Macro_State result. case r of Inl _ \<Rightarrow> 0 | Inr u \<Rightarrow> Suc (card (?A - labels_of (ms_prog u)))"
  have fin: "finite ?A" by simp
  have "\<exists>t. macro_loop c e q s = Some t"
    unfolding macro_loop_def
  proof (rule measure_while_option_Some[where P = ?P and f = ?m])
    fix r :: "Macro_State result"
    assume P: "?P r" and b: "case r of Inl _ \<Rightarrow> False | Inr s \<Rightarrow> macro_labels s \<noteq> []"
    then obtain u m rest where u: "r = Inr u" "macro_labels u = m # rest"
      by (auto simp: neq_Nil_conv split: sum.splits)
    show "?P (rbind r (macro_step c e q)) \<and> ?m (rbind r (macro_step c e q)) < ?m r"
    proof (cases "macro_step c e q u")
      case (Inr v)
      have "program_inv (ms_prog u)" using P u by simp
      note st = macro_step_spec[OF Inr u(2) this cq]
      have "clone_label q m \<in> ?A" using P u st(2,3) by auto
      then have "?A - labels_of (ms_prog v) \<subset> ?A - labels_of (ms_prog u)" using st(4,5) by auto
      then have "card (?A - labels_of (ms_prog v)) < card (?A - labels_of (ms_prog u))"
        using fin by (simp add: psubset_card_mono)
      moreover have "?P (Inr v)" using P u st(1,5) by (auto simp: frame_def)
      ultimately show ?thesis using Inr u by simp
    qed (simp add: u)
  qed (simp add: inv)
  then show ?thesis by simp
qed

section \<open>Inlining of a call and of the calls nested in it\<close>

text \<open>
  \<open>inlined c p p'\<close>: the nodes added lie deeper in the call stack than \<open>c\<close>, within the bound on
  frames, and nothing but \<open>c\<close> and nodes deeper than it has changed.
\<close>

definition inlined :: "Label \<Rightarrow> Program \<Rightarrow> Program \<Rightarrow> bool" where
  "inlined c p p' \<longleftrightarrow> program_inv p' \<and> labels_of p \<subseteq> labels_of p' \<and>
     (\<forall>l \<in> labels_of p' - labels_of p. length (stack_frame_prefix c) < length (stack_frame_prefix l) \<and>
        slashes (stack_frame_prefix l) \<le> 6 \<and> special_label l = []) \<and>
     (\<forall>l \<in> labels_of p. l \<noteq> c \<and> length (stack_frame_prefix l) \<le> length (stack_frame_prefix c) \<longrightarrow> ins_at p' l = ins_at p l) \<and>
     (\<forall>l y. l \<noteq> c \<and> length (stack_frame_prefix l) \<le> length (stack_frame_prefix c) \<longrightarrow> has_edge p' l y = has_edge p l y) \<and>
     m_assertions p' = m_assertions p"

lemma inlined_refl: "program_inv p \<Longrightarrow> inlined c p p"
  by (simp add: inlined_def)

lemma inlined_trans: "inlined c p p' \<Longrightarrow> inlined c p' p'' \<Longrightarrow> inlined c p p''"
  unfolding inlined_def by (auto simp: subset_iff)

lemma inlined_inv: "inlined c p p' \<Longrightarrow> program_inv p'"
  by (simp add: inlined_def)

lemma inlined_frame:
  "frame c (label_to_string c) p p' \<Longrightarrow> slashes (label_to_string c) \<le> 6 \<Longrightarrow> inlined c p p'"
  using length_label_to_string[of c] by (auto simp: frame_def inlined_def)

lemma inlined_nested:
  assumes "inlined d p p'" "length (stack_frame_prefix c) < length (stack_frame_prefix d)"
  shows "inlined c p p'"
proof -
  have up: "l \<noteq> d \<and> length (stack_frame_prefix l) \<le> length (stack_frame_prefix d)"
    if "length (stack_frame_prefix l) \<le> length (stack_frame_prefix c)" for l using that assms(2) by auto
  show ?thesis using assms up unfolding inlined_def by (meson less_trans)
qed

lemma set_call_prefix_spec:
  assumes "set_call_prefix c q p = Inr p'" "program_inv p"
  shows "frame c q p p'" "labels_of p' = labels_of p" "has_edge p' x y = has_edge p x y"
    "\<exists>ins. ins_at p c = Some ins \<and> ins_at p' c = Some (case ins of CallLocal target _ \<Rightarrow> CallLocal target q | _ \<Rightarrow> ins)"
proof -
  obtain ins where i: "ins_at p c = Some ins" and p': "p' = (case ins of
      CallLocal target _ \<Rightarrow> p\<lparr>m_instructions := om_update c (CallLocal target q) (m_instructions p)\<rparr> | _ \<Rightarrow> p)"
    using assms(1) by (auto simp: set_call_prefix_def instruction_at_def result_iffs split: option.splits)
  have w: "om_wf (m_instructions p)" "c \<in> labels_of p"
    using assms(2) i by (auto simp: program_inv_def om.keys_dom)
  show "frame c q p p'" "labels_of p' = labels_of p" "has_edge p' x y = has_edge p x y"
    using assms(2) w by (auto simp: p' frame_def program_inv_def om_wf_update om_lookup_update split: Instruction.splits)
  show "\<exists>ins. ins_at p c = Some ins \<and> ins_at p' c = Some (case ins of CallLocal target _ \<Rightarrow> CallLocal target q | _ \<Rightarrow> ins)"
    using w i by (auto simp: p' om_lookup_update split: Instruction.splits)
qed

lemma get_child_edge:
  assumes "get_child g a = Inr b"
  shows "edge g a y \<longleftrightarrow> y = b"
proof -
  obtain n where "om_lookup g a = Some n" "length (children n) = 1" "b = hd (children n)"
    using assms by (auto simp: get_child_def out_degree_def children_of_def get_node_def result_iffs split: option.splits if_splits)
  then show ?thesis by (cases "children n") (auto simp: edge_lookup)
qed

lemma inline_call_spec:
  assumes run: "inline_call c t p = Some (Inr (seen, p'))" and inv: "program_inv p"
  shows "frame c (label_to_string c) p p'" "has_edge p' c y \<longleftrightarrow> y = clone_label (label_to_string c) t"
proof -
  let ?q = "label_to_string c"
  obtain e p1 s where e: "get_child (m_cfg p) c = Inr e" and p1: "set_call_prefix c ?q p = Inr p1"
    and s: "macro_loop c e ?q \<lparr>ms_prog = p1, ms_first = True, macro_labels = [t], seen_labels = [t]\<rparr> = Some (Inr s)"
    and p': "remove_child c e (ms_prog s) = Inr p'"
    using run by (auto simp: inline_call_def Let_def obind_iff result_iffs)
  note sc = set_call_prefix_spec[OF p1 inv]
  have inv1: "program_inv p1" using sc(1) by (simp add: frame_def)
  have m: "frame c ?q p1 (ms_prog s)" "clone_label ?q t \<notin> labels_of p1"
      "\<And>y. has_edge (ms_prog s) c y \<longleftrightarrow> has_edge p1 c y \<or> y = clone_label ?q t"
    using macro_loop_spec[OF s] inv1 by simp_all
  have inv2: "program_inv (ms_prog s)" using m(1) by (simp add: frame_def)
  note r = remove_child_spec[OF p' inv2]
  show "frame c ?q p p'"
    using sc(1) m(1) frame_remove_child[OF p' inv2] by (blast intro: frame_trans)
  have "has_edge p c e" using get_child_edge[OF e] by simp
  then have "e \<in> labels_of p" using inv edge_contains[of "m_cfg p"] by (simp add: program_inv_def cfg_contains_iff)
  then have "e \<noteq> clone_label ?q t" using m(2) sc(2) by auto
  then show "has_edge p' c y \<longleftrightarrow> y = clone_label ?q t"
    using r(2) m(3)[of y] sc(3)[of c y] get_child_edge[OF e, of y] by (auto simp: program_update_def)
qed

text \<open>The calls nested in a copied body, as the loop at the end of \<^verbatim>\<open>add_cfg_nodes\<close> meets them.\<close>

definition inline_nested :: "nat \<Rightarrow> string \<Rightarrow> Label \<Rightarrow> Program \<Rightarrow> Program out" where
  "inline_nested n q macro_label p =
     (let label = clone_label q macro_label in
      obind (Some (instruction_at p label)) (\<lambda>ins.
        case ins of
          CallLocal target _ \<Rightarrow>
            if stack_frame_depth q \<ge> MAX_CALL_STACK_FRAMES
            then Some (Inl (Invalid_Control_Flow ''too many call stack frames''))
            else add_cfg_nodes n label target p
        | _ \<Rightarrow> Some (Inr p)))"

lemma add_cfg_nodes_Suc:
  "add_cfg_nodes (Suc n) c t p =
     obind (inline_call c t p) (\<lambda>(seen, p). oseq (map (inline_nested n (label_to_string c)) seen) p)"
  by (simp add: inline_nested_def[abs_def] Let_def)

declare add_cfg_nodes.simps(2) [simp del]

lemma inline_nested_cases:
  assumes "inline_nested n q m p = r"
  obtains "\<exists>x. r = Some x \<and> (x = Inr p \<or> (\<exists>e. x = Inl e))"
  | target where "slashes q < 6" "add_cfg_nodes n (clone_label q m) target p = r"
proof (cases "instruction_at p (clone_label q m)")
  case (Inl e)
  then show ?thesis using that assms by (auto simp: inline_nested_def obind_def)
next
  case (Inr ins)
  then show ?thesis using that assms
    by (cases ins) (auto simp: inline_nested_def obind_def stack_frame_depth_slashes Let_def split: if_splits)
qed

lemma slashes_nested [simp]: "slashes (label_to_string (clone_label q m)) = (if q = [] then 0 else Suc (slashes q))"
  by (simp add: slashes_label_to_string)

lemma add_cfg_nodes_inlined:
  assumes "add_cfg_nodes n c t p = Some (Inr p')" "program_inv p" "slashes (label_to_string c) \<le> 6"
  shows "inlined c p p' \<and> (\<forall>y. has_edge p' c y \<longleftrightarrow> y = clone_label (label_to_string c) t)"
  using assms
proof (induction n arbitrary: c t p p')
  case (Suc n)
  let ?q = "label_to_string c"
  obtain seen p1 where p1: "inline_call c t p = Some (Inr (seen, p1))" and rest: "oseq (map (inline_nested n ?q) seen) p1 = Some (Inr p')"
    using Suc.prems(1) by (auto simp: add_cfg_nodes_Suc obind_iff)
  note ic = inline_call_spec[OF p1 Suc.prems(2)]
  let ?I = "\<lambda>u. inlined c p u \<and> (\<forall>y. has_edge u c y \<longleftrightarrow> y = clone_label ?q t)"
  from rest show ?case
  proof (rule oseq_invariant)
    show "?I p1" using inlined_frame[OF ic(1) Suc.prems(3)] ic(2) by simp
  next
    fix f u v assume "f \<in> set (map (inline_nested n ?q) seen)" and I: "?I u" and v: "f u = Some (Inr v)"
    then obtain m where f: "inline_nested n ?q m u = Some (Inr v)" by auto
    let ?d = "clone_label ?q m"
    have "u = v \<or> (\<exists>target. slashes ?q < 6 \<and> add_cfg_nodes n ?d target u = Some (Inr v))"
      using f by (cases rule: inline_nested_cases) auto
    then have "u = v \<or> inlined ?d u v"
      using Suc.IH[of ?d _ u v] inlined_inv[of c p u] I
        by (metis Suc_leI label_to_string_nonempty slashes_nested)
    then have "u = v \<or> inlined ?d u v \<and> inlined c u v"
      using inlined_nested[of ?d u v c] length_label_to_string[of c] by auto
    moreover have "c \<noteq> ?d" using label_to_string_prefix(2)[of c] by (metis clone_label_simps(1))
    moreover have "has_edge v c y = has_edge u c y" if "inlined ?d u v" for y
      using that \<open>c \<noteq> ?d\<close> length_label_to_string[of c] by (simp add: inlined_def)
    ultimately show "?I v" using I inlined_trans[of c p u v] by auto
  qed
qed simp

lemma inline_call_defined: "program_inv p \<Longrightarrow> inline_call c t p \<noteq> None"
  using macro_loop_terminates[of "\<lparr>ms_prog = _, ms_first = True, macro_labels = [t], seen_labels = [t]\<rparr>"]
    set_call_prefix_spec(1)[of c "label_to_string c" p]
  by (auto simp: inline_call_def obind_None frame_def Let_def)

lemma add_cfg_nodes_terminates:
  assumes "program_inv p" "slashes (label_to_string c) \<le> 6" "7 \<le> n + slashes (label_to_string c)"
  shows "add_cfg_nodes n c t p \<noteq> None"
  using assms
proof (induction n arbitrary: c t p)
  case (Suc n)
  let ?q = "label_to_string c"
  have "oseq (map (inline_nested n ?q) seen) p1 \<noteq> None" if p1: "inline_call c t p = Some (Inr (seen, p1))" for seen p1
  proof (rule oseq_defined[where I = program_inv])
    show "program_inv p1" using inline_call_spec(1)[OF p1 Suc.prems(1)] by (simp add: frame_def)
  next
    fix f u assume "f \<in> set (map (inline_nested n ?q) seen)" and u: "program_inv u"
    then obtain m where f: "f = inline_nested n ?q m" by auto
    show "f u \<noteq> None"
    proof (rule inline_nested_cases[OF refl, of n ?q m u])
      fix target assume "slashes ?q < 6" "add_cfg_nodes n (clone_label ?q m) target u = inline_nested n ?q m u"
      then show "f u \<noteq> None" using Suc.IH[of u "clone_label ?q m" target] Suc.prems(3) u f by simp
    qed (auto simp: f)
    fix v assume "f u = Some (Inr v)"
    then have "inline_nested n ?q m u = Some (Inr v)" using f by simp
    then show "program_inv v"
      by (cases rule: inline_nested_cases) (use u add_cfg_nodes_inlined[of n "clone_label ?q m" _ u v] in \<open>auto simp: inlined_def\<close>)
  qed
  then show ?case using inline_call_defined[OF Suc.prems(1), of c t] by (auto simp: add_cfg_nodes_Suc obind_None)
qed simp

section \<open>The first pass\<close>

lemma insert_instructions_spec:
  assumes "insert_instructions insts p = Inr p'" "program_inv p"
  shows "program_inv p' \<and> labels_of p' = labels_of p \<union> {l. \<exists>ins li. (l, ins, li) \<in> set insts \<and> \<not> is_undefined ins} \<and>
    (\<forall>(l, ins, li) \<in> set insts. \<not> is_undefined ins \<longrightarrow> l \<notin> labels_of p \<and> ins_at p' l = Some ins) \<and>
    (\<forall>l \<in> labels_of p. ins_at p' l = ins_at p l) \<and> (\<forall>x y. has_edge p' x y = has_edge p x y) \<and>
    m_assertions p' = m_assertions p"
  using assms
proof (induction insts arbitrary: p)
  case (Cons i insts)
  obtain l ins li where i: "i = (l, ins, li)" by (cases i)
  obtain p1 where p1: "(if is_undefined ins then Inr p else cfg_insert l ins p) = Inr p1"
    and rest: "insert_instructions insts p1 = Inr p'"
    using Cons.prems(1) by (auto simp: insert_instructions_def i result_iffs)
  show ?case
  proof (cases "is_undefined ins")
    case True
    then show ?thesis using Cons.IH[OF rest] Cons.prems(2) p1 i by auto
  next
    case False
    then have c: "cfg_insert l ins p = Inr p1" using p1 by simp
    note s = cfg_insert_spec[OF c Cons.prems(2)]
    show ?thesis using Cons.IH[OF rest s(1)] s(2-6) False i by auto
  qed
qed (simp add: insert_instructions_def)

text \<open>The instructions of a sequence with the label the code falls through to, and the edges that \<open>connect\<close> adds.\<close>

fun with_next :: "InstructionSeq \<Rightarrow> (Label \<times> Instruction \<times> Label) list" where
  "with_next [] = []"
| "with_next ((l, ins, _) # rest) = (l, ins, case rest of [] \<Rightarrow> label_exit | (n, _) # _ \<Rightarrow> n) # with_next rest"

definition jump_edges :: "Label \<Rightarrow> Label \<Rightarrow> Label \<Rightarrow> Label \<Rightarrow> bool" where
  "jump_edges l t x y \<longleftrightarrow> x = l \<and> y = make_jump l t \<or> x = make_jump l t \<and> y = t"

definition connect_edges :: "Label \<Rightarrow> Instruction \<Rightarrow> Label \<Rightarrow> Label \<Rightarrow> Label \<Rightarrow> bool" where
  "connect_edges l ins fallthrough x y \<longleftrightarrow>
     (case ins of
        Jmp (Some cond) target \<Rightarrow>
          if target = fallthrough then x = l \<and> y = fallthrough
          else jump_edges l target x y \<or> jump_edges l fallthrough x y
      | Jmp None target \<Rightarrow> x = l \<and> y = target
      | Exit _ \<Rightarrow> x = l \<and> y = label_exit
      | _ \<Rightarrow> x = l \<and> y = fallthrough)"

text \<open>What \<open>connect\<close> adds to the instructions: the assumptions of the two ways out of a conditional jump.\<close>

definition connect_code :: "Label \<Rightarrow> Instruction \<Rightarrow> Label \<Rightarrow> (Label \<times> Instruction) list" where
  "connect_code l ins fallthrough =
     (case ins of
        Jmp (Some cond) target \<Rightarrow>
          if target = fallthrough then []
          else [(make_jump l target, Assume cond True), (make_jump l fallthrough, Assume (reverse_condition cond) True)]
      | _ \<Rightarrow> [])"

definition extended :: "(Label \<times> Instruction) list \<Rightarrow> (Label \<Rightarrow> Label \<Rightarrow> bool) \<Rightarrow> Program \<Rightarrow> Program \<Rightarrow> bool" where
  "extended code E p p' \<longleftrightarrow> program_inv p' \<and> labels_of p' = labels_of p \<union> fst ` set code \<and>
     (\<forall>(l, ins) \<in> set code. l \<notin> labels_of p \<and> ins_at p' l = Some ins) \<and>
     (\<forall>l \<in> labels_of p. ins_at p' l = ins_at p l) \<and> (\<forall>x y. has_edge p' x y \<longleftrightarrow> has_edge p x y \<or> E x y) \<and>
     m_assertions p' = m_assertions p"

lemma extended_trans:
  assumes "extended c E p p'" "extended c' E' p' p''"
  shows "extended (c @ c') (\<lambda>x y. E x y \<or> E' x y) p p''"
  unfolding extended_def
proof (intro conjI)
  have a: "labels_of p' = labels_of p \<union> fst ` set c" "\<And>l ins. (l, ins) \<in> set c \<Longrightarrow> l \<notin> labels_of p \<and> ins_at p' l = Some ins"
      "\<And>l. l \<in> labels_of p \<Longrightarrow> ins_at p' l = ins_at p l" "\<And>x y. has_edge p' x y \<longleftrightarrow> has_edge p x y \<or> E x y"
      "m_assertions p' = m_assertions p"
    using assms(1) by (auto simp: extended_def)
  have b: "program_inv p''" "labels_of p'' = labels_of p' \<union> fst ` set c'"
      "\<And>l ins. (l, ins) \<in> set c' \<Longrightarrow> l \<notin> labels_of p' \<and> ins_at p'' l = Some ins"
      "\<And>l. l \<in> labels_of p' \<Longrightarrow> ins_at p'' l = ins_at p' l" "\<And>x y. has_edge p'' x y \<longleftrightarrow> has_edge p' x y \<or> E' x y"
      "m_assertions p'' = m_assertions p'"
    using assms(2) by (auto simp: extended_def)
  show "program_inv p''" by (fact b(1))
  show "labels_of p'' = labels_of p \<union> fst ` set (c @ c')" using a(1) b(2) by auto
  show "m_assertions p'' = m_assertions p" using a(5) b(6) by simp
  show "\<forall>l \<in> labels_of p. ins_at p'' l = ins_at p l" using a(1,3) b(4) by auto
  show "\<forall>x y. has_edge p'' x y \<longleftrightarrow> has_edge p x y \<or> E x y \<or> E' x y" using a(4) b(5) by simp
  have "l \<notin> labels_of p \<and> ins_at p'' l = Some ins" if "(l, ins) \<in> set c" for l ins
    using a(1) a(2)[OF that] b(4)[of l] imageI[OF that, of fst] by simp
  then show "\<forall>(l, ins) \<in> set (c @ c'). l \<notin> labels_of p \<and> ins_at p'' l = Some ins" using a(1) b(3) by auto
qed

lemma extended_add_child: "add_child a b p = Inr p' \<Longrightarrow> program_inv p \<Longrightarrow> extended [] (\<lambda>x y. x = a \<and> y = b) p p'"
  using add_child_spec[of a b p p'] by (auto simp: extended_def program_update_def)

lemma extended_insert_jump:
  "insert_jump a b ins p = Inr p' \<Longrightarrow> program_inv p \<Longrightarrow> extended [(make_jump a b, ins)] (jump_edges a b) p p'"
  using insert_jump_spec[of a b ins p p'] by (auto simp: extended_def jump_edges_def)

lemma connect_extended:
  assumes "connect l ins ft p = Inr p'" "program_inv p"
  shows "extended (connect_code l ins ft) (connect_edges l ins ft) p p'"
proof (cases "\<exists>cond target. ins = Jmp (Some cond) target \<and> target \<noteq> ft")
  case True
  then obtain cond target p1 where i: "ins = Jmp (Some cond) target" "target \<noteq> ft"
    and p1: "insert_jump l target (Assume cond True) p = Inr p1"
    and p2: "insert_jump l ft (Assume (reverse_condition cond) True) p1 = Inr p'"
    using assms(1) by (auto simp: connect_def result_iffs split: if_splits)
  note e1 = extended_insert_jump[OF p1 assms(2)]
  then have "program_inv p1" by (simp add: extended_def)
  note e2 = extended_insert_jump[OF p2 this]
  show ?thesis using extended_trans[OF e1 e2] i by (simp add: connect_code_def connect_edges_def[abs_def])
next
  case False
  define b where "b = (case ins of Jmp _ target \<Rightarrow> target | Exit _ \<Rightarrow> label_exit | _ \<Rightarrow> ft)"
  have "add_child l b p = Inr p'" using assms(1) False
    by (cases ins) (auto simp: connect_def b_def split: option.splits if_splits)
  note e = extended_add_child[OF this assms(2)]
  have "connect_code l ins ft = []" "connect_edges l ins ft = (\<lambda>x y. x = l \<and> y = b)"
    using False by (cases ins; auto simp: connect_code_def connect_edges_def b_def fun_eq_iff split: option.splits)+
  then show ?thesis using e by simp
qed

definition defined_next :: "InstructionSeq \<Rightarrow> (Label \<times> Instruction \<times> Label) list" where
  "defined_next insts = filter (\<lambda>(l, ins, ft). \<not> is_undefined ins) (with_next insts)"

lemma connect_all_extended:
  assumes "connect_all me insts p = Inr p'" "program_inv p"
  shows "extended (concat (map (\<lambda>(l, ins, ft). connect_code l ins ft) (defined_next insts)))
     (\<lambda>x y. \<exists>(l, ins, ft) \<in> set (defined_next insts). connect_edges l ins ft x y) p p'"
  using assms
proof (induction insts arbitrary: p)
  case (Cons i insts)
  obtain l ins li where i: "i = (l, ins, li)" by (cases i)
  define ft where "ft = (case insts of [] \<Rightarrow> label_exit | (n, _) # _ \<Rightarrow> n)"
  obtain p1 where p1: "if is_undefined ins then p1 = p else connect l ins ft p = Inr p1"
    and rest: "connect_all me insts p1 = Inr p'"
    using Cons.prems(1) by (auto simp: i result_iffs ft_def split: list.splits prod.splits if_splits)
  show ?case
  proof (cases "is_undefined ins")
    case True
    then show ?thesis using Cons.IH[OF rest] Cons.prems(2) p1 i by (simp add: defined_next_def)
  next
    case False
    then have e: "extended (connect_code l ins ft) (connect_edges l ins ft) p p1"
      using p1 connect_extended Cons.prems(2) by simp
    then have "program_inv p1" by (simp add: extended_def)
    from extended_trans[OF e Cons.IH[OF rest this]] show ?thesis
      using False i by (simp add: defined_next_def ft_def)
  qed
qed (simp add: extended_def defined_next_def)

section \<open>Control flow\<close>

text \<open>
  The meaning of conditions on register values, and the reference the graph is compared with:
  where control goes after an instruction, with the registers given.
\<close>

fun compare :: "Condition_Op \<Rightarrow> 'a::len word \<Rightarrow> 'a word \<Rightarrow> bool" where
  "compare EQ a b = (a = b)"
| "compare NE a b = (a \<noteq> b)"
| "compare SET a b = (a AND b \<noteq> 0)"
| "compare NSET a b = (a AND b = 0)"
| "compare LT a b = (a < b)"
| "compare LE a b = (a \<le> b)"
| "compare GT a b = (a > b)"
| "compare GE a b = (a \<ge> b)"
| "compare SLT a b = (sint a < sint b)"
| "compare SLE a b = (sint a \<le> sint b)"
| "compare SGT a b = (sint a > sint b)"
| "compare SGE a b = (sint a \<ge> sint b)"

fun value_of :: "(Reg \<Rightarrow> u64) \<Rightarrow> Value \<Rightarrow> u64" where
  "value_of \<sigma> (Imm v) = v"
| "value_of \<sigma> (Reg r) = \<sigma> r"

definition cond_holds :: "(Reg \<Rightarrow> u64) \<Rightarrow> Condition \<Rightarrow> bool" where
  "cond_holds \<sigma> c =
     (let a = \<sigma> (cond_left c); b = value_of \<sigma> (cond_right c)
      in if cond_is64 c then compare (cond_op c) a b else compare (cond_op c) (ucast a :: 32 word) (ucast b))"

lemma compare_reverse: "compare (reverse_op c) a b \<longleftrightarrow> \<not> compare c a b"
  by (cases c) auto

lemma cond_holds_reverse: "cond_holds \<sigma> (reverse_condition c) \<longleftrightarrow> \<not> cond_holds \<sigma> c"
  by (simp add: cond_holds_def reverse_condition_def compare_reverse Let_def)

fun next_label :: "(Reg \<Rightarrow> u64) \<Rightarrow> Instruction \<Rightarrow> Label \<Rightarrow> Label" where
  "next_label \<sigma> (Jmp (Some c) target) ft = (if cond_holds \<sigma> c then target else ft)"
| "next_label \<sigma> (Jmp None target) ft = target"
| "next_label \<sigma> (Exit _) ft = label_exit"
| "next_label \<sigma> ins ft = ft"

lemma next_label_same: "ft = next_label \<sigma> (Jmp c ft) ft" and next_label_uncond: "\<nexists>c. x = Some c \<Longrightarrow> t = next_label \<sigma> (Jmp x t) ft"
  by (cases c; simp) (cases x; simp)

text \<open>One step in the graph: along an edge, and through the assumption on it when there is one.\<close>

definition cfg_flow :: "Program \<Rightarrow> (Reg \<Rightarrow> u64) \<Rightarrow> Label \<Rightarrow> Label \<Rightarrow> bool" where
  "cfg_flow p \<sigma> a b \<longleftrightarrow>
     (\<exists>y. has_edge p a y \<and>
        (if isjump y then (\<exists>c i. ins_at p y = Some (Assume c i) \<and> cond_holds \<sigma> c) \<and> has_edge p y b else b = y))"

text \<open>The sequences the decoder produces: the labels are positions, and so are the targets.\<close>

definition plain_label :: "Label \<Rightarrow> bool" where
  "plain_label l \<longleftrightarrow> l = label_at (label_from l) \<and> 0 \<le> label_from l"

definition plain_seq :: "InstructionSeq \<Rightarrow> bool" where
  "plain_seq insts \<longleftrightarrow>
     list_all (\<lambda>(l, ins, _). plain_label l \<and> (case jump_target ins of None \<Rightarrow> True | Some t \<Rightarrow> plain_label t)) insts"

lemma plain_label_simps:
  "plain_label l \<Longrightarrow> stack_frame_prefix l = []" "plain_label l \<Longrightarrow> special_label l = []" "plain_label l \<Longrightarrow> \<not> isjump l"
  "plain_label label_exit"
  unfolding plain_label_def by (metis label_at_simps isjump_def, metis label_at_simps, metis label_at_simps isjump_def, simp add: label_exit_def)

lemma plain_make_jump: "plain_label t \<Longrightarrow> isjump (make_jump l t)" "plain_label t \<Longrightarrow> stack_frame_prefix (make_jump l t) = []"
  by (auto simp: isjump_def plain_label_def plain_label_simps(1))

lemma plain_make_jump_inject:
  assumes "plain_label l" "plain_label l'" "plain_label t" "plain_label t'"
  shows "make_jump l t = make_jump l' t' \<longleftrightarrow> l = l' \<and> t = t'"
  using assms unfolding plain_label_def by (metis make_jump_simps(1,2))

lemma plain_not_jump: "plain_label l \<Longrightarrow> plain_label t \<Longrightarrow> l \<noteq> make_jump l' t"
  using plain_make_jump(1) plain_label_simps(3) by blast

lemma with_next_mem:
  "(l, ins, ft) \<in> set (with_next insts) \<Longrightarrow>
   (\<exists>li. (l, ins, li) \<in> set insts) \<and> (ft = label_exit \<or> ft \<in> seq_labels insts)"
  by (induction insts rule: with_next.induct) (auto split: list.splits)

lemma with_next_ex: "(l, ins, li) \<in> set insts \<Longrightarrow> \<exists>ft. (l, ins, ft) \<in> set (with_next insts)"
  by (induction insts rule: with_next.induct) auto

lemma plain_seq_next:
  assumes "plain_seq insts" "(l, ins, ft) \<in> set (with_next insts)"
  shows "plain_label l" "plain_label ft" "jump_target ins = Some t \<Longrightarrow> plain_label t"
  using with_next_mem[OF assms(2)] assms(1) plain_label_simps(4)
  by (fastforce simp: plain_seq_def list_all_iff seq_labels_def)+

lemma defined_next_Cons:
  "defined_next ((l, ins, li) # rest) =
     (if is_undefined ins then [] else [(l, ins, case rest of [] \<Rightarrow> label_exit | (n, _) # _ \<Rightarrow> n)]) @ defined_next rest"
  by (simp add: defined_next_def)

lemma defined_next_labels: "fst ` set (defined_next insts) = {l. \<exists>ins li. (l, ins, li) \<in> set insts \<and> \<not> is_undefined ins}"
  using with_next_mem with_next_ex unfolding defined_next_def by (fastforce simp: image_iff)

lemma insert_instructions_distinct:
  "insert_instructions insts p = Inr p' \<Longrightarrow> program_inv p \<Longrightarrow> distinct (map fst (defined_next insts))"
proof (induction insts arbitrary: p)
  case (Cons i insts)
  obtain l ins li where i: "i = (l, ins, li)" by (cases i)
  obtain p1 where p1: "(if is_undefined ins then Inr p else cfg_insert l ins p) = Inr p1"
    and rest: "insert_instructions insts p1 = Inr p'"
    using Cons.prems(1) by (auto simp: insert_instructions_def i result_iffs)
  show ?case
  proof (cases "is_undefined ins")
    case True
    then show ?thesis using Cons.IH[OF rest] Cons.prems(2) p1 i by (simp add: defined_next_Cons)
  next
    case False
    then have c: "cfg_insert l ins p = Inr p1" using p1 by simp
    note s = cfg_insert_spec[OF c Cons.prems(2)]
    have "l \<notin> fst ` set (defined_next insts)"
      using insert_instructions_spec[OF rest s(1)] s(3) unfolding defined_next_labels by auto
    then show ?thesis using Cons.IH[OF rest s(1)] False i by (simp add: defined_next_Cons)
  qed
qed (simp add: defined_next_def)

definition first_pass :: "InstructionSeq \<Rightarrow> bool \<Rightarrow> Program result" where
  "first_pass insts me =
     rbind (insert_instructions insts empty_program) (\<lambda>p.
       case insts of
         [] \<Rightarrow> Inl (Invalid_Control_Flow ''empty instruction sequence'')
       | (l, _) # _ \<Rightarrow> rbind (add_child label_entry l p) (connect_all me insts))"

lemma instruction_seq_to_cfg_first_pass:
  "instruction_seq_to_cfg insts me = obind (Some (first_pass insts me)) (inline_calls insts)"
  by (simp add: instruction_seq_to_cfg_def first_pass_def)

lemma empty_program_simps [simp]:
  "labels_of empty_program = {label_entry, label_exit}" "\<not> has_edge empty_program x y" "m_assertions empty_program = [(label_entry, []), (label_exit, [])]"
  by (auto simp: empty_program_def empty_cfg_def cfg_labels_def om_keys_def edge_def no_adjacent_def split: option.splits if_splits)

lemma first_pass_spec:
  assumes "first_pass insts me = Inr p" "plain_seq insts"
  shows "program_inv p"
    "has_edge p x y \<longleftrightarrow> x = label_entry \<and> y = fst (hd insts) \<or> (\<exists>(l, ins, ft) \<in> set (defined_next insts). connect_edges l ins ft x y)"
    "(l, ins, ft) \<in> set (defined_next insts) \<Longrightarrow>
       l \<in> labels_of p \<and> l \<noteq> label_entry \<and> ins_at p l = Some ins \<and> (\<forall>(j, a) \<in> set (connect_code l ins ft). j \<in> labels_of p \<and> ins_at p j = Some a)"
    "distinct (map fst (defined_next insts))"
    "j \<in> labels_of p \<Longrightarrow> stack_frame_prefix j = [] \<and> special_label j = []"
proof -
  obtain p0 p1 where p0: "insert_instructions insts empty_program = Inr p0"
    and p1: "add_child label_entry (fst (hd insts)) p0 = Inr p1" and p: "connect_all me insts p1 = Inr p"
    using assms(1) by (cases insts; cases "hd insts") (auto simp: first_pass_def result_iffs simp del: connect_all.simps)
  note s0 = insert_instructions_spec[OF p0 empty_program_inv]
  then have i0: "program_inv p0" by simp
  note s1 = add_child_spec[OF p1 i0]
  note s2 = connect_all_extended[OF p s1(1)]
  show "program_inv p" using s2 by (simp add: extended_def)
  show "has_edge p x y \<longleftrightarrow> x = label_entry \<and> y = fst (hd insts) \<or> (\<exists>(l, ins, ft) \<in> set (defined_next insts). connect_edges l ins ft x y)"
    using s0 s1(2) s2 by (simp add: extended_def program_update_def)
  show "distinct (map fst (defined_next insts))" by (rule insert_instructions_distinct[OF p0 empty_program_inv])
  have l0: "l \<in> labels_of p1 \<and> l \<noteq> label_entry \<and> ins_at p1 l = Some ins" if "(l, ins, ft) \<in> set (defined_next insts)" for l ins ft
  proof -
    have u: "\<not> is_undefined ins" "(l, ins, ft) \<in> set (with_next insts)" using that by (simp_all add: defined_next_def)
    then obtain li where m: "(l, ins, li) \<in> set insts" using with_next_mem by blast
    have "l \<notin> {label_entry, label_exit}" "ins_at p0 l = Some ins" "l \<in> labels_of p0" using s0 m u(1) by auto
    then show ?thesis using s1(2) by (simp add: program_update_def)
  qed
  let ?code = "concat (map (\<lambda>(l, ins, ft). connect_code l ins ft) (defined_next insts))"
  have code: "j \<in> labels_of p \<and> ins_at p j = Some a" if "(j, a) \<in> set ?code" for j a
    using s2 that imageI[OF that, of fst] by (auto simp: extended_def)
  show "l \<in> labels_of p \<and> l \<noteq> label_entry \<and> ins_at p l = Some ins \<and> (\<forall>(j, a) \<in> set (connect_code l ins ft). j \<in> labels_of p \<and> ins_at p j = Some a)"
    if d: "(l, ins, ft) \<in> set (defined_next insts)"
  proof -
    have "j \<in> labels_of p \<and> ins_at p j = Some a" if "(j, a) \<in> set (connect_code l ins ft)" for j a
      by (rule code) (use that d in auto)
    moreover have "l \<in> labels_of p \<and> ins_at p l = ins_at p1 l" using l0[OF d] s2 by (simp add: extended_def)
    ultimately show ?thesis using l0[OF d] by auto
  qed
  have "stack_frame_prefix j = [] \<and> special_label j = []" if "(j, a) \<in> set (connect_code l ins ft)" "(l, ins, ft) \<in> set (with_next insts)" for j a l ins ft
    using that plain_seq_next[OF assms(2) that(2)]
    by (cases ins) (auto simp: connect_code_def plain_label_simps(1) split: option.splits if_splits)
  moreover have "stack_frame_prefix j = [] \<and> special_label j = []" if "j \<in> labels_of p1" for j
    using that s0 s1(2) assms(2) plain_label_simps(1,2)
    by (fastforce simp: program_update_def plain_seq_def list_all_iff label_entry_def label_exit_def)
  ultimately show "j \<in> labels_of p \<Longrightarrow> stack_frame_prefix j = [] \<and> special_label j = []"
    using s2 by (fastforce simp: extended_def defined_next_def)
qed

text \<open>The edges that leave an instruction and the assumptions after a conditional jump, after the first pass.\<close>

lemma connect_edges_source:
  "connect_edges l ins ft x y \<Longrightarrow> x \<noteq> l \<Longrightarrow> \<exists>t. x = make_jump l t \<and> y = t \<and> (t = ft \<or> jump_target ins = Some t)"
  by (cases ins) (auto simp: connect_edges_def jump_edges_def split: option.splits if_splits)

lemma connect_code_edge: "(j, a) \<in> set (connect_code l ins ft) \<Longrightarrow>
  \<exists>t. j = make_jump l t \<and> (t = ft \<or> jump_target ins = Some t) \<and> connect_edges l ins ft j t"
  by (cases ins) (auto simp: connect_edges_def connect_code_def jump_edges_def split: option.splits if_splits)

lemma first_pass_edges:
  assumes fp: "first_pass insts me = Inr p" and plain: "plain_seq insts" and d: "(l, ins, ft) \<in> set (defined_next insts)"
  shows "has_edge p l y \<longleftrightarrow> connect_edges l ins ft l y"
    "(make_jump l t, a) \<in> set (connect_code l ins ft) \<Longrightarrow> plain_label t \<Longrightarrow> has_edge p (make_jump l t) y \<longleftrightarrow> y = t"
proof -
  note s = first_pass_spec[OF fp plain]
  have pl: "plain_label l'" "plain_label ft'" "\<And>t. jump_target ins' = Some t \<Longrightarrow> plain_label t"
    if "(l', ins', ft') \<in> set (defined_next insts)" for l' ins' ft'
    using plain_seq_next[OF plain] that by (auto simp: defined_next_def)
  have uniq: "(ins', ft') = (ins, ft)" if "(l, ins', ft') \<in> set (defined_next insts)" for ins' ft'
    using eq_key_imp_eq_value[OF s(4) d that] by simp
  have "l' = l" if "(l', ins', ft') \<in> set (defined_next insts)" "connect_edges l' ins' ft' l z" for l' ins' ft' z
    using connect_edges_source[OF that(2)] pl[OF that(1)] pl(1)[OF d] plain_not_jump by metis
  then have "(\<exists>(l', ins', ft') \<in> set (defined_next insts). connect_edges l' ins' ft' l y) \<longleftrightarrow> connect_edges l ins ft l y"
    using d uniq by fast
  then show "has_edge p l y \<longleftrightarrow> connect_edges l ins ft l y" using s(2)[of l y] s(3)[OF d] by auto
  assume c: "(make_jump l t, a) \<in> set (connect_code l ins ft)" and t: "plain_label t"
  let ?j = "make_jump l t"
  have "z = t" if "(l', ins', ft') \<in> set (defined_next insts)" "connect_edges l' ins' ft' ?j z" for l' ins' ft' z
    using connect_edges_source[OF that(2)] pl[OF that(1)] pl(1)[OF d] plain_not_jump t plain_make_jump_inject by metis
  moreover have "connect_edges l ins ft ?j t"
    using connect_code_edge[OF c] pl[OF d] plain_make_jump_inject t by metis
  moreover have "?j \<noteq> label_entry" using plain_make_jump(1)[OF t, of l] by (metis isjump_def label_at_simps(2) label_entry_def)
  ultimately show "has_edge p ?j y \<longleftrightarrow> y = t" using s(2)[of ?j y] d by auto
qed

lemma first_pass_flow:
  assumes fp: "first_pass insts me = Inr p" and plain: "plain_seq insts" and d: "(l, ins, ft) \<in> set (defined_next insts)"
  shows "cfg_flow p \<sigma> l b \<longleftrightarrow> b = next_label \<sigma> ins ft"
proof -
  note s = first_pass_spec[OF fp plain] and e = first_pass_edges[OF fp plain d]
  have w: "(l, ins, ft) \<in> set (with_next insts)" using d by (simp add: defined_next_def)
  note pl = plain_seq_next[OF plain w]
  show ?thesis
  proof (cases "\<exists>c t. ins = Jmp (Some c) t \<and> t \<noteq> ft")
    case True
    then obtain c t where i: "ins = Jmp (Some c) t" "t \<noteq> ft" by blast
    let ?jt = "make_jump l t" and ?jf = "make_jump l ft"
    have t: "plain_label t" using pl(3)[of t] i by simp
    have code: "set (connect_code l ins ft) = {(?jt, Assume c True), (?jf, Assume (reverse_condition c) True)}"
      using i by (simp add: connect_code_def)
    have at: "ins_at p ?jt = Some (Assume c True)" "ins_at p ?jf = Some (Assume (reverse_condition c) True)"
      using s(3)[OF d] code by auto
    have out: "has_edge p l y \<longleftrightarrow> y = ?jt \<or> y = ?jf" for y
      using e(1)[of y] i plain_not_jump[OF pl(1) t] plain_not_jump[OF pl(1,2)] by (auto simp: connect_edges_def jump_edges_def)
    have on: "has_edge p ?jt y \<longleftrightarrow> y = t" "has_edge p ?jf y \<longleftrightarrow> y = ft" for y
      using e(2)[of t "Assume c True" y] e(2)[of ft "Assume (reverse_condition c) True" y] code t pl(2) by auto
    have "isjump ?jt" "isjump ?jf" using t pl(2) by (simp_all add: plain_make_jump)
    then show ?thesis unfolding cfg_flow_def out using on at i cond_holds_reverse[of \<sigma> c] by auto
  next
    case False
    define z where "z = (case ins of Jmp _ target \<Rightarrow> target | Exit _ \<Rightarrow> label_exit | _ \<Rightarrow> ft)"
    have "has_edge p l y \<longleftrightarrow> y = z" for y
      using e(1)[of y] False by (cases ins) (auto simp: connect_edges_def z_def split: option.splits)
    moreover have "z = next_label \<sigma> ins ft" using False
      by (cases ins) (auto simp: z_def intro: next_label_same next_label_uncond)
    moreover have "\<not> isjump z" using pl plain_label_simps(3,4) by (cases ins) (auto simp: z_def)
    ultimately show ?thesis by (auto simp: cfg_flow_def)
  qed
qed

section \<open>All calls of a program\<close>

fun is_call_local :: "Instruction \<Rightarrow> bool" where
  "is_call_local (CallLocal _ _) = True"
| "is_call_local _ = False"

text \<open>
  \<open>inlined_all C p p'\<close>: the nodes added belong to calls, and of the nodes outside of calls only
  those in \<open>C\<close> have changed.
\<close>

definition inlined_all :: "Label set \<Rightarrow> Program \<Rightarrow> Program \<Rightarrow> bool" where
  "inlined_all C p p' \<longleftrightarrow> program_inv p' \<and> labels_of p \<subseteq> labels_of p' \<and>
     (\<forall>l \<in> labels_of p' - labels_of p. stack_frame_prefix l \<noteq> [] \<and> slashes (stack_frame_prefix l) \<le> 6 \<and> special_label l = []) \<and>
     (\<forall>l \<in> labels_of p. l \<notin> C \<and> stack_frame_prefix l = [] \<longrightarrow> ins_at p' l = ins_at p l) \<and>
     (\<forall>l y. l \<notin> C \<and> stack_frame_prefix l = [] \<longrightarrow> has_edge p' l y = has_edge p l y) \<and>
     m_assertions p' = m_assertions p"

lemma inlined_all_trans:
  "inlined_all C p p' \<Longrightarrow> inlined_all C' p' p'' \<Longrightarrow> inlined_all (C \<union> C') p p''"
  unfolding inlined_all_def by (auto simp: subset_iff)

lemma inlined_all_one: "inlined c p p' \<Longrightarrow> stack_frame_prefix c = [] \<Longrightarrow> inlined_all {c} p p'"
  unfolding inlined_all_def inlined_def by auto

lemma inlined_all_refl: "program_inv p \<Longrightarrow> inlined_all {} p p"
  by (simp add: inlined_all_def)

definition callers :: "InstructionSeq \<Rightarrow> Label set" where
  "callers insts = {l. \<exists>ins li. (l, ins, li) \<in> set insts \<and> is_call_local ins}"

lemma callers_Cons: "callers ((l, ins, li) # rest) = (if is_call_local ins then {l} else {}) \<union> callers rest"
  by (auto simp: callers_def)

lemma callers_defined: "callers insts \<subseteq> fst ` set (defined_next insts)"
  unfolding defined_next_labels callers_def by (fastforce elim: is_call_local.elims)

lemma inline_calls_Cons:
  "inline_calls ((l, ins, li) # rest) p =
     obind (case ins of CallLocal target _ \<Rightarrow> add_cfg_nodes (nat MAX_CALL_STACK_FRAMES) l target p | _ \<Rightarrow> Some (Inr p)) (inline_calls rest)"
  by (simp add: inline_calls_def)

lemma inline_calls_spec:
  assumes "inline_calls insts p = Some (Inr p')" "program_inv p" "plain_seq insts" "distinct (map fst (defined_next insts))"
  shows "inlined_all (callers insts) p p'"
    "(l, CallLocal t s, li) \<in> set insts \<Longrightarrow> has_edge p' l y \<longleftrightarrow> y = clone_label (label_to_string l) t"
proof -
  have "inlined_all (callers insts) p p' \<and>
    (\<forall>l t s li y. (l, CallLocal t s, li) \<in> set insts \<longrightarrow> has_edge p' l y = (y = clone_label (label_to_string l) t))"
    using assms
  proof (induction insts arbitrary: p)
    case Nil
    then show ?case by (simp add: inline_calls_def callers_def inlined_all_refl)
  next
    case (Cons i insts)
    obtain l ins li where i: "i = (l, ins, li)" by (cases i)
    have plain: "plain_label l" "plain_seq insts" using Cons.prems(3) by (auto simp: i plain_seq_def)
    have dist: "distinct (map fst (defined_next insts))" using Cons.prems(4) by (simp add: i defined_next_Cons)
    show ?case
    proof (cases "is_call_local ins")
      case True
      then obtain target s where ins: "ins = CallLocal target s" by (cases ins) auto
      obtain p1 where p1: "add_cfg_nodes (nat MAX_CALL_STACK_FRAMES) l target p = Some (Inr p1)"
        and rest: "inline_calls insts p1 = Some (Inr p')"
        using Cons.prems(1) by (auto simp: i ins inline_calls_Cons obind_iff)
      have "slashes (label_to_string l) \<le> 6" using plain(1) by (simp add: slashes_label_to_string plain_label_simps)
      note a = add_cfg_nodes_inlined[OF p1 Cons.prems(2) this]
      have one: "inlined_all {l} p p1" using a plain(1) inlined_all_one plain_label_simps(1) by blast
      have inv1: "program_inv p1" using a by (simp add: inlined_def)
      note ih = Cons.IH[OF rest inv1 plain(2) dist]
      have "l \<notin> callers insts" using Cons.prems(4) callers_defined[of insts] by (auto simp: i ins defined_next_Cons)
      then have "has_edge p' l y \<longleftrightarrow> y = clone_label (label_to_string l) target" for y
        using a ih plain_label_simps(1)[OF plain(1)] by (simp add: inlined_all_def)
      moreover have "inlined_all (callers (i # insts)) p p'"
        using inlined_all_trans[OF one] ih by (simp add: i callers_Cons ins)
      ultimately show ?thesis using ih by (auto simp: i ins)
    next
      case False
      then have "inline_calls insts p = Some (Inr p')"
        using Cons.prems(1) by (cases ins) (auto simp: i inline_calls_Cons obind_iff)
      from Cons.IH[OF this Cons.prems(2) plain(2) dist] show ?thesis using False by (auto simp: i callers_Cons)
    qed
  qed
  then show "inlined_all (callers insts) p p'"
    "(l, CallLocal t s, li) \<in> set insts \<Longrightarrow> has_edge p' l y \<longleftrightarrow> y = clone_label (label_to_string l) t" by blast+
qed

lemma inline_calls_terminates:
  assumes "program_inv p" "plain_seq insts"
  shows "inline_calls insts p \<noteq> None"
  unfolding inline_calls_def
proof (rule oseq_defined[where I = program_inv, OF assms(1)])
  let ?f = "\<lambda>(l, ins, _) p. case ins of
      CallLocal target _ \<Rightarrow> add_cfg_nodes (nat MAX_CALL_STACK_FRAMES) l target p | _ \<Rightarrow> Some (Inr p)"
  fix f u assume f: "f \<in> set (map ?f insts)" and u: "program_inv u"
  then obtain l ins li where i: "(l, ins, li) \<in> set insts" "f = ?f (l, ins, li)" by auto
  have "plain_label l" using i(1) assms(2) by (auto simp: plain_seq_def list_all_iff)
  then have sl: "slashes (label_to_string l) = 0" by (simp add: slashes_label_to_string plain_label_simps)
  show "f u \<noteq> None" using i(2) add_cfg_nodes_terminates[OF u, of l 8] sl by (cases ins) simp_all
  show "program_inv v" if "f u = Some (Inr v)" for v
    using that i(2) add_cfg_nodes_inlined[of 8 l _ u v] u sl by (cases ins) (auto simp: inlined_def)
qed

section \<open>The finished program\<close>

lemma seq_to_cfg_cases:
  assumes "instruction_seq_to_cfg insts me = Some (Inr p)" "plain_seq insts"
  obtains p1 where "first_pass insts me = Inr p1" "inlined_all (callers insts) p1 p"
    "\<And>l t s li y. (l, CallLocal t s, li) \<in> set insts \<Longrightarrow> has_edge p l y \<longleftrightarrow> y = clone_label (label_to_string l) t"
proof -
  obtain p1 where p1: "first_pass insts me = Inr p1" "inline_calls insts p1 = Some (Inr p)"
    using assms(1) by (auto simp: instruction_seq_to_cfg_first_pass obind_iff)
  note s = first_pass_spec[OF p1(1) assms(2)]
  note c = inline_calls_spec[OF p1(2) s(1) assms(2) s(4)]
  show ?thesis by (rule that[OF p1(1)]) (use c in blast)+
qed

lemma seq_to_cfg_flow:
  assumes "instruction_seq_to_cfg insts me = Some (Inr p)" "plain_seq insts"
    and d: "(l, ins, ft) \<in> set (with_next insts)" and ins: "\<not> is_undefined ins" "\<not> is_call_local ins"
  shows "cfg_flow p \<sigma> l b \<longleftrightarrow> b = next_label \<sigma> ins ft"
proof -
  obtain p1 where p1: "first_pass insts me = Inr p1" "inlined_all (callers insts) p1 p"
    using seq_to_cfg_cases[OF assms(1,2)] by metis
  have d': "(l, ins, ft) \<in> set (defined_next insts)" using d ins(1) by (simp add: defined_next_def)
  note s = first_pass_spec[OF p1(1) assms(2)] and e = first_pass_edges[OF p1(1) assms(2) d']
  note pl = plain_seq_next[OF assms(2) d]
  have caller_at: "\<exists>ft ins. (c, ins, ft) \<in> set (defined_next insts) \<and> is_call_local ins \<and> plain_label c" if c: "c \<in> callers insts" for c
  proof -
    obtain i li where "(c, i, li) \<in> set insts" "is_call_local i" using c by (auto simp: callers_def)
    then show ?thesis using with_next_ex[of c i li insts] plain_seq_next(1)[OF assms(2)]
      by (cases i) (fastforce simp: defined_next_def)+
  qed
  have "l \<notin> callers insts"
    using caller_at[of l] eq_key_imp_eq_value[OF s(4) d'] ins(2) by fastforce
  moreover have keep: "has_edge p x z = has_edge p1 x z" "x \<in> labels_of p1 \<Longrightarrow> ins_at p x = ins_at p1 x"
    if "x \<notin> callers insts" "stack_frame_prefix x = []" for x z
    using p1(2) that by (auto simp: inlined_all_def)
  moreover have "has_edge p l y = has_edge p1 l y" for y
    using calculation plain_label_simps(1)[OF pl(1)] by blast
  moreover have "has_edge p y b = has_edge p1 y b \<and> ins_at p y = ins_at p1 y" if y: "has_edge p1 l y" "isjump y" for y b
  proof -
    have "cfg_contains (m_cfg p1) y" using s(1) y(1) edge_contains by (auto simp: program_inv_def)
    then have "y \<in> labels_of p1" by (simp add: cfg_contains_iff)
    moreover have "y \<notin> callers insts" using caller_at[of y] y(2) plain_label_simps(3) by blast
    ultimately show ?thesis using keep s(5) by blast
  qed
  ultimately have "cfg_flow p \<sigma> l b \<longleftrightarrow> cfg_flow p1 \<sigma> l b" unfolding cfg_flow_def by (metis (no_types, lifting))
  then show ?thesis using first_pass_flow[OF p1(1) assms(2) d'] by simp
qed

lemma seq_to_cfg_depth:
  assumes "instruction_seq_to_cfg insts me = Some (Inr p)" "plain_seq insts" "l \<in> labels_of p"
  shows "call_stack_depth l \<le> MAX_CALL_STACK_FRAMES"
proof -
  obtain p1 where p1: "first_pass insts me = Inr p1" "inlined_all (callers insts) p1 p"
    using seq_to_cfg_cases[OF assms(1,2)] by metis
  then have "stack_frame_prefix l = [] \<or> slashes (stack_frame_prefix l) \<le> 6"
    using assms(3) first_pass_spec(5)[OF p1(1) assms(2)] by (auto simp: inlined_all_def)
  then show ?thesis by (auto simp: call_stack_depth_slashes)
qed

lemma seq_to_cfg_terminates: "plain_seq insts \<Longrightarrow> instruction_seq_to_cfg insts me \<noteq> None"
  using first_pass_spec(1) inline_calls_terminates by (auto simp: instruction_seq_to_cfg_first_pass obind_None)

lemma annotate_loop:
  assumes "rfold (\<lambda>l p. rbind (instruction_at p l) (\<lambda>ins.
        rbind (get_assertions ins info (Some l)) (\<lambda>as. set_assertions l as p))) ls p = Inr p'" "program_inv p"
  shows "program_inv p' \<and> m_cfg p' = m_cfg p \<and> m_instructions p' = m_instructions p \<and>
    (\<forall>l. (l \<notin> set ls \<longrightarrow> om_lookup (m_assertions p') l = om_lookup (m_assertions p) l) \<and>
       (l \<in> set ls \<longrightarrow> (\<exists>ins as. ins_at p l = Some ins \<and> get_assertions ins info (Some l) = Inr as \<and>
          om_lookup (m_assertions p') l = Some as)))"
  using assms
proof (induction ls arbitrary: p)
  case (Cons l ls)
  obtain ins as p1 where i: "instruction_at p l = Inr ins" "get_assertions ins info (Some l) = Inr as" "set_assertions l as p = Inr p1"
    and rest: "rfold (\<lambda>l p. rbind (instruction_at p l) (\<lambda>ins.
        rbind (get_assertions ins info (Some l)) (\<lambda>as. set_assertions l as p))) ls p1 = Inr p'"
    using Cons.prems(1) by (auto simp: result_iffs)
  have ins: "ins_at p l = Some ins" using i(1) by (auto simp: instruction_at_def split: option.splits)
  note s = set_assertions_spec[OF i(3) Cons.prems(2)]
  note ih = Cons.IH[OF rest s(1)]
  have "om_lookup (m_assertions p') k = om_lookup (m_assertions p) k" if "k \<notin> set (l # ls)" for k using ih s(4) that by simp
  moreover have "\<exists>ins as. ins_at p k = Some ins \<and> get_assertions ins info (Some k) = Inr as \<and> om_lookup (m_assertions p') k = Some as"
    if k: "k \<in> set (l # ls)" for k
  proof (cases "k \<in> set ls")
    case True
    then show ?thesis using ih s(3) by simp
  next
    case False
    then show ?thesis using k ih s(4) ins i(2) by auto
  qed
  ultimately show ?case using ih s(2,3) by simp
qed simp

text \<open>The counters: every head goes to its counter only, and the counter to the former successors of the head.\<close>

definition counted :: "Label \<Rightarrow> Program \<Rightarrow> Program \<Rightarrow> bool" where
  "counted h p p' \<longleftrightarrow> h \<in> labels_of p \<and> ins_at p' (make_increment_counter h) = Some (IncrementLoopCounter h) \<and>
     (\<forall>y. has_edge p' h y \<longrightarrow> y = make_increment_counter h) \<and>
     (\<forall>y. has_edge p' (make_increment_counter h) y = has_edge p h y)"

lemma add_counters_spec:
  assumes "add_counters heads p = Inr p'" "program_inv p" "distinct heads"
    "\<forall>h \<in> set heads. \<forall>k \<in> set heads. make_increment_counter h \<noteq> k"
  shows "program_inv p' \<and> labels_of p' = labels_of p \<union> make_increment_counter ` set heads \<and>
    (\<forall>h \<in> set heads. counted h p p') \<and> (\<forall>l \<in> labels_of p. ins_at p' l = ins_at p l) \<and>
    (\<forall>x \<in> labels_of p - set heads. \<forall>y. has_edge p' x y = has_edge p x y)"
  using assms
proof (induction heads arbitrary: p)
  case (Cons h heads)
  let ?n = "make_increment_counter h"
  obtain p1 where p1: "insert_after h ?n (IncrementLoopCounter h) p = Inr p1" and rest: "add_counters heads p1 = Inr p'"
    using Cons.prems(1) by (auto simp: add_counters_def result_iffs)
  note s = insert_after_spec[OF p1 Cons.prems(2)]
  have ih: "program_inv p'" "labels_of p' = labels_of p1 \<union> make_increment_counter ` set heads"
    "\<And>k. k \<in> set heads \<Longrightarrow> counted k p1 p'" "\<And>l. l \<in> labels_of p1 \<Longrightarrow> ins_at p' l = ins_at p1 l"
    "\<And>x y. x \<in> labels_of p1 \<Longrightarrow> x \<notin> set heads \<Longrightarrow> has_edge p' x y = has_edge p1 x y"
    using Cons.IH[OF rest s(1)] Cons.prems(3,4) by auto
  have h: "h \<notin> set heads" "?n \<notin> set heads" "?n \<noteq> h" using Cons.prems(3,4) by auto
  have n1: "?n \<in> labels_of p1" "h \<in> labels_of p1" using s(2,4) by auto
  have no: "\<not> has_edge p ?n y" for y
    using edge_contains[of "m_cfg p" ?n y] Cons.prems(2) s(3) by (auto simp: program_inv_def cfg_contains_iff)
  have "counted h p p'"
    using ih(4)[OF n1(1)] ih(5)[OF n1(1) h(2)] ih(5)[OF n1(2) h(1)] s(2,5) s(7)[of h] s(7)[of ?n] h(3) no
    by (simp add: counted_def)
  moreover have "counted k p p'" if k: "k \<in> set heads" for k
  proof -
    have "k \<noteq> h" "k \<noteq> ?n" using k h by auto
    then have "k \<in> labels_of p1 \<longleftrightarrow> k \<in> labels_of p" "\<And>y. has_edge p1 k y = has_edge p k y" using s(4) s(7)[of k] by simp_all
    then show ?thesis using ih(3)[OF k] by (simp add: counted_def)
  qed
  moreover have "ins_at p' l = ins_at p l" if "l \<in> labels_of p" for l
  proof -
    have "l \<noteq> ?n" "l \<in> labels_of p1" using that s(3,4) by auto
    then show ?thesis using ih(4) s(5) by simp
  qed
  moreover have "has_edge p' x y = has_edge p x y" if "x \<in> labels_of p - set (h # heads)" for x y
  proof -
    have "x \<noteq> ?n" "x \<noteq> h" "x \<in> labels_of p1" "x \<notin> set heads" using that s(3,4) by auto
    then show ?thesis using ih(5) s(7)[of x y] by simp
  qed
  moreover have "labels_of p' = labels_of p \<union> make_increment_counter ` set (h # heads)" using ih(2) s(4) by simp
  ultimately show ?case using ih(1) by simp
qed (simp add: add_counters_def)

lemma add_counters_distinct:
  assumes "add_counters heads p = Inr p'" "program_inv p"
  shows "distinct heads \<and> (\<forall>h \<in> set heads. special_label h \<noteq> ''counter'' \<and> make_increment_counter h \<notin> labels_of p)"
  using assms
proof (induction heads arbitrary: p)
  case (Cons h heads)
  obtain p1 where p1: "insert_after h (make_increment_counter h) (IncrementLoopCounter h) p = Inr p1"
    and rest: "add_counters heads p1 = Inr p'"
    using Cons.prems(1) by (auto simp: add_counters_def result_iffs)
  note s = insert_after_spec[OF p1 Cons.prems(2)]
  have "h \<noteq> make_increment_counter h" using p1 by (auto simp: insert_after_def)
  then have "special_label h \<noteq> ''counter''" by (cases h) (auto simp: make_increment_counter_def)
  then show ?case using Cons.IH[OF rest s(1)] s(3,4) by auto
qed simp

lemma add_counters_counted:
  assumes "add_counters heads p = Inr p'" "program_inv p"
  shows "program_inv p'" "labels_of p' = labels_of p \<union> make_increment_counter ` set heads" "\<forall>h \<in> set heads. counted h p p'"
proof -
  note d = add_counters_distinct[OF assms]
  have "make_increment_counter h \<noteq> k" if "k \<in> set heads" for h k
    using d that by (auto simp: make_increment_counter_def)
  then have "program_inv p' \<and> labels_of p' = labels_of p \<union> make_increment_counter ` set heads \<and> (\<forall>h \<in> set heads. counted h p p')"
    using add_counters_spec[OF assms] d by blast
  then show "program_inv p'" "labels_of p' = labels_of p \<union> make_increment_counter ` set heads" "\<forall>h \<in> set heads. counted h p p'"
    by blast+
qed

text \<open>The stages of \<^verbatim>\<open>from_sequence\<close>, as one case rule.\<close>

lemma from_sequence_cases:
  assumes "from_sequence insts info options = Some (Inr p)" "plain_seq insts"
  obtains p0 p1 where "instruction_seq_to_cfg insts (must_have_exit options) = Some (Inr p0)" "program_inv p0"
    "if check_for_termination options
     then \<exists>w heads. build_wto (m_cfg p0) = Some (Inr w) \<and> for_each_loop_head (wto_trees w) = Inr heads \<and> add_counters heads p0 = Inr p1
     else p1 = p0" "annotate info p1 = Inr p" "program_inv p1"
proof -
  obtain p0 p1 where p0: "instruction_seq_to_cfg insts (must_have_exit options) = Some (Inr p0)"
    and p1: "if check_for_termination options
     then \<exists>w heads. build_wto (m_cfg p0) = Some (Inr w) \<and> for_each_loop_head (wto_trees w) = Inr heads \<and> add_counters heads p0 = Inr p1
     else p1 = p0" and p: "annotate info p1 = Inr p"
    using assms(1) by (cases "check_for_termination options") (auto simp: from_sequence_def obind_iff)
  have inv0: "program_inv p0"
    by (rule seq_to_cfg_cases[OF p0 assms(2)]) (simp add: inlined_all_def)
  then have "program_inv p1" using p1 add_counters_counted(1) by (auto split: if_splits)
  then show ?thesis using that p0 inv0 p1 p by blast
qed

lemma annotate_spec:
  assumes "annotate info p = Inr p'" "program_inv p"
  shows "program_inv p'" "m_cfg p' = m_cfg p" "m_instructions p' = m_instructions p"
    "l \<in> labels_of p \<Longrightarrow> \<exists>ins as. ins_at p l = Some ins \<and> get_assertions ins info (Some l) = Inr as \<and> om_lookup (m_assertions p') l = Some as"
  using annotate_loop[OF assms(1)[unfolded annotate_def] assms(2)] by blast+

end
