(* ===== verification/Register_Interval.thy ===== *)
theory Register_Interval
  imports Fwd_Termination Cfg_Sound Interval_Bits
begin

text \<open>
  An instance of the contract of the fixpoint iterator: the values of one register as an interval,
  built from the operations of \<^verbatim>\<open>crab/interval.hpp\<close>, over executions of eBPF instructions on 64-bit
  registers. Instructions whose effect on the registers is not spelled out may change them in any
  way, and the transformer forgets what it knows; the same holds for assertions that do not speak
  of register values alone.
\<close>

section \<open>Executions\<close>

definition exec_bin :: "Bin \<Rightarrow> (Reg \<Rightarrow> u64) \<Rightarrow> (Reg \<Rightarrow> u64) \<Rightarrow> bool" where
  "exec_bin b \<sigma> \<sigma>' \<longleftrightarrow>
     (\<exists>x. \<sigma>' = \<sigma>(bin_dst b := x) \<and>
        (bin_is64 b \<and> bin_op b = MOV \<longrightarrow> x = value_of \<sigma> (bin_v b)) \<and>
        (bin_is64 b \<and> bin_op b = ADD \<longrightarrow> x = \<sigma> (bin_dst b) + value_of \<sigma> (bin_v b)))"

fun exec :: "Instruction \<Rightarrow> (Reg \<Rightarrow> u64) \<Rightarrow> (Reg \<Rightarrow> u64) \<Rightarrow> bool" where
  "exec (Bin b) \<sigma> \<sigma>' = exec_bin b \<sigma> \<sigma>'"
| "exec (Assume c _) \<sigma> \<sigma>' = (cond_holds \<sigma> c \<and> \<sigma>' = \<sigma>)"
| "exec (Jmp _ _) \<sigma> \<sigma>' = (\<sigma>' = \<sigma>)"
| "exec (Exit _) \<sigma> \<sigma>' = (\<sigma>' = \<sigma>)"
| "exec (Undefined _) \<sigma> \<sigma>' = (\<sigma>' = \<sigma>)"
| "exec (IncrementLoopCounter _) \<sigma> \<sigma>' = (\<sigma>' = \<sigma>)"
| "exec _ \<sigma> \<sigma>' = True"

definition program_step :: "Program \<Rightarrow> Label \<Rightarrow> (Reg \<Rightarrow> u64) \<Rightarrow> (Reg \<Rightarrow> u64) \<Rightarrow> bool" where
  "program_step P l \<sigma> \<sigma>' \<longleftrightarrow> (\<exists>ins. instruction_at P l = Inr ins \<and> exec ins \<sigma> \<sigma>')"

text \<open>The assertions that speak of register values.\<close>

fun assertion_holds :: "Assertion \<Rightarrow> Label \<Rightarrow> (Reg \<Rightarrow> u64) \<Rightarrow> bool" where
  "assertion_holds (ValidDivisor r _) l \<sigma> = (\<sigma> r \<noteq> 0)"
| "assertion_holds _ l \<sigma> = True"

section \<open>Transformer\<close>

definition reg_gamma :: "Reg \<Rightarrow> Interval \<Rightarrow> (Reg \<Rightarrow> u64) set" where
  "reg_gamma r i = {\<sigma>. uint (\<sigma> r) \<in> iv_gamma i}"

definition iv_u64 :: Interval where
  "iv_u64 = iv_unsigned_int 64"

definition iv_value :: "Reg \<Rightarrow> Interval \<Rightarrow> Value \<Rightarrow> Interval" where
  "iv_value r i v = (case v of Imm c \<Rightarrow> iv_of (uint c) | Reg s \<Rightarrow> if s = r then i else iv_u64)"

definition iv_wrap_add :: "Interval \<Rightarrow> Interval \<Rightarrow> Interval" where
  "iv_wrap_add i x =
     (case rbind (iv_add i x) (iv_truncate_to uint64_t) of Inl _ \<Rightarrow> iv_u64 | Inr y \<Rightarrow> y)"

definition reg_bin :: "Reg \<Rightarrow> Interval \<Rightarrow> Bin \<Rightarrow> Interval" where
  "reg_bin r i b =
     (if bin_dst b \<noteq> r then i
      else if bin_is64 b \<and> bin_op b = MOV then iv_value r i (bin_v b)
      else if bin_is64 b \<and> bin_op b = ADD then iv_wrap_add i (iv_value r i (bin_v b))
      else iv_u64)"

definition reg_assume :: "Reg \<Rightarrow> Interval \<Rightarrow> Condition \<Rightarrow> Interval" where
  "reg_assume r i c =
     (case cond_right c of
        Reg _ \<Rightarrow> i
      | Imm v \<Rightarrow>
          if cond_left c \<noteq> r \<or> \<not> cond_is64 c then i
          else case cond_op c of
            EQ \<Rightarrow> iv_meet i (iv_of (uint v))
          | LT \<Rightarrow> iv_meet i (iv_make (ext_of 0) (ext_of (uint v - 1)))
          | LE \<Rightarrow> iv_meet i (iv_make (ext_of 0) (ext_of (uint v)))
          | GT \<Rightarrow> iv_meet i (iv_make (ext_of (uint v + 1)) plus_infinity)
          | GE \<Rightarrow> iv_meet i (iv_make (ext_of (uint v)) plus_infinity)
          | _ \<Rightarrow> i)"

fun reg_transform :: "Reg \<Rightarrow> Interval \<Rightarrow> Instruction \<Rightarrow> Interval" where
  "reg_transform r i (Bin b) = reg_bin r i b"
| "reg_transform r i (Assume c _) = reg_assume r i c"
| "reg_transform r i (Jmp _ _) = i"
| "reg_transform r i (Exit _) = i"
| "reg_transform r i (Undefined _) = i"
| "reg_transform r i (IncrementLoopCounter _) = i"
| "reg_transform r i _ = iv_u64"

definition strict_transform :: "Reg \<Rightarrow> Interval \<Rightarrow> Instruction \<Rightarrow> Interval" where
  "strict_transform r i ins = (if iv_is_bottom i then i else reg_transform r i ins)"

fun reg_check :: "Reg \<Rightarrow> Interval \<Rightarrow> Assertion \<Rightarrow> Label \<Rightarrow> string option" where
  "reg_check r i (ValidDivisor s _) l = (if iv_is_bottom i \<or> s = r \<and> \<not> iv_contains i 0 then None else Some ''Possible division by zero'')"
| "reg_check r i _ l = None"

definition interval_ops :: "Reg \<Rightarrow> Interval domain_ops" where
  "interval_ops r =
     \<lparr>dom_bottom = iv_bottom, dom_is_bottom = iv_is_bottom, dom_le = iv_le, dom_join_into = iv_join, dom_join = iv_join,
      dom_meet = iv_meet, dom_widen = (\<lambda>a b _. iv_widen a b), dom_narrow = iv_narrow, dom_check = reg_check r,
      dom_transform = strict_transform r, dom_init_loop_counter = (\<lambda>d _. d),
      dom_loop_count_upper_bound = (\<lambda>_. plus_infinity), dom_r0 = (\<lambda>d. if r = 0 then d else iv_top)\<rparr>"

section \<open>Soundness\<close>

lemma iv_u64 [simp]: "iv_wf iv_u64" "uint (x :: u64) \<in> iv_gamma iv_u64"
  using uint_lt2p[of x] by (simp_all add: iv_u64_def iv_unsigned_int_def num_max_uint_eq)

lemma reg_gamma_u64 [simp]: "\<sigma> \<in> reg_gamma r iv_u64"
  by (simp add: reg_gamma_def)

lemma iv_value_sound:
  "iv_wf i \<Longrightarrow> iv_wf (iv_value r i v)" "\<sigma> \<in> reg_gamma r i \<Longrightarrow> uint (value_of \<sigma> v) \<in> iv_gamma (iv_value r i v)"
  by (cases v; auto simp: iv_value_def reg_gamma_def)+

lemma iv_wrap_add_sound:
  assumes "iv_wf i" "iv_wf x"
  shows "iv_wf (iv_wrap_add i x)"
    "uint (a :: u64) \<in> iv_gamma i \<Longrightarrow> uint b \<in> iv_gamma x \<Longrightarrow> uint (a + b) \<in> iv_gamma (iv_wrap_add i x)"
proof -
  obtain y where y: "iv_add i x = Inr y" "iv_wf y" "\<forall>n\<in>iv_gamma i. \<forall>m\<in>iv_gamma x. n + m \<in> iv_gamma y"
    using iv_add_ok[OF assms] by blast
  obtain z where z: "iv_truncate_to uint64_t y = Inr z" "iv_wf z" "\<forall>n\<in>iv_gamma y. static_cast uint64_t n \<in> iv_gamma z"
    using iv_truncate_to_ok[OF y(2), of uint64_t] by auto
  have r: "iv_wrap_add i x = z" using y(1) z(1) by (simp add: iv_wrap_add_def)
  show "iv_wf (iv_wrap_add i x)" using r z(2) by simp
  assume m: "uint a \<in> iv_gamma i" "uint b \<in> iv_gamma x"
  have "uint (a + b) = static_cast uint64_t (uint a + uint b)"
    by (simp add: uint_word_ariths take_bit_eq_mod)
  then show "uint (a + b) \<in> iv_gamma (iv_wrap_add i x)" using m y(3) z(3) r by metis
qed

lemma reg_bin_sound:
  assumes "iv_wf i"
  shows "iv_wf (reg_bin r i b)" "\<sigma> \<in> reg_gamma r i \<Longrightarrow> exec_bin b \<sigma> \<sigma>' \<Longrightarrow> \<sigma>' \<in> reg_gamma r (reg_bin r i b)"
  using assms iv_value_sound(1)[of i r "bin_v b"] iv_value_sound(2)[of \<sigma> r i "bin_v b"] 
    iv_wrap_add_sound(1)[of i "iv_value r i (bin_v b)"]
    iv_wrap_add_sound(2)[of i "iv_value r i (bin_v b)" "\<sigma> (bin_dst b)" "value_of \<sigma> (bin_v b)"]
  by (auto simp: reg_bin_def exec_bin_def) (auto simp: reg_gamma_def)

lemma reg_assume_sound:
  assumes "iv_wf i"
  shows "iv_wf (reg_assume r i c)" "\<sigma> \<in> reg_gamma r i \<Longrightarrow> cond_holds \<sigma> c \<Longrightarrow> \<sigma> \<in> reg_gamma r (reg_assume r i c)"
  using assms
  by (auto simp: reg_assume_def reg_gamma_def cond_holds_def iv_wf_meet iv_wf_make iv_meet_gamma iv_gamma_make
      word_less_alt word_le_def Let_def split: Value.splits Condition_Op.splits)

lemma reg_transform_sound:
  assumes "iv_wf i"
  shows "iv_wf (reg_transform r i ins)" "\<sigma> \<in> reg_gamma r i \<Longrightarrow> exec ins \<sigma> \<sigma>' \<Longrightarrow> \<sigma>' \<in> reg_gamma r (reg_transform r i ins)"
  using assms reg_bin_sound reg_assume_sound by (cases ins; auto)+

lemma iv_narrow_inter:
  assumes "iv_wf i" "iv_wf x"
  shows "iv_gamma i \<inter> iv_gamma x \<subseteq> iv_gamma (iv_narrow i x)"
  using assms by (auto simp: iv_narrow_def iv_is_bottom_iff iv_gamma_make iv_wf_bounds iv_gamma_iff)

lemma interval_ops_sound:
  assumes "program_inv P"
  shows "sound_analysis (interval_ops r) P (reg_gamma r) iv_wf (program_step P) assertion_holds"
proof
  fix a b :: Interval and c
  show "iv_wf (dom_bottom (interval_ops r))" by (simp add: interval_ops_def)
  assume a: "iv_wf a" 
  show "iv_wf (dom_transform (interval_ops r) a ins)" for ins
    using a by (simp add: interval_ops_def strict_transform_def reg_transform_sound)
  show "reg_gamma r a = {}" if "dom_is_bottom (interval_ops r) a"
    using a that by (simp add: interval_ops_def iv_is_bottom_iff reg_gamma_def)
  show "assertion_holds asrt l \<sigma>" if "dom_check (interval_ops r) a asrt l = None" "\<sigma> \<in> reg_gamma r a" for asrt l \<sigma>
    using a that by (cases asrt) (auto simp: interval_ops_def reg_gamma_def iv_is_bottom_iff iv_contains_iff split: if_splits)
  show "\<sigma>' \<in> reg_gamma r (dom_transform (interval_ops r) a ins)"
    if "instruction_at P l = Inr ins" "\<sigma> \<in> reg_gamma r a" "program_step P l \<sigma> \<sigma>'" for l ins \<sigma> \<sigma>'
    using a that reg_transform_sound(2)[OF a]
    by (auto simp: interval_ops_def strict_transform_def program_step_def iv_is_bottom_iff reg_gamma_def)
  assume b: "iv_wf b"
  show "iv_wf (dom_join_into (interval_ops r) a b)" "iv_wf (dom_join (interval_ops r) a b)"
    "iv_wf (dom_meet (interval_ops r) a b)" "iv_wf (dom_widen (interval_ops r) a b c)"
    "iv_wf (dom_narrow (interval_ops r) a b)"
    using a b by (simp_all add: interval_ops_def iv_wf_join iv_wf_meet iv_wf_widen iv_wf_narrow)
  show "reg_gamma r a \<subseteq> reg_gamma r b" if "dom_le (interval_ops r) a b"
    using a b that by (auto simp: interval_ops_def reg_gamma_def iv_le_iff_subset)
  show "reg_gamma r a \<union> reg_gamma r b \<subseteq> reg_gamma r (dom_join_into (interval_ops r) a b)"
    using iv_join_upper[OF a b] by (auto simp: interval_ops_def reg_gamma_def)
  show "reg_gamma r a \<inter> reg_gamma r b \<subseteq> reg_gamma r (dom_meet (interval_ops r) a b)"
    using a b by (auto simp: interval_ops_def reg_gamma_def iv_meet_gamma)
  show "reg_gamma r a \<inter> reg_gamma r b \<subseteq> reg_gamma r (dom_narrow (interval_ops r) a b)"
    using iv_narrow_inter[OF a b] by (auto simp: interval_ops_def reg_gamma_def)
qed (rule assms)

lemma interval_ops_widening: "wf {(dom_widen (interval_ops r) a b c, a) |a b c. iv_wf a \<and> iv_wf b \<and> \<not> dom_le (interval_ops r) b a}"
  by (rule wf_subset[OF wf_measure[of iv_height]]) (auto simp: interval_ops_def iv_widen_height)

text \<open>Every program that was built gives an instance of the contract.\<close>

locale built_program =
  fixes P :: Program
  assumes built: "program_inv P"

sublocale built_program \<subseteq> reg: sound_analysis "interval_ops r" P "reg_gamma r" iv_wf "program_step P" assertion_holds for r
  by (rule interval_ops_sound[OF built])

end
