(* ===== verification/Cfg_Blocks.thy ===== *)
theory Cfg_Blocks
  imports Cfg
begin

text \<open>
  Readers of a finished program (\<^verbatim>\<open>ir/cfg_builder.cpp\<close>): the maximal straight-line blocks that the
  printers show (\<^verbatim>\<open>BasicBlock::collect_basic_blocks\<close>) and the statistics of a program
  (\<^verbatim>\<open>instype\<close>, \<^verbatim>\<open>stats_headers\<close>, \<^verbatim>\<open>collect_stats\<close>).

  A block is the list of its labels; a \<^verbatim>\<open>std::set<BasicBlock>\<close>, which compares blocks by their first
  label, is an ordered map from that label to the block.
\<close>

section \<open>Basic blocks\<close>

text \<open>The inner loop: extend a block while it has a single successor that nothing else leads to.\<close>

function grow_block :: "Cfg \<Rightarrow> Label list \<Rightarrow> Label list \<Rightarrow> Label list \<Rightarrow> (Label list \<times> Label list \<times> Label list) result" where
  "grow_block g worklist seen bb =
     rbind (out_degree g (last bb)) (\<lambda>d.
       if d \<noteq> 1 then Inr (worklist, seen, bb)
       else rbind (get_child g (last bb)) (\<lambda>next_label.
         if next_label \<in> set seen \<or> next_label = label_exit then Inr (worklist, seen, bb)
         else rbind (in_degree g next_label) (\<lambda>k.
           if k \<noteq> 1 then Inr (worklist, seen, bb)
           else grow_block g (os_erase next_label worklist) (os_insert next_label seen)
                  ((if hd bb = label_entry then [] else bb) @ [next_label]))))"
  by pat_completeness auto

lemma in_degree_label: "in_degree g l = Inr k \<Longrightarrow> l \<in> set (cfg_labels g)"
  by (auto simp: in_degree_def get_node_def result_iffs lookup_label split: option.splits)

termination grow_block
proof (relation "measure (\<lambda>(g, worklist, seen, bb). card (set (cfg_labels g) - set seen))")
  fix g :: Cfg and worklist seen bb :: "Label list" and d k :: nat and next_label
  assume "\<not> (next_label \<in> set seen \<or> next_label = label_exit)" "in_degree g next_label = Inr k"
  then have "set (cfg_labels g) - set (os_insert next_label seen) \<subset> set (cfg_labels g) - set seen"
    using in_degree_label by auto
  then have "card (set (cfg_labels g) - set (os_insert next_label seen)) < card (set (cfg_labels g) - set seen)"
    by (simp add: psubset_card_mono del: set_os_insert)
  then show "((g, os_erase next_label worklist, os_insert next_label seen, (if hd bb = label_entry then [] else bb) @ [next_label]),
      g, worklist, seen, bb) \<in> measure (\<lambda>(g, worklist, seen, bb). card (set (cfg_labels g) - set seen))" by simp
qed simp

declare grow_block.simps [simp del]

lemma grow_block_cases:
  assumes "grow_block g worklist seen bb = Inr r"
  obtains "r = (worklist, seen, bb)"
  | x where "get_child g (last bb) = Inr x" "in_degree g x = Inr 1" "x \<notin> set seen" "x \<noteq> label_exit"
      "grow_block g (os_erase x worklist) (os_insert x seen) ((if hd bb = label_entry then [] else bb) @ [x]) = Inr r"
  using assms by (subst (asm) grow_block.simps) (auto simp: rbind_Inr_iff split: if_splits)

lemma grow_block_worklist:
  "grow_block g worklist seen bb = Inr (worklist', seen', bb') \<Longrightarrow>
     length worklist' \<le> length worklist \<and> set worklist' \<subseteq> set worklist"
proof (induction g worklist seen bb rule: grow_block.induct)
  case (1 g worklist seen bb)
  from 1(2) show ?case
  proof (cases rule: grow_block_cases)
    case (2 x)
    obtain d where "out_degree g (last bb) = Inr d" "d = 1" using 2(1) by (auto simp: get_child_def rbind_Inr_iff split: if_splits)
    then have "length worklist' \<le> length (os_erase x worklist) \<and> set worklist' \<subseteq> set (os_erase x worklist)"
      using 1(1)[of d x 1] 2 by simp
    then show ?thesis using length_filter_le[of "\<lambda>y. y \<noteq> x" worklist] by (auto simp: os_erase_def intro: le_trans)
  qed simp
qed

text \<open>The outer loop over the labels that are still to be seen.\<close>

function collect_loop :: "Cfg \<Rightarrow> Label list \<Rightarrow> Label list \<Rightarrow> (Label \<times> Label list) list \<Rightarrow> (Label \<times> Label list) list result" where
  "collect_loop g [] seen res = Inr res"
| "collect_loop g (label # worklist) seen res =
     (if label \<in> set seen then collect_loop g worklist seen res
      else let seen = os_insert label seen in
        rbind (in_degree g label) (\<lambda>d.
        rbind (if d = 1 then rmap (\<lambda>n. n = 1) (num_siblings g label) else Inr False) (\<lambda>absorbed.
          if absorbed then collect_loop g worklist seen res
          else rbind (grow_block g worklist seen [label]) (\<lambda>(worklist', seen', bb).
            collect_loop g worklist' seen' (om_emplace (hd bb) bb res)))))"
  by pat_completeness auto
termination
  by (relation "measure (\<lambda>(g, worklist, seen, res). length worklist)")
    (auto dest!: grow_block_worklist)

definition collect_basic_blocks :: "Cfg \<Rightarrow> bool \<Rightarrow> (Label \<times> Label list) list result" where
  "collect_basic_blocks g simplify =
     (if \<not> simplify
      then Inr (fold (\<lambda>l res. if l \<noteq> label_entry \<and> l \<noteq> label_exit then om_emplace l [l] res else res) (cfg_labels g) [])
      else collect_loop g (cfg_labels g) [] [])"

text \<open>
  A block is straight: each of its labels is the only successor of the one before it and has no
  other predecessor. The blocks are disjoint.
\<close>

definition straight :: "Cfg \<Rightarrow> Label \<Rightarrow> Label \<Rightarrow> bool" where
  "straight g a b \<longleftrightarrow> children_of g a = Inr [b] \<and> parents_of g b = Inr [a]"

definition block_ok :: "Cfg \<Rightarrow> Label list \<Rightarrow> Label list \<Rightarrow> bool" where
  "block_ok g seen bb \<longleftrightarrow> bb \<noteq> [] \<and> distinct bb \<and> set bb \<subseteq> set seen \<and> successively (straight g) bb"

definition blocks_ok :: "Cfg \<Rightarrow> Label list \<Rightarrow> (Label \<times> Label list) list \<Rightarrow> bool" where
  "blocks_ok g seen res \<longleftrightarrow> om_wf res \<and> (\<forall>k b. om_lookup res k = Some b \<longrightarrow> block_ok g seen b \<and> hd b = k) \<and>
     (\<forall>k b j c. om_lookup res k = Some b \<and> om_lookup res j = Some c \<and> k \<noteq> j \<longrightarrow> set b \<inter> set c = {})"

lemma straight_child:
  assumes "cfg_inv g" "get_child g a = Inr b" "in_degree g b = Inr 1"
  shows "straight g a b"
proof -
  obtain n where n: "om_lookup g a = Some n" "children n = [b]"
    using assms(2) by (auto simp: get_child_def out_degree_def children_of_def get_node_def result_iffs length_Suc_conv
        split: option.splits if_splits)
  obtain m x where m: "om_lookup g b = Some m" "parents m = [x]"
    using assms(3) by (auto simp: in_degree_def get_node_def result_iffs length_Suc_conv eq_commute[of "Suc 0"] split: option.splits)
  have "edge g a b" using n by (simp add: edge_def)
  then have "back_edge g a b" using assms(1) by (simp add: cfg_inv_def)
  then have "x = a" using m by (simp add: back_edge_def)
  then show ?thesis using n m by (simp add: straight_def children_of_def parents_of_def get_node_def)
qed

lemma grow_block_ok:
  assumes "grow_block g worklist seen bb = Inr (worklist', seen', bb')" "cfg_inv g" "block_ok g seen bb"
  shows "block_ok g seen' bb' \<and> set seen \<subseteq> set seen' \<and> set bb' \<subseteq> set bb \<union> (set seen' - set seen)"
  using assms
proof (induction g worklist seen bb rule: grow_block.induct)
  case (1 g worklist seen bb)
  from 1(2) show ?case
  proof (cases rule: grow_block_cases)
    case (2 x)
    let ?bb = "(if hd bb = label_entry then [] else bb) @ [x]"
    have d: "out_degree g (last bb) = Inr 1" using 2(1) by (auto simp: get_child_def rbind_Inr_iff split: if_splits)
    have "straight g (last bb) x" using straight_child[OF 1(3) 2(1,2)] .
    then have "block_ok g (os_insert x seen) ?bb"
      using 1(4) 2(3) by (auto simp: block_ok_def successively_append_iff)
    then show ?thesis using 1(1)[OF d _ 2(1) _ 2(2) _ 2(5) 1(3)] 2(3,4) by (auto split: if_splits)
  qed (use 1(4) in auto)
qed

lemma block_ok_mono: "block_ok g seen b \<Longrightarrow> set seen \<subseteq> set seen' \<Longrightarrow> block_ok g seen' b"
  by (auto simp: block_ok_def)

lemma blocks_ok_mono: "blocks_ok g seen res \<Longrightarrow> set seen \<subseteq> set seen' \<Longrightarrow> blocks_ok g seen' res"
  unfolding blocks_ok_def using block_ok_mono by blast

lemma blocks_ok_insert:
  assumes "blocks_ok g seen res" "block_ok g seen' bb" "set seen \<subseteq> set seen'" "set bb \<inter> set seen = {}"
  shows "blocks_ok g seen' (om_emplace (hd bb) bb res)"
proof -
  have hd: "hd bb \<in> set bb" using assms(2) by (simp add: block_ok_def)
  have old: "set b \<inter> set bb = {} \<and> b \<noteq> [] \<and> hd b = k" if "om_lookup res k = Some b" for k b
  proof -
    have "block_ok g seen b \<and> hd b = k" using assms(1) that unfolding blocks_ok_def by blast
    then show ?thesis using assms(4) by (auto simp: block_ok_def)
  qed
  have "om_lookup res (hd bb) = None"
  proof (rule ccontr)
    assume "om_lookup res (hd bb) \<noteq> None"
    then obtain b where "om_lookup res (hd bb) = Some b" by blast
    from old[OF this] show False using hd hd_in_set[of b] by auto
  qed
  then have e: "om_emplace (hd bb) bb res = om_update (hd bb) bb res" by (simp add: om_emplace_def)
  have w: "om_wf res" using assms(1) by (simp add: blocks_ok_def)
  show ?thesis unfolding e blocks_ok_def
    using blocks_ok_mono[OF assms(1,3)] assms(2) old w
    by (auto simp: om_lookup_update om_wf_update blocks_ok_def split: if_splits)
qed

lemma collect_loop_ok:
  assumes "collect_loop g worklist seen res = Inr res'" "cfg_inv g" "blocks_ok g seen res"
  shows "\<exists>seen'. blocks_ok g seen' res'"
  using assms
proof (induction g worklist seen res rule: collect_loop.induct)
  case (2 g label worklist seen res)
  show ?case
  proof (cases "label \<in> set seen")
    case True
    then show ?thesis using 2(1) 2(4-) by simp
  next
    case False
    let ?seen = "os_insert label seen"
    obtain d absorbed where da: "in_degree g label = Inr d"
        "(if d = 1 then rmap (\<lambda>n. n = 1) (num_siblings g label) else Inr False) = Inr absorbed"
      and r: "(if absorbed then collect_loop g worklist ?seen res
        else rbind (grow_block g worklist ?seen [label]) (\<lambda>(worklist', seen', bb).
            collect_loop g worklist' seen' (om_emplace (hd bb) bb res))) = Inr res'"
      using 2(4) False by (auto simp: Let_def rbind_Inr_iff)
    have b: "blocks_ok g ?seen res" by (rule blocks_ok_mono[OF 2(6)]) auto
    show ?thesis
    proof (cases absorbed)
      case True
      then show ?thesis using 2(2)[OF False refl da True _ 2(5) b] r by simp
    next
      case nf: False
      then obtain worklist' seen' bb where gb: "grow_block g worklist ?seen [label] = Inr (worklist', seen', bb)"
        and rest: "collect_loop g worklist' seen' (om_emplace (hd bb) bb res) = Inr res'"
        using r by (auto simp: rbind_Inr_iff)
      have "block_ok g ?seen [label]" by (simp add: block_ok_def)
      note gok = grow_block_ok[OF gb 2(5) this]
      have "blocks_ok g seen' (om_emplace (hd bb) bb res)"
        by (rule blocks_ok_insert[OF 2(6)]) (use gok False in auto)
      then show ?thesis using 2(3)[OF False refl da nf gb refl refl rest 2(5)] by simp
    qed
  qed
qed auto

lemma singleton_blocks_ok:
  assumes "om_wf res" "\<And>k b. om_lookup res k = Some b \<Longrightarrow> b = [k] \<and> k \<in> set seen"
  shows "blocks_ok g seen res"
  unfolding blocks_ok_def block_ok_def
proof (intro conjI allI impI)
  fix k b j c assume "om_lookup res k = Some b \<and> om_lookup res j = Some c \<and> k \<noteq> j"
  then show "set b \<inter> set c = {}" using assms(2)[of k b] assms(2)[of j c] by simp
next
  fix k b assume "om_lookup res k = Some b"
  then have "b = [k]" "k \<in> set seen" using assms(2) by blast+
  then show "b \<noteq> []" "distinct b" "set b \<subseteq> set seen" "successively (straight g) b" "hd b = k" by simp_all
qed (rule assms(1))

lemma singleton_blocks:
  assumes "om_wf res" "\<And>k b. om_lookup res k = Some b \<Longrightarrow> b = [k] \<and> k \<in> S" "set ls \<subseteq> S"
  shows "let res' = fold (\<lambda>l res. if l \<noteq> label_entry \<and> l \<noteq> label_exit then om_emplace l [l] res else res) ls res
    in om_wf res' \<and> (\<forall>k b. om_lookup res' k = Some b \<longrightarrow> b = [k] \<and> k \<in> S)"
  using assms
proof (induction ls arbitrary: res)
  case (Cons l ls)
  let ?r = "if l \<noteq> label_entry \<and> l \<noteq> label_exit then om_emplace l [l] res else res"
  have "om_wf ?r" using Cons.prems(1) by (simp add: om_emplace_def om_wf_update)
  moreover have "b = [k] \<and> k \<in> S" if "om_lookup ?r k = Some b" for k b
    using that Cons.prems(1) Cons.prems(2)[of k b] Cons.prems(3) by (auto simp: om_emplace_def om_lookup_update split: if_splits)
  moreover have "set ls \<subseteq> S" using Cons.prems(3) by simp
  ultimately show ?case unfolding fold_simps by (rule Cons.IH)
qed (simp add: Let_def)

lemma collect_basic_blocks_ok:
  assumes "collect_basic_blocks g simplify = Inr res" "cfg_inv g"
  shows "\<exists>seen. blocks_ok g seen res"
proof (cases simplify)
  case True
  then show ?thesis using collect_loop_ok[of g "cfg_labels g" "[]" "[]" res] assms
    by (simp add: collect_basic_blocks_def blocks_ok_def om_wf_def)
next
  case False
  then have "om_wf res \<and> (\<forall>k b. om_lookup res k = Some b \<longrightarrow> b = [k] \<and> k \<in> set (cfg_labels g))"
    using assms(1) singleton_blocks[of "[]" "set (cfg_labels g)" "cfg_labels g"] by (simp add: collect_basic_blocks_def om_wf_def Let_def)
  then show ?thesis using singleton_blocks_ok[of res "cfg_labels g"] by blast
qed

section \<open>Statistics\<close>

definition instype :: "Instruction \<Rightarrow> string" where
  "instype ins =
     (case ins of
        Call c \<Rightarrow> if is_map_lookup c then ''call_1''
          else if pairs c = [] \<and> list_all (\<lambda>kr. single_kind kr = ANYTHING) (singles c) then ''call_nomem'' else ''call_mem''
      | Callx _ \<Rightarrow> ''callx''
      | Mem m \<Rightarrow> if mem_is_load m then ''load'' else ''store''
      | Atomic _ \<Rightarrow> ''load_store''
      | Packet _ _ _ \<Rightarrow> ''packet_access''
      | Bin b \<Rightarrow> if bin_op b \<in> {MOV, MOVSX8, MOVSX16, MOVSX32} then ''assign'' else ''arith''
      | Un_ins _ _ _ \<Rightarrow> ''arith''
      | LoadMapFd _ _ \<Rightarrow> ''assign''
      | LoadMapAddress _ _ _ \<Rightarrow> ''assign''
      | Assume _ _ \<Rightarrow> ''assume''
      | _ \<Rightarrow> ''other'')"

definition stats_headers :: "string list" where
  "stats_headers =
     [''instructions'', ''joins'', ''other'', ''jumps'', ''assign'', ''arith'', ''load'', ''store'', ''load_store'',
      ''packet_access'', ''call_1'', ''call_mem'', ''call_nomem'', ''reallocate'', ''map_in_map'', ''arith64'', ''arith32'']"

text \<open>\<^verbatim>\<open>res[h]++\<close> on a map in which an absent key counts from 0.\<close>

definition bump :: "string \<Rightarrow> (string \<times> int) list \<Rightarrow> (string \<times> int) list" where
  "bump h res = om_update h ((case om_lookup res h of None \<Rightarrow> 0 | Some n \<Rightarrow> n) + 1) res"

definition stats_instruction :: "Instruction \<Rightarrow> (string \<times> int) list \<Rightarrow> (string \<times> int) list" where
  "stats_instruction cmd res =
     (let res = bump ''instructions'' res;
          res = (case cmd of LoadMapFd _ mapfd \<Rightarrow> if mapfd = -1 then om_update ''map_in_map'' 1 res else res | _ \<Rightarrow> res);
          res = (case cmd of Call c \<Rightarrow> if reallocate_packet c then om_update ''reallocate'' 1 res else res | _ \<Rightarrow> res);
          res = (case cmd of Bin b \<Rightarrow> bump (if bin_is64 b then ''arith64'' else ''arith32'') res | _ \<Rightarrow> res)
      in bump (instype cmd) res)"

definition collect_stats :: "Program \<Rightarrow> (string \<times> int) list result" where
  "collect_stats prog =
     rfold (\<lambda>label res.
         rbind (instruction_at prog label) (\<lambda>cmd.
         rbind (in_degree (m_cfg prog) label) (\<lambda>i.
         rbind (out_degree (m_cfg prog) label) (\<lambda>d.
           let res = stats_instruction cmd res;
               res = (if 1 < i then bump ''joins'' res else res)
           in Inr (if 1 < d then bump ''jumps'' res else res)))))
       (cfg_labels (m_cfg prog)) (fold (\<lambda>h. om_update h 0) stats_headers [])"

end
