(* ===== verification/Wto_State.thy ===== *)
theory Wto_State
  imports Fwd_Sound
begin

text \<open>
  The state of the builder of weak topological orders (\<^verbatim>\<open>cfg/wto.cpp\<close>), as its correctness proof sees
  it: the labels that have no number yet (\<open>white\<close>), those that are finished, and the stack between;
  the trees that a part of the store of cycles represents; and what the single steps do to them.
\<close>

section \<open>Abstraction of the state\<close>

abbreviation dfn_of :: "WtoBuilder \<Rightarrow> Label \<Rightarrow> int" where
  "dfn_of b v \<equiv> dfn (vd b v)"

abbreviation hd_of :: "WtoBuilder \<Rightarrow> Label \<Rightarrow> int" where
  "hd_of b v \<equiv> head_dfn (vd b v)"

abbreviation containing :: "Wto \<Rightarrow> Label \<Rightarrow> nat option option" where
  "containing w \<equiv> om_lookup (wto_containing w)"

definition white :: "Cfg \<Rightarrow> WtoBuilder \<Rightarrow> Label set" where
  "white g b = {v \<in> set (cfg_labels g). dfn_of b v = 0}"

definition finished :: "Cfg \<Rightarrow> WtoBuilder \<Rightarrow> Label set" where
  "finished g b = {v \<in> set (cfg_labels g). dfn_of b v = DFN_INF}"

text \<open>
  The invariant of the builder. A label on the stack is numbered; once its visit has started its
  head is a smaller number, that of a label on the stack. A label without a number has no head.
  A label gets its entry in the table of containing cycles when it is finished.
\<close>

definition builder_ok :: "Cfg \<Rightarrow> WtoBuilder \<Rightarrow> bool" where
  "builder_ok g b \<longleftrightarrow> om_wf (vertex_data b) \<and> om_wf (wto_containing (wto b)) \<and> distinct (dfs_stack b) \<and>
     set (dfs_stack b) = set (cfg_labels g) - white g b - finished g b \<and>
     (\<forall>v \<in> set (dfs_stack b). 0 < dfn_of b v \<and> dfn_of b v \<le> num b) \<and> 0 \<le> num b \<and>
     (\<forall>v \<in> white g b. hd_of b v = 0) \<and>
     (\<forall>u \<in> set (dfs_stack b). hd_of b u \<noteq> 0 \<longrightarrow>
        0 < hd_of b u \<and> hd_of b u < dfn_of b u \<and> (\<exists>x \<in> set (dfs_stack b). dfn_of b x = hd_of b u)) \<and>
     (\<forall>v \<in> set (cfg_labels g) - finished g b. containing (wto b) v = None)"

text \<open>The edges out of finished labels lead to finished labels, except out of the heads of cycles under construction.\<close>

definition closed_except :: "Cfg \<Rightarrow> Label set \<Rightarrow> WtoBuilder \<Rightarrow> bool" where
  "closed_except g H b \<longleftrightarrow> (\<forall>u \<in> finished g b - H. \<forall>y. edge g u y \<longrightarrow> y \<in> finished g b)"

lemma finite_white [simp]: "finite (white g b)"
  by (simp add: white_def)

lemma white_finished_disjoint: "white g b \<inter> finished g b = {}"
  by (auto simp: white_def finished_def)

section \<open>Updates\<close>

lemma vd_set_vd [simp]: "om_wf (vertex_data b) \<Longrightarrow> vd (set_vd v d b) x = (if x = v then d else vd b x)"
  by (simp add: vd_def set_vd_def om_lookup_update)

lemma set_vd_simps [simp]:
  "num (set_vd v d b) = num b" "dfs_stack (set_vd v d b) = dfs_stack b" "visit_stack (set_vd v d b) = visit_stack b"
  "wto (set_vd v d b) = wto b" "om_wf (vertex_data b) \<Longrightarrow> om_wf (vertex_data (set_vd v d b))"
  by (simp_all add: set_vd_def om_wf_update)

lemma vd_update_simps [simp]:
  "vd (b\<lparr>num := n\<rparr>) = vd b" "vd (b\<lparr>dfs_stack := s\<rparr>) = vd b" "vd (b\<lparr>visit_stack := t\<rparr>) = vd b" "vd (b\<lparr>wto := w\<rparr>) = vd b"
  by (simp_all add: vd_def fun_eq_iff)

definition part_cycle :: "Partition_Ref \<Rightarrow> nat option" where
  "part_cycle p = (case p of Top_Partition \<Rightarrow> None | Cycle_Partition i \<Rightarrow> Some i)"

abbreviation visit_task :: "Partition_Ref \<Rightarrow> Label \<Rightarrow> VisitArgs" where
  "visit_task p v \<equiv> \<lparr>task_type = PushSuccessors, task_vertex = v, task_partition = p, task_cycle = part_cycle p\<rparr>"

abbreviation start_task :: "Partition_Ref \<Rightarrow> Label \<Rightarrow> VisitArgs" where
  "start_task p v \<equiv> \<lparr>task_type = StartVisit, task_vertex = v, task_partition = p, task_cycle = part_cycle p\<rparr>"

abbreviation continue_task :: "Partition_Ref \<Rightarrow> nat \<Rightarrow> Label \<Rightarrow> VisitArgs" where
  "continue_task p i v \<equiv> \<lparr>task_type = ContinueVisit, task_vertex = v, task_partition = p, task_cycle = Some i\<rparr>"

lemma push_unvisited_eq:
  "push_unvisited succs p (part_cycle p) b =
     b\<lparr>visit_stack := map (visit_task p) (filter (\<lambda>s. dfn_of b s = 0) succs) @ visit_stack b\<rparr>"
  unfolding push_unvisited_def fold_rev by (induction succs) (simp_all add: push_task_def)

lemma find_head_spec:
  assumes "find_head b succs h0 = (h, loop)"
  shows "h \<le> h0" "\<And>s. s \<in> set succs \<Longrightarrow> h \<le> min_dfn (vd b s)" "h = h0 \<or> (\<exists>s \<in> set succs. h = min_dfn (vd b s))"
    "loop \<longleftrightarrow> (\<exists>s \<in> set succs. min_dfn (vd b s) \<le> h0)"
proof -
  let ?f = "\<lambda>succ (h, loop). let m = min_dfn (vd b succ) in if m \<le> h then (m, True) else (h, loop)"
  have "h' \<le> h1 \<and> (\<forall>s \<in> set ss. h' \<le> min_dfn (vd b s)) \<and> (h' = h1 \<or> (\<exists>s \<in> set ss. h' = min_dfn (vd b s))) \<and>
      (l' \<longleftrightarrow> l1 \<or> (\<exists>s \<in> set ss. min_dfn (vd b s) \<le> h1))"
    if "fold ?f ss (h1, l1) = (h', l')" for ss h1 l1 h' l'
    using that
  proof (induction ss arbitrary: h1 l1)
    case (Cons s ss)
    show ?case
    proof (cases "min_dfn (vd b s) \<le> h1")
      case True
      then show ?thesis using Cons.IH[of "min_dfn (vd b s)" True] Cons.prems by fastforce
    next
      case False
      then show ?thesis using Cons.IH[of h1 l1] Cons.prems by fastforce
    qed
  qed simp
  from this[OF assms[unfolded find_head_def]] show
    "h \<le> h0" "\<And>s. s \<in> set succs \<Longrightarrow> h \<le> min_dfn (vd b s)" "h = h0 \<or> (\<exists>s \<in> set succs. h = min_dfn (vd b s))"
    "loop \<longleftrightarrow> (\<exists>s \<in> set succs. min_dfn (vd b s) \<le> h0)" by auto
qed

text \<open>Popping: the labels above \<open>v\<close> lose their numbers.\<close>

lemma pop_until_spec:
  assumes "om_wf (vertex_data b)" "v \<notin> set A" "e # rest = A @ v # S" "distinct A"
  shows "\<exists>b'. pop_until e rest v b = Inr b' \<and> dfs_stack b' = S \<and> num b' = num b \<and> visit_stack b' = visit_stack b \<and>
    wto b' = wto b \<and> om_wf (vertex_data b') \<and>
    (\<forall>x. vd b' x = (if x \<in> set A then (vd b x)\<lparr>dfn := 0, head_dfn := 0\<rparr> else vd b x))"
  using assms
proof (induction A arbitrary: e rest b)
  case Nil
  then show ?case by simp
next
  case (Cons a A)
  let ?b = "set_vd a ((vd b a)\<lparr>dfn := 0, head_dfn := 0\<rparr>) b"
  obtain e' rest' where r: "rest = e' # rest'" "e' # rest' = A @ v # S" "e = a"
    using Cons.prems(3) by (cases rest) auto
  obtain b' where b': "pop_until e' rest' v ?b = Inr b'" "dfs_stack b' = S" "num b' = num b" "visit_stack b' = visit_stack b"
      "wto b' = wto b" "om_wf (vertex_data b')"
      "\<forall>x. vd b' x = (if x \<in> set A then (vd ?b x)\<lparr>dfn := 0, head_dfn := 0\<rparr> else vd ?b x)"
    using Cons.IH[of ?b e' rest'] Cons.prems r by auto
  have "pop_until e rest v b = pop_until e' rest' v ?b"
    unfolding r(1,3) using Cons.prems(2) by (subst pop_until.simps) (auto simp: Let_def simp del: pop_until.simps)
  then show ?case using b' Cons.prems(1) by (auto simp del: pop_until.simps)
qed

section \<open>Trees\<close>

text \<open>A reference and the tree it stands for, with the cycles of the tree from index \<open>lo\<close> on, larger inwards.\<close>

inductive rep :: "Wto \<Rightarrow> nat \<Rightarrow> CycleOrLabel \<Rightarrow> component \<Rightarrow> bool" for w where
  rep_label: "rep w lo (Label_Ref l) (Vertex l)"
| rep_cycle: "lo \<le> i \<Longrightarrow> i < length (wto_cycles w) \<Longrightarrow>
    list_all2 (rep w (Suc i)) (cycle_components (wto_cycles w ! i)) ts \<Longrightarrow> rep w lo (Cycle_Ref i) (Cycle ts)"

lemma rep_lower: "rep w lo x t \<Longrightarrow> lo' \<le> lo \<Longrightarrow> rep w lo' x t"
  by (erule rep.cases) (auto intro: rep.intros)

lemma rep_all_lower: "list_all2 (rep w lo) xs ts \<Longrightarrow> lo' \<le> lo \<Longrightarrow> list_all2 (rep w lo') xs ts"
  by (erule list_all2_mono) (rule rep_lower)

lemma rep_frame:
  assumes "rep w lo x t" "length (wto_cycles w) \<le> length (wto_cycles w')"
    "\<And>i. lo \<le> i \<Longrightarrow> i < length (wto_cycles w) \<Longrightarrow> cycle_components (wto_cycles w' ! i) = cycle_components (wto_cycles w ! i)"
  shows "rep w' lo x t"
  using assms
proof (induction rule: rep.induct)
  case (rep_cycle lo i ts)
  have "list_all2 (rep w' (Suc i)) (cycle_components (wto_cycles w ! i)) ts"
    by (rule list_all2_mono[OF rep_cycle.IH]) (use rep_cycle in auto)
  then show ?case using rep_cycle by (auto intro!: rep.rep_cycle)
qed (rule rep.rep_label)

lemma rep_component_of: "rep w lo x t \<Longrightarrow> length (wto_cycles w) \<le> n + lo \<Longrightarrow> component_of n w x = t"
proof (induction arbitrary: n rule: rep.induct)
  case (rep_cycle lo i ts)
  obtain m where m: "n = Suc m" using rep_cycle by (cases n) auto
  have "list_all2 (\<lambda>x t. component_of m w x = t) (cycle_components (wto_cycles w ! i)) ts"
    by (rule list_all2_mono[OF rep_cycle.IH]) (use rep_cycle m in auto)
  then show ?case by (auto simp: m list_all2_conv_all_nth intro: nth_equalityI)
qed simp

text \<open>The components of a partition.\<close>

definition part :: "Partition_Ref \<Rightarrow> Wto \<Rightarrow> CycleOrLabel list" where
  "part p w = (case p of Top_Partition \<Rightarrow> wto_components w | Cycle_Partition i \<Rightarrow> cycle_components (wto_cycles w ! i))"

definition part_ok :: "Partition_Ref \<Rightarrow> Wto \<Rightarrow> bool" where
  "part_ok p w \<longleftrightarrow> (case p of Top_Partition \<Rightarrow> True | Cycle_Partition i \<Rightarrow> i < length (wto_cycles w))"

lemma part_push:
  assumes "part_ok p w"
  shows "part q (partition_push p x w) = (if q = p then x # part p w else part q w)"
    "length (wto_cycles (partition_push p x w)) = length (wto_cycles w)"
    "cycle_containing (wto_cycles (partition_push p x w) ! i) = cycle_containing (wto_cycles w ! i)"
    "wto_containing (partition_push p x w) = wto_containing w"
  using assms by (auto simp: part_def part_ok_def partition_push_def nth_list_update split: Partition_Ref.splits)

lemma part_update [simp]: "part q (w\<lparr>wto_containing := m\<rparr>) = part q w"
  by (simp add: part_def split: Partition_Ref.splits)

lemma part_ok_mono: "part_ok p w \<Longrightarrow> length (wto_cycles w) \<le> length (wto_cycles w') \<Longrightarrow> part_ok p w'"
  by (auto simp: part_ok_def split: Partition_Ref.splits)

section \<open>Output\<close>

text \<open>Well-formed components, without the condition that the entry is in no cycle.\<close>

fun shape_valid :: "Cfg \<Rightarrow> component \<Rightarrow> bool" where
  "shape_valid g (Vertex l) = (\<not> edge g l l)"
| "shape_valid g (Cycle (Vertex h # body)) =
     (h \<notin> set (concat (map comp_labels body)) \<and> ordered g body \<and> list_all (shape_valid g) body)"
| "shape_valid g (Cycle _) = False"

lemma shape_valid_comp: "shape_valid g c \<Longrightarrow> label_entry \<notin> set (comp_labels c) \<or> c = Vertex label_entry \<Longrightarrow> comp_valid g c"
  by (induction g c rule: shape_valid.induct) (auto simp: edge_list_iff list_all_iff)

abbreviation all_labels :: "component list \<Rightarrow> Label set" where
  "all_labels ts \<equiv> set (concat (map comp_labels ts))"

lemma ordered_append:
  "ordered g (xs @ ys) \<longleftrightarrow> ordered g xs \<and> ordered g ys \<and> all_labels xs \<inter> all_labels ys = {} \<and>
     (\<forall>u \<in> all_labels ys. \<forall>v \<in> all_labels xs. \<not> edge g u v)"
proof (induction xs)
  case (Cons x xs)
  let ?X = "set (comp_labels x)" and ?Y = "all_labels xs" and ?Z = "all_labels ys"
  have cons: "ordered g (x # cs) \<longleftrightarrow> ?X \<inter> all_labels cs = {} \<and> (\<forall>u \<in> all_labels cs. \<forall>v \<in> ?X. \<not> edge g u v) \<and> ordered g cs" for cs
    unfolding ordered.simps no_edges_iff list_all_iff by blast
  have sets: "all_labels (x # xs) = ?X \<union> ?Y" "all_labels (xs @ ys) = ?Y \<union> ?Z" by simp_all
  show ?case unfolding append_Cons cons Cons.IH sets by blast
qed simp

text \<open>
  \<open>emitted g p L w w'\<close>: from \<open>w\<close> to \<open>w'\<close> components with exactly the labels \<open>L\<close> were put in front of
  partition \<open>p\<close>; they are well formed and ordered, and their cycles are new. The labels and the
  new cycles know the cycle around them.
\<close>

definition knows_cycle :: "nat \<Rightarrow> Partition_Ref \<Rightarrow> nat \<Rightarrow> nat option \<Rightarrow> bool" where
  "knows_cycle lo p hi c \<longleftrightarrow> c = part_cycle p \<or> (\<exists>j. c = Some j \<and> lo \<le> j \<and> j < hi)"

definition cycle_ok :: "Label set \<Rightarrow> nat \<Rightarrow> Partition_Ref \<Rightarrow> Wto \<Rightarrow> nat \<Rightarrow> bool" where
  "cycle_ok L lo p w j \<longleftrightarrow> (\<exists>h rest. h \<in> L \<and> cycle_components (wto_cycles w ! j) = Label_Ref h # rest \<and> containing w h = Some (Some j)) \<and>
     knows_cycle lo p j (cycle_containing (wto_cycles w ! j))"

definition emitted :: "Cfg \<Rightarrow> Partition_Ref \<Rightarrow> Label set \<Rightarrow> Wto \<Rightarrow> Wto \<Rightarrow> bool" where
  "emitted g p L w w' \<longleftrightarrow>
     (\<exists>xs ts. part p w' = xs @ part p w \<and> list_all2 (rep w' (length (wto_cycles w))) xs ts \<and> all_labels ts = L \<and>
        ordered g ts \<and> list_all (shape_valid g) ts) \<and>
     length (wto_cycles w) \<le> length (wto_cycles w') \<and>
     (\<forall>q. part_ok q w \<and> q \<noteq> p \<longrightarrow> part q w' = part q w) \<and>
     (\<forall>i < length (wto_cycles w). cycle_containing (wto_cycles w' ! i) = cycle_containing (wto_cycles w ! i)) \<and>
     om_wf (wto_containing w') \<and> (\<forall>l. l \<notin> L \<longrightarrow> containing w' l = containing w l) \<and>
     (\<forall>l \<in> L. \<exists>c. containing w' l = Some c \<and> knows_cycle (length (wto_cycles w)) p (length (wto_cycles w')) c) \<and>
     (\<forall>j. length (wto_cycles w) \<le> j \<and> j < length (wto_cycles w') \<longrightarrow> cycle_ok L (length (wto_cycles w)) p w' j)"

lemma knows_cycle_mono: "knows_cycle lo p hi c \<Longrightarrow> lo' \<le> lo \<Longrightarrow> hi \<le> hi' \<Longrightarrow> knows_cycle lo' p hi' c"
  by (auto simp: knows_cycle_def)

lemma emittedD:
  assumes "emitted g p L w w'"
  shows "length (wto_cycles w) \<le> length (wto_cycles w')" "part_ok q w \<Longrightarrow> q \<noteq> p \<Longrightarrow> part q w' = part q w"
    "i < length (wto_cycles w) \<Longrightarrow> cycle_containing (wto_cycles w' ! i) = cycle_containing (wto_cycles w ! i)"
    "om_wf (wto_containing w')" "l \<notin> L \<Longrightarrow> containing w' l = containing w l"
    "l \<in> L \<Longrightarrow> \<exists>c. containing w' l = Some c \<and> knows_cycle (length (wto_cycles w)) p (length (wto_cycles w')) c"
    "length (wto_cycles w) \<le> j \<Longrightarrow> j < length (wto_cycles w') \<Longrightarrow> cycle_ok L (length (wto_cycles w)) p w' j"
    "\<exists>xs ts. part p w' = xs @ part p w \<and> list_all2 (rep w' (length (wto_cycles w))) xs ts \<and> all_labels ts = L \<and>
        ordered g ts \<and> list_all (shape_valid g) ts"
  using assms unfolding emitted_def by blast+

lemma emitted_cycle:
  "emitted g p L w w' \<Longrightarrow> i < length (wto_cycles w) \<Longrightarrow> p \<noteq> Cycle_Partition i \<Longrightarrow>
     cycle_components (wto_cycles w' ! i) = cycle_components (wto_cycles w ! i)"
  using emittedD(2)[of g p L w w' "Cycle_Partition i"] by (auto simp: part_def part_ok_def)

lemma emitted_refl: "om_wf (wto_containing w) \<Longrightarrow> emitted g p {} w w"
  by (auto simp: emitted_def intro!: exI[of _ "[]"])

lemma emitted_trans:
  assumes e1: "emitted g p L1 w w1" and e2: "emitted g p L2 w1 w2" and p: "part_ok p w"
    and no: "\<And>u v. u \<in> L1 \<Longrightarrow> v \<in> L2 \<Longrightarrow> \<not> edge g u v" and dis: "L1 \<inter> L2 = {}"
  shows "emitted g p (L1 \<union> L2) w w2"
proof -
  let ?n = "length (wto_cycles w)" and ?n1 = "length (wto_cycles w1)" and ?n2 = "length (wto_cycles w2)"
  obtain xs1 ts1 where t1: "part p w1 = xs1 @ part p w" "list_all2 (rep w1 ?n) xs1 ts1" "all_labels ts1 = L1"
      "ordered g ts1" "list_all (shape_valid g) ts1" using emittedD(8)[OF e1] by blast
  obtain xs2 ts2 where t2: "part p w2 = xs2 @ part p w1" "list_all2 (rep w2 ?n1) xs2 ts2" "all_labels ts2 = L2"
      "ordered g ts2" "list_all (shape_valid g) ts2" using emittedD(8)[OF e2] by blast
  have len: "?n \<le> ?n1" "?n1 \<le> ?n2" by (rule emittedD(1)[OF e1], rule emittedD(1)[OF e2])
  have pn: "Cycle_Partition i \<noteq> p" if "?n \<le> i" for i using p that by (auto simp: part_ok_def)
  have keep: "cycle_components (wto_cycles w2 ! i) = cycle_components (wto_cycles w1 ! i)" if "?n \<le> i" "i < ?n1" for i
    using emitted_cycle[OF e2 that(2)] pn[OF that(1)] by auto
  have old: "l \<in> L1 \<Longrightarrow> containing w2 l = containing w1 l" for l using emittedD(5)[OF e2, of l] dis by blast
  have "list_all2 (rep w2 ?n) xs1 ts1"
    by (rule list_all2_mono[OF t1(2)]) (use keep len in \<open>auto intro: rep_frame\<close>)
  then have "list_all2 (rep w2 ?n) (xs2 @ xs1) (ts2 @ ts1)"
    using rep_all_lower[OF t2(2) len(1)] by (simp add: list_all2_appendI)
  moreover have "part p w2 = (xs2 @ xs1) @ part p w" "all_labels (ts2 @ ts1) = L1 \<union> L2" "list_all (shape_valid g) (ts2 @ ts1)"
    using t1 t2 by auto
  moreover have "ordered g (ts2 @ ts1)" unfolding ordered_append using t1 t2 no dis by blast
  ultimately have "\<exists>xs ts. part p w2 = xs @ part p w \<and> list_all2 (rep w2 ?n) xs ts \<and> all_labels ts = L1 \<union> L2 \<and>
        ordered g ts \<and> list_all (shape_valid g) ts" by blast
  moreover have "\<forall>q. part_ok q w \<and> q \<noteq> p \<longrightarrow> part q w2 = part q w"
    using emittedD(2)[OF e1] emittedD(2)[OF e2] part_ok_mono[OF _ len(1)] by simp
  moreover have "\<forall>i < ?n. cycle_containing (wto_cycles w2 ! i) = cycle_containing (wto_cycles w ! i)"
    using emittedD(3)[OF e1] emittedD(3)[OF e2] len by simp
  moreover have "om_wf (wto_containing w2)" by (rule emittedD(4)[OF e2])
  moreover have "\<forall>l. l \<notin> L1 \<union> L2 \<longrightarrow> containing w2 l = containing w l"
    using emittedD(5)[OF e1] emittedD(5)[OF e2] by simp
  moreover have "\<exists>c. containing w2 l = Some c \<and> knows_cycle ?n p ?n2 c" if l: "l \<in> L1 \<union> L2" for l
  proof (cases "l \<in> L2")
    case True
    then show ?thesis using emittedD(6)[OF e2 True] len knows_cycle_mono[of ?n1 p ?n2 _ ?n ?n2] by blast
  next
    case False
    then obtain c where "containing w1 l = Some c" "knows_cycle ?n p ?n1 c" using emittedD(6)[OF e1, of l] l by blast
    then show ?thesis using old[of l] l False len knows_cycle_mono[of ?n p ?n1 c ?n ?n2] by auto
  qed
  moreover have "cycle_ok (L1 \<union> L2) ?n p w2 j" if j: "?n \<le> j" "j < ?n2" for j
  proof (cases "j < ?n1")
    case True
    have c1: "cycle_ok L1 ?n p w1 j" by (rule emittedD(7)[OF e1 j(1) True])
    then obtain h rest where h: "h \<in> L1" "cycle_components (wto_cycles w1 ! j) = Label_Ref h # rest" "containing w1 h = Some (Some j)"
      by (auto simp: cycle_ok_def)
    have "cycle_containing (wto_cycles w2 ! j) = cycle_containing (wto_cycles w1 ! j)" by (rule emittedD(3)[OF e2 True])
    then show ?thesis using c1 keep[OF j(1) True] h old[OF h(1)] by (auto simp: cycle_ok_def)
  next
    case False
    then have "cycle_ok L2 ?n1 p w2 j" using emittedD(7)[OF e2, of j] j(2) by simp
    then show ?thesis using len knows_cycle_mono[of ?n1 p j _ ?n j] by (auto simp: cycle_ok_def)
  qed
  ultimately show ?thesis unfolding emitted_def using le_trans[OF len] by blast
qed

text \<open>Emitting a label, and a cycle whose body has been emitted into it.\<close>

lemma emitted_label:
  assumes "part_ok p w" "om_wf (wto_containing w)" "containing w v = None" "\<not> edge g v v"
  shows "emitted g p {v} w ((partition_push p (Label_Ref v) w)\<lparr>wto_containing := om_emplace v (part_cycle p) (wto_containing w)\<rparr>)"
    (is "emitted g p {v} w ?w")
proof -
  have lookup: "containing ?w = (containing w)(v \<mapsto> part_cycle p)"
    using assms(2,3) by (simp add: om_emplace_def om_lookup_update)
  have parts: "part q ?w = (if q = p then Label_Ref v # part p w else part q w)" for q
    using part_push(1)[OF assms(1), of q "Label_Ref v"] by simp
  have rest: "length (wto_cycles ?w) = length (wto_cycles w)"
      "\<And>i. cycle_containing (wto_cycles ?w ! i) = cycle_containing (wto_cycles w ! i)" "om_wf (wto_containing ?w)"
    using part_push[OF assms(1)] assms(2) by (simp_all add: om_emplace_def om_wf_update)
  have "\<exists>xs ts. part p ?w = xs @ part p w \<and> list_all2 (rep ?w (length (wto_cycles w))) xs ts \<and> all_labels ts = {v} \<and>
        ordered g ts \<and> list_all (shape_valid g) ts"
    using assms(4) by (intro exI[of _ "[Label_Ref v]"] exI[of _ "[Vertex v]"]) (simp add: part_push(1)[OF assms(1)] rep_label no_edges_iff)
  then show ?thesis unfolding emitted_def rest(1) using lookup rest(2,3) parts by (auto simp: knows_cycle_def)
qed

lemma emitted_closed_cycle:
  fixes w0 w2 :: Wto and p :: Partition_Ref and v :: Label
  defines "i \<equiv> length (wto_cycles w0)"
  defines "w1 \<equiv> w0\<lparr>wto_cycles := wto_cycles w0 @ [\<lparr>cycle_components = [], cycle_containing = part_cycle p\<rparr>]\<rparr>"
  assumes e: "emitted g (Cycle_Partition i) L w1 w2" and p: "part_ok p w0" and v: "v \<notin> L" "containing w0 v = None"
    and w3: "w3 = partition_push p (Cycle_Ref i) (partition_push (Cycle_Partition i) (Label_Ref v) w2)
        \<lparr>wto_containing := om_emplace v (Some i) (wto_containing w2)\<rparr>"
  shows "emitted g p (insert v L) w0 w3"
proof -
  let ?n = "length (wto_cycles w2)"
  have i1: "length (wto_cycles w1) = Suc i" "wto_cycles w1 ! i = \<lparr>cycle_components = [], cycle_containing = part_cycle p\<rparr>"
    by (simp_all add: w1_def i_def)
  have n: "Suc i \<le> ?n" using emittedD(1)[OF e] i1(1) by simp
  have pi: "p \<noteq> Cycle_Partition i" using p by (auto simp: part_ok_def i_def)
  have ok_i: "part_ok (Cycle_Partition i) w2" using n by (simp add: part_ok_def)
  let ?w' = "partition_push (Cycle_Partition i) (Label_Ref v) w2"
  have ok_p: "part_ok p ?w'" by (rule part_ok_mono[OF p]) (use n part_push(2)[OF ok_i] in \<open>simp add: i_def\<close>)
  have len3: "length (wto_cycles w3) = ?n" using part_push(2)[OF ok_i] part_push(2)[OF ok_p] by (simp add: w3)
  have con3: "cycle_containing (wto_cycles w3 ! j) = cycle_containing (wto_cycles w2 ! j)" for j
    using part_push(3)[OF ok_i] part_push(3)[OF ok_p] by (simp add: w3)
  have wf2: "om_wf (wto_containing w2)" by (rule emittedD(4)[OF e])
  have v2: "containing w2 v = None" using emittedD(5)[OF e v(1)] v(2) by (simp add: w1_def)
  have look: "containing w3 = (containing w2)(v \<mapsto> Some i)" "om_wf (wto_containing w3)"
    using wf2 v2 by (simp_all add: w3 om_emplace_def om_lookup_update om_wf_update)
  have part3: "part q w3 = (if q = p then Cycle_Ref i # part p w2 else if q = Cycle_Partition i then Label_Ref v # part q w2 else part q w2)" for q
    using part_push(1)[OF ok_p, of q "Cycle_Ref i"] part_push(1)[OF ok_i, of q "Label_Ref v"] part_push(1)[OF ok_i, of p "Label_Ref v"] pi
    by (simp add: w3)
  have part1: "part q w2 = part q w0" if "part_ok q w0" "q \<noteq> Cycle_Partition i" for q
  proof -
    have "part_ok q w1" using that(1) by (auto simp: part_ok_def w1_def split: Partition_Ref.splits)
    then have "part q w2 = part q w1" using emittedD(2)[OF e] that(2) by blast
    then show ?thesis using that(1) by (auto simp: part_def part_ok_def w1_def nth_append split: Partition_Ref.splits)
  qed
  have comps3: "cycle_components (wto_cycles w3 ! j) = cycle_components (wto_cycles w2 ! j)" if "i < j" for j
  proof -
    have "Cycle_Partition j \<noteq> p" using p that by (auto simp: part_ok_def i_def)
    then show ?thesis using part3[of "Cycle_Partition j"] that by (simp add: part_def)
  qed
  obtain xs ts where t: "part (Cycle_Partition i) w2 = xs" "list_all2 (rep w2 (Suc i)) xs ts" "all_labels ts = L"
      "ordered g ts" "list_all (shape_valid g) ts"
    using emittedD(8)[OF e] i1 by (auto simp: part_def)
  have "list_all2 (rep w3 (Suc i)) xs ts"
    by (rule list_all2_mono[OF t(2)]) (use comps3 len3 in \<open>auto intro: rep_frame\<close>)
  then have "rep w3 i (Cycle_Ref i) (Cycle (Vertex v # ts))"
    using part3[of "Cycle_Partition i"] pi t(1) n len3 by (intro rep_cycle) (auto simp: part_def intro: rep_label)
  moreover have "shape_valid g (Cycle (Vertex v # ts))" "all_labels [Cycle (Vertex v # ts)] = insert v L"
    using t v(1) by auto
  ultimately have "\<exists>xs ts. part p w3 = xs @ part p w0 \<and> list_all2 (rep w3 (length (wto_cycles w0))) xs ts \<and>
      all_labels ts = insert v L \<and> ordered g ts \<and> list_all (shape_valid g) ts"
    using part3[of p] part1[OF p pi] by (intro exI[of _ "[Cycle_Ref i]"] exI[of _ "[Cycle (Vertex v # ts)]"]) (simp add: i_def no_edges_iff)
  moreover have "length (wto_cycles w0) \<le> length (wto_cycles w3)" using n len3 by (simp add: i_def)
  moreover have "part q w3 = part q w0" if "part_ok q w0" "q \<noteq> p" for q
    using part3[of q] part1[OF that(1)] that by (auto simp: part_ok_def i_def)
  moreover have "cycle_containing (wto_cycles w3 ! j) = cycle_containing (wto_cycles w0 ! j)" if "j < length (wto_cycles w0)" for j
    using con3[of j] emittedD(3)[OF e, of j] i1(1) that by (simp add: w1_def i_def nth_append)
  moreover have "containing w3 l = containing w0 l" if "l \<notin> insert v L" for l
    using look(1) emittedD(5)[OF e, of l] that by (simp add: w1_def)
  moreover have "\<exists>c. containing w3 l = Some c \<and> knows_cycle (length (wto_cycles w0)) p (length (wto_cycles w3)) c" if l: "l \<in> insert v L" for l
  proof (cases "l = v")
    case True
    then show ?thesis using look(1) n len3 by (simp add: knows_cycle_def i_def)
  next
    case False
    then obtain c where "containing w2 l = Some c" "knows_cycle (Suc i) (Cycle_Partition i) ?n c"
      using emittedD(6)[OF e, of l] l i1(1) by auto
    then show ?thesis using look(1) False n len3 by (auto simp: knows_cycle_def part_cycle_def i_def)
  qed
  moreover have "cycle_ok (insert v L) (length (wto_cycles w0)) p w3 j" if j: "length (wto_cycles w0) \<le> j" "j < length (wto_cycles w3)" for j
  proof (cases "j = i")
    case True
    have "cycle_containing (wto_cycles w3 ! i) = part_cycle p" using con3 emittedD(3)[OF e, of i] i1 by simp
    moreover have "cycle_components (wto_cycles w3 ! i) = Label_Ref v # xs" using part3[of "Cycle_Partition i"] pi t(1) by (simp add: part_def)
    ultimately show ?thesis using True look(1) by (simp add: cycle_ok_def knows_cycle_def)
  next
    case False
    then have ij: "i < j" using j(1) by (simp add: i_def)
    then have ok: "cycle_ok L (Suc i) (Cycle_Partition i) w2 j" using emittedD(7)[OF e, of j] i1(1) j(2) len3 by simp
    then obtain h rest where h: "h \<in> L" "cycle_components (wto_cycles w2 ! j) = Label_Ref h # rest" "containing w2 h = Some (Some j)"
      by (auto simp: cycle_ok_def)
    have "containing w3 h = Some (Some j)" "cycle_components (wto_cycles w3 ! j) = Label_Ref h # rest"
      using h comps3[OF ij] look(1) v(1) by auto
    moreover have "knows_cycle (length (wto_cycles w0)) p j (cycle_containing (wto_cycles w3 ! j))"
      using ok con3 ij by (auto simp: cycle_ok_def knows_cycle_def part_cycle_def i_def)
    ultimately show ?thesis using h(1) by (auto simp: cycle_ok_def)
  qed
  ultimately show ?thesis unfolding emitted_def using look(2) by blast
qed

end
