(* ===== verification/Wto_Contract.thy ===== *)
theory Wto_Contract
  imports Wto_State
begin

text \<open>
  What visiting a list of labels does to the state of the builder of weak topological orders, and
  that the contract composes: the contract of a list of labels is that of its parts in sequence.
\<close>

section \<open>Runs of the loop\<close>

inductive runs :: "Cfg \<Rightarrow> WtoBuilder \<Rightarrow> WtoBuilder \<Rightarrow> bool" for g where
  runs_refl: "runs g b b"
| runs_step: "visit_stack b \<noteq> [] \<Longrightarrow> wto_step g b = Inr b1 \<Longrightarrow> runs g b1 b2 \<Longrightarrow> runs g b b2"

lemma runs_trans: "runs g b b1 \<Longrightarrow> runs g b1 b2 \<Longrightarrow> runs g b b2"
  by (induction rule: runs.induct) (auto intro: runs.intros)

lemma runs_one: "visit_stack b \<noteq> [] \<Longrightarrow> wto_step g b = Inr b1 \<Longrightarrow> runs g b b1"
  by (auto intro: runs.intros)

lemma runs_while:
  assumes "runs g b b'" "visit_stack b' = []"
  shows "while_option (\<lambda>r. case r of Inl _ \<Rightarrow> False | Inr b \<Rightarrow> visit_stack b \<noteq> []) (\<lambda>r. rbind r (wto_step g)) (Inr b) = Some (Inr b')"
  using assms
proof (induction rule: runs.induct)
  case (runs_refl b)
  then show ?case by (subst while_option_unfold) simp
next
  case (runs_step b b1 b2)
  then show ?case by (subst while_option_unfold) simp
qed

section \<open>Numbers\<close>

primrec tri :: "nat \<Rightarrow> nat" where
  "tri 0 = 0"
| "tri (Suc n) = tri n + Suc n"

lemma tri_add: "tri (a + b) = tri a + tri b + a * b"
  by (induction b) (simp_all add: algebra_simps)

lemma tri_add_le: "tri a + tri b \<le> tri (a + b)"
  by (simp add: tri_add)

lemma tri_le: "n \<le> tri n"
  by (cases n) simp_all

lemma tri_eq: "2 * tri n = n * (n + 1)"
  by (induction n) simp_all

section \<open>The contract of a visit\<close>

text \<open>The labels that got a number, or are finished, between two states.\<close>

definition seen :: "Cfg \<Rightarrow> WtoBuilder \<Rightarrow> WtoBuilder \<Rightarrow> Label set" where
  "seen g b b' = white g b - white g b'"

text \<open>
  \<open>A\<close> are the labels that stay on the stack, the others that were seen are finished. Nothing else
  changes, and the number grows at most by the size of \<open>A\<close> plus a quadratic function of the number
  of labels finished.
\<close>

definition progress :: "Cfg \<Rightarrow> Label list \<Rightarrow> Label list \<Rightarrow> WtoBuilder \<Rightarrow> WtoBuilder \<Rightarrow> bool" where
  "progress g ws A b b' \<longleftrightarrow> white g b' \<subseteq> white g b \<and> set ws \<inter> white g b' = {} \<and>
     dfs_stack b' = A @ dfs_stack b \<and> set A \<subseteq> seen g b b' \<and>
     finished g b' = finished g b \<union> (seen g b b' - set A) \<and>
     (\<forall>x. x \<notin> seen g b b' \<longrightarrow> vd b' x = vd b x) \<and>
     (\<forall>u \<in> set A. hd_of b' u \<noteq> 0 \<and> num b < dfn_of b' u) \<and>
     (\<forall>u \<in> seen g b b'. \<forall>y \<in> white g b'. \<not> edge g u y) \<and>
     num b \<le> num b' \<and> num b' \<le> num b + int (length A) + int (tri (card (seen g b b' - set A)))"

text \<open>
  The labels of \<open>A\<close> know how far down the stack the edges lead: an edge to a label below is noticed by
  the head of one of the visited labels, heads are no smaller than what the edges allow, and
  the head of a visited label in \<open>A\<close> is the number of a label below.
\<close>

definition low :: "Cfg \<Rightarrow> Label list \<Rightarrow> Label list \<Rightarrow> WtoBuilder \<Rightarrow> WtoBuilder \<Rightarrow> bool" where
  "low g ws A b b' \<longleftrightarrow>
     (\<forall>u \<in> set A. \<forall>x \<in> set (dfs_stack b). edge g u x \<longrightarrow> (\<exists>w \<in> set ws \<inter> set A. hd_of b' w \<le> dfn_of b x)) \<and>
     (\<forall>k \<le> num b + 1. (\<forall>u \<in> seen g b b'. \<forall>x \<in> set (dfs_stack b). edge g u x \<longrightarrow> k \<le> min_dfn (vd b x)) \<longrightarrow>
        (\<forall>u \<in> set A. k \<le> hd_of b' u)) \<and>
     (A \<noteq> [] \<longrightarrow> (\<exists>w \<in> set ws \<inter> set A. \<exists>x \<in> set (dfs_stack b). dfn_of b x = hd_of b' w))"

text \<open>Only labels that are reached from the visited ones are seen, and those of \<open>A\<close> are reached within \<open>A\<close>.\<close>

definition confined :: "Cfg \<Rightarrow> Label list \<Rightarrow> Label list \<Rightarrow> WtoBuilder \<Rightarrow> WtoBuilder \<Rightarrow> bool" where
  "confined g ws A b b' \<longleftrightarrow>
     (\<forall>X. set ws \<inter> white g b \<subseteq> X \<and> (\<forall>u \<in> X. \<forall>y \<in> white g b. edge g u y \<longrightarrow> y \<in> X) \<longrightarrow> seen g b b' \<subseteq> X) \<and>
     (\<forall>X. set ws \<inter> set A \<subseteq> X \<and> (\<forall>u \<in> X. \<forall>y \<in> set A. edge g u y \<longrightarrow> y \<in> X) \<longrightarrow> set A \<subseteq> X)"

definition visited :: "Cfg \<Rightarrow> Label set \<Rightarrow> Partition_Ref \<Rightarrow> Label list \<Rightarrow> Label list \<Rightarrow> WtoBuilder \<Rightarrow> WtoBuilder \<Rightarrow> bool" where
  "visited g H p ws A b b' \<longleftrightarrow> builder_ok g b' \<and> closed_except g H b' \<and> progress g ws A b b' \<and> low g ws A b b' \<and>
     confined g ws A b b' \<and> emitted g p (seen g b b' - set A) (wto b) (wto b')"

definition visit_pre :: "Cfg \<Rightarrow> Label set \<Rightarrow> Partition_Ref \<Rightarrow> WtoBuilder \<Rightarrow> bool" where
  "visit_pre g H p b \<longleftrightarrow> builder_ok g b \<and> closed_except g H b \<and> H \<subseteq> finished g b \<and> part_ok p (wto b) \<and>
     num b + int (tri (card (white g b))) < DFN_INF"

lemma builder_okD:
  assumes "builder_ok g b"
  shows "om_wf (vertex_data b)" "om_wf (wto_containing (wto b))" "distinct (dfs_stack b)"
    "set (dfs_stack b) = set (cfg_labels g) - white g b - finished g b"
    "v \<in> set (dfs_stack b) \<Longrightarrow> 0 < dfn_of b v" "v \<in> set (dfs_stack b) \<Longrightarrow> dfn_of b v \<le> num b" "0 \<le> num b"
    "v \<in> white g b \<Longrightarrow> hd_of b v = 0"
    "v \<in> set (dfs_stack b) \<Longrightarrow> hd_of b v \<noteq> 0 \<Longrightarrow> 0 < hd_of b v"
    "v \<in> set (dfs_stack b) \<Longrightarrow> hd_of b v \<noteq> 0 \<Longrightarrow> hd_of b v < dfn_of b v"
    "v \<in> set (dfs_stack b) \<Longrightarrow> hd_of b v \<noteq> 0 \<Longrightarrow> \<exists>x \<in> set (dfs_stack b). dfn_of b x = hd_of b v"
    "v \<in> set (cfg_labels g) - finished g b \<Longrightarrow> containing (wto b) v = None"
  using assms unfolding builder_ok_def by blast+

lemma progressD:
  assumes "progress g ws A b b'"
  shows "white g b' \<subseteq> white g b" "set ws \<inter> white g b' = {}" "dfs_stack b' = A @ dfs_stack b" "set A \<subseteq> seen g b b'"
    "finished g b' = finished g b \<union> (seen g b b' - set A)" "x \<notin> seen g b b' \<Longrightarrow> vd b' x = vd b x"
    "u \<in> set A \<Longrightarrow> hd_of b' u \<noteq> 0" "u \<in> set A \<Longrightarrow> num b < dfn_of b' u"
    "u \<in> seen g b b' \<Longrightarrow> y \<in> white g b' \<Longrightarrow> \<not> edge g u y"
    "num b \<le> num b'" "num b' \<le> num b + int (length A) + int (tri (card (seen g b b' - set A)))"
  using assms unfolding progress_def by blast+

lemma lowD:
  assumes "low g ws A b b'"
  shows "u \<in> set A \<Longrightarrow> x \<in> set (dfs_stack b) \<Longrightarrow> edge g u x \<Longrightarrow> \<exists>w \<in> set ws \<inter> set A. hd_of b' w \<le> dfn_of b x"
    "k \<le> num b + 1 \<Longrightarrow> (\<And>u x. u \<in> seen g b b' \<Longrightarrow> x \<in> set (dfs_stack b) \<Longrightarrow> edge g u x \<Longrightarrow> k \<le> min_dfn (vd b x)) \<Longrightarrow>
       u \<in> set A \<Longrightarrow> k \<le> hd_of b' u"
    "A \<noteq> [] \<Longrightarrow> \<exists>w \<in> set ws \<inter> set A. \<exists>x \<in> set (dfs_stack b). dfn_of b x = hd_of b' w"
  using assms unfolding low_def by simp_all

lemma confinedD:
  assumes "confined g ws A b b'"
  shows "set ws \<inter> white g b \<subseteq> X \<Longrightarrow> (\<And>u y. u \<in> X \<Longrightarrow> y \<in> white g b \<Longrightarrow> edge g u y \<Longrightarrow> y \<in> X) \<Longrightarrow> seen g b b' \<subseteq> X"
    "set ws \<inter> set A \<subseteq> X \<Longrightarrow> (\<And>u y. u \<in> X \<Longrightarrow> y \<in> set A \<Longrightarrow> edge g u y \<Longrightarrow> y \<in> X) \<Longrightarrow> set A \<subseteq> X"
  using assms unfolding confined_def by meson+

lemma visitedD:
  assumes "visited g H p ws A b b'"
  shows "builder_ok g b'" "closed_except g H b'" "progress g ws A b b'" "low g ws A b b'" "confined g ws A b b'"
    "emitted g p (seen g b b' - set A) (wto b) (wto b')"
  using assms unfolding visited_def by blast+

lemma visit_preD:
  assumes "visit_pre g H p b"
  shows "builder_ok g b" "closed_except g H b" "H \<subseteq> finished g b" "part_ok p (wto b)"
    "num b + int (tri (card (white g b))) < DFN_INF"
  using assms unfolding visit_pre_def by blast+

text \<open>A label on the stack has no number that means that it is finished.\<close>

lemma stack_not_inf: "builder_ok g b \<Longrightarrow> x \<in> set (dfs_stack b) \<Longrightarrow> dfn_of b x \<noteq> DFN_INF"
  using builder_okD(4)[of g b] by (auto simp: finished_def)

lemma min_dfn_stack:
  assumes "builder_ok g b" "x \<in> set (dfs_stack b)"
  shows "min_dfn (vd b x) = (if hd_of b x \<noteq> 0 then hd_of b x else dfn_of b x)" "min_dfn (vd b x) \<le> dfn_of b x"
    "\<exists>y \<in> set (dfs_stack b). dfn_of b y = min_dfn (vd b x)"
  using assms stack_not_inf[OF assms] builder_okD(10,11)[OF assms(1) assms(2)] by (auto simp: min_dfn_def)

lemma old_stack_unseen: "builder_ok g b \<Longrightarrow> x \<in> set (dfs_stack b) \<Longrightarrow> x \<notin> white g b"
  using builder_okD(4) by blast

section \<open>Composition\<close>

lemma seen_trans: "white g b1 \<subseteq> white g b \<Longrightarrow> white g b2 \<subseteq> white g b1 \<Longrightarrow> seen g b b2 = seen g b b1 \<union> seen g b1 b2"
  by (auto simp: seen_def)

lemma progress_trans:
  assumes p1: "progress g ws1 A1 b b1" and p2: "progress g ws2 A2 b1 b2"
  shows "progress g (ws1 @ ws2) (A2 @ A1) b b2"
proof -
  note d1 = progressD[OF p1] and d2 = progressD[OF p2]
  let ?N1 = "seen g b b1" and ?N2 = "seen g b1 b2"
  have N: "seen g b b2 = ?N1 \<union> ?N2" by (rule seen_trans[OF d1(1) d2(1)])
  have dis: "?N1 \<inter> ?N2 = {}" by (auto simp: seen_def)
  have fin: "finite ?N1" "finite ?N2" by (simp_all add: seen_def)
  have split: "?N1 \<union> ?N2 - set (A2 @ A1) = (?N1 - set A1) \<union> (?N2 - set A2)" using dis d1(4) d2(4) by auto
  have "card (?N1 \<union> ?N2 - set (A2 @ A1)) = card (?N1 - set A1) + card (?N2 - set A2)"
    unfolding split by (rule card_Un_disjoint) (use fin dis in auto)
  then have num: "num b2 \<le> num b + int (length (A2 @ A1)) + int (tri (card (?N1 \<union> ?N2 - set (A2 @ A1))))"
    using d1(11) d2(11) tri_add_le[of "card (?N1 - set A1)" "card (?N2 - set A2)"] by simp
  have keep: "vd b2 u = vd b1 u" if "u \<in> set A1" for u using d2(6)[of u] that d1(4) dis by blast
  show ?thesis unfolding progress_def N
  proof (intro conjI ballI allI impI)
    show "white g b2 \<subseteq> white g b" "dfs_stack b2 = (A2 @ A1) @ dfs_stack b" "set (A2 @ A1) \<subseteq> ?N1 \<union> ?N2" "num b \<le> num b2"
        "set (ws1 @ ws2) \<inter> white g b2 = {}"
      using d1 d2 by auto
    show "finished g b2 = finished g b \<union> (?N1 \<union> ?N2 - set (A2 @ A1))" unfolding split using d1(5) d2(5) by blast
    show "vd b2 x = vd b x" if "x \<notin> ?N1 \<union> ?N2" for x using d1(6) d2(6) that by simp
    show "hd_of b2 u \<noteq> 0" "num b < dfn_of b2 u" if "u \<in> set (A2 @ A1)" for u
      using that d1(7,8)[of u] d2(7,8)[of u] d1(10) keep[of u] by auto
    show "\<not> edge g u y" if "u \<in> ?N1 \<union> ?N2" "y \<in> white g b2" for u y using that d1(9) d2(1,9) by blast
    show "num b2 \<le> num b + int (length (A2 @ A1)) + int (tri (card (?N1 \<union> ?N2 - set (A2 @ A1))))" by (rule num)
  qed
qed

lemma low_trans:
  assumes ok: "builder_ok g b" "builder_ok g b1" and p1: "progress g ws1 A1 b b1" and p2: "progress g ws2 A2 b1 b2"
    and l1: "low g ws1 A1 b b1" and l2: "low g ws2 A2 b1 b2"
  shows "low g (ws1 @ ws2) (A2 @ A1) b b2"
proof -
  note d1 = progressD[OF p1] and d2 = progressD[OF p2]
  let ?S = "set (dfs_stack b)"
  have N: "seen g b b2 = seen g b b1 \<union> seen g b1 b2" by (rule seen_trans[OF d1(1) d2(1)])
  have keep1: "vd b1 x = vd b x" if "x \<in> ?S" for x using d1(6)[of x] old_stack_unseen[OF ok(1) that] by (auto simp: seen_def)
  have keep2: "vd b2 u = vd b1 u" if "u \<in> set A1" for u using d2(6)[of u] that d1(4) by (auto simp: seen_def)
  have st: "set (dfs_stack b1) = set A1 \<union> ?S" using d1(3) by simp
  show ?thesis unfolding low_def
  proof (intro conjI ballI allI impI)
    show "\<exists>w \<in> set (ws1 @ ws2) \<inter> set (A2 @ A1). hd_of b2 w \<le> dfn_of b x"
      if "u \<in> set (A2 @ A1)" "x \<in> ?S" "edge g u x" for u x
    proof (cases "u \<in> set A2")
      case True
      then show ?thesis using lowD(1)[OF l2 True _ that(3)] that(2) st keep1[OF that(2)] by auto
    next
      case False
      then have "u \<in> set A1" using that(1) by simp
      from lowD(1)[OF l1 this that(2,3)] obtain w where "w \<in> set ws1 \<inter> set A1" "hd_of b1 w \<le> dfn_of b x" by blast
      then show ?thesis using keep2[of w] by (intro bexI[of _ w]) auto
    qed
    show "k \<le> hd_of b2 u" if k: "k \<le> num b + 1" "\<forall>u \<in> seen g b b2. \<forall>x \<in> ?S. edge g u x \<longrightarrow> k \<le> min_dfn (vd b x)"
      and u: "u \<in> set (A2 @ A1)" for k u
    proof -
      have h1: "k \<le> hd_of b1 x" if "x \<in> set A1" for x by (rule lowD(2)[OF l1 k(1) _ that]) (use k(2) N in blast)
      have "k \<le> hd_of b2 x" if x: "x \<in> set A2" for x
      proof (rule lowD(2)[OF l2 _ _ x])
        show "k \<le> num b1 + 1" using k(1) d1(10) by simp
        show "k \<le> min_dfn (vd b1 z)" if z: "y \<in> seen g b1 b2" "z \<in> set (dfs_stack b1)" "edge g y z" for y z
        proof (cases "z \<in> set A1")
          case True
          then show ?thesis using min_dfn_stack(1)[OF ok(2) z(2)] d1(7)[OF True] h1[OF True] by simp
        next
          case False
          then have "z \<in> ?S" using z(2) st by simp
          then show ?thesis using k(2) N z keep1 by auto
        qed
      qed
      then show ?thesis using u h1[of u] keep2[of u] by auto
    qed
    show "\<exists>w \<in> set (ws1 @ ws2) \<inter> set (A2 @ A1). \<exists>x \<in> ?S. dfn_of b x = hd_of b2 w" if "A2 @ A1 \<noteq> []"
    proof (cases "A1 = []")
      case True
      then have "A2 \<noteq> []" using that by simp
      then show ?thesis using lowD(3)[OF l2] st True keep1 by auto
    next
      case False
      then obtain w x where "w \<in> set ws1 \<inter> set A1" "x \<in> ?S" "dfn_of b x = hd_of b1 w" using lowD(3)[OF l1] by blast
      then have "w \<in> set (ws1 @ ws2) \<inter> set (A2 @ A1)" "dfn_of b x = hd_of b2 w" using keep2[of w] by auto
      then show ?thesis using \<open>x \<in> ?S\<close> by blast
    qed
  qed
qed

lemma confined_trans:
  assumes "progress g ws1 A1 b b1" "progress g ws2 A2 b1 b2" "confined g ws1 A1 b b1" "confined g ws2 A2 b1 b2"
  shows "confined g (ws1 @ ws2) (A2 @ A1) b b2"
proof -
  have w: "white g b1 \<subseteq> white g b" by (rule progressD(1)[OF assms(1)])
  have N: "seen g b b2 = seen g b b1 \<union> seen g b1 b2" by (rule seen_trans[OF w progressD(1)[OF assms(2)]])
  show ?thesis unfolding confined_def
  proof (intro conjI allI impI)
    fix X assume X: "set (ws1 @ ws2) \<inter> white g b \<subseteq> X \<and> (\<forall>u \<in> X. \<forall>y \<in> white g b. edge g u y \<longrightarrow> y \<in> X)"
    have "seen g b b1 \<subseteq> X" by (rule confinedD(1)[OF assms(3)]) (use X in auto)
    moreover have "seen g b1 b2 \<subseteq> X" by (rule confinedD(1)[OF assms(4)]) (use X w in auto)
    ultimately show "seen g b b2 \<subseteq> X" unfolding N by simp
  next
    fix X assume X: "set (ws1 @ ws2) \<inter> set (A2 @ A1) \<subseteq> X \<and> (\<forall>u \<in> X. \<forall>y \<in> set (A2 @ A1). edge g u y \<longrightarrow> y \<in> X)"
    have "set A1 \<subseteq> X" by (rule confinedD(2)[OF assms(3)]) (use X in auto)
    moreover have "set A2 \<subseteq> X" by (rule confinedD(2)[OF assms(4)]) (use X in auto)
    ultimately show "set (A2 @ A1) \<subseteq> X" by simp
  qed
qed

lemma progress_fuel:
  assumes pr: "progress g ws A b b'" and "num b + int (tri (card (white g b))) < DFN_INF" "distinct A"
  shows "num b' + int (tri (card (white g b'))) < DFN_INF"
proof -
  note d = progressD[OF pr]
  let ?N = "seen g b b'"
  have fin: "finite ?N" by (simp add: seen_def)
  have "card (white g b) = card ?N + card (white g b')"
    using card_Un_disjoint[of ?N "white g b'"] d(1) fin by (auto simp: seen_def Un_absorb2)
  moreover have "card ?N = length A + card (?N - set A)"
    using card_Diff_subset[of "set A" ?N] d(4) card_mono[OF fin d(4)] distinct_card[OF assms(3)] by simp
  ultimately have "tri (card (white g b)) \<ge> length A + tri (card (?N - set A)) + tri (card (white g b'))"
    using tri_le[of "length A"] by (simp add: tri_add)
  then show ?thesis using d(11) assms(2) by linarith
qed

lemma visited_pre:
  assumes pre: "visit_pre g H p b" and v: "visited g H p ws A b b'"
  shows "visit_pre g H p b'"
proof -
  note d = visitedD[OF v] and q = visit_preD[OF pre]
  have "distinct A" using builder_okD(3)[OF d(1)] progressD(3)[OF d(3)] by simp
  then show ?thesis unfolding visit_pre_def
    using d(1,2) q(3) progressD(5)[OF d(3)] part_ok_mono[OF q(4) emittedD(1)[OF d(6)]] progress_fuel[OF d(3) q(5)] by blast
qed

lemma visited_trans:
  assumes pre: "visit_pre g H p b" and v1: "visited g H p ws1 A1 b b1" and v2: "visited g H p ws2 A2 b1 b2"
  shows "visited g H p (ws1 @ ws2) (A2 @ A1) b b2"
proof -
  note d1 = visitedD[OF v1] and d2 = visitedD[OF v2] and q = visit_preD[OF pre]
  note p1 = progressD[OF d1(3)] and p2 = progressD[OF d2(3)]
  let ?N1 = "seen g b b1" and ?N2 = "seen g b1 b2"
  have N: "seen g b b2 = ?N1 \<union> ?N2" by (rule seen_trans[OF p1(1) p2(1)])
  have split: "seen g b b2 - set (A2 @ A1) = (?N1 - set A1) \<union> (?N2 - set A2)"
    unfolding N using p1(4) p2(4) by (auto simp: seen_def)
  have no: "\<not> edge g u y" if "u \<in> ?N1 - set A1" "y \<in> ?N2 - set A2" for u y
  proof
    assume e: "edge g u y"
    have "u \<in> finished g b1 - H" using p1(5) that(1) q(3) white_finished_disjoint[of g b] by (auto simp: seen_def)
    then have "y \<in> finished g b1" using d1(2) e unfolding closed_except_def by blast
    then show False using that(2) white_finished_disjoint[of g b1] by (auto simp: seen_def)
  qed
  have "emitted g p (seen g b b2 - set (A2 @ A1)) (wto b) (wto b2)" unfolding split
    by (rule emitted_trans[OF d1(6) d2(6) q(4) no]) (auto simp: seen_def)
  then show ?thesis unfolding visited_def
    using d2(1,2) progress_trans[OF d1(3) d2(3)] low_trans[OF q(1) d1(1) d1(3) d2(3) d1(4) d2(4)] confined_trans[OF d1(3) d2(3) d1(5) d2(5)]
    by blast
qed

lemma visited_nothing:
  assumes "visit_pre g H p b" "set ws \<inter> white g b = {}"
  shows "visited g H p ws [] b b"
  using visit_preD[OF assms(1)] builder_okD(2) assms(2)
  by (auto simp: visited_def progress_def low_def confined_def seen_def intro: emitted_refl)

end
