(* ===== verification/Wto_Visit.thy ===== *)
theory Wto_Visit
  imports Wto_Contract
begin

text \<open>
  A single visit of the builder of weak topological orders meets its contract: the step that enters
  a label, and the three ways in which the visit can end after its successors have been visited.
\<close>

lemma view_visit_stack [simp]:
  "white g (b\<lparr>visit_stack := t\<rparr>) = white g b" "finished g (b\<lparr>visit_stack := t\<rparr>) = finished g b"
  "set_vd v d (b\<lparr>visit_stack := t\<rparr>) = (set_vd v d b)\<lparr>visit_stack := t\<rparr>"
  "find_head (b\<lparr>visit_stack := t\<rparr>) = find_head b"
  by (simp_all add: white_def finished_def set_vd_def find_head_def fun_eq_iff)

lemma cfg_inv_children:
  assumes "cfg_inv g" "v \<in> set (cfg_labels g)"
  shows "\<exists>succs. children_of g v = Inr succs \<and> (\<forall>y. edge g v y \<longleftrightarrow> y \<in> set succs) \<and> set succs \<subseteq> set (cfg_labels g)"
proof -
  obtain n where n: "om_lookup g v = Some n"
    using assms by (auto simp: cfg_inv_def cfg_labels_def om.keys_dom)
  have "set (children n) \<subseteq> set (cfg_labels g)"
  proof
    fix y assume "y \<in> set (children n)"
    then have "edge g v y" using n by (simp add: edge_lookup)
    then show "y \<in> set (cfg_labels g)" using edge_contains[OF assms(1)] assms(1) by (auto simp: cfg_contains_iff)
  qed
  then show ?thesis using n by (simp add: children_of_def get_node_def edge_lookup)
qed

section \<open>Entering a label\<close>

definition entered :: "Label \<Rightarrow> WtoBuilder \<Rightarrow> WtoBuilder" where
  "entered v b = (set_vd v ((vd b v)\<lparr>dfn := num b + 1\<rparr>) (b\<lparr>num := num b + 1\<rparr>))\<lparr>dfs_stack := v # dfs_stack b\<rparr>"

abbreviation unvisited :: "WtoBuilder \<Rightarrow> Label list \<Rightarrow> Label list" where
  "unvisited b succs \<equiv> filter (\<lambda>s. dfn_of b s = 0) succs"

lemma wto_step_enter:
  assumes "dfn_of b v = 0" "children_of g v = Inr succs"
  shows "wto_step g (b\<lparr>visit_stack := visit_task p v # T\<rparr>) =
    Inr ((entered v b)\<lparr>visit_stack := map (visit_task p) (unvisited (entered v b) succs) @ start_task p v # T\<rparr>)"
proof -
  let ?b = "(entered v b)\<lparr>visit_stack := start_task p v # T\<rparr>"
  have "wto_step g (b\<lparr>visit_stack := visit_task p v # T\<rparr>) = Inr (push_unvisited succs p (part_cycle p) ?b)"
    using assms by (simp add: wto_step_def push_successors_def Let_def entered_def push_task_def set_vd_def)
  then show ?thesis by (simp add: push_unvisited_eq)
qed

lemma wto_step_skip:
  "dfn_of b v \<noteq> 0 \<Longrightarrow> wto_step g (b\<lparr>visit_stack := visit_task p v # T\<rparr>) = Inr (b\<lparr>visit_stack := T\<rparr>)"
  by (simp add: wto_step_def push_successors_def)

lemma entered_simps:
  assumes "builder_ok g b"
  shows "vd (entered v b) x = (if x = v then (vd b v)\<lparr>dfn := num b + 1\<rparr> else vd b x)" "num (entered v b) = num b + 1"
    "dfs_stack (entered v b) = v # dfs_stack b" "wto (entered v b) = wto b" "om_wf (vertex_data (entered v b))"
    "white g (entered v b) = white g b - {v}"
    "num b + 1 < DFN_INF \<Longrightarrow> v \<in> white g b \<Longrightarrow> finished g (entered v b) = finished g b"
  using builder_okD(1,7)[OF assms] by (auto simp: entered_def white_def finished_def)

lemma entered_pre:
  assumes pre: "visit_pre g H p b" and v: "v \<in> white g b"
  shows "visit_pre g H p (entered v b)" "num b + 1 < DFN_INF"
proof -
  note q = visit_preD[OF pre]
  note d = builder_okD[OF q(1)] and e = entered_simps[OF q(1), of v]
  have "card (white g b) = Suc (card (white g b - {v}))" by (rule card.remove[OF finite_white v])
  then have t: "tri (card (white g b)) = Suc (card (white g b - {v})) + tri (card (white g b - {v}))" by simp
  then show n: "num b + 1 < DFN_INF" using q(5) by linarith
  note fin = e(7)[OF n v]
  have vl: "v \<in> set (cfg_labels g)" "v \<notin> finished g b" using v white_finished_disjoint[of g b] by (auto simp: white_def)
  have "builder_ok g (entered v b)" unfolding builder_ok_def e(3,4,6) fin
  proof (intro conjI ballI impI)
    show "om_wf (vertex_data (entered v b))" by (rule e(5))
    show "om_wf (wto_containing (wto b))" by (rule d(2))
    show "distinct (v # dfs_stack b)" "set (v # dfs_stack b) = set (cfg_labels g) - (white g b - {v}) - finished g b"
      using d(3,4) v vl by auto
    show "0 \<le> num (entered v b)" using d(7) e(2) by simp
    show "0 < dfn_of (entered v b) x" "dfn_of (entered v b) x \<le> num (entered v b)" if "x \<in> set (v # dfs_stack b)" for x
      using that d(5,6)[of x] d(7) e(1,2) by (cases "x = v"; simp)+
    show "hd_of (entered v b) x = 0" if "x \<in> white g b - {v}" for x using that d(8) e(1) by simp
    show "containing (wto b) x = None" if "x \<in> set (cfg_labels g) - finished g b" for x by (rule d(12)[OF that])
    fix u assume u: "u \<in> set (v # dfs_stack b)" "hd_of (entered v b) u \<noteq> 0"
    then have uv: "u \<noteq> v" "u \<in> set (dfs_stack b)" "hd_of b u \<noteq> 0" using d(8)[OF v] e(1)[of u] by (auto split: if_splits)
    show "0 < hd_of (entered v b) u" "hd_of (entered v b) u < dfn_of (entered v b) u" using d(9,10)[OF uv(2,3)] e(1) uv(1) by auto
    obtain x where x: "x \<in> set (dfs_stack b)" "dfn_of b x = hd_of b u" using d(11)[OF uv(2,3)] by blast
    then have "x \<noteq> v" using d(4) v by blast
    then show "\<exists>x \<in> set (v # dfs_stack b). dfn_of (entered v b) x = hd_of (entered v b) u" using x e(1) uv(1) by (intro bexI[of _ x]) auto
  qed
  moreover have "closed_except g H (entered v b)" using q(2) by (simp add: closed_except_def fin)
  ultimately show "visit_pre g H p (entered v b)" using q t by (simp add: visit_pre_def fin e)
qed

section \<open>After the successors\<close>

text \<open>\<open>b2\<close> is the state in which \<^verbatim>\<open>start_visit\<close> finds the builder.\<close>

definition descended :: "Cfg \<Rightarrow> Label set \<Rightarrow> Partition_Ref \<Rightarrow> Label \<Rightarrow> Label list \<Rightarrow> Label list \<Rightarrow> WtoBuilder \<Rightarrow> WtoBuilder \<Rightarrow> bool" where
  "descended g H p v succs A b b2 \<longleftrightarrow> visit_pre g H p b \<and> v \<in> white g b \<and> (\<forall>y. edge g v y \<longleftrightarrow> y \<in> set succs) \<and>
     set succs \<subseteq> set (cfg_labels g) \<and> visited g H p (unvisited (entered v b) succs) A (entered v b) b2"

lemma descendedD:
  assumes "descended g H p v succs A b b2"
  shows "visit_pre g H p b" "v \<in> white g b" "edge g v y \<longleftrightarrow> y \<in> set succs" "set succs \<subseteq> set (cfg_labels g)"
    "visited g H p (unvisited (entered v b) succs) A (entered v b) b2" "builder_ok g b"
  using assms visit_preD(1) unfolding descended_def by blast+

lemma descended_state:
  assumes d: "descended g H p v succs A b b2"
  defines "N \<equiv> seen g (entered v b) b2"
  shows "dfs_stack b2 = A @ v # dfs_stack b" "vd b2 v = (vd b v)\<lparr>dfn := num b + 1\<rparr>" "hd_of b v = 0"
    "x \<in> set (dfs_stack b) \<Longrightarrow> vd b2 x = vd b x" "x \<notin> insert v N \<Longrightarrow> vd b2 x = vd b x"
    "white g b = insert v (N \<union> white g b2)" "v \<notin> N" "v \<notin> white g b2" "N \<inter> white g b2 = {}" "set A \<subseteq> N"
    "finished g b2 = finished g b \<union> (N - set A)" "v \<notin> finished g b2" "set succs \<inter> white g b2 = {}"
    "set (dfs_stack b) \<inter> insert v (N \<union> white g b2 \<union> finished g b2) = {}"
proof -
  note D = descendedD[OF d]
  note V = visitedD[OF D(5)] and q = visit_preD[OF D(1)]
  note P = progressD[OF V(3)] and E = entered_simps[OF D(6), of v] and B = builder_okD[OF D(6)]
  have fin: "finished g (entered v b) = finished g b" by (rule E(7)[OF entered_pre(2)[OF D(1,2)] D(2)])
  show st: "dfs_stack b2 = A @ v # dfs_stack b" using P(3) E(3) by simp
  show vN: "v \<notin> N" using E(6) by (simp add: N_def seen_def)
  show "vd b2 v = (vd b v)\<lparr>dfn := num b + 1\<rparr>" using P(6)[of v] vN E(1) by (simp add: N_def)
  show "hd_of b v = 0" by (rule B(8)[OF D(2)])
  show "x \<notin> insert v N \<Longrightarrow> vd b2 x = vd b x" using P(6)[of x] E(1) by (simp add: N_def)
  then show "x \<in> set (dfs_stack b) \<Longrightarrow> vd b2 x = vd b x" using B(4) D(2) E(6) by (auto simp: N_def seen_def)
  show w: "white g b = insert v (N \<union> white g b2)" "v \<notin> white g b2" "N \<inter> white g b2 = {}"
    using P(1) E(6) D(2) by (auto simp: N_def seen_def)
  show "set A \<subseteq> N" using P(4) by (simp add: N_def)
  show f: "finished g b2 = finished g b \<union> (N - set A)" using P(5) fin by (simp add: N_def)
  then show "v \<notin> finished g b2" using vN D(2) white_finished_disjoint[of g b] by blast
  have "s \<notin> white g b2" if "s \<in> set succs" for s
  proof
    assume s: "s \<in> white g b2"
    then have "s \<in> white g (entered v b)" using P(1) by blast
    then have "s \<in> set (unvisited (entered v b) succs)" using that by (simp add: white_def)
    then show False using P(2) s by blast
  qed
  then show "set succs \<inter> white g b2 = {}" by blast
  show "set (dfs_stack b) \<inter> insert v (N \<union> white g b2 \<union> finished g b2) = {}" using B(4) w f by blast
qed

text \<open>Every successor is finished, in \<open>A\<close>, the label itself or below it on the stack.\<close>

lemma descended_succ:
  assumes d: "descended g H p v succs A b b2" and s: "s \<in> set succs"
  shows "s \<in> finished g b2 \<and> min_dfn (vd b2 s) = DFN_INF \<or>
    s \<in> set A \<and> hd_of b2 s \<noteq> 0 \<and> min_dfn (vd b2 s) = hd_of b2 s \<and> s \<in> set (unvisited (entered v b) succs) \<or>
    s = v \<and> min_dfn (vd b2 s) = num b + 1 \<or>
    s \<in> set (dfs_stack b) \<and> min_dfn (vd b2 s) = min_dfn (vd b s) \<and> min_dfn (vd b s) \<le> num b"
proof -
  note D = descendedD[OF d] and S = descended_state[OF d]
  note V = visitedD[OF D(5)]
  have s': "s \<in> set (cfg_labels g)" "s \<notin> white g b2" using s D(4) S(13) by auto
  consider "s \<in> finished g b2" | "s \<in> set (dfs_stack b2)" using builder_okD(4)[OF V(1)] s' by blast
  then show ?thesis
  proof cases
    case 1
    then show ?thesis by (simp add: finished_def min_dfn_def)
  next
    case 2
    then consider "s \<in> set A" | "s = v" | "s \<in> set (dfs_stack b)" using S(1) by auto
    then show ?thesis
    proof cases
      case 1
      then have "s \<in> white g (entered v b)" using S(10) by (auto simp: seen_def)
      then have "s \<in> set (unvisited (entered v b) succs)" using s by (simp add: white_def)
      then show ?thesis using 1 progressD(7)[OF V(3) 1] min_dfn_stack(1)[OF V(1) 2] by simp
    next
      case 2
      then show ?thesis using S(2,3) by (simp add: min_dfn_def)
    next
      case 3
      then show ?thesis using S(4)[OF 3] min_dfn_stack(2)[OF D(6) 3] builder_okD(6)[OF D(6) 3] by simp
    qed
  qed
qed


section \<open>The visit leaves the label on the stack\<close>

lemma visit_confined:
  assumes d: "descended g H p v succs A b b2" and w: "white g b' = white g b2"
  shows "confined g [v] (A @ [v]) b b'" "confined g [v] [] b b'"
proof -
  note D = descendedD[OF d] and S = descended_state[OF d]
  note C = visitedD(5)[OF D(5)] and E = entered_simps[OF D(6), of v]
  have N: "seen g b b' = insert v (seen g (entered v b) b2)" using S(6,7,8,9) w by (auto simp: seen_def)
  have one: "seen g b b' \<subseteq> X" if X: "set [v] \<inter> white g b \<subseteq> X" "\<And>u y. u \<in> X \<Longrightarrow> y \<in> white g b \<Longrightarrow> edge g u y \<Longrightarrow> y \<in> X" for X
  proof -
    have v: "v \<in> X" using X(1) D(2) by simp
    have "seen g (entered v b) b2 \<subseteq> X"
    proof (rule confinedD(1)[OF C])
      show "set (unvisited (entered v b) succs) \<inter> white g (entered v b) \<subseteq> X" using X(2)[OF v] D(3) E(6) by auto
      show "y \<in> X" if "u \<in> X" "y \<in> white g (entered v b)" "edge g u y" for u y using X(2) that E(6) by auto
    qed
    then show ?thesis using N v by simp
  qed
  have two: "set (A @ [v]) \<subseteq> X" if X: "set [v] \<inter> set (A @ [v]) \<subseteq> X" "\<And>u y. u \<in> X \<Longrightarrow> y \<in> set (A @ [v]) \<Longrightarrow> edge g u y \<Longrightarrow> y \<in> X" for X
  proof -
    have v: "v \<in> X" using X(1) by simp
    have "set A \<subseteq> X"
      by (rule confinedD(2)[OF C]) (use X(2)[OF v] X(2) D(3) in auto)
    then show ?thesis using v by simp
  qed
  show "confined g [v] (A @ [v]) b b'" unfolding confined_def using one two by meson
  show "confined g [v] [] b b'" unfolding confined_def using one by simp
qed

lemma visit_stays:
  assumes d: "descended g H p v succs A b b2" and f: "find_head b2 succs (dfn_of b2 v) = (h, loop)" and h: "h \<noteq> dfn_of b2 v"
  shows "visited g H p [v] (A @ [v]) b (set_vd v ((vd b2 v)\<lparr>head_dfn := h\<rparr>) b2)" (is "visited _ _ _ _ _ _ ?b")
proof -
  note D = descendedD[OF d] and S = descended_state[OF d]
  note V = visitedD[OF D(5)] and q = visit_preD[OF D(1)] and E = entered_simps[OF D(6), of v]
  note P = progressD[OF V(3)] and B = builder_okD[OF D(6)] and B2 = builder_okD[OF V(1)]
  let ?N = "seen g (entered v b) b2"
  have dv: "dfn_of b2 v = num b + 1" using S(2) by simp
  note F = find_head_spec[OF f]
  have hv: "h < num b + 1" using F(1) h dv by simp
  have vd': "vd ?b x = (if x = v then (vd b2 v)\<lparr>head_dfn := h\<rparr> else vd b2 x)" for x using B2(1) by simp
  have w: "white g ?b = white g b2" "finished g ?b = finished g b2" using vd' by (auto simp: white_def finished_def)
  have N: "seen g b ?b = insert v ?N" using S(6,7,8,9) w by (auto simp: seen_def)
  have vA: "v \<notin> set A" using S(7,10) by blast
  obtain s where s: "s \<in> set succs" "h = min_dfn (vd b2 s)" using F(3) h by auto
  have inf: "num b + 1 < DFN_INF" by (rule entered_pre(2)[OF D(1,2)])
  have low_x: "\<exists>x \<in> set (dfs_stack b). dfn_of b x = h"
  proof -
    from descended_succ[OF d s(1)] s(2) hv inf consider "s \<in> set A" "h = hd_of b2 s" "hd_of b2 s \<noteq> 0" | "s \<in> set (dfs_stack b)" "h = min_dfn (vd b s)" by force
    then show ?thesis
    proof cases
      case 1
      then obtain x where x: "x \<in> set (dfs_stack b2)" "dfn_of b2 x = h" using B2(11)[of s] S(1) by auto
      have "x \<noteq> v" using x(2) dv hv by auto
      moreover have "x \<notin> set A" using x(2) P(8)[of x] hv E(2) by auto
      ultimately have "x \<in> set (dfs_stack b)" using x(1) S(1) by auto
      then show ?thesis using S(4) x(2) by auto
    next
      case 2
      then show ?thesis using min_dfn_stack(3)[OF D(6) 2(1)] by auto
    qed
  qed
  then have h0: "0 < h" using B(5) by auto
  have "builder_ok g ?b" unfolding builder_ok_def w set_vd_simps(1,2,4)
  proof (intro conjI ballI impI)
    show "om_wf (vertex_data ?b)" "om_wf (wto_containing (wto b2))" "distinct (dfs_stack b2)"
      "set (dfs_stack b2) = set (cfg_labels g) - white g b2 - finished g b2" "0 \<le> num b2" using B2(1-4,7) by auto
    show "0 < dfn_of ?b x" "dfn_of ?b x \<le> num b2" if "x \<in> set (dfs_stack b2)" for x using B2(5,6)[OF that] vd' by auto
    show "hd_of ?b x = 0" if "x \<in> white g b2" for x using B2(8)[OF that] that S(8) vd' by auto
    show "containing (wto b2) x = None" if "x \<in> set (cfg_labels g) - finished g b2" for x by (rule B2(12)[OF that])
    fix u assume u: "u \<in> set (dfs_stack b2)" "hd_of ?b u \<noteq> 0"
    show "0 < hd_of ?b u" using B2(9)[OF u(1)] u(2) vd' h0 by (auto split: if_splits)
    show "hd_of ?b u < dfn_of ?b u" using B2(10)[OF u(1)] u(2) vd' dv hv by (auto split: if_splits)
    have "\<exists>x \<in> set (dfs_stack b2). dfn_of b2 x = h" using low_x S(1,4) by (metis UnCI list.set_intros(2) set_append)
    then have "\<exists>x \<in> set (dfs_stack b2). dfn_of b2 x = hd_of ?b u" using B2(11)[OF u(1)] u(2) by (cases "u = v") (auto simp: vd')
    then show "\<exists>x \<in> set (dfs_stack b2). dfn_of ?b x = hd_of ?b u" by (auto simp: vd')
  qed
  moreover have "closed_except g H ?b" using V(2) by (simp add: closed_except_def w)
  moreover have "progress g [v] (A @ [v]) b ?b" unfolding progress_def N w
  proof (intro conjI ballI allI impI)
    show "white g b2 \<subseteq> white g b" "set [v] \<inter> white g b2 = {}" "dfs_stack ?b = (A @ [v]) @ dfs_stack b" "set (A @ [v]) \<subseteq> insert v ?N"
      using S by auto
    show "finished g b2 = finished g b \<union> (insert v ?N - set (A @ [v]))" using S(7,11) by auto
    show "vd ?b x = vd b x" if "x \<notin> insert v ?N" for x using that S(5)[OF that] vd' by simp
    show "hd_of ?b u \<noteq> 0" "num b < dfn_of ?b u" if "u \<in> set (A @ [v])" for u
      using that P(7,8)[of u] vd' dv h0 E(2) by (auto split: if_splits)
    show "\<not> edge g u y" if "u \<in> insert v ?N" "y \<in> white g b2" for u y using that P(9) S(13) D(3) by blast
    have "insert v ?N - set (A @ [v]) = ?N - set A" using S(7) by auto
    then show "num b \<le> num ?b" "num ?b \<le> num b + int (length (A @ [v])) + int (tri (card (insert v ?N - set (A @ [v]))))"
      using P(10,11) E(2) by simp_all
  qed
  moreover have "low g [v] (A @ [v]) b ?b" unfolding low_def N
  proof (intro conjI ballI allI impI)
    have hs: "h \<le> min_dfn (vd b2 s)" if "s \<in> set succs" for s by (rule F(2)[OF that])
    show "\<exists>w \<in> set [v] \<inter> set (A @ [v]). hd_of ?b w \<le> dfn_of b x" if "u \<in> set (A @ [v])" "x \<in> set (dfs_stack b)" "edge g u x" for u x
    proof (cases "u = v")
      case True
      then have "h \<le> min_dfn (vd b x)" using hs[of x] D(3) that S(4) by simp
      then show ?thesis using min_dfn_stack(2)[OF D(6) that(2)] vd' by simp
    next
      case False
      have "x \<noteq> v" using that(2) S(14) by blast
      have uA: "u \<in> set A" using that(1) False by simp
      note ux = that(3)
      have "x \<in> set (dfs_stack (entered v b))" using that(2) E(3) by simp
      then obtain w where w: "w \<in> set (unvisited (entered v b) succs) \<inter> set A" "hd_of b2 w \<le> dfn_of b x"
        using lowD(1)[OF V(4) uA _ ux] E(1)[of x] \<open>x \<noteq> v\<close> by auto
      then have "h \<le> hd_of b2 w" using hs[of w] w(1) min_dfn_stack(1)[OF V(1), of w] P(7)[of w] S(1) by simp
      then show ?thesis using w(2) vd' by simp
    qed
    show "k \<le> hd_of ?b u" if k: "k \<le> num b + 1" "\<forall>u \<in> insert v ?N. \<forall>x \<in> set (dfs_stack b). edge g u x \<longrightarrow> k \<le> min_dfn (vd b x)"
      and u: "u \<in> set (A @ [v])" for k u
    proof -
      have A: "k \<le> hd_of b2 x" if "x \<in> set A" for x
      proof (rule lowD(2)[OF V(4) _ _ that])
        show "k \<le> num (entered v b) + 1" using k(1) E(2) by simp
        show "k \<le> min_dfn (vd (entered v b) z)" if "y \<in> ?N" "z \<in> set (dfs_stack (entered v b))" "edge g y z" for y z
          using that k E(1,3) B(8)[OF D(2)] by (cases "z = v") (auto simp: min_dfn_def)
      qed
      have "k \<le> h" using descended_succ[OF d s(1)] s k(2) D(3) A[of s] hv inf by auto
      then show ?thesis using A[of u] u vd' by auto
    qed
    show "\<exists>w \<in> set [v] \<inter> set (A @ [v]). \<exists>x \<in> set (dfs_stack b). dfn_of b x = hd_of ?b w" using low_x vd' by auto
  qed
  moreover have "seen g b ?b - set (A @ [v]) = ?N - set A" using N S(7) by auto
  then have "emitted g p (seen g b ?b - set (A @ [v])) (wto b) (wto ?b)" using V(6) E(4) by simp
  ultimately show ?thesis unfolding visited_def using visit_confined(1)[OF d w(1)] by blast
qed


section \<open>The visit ends with a label\<close>

text \<open>What closing a label or a cycle has in common: everything that was seen is finished, the stack is as before.\<close>

definition closes :: "Cfg \<Rightarrow> Label \<Rightarrow> Label set \<Rightarrow> WtoBuilder \<Rightarrow> WtoBuilder \<Rightarrow> WtoBuilder \<Rightarrow> bool" where
  "closes g v N b b2 b' \<longleftrightarrow> om_wf (vertex_data b') \<and> dfs_stack b' = dfs_stack b \<and> white g b' = white g b2 \<and>
     finished g b' = finished g b \<union> insert v N \<and> (\<forall>x. x \<notin> insert v N \<longrightarrow> vd b' x = vd b2 x) \<and>
     num b \<le> num b' \<and> num b' \<le> num b + int (tri (Suc (card N)))"

lemma visit_closes:
  assumes d: "descended g H p v succs A b b2" and c: "closes g v (seen g (entered v b) b2) b b2 b'"
    and succs: "set succs \<inter> set (dfs_stack b) = {}"
    and closed: "\<And>u y. u \<in> seen g (entered v b) b2 \<Longrightarrow> edge g u y \<Longrightarrow> y \<in> finished g b'"
    and em: "emitted g p (insert v (seen g (entered v b) b2)) (wto b) (wto b')"
  shows "visited g H p [v] [] b b'"
proof -
  note D = descendedD[OF d] and S = descended_state[OF d]
  note V = visitedD[OF D(5)] and q = visit_preD[OF D(1)]
  note P = progressD[OF V(3)] and B = builder_okD[OF D(6)] and B2 = builder_okD[OF V(1)]
  let ?N = "seen g (entered v b) b2"
  have c': "om_wf (vertex_data b')" "dfs_stack b' = dfs_stack b" "white g b' = white g b2"
     "finished g b' = finished g b \<union> insert v ?N" "\<And>x. x \<notin> insert v ?N \<Longrightarrow> vd b' x = vd b2 x"
     "num b \<le> num b'" "num b' \<le> num b + int (tri (Suc (card ?N)))" using c unfolding closes_def by blast+
  have N: "seen g b b' = insert v ?N" using S(6,7,8,9) c'(3) by (auto simp: seen_def)
  have old: "vd b' x = vd b x" if "x \<notin> insert v ?N" for x using c'(5)[OF that] S(5)[OF that] by simp
  have stack: "vd b' x = vd b x" if "x \<in> set (dfs_stack b)" for x using old[of x] that S(14) by blast
  have "builder_ok g b'" unfolding builder_ok_def c'(2,3)
  proof (intro conjI ballI impI)
    show "om_wf (vertex_data b')" "om_wf (wto_containing (wto b'))" "distinct (dfs_stack b)" "0 \<le> num b'"
      using c'(1,6) emittedD(4)[OF em] B(3,7) by auto
    show "set (dfs_stack b) = set (cfg_labels g) - white g b2 - finished g b'" unfolding c'(4) using B(4) S(6) by blast
    show "0 < dfn_of b' x" "dfn_of b' x \<le> num b'" if "x \<in> set (dfs_stack b)" for x using B(5,6)[OF that] stack[OF that] c'(6) by auto
    show "hd_of b' x = 0" if "x \<in> white g b2" for x
    proof -
      have "x \<notin> insert v ?N" using S(8,9) that by blast
      then show ?thesis using B2(8)[OF that] c'(5) by simp
    qed
    show "containing (wto b') x = None" if "x \<in> set (cfg_labels g) - finished g b'" for x
      using B(12)[of x] that c'(4) emittedD(5)[OF em, of x] by auto
    fix u assume u: "u \<in> set (dfs_stack b)" "hd_of b' u \<noteq> 0"
    show "0 < hd_of b' u" "hd_of b' u < dfn_of b' u" "\<exists>x \<in> set (dfs_stack b). dfn_of b' x = hd_of b' u"
      using B(9,10,11)[OF u(1)] u stack by auto
  qed
  moreover have "closed_except g H b'" unfolding closed_except_def
  proof (intro ballI allI impI)
    fix u y assume u: "u \<in> finished g b' - H" "edge g u y"
    consider "u \<in> finished g b - H" | "u = v" | "u \<in> ?N" using u(1) c'(4) by blast
    then show "y \<in> finished g b'"
    proof cases
      case 1
      then show ?thesis using q(2) u(2) c'(4) unfolding closed_except_def by blast
    next
      case 2
      then have y: "y \<in> set succs" using D(3) u(2) by simp
      then have "y \<in> set (cfg_labels g)" "y \<notin> white g b2" "y \<notin> set (dfs_stack b)" using D(4) S(13) succs by auto
      then show ?thesis using B(4) S(6) c'(4) by blast
    next
      case 3
      then show ?thesis using closed u(2) by blast
    qed
  qed
  moreover have "progress g [v] [] b b'" unfolding progress_def N c'(2,3)
  proof (intro conjI ballI allI impI)
    show "vd b' x = vd b x" if "x \<notin> insert v ?N" for x by (rule old[OF that])
    show "\<not> edge g u y" if "u \<in> insert v ?N" "y \<in> white g b2" for u y using that P(9) S(13) D(3) by blast
    have "card (insert v ?N) = Suc (card ?N)" using S(7) by (simp add: seen_def)
    then show "num b' \<le> num b + int (length []) + int (tri (card (insert v ?N - set [])))" using c'(7) by simp
  qed (use S c'(4,6) in auto)
  ultimately show ?thesis unfolding visited_def
    using visit_confined(2)[OF d c'(3)] em N by (simp add: low_def)
qed

text \<open>When a visit closes its label, no edge from the labels above it leads below it.\<close>

lemma closing_above:
  assumes d: "descended g H p v succs A b b2" and f: "find_head b2 succs (dfn_of b2 v) = (dfn_of b2 v, loop)"
  shows "set succs \<inter> set (dfs_stack b) = {}" "u \<in> set A \<Longrightarrow> x \<in> set (dfs_stack b) \<Longrightarrow> \<not> edge g u x" "\<not> loop \<Longrightarrow> A = []"
    "\<not> loop \<Longrightarrow> v \<notin> set succs"
proof -
  note D = descendedD[OF d] and S = descended_state[OF d]
  note V = visitedD[OF D(5)] and E = entered_simps[OF D(6), of v] and F = find_head_spec[OF f]
  have dv: "dfn_of b2 v = num b + 1" using S(2) by simp
  have "s \<notin> set (dfs_stack b)" if "s \<in> set succs" for s
    using F(2)[OF that] dv S(4)[of s] min_dfn_stack(2)[OF D(6), of s] builder_okD(6)[OF D(6), of s] by auto
  then show "set succs \<inter> set (dfs_stack b) = {}" by blast
  have min_A: "min_dfn (vd b2 w) = hd_of b2 w" if "w \<in> set A" for w
    using min_dfn_stack(1)[OF V(1), of w] progressD(7)[OF V(3) that] that S(1) by simp
  show "\<not> edge g u x" if u: "u \<in> set A" "x \<in> set (dfs_stack b)"
  proof
    assume "edge g u x"
    then obtain w where w: "w \<in> set succs" "w \<in> set A" "hd_of b2 w \<le> dfn_of (entered v b) x"
      using lowD(1)[OF V(4) u(1), of x] u(2) E(3) by auto
    have "x \<noteq> v" using u(2) S(14) by blast
    then have "min_dfn (vd b2 w) \<le> num b" using w min_A builder_okD(6)[OF D(6) u(2)] E(1) by simp
    then show False using F(2)[OF w(1)] dv by simp
  qed
  show "v \<notin> set succs" if "\<not> loop"
    using that F(4) S(2,3) by (auto simp: min_dfn_def)
  show "A = []" if nl: "\<not> loop"
  proof (rule ccontr)
    assume "A \<noteq> []"
    then obtain w x where w: "w \<in> set succs" "w \<in> set A" "x \<in> set (dfs_stack (entered v b))" "dfn_of (entered v b) x = hd_of b2 w"
      using lowD(3)[OF V(4)] by auto
    then have "min_dfn (vd b2 w) \<le> num b + 1"
      using min_A builder_okD(6)[OF visit_preD(1)[OF entered_pre(1)[OF D(1,2)]] w(3)] E(2) by simp
    then show False using F(4) nl w(1) dv by auto
  qed
qed

lemma visit_label:
  assumes d: "descended g H p v succs A b b2" and f: "find_head b2 succs (dfn_of b2 v) = (dfn_of b2 v, False)"
    and b': "om_wf (vertex_data b')" "dfs_stack b' = dfs_stack b" "num b' = num b2"
      "\<And>x. vd b' x = (if x = v then (vd b2 v)\<lparr>dfn := DFN_INF, head_dfn := dfn_of b2 v\<rparr> else vd b2 x)"
      "wto b' = (partition_push p (Label_Ref v) (wto b2))\<lparr>wto_containing := om_emplace v (part_cycle p) (wto_containing (wto b2))\<rparr>"
  shows "visited g H p [v] [] b b'"
proof -
  note D = descendedD[OF d] and S = descended_state[OF d]
  note V = visitedD[OF D(5)] and q = visit_preD[OF D(1)] and E = entered_simps[OF D(6), of v] and A = closing_above[OF d f]
  note P = progressD[OF V(3)] and B2 = builder_okD[OF V(1)]
  let ?N = "seen g (entered v b) b2"
  have A0: "A = []" using A(3) by simp
  have vl: "v \<in> set (cfg_labels g)" using D(2) by (simp add: white_def)
  have fin: "finished g b' = finished g b2 \<union> {v}" "white g b' = white g b2"
    using b'(4) S(8) vl by (auto simp: finished_def white_def)
  have H: "u \<notin> H" if "u \<in> ?N" for u using that q(3) S(6) white_finished_disjoint[of g b] by blast
  have cl: "y \<in> finished g b2" if "u \<in> ?N" "edge g u y" for u y
    using V(2) that H[OF that(1)] S(11) A0 unfolding closed_except_def by auto
  show ?thesis
  proof (rule visit_closes[OF d _ A(1)])
    show "closes g v ?N b b2 b'" unfolding closes_def
      using b'(1,2,3,4) fin S(11) A0 P(10,11) E(2) by auto
    show "y \<in> finished g b'" if "u \<in> ?N" "edge g u y" for u y using cl[OF that] fin by simp
    have po: "part_ok p (wto b2)" using part_ok_mono[OF q(4)] emittedD(1)[OF V(6)] E(4) by simp
    have e1: "emitted g p ?N (wto b) (wto b2)" using V(6) A0 E(4) by simp
    have e2: "emitted g p {v} (wto b2) (wto b')" unfolding b'(5)
      by (rule emitted_label[OF po B2(2)]) (use B2(12) vl S(12) A(4) D(3) in auto)
    have "emitted g p (?N \<union> {v}) (wto b) (wto b')"
      by (rule emitted_trans[OF e1 e2 q(4)]) (use cl S(7,12) in auto)
    then show "emitted g p (insert v ?N) (wto b) (wto b')" by simp
  qed
qed


section \<open>The visit ends with a cycle\<close>

text \<open>
  The state in which the body of a cycle is visited: the labels above the head have lost their
  numbers, the head is finished, and there is a new, empty cycle.
\<close>

definition reopened :: "Partition_Ref \<Rightarrow> Label \<Rightarrow> Label list \<Rightarrow> WtoBuilder \<Rightarrow> WtoBuilder \<Rightarrow> WtoBuilder \<Rightarrow> bool" where
  "reopened p v A b b2 b3 \<longleftrightarrow> om_wf (vertex_data b3) \<and> dfs_stack b3 = dfs_stack b \<and> num b3 = num b2 \<and>
     dfn_of b3 v = DFN_INF \<and>
     (\<forall>x. x \<noteq> v \<longrightarrow> vd b3 x = (if x \<in> set A then (vd b2 x)\<lparr>dfn := 0, head_dfn := 0\<rparr> else vd b2 x)) \<and>
     wto b3 = (wto b2)\<lparr>wto_cycles := wto_cycles (wto b2) @ [\<lparr>cycle_components = [], cycle_containing = part_cycle p\<rparr>]\<rparr>"

lemma reopened_state:
  assumes d: "descended g H p v succs A b b2" and r: "reopened p v A b b2 b3"
  shows "white g b3 = white g b2 \<union> set A" "finished g b3 = insert v (finished g b2)" "builder_ok g b3"
    "x \<in> set (dfs_stack b) \<Longrightarrow> vd b3 x = vd b x"
proof -
  note D = descendedD[OF d] and S = descended_state[OF d]
  note V = visitedD[OF D(5)] and q = visit_preD[OF D(1)]
  note B = builder_okD[OF D(6)] and B2 = builder_okD[OF V(1)] and P = progressD[OF V(3)]
  have r': "om_wf (vertex_data b3)" "dfs_stack b3 = dfs_stack b" "num b3 = num b2" "dfn_of b3 v = DFN_INF"
     "\<And>x. x \<noteq> v \<Longrightarrow> vd b3 x = (if x \<in> set A then (vd b2 x)\<lparr>dfn := 0, head_dfn := 0\<rparr> else vd b2 x)"
     "wto b3 = (wto b2)\<lparr>wto_cycles := wto_cycles (wto b2) @ [\<lparr>cycle_components = [], cycle_containing = part_cycle p\<rparr>]\<rparr>"
    using r unfolding reopened_def by blast+
  have vl: "v \<in> set (cfg_labels g)" using D(2) by (simp add: white_def)
  have AN: "set A \<subseteq> set (cfg_labels g)" "v \<notin> set A" using S(6,7,10) by (auto simp: white_def)
  have fA: "set A \<inter> finished g b2 = {}" using B2(4) S(1) by auto
  have dfn3: "dfn_of b3 x = (if x = v then DFN_INF else if x \<in> set A then 0 else dfn_of b2 x)" for x
    using r'(4) r'(5)[of x] by simp
  show w: "white g b3 = white g b2 \<union> set A" using AN S(8) by (auto simp: white_def dfn3)
  show f: "finished g b3 = insert v (finished g b2)" using AN(2) fA vl by (auto simp: finished_def dfn3)
  have AS: "set A \<inter> set (dfs_stack b) = {}" "v \<notin> set (dfs_stack b)" using S(10,14) by blast+
  show st: "vd b3 x = vd b x" if "x \<in> set (dfs_stack b)" for x 
  proof -
    have "x \<noteq> v" "x \<notin> set A" using that AS by auto
    then show ?thesis using r'(5)[of x] S(4)[OF that] by simp
  qed
  show "builder_ok g b3" unfolding builder_ok_def r'(2,3) w f
  proof (intro conjI ballI impI)
    show "om_wf (vertex_data b3)" "om_wf (wto_containing (wto b3))" "distinct (dfs_stack b)" "0 \<le> num b2"
      using r'(1,6) B2(2,7) B(3) by auto
    have "set (dfs_stack b2) = set A \<union> insert v (set (dfs_stack b))" using S(1) by auto
    then show "set (dfs_stack b) = set (cfg_labels g) - (white g b2 \<union> set A) - insert v (finished g b2)"
      using B2(4) AS by blast
    show "0 < dfn_of b3 x" "dfn_of b3 x \<le> num b2" if "x \<in> set (dfs_stack b)" for x
      using B(5,6)[OF that] st[OF that] P(10) entered_simps(2)[OF D(6)] by auto
    show "hd_of b3 x = 0" if "x \<in> white g b2 \<union> set A" for x
    proof -
      have "x \<noteq> v" using that S(8) AN(2) by blast
      then show ?thesis using r'(5)[of x] that B2(8)[of x] by auto
    qed
    show "containing (wto b3) x = None" if "x \<in> set (cfg_labels g) - insert v (finished g b2)" for x
      using B2(12)[of x] that r'(6) by simp
    fix u assume u: "u \<in> set (dfs_stack b)" "hd_of b3 u \<noteq> 0"
    show "0 < hd_of b3 u" "hd_of b3 u < dfn_of b3 u" "\<exists>x \<in> set (dfs_stack b). dfn_of b3 x = hd_of b3 u"
      using B(9,10,11)[OF u(1)] u st by auto
  qed
qed

lemma reopened_pre:
  assumes d: "descended g H p v succs A b b2" and r: "reopened p v A b b2 b3"
  shows "visit_pre g (insert v H) (Cycle_Partition (length (wto_cycles (wto b2)))) b3"
    "num b \<le> num b3" "num b3 \<le> num b + 1 + int (length A) + int (tri (card (seen g (entered v b) b2 - set A)))"
    "card (white g b3) < card (white g b)" "card (seen g (entered v b) b2 - set A) + length A = card (seen g (entered v b) b2)"
proof -
  note D = descendedD[OF d] and S = descended_state[OF d] and R = reopened_state[OF d r]
  note V = visitedD[OF D(5)] and q = visit_preD[OF D(1)]
  note P = progressD[OF V(3)] and E = entered_simps[OF D(6), of v]
  let ?N = "seen g (entered v b) b2"
  have r': "num b3 = num b2" "wto b3 = (wto b2)\<lparr>wto_cycles := wto_cycles (wto b2) @ [\<lparr>cycle_components = [], cycle_containing = part_cycle p\<rparr>]\<rparr>"
    using r unfolding reopened_def by blast+
  show n: "num b \<le> num b3" "num b3 \<le> num b + 1 + int (length A) + int (tri (card (?N - set A)))" using P(10,11) E(2) r'(1) by simp_all
  have fin: "finite ?N" "finite (white g b2)" by (simp_all add: seen_def)
  have distA: "distinct A" using builder_okD(3)[OF V(1)] S(1) by simp
  show cA: "card (?N - set A) + length A = card ?N"
    using card_Diff_subset[of "set A" ?N] card_mono[OF fin(1) S(10)] S(10) distinct_card[OF distA] by simp
  have c3: "card (white g b3) = card (white g b2) + length A"
    unfolding R(1) using card_Un_disjoint[of "white g b2" "set A"] S(9,10) distinct_card[OF distA] by auto
  have "white g b = insert v (?N \<union> white g b2)" by (rule S(6))
  then have cw: "card (white g b) = Suc (card ?N + card (white g b2))"
    using S(7,8,9) fin card_Un_disjoint[of ?N "white g b2"] by simp
  then show "card (white g b3) < card (white g b)" using c3 cA by simp
  have "card (white g b) = Suc (card (?N - set A) + card (white g b3))" using cw c3 cA by simp
  then have "tri (card (white g b)) = tri (card (?N - set A) + card (white g b3)) + Suc (card (?N - set A) + card (white g b3))" by simp
  moreover have "tri (card (?N - set A)) + tri (card (white g b3)) \<le> tri (card (?N - set A) + card (white g b3))" by (rule tri_add_le)
  moreover have "length A \<le> card (white g b3)" using c3 by simp
  ultimately have "num b3 + int (tri (card (white g b3))) < DFN_INF" using n(2) q(5) by linarith
  moreover have "H \<subseteq> finished g b2" using q(3) S(11) by blast
  moreover have "closed_except g (insert v H) b3" using V(2) unfolding closed_except_def R(2) by blast
  moreover have "part_ok (Cycle_Partition (length (wto_cycles (wto b2)))) (wto b3)" using r'(2) by (simp add: part_ok_def)
  ultimately show "visit_pre g (insert v H) (Cycle_Partition (length (wto_cycles (wto b2)))) b3"
    unfolding visit_pre_def using R(2,3) by blast
qed

text \<open>The second visit covers exactly the labels that were reset, and leaves nothing on the stack.\<close>

lemma reopened_visit:
  assumes d: "descended g H p v succs A b b2" and f: "find_head b2 succs (dfn_of b2 v) = (dfn_of b2 v, loop)"
    and r: "reopened p v A b b2 b3" and v3: "visited g (insert v H) q (unvisited b3 succs) A4 b3 b4"
  shows "A4 = []" "seen g b3 b4 = set A"
proof -
  note D = descendedD[OF d] and S = descended_state[OF d] and R = reopened_state[OF d r] and W = closing_above[OF d f]
  note V = visitedD[OF D(5)] and V3 = visitedD[OF v3]
  note P = progressD[OF V(3)] and P3 = progressD[OF V3(3)] and E = entered_simps[OF D(6), of v]
  have st3: "dfs_stack b3 = dfs_stack b" using r by (simp add: reopened_def)
  have sub: "seen g b3 b4 \<subseteq> set A"
  proof (rule confinedD(1)[OF V3(5)])
    show "set (unvisited b3 succs) \<inter> white g b3 \<subseteq> set A" using R(1) S(13) by auto
    show "y \<in> set A" if "u \<in> set A" "y \<in> white g b3" "edge g u y" for u y
      using that R(1) P(9)[of u y] S(10) by auto
  qed
  show A4: "A4 = []"
  proof (rule ccontr)
    assume "A4 \<noteq> []"
    then obtain w x where w: "w \<in> set A4" "x \<in> set (dfs_stack b)" "dfn_of b3 x = hd_of b4 w" using lowD(3)[OF V3(4)] st3 by auto
    have "num b + 1 \<le> hd_of b4 w"
      by (rule lowD(2)[OF V3(4) _ _ w(1)]) (use reopened_pre(2)[OF d r] sub W(2) st3 in auto)
    then show False using w R(4) builder_okD(6)[OF D(6) w(2)] by simp
  qed
  have "set A \<subseteq> seen g b3 b4"
  proof (rule confinedD(2)[OF V(5)])
    have in_seen: "y \<in> seen g b3 b4" if "y \<in> set A" "y \<notin> white g b4" for y using that R(1) by (simp add: seen_def)
    show "set (unvisited (entered v b) succs) \<inter> set A \<subseteq> seen g b3 b4"
    proof
      fix s assume s: "s \<in> set (unvisited (entered v b) succs) \<inter> set A"
      then have "s \<in> white g b3" using R(1) by blast
      then have "s \<in> set (unvisited b3 succs)" using s by (simp add: white_def)
      then show "s \<in> seen g b3 b4" using s P3(2) in_seen by blast
    qed
    show "y \<in> seen g b3 b4" if "u \<in> seen g b3 b4" "y \<in> set A" "edge g u y" for u y
      using that in_seen P3(9) by blast
  qed
  then show "seen g b3 b4 = set A" using sub by blast
qed

lemma visit_cycle:
  assumes d: "descended g H p v succs A b b2" and f: "find_head b2 succs (dfn_of b2 v) = (dfn_of b2 v, loop)"
    and r: "reopened p v A b b2 b3" and i: "i = length (wto_cycles (wto b2))"
    and v3: "visited g (insert v H) (Cycle_Partition i) (unvisited b3 succs) A4 b3 b4"
    and b': "b' = b4\<lparr>wto := (partition_push p (Cycle_Ref i) (partition_push (Cycle_Partition i) (Label_Ref v) (wto b4)))
      \<lparr>wto_containing := om_emplace v (Some i) (wto_containing (wto b4))\<rparr>\<rparr>"
  shows "visited g H p [v] [] b b'"
proof -
  note D = descendedD[OF d] and S = descended_state[OF d] and R = reopened_state[OF d r] and W = closing_above[OF d f]
  note V = visitedD[OF D(5)] and V3 = visitedD[OF v3] and q = visit_preD[OF D(1)] and T = reopened_visit[OF d f r v3] and U = reopened_pre[OF d r]
  note P = progressD[OF V(3)] and P3 = progressD[OF V3(3)] and E = entered_simps[OF D(6), of v] and B2 = builder_okD[OF V(1)]
  let ?N = "seen g (entered v b) b2"
  have st3: "dfs_stack b3 = dfs_stack b"
    "wto b3 = (wto b2)\<lparr>wto_cycles := wto_cycles (wto b2) @ [\<lparr>cycle_components = [], cycle_containing = part_cycle p\<rparr>]\<rparr>"
    "\<And>x. x \<noteq> v \<Longrightarrow> x \<notin> set A \<Longrightarrow> vd b3 x = vd b2 x"
    using r by (simp_all add: reopened_def)
  have w': "white g b' = white g b4" "finished g b' = finished g b4" by (simp_all add: b' white_def finished_def)
  have w4: "white g b4 = white g b2" using T(2) R(1) S(9,10) P3(1) by (auto simp: seen_def)
  have f4: "finished g b4 = finished g b \<union> insert v ?N" using P3(5) T R(2) S(10,11) by auto
  have H: "u \<notin> H" if "u \<in> ?N" for u using that q(3) S(6) white_finished_disjoint[of g b] by blast
  have AV: "set A \<inter> finished g b2 = {}" "v \<notin> set A" using B2(4) S(1,7,10) by auto
  show ?thesis
  proof (rule visit_closes[OF d _ W(1)])
    have nN: "num b4 \<le> num b3 + int (tri (length A))"
      using P3(11) T distinct_card[of A] builder_okD(3)[OF V(1)] S(1) by simp
    have "tri (card (?N - set A)) + tri (length A) \<le> tri (card ?N)" using tri_add_le[of "card (?N - set A)" "length A"] U(5) by simp
    then have "num b4 \<le> num b + int (tri (Suc (card ?N)))" using nN U(3,5) by simp
    then show "closes g v ?N b b2 b'" unfolding closes_def w'
      using w4 f4 U(2) P3(3,6,10) T st3(1,3) S(10) builder_okD(1)[OF V3(1)] by (auto simp: b')
    show "y \<in> finished g b'" if "u \<in> ?N" "edge g u y" for u y
      using V3(2) that H[OF that(1)] S(7) f4 unfolding closed_except_def w' by blast
    have e4: "emitted g (Cycle_Partition i) (set A) (wto b3) (wto b4)" using V3(6) T by simp
    have po: "part_ok p (wto b2)" using part_ok_mono[OF q(4)] emittedD(1)[OF V(6)] E(4) by simp
    have con: "containing (wto b2) v = None" using B2(12) S(12) D(2) by (simp add: white_def)
    have e2: "emitted g p (insert v (set A)) (wto b2) (wto b')"
      by (rule emitted_closed_cycle[OF _ po AV(2) con]) (use e4 in \<open>simp_all add: st3(2) b' i\<close>)
    have e1: "emitted g p (?N - set A) (wto b) (wto b2)" using V(6) E(4) by simp
    have "\<not> edge g u y" if "u \<in> ?N - set A" "y \<in> insert v (set A)" for u y
      using V(2) that H S(11,12) AV unfolding closed_except_def by blast
    then have "emitted g p ((?N - set A) \<union> insert v (set A)) (wto b) (wto b')"
      by (rule emitted_trans[OF e1 e2 q(4)]) (use S(7) in auto)
    moreover have "(?N - set A) \<union> insert v (set A) = insert v ?N" using S(10) by blast
    ultimately show "emitted g p (insert v ?N) (wto b) (wto b')" by simp
  qed
qed

end
