(* ===== verification/Wto_Correct.thy ===== *)
theory Wto_Correct
  imports Wto_Visit
begin

text \<open>
  The construction of weak topological orders ends on every graph of moderate size, without an
  error, and its result is an order in the sense of Bourdoncle: it starts at the entry, is closed under
  the edges, and every edge against the order leads to the head of a cycle around its source.
\<close>

section \<open>The steps that end a visit\<close>

lemma wto_step_stays:
  assumes "children_of g v = Inr succs" "find_head b succs (dfn_of b v) = (h, loop)" "h \<noteq> dfn_of b v"
  shows "wto_step g (b\<lparr>visit_stack := start_task p v # T\<rparr>) = Inr ((set_vd v ((vd b v)\<lparr>head_dfn := h\<rparr>) b)\<lparr>visit_stack := T\<rparr>)"
  using assms by (simp add: wto_step_def start_visit_def)

lemma wto_step_label:
  assumes "children_of g v = Inr succs" "find_head b succs (dfn_of b v) = (dfn_of b v, False)"
    "dfs_stack b = v # S" "om_wf (vertex_data b)"
  shows "\<exists>b'. wto_step g (b\<lparr>visit_stack := start_task p v # T\<rparr>) = Inr (b'\<lparr>visit_stack := T\<rparr>) \<and>
    om_wf (vertex_data b') \<and> dfs_stack b' = S \<and> num b' = num b \<and>
    (\<forall>x. vd b' x = (if x = v then (vd b v)\<lparr>dfn := DFN_INF, head_dfn := dfn_of b v\<rparr> else vd b x)) \<and>
    wto b' = (partition_push p (Label_Ref v) (wto b))\<lparr>wto_containing := om_emplace v (part_cycle p) (wto_containing (wto b))\<rparr>"
proof -
  let ?b = "set_vd v ((vd b v)\<lparr>dfn := DFN_INF\<rparr>) b"
  let ?w = "partition_push p (Label_Ref v) (wto b)"
  let ?b' = "set_vd v ((vd ?b v)\<lparr>head_dfn := dfn_of b v\<rparr>) (?b\<lparr>dfs_stack := S, wto := ?w\<lparr>wto_containing := om_emplace v (part_cycle p) (wto_containing ?w)\<rparr>\<rparr>)"
  have "wto_step g (b\<lparr>visit_stack := start_task p v # T\<rparr>) = Inr (?b'\<lparr>visit_stack := T\<rparr>)"
    using assms by (auto simp: wto_step_def start_visit_def Let_def set_vd_def vd_def intro!: WtoBuilder.equality)
  moreover have "wto_containing ?w = wto_containing (wto b)" by (simp add: partition_push_def split: Partition_Ref.splits)
  ultimately show ?thesis using assms(4) by (intro exI[of _ ?b']) simp
qed

lemma wto_step_cycle:
  assumes "children_of g v = Inr succs" "find_head b succs (dfn_of b v) = (dfn_of b v, True)"
    "dfs_stack b = A @ v # S" "om_wf (vertex_data b)" "distinct (dfs_stack b)" "dfs_stack b0 = S"
  shows "\<exists>b3. wto_step g (b\<lparr>visit_stack := start_task p v # T\<rparr>) =
      Inr (b3\<lparr>visit_stack := map (visit_task (Cycle_Partition (length (wto_cycles (wto b))))) (unvisited b3 succs) @
        continue_task p (length (wto_cycles (wto b))) v # T\<rparr>) \<and> reopened p v A b0 b b3"
proof -
  let ?i = "length (wto_cycles (wto b))"
  let ?b = "(set_vd v ((vd b v)\<lparr>dfn := DFN_INF\<rparr>) b)\<lparr>visit_stack := T\<rparr>"
  obtain e rest where er: "dfs_stack b = e # rest" "e # rest = A @ v # S" using assms(3) by (cases "dfs_stack b") auto
  have wf: "om_wf (vertex_data ?b)" using assms(4) by simp
  have dis: "v \<notin> set A" "distinct A" using assms(3,5) by auto
  obtain b1 where b1: "pop_until e rest v ?b = Inr b1" "dfs_stack b1 = S" "num b1 = num b" "visit_stack b1 = T" "wto b1 = wto b"
      "om_wf (vertex_data b1)" "\<forall>x. vd b1 x = (if x \<in> set A then (vd ?b x)\<lparr>dfn := 0, head_dfn := 0\<rparr> else vd ?b x)"
    using pop_until_spec[OF wf dis(1) er(2) dis(2)] by auto
  let ?w = "(wto b)\<lparr>wto_cycles := wto_cycles (wto b) @ [\<lparr>cycle_components = [], cycle_containing = part_cycle p\<rparr>]\<rparr>"
  let ?b3 = "set_vd v ((vd b1 v)\<lparr>head_dfn := dfn_of b v, vd_cycle := Some ?i\<rparr>) (b1\<lparr>wto := ?w\<rparr>)"
  have pc: "part_cycle (Cycle_Partition ?i) = Some ?i" by (simp add: part_cycle_def)
  have "wto_step g (b\<lparr>visit_stack := start_task p v # T\<rparr>) =
      Inr (push_unvisited succs (Cycle_Partition ?i) (Some ?i) (?b3\<lparr>visit_stack := continue_task p ?i v # T\<rparr>))"
    using assms(1,2) er(1) b1(1,4,5) by (simp add: wto_step_def start_visit_def Let_def push_task_def del: pop_until.simps)
  then have "wto_step g (b\<lparr>visit_stack := start_task p v # T\<rparr>) =
      Inr (?b3\<lparr>visit_stack := map (visit_task (Cycle_Partition ?i)) (unvisited ?b3 succs) @ continue_task p ?i v # T\<rparr>)"
    using push_unvisited_eq[of succs "Cycle_Partition ?i"] pc by simp
  moreover have "reopened p v A b0 b ?b3" using b1 assms(4,6) dis(1) by (simp add: reopened_def)
  ultimately show ?thesis by blast
qed

lemma wto_step_continue:
  assumes "part_ok (Cycle_Partition i) (wto b)" "part_ok p (wto b)"
  shows "wto_step g (b\<lparr>visit_stack := continue_task p i v # T\<rparr>) =
    Inr ((b\<lparr>wto := (partition_push p (Cycle_Ref i) (partition_push (Cycle_Partition i) (Label_Ref v) (wto b)))
      \<lparr>wto_containing := om_emplace v (Some i) (wto_containing (wto b))\<rparr>\<rparr>)\<lparr>visit_stack := T\<rparr>)"
proof -
  have "part_ok p (partition_push (Cycle_Partition i) (Label_Ref v) (wto b))"
    by (rule part_ok_mono[OF assms(2)]) (simp add: part_push(2)[OF assms(1)])
  then have "wto_containing (partition_push p (Cycle_Ref i) (partition_push (Cycle_Partition i) (Label_Ref v) (wto b))) = wto_containing (wto b)"
    using part_push(4) assms(1) by simp
  then show ?thesis by (simp add: wto_step_def continue_visit_def Let_def)
qed

section \<open>The visit\<close>

lemma visit_list:
  assumes one: "\<And>v b T. v \<in> white g b \<Longrightarrow> card (white g b) \<le> n \<Longrightarrow> visit_pre g H p b \<Longrightarrow>
      \<exists>A b'. runs g (b\<lparr>visit_stack := visit_task p v # T\<rparr>) (b'\<lparr>visit_stack := T\<rparr>) \<and> visited g H p [v] A b b'"
  shows "card (white g b) \<le> n \<Longrightarrow> visit_pre g H p b \<Longrightarrow> set ws \<subseteq> set (cfg_labels g) \<Longrightarrow>
    \<exists>A b'. runs g (b\<lparr>visit_stack := map (visit_task p) ws @ T\<rparr>) (b'\<lparr>visit_stack := T\<rparr>) \<and> visited g H p ws A b b'"
proof (induction ws arbitrary: b)
  case Nil
  then show ?case using visited_nothing[OF Nil(2), of "[]"] by (auto intro: runs_refl)
next
  case (Cons v ws)
  have "\<exists>A b'. runs g (b\<lparr>visit_stack := visit_task p v # map (visit_task p) ws @ T\<rparr>) (b'\<lparr>visit_stack := map (visit_task p) ws @ T\<rparr>) \<and>
      visited g H p [v] A b b'"
  proof (cases "v \<in> white g b")
    case True
    then show ?thesis using one Cons.prems by blast
  next
    case False
    then have "dfn_of b v \<noteq> 0" using Cons.prems(3) by (simp add: white_def)
    then have "runs g (b\<lparr>visit_stack := visit_task p v # map (visit_task p) ws @ T\<rparr>) (b\<lparr>visit_stack := map (visit_task p) ws @ T\<rparr>)"
      by (intro runs_one) (simp_all add: wto_step_skip)
    then show ?thesis using visited_nothing[OF Cons.prems(2), of "[v]"] False by auto
  qed
  then obtain A1 b1 where b1: "runs g (b\<lparr>visit_stack := visit_task p v # map (visit_task p) ws @ T\<rparr>) (b1\<lparr>visit_stack := map (visit_task p) ws @ T\<rparr>)"
    "visited g H p [v] A1 b b1" by blast
  have "card (white g b1) \<le> n"
    using card_mono[OF finite_white progressD(1)[OF visitedD(3)[OF b1(2)]]] Cons.prems(1) by simp
  from Cons.IH[OF this visited_pre[OF Cons.prems(2) b1(2)]] Cons.prems(3) obtain A2 b2 where
    b2: "runs g (b1\<lparr>visit_stack := map (visit_task p) ws @ T\<rparr>) (b2\<lparr>visit_stack := T\<rparr>)" "visited g H p ws A2 b1 b2" by auto
  show ?case using runs_trans[OF b1(1) b2(1)] visited_trans[OF Cons.prems(2) b1(2) b2(2)] by auto
qed

lemma visit_descend:
  assumes pre: "visit_pre g H p b" "v \<in> white g b"
    and ch: "children_of g v = Inr succs" "\<forall>y. edge g v y \<longleftrightarrow> y \<in> set succs" "set succs \<subseteq> set (cfg_labels g)"
    and one: "\<And>w b' T. w \<in> white g b' \<Longrightarrow> card (white g b') < card (white g b) \<Longrightarrow> visit_pre g H p b' \<Longrightarrow>
      \<exists>A b''. runs g (b'\<lparr>visit_stack := visit_task p w # T\<rparr>) (b''\<lparr>visit_stack := T\<rparr>) \<and> visited g H p [w] A b' b''"
  shows "\<exists>A b2. runs g (b\<lparr>visit_stack := visit_task p v # T\<rparr>) (b2\<lparr>visit_stack := start_task p v # T\<rparr>) \<and> descended g H p v succs A b b2"
proof -
  let ?b1 = "entered v b" and ?n = "card (white g b) - 1"
  have "0 < card (white g b)" using pre(2) card_gt_0_iff by fastforce
  moreover have "card (white g ?b1) < card (white g b)"
    unfolding entered_simps(6)[OF visit_preD(1)[OF pre(1)]] by (rule card_Diff1_less[OF finite_white pre(2)])
  ultimately obtain A b2 where
    b2: "runs g (?b1\<lparr>visit_stack := map (visit_task p) (unvisited ?b1 succs) @ start_task p v # T\<rparr>) (b2\<lparr>visit_stack := start_task p v # T\<rparr>)"
      "visited g H p (unvisited ?b1 succs) A ?b1 b2"
    using visit_list[OF one _ entered_pre(1)[OF pre], of ?n "unvisited ?b1 succs" "start_task p v # T"] ch(3) by fastforce
  have "dfn_of b v = 0" using pre(2) by (simp add: white_def)
  then have "runs g (b\<lparr>visit_stack := visit_task p v # T\<rparr>)
      (?b1\<lparr>visit_stack := map (visit_task p) (unvisited ?b1 succs) @ start_task p v # T\<rparr>)"
    using wto_step_enter[OF _ ch(1)] by (intro runs_one) simp_all
  then show ?thesis using runs_trans[OF _ b2(1)] pre ch b2(2) unfolding descended_def by blast
qed

lemma visit_one:
  assumes "cfg_inv g" "v \<in> white g b" "visit_pre g H p b"
  shows "\<exists>A b'. runs g (b\<lparr>visit_stack := visit_task p v # T\<rparr>) (b'\<lparr>visit_stack := T\<rparr>) \<and> visited g H p [v] A b b'"
  using assms(2,3)
proof (induction "card (white g b)" arbitrary: v b H p T rule: less_induct)
  case less
  have vl: "v \<in> set (cfg_labels g)" using less(2) by (simp add: white_def)
  obtain succs where ch: "children_of g v = Inr succs" "\<forall>y. edge g v y \<longleftrightarrow> y \<in> set succs" "set succs \<subseteq> set (cfg_labels g)"
    using cfg_inv_children[OF assms(1) vl] by blast
  obtain A b2 where start: "runs g (b\<lparr>visit_stack := visit_task p v # T\<rparr>) (b2\<lparr>visit_stack := start_task p v # T\<rparr>)"
    and d: "descended g H p v succs A b b2"
    using visit_descend[OF less(3,2) ch less(1), of T] by blast
  have step: "runs g (b\<lparr>visit_stack := visit_task p v # T\<rparr>) b'" if "wto_step g (b2\<lparr>visit_stack := start_task p v # T\<rparr>) = Inr b'" for b'
    by (rule runs_trans[OF start runs_one[OF _ that]]) simp
  note B2 = builder_okD[OF visitedD(1)[OF descendedD(5)[OF d]]] and st = descended_state(1)[OF d]
  obtain h loop where f: "find_head b2 succs (dfn_of b2 v) = (h, loop)" by fastforce
  consider "h \<noteq> dfn_of b2 v" | "h = dfn_of b2 v" "\<not> loop" | "h = dfn_of b2 v" loop by blast
  then show ?case
  proof cases
    case 1
    show ?thesis using step[OF wto_step_stays[OF ch(1) f 1]] visit_stays[OF d f 1] by blast
  next
    case 2
    then have f2: "find_head b2 succs (dfn_of b2 v) = (dfn_of b2 v, False)" using f by simp
    then have "dfs_stack b2 = v # dfs_stack b" using st closing_above(3)[OF d f2] by simp
    from wto_step_label[OF ch(1) f2 this B2(1)] obtain b' where b': "wto_step g (b2\<lparr>visit_stack := start_task p v # T\<rparr>) = Inr (b'\<lparr>visit_stack := T\<rparr>)"
      "om_wf (vertex_data b')" "dfs_stack b' = dfs_stack b" "num b' = num b2"
      "\<And>x. vd b' x = (if x = v then (vd b2 v)\<lparr>dfn := DFN_INF, head_dfn := dfn_of b2 v\<rparr> else vd b2 x)"
      "wto b' = (partition_push p (Label_Ref v) (wto b2))\<lparr>wto_containing := om_emplace v (part_cycle p) (wto_containing (wto b2))\<rparr>"
      by blast
    show ?thesis using step[OF b'(1)] visit_label[OF d f2 b'(2-6)] by blast
  next
    case 3
    let ?i = "length (wto_cycles (wto b2))"
    have f3: "find_head b2 succs (dfn_of b2 v) = (dfn_of b2 v, True)" using f 3 by simp
    obtain b3 where b3: "wto_step g (b2\<lparr>visit_stack := start_task p v # T\<rparr>) =
        Inr (b3\<lparr>visit_stack := map (visit_task (Cycle_Partition ?i)) (unvisited b3 succs) @ continue_task p ?i v # T\<rparr>)" "reopened p v A b b2 b3"
      using wto_step_cycle[OF ch(1) f3 st B2(1) B2(3) refl] by blast
    note U = reopened_pre[OF d b3(2)]
    obtain A4 b4 where b4: "runs g (b3\<lparr>visit_stack := map (visit_task (Cycle_Partition ?i)) (unvisited b3 succs) @ continue_task p ?i v # T\<rparr>)
        (b4\<lparr>visit_stack := continue_task p ?i v # T\<rparr>)" "visited g (insert v H) (Cycle_Partition ?i) (unvisited b3 succs) A4 b3 b4"
      using visit_list[OF less(1) _ U(1), of "card (white g b) - 1" "unvisited b3 succs" "continue_task p ?i v # T"] U(4) ch(3) by fastforce
    have po: "part_ok (Cycle_Partition ?i) (wto b4)" "part_ok p (wto b4)"
    proof -
      note e = emittedD(1)[OF visitedD(6)[OF b4(2)]]
      show "part_ok (Cycle_Partition ?i) (wto b4)" by (rule part_ok_mono[OF visit_preD(4)[OF U(1)] e])
      have "length (wto_cycles (wto b)) \<le> length (wto_cycles (wto b3))"
        using emittedD(1)[OF visitedD(6)[OF descendedD(5)[OF d]]] b3(2) entered_simps(4)[OF visit_preD(1)[OF less(3)], of v] by (simp add: reopened_def)
      then show "part_ok p (wto b4)" using part_ok_mono[OF visit_preD(4)[OF less(3)]] e by simp
    qed
    show ?thesis using runs_trans[OF runs_trans[OF step[OF b3(1)] b4(1)] runs_one[OF _ wto_step_continue[OF po]]]
        visit_cycle[OF d f3 b3(2) refl b4(2) refl] by auto
  qed
qed


section \<open>The whole order\<close>

lemma initial_builder_simps:
  assumes "cfg_inv g"
  shows "vd (initial_builder g) v = no_vertex_data" "om_wf (vertex_data (initial_builder g))"
    "white g (initial_builder g) = set (cfg_labels g)" "finished g (initial_builder g) = {}"
proof -
  have keys: "map fst (vertex_data (initial_builder g)) = map fst g" by (simp add: initial_builder_def cfg_labels_def om_keys_def comp_def)
  show vd: "vd (initial_builder g) v = no_vertex_data" for v
    by (auto simp: vd_def initial_builder_def split: option.splits dest!: map_of_SomeD)
  show "om_wf (vertex_data (initial_builder g))" using assms keys by (simp add: cfg_inv_def om_wf_def)
  show "white g (initial_builder g) = set (cfg_labels g)" "finished g (initial_builder g) = {}"
    by (auto simp: white_def finished_def vd no_vertex_data_def)
qed

lemma initial_pre:
  assumes "cfg_inv g" "int (tri (length (cfg_labels g))) < DFN_INF"
  shows "visit_pre g {} Top_Partition (initial_builder g)"
proof -
  note I = initial_builder_simps[OF assms(1)]
  have st: "num (initial_builder g) = 0" "dfs_stack (initial_builder g) = []" "wto_containing (wto (initial_builder g)) = []"
    by (simp_all add: initial_builder_def)
  have "tri (card (set (cfg_labels g))) \<le> tri (length (cfg_labels g))"
    using tri_add_le[of "card (set (cfg_labels g))" "length (cfg_labels g) - card (set (cfg_labels g))"] card_length[of "cfg_labels g"] by simp
  then have "num (initial_builder g) + int (tri (card (white g (initial_builder g)))) < DFN_INF" using assms(2) st I(3) by simp
  moreover have "builder_ok g (initial_builder g)" unfolding builder_ok_def using I st by (simp add: no_vertex_data_def om_wf_def)
  ultimately show ?thesis using I(4) by (simp add: visit_pre_def closed_except_def part_ok_def)
qed

text \<open>Nothing has an edge into the entry: its visit ends with a label.\<close>

lemma entry_closes:
  assumes d: "descended g H p v succs A b b2" and st: "dfs_stack b = []" and no: "\<And>u. \<not> edge g u v"
  shows "A = []" "find_head b2 succs (dfn_of b2 v) = (dfn_of b2 v, False)"
proof -
  note D = descendedD[OF d] and S = descended_state[OF d]
  note V = visitedD[OF D(5)] and E = entered_simps[OF D(6), of v]
  show A: "A = []"
  proof (rule ccontr)
    assume "A \<noteq> []"
    then obtain w where w: "w \<in> set A" "hd_of b2 w = num b + 1" using lowD(3)[OF V(4)] E(1,3) st by auto
    have "num b + 2 \<le> hd_of b2 w" by (rule lowD(2)[OF V(4) _ _ w(1)]) (use E(2,3) st no in auto)
    then show False using w(2) by simp
  qed
  have inf: "min_dfn (vd b2 s) = DFN_INF" if "s \<in> set succs" for s
    using descended_succ[OF d that] A st no[of v] D(3) that by auto
  obtain h loop where f: "find_head b2 succs (dfn_of b2 v) = (h, loop)" by fastforce
  note F = find_head_spec[OF f]
  have "dfn_of b2 v < DFN_INF" using S(2) entered_pre(2)[OF D(1,2)] by simp
  then have "h = dfn_of b2 v" "\<not> loop" using F(1,3,4) inf by auto
  then show "find_head b2 succs (dfn_of b2 v) = (dfn_of b2 v, False)" using f by simp
qed

text \<open>
  The run for the whole graph: the entry is emitted last, so it comes first, and the labels of the
  order are closed under the edges.
\<close>

lemma build_wto_emitted:
  assumes inv: "cfg_inv g" and entry: "label_entry \<in> set (cfg_labels g)" "\<And>u. \<not> edge g u label_entry"
    and size: "int (tri (length (cfg_labels g))) < DFN_INF"
  shows "\<exists>W L rest. build_wto g = Some (Inr W) \<and> emitted g Top_Partition L (wto (initial_builder g)) W \<and>
    wto_components W = Label_Ref label_entry # rest \<and> (\<forall>u y. u \<in> L \<longrightarrow> edge g u y \<longrightarrow> y \<in> L)"
proof -
  let ?b = "initial_builder g" and ?p = Top_Partition and ?v = label_entry
  note I = initial_builder_simps[OF inv] and pre = initial_pre[OF inv size]
  have stack: "?b = ?b\<lparr>visit_stack := visit_task ?p ?v # []\<rparr>" "dfs_stack ?b = []" by (simp_all add: initial_builder_def part_cycle_def)
  have white: "?v \<in> white g ?b" using I(3) entry(1) by simp
  obtain succs where ch: "children_of g ?v = Inr succs" "\<forall>y. edge g ?v y \<longleftrightarrow> y \<in> set succs" "set succs \<subseteq> set (cfg_labels g)"
    using cfg_inv_children[OF inv entry(1)] by blast
  obtain A b2 where start: "runs g (?b\<lparr>visit_stack := visit_task ?p ?v # []\<rparr>) (b2\<lparr>visit_stack := start_task ?p ?v # []\<rparr>)"
    and d: "descended g {} ?p ?v succs A ?b b2"
    using visit_descend[OF pre white ch visit_one[OF inv]] by blast
  note f = entry_closes[OF d stack(2) entry(2)]
  note V = visitedD[OF descendedD(5)[OF d]]
  have st2: "dfs_stack b2 = ?v # dfs_stack ?b" using descended_state(1)[OF d] f(1) by simp
  obtain b' where b': "wto_step g (b2\<lparr>visit_stack := start_task ?p ?v # []\<rparr>) = Inr (b'\<lparr>visit_stack := []\<rparr>)"
    "om_wf (vertex_data b')" "dfs_stack b' = dfs_stack ?b" "num b' = num b2"
    "\<And>x. vd b' x = (if x = ?v then (vd b2 ?v)\<lparr>dfn := DFN_INF, head_dfn := dfn_of b2 ?v\<rparr> else vd b2 x)"
    "wto b' = (partition_push ?p (Label_Ref ?v) (wto b2))\<lparr>wto_containing := om_emplace ?v (part_cycle ?p) (wto_containing (wto b2))\<rparr>"
    using wto_step_label[OF ch(1) f(2) st2 builder_okD(1)[OF V(1)]] by blast
  have vis: "visited g {} ?p [?v] [] ?b b'" by (rule visit_label[OF d f(2) b'(2-6)])
  have run: "runs g ?b (b'\<lparr>visit_stack := []\<rparr>)" using runs_trans[OF start runs_one[OF _ b'(1)]] stack(1) by simp
  have "build_wto g = Some (Inr (wto b'))" unfolding build_wto_def by (subst runs_while[OF run]) simp_all
  moreover have "emitted g ?p (seen g ?b b') (wto ?b) (wto b')" using visitedD(6)[OF vis] by simp
  moreover have "wto_components (wto b') = Label_Ref ?v # wto_components (wto b2)" unfolding b'(6) by (simp add: partition_push_def)
  moreover have "y \<in> seen g ?b b'" if "u \<in> seen g ?b b'" "edge g u y" for u y
    using visitedD(2)[OF vis] progressD(5)[OF visitedD(3)[OF vis]] I(4) that by (auto simp: closed_except_def)
  ultimately show ?thesis by blast
qed

inductive_simps rep_Label: "rep w lo (Label_Ref l) t"

lemma emitted_wto_valid:
  assumes e: "emitted g Top_Partition L (wto (initial_builder g)) W" and first: "wto_components W = Label_Ref label_entry # rest"
    and closed: "\<And>u y. u \<in> L \<Longrightarrow> edge g u y \<Longrightarrow> y \<in> L"
  shows "wto_valid g (wto_trees W)"
proof -
  have init: "wto_components (wto (initial_builder g)) = []" "wto_cycles (wto (initial_builder g)) = []" by (simp_all add: initial_builder_def)
  obtain xs ts where t: "wto_components W = xs" "list_all2 (rep W 0) xs ts" "all_labels ts = L" "ordered g ts" "list_all (shape_valid g) ts"
    using emittedD(8)[OF e] init by (auto simp: part_def)
  have "list_all2 (\<lambda>x c. component_of (length (wto_cycles W)) W x = c) xs ts"
    by (rule list_all2_mono[OF t(2)]) (auto intro: rep_component_of)
  then have trees: "wto_trees W = ts" by (auto simp: wto_trees_def t(1) list_all2_conv_all_nth intro: nth_equalityI)
  obtain ts' where ts: "ts = Vertex label_entry # ts'" using t(1,2) first by (auto simp: list_all2_Cons1 rep_Label)
  have "label_entry \<notin> set (comp_labels c)" if "c \<in> set ts'" for c using t(4) that by (auto simp: ts list_all_iff)
  then have "list_all (comp_valid g) ts" using t(5) shape_valid_comp by (auto simp: ts list_all_iff edge_list_iff)
  then show ?thesis unfolding trees wto_valid_def using t(3,4) closed by (auto simp: ts list_all_iff edge_list_iff)
qed

text \<open>Following the containing cycles outwards ends: the indices decrease.\<close>

lemma collect_heads_cycle:
  assumes ok: "\<And>j. j < length (wto_cycles w) \<Longrightarrow> cycle_ok L 0 Top_Partition w j"
  shows "j < length (wto_cycles w) \<Longrightarrow> cycle_head (wto_cycles w ! j) = Inr h \<Longrightarrow> containing w h = Some (Some j) \<Longrightarrow> j < n \<Longrightarrow>
    \<exists>hs. collect_heads n w h = Some (Inr hs)"
proof (induction n arbitrary: j h)
  case (Suc n)
  note c = ok[OF Suc.prems(1), unfolded cycle_ok_def knows_cycle_def part_cycle_def]
  show ?case
  proof (cases "cycle_containing (wto_cycles w ! j)")
    case None
    then have "wto_head w h = Inr None" using Suc.prems(2,3) by (simp add: wto_head_def)
    then show ?thesis by simp
  next
    case (Some i)
    then have i: "i < j" using c by auto
    then obtain h' rest' where h': "cycle_components (wto_cycles w ! i) = Label_Ref h' # rest'" "containing w h' = Some (Some i)"
      using ok[of i] Suc.prems(1) by (auto simp: cycle_ok_def)
    then have ch: "cycle_head (wto_cycles w ! i) = Inr h'" by (simp add: cycle_head_def)
    obtain hs where "collect_heads n w h' = Some (Inr hs)" using Suc.IH[of i h'] i Suc.prems(1,4) ch h'(2) by auto
    moreover have "wto_head w h = Inr (Some h')" using Suc.prems(2,3) Some ch by (simp add: wto_head_def)
    ultimately show ?thesis by simp
  qed
qed simp

lemma emitted_nesting:
  assumes e: "emitted g Top_Partition L (wto (initial_builder g)) W"
  shows "\<exists>hs. nesting W l = Some (Inr hs)"
proof -
  have init: "wto_cycles (wto (initial_builder g)) = []" "containing (wto (initial_builder g)) l = None"
    by (simp_all add: initial_builder_def)
  have ok: "cycle_ok L 0 Top_Partition W j" if "j < length (wto_cycles W)" for j using emittedD(7)[OF e, of j] init that by simp
  show ?thesis
  proof (cases "\<exists>c. containing W l = Some (Some c)")
    case False
    then have "wto_head W l = Inr None" by (auto simp: wto_head_def split: option.splits)
    then show ?thesis by (simp add: nesting_def)
  next
    case True
    then obtain c where c: "containing W l = Some (Some c)" by blast
    then have "l \<in> L" using emittedD(5)[OF e, of l] init by auto
    then have cl: "c < length (wto_cycles W)" using emittedD(6)[OF e, of l] c by (auto simp: knows_cycle_def part_cycle_def)
    then obtain h rest where h: "cycle_components (wto_cycles W ! c) = Label_Ref h # rest" "containing W h = Some (Some c)"
      using ok[OF cl] by (auto simp: cycle_ok_def)
    then have ch: "cycle_head (wto_cycles W ! c) = Inr h" by (simp add: cycle_head_def)
    have heads: "\<exists>hs. collect_heads n W h = Some (Inr hs)" if "c < n" for n by (rule collect_heads_cycle[OF ok cl ch h(2) that])
    show ?thesis
    proof (cases "h = l")
      case True
      then show ?thesis using heads[of "Suc (length (wto_cycles W))"] cl by (simp add: nesting_def del: collect_heads.simps)
    next
      case False
      then have "wto_head W l = Inr (Some h)" using c ch by (simp add: wto_head_def)
      then show ?thesis using heads[OF cl] by (auto simp: nesting_def)
    qed
  qed
qed

theorem build_wto_correct:
  assumes "cfg_inv g" "label_entry \<in> set (cfg_labels g)" "\<And>u. \<not> edge g u label_entry" "length (cfg_labels g) \<le> 65535"
  shows "\<exists>W. build_wto g = Some (Inr W) \<and> wto_valid g (wto_trees W) \<and> (\<forall>l. \<exists>hs. nesting W l = Some (Inr hs))"
proof -
  have "2 * tri (length (cfg_labels g)) \<le> 65535 * 65536"
    unfolding tri_eq using assms(4) by (intro mult_le_mono) auto
  then have "int (tri (length (cfg_labels g))) < DFN_INF" by simp
  from build_wto_emitted[OF assms(1,2,3) this] obtain W L rest where
    W: "build_wto g = Some (Inr W)" "emitted g Top_Partition L (wto (initial_builder g)) W" "wto_components W = Label_Ref label_entry # rest"
      "\<forall>u y. u \<in> L \<longrightarrow> edge g u y \<longrightarrow> y \<in> L" by blast
  then show ?thesis using emitted_wto_valid[OF W(2,3)] emitted_nesting[OF W(2)] by blast
qed


lemma program_wto:
  assumes "program_inv P" "length (cfg_labels (m_cfg P)) \<le> 65535"
  shows "\<exists>W. build_wto (m_cfg P) = Some (Inr W) \<and> wto_valid (m_cfg P) (wto_trees W) \<and> (\<forall>l. \<exists>hs. nesting W l = Some (Inr hs))"
  by (rule build_wto_correct) (use assms in \<open>auto simp: program_inv_def\<close>)

end
