(* ===== verification/Cfg_Props.thy ===== *)
theory Cfg_Props
  imports Cfg_Sound Cfg_Blocks Wto_Correct
begin

text \<open>
  Properties of the control-flow graph that \<^verbatim>\<open>Program::from_sequence\<close> builds
  (\<^verbatim>\<open>ir/cfg_builder.cpp\<close>), with programs on which they are evaluated.
\<close>

section \<open>Programs for evaluation\<close>

definition mov_imm :: "Reg \<Rightarrow> u64 \<Rightarrow> Instruction" where
  "mov_imm r v = Bin \<lparr>bin_op = MOV, bin_dst = r, bin_v = Imm v, bin_is64 = True, bin_lddw = False\<rparr>"

definition add_imm :: "Reg \<Rightarrow> u64 \<Rightarrow> Instruction" where
  "add_imm r v = Bin \<lparr>bin_op = ADD, bin_dst = r, bin_v = Imm v, bin_is64 = True, bin_lddw = False\<rparr>"

definition less_imm :: "Reg \<Rightarrow> u64 \<Rightarrow> Condition" where
  "less_imm r v = \<lparr>cond_op = LT, cond_left = r, cond_right = Imm v, cond_is64 = True\<rparr>"

text \<open>\<^verbatim>\<open>0: r0 = 0; 1: r0 += 1; 2: if r0 < 10 goto 1; 3: exit\<close>.\<close>

definition loop_seq :: InstructionSeq where
  "loop_seq =
     [(label_at 0, mov_imm 0 0, None), (label_at 1, add_imm 0 1, None),
      (label_at 2, Jmp (Some (less_imm 0 10)) (label_at 1), None), (label_at 3, Exit '''', None)]"

text \<open>The same loop in a local function: \<^verbatim>\<open>0: call 2; 1: exit; 2: r0 = 0; 3: r0 += 1; 4: if r0 < 10 goto 3; 5: exit\<close>.\<close>

definition call_seq :: InstructionSeq where
  "call_seq =
     [(label_at 0, CallLocal (label_at 2) '''', None), (label_at 1, Exit '''', None),
      (label_at 2, mov_imm 0 0, None), (label_at 3, add_imm 0 1, None),
      (label_at 4, Jmp (Some (less_imm 0 10)) (label_at 3), None), (label_at 5, Exit '''', None)]"


definition some_info :: ProgramInfo where
  "some_info =
     \<lparr>platform = \<lparr>get_helper_prototype = (\<lambda>_. \<lparr>proto_name = '''', return_type = EBPF_RETURN_TYPE_INTEGER,
                    argument_type = [], proto_reallocate_packet = False, proto_unsupported = False\<rparr>),
                  is_helper_usable = (\<lambda>_. False), supports_group = (\<lambda>_. True)\<rparr>,
      is_privileged = False, line_info = []\<rparr>"

definition is_built :: "Program out \<Rightarrow> bool" where
  "is_built r = (case r of Some (Inr _) \<Rightarrow> True | _ \<Rightarrow> False)"

lemma is_builtE: "is_built r \<Longrightarrow> (\<And>p. r = Some (Inr p) \<Longrightarrow> thesis) \<Longrightarrow> thesis"
  by (auto simp: is_built_def split: option.splits sum.splits)

lemma plain_demos: "plain_seq loop_seq" "plain_seq call_seq"
  by code_simp+

lemma built_demos:
  "is_built (instruction_seq_to_cfg loop_seq True)" "is_built (instruction_seq_to_cfg call_seq True)"
  "is_built (from_sequence loop_seq some_info \<lparr>check_for_termination = True, must_have_exit = True\<rparr>)"
  by code_simp+


lemma loop_seq_blocks:
  "case instruction_seq_to_cfg loop_seq True of
      Some (Inr p) \<Rightarrow> (case collect_basic_blocks (m_cfg p) True of
          Inr res \<Rightarrow> om_lookup res (label_at 1) = Some [label_at 1, label_at 2] | _ \<Rightarrow> False)
    | _ \<Rightarrow> False"
  by code_simp

section \<open>Properties\<close>



text \<open>
  C11. After inlining, the only way out of a local call leads to the copy of the called function in
  a stack frame of its own.
\<close>

theorem cfg_call_enters_function:
  assumes "instruction_seq_to_cfg insts me = Some (Inr p)" "plain_seq insts" "(l, CallLocal t s, li) \<in> set insts"
  shows "has_edge p l y \<longleftrightarrow> y = clone_label (label_to_string l) t"
  by (rule seq_to_cfg_cases[OF assms(1,2)]) (use assms(3) in blast)

theorem cfg_call_enters_function_witness:
  "\<exists>p. instruction_seq_to_cfg call_seq True = Some (Inr p) \<and>
     (\<forall>y. has_edge p (label_at 0) y \<longleftrightarrow> y = Label ''0'' 2 (-1) '''')"
proof -
  obtain p where p: "instruction_seq_to_cfg call_seq True = Some (Inr p)" using built_demos(2) by (rule is_builtE)
  have "label_to_string (label_at 0) = ''0''" by code_simp
  then show ?thesis
    using p cfg_call_enters_function[OF p plain_demos(2), of "label_at 0" "label_at 2" "''''" None]
    by (simp add: call_seq_def clone_label_def)
qed

text \<open>
  C6. A program that \<^verbatim>\<open>from_sequence\<close> returns is well formed: its graph is consistent, the entry has
  no predecessor and the exit no successor, exactly the nodes have instructions, and every node
  carries the assertions extracted from its own instruction.
\<close>

theorem from_sequence_wellformed:
  assumes "from_sequence insts info options = Some (Inr p)" "plain_seq insts"
  shows "program_inv p \<and> (\<forall>l \<in> labels_of p. \<exists>ins as. instruction_at p l = Inr ins \<and>
    get_assertions ins info (Some l) = Inr as \<and> assertions_at p l = Inr as)"
proof (rule from_sequence_cases[OF assms])
  fix p0 p1 assume a: "annotate info p1 = Inr p" "program_inv p1"
  note s = annotate_spec[OF a]
  show ?thesis
    using s(1) s(4) by (auto simp: s(2,3) instruction_at_def assertions_at_def split: option.splits) (metis option.inject option.simps(3))+
qed

theorem from_sequence_wellformed_witness:
  "\<exists>p. from_sequence loop_seq some_info \<lparr>check_for_termination = True, must_have_exit = True\<rparr> = Some (Inr p) \<and> program_inv p"
proof -
  obtain p where p: "from_sequence loop_seq some_info \<lparr>check_for_termination = True, must_have_exit = True\<rparr> = Some (Inr p)"
    using built_demos(3) by (rule is_builtE)
  then show ?thesis using from_sequence_wellformed[OF p plain_demos(1)] by blast
qed

text \<open>
  C9. Inlining never exceeds the bound on stack frames: the call depth recorded in a label of the
  graph is at most \<^verbatim>\<open>MAX_CALL_STACK_FRAMES\<close>.
\<close>

theorem call_depth_bounded:
  assumes "instruction_seq_to_cfg insts me = Some (Inr p)" "plain_seq insts" "l \<in> labels_of p"
  shows "1 \<le> call_stack_depth l \<and> call_stack_depth l \<le> MAX_CALL_STACK_FRAMES"
  using seq_to_cfg_depth[OF assms] call_stack_depth_pos[of l] by simp

theorem call_depth_bounded_witness:
  "\<exists>p. instruction_seq_to_cfg call_seq True = Some (Inr p) \<and> Label ''0'' 3 (-1) '''' \<in> labels_of p \<and>
     call_stack_depth (Label ''0'' 3 (-1) '''') \<le> MAX_CALL_STACK_FRAMES"
proof -
  have "case instruction_seq_to_cfg call_seq True of Some (Inr p) \<Rightarrow> Label ''0'' 3 (-1) '''' \<in> labels_of p | _ \<Rightarrow> False"
    by code_simp
  then obtain p where p: "instruction_seq_to_cfg call_seq True = Some (Inr p)" "Label ''0'' 3 (-1) '''' \<in> labels_of p"
    by (auto split: option.splits sum.splits)
  then show ?thesis using call_depth_bounded[OF p(1) plain_demos(2) p(2)] by blast
qed

text \<open>
  C10. Building the graph ends for every decoded program: the walks over function bodies are
  finite, and recursion is cut off by the bound on stack frames at the latest. The whole of
  \<^verbatim>\<open>from_sequence\<close> ends too: with the termination check on it also orders the graph to find its
  loops, and that ends on every graph of at most 65535 nodes.
\<close>

theorem cfg_construction_terminates:
  assumes "plain_seq insts"
    and "\<And>p. check_for_termination options \<Longrightarrow> instruction_seq_to_cfg insts (must_have_exit options) = Some (Inr p) \<Longrightarrow>
      length (cfg_labels (m_cfg p)) \<le> 65535"
  shows "(\<exists>r. instruction_seq_to_cfg insts me = Some r) \<and> (\<exists>r. from_sequence insts info options = Some r)"
proof -
  obtain r where r: "instruction_seq_to_cfg insts (must_have_exit options) = Some r" using seq_to_cfg_terminates[OF assms(1)] by blast
  have "\<exists>r. from_sequence insts info options = Some r"
  proof (cases r)
    case (Inr p)
    then have p: "instruction_seq_to_cfg insts (must_have_exit options) = Some (Inr p)" using r by simp
    have "program_inv p" by (rule seq_to_cfg_cases[OF p assms(1)]) (simp add: inlined_all_def)
    then have "check_for_termination options \<Longrightarrow> \<exists>W. build_wto (m_cfg p) = Some (Inr W)" using program_wto assms(2)[OF _ p] by blast
    then show ?thesis using p by (auto simp: from_sequence_def obind_def split: sum.splits)
  qed (use r in \<open>simp add: from_sequence_def obind_def\<close>)
  then show ?thesis using seq_to_cfg_terminates[OF assms(1)] by blast
qed

theorem cfg_construction_terminates_witness:
  "(\<exists>r. instruction_seq_to_cfg call_seq True = Some r) \<and>
   (\<exists>r. from_sequence call_seq some_info \<lparr>check_for_termination = True, must_have_exit = True\<rparr> = Some r)"
proof (rule cfg_construction_terminates[OF plain_demos(2)])
  fix p assume "instruction_seq_to_cfg call_seq (must_have_exit \<lparr>check_for_termination = True, must_have_exit = True\<rparr>) = Some (Inr p)"
  moreover have "case instruction_seq_to_cfg call_seq True of Some (Inr p) \<Rightarrow> length (cfg_labels (m_cfg p)) \<le> 50 | _ \<Rightarrow> True" by code_simp
  ultimately show "length (cfg_labels (m_cfg p)) \<le> 65535" by simp
qed




text \<open>
  C32. The blocks of \<^verbatim>\<open>collect_basic_blocks\<close> are straight-line code: inside a block every label is the
  only successor of the one before and has no other predecessor, a block has no label twice, and
  no label is in two blocks.
\<close>

theorem basic_blocks_straight:
  assumes "collect_basic_blocks g simplify = Inr res" "cfg_inv g" "om_lookup res k = Some b"
  shows "b \<noteq> [] \<and> hd b = k \<and> distinct b \<and> successively (straight g) b \<and>
    (\<forall>j c. om_lookup res j = Some c \<and> j \<noteq> k \<longrightarrow> set b \<inter> set c = {})"
proof -
  obtain seen where "blocks_ok g seen res" using collect_basic_blocks_ok[OF assms(1,2)] by blast
  then show ?thesis using assms(3) unfolding blocks_ok_def block_ok_def by blast
qed

theorem basic_blocks_straight_witness:
  "\<exists>p res. instruction_seq_to_cfg loop_seq True = Some (Inr p) \<and> collect_basic_blocks (m_cfg p) True = Inr res \<and>
     om_lookup res (label_at 1) = Some [label_at 1, label_at 2] \<and> straight (m_cfg p) (label_at 1) (label_at 2)"
proof -
  obtain p res where p: "instruction_seq_to_cfg loop_seq True = Some (Inr p)" "collect_basic_blocks (m_cfg p) True = Inr res"
      "om_lookup res (label_at 1) = Some [label_at 1, label_at 2]"
    using loop_seq_blocks by (auto split: option.splits sum.splits)
  have "cfg_inv (m_cfg p)"
    by (rule seq_to_cfg_cases[OF p(1) plain_demos(1)]) (simp add: inlined_all_def program_inv_def)
  from basic_blocks_straight[OF p(2) this p(3)] show ?thesis using p by simp
qed


end
