(* ===== verification/Analysis_Props.thy ===== *)
theory Analysis_Props
  imports Register_Interval Cfg_Props
begin

text \<open>
  Properties of the analysis: extraction of assertions (\<^verbatim>\<open>ir/assertions.cpp\<close>), the weak topological
  order (\<^verbatim>\<open>cfg/wto.hpp\<close>) and the fixpoint iterator (\<^verbatim>\<open>fwd_analyzer.cpp\<close>).
\<close>

section \<open>A program for evaluation\<close>

text \<open>\<^verbatim>\<open>0: r0 = 0; 1: r0 += 1; 2: if r0 < 10 goto 1; 3: r1 = 100; 4: r1 /= r0; 5: exit\<close>.\<close>

definition div_seq :: InstructionSeq where
  "div_seq =
     [(label_at 0, mov_imm 0 0, None), (label_at 1, add_imm 0 1, None),
      (label_at 2, Jmp (Some (less_imm 0 10)) (label_at 1), None), (label_at 3, mov_imm 1 100, None),
      (label_at 4, Bin \<lparr>bin_op = UDIV, bin_dst = 1, bin_v = Reg 0, bin_is64 = True, bin_lddw = False\<rparr>, None),
      (label_at 5, Exit '''', None)]"

definition no_options :: prepare_cfg_options where
  "no_options = \<lparr>check_for_termination = False, must_have_exit = True\<rparr>"

definition div_program :: Program where
  "div_program = (case from_sequence div_seq some_info no_options of Some (Inr p) \<Rightarrow> p | _ \<Rightarrow> empty_program)"

lemma div_program_built: "from_sequence div_seq some_info no_options = Some (Inr div_program)"
proof -
  have "is_built (from_sequence div_seq some_info no_options)" by code_simp
  then show ?thesis by (rule is_builtE) (simp add: div_program_def)
qed

lemma plain_div_seq: "plain_seq div_seq" by code_simp

lemma div_program_inv: "program_inv div_program"
proof (rule from_sequence_cases[OF div_program_built plain_div_seq])
  fix p0 p1 assume a: "annotate some_info p1 = Inr div_program" "program_inv p1"
  show ?thesis by (rule annotate_spec(1)[OF a])
qed

interpretation div: built_program div_program
  by unfold_locales (rule div_program_inv)

definition accepted :: "'d AnalysisResult out \<Rightarrow> bool" where
  "accepted r = (case r of Some (Inr r) \<Rightarrow> \<not> res_failed r | _ \<Rightarrow> False)"

lemma div_accepted: "accepted (run_analysis 10 (interval_ops 0) div_program False iv_u64)"
  by code_simp

lemma acceptedE: "accepted r \<Longrightarrow> (\<And>res. r = Some (Inr res) \<Longrightarrow> \<not> res_failed res \<Longrightarrow> thesis) \<Longrightarrow> thesis"
  by (auto simp: accepted_def split: option.splits sum.splits)

lemma div_size: "length (cfg_labels (m_cfg div_program)) \<le> 65535"
proof -
  have "length (cfg_labels (m_cfg div_program)) \<le> 50" by code_simp
  then show ?thesis by simp
qed

definition div_wto :: Wto where
  "div_wto = (case build_wto (m_cfg div_program) of Some (Inr w) \<Rightarrow> w | _ \<Rightarrow> \<lparr>wto_components = [], wto_containing = [], wto_cycles = []\<rparr>)"

lemma div_wto: "build_wto (m_cfg div_program) = Some (Inr div_wto)"
  using program_wto[OF div_program_inv div_size] by (auto simp: div_wto_def)

lemma reachable_first: "has_edge P label_entry l \<Longrightarrow> step label_entry s s \<Longrightarrow> s \<in> S0 \<Longrightarrow> reachable (m_cfg P) step S0 l s"
  by (rule reachable_step[OF reachable_entry])


section \<open>Assertions\<close>

text \<open>
  C13. Every memory access is checked: the assertions of a load or store contain the access with its
  register, offset, width and direction, unless it goes through the frame pointer and stays
  inside the 512 bytes of the frame below it, when nothing needs to be proved.
\<close>

theorem memory_access_checked:
  assumes "get_assertions (Mem m) info (Some l) = Inr as"
  shows "mem_check l m \<in> set as \<or>
    as = [] \<and> basereg (mem_access m) = 10 \<and> 0 \<le> width (mem_access m) \<and>
    (\<forall>k. 0 \<le> k \<and> k < width (mem_access m) \<longrightarrow> deref_offset (mem_access m) + k \<in> {- EBPF_SUBPROGRAM_STACK_SIZE..<0})"
  using assms by (auto simp: assert_mem_cases inside_frame_def)

theorem memory_access_checked_witness:
  "mem_check (label_at 7) \<lparr>mem_access = \<lparr>width = 4, basereg = 1, deref_offset = 8\<rparr>, mem_value = Reg 2, mem_is_load = True\<rparr>
     \<in> set [TypeConstraint 1 pointer, mem_check (label_at 7)
         \<lparr>mem_access = \<lparr>width = 4, basereg = 1, deref_offset = 8\<rparr>, mem_value = Reg 2, mem_is_load = True\<rparr>]"
  using memory_access_checked[of "\<lparr>mem_access = \<lparr>width = 4, basereg = 1, deref_offset = 8\<rparr>, mem_value = Reg 2, mem_is_load = True\<rparr>"
      some_info "label_at 7" "[TypeConstraint 1 pointer, mem_check (label_at 7)
         \<lparr>mem_access = \<lparr>width = 4, basereg = 1, deref_offset = 8\<rparr>, mem_value = Reg 2, mem_is_load = True\<rparr>]"]
  by (simp add: assert_mem_cases inside_frame_def)



section \<open>Fixpoint iteration\<close>

text \<open>
  C1. Soundness of the iterator, for every abstract domain that satisfies the contract
  \<open>sound_analysis\<close>: when an analysis is accepted, every state that an execution reaches at a
  label is in the invariant recorded before it, its successors are in the invariant recorded
  after it, and the state satisfies the assertions of the label (those of loop counters when
  termination is checked).
\<close>

theorem accepted_analysis_sound:
  assumes "sound_analysis D P gamma dwf step holds"
    and "run_analysis fuel D P cft entry_inv = Some (Inr r)" "\<not> res_failed r"
    and "length (cfg_labels (m_cfg P)) \<le> 65535" "build_wto (m_cfg P) = Some (Inr W)"
    and "entry_state D cft (wto_trees W) entry_inv = Inr d" "dwf d"
    and "reachable (m_cfg P) step (gamma d) l s"
  shows "\<exists>p. om_lookup (res_invariants r) l = Some p \<and> s \<in> gamma (inv_pre p) \<and>
    (\<forall>s'. step l s s' \<longrightarrow> s' \<in> gamma (inv_post p)) \<and>
    (\<forall>ins as a. instruction_at P l = Inr ins \<and> assertions_at P l = Inr as \<and> (is_loop_counter ins \<longrightarrow> cft) \<and> a \<in> set as
       \<longrightarrow> holds a l s)"
  using sound_analysis.analysis_sound[OF assms(1-3,5) _ assms(6-8)] program_wto[OF sound_analysis.prog[OF assms(1)] assms(4)] assms(5) by force

theorem accepted_analysis_sound_witness:
  "\<exists>r p. run_analysis 10 (interval_ops 0) div_program False iv_u64 = Some (Inr r) \<and>
     om_lookup (res_invariants r) (label_at 0) = Some p \<and> (\<lambda>_. 7) \<in> reg_gamma 0 (inv_pre p)"
proof -
  obtain r where r: "run_analysis 10 (interval_ops 0) div_program False iv_u64 = Some (Inr r)" "\<not> res_failed r"
    using div_accepted by (rule acceptedE)
  have e: "entry_state (interval_ops 0) False (wto_trees div_wto) iv_u64 = Inr iv_u64" by (simp add: entry_state_def)
  have "has_edge div_program label_entry (label_at 0) \<and> instruction_at div_program label_entry = Inr (Undefined 0)" by code_simp
  then have "reachable (m_cfg div_program) (program_step div_program) (reg_gamma 0 iv_u64) (label_at 0) (\<lambda>_. 7)"
    by (intro reachable_first) (auto simp: program_step_def)
  from accepted_analysis_sound[OF interval_ops_sound[OF div_program_inv] r div_size div_wto e _ this] r(1)
  show ?thesis by auto
qed








section \<open>Order\<close>

text \<open>
  C4. The construction of the weak topological order is correct and ends: for every consistent graph with at most
  65535 nodes and no edge into the entry it returns an order that starts at the entry, contains
  every label that is reached from it once, and in which an edge leads backwards only to the head of a cycle
  around its source; and the nesting of every label can be computed in it. The bound on the size
  keeps the depth-first numbers below the number that marks a finished label.
\<close>

theorem wto_construction_correct:
  assumes "cfg_inv g" "label_entry \<in> set (cfg_labels g)" "\<And>u. \<not> edge g u label_entry" "length (cfg_labels g) \<le> 65535"
  shows "\<exists>W. build_wto g = Some (Inr W) \<and> wto_valid g (wto_trees W) \<and> (\<forall>l. \<exists>hs. nesting W l = Some (Inr hs))"
  by (rule build_wto_correct[OF assms])

theorem wto_construction_correct_witness:
  "wto_valid (m_cfg div_program) (wto_trees div_wto) \<and> (\<exists>hs. nesting div_wto (label_at 2) = Some (Inr hs))"
  using wto_construction_correct[of "m_cfg div_program"] div_wto div_program_inv div_size by (auto simp: program_inv_def)


text \<open>
  The comparison of nestings decides whether one list of loop heads properly extends the other
  outwards: with the heads listed from the innermost loop, whether the second is a proper suffix
  of the first.
\<close>

theorem nesting_comparison: "nesting_gt heads other \<longleftrightarrow> (\<exists>inner. inner \<noteq> [] \<and> heads = inner @ other)"
proof
  assume g: "nesting_gt heads other"
  let ?n = "length heads - length other"
  have len: "length other < length heads" using g by (auto simp: nesting_gt_def Let_def split: if_splits)
  have ix: "heads ! (length heads - 1 - i) = other ! (length other - 1 - i)" if "i < length other" for i
    using g that by (auto simp: nesting_gt_def Let_def list_all_iff split: if_splits)
  have "drop ?n heads = other"
  proof (rule nth_equalityI)
    show "length (drop ?n heads) = length other" using len by simp
    fix i assume i: "i < length (drop ?n heads)"
    then have "length heads - 1 - (length other - 1 - i) = ?n + i" "length other - 1 - (length other - 1 - i) = i"
      using len by auto
    then show "drop ?n heads ! i = other ! i" using ix[of "length other - 1 - i"] i len by simp
  qed
  then show "\<exists>inner. inner \<noteq> [] \<and> heads = inner @ other"
    using len append_take_drop_id[of ?n heads] by (intro exI[of _ "take ?n heads"]) auto
next
  assume "\<exists>inner. inner \<noteq> [] \<and> heads = inner @ other"
  then obtain inner where "inner \<noteq> []" "heads = inner @ other" by blast
  moreover have "(inner @ other) ! (length inner + length other - 1 - i) = other ! (length other - 1 - i)" if "i < length other" for i
  proof -
    have "length inner + length other - 1 - i = length inner + (length other - 1 - i)" using that by simp
    then show ?thesis by (simp only: nth_append_length_plus)
  qed
  ultimately show "nesting_gt heads other" by (simp add: nesting_gt_def Let_def list_all_iff)
qed

text \<open>
  C31. The search for a label in a component, which stops at the first match, decides membership:
  on a well-formed component it never fails and is true exactly on the labels of the component.
\<close>

theorem component_membership:
  assumes "comp_valid g c"
  shows "is_component_member l c = Inr (l \<in> set (comp_labels c))"
  using assms
proof (induction g c rule: comp_valid.induct)
  case (2 g h body)
  have ih: "is_component_member l c = Inr (l \<in> set (comp_labels c))" if "c \<in> set body" for c
    using 2 that by (auto simp: list_all_iff)
  have "foldr (\<lambda>c rest. rbind (is_component_member l c) (\<lambda>m. if m then Inr True else rest)) cs (Inr False) =
      Inr (l \<in> set (concat (map comp_labels cs)))" if "set cs \<subseteq> set body" for cs
    using that by (induction cs) (auto simp: ih)
  then show ?case by auto
qed auto

theorem component_membership_witness:
  "is_component_member (label_at 2) (Cycle [Vertex (label_at 1), Vertex (label_at 2)]) = Inr True"
proof -
  have "comp_valid empty_cfg (Cycle [Vertex (label_at 1), Vertex (label_at 2)])" by code_simp
  from component_membership[OF this, of "label_at 2"] show ?thesis by simp
qed

end
