(* ===== verification/Linux_Prototypes.thy ===== *)
theory Linux_Prototypes
  imports Unmarshal
begin

text \<open>
  The helper prototypes of the Linux platform (\<^verbatim>\<open>linux/gpl/spec_prototypes.cpp\<close>) and the descriptors of
  the context structures (\<^verbatim>\<open>linux/gpl/spec_type_descriptors.hpp\<close>).
  A prototype is a structure with designated initializers: \<open>zero_proto\<close> is the structure in which every member has
  its default, and each prototype updates the members the source names. The argument
  types are an array of five; members that are not listed are \<^verbatim>\<open>EBPF_ARGUMENT_TYPE_DONTCARE\<close>.
\<close>

section \<open>Context descriptors\<close>

record ebpf_context_descriptor_t =
  ctx_size :: int
  ctx_data :: int
  ctx_end :: int
  ctx_meta :: int

text \<open>
  Descriptors are compared by address: there is one global object for each of these names. The
  names \<^verbatim>\<open>g_socket_filter_descr\<close>, \<^verbatim>\<open>g_sched_descr\<close>, \<^verbatim>\<open>g_lwt_xmit_descr\<close>, \<^verbatim>\<open>g_lwt_inout_descr\<close> and
  \<^verbatim>\<open>g_sk_skb_descr\<close> are macros for \<^verbatim>\<open>g_sk_buff\<close>, and \<^verbatim>\<open>g_xdp_descr\<close> for \<^verbatim>\<open>g_xdp_md\<close>.
\<close>

datatype context_ref = g_sk_buff | g_xdp_md | g_sk_msg_md | g_unspec_descr | g_cgroup_dev_descr | g_kprobe_descr
  | g_tracepoint_descr | g_perf_event_descr | g_cgroup_sock_descr | g_sock_ops_descr

abbreviation g_socket_filter_descr :: context_ref where "g_socket_filter_descr \<equiv> g_sk_buff"
abbreviation g_sched_descr :: context_ref where "g_sched_descr \<equiv> g_sk_buff"
abbreviation g_lwt_xmit_descr :: context_ref where "g_lwt_xmit_descr \<equiv> g_sk_buff"
abbreviation g_lwt_inout_descr :: context_ref where "g_lwt_inout_descr \<equiv> g_sk_buff"
abbreviation g_sk_skb_descr :: context_ref where "g_sk_skb_descr \<equiv> g_sk_buff"
abbreviation g_xdp_descr :: context_ref where "g_xdp_descr \<equiv> g_xdp_md"

abbreviation ptregs_size :: int where "ptregs_size \<equiv> (3 + 63 + 8 + 2) * 8"

definition context_descriptor_at :: "context_ref \<Rightarrow> ebpf_context_descriptor_t" where
  "context_descriptor_at p =
     (case p of
        g_sk_buff \<Rightarrow> \<lparr>ctx_size = 36 * 4, ctx_data = 19 * 4, ctx_end = 20 * 4, ctx_meta = 35 * 4\<rparr>
      | g_xdp_md \<Rightarrow> \<lparr>ctx_size = 5 * 4, ctx_data = 0, ctx_end = 1 * 4, ctx_meta = 2 * 4\<rparr>
      | g_sk_msg_md \<Rightarrow> \<lparr>ctx_size = 17 * 4, ctx_data = 0, ctx_end = 1 * 8, ctx_meta = -1\<rparr>
      | g_unspec_descr \<Rightarrow> \<lparr>ctx_size = 0, ctx_data = -1, ctx_end = -1, ctx_meta = -1\<rparr>
      | g_cgroup_dev_descr \<Rightarrow> \<lparr>ctx_size = 3 * 4, ctx_data = -1, ctx_end = -1, ctx_meta = -1\<rparr>
      | g_kprobe_descr \<Rightarrow> \<lparr>ctx_size = ptregs_size, ctx_data = -1, ctx_end = -1, ctx_meta = -1\<rparr>
      | g_tracepoint_descr \<Rightarrow> \<lparr>ctx_size = 2048, ctx_data = -1, ctx_end = -1, ctx_meta = -1\<rparr>
      | g_perf_event_descr \<Rightarrow> \<lparr>ctx_size = 3 * 8 + ptregs_size, ctx_data = -1, ctx_end = -1, ctx_meta = -1\<rparr>
      | g_cgroup_sock_descr \<Rightarrow> \<lparr>ctx_size = 12 * 4, ctx_data = -1, ctx_end = -1, ctx_meta = -1\<rparr>
      | g_sock_ops_descr \<Rightarrow> \<lparr>ctx_size = 42 * 4 + 2 * 8, ctx_data = -1, ctx_end = -1, ctx_meta = -1\<rparr>)"

section \<open>Prototypes\<close>

record helper_prototype = EbpfHelperPrototype +
  context_descriptor :: "context_ref option"

definition zero_proto :: helper_prototype where
  "zero_proto = \<lparr>proto_name = [], return_type = EBPF_RETURN_TYPE_INTEGER, argument_type = replicate 5 EBPF_ARGUMENT_TYPE_DONTCARE,
     proto_reallocate_packet = False, proto_unsupported = False, context_descriptor = None\<rparr>"

definition five_args :: "ebpf_argument_type_t list \<Rightarrow> ebpf_argument_type_t list" where
  "five_args as = as @ replicate (5 - length as) EBPF_ARGUMENT_TYPE_DONTCARE"

text \<open>The types the source defines as macros for other types.\<close>

abbreviation EBPF_RETURN_TYPE_PTR_TO_SOCK_COMMON_OR_NULL :: ebpf_return_type_t where
  "EBPF_RETURN_TYPE_PTR_TO_SOCK_COMMON_OR_NULL \<equiv> EBPF_RETURN_TYPE_UNSUPPORTED"
abbreviation EBPF_RETURN_TYPE_PTR_TO_SOCKET_OR_NULL :: ebpf_return_type_t where
  "EBPF_RETURN_TYPE_PTR_TO_SOCKET_OR_NULL \<equiv> EBPF_RETURN_TYPE_UNSUPPORTED"
abbreviation EBPF_RETURN_TYPE_PTR_TO_TCP_SOCKET_OR_NULL :: ebpf_return_type_t where
  "EBPF_RETURN_TYPE_PTR_TO_TCP_SOCKET_OR_NULL \<equiv> EBPF_RETURN_TYPE_UNSUPPORTED"
abbreviation EBPF_RETURN_TYPE_PTR_TO_ALLOC_MEM_OR_NULL :: ebpf_return_type_t where
  "EBPF_RETURN_TYPE_PTR_TO_ALLOC_MEM_OR_NULL \<equiv> EBPF_RETURN_TYPE_UNSUPPORTED"
abbreviation EBPF_RETURN_TYPE_PTR_TO_BTF_ID_OR_NULL :: ebpf_return_type_t where
  "EBPF_RETURN_TYPE_PTR_TO_BTF_ID_OR_NULL \<equiv> EBPF_RETURN_TYPE_UNSUPPORTED"
abbreviation EBPF_RETURN_TYPE_PTR_TO_MEM_OR_BTF_ID_OR_NULL :: ebpf_return_type_t where
  "EBPF_RETURN_TYPE_PTR_TO_MEM_OR_BTF_ID_OR_NULL \<equiv> EBPF_RETURN_TYPE_UNSUPPORTED"
abbreviation EBPF_RETURN_TYPE_PTR_TO_BTF_ID :: ebpf_return_type_t where
  "EBPF_RETURN_TYPE_PTR_TO_BTF_ID \<equiv> EBPF_RETURN_TYPE_UNSUPPORTED"
abbreviation EBPF_RETURN_TYPE_PTR_TO_MEM_OR_BTF_ID :: ebpf_return_type_t where
  "EBPF_RETURN_TYPE_PTR_TO_MEM_OR_BTF_ID \<equiv> EBPF_RETURN_TYPE_UNSUPPORTED"
abbreviation EBPF_RETURN_TYPE_PTR_TO_MAP_VALUE :: ebpf_return_type_t where
  "EBPF_RETURN_TYPE_PTR_TO_MAP_VALUE \<equiv> EBPF_RETURN_TYPE_PTR_TO_MAP_VALUE_OR_NULL"
abbreviation EBPF_ARGUMENT_TYPE_PTR_TO_BTF_ID_SOCK_COMMON :: ebpf_argument_type_t where
  "EBPF_ARGUMENT_TYPE_PTR_TO_BTF_ID_SOCK_COMMON \<equiv> EBPF_ARGUMENT_TYPE_UNSUPPORTED"
abbreviation EBPF_ARGUMENT_TYPE_PTR_TO_SPIN_LOCK :: ebpf_argument_type_t where
  "EBPF_ARGUMENT_TYPE_PTR_TO_SPIN_LOCK \<equiv> EBPF_ARGUMENT_TYPE_UNSUPPORTED"
abbreviation EBPF_ARGUMENT_TYPE_PTR_TO_SOCK_COMMON :: ebpf_argument_type_t where
  "EBPF_ARGUMENT_TYPE_PTR_TO_SOCK_COMMON \<equiv> EBPF_ARGUMENT_TYPE_UNSUPPORTED"
abbreviation EBPF_ARGUMENT_TYPE_PTR_TO_BTF_ID :: ebpf_argument_type_t where
  "EBPF_ARGUMENT_TYPE_PTR_TO_BTF_ID \<equiv> EBPF_ARGUMENT_TYPE_UNSUPPORTED"
abbreviation EBPF_ARGUMENT_TYPE_PTR_TO_LONG :: ebpf_argument_type_t where
  "EBPF_ARGUMENT_TYPE_PTR_TO_LONG \<equiv> EBPF_ARGUMENT_TYPE_UNSUPPORTED"
abbreviation EBPF_ARGUMENT_TYPE_PTR_TO_INT :: ebpf_argument_type_t where
  "EBPF_ARGUMENT_TYPE_PTR_TO_INT \<equiv> EBPF_ARGUMENT_TYPE_UNSUPPORTED"
abbreviation EBPF_ARGUMENT_TYPE_PTR_TO_CONST_STR :: ebpf_argument_type_t where
  "EBPF_ARGUMENT_TYPE_PTR_TO_CONST_STR \<equiv> EBPF_ARGUMENT_TYPE_UNSUPPORTED"
abbreviation EBPF_ARGUMENT_TYPE_PTR_TO_FUNC :: ebpf_argument_type_t where
  "EBPF_ARGUMENT_TYPE_PTR_TO_FUNC \<equiv> EBPF_ARGUMENT_TYPE_UNSUPPORTED"
abbreviation EBPF_ARGUMENT_TYPE_CONST_ALLOC_SIZE_OR_ZERO :: ebpf_argument_type_t where
  "EBPF_ARGUMENT_TYPE_CONST_ALLOC_SIZE_OR_ZERO \<equiv> EBPF_ARGUMENT_TYPE_UNSUPPORTED"
abbreviation EBPF_ARGUMENT_TYPE_PTR_TO_ALLOC_MEM :: ebpf_argument_type_t where
  "EBPF_ARGUMENT_TYPE_PTR_TO_ALLOC_MEM \<equiv> EBPF_ARGUMENT_TYPE_UNSUPPORTED"
abbreviation EBPF_ARGUMENT_TYPE_PTR_TO_MAP_VALUE_OR_NULL :: ebpf_argument_type_t where
  "EBPF_ARGUMENT_TYPE_PTR_TO_MAP_VALUE_OR_NULL \<equiv> EBPF_ARGUMENT_TYPE_PTR_TO_MAP_VALUE"
abbreviation EBPF_ARGUMENT_TYPE_PTR_TO_TIMER :: ebpf_argument_type_t where
  "EBPF_ARGUMENT_TYPE_PTR_TO_TIMER \<equiv> EBPF_ARGUMENT_TYPE_UNSUPPORTED"
abbreviation EBPF_ARGUMENT_TYPE_PTR_TO_PERCPU_BTF_ID :: ebpf_argument_type_t where
  "EBPF_ARGUMENT_TYPE_PTR_TO_PERCPU_BTF_ID \<equiv> EBPF_ARGUMENT_TYPE_UNSUPPORTED"
abbreviation EBPF_ARGUMENT_TYPE_PTR_TO_READONLY_MEM :: ebpf_argument_type_t where
  "EBPF_ARGUMENT_TYPE_PTR_TO_READONLY_MEM \<equiv> EBPF_ARGUMENT_TYPE_PTR_TO_READABLE_MEM"
abbreviation EBPF_ARGUMENT_TYPE_PTR_TO_READONLY_MEM_OR_NULL :: ebpf_argument_type_t where
  "EBPF_ARGUMENT_TYPE_PTR_TO_READONLY_MEM_OR_NULL \<equiv> EBPF_ARGUMENT_TYPE_PTR_TO_READABLE_MEM_OR_NULL"
abbreviation EBPF_ARGUMENT_TYPE_PTR_TO_UNINIT_MAP_VALUE :: ebpf_argument_type_t where
  "EBPF_ARGUMENT_TYPE_PTR_TO_UNINIT_MAP_VALUE \<equiv> EBPF_ARGUMENT_TYPE_PTR_TO_MAP_VALUE"
abbreviation EBPF_ARGUMENT_TYPE_CONST_PTR_TO_MAP :: ebpf_argument_type_t where
  "EBPF_ARGUMENT_TYPE_CONST_PTR_TO_MAP \<equiv> EBPF_ARGUMENT_TYPE_PTR_TO_MAP"

definition bpf_unspec_proto :: helper_prototype where
  "bpf_unspec_proto = zero_proto\<lparr>proto_name := ''unspec'',
     return_type := EBPF_RETURN_TYPE_UNSUPPORTED\<rparr>"

definition bpf_tail_call_proto :: helper_prototype where
  "bpf_tail_call_proto = zero_proto\<lparr>proto_name := ''tail_call'',
     return_type := EBPF_RETURN_TYPE_INTEGER_OR_NO_RETURN_IF_SUCCEED,
     argument_type := five_args [EBPF_ARGUMENT_TYPE_PTR_TO_CTX, EBPF_ARGUMENT_TYPE_PTR_TO_MAP_OF_PROGRAMS, EBPF_ARGUMENT_TYPE_ANYTHING]\<rparr>"

definition bpf_override_return_proto :: helper_prototype where
  "bpf_override_return_proto = zero_proto\<lparr>proto_name := ''override_return'',
     return_type := EBPF_RETURN_TYPE_INTEGER,
     argument_type := five_args [EBPF_ARGUMENT_TYPE_PTR_TO_CTX, EBPF_ARGUMENT_TYPE_ANYTHING]\<rparr>"

definition bpf_probe_read_proto :: helper_prototype where
  "bpf_probe_read_proto = zero_proto\<lparr>proto_name := ''probe_read'',
     return_type := EBPF_RETURN_TYPE_INTEGER,
     argument_type := five_args [EBPF_ARGUMENT_TYPE_PTR_TO_WRITABLE_MEM, EBPF_ARGUMENT_TYPE_CONST_SIZE_OR_ZERO, EBPF_ARGUMENT_TYPE_ANYTHING]\<rparr>"

definition bpf_probe_read_str_proto :: helper_prototype where
  "bpf_probe_read_str_proto = zero_proto\<lparr>proto_name := ''probe_read_str'',
     return_type := EBPF_RETURN_TYPE_INTEGER,
     argument_type := five_args [EBPF_ARGUMENT_TYPE_PTR_TO_WRITABLE_MEM, EBPF_ARGUMENT_TYPE_CONST_SIZE_OR_ZERO, EBPF_ARGUMENT_TYPE_ANYTHING]\<rparr>"

definition bpf_probe_write_user_proto :: helper_prototype where
  "bpf_probe_write_user_proto = zero_proto\<lparr>proto_name := ''probe_write_user'',
     return_type := EBPF_RETURN_TYPE_INTEGER,
     argument_type := five_args [EBPF_ARGUMENT_TYPE_ANYTHING, EBPF_ARGUMENT_TYPE_PTR_TO_READABLE_MEM, EBPF_ARGUMENT_TYPE_CONST_SIZE]\<rparr>"

definition bpf_trace_printk_proto :: helper_prototype where
  "bpf_trace_printk_proto = zero_proto\<lparr>proto_name := ''trace_printk'',
     return_type := EBPF_RETURN_TYPE_INTEGER,
     argument_type := five_args [EBPF_ARGUMENT_TYPE_PTR_TO_READABLE_MEM, EBPF_ARGUMENT_TYPE_CONST_SIZE]\<rparr>"

definition bpf_perf_event_read_proto :: helper_prototype where
  "bpf_perf_event_read_proto = zero_proto\<lparr>proto_name := ''perf_event_read'',
     return_type := EBPF_RETURN_TYPE_INTEGER,
     argument_type := five_args [EBPF_ARGUMENT_TYPE_PTR_TO_MAP, EBPF_ARGUMENT_TYPE_ANYTHING]\<rparr>"

definition bpf_perf_event_read_value_proto :: helper_prototype where
  "bpf_perf_event_read_value_proto = zero_proto\<lparr>proto_name := ''perf_event_read_value'',
     return_type := EBPF_RETURN_TYPE_INTEGER,
     argument_type := five_args [EBPF_ARGUMENT_TYPE_PTR_TO_MAP, EBPF_ARGUMENT_TYPE_ANYTHING, EBPF_ARGUMENT_TYPE_PTR_TO_WRITABLE_MEM, EBPF_ARGUMENT_TYPE_CONST_SIZE]\<rparr>"

definition bpf_perf_event_output_proto :: helper_prototype where
  "bpf_perf_event_output_proto = zero_proto\<lparr>proto_name := ''perf_event_output'',
     return_type := EBPF_RETURN_TYPE_INTEGER,
     argument_type := five_args [EBPF_ARGUMENT_TYPE_PTR_TO_CTX, EBPF_ARGUMENT_TYPE_PTR_TO_MAP, EBPF_ARGUMENT_TYPE_ANYTHING, EBPF_ARGUMENT_TYPE_PTR_TO_READABLE_MEM, EBPF_ARGUMENT_TYPE_CONST_SIZE_OR_ZERO]\<rparr>"

definition bpf_get_current_task_proto :: helper_prototype where
  "bpf_get_current_task_proto = zero_proto\<lparr>proto_name := ''get_current_task'',
     return_type := EBPF_RETURN_TYPE_INTEGER\<rparr>"

definition bpf_current_task_under_cgroup_proto :: helper_prototype where
  "bpf_current_task_under_cgroup_proto = zero_proto\<lparr>proto_name := ''current_task_under_cgroup'',
     return_type := EBPF_RETURN_TYPE_INTEGER,
     argument_type := five_args [EBPF_ARGUMENT_TYPE_PTR_TO_MAP, EBPF_ARGUMENT_TYPE_ANYTHING]\<rparr>"

definition bpf_perf_prog_read_value_proto :: helper_prototype where
  "bpf_perf_prog_read_value_proto = zero_proto\<lparr>proto_name := ''perf_prog_read_value'',
     return_type := EBPF_RETURN_TYPE_INTEGER,
     argument_type := five_args [EBPF_ARGUMENT_TYPE_PTR_TO_CTX, EBPF_ARGUMENT_TYPE_PTR_TO_WRITABLE_MEM, EBPF_ARGUMENT_TYPE_CONST_SIZE],
     context_descriptor := Some g_perf_event_descr\<rparr>"

definition bpf_map_lookup_elem_proto :: helper_prototype where
  "bpf_map_lookup_elem_proto = zero_proto\<lparr>proto_name := ''map_lookup_elem'',
     return_type := EBPF_RETURN_TYPE_PTR_TO_MAP_VALUE_OR_NULL,
     argument_type := five_args [EBPF_ARGUMENT_TYPE_PTR_TO_MAP, EBPF_ARGUMENT_TYPE_PTR_TO_MAP_KEY, EBPF_ARGUMENT_TYPE_DONTCARE, EBPF_ARGUMENT_TYPE_DONTCARE, EBPF_ARGUMENT_TYPE_DONTCARE]\<rparr>"

definition bpf_map_update_elem_proto :: helper_prototype where
  "bpf_map_update_elem_proto = zero_proto\<lparr>proto_name := ''map_update_elem'',
     return_type := EBPF_RETURN_TYPE_INTEGER,
     argument_type := five_args [EBPF_ARGUMENT_TYPE_PTR_TO_MAP, EBPF_ARGUMENT_TYPE_PTR_TO_MAP_KEY, EBPF_ARGUMENT_TYPE_PTR_TO_MAP_VALUE, EBPF_ARGUMENT_TYPE_ANYTHING, EBPF_ARGUMENT_TYPE_DONTCARE]\<rparr>"

definition bpf_map_delete_elem_proto :: helper_prototype where
  "bpf_map_delete_elem_proto = zero_proto\<lparr>proto_name := ''map_delete_elem'',
     return_type := EBPF_RETURN_TYPE_INTEGER,
     argument_type := five_args [EBPF_ARGUMENT_TYPE_PTR_TO_MAP, EBPF_ARGUMENT_TYPE_PTR_TO_MAP_KEY, EBPF_ARGUMENT_TYPE_DONTCARE, EBPF_ARGUMENT_TYPE_DONTCARE, EBPF_ARGUMENT_TYPE_DONTCARE]\<rparr>"

definition bpf_get_prandom_u32_proto :: helper_prototype where
  "bpf_get_prandom_u32_proto = zero_proto\<lparr>proto_name := ''get_prandom_u32'',
     return_type := EBPF_RETURN_TYPE_INTEGER\<rparr>"

definition bpf_get_smp_processor_id_proto :: helper_prototype where
  "bpf_get_smp_processor_id_proto = zero_proto\<lparr>proto_name := ''get_smp_processor_id'',
     return_type := EBPF_RETURN_TYPE_INTEGER\<rparr>"

definition bpf_get_numa_node_id_proto :: helper_prototype where
  "bpf_get_numa_node_id_proto = zero_proto\<lparr>proto_name := ''get_numa_node_id'',
     return_type := EBPF_RETURN_TYPE_INTEGER\<rparr>"

definition bpf_ktime_get_ns_proto :: helper_prototype where
  "bpf_ktime_get_ns_proto = zero_proto\<lparr>proto_name := ''ktime_get_ns'',
     return_type := EBPF_RETURN_TYPE_INTEGER\<rparr>"

definition bpf_get_current_pid_tgid_proto :: helper_prototype where
  "bpf_get_current_pid_tgid_proto = zero_proto\<lparr>proto_name := ''get_current_pid_tgid'',
     return_type := EBPF_RETURN_TYPE_INTEGER\<rparr>"

definition bpf_get_current_uid_gid_proto :: helper_prototype where
  "bpf_get_current_uid_gid_proto = zero_proto\<lparr>proto_name := ''get_current_uid_gid'',
     return_type := EBPF_RETURN_TYPE_INTEGER\<rparr>"

definition bpf_get_current_comm_proto :: helper_prototype where
  "bpf_get_current_comm_proto = zero_proto\<lparr>proto_name := ''get_current_comm'',
     return_type := EBPF_RETURN_TYPE_INTEGER,
     argument_type := five_args [EBPF_ARGUMENT_TYPE_PTR_TO_WRITABLE_MEM, EBPF_ARGUMENT_TYPE_CONST_SIZE]\<rparr>"

definition bpf_get_current_cgroup_id_proto :: helper_prototype where
  "bpf_get_current_cgroup_id_proto = zero_proto\<lparr>proto_name := ''get_current_cgroup_id'',
     return_type := EBPF_RETURN_TYPE_INTEGER\<rparr>"

definition bpf_sock_map_update_proto :: helper_prototype where
  "bpf_sock_map_update_proto = zero_proto\<lparr>proto_name := ''sock_map_update'',
     return_type := EBPF_RETURN_TYPE_INTEGER,
     argument_type := five_args [EBPF_ARGUMENT_TYPE_PTR_TO_CTX, EBPF_ARGUMENT_TYPE_PTR_TO_MAP, EBPF_ARGUMENT_TYPE_PTR_TO_MAP_KEY, EBPF_ARGUMENT_TYPE_ANYTHING, EBPF_ARGUMENT_TYPE_DONTCARE],
     context_descriptor := Some g_sock_ops_descr\<rparr>"

definition bpf_sock_hash_update_proto :: helper_prototype where
  "bpf_sock_hash_update_proto = zero_proto\<lparr>proto_name := ''sock_hash_update'',
     return_type := EBPF_RETURN_TYPE_INTEGER,
     argument_type := five_args [EBPF_ARGUMENT_TYPE_PTR_TO_CTX, EBPF_ARGUMENT_TYPE_PTR_TO_MAP, EBPF_ARGUMENT_TYPE_PTR_TO_MAP_KEY, EBPF_ARGUMENT_TYPE_ANYTHING, EBPF_ARGUMENT_TYPE_DONTCARE],
     context_descriptor := Some g_sock_ops_descr\<rparr>"

definition bpf_get_stackid_proto :: helper_prototype where
  "bpf_get_stackid_proto = zero_proto\<lparr>proto_name := ''get_stackid'',
     return_type := EBPF_RETURN_TYPE_INTEGER,
     argument_type := five_args [EBPF_ARGUMENT_TYPE_PTR_TO_CTX, EBPF_ARGUMENT_TYPE_PTR_TO_MAP, EBPF_ARGUMENT_TYPE_ANYTHING]\<rparr>"

definition bpf_get_stack_proto :: helper_prototype where
  "bpf_get_stack_proto = zero_proto\<lparr>proto_name := ''get_stack'',
     return_type := EBPF_RETURN_TYPE_INTEGER,
     argument_type := five_args [EBPF_ARGUMENT_TYPE_PTR_TO_CTX, EBPF_ARGUMENT_TYPE_PTR_TO_WRITABLE_MEM, EBPF_ARGUMENT_TYPE_CONST_SIZE_OR_ZERO, EBPF_ARGUMENT_TYPE_ANYTHING]\<rparr>"

definition bpf_skb_store_bytes_proto :: helper_prototype where
  "bpf_skb_store_bytes_proto = zero_proto\<lparr>proto_name := ''skb_store_bytes'',
     return_type := EBPF_RETURN_TYPE_INTEGER,
     argument_type := five_args [EBPF_ARGUMENT_TYPE_PTR_TO_CTX, EBPF_ARGUMENT_TYPE_ANYTHING, EBPF_ARGUMENT_TYPE_PTR_TO_READABLE_MEM, EBPF_ARGUMENT_TYPE_CONST_SIZE, EBPF_ARGUMENT_TYPE_ANYTHING],
     context_descriptor := Some g_sk_buff\<rparr>"

definition bpf_skb_load_bytes_proto :: helper_prototype where
  "bpf_skb_load_bytes_proto = zero_proto\<lparr>proto_name := ''skb_load_bytes'',
     return_type := EBPF_RETURN_TYPE_INTEGER,
     argument_type := five_args [EBPF_ARGUMENT_TYPE_PTR_TO_CTX, EBPF_ARGUMENT_TYPE_ANYTHING, EBPF_ARGUMENT_TYPE_PTR_TO_WRITABLE_MEM, EBPF_ARGUMENT_TYPE_CONST_SIZE],
     context_descriptor := Some g_sk_buff\<rparr>"

definition bpf_skb_load_bytes_relative_proto :: helper_prototype where
  "bpf_skb_load_bytes_relative_proto = zero_proto\<lparr>proto_name := ''skb_load_bytes_relative'',
     return_type := EBPF_RETURN_TYPE_INTEGER,
     argument_type := five_args [EBPF_ARGUMENT_TYPE_PTR_TO_CTX, EBPF_ARGUMENT_TYPE_ANYTHING, EBPF_ARGUMENT_TYPE_PTR_TO_WRITABLE_MEM, EBPF_ARGUMENT_TYPE_CONST_SIZE, EBPF_ARGUMENT_TYPE_ANYTHING],
     context_descriptor := Some g_sk_buff\<rparr>"

definition bpf_skb_pull_data_proto :: helper_prototype where
  "bpf_skb_pull_data_proto = zero_proto\<lparr>proto_name := ''skb_pull_data'',
     return_type := EBPF_RETURN_TYPE_INTEGER,
     argument_type := five_args [EBPF_ARGUMENT_TYPE_PTR_TO_CTX, EBPF_ARGUMENT_TYPE_ANYTHING],
     context_descriptor := Some g_sk_buff\<rparr>"

definition bpf_l3_csum_replace_proto :: helper_prototype where
  "bpf_l3_csum_replace_proto = zero_proto\<lparr>proto_name := ''l3_csum_replace'',
     return_type := EBPF_RETURN_TYPE_INTEGER,
     argument_type := five_args [EBPF_ARGUMENT_TYPE_PTR_TO_CTX, EBPF_ARGUMENT_TYPE_ANYTHING, EBPF_ARGUMENT_TYPE_ANYTHING, EBPF_ARGUMENT_TYPE_ANYTHING, EBPF_ARGUMENT_TYPE_ANYTHING],
     context_descriptor := Some g_sk_buff\<rparr>"

definition bpf_l4_csum_replace_proto :: helper_prototype where
  "bpf_l4_csum_replace_proto = zero_proto\<lparr>proto_name := ''l4_csum_replace'',
     return_type := EBPF_RETURN_TYPE_INTEGER,
     argument_type := five_args [EBPF_ARGUMENT_TYPE_PTR_TO_CTX, EBPF_ARGUMENT_TYPE_ANYTHING, EBPF_ARGUMENT_TYPE_ANYTHING, EBPF_ARGUMENT_TYPE_ANYTHING, EBPF_ARGUMENT_TYPE_ANYTHING],
     context_descriptor := Some g_sk_buff\<rparr>"

definition bpf_csum_diff_proto :: helper_prototype where
  "bpf_csum_diff_proto = zero_proto\<lparr>proto_name := ''csum_diff'',
     return_type := EBPF_RETURN_TYPE_INTEGER,
     argument_type := five_args [EBPF_ARGUMENT_TYPE_PTR_TO_READABLE_MEM_OR_NULL, EBPF_ARGUMENT_TYPE_CONST_SIZE_OR_ZERO, EBPF_ARGUMENT_TYPE_PTR_TO_READABLE_MEM_OR_NULL, EBPF_ARGUMENT_TYPE_CONST_SIZE_OR_ZERO, EBPF_ARGUMENT_TYPE_ANYTHING]\<rparr>"

definition bpf_csum_update_proto :: helper_prototype where
  "bpf_csum_update_proto = zero_proto\<lparr>proto_name := ''csum_update'',
     return_type := EBPF_RETURN_TYPE_INTEGER,
     argument_type := five_args [EBPF_ARGUMENT_TYPE_PTR_TO_CTX, EBPF_ARGUMENT_TYPE_ANYTHING],
     context_descriptor := Some g_sk_buff\<rparr>"

definition bpf_clone_redirect_proto :: helper_prototype where
  "bpf_clone_redirect_proto = zero_proto\<lparr>proto_name := ''clone_redirect'',
     return_type := EBPF_RETURN_TYPE_INTEGER,
     argument_type := five_args [EBPF_ARGUMENT_TYPE_PTR_TO_CTX, EBPF_ARGUMENT_TYPE_ANYTHING, EBPF_ARGUMENT_TYPE_ANYTHING],
     context_descriptor := Some g_sk_buff\<rparr>"

definition bpf_redirect_proto :: helper_prototype where
  "bpf_redirect_proto = zero_proto\<lparr>proto_name := ''redirect'',
     return_type := EBPF_RETURN_TYPE_INTEGER,
     argument_type := five_args [EBPF_ARGUMENT_TYPE_ANYTHING, EBPF_ARGUMENT_TYPE_ANYTHING]\<rparr>"

definition bpf_sk_redirect_hash_proto :: helper_prototype where
  "bpf_sk_redirect_hash_proto = zero_proto\<lparr>proto_name := ''sk_redirect_hash'',
     return_type := EBPF_RETURN_TYPE_INTEGER,
     argument_type := five_args [EBPF_ARGUMENT_TYPE_PTR_TO_CTX, EBPF_ARGUMENT_TYPE_PTR_TO_MAP, EBPF_ARGUMENT_TYPE_PTR_TO_MAP_KEY, EBPF_ARGUMENT_TYPE_ANYTHING],
     context_descriptor := Some g_sk_buff\<rparr>"

definition bpf_sk_redirect_map_proto :: helper_prototype where
  "bpf_sk_redirect_map_proto = zero_proto\<lparr>proto_name := ''sk_redirect_map'',
     return_type := EBPF_RETURN_TYPE_INTEGER,
     argument_type := five_args [EBPF_ARGUMENT_TYPE_PTR_TO_CTX, EBPF_ARGUMENT_TYPE_PTR_TO_MAP, EBPF_ARGUMENT_TYPE_ANYTHING, EBPF_ARGUMENT_TYPE_ANYTHING],
     context_descriptor := Some g_sk_buff\<rparr>"

definition bpf_msg_redirect_hash_proto :: helper_prototype where
  "bpf_msg_redirect_hash_proto = zero_proto\<lparr>proto_name := ''msg_redirect_hash'',
     return_type := EBPF_RETURN_TYPE_INTEGER,
     argument_type := five_args [EBPF_ARGUMENT_TYPE_PTR_TO_CTX, EBPF_ARGUMENT_TYPE_PTR_TO_MAP, EBPF_ARGUMENT_TYPE_PTR_TO_MAP_KEY, EBPF_ARGUMENT_TYPE_ANYTHING],
     context_descriptor := Some g_sk_msg_md\<rparr>"

definition bpf_msg_redirect_map_proto :: helper_prototype where
  "bpf_msg_redirect_map_proto = zero_proto\<lparr>proto_name := ''msg_redirect_map'',
     return_type := EBPF_RETURN_TYPE_INTEGER,
     argument_type := five_args [EBPF_ARGUMENT_TYPE_PTR_TO_CTX, EBPF_ARGUMENT_TYPE_PTR_TO_MAP, EBPF_ARGUMENT_TYPE_ANYTHING, EBPF_ARGUMENT_TYPE_ANYTHING],
     context_descriptor := Some g_sk_msg_md\<rparr>"

definition bpf_msg_apply_bytes_proto :: helper_prototype where
  "bpf_msg_apply_bytes_proto = zero_proto\<lparr>proto_name := ''msg_apply_bytes'',
     return_type := EBPF_RETURN_TYPE_INTEGER,
     argument_type := five_args [EBPF_ARGUMENT_TYPE_PTR_TO_CTX, EBPF_ARGUMENT_TYPE_ANYTHING],
     context_descriptor := Some g_sk_msg_md\<rparr>"

definition bpf_msg_cork_bytes_proto :: helper_prototype where
  "bpf_msg_cork_bytes_proto = zero_proto\<lparr>proto_name := ''msg_cork_bytes'',
     return_type := EBPF_RETURN_TYPE_INTEGER,
     argument_type := five_args [EBPF_ARGUMENT_TYPE_PTR_TO_CTX, EBPF_ARGUMENT_TYPE_ANYTHING],
     context_descriptor := Some g_sk_msg_md\<rparr>"

definition bpf_msg_pull_data_proto :: helper_prototype where
  "bpf_msg_pull_data_proto = zero_proto\<lparr>proto_name := ''msg_pull_data'',
     return_type := EBPF_RETURN_TYPE_INTEGER,
     argument_type := five_args [EBPF_ARGUMENT_TYPE_PTR_TO_CTX, EBPF_ARGUMENT_TYPE_ANYTHING, EBPF_ARGUMENT_TYPE_ANYTHING, EBPF_ARGUMENT_TYPE_ANYTHING],
     context_descriptor := Some g_sk_msg_md\<rparr>"

definition bpf_get_cgroup_classid_proto :: helper_prototype where
  "bpf_get_cgroup_classid_proto = zero_proto\<lparr>proto_name := ''get_cgroup_classid'',
     return_type := EBPF_RETURN_TYPE_INTEGER,
     argument_type := five_args [EBPF_ARGUMENT_TYPE_PTR_TO_CTX],
     context_descriptor := Some g_sk_buff\<rparr>"

definition bpf_get_route_realm_proto :: helper_prototype where
  "bpf_get_route_realm_proto = zero_proto\<lparr>proto_name := ''get_route_realm'',
     return_type := EBPF_RETURN_TYPE_INTEGER,
     argument_type := five_args [EBPF_ARGUMENT_TYPE_PTR_TO_CTX],
     context_descriptor := Some g_sk_buff\<rparr>"

definition bpf_get_hash_recalc_proto :: helper_prototype where
  "bpf_get_hash_recalc_proto = zero_proto\<lparr>proto_name := ''get_hash_recalc'',
     return_type := EBPF_RETURN_TYPE_INTEGER,
     argument_type := five_args [EBPF_ARGUMENT_TYPE_PTR_TO_CTX],
     context_descriptor := Some g_sk_buff\<rparr>"

definition bpf_set_hash_invalid_proto :: helper_prototype where
  "bpf_set_hash_invalid_proto = zero_proto\<lparr>proto_name := ''set_hash_invalid'',
     return_type := EBPF_RETURN_TYPE_INTEGER,
     argument_type := five_args [EBPF_ARGUMENT_TYPE_PTR_TO_CTX],
     context_descriptor := Some g_sk_buff\<rparr>"

definition bpf_set_hash_proto :: helper_prototype where
  "bpf_set_hash_proto = zero_proto\<lparr>proto_name := ''set_hash'',
     return_type := EBPF_RETURN_TYPE_INTEGER,
     argument_type := five_args [EBPF_ARGUMENT_TYPE_PTR_TO_CTX, EBPF_ARGUMENT_TYPE_ANYTHING],
     context_descriptor := Some g_sk_buff\<rparr>"

definition bpf_skb_vlan_push_proto :: helper_prototype where
  "bpf_skb_vlan_push_proto = zero_proto\<lparr>proto_name := ''skb_vlan_push'',
     return_type := EBPF_RETURN_TYPE_INTEGER,
     argument_type := five_args [EBPF_ARGUMENT_TYPE_PTR_TO_CTX, EBPF_ARGUMENT_TYPE_ANYTHING, EBPF_ARGUMENT_TYPE_ANYTHING],
     context_descriptor := Some g_sk_buff\<rparr>"

definition bpf_skb_vlan_pop_proto :: helper_prototype where
  "bpf_skb_vlan_pop_proto = zero_proto\<lparr>proto_name := ''skb_vlan_pop'',
     return_type := EBPF_RETURN_TYPE_INTEGER,
     argument_type := five_args [EBPF_ARGUMENT_TYPE_PTR_TO_CTX],
     context_descriptor := Some g_sk_buff\<rparr>"

definition bpf_skb_change_proto_proto :: helper_prototype where
  "bpf_skb_change_proto_proto = zero_proto\<lparr>proto_name := ''skb_change_proto'',
     return_type := EBPF_RETURN_TYPE_INTEGER,
     argument_type := five_args [EBPF_ARGUMENT_TYPE_PTR_TO_CTX, EBPF_ARGUMENT_TYPE_ANYTHING, EBPF_ARGUMENT_TYPE_ANYTHING],
     context_descriptor := Some g_sk_buff\<rparr>"

definition bpf_skb_change_type_proto :: helper_prototype where
  "bpf_skb_change_type_proto = zero_proto\<lparr>proto_name := ''skb_change_type'',
     return_type := EBPF_RETURN_TYPE_INTEGER,
     argument_type := five_args [EBPF_ARGUMENT_TYPE_PTR_TO_CTX, EBPF_ARGUMENT_TYPE_ANYTHING],
     context_descriptor := Some g_sk_buff\<rparr>"

definition bpf_skb_adjust_room_proto :: helper_prototype where
  "bpf_skb_adjust_room_proto = zero_proto\<lparr>proto_name := ''skb_adjust_room'',
     return_type := EBPF_RETURN_TYPE_INTEGER,
     argument_type := five_args [EBPF_ARGUMENT_TYPE_PTR_TO_CTX, EBPF_ARGUMENT_TYPE_ANYTHING, EBPF_ARGUMENT_TYPE_ANYTHING, EBPF_ARGUMENT_TYPE_ANYTHING],
     proto_reallocate_packet := True,
     context_descriptor := Some g_sk_buff\<rparr>"

definition bpf_skb_change_tail_proto :: helper_prototype where
  "bpf_skb_change_tail_proto = zero_proto\<lparr>proto_name := ''skb_change_tail'',
     return_type := EBPF_RETURN_TYPE_INTEGER,
     argument_type := five_args [EBPF_ARGUMENT_TYPE_PTR_TO_CTX, EBPF_ARGUMENT_TYPE_ANYTHING, EBPF_ARGUMENT_TYPE_ANYTHING],
     context_descriptor := Some g_sk_buff\<rparr>"

definition bpf_skb_change_head_proto :: helper_prototype where
  "bpf_skb_change_head_proto = zero_proto\<lparr>proto_name := ''skb_change_head'',
     return_type := EBPF_RETURN_TYPE_INTEGER,
     argument_type := five_args [EBPF_ARGUMENT_TYPE_PTR_TO_CTX, EBPF_ARGUMENT_TYPE_ANYTHING, EBPF_ARGUMENT_TYPE_ANYTHING],
     proto_reallocate_packet := True,
     context_descriptor := Some g_sk_buff\<rparr>"

definition bpf_xdp_adjust_head_proto :: helper_prototype where
  "bpf_xdp_adjust_head_proto = zero_proto\<lparr>proto_name := ''xdp_adjust_head'',
     return_type := EBPF_RETURN_TYPE_INTEGER,
     argument_type := five_args [EBPF_ARGUMENT_TYPE_PTR_TO_CTX, EBPF_ARGUMENT_TYPE_ANYTHING],
     proto_reallocate_packet := True,
     context_descriptor := Some g_xdp_descr\<rparr>"

definition bpf_xdp_adjust_tail_proto :: helper_prototype where
  "bpf_xdp_adjust_tail_proto = zero_proto\<lparr>proto_name := ''xdp_adjust_tail'',
     return_type := EBPF_RETURN_TYPE_INTEGER,
     argument_type := five_args [EBPF_ARGUMENT_TYPE_PTR_TO_CTX, EBPF_ARGUMENT_TYPE_ANYTHING],
     proto_reallocate_packet := True,
     context_descriptor := Some g_xdp_descr\<rparr>"

definition bpf_xdp_adjust_meta_proto :: helper_prototype where
  "bpf_xdp_adjust_meta_proto = zero_proto\<lparr>proto_name := ''xdp_adjust_meta'',
     return_type := EBPF_RETURN_TYPE_INTEGER,
     argument_type := five_args [EBPF_ARGUMENT_TYPE_PTR_TO_CTX, EBPF_ARGUMENT_TYPE_ANYTHING],
     proto_reallocate_packet := True,
     context_descriptor := Some g_xdp_descr\<rparr>"

definition bpf_skb_get_tunnel_key_proto :: helper_prototype where
  "bpf_skb_get_tunnel_key_proto = zero_proto\<lparr>proto_name := ''skb_get_tunnel_key'',
     return_type := EBPF_RETURN_TYPE_INTEGER,
     argument_type := five_args [EBPF_ARGUMENT_TYPE_PTR_TO_CTX, EBPF_ARGUMENT_TYPE_PTR_TO_WRITABLE_MEM, EBPF_ARGUMENT_TYPE_CONST_SIZE, EBPF_ARGUMENT_TYPE_ANYTHING],
     context_descriptor := Some g_sk_buff\<rparr>"

definition bpf_skb_get_tunnel_opt_proto :: helper_prototype where
  "bpf_skb_get_tunnel_opt_proto = zero_proto\<lparr>proto_name := ''skb_get_tunnel_opt'',
     return_type := EBPF_RETURN_TYPE_INTEGER,
     argument_type := five_args [EBPF_ARGUMENT_TYPE_PTR_TO_CTX, EBPF_ARGUMENT_TYPE_PTR_TO_WRITABLE_MEM, EBPF_ARGUMENT_TYPE_CONST_SIZE],
     context_descriptor := Some g_sk_buff\<rparr>"

definition bpf_skb_set_tunnel_key_proto :: helper_prototype where
  "bpf_skb_set_tunnel_key_proto = zero_proto\<lparr>proto_name := ''skb_set_tunnel_key'',
     return_type := EBPF_RETURN_TYPE_INTEGER,
     argument_type := five_args [EBPF_ARGUMENT_TYPE_PTR_TO_CTX, EBPF_ARGUMENT_TYPE_PTR_TO_READABLE_MEM, EBPF_ARGUMENT_TYPE_CONST_SIZE, EBPF_ARGUMENT_TYPE_ANYTHING],
     context_descriptor := Some g_sk_buff\<rparr>"

definition bpf_skb_set_tunnel_opt_proto :: helper_prototype where
  "bpf_skb_set_tunnel_opt_proto = zero_proto\<lparr>proto_name := ''skb_set_tunnel_opt'',
     return_type := EBPF_RETURN_TYPE_INTEGER,
     argument_type := five_args [EBPF_ARGUMENT_TYPE_PTR_TO_CTX, EBPF_ARGUMENT_TYPE_PTR_TO_READABLE_MEM, EBPF_ARGUMENT_TYPE_CONST_SIZE],
     context_descriptor := Some g_sk_buff\<rparr>"

definition bpf_skb_under_cgroup_proto :: helper_prototype where
  "bpf_skb_under_cgroup_proto = zero_proto\<lparr>proto_name := ''skb_under_cgroup'',
     return_type := EBPF_RETURN_TYPE_INTEGER,
     argument_type := five_args [EBPF_ARGUMENT_TYPE_PTR_TO_CTX, EBPF_ARGUMENT_TYPE_PTR_TO_MAP, EBPF_ARGUMENT_TYPE_ANYTHING],
     context_descriptor := Some g_sk_buff\<rparr>"

definition bpf_skb_cgroup_id_proto :: helper_prototype where
  "bpf_skb_cgroup_id_proto = zero_proto\<lparr>proto_name := ''skb_cgroup_id'',
     return_type := EBPF_RETURN_TYPE_INTEGER,
     argument_type := five_args [EBPF_ARGUMENT_TYPE_PTR_TO_CTX],
     context_descriptor := Some g_sk_buff\<rparr>"

definition bpf_get_socket_cookie_proto :: helper_prototype where
  "bpf_get_socket_cookie_proto = zero_proto\<lparr>proto_name := ''get_socket_cookie'',
     return_type := EBPF_RETURN_TYPE_INTEGER,
     argument_type := five_args [EBPF_ARGUMENT_TYPE_PTR_TO_CTX],
     context_descriptor := Some g_sk_buff\<rparr>"

definition bpf_get_socket_uid_proto :: helper_prototype where
  "bpf_get_socket_uid_proto = zero_proto\<lparr>proto_name := ''get_socket_uid'',
     return_type := EBPF_RETURN_TYPE_INTEGER,
     argument_type := five_args [EBPF_ARGUMENT_TYPE_PTR_TO_CTX],
     context_descriptor := Some g_sk_buff\<rparr>"

definition bpf_setsockopt_proto :: helper_prototype where
  "bpf_setsockopt_proto = zero_proto\<lparr>proto_name := ''setsockopt'',
     return_type := EBPF_RETURN_TYPE_INTEGER,
     argument_type := five_args [EBPF_ARGUMENT_TYPE_PTR_TO_CTX, EBPF_ARGUMENT_TYPE_ANYTHING, EBPF_ARGUMENT_TYPE_ANYTHING, EBPF_ARGUMENT_TYPE_PTR_TO_READABLE_MEM, EBPF_ARGUMENT_TYPE_CONST_SIZE]\<rparr>"

definition bpf_getsockopt_proto :: helper_prototype where
  "bpf_getsockopt_proto = zero_proto\<lparr>proto_name := ''getsockopt'',
     return_type := EBPF_RETURN_TYPE_INTEGER,
     argument_type := five_args [EBPF_ARGUMENT_TYPE_PTR_TO_CTX, EBPF_ARGUMENT_TYPE_ANYTHING, EBPF_ARGUMENT_TYPE_ANYTHING, EBPF_ARGUMENT_TYPE_PTR_TO_WRITABLE_MEM, EBPF_ARGUMENT_TYPE_CONST_SIZE]\<rparr>"

definition bpf_sock_ops_cb_flags_set_proto :: helper_prototype where
  "bpf_sock_ops_cb_flags_set_proto = zero_proto\<lparr>proto_name := ''sock_ops_cb_flags_set'',
     return_type := EBPF_RETURN_TYPE_INTEGER,
     argument_type := five_args [EBPF_ARGUMENT_TYPE_PTR_TO_CTX, EBPF_ARGUMENT_TYPE_ANYTHING],
     context_descriptor := Some g_sock_ops_descr\<rparr>"

definition bpf_bind_proto :: helper_prototype where
  "bpf_bind_proto = zero_proto\<lparr>proto_name := ''bind'',
     return_type := EBPF_RETURN_TYPE_INTEGER,
     argument_type := five_args [EBPF_ARGUMENT_TYPE_PTR_TO_CTX, EBPF_ARGUMENT_TYPE_PTR_TO_READABLE_MEM, EBPF_ARGUMENT_TYPE_CONST_SIZE]\<rparr>"

definition bpf_skb_get_xfrm_state_proto :: helper_prototype where
  "bpf_skb_get_xfrm_state_proto = zero_proto\<lparr>proto_name := ''skb_get_xfrm_state'',
     return_type := EBPF_RETURN_TYPE_INTEGER,
     argument_type := five_args [EBPF_ARGUMENT_TYPE_PTR_TO_CTX, EBPF_ARGUMENT_TYPE_ANYTHING, EBPF_ARGUMENT_TYPE_PTR_TO_WRITABLE_MEM, EBPF_ARGUMENT_TYPE_CONST_SIZE, EBPF_ARGUMENT_TYPE_ANYTHING],
     context_descriptor := Some g_sk_buff\<rparr>"

definition bpf_fib_lookup_proto :: helper_prototype where
  "bpf_fib_lookup_proto = zero_proto\<lparr>proto_name := ''fib_lookup'',
     return_type := EBPF_RETURN_TYPE_INTEGER,
     argument_type := five_args [EBPF_ARGUMENT_TYPE_PTR_TO_CTX, EBPF_ARGUMENT_TYPE_PTR_TO_READABLE_MEM, EBPF_ARGUMENT_TYPE_CONST_SIZE, EBPF_ARGUMENT_TYPE_ANYTHING]\<rparr>"

definition bpf_lwt_push_encap_proto :: helper_prototype where
  "bpf_lwt_push_encap_proto = zero_proto\<lparr>proto_name := ''lwt_push_encap'',
     return_type := EBPF_RETURN_TYPE_INTEGER,
     argument_type := five_args [EBPF_ARGUMENT_TYPE_PTR_TO_CTX, EBPF_ARGUMENT_TYPE_ANYTHING, EBPF_ARGUMENT_TYPE_PTR_TO_READABLE_MEM, EBPF_ARGUMENT_TYPE_CONST_SIZE],
     context_descriptor := Some g_sk_buff\<rparr>"

definition bpf_lwt_seg6_store_bytes_proto :: helper_prototype where
  "bpf_lwt_seg6_store_bytes_proto = zero_proto\<lparr>proto_name := ''lwt_seg6_store_bytes'',
     return_type := EBPF_RETURN_TYPE_INTEGER,
     argument_type := five_args [EBPF_ARGUMENT_TYPE_PTR_TO_CTX, EBPF_ARGUMENT_TYPE_ANYTHING, EBPF_ARGUMENT_TYPE_PTR_TO_READABLE_MEM, EBPF_ARGUMENT_TYPE_CONST_SIZE],
     context_descriptor := Some g_sk_buff\<rparr>"

definition bpf_lwt_seg6_action_proto :: helper_prototype where
  "bpf_lwt_seg6_action_proto = zero_proto\<lparr>proto_name := ''lwt_seg6_action'',
     return_type := EBPF_RETURN_TYPE_INTEGER,
     argument_type := five_args [EBPF_ARGUMENT_TYPE_PTR_TO_CTX, EBPF_ARGUMENT_TYPE_ANYTHING, EBPF_ARGUMENT_TYPE_PTR_TO_READABLE_MEM, EBPF_ARGUMENT_TYPE_CONST_SIZE],
     context_descriptor := Some g_sk_buff\<rparr>"

definition bpf_lwt_seg6_adjust_srh_proto :: helper_prototype where
  "bpf_lwt_seg6_adjust_srh_proto = zero_proto\<lparr>proto_name := ''lwt_seg6_adjust_srh'',
     return_type := EBPF_RETURN_TYPE_INTEGER,
     argument_type := five_args [EBPF_ARGUMENT_TYPE_PTR_TO_CTX, EBPF_ARGUMENT_TYPE_ANYTHING, EBPF_ARGUMENT_TYPE_ANYTHING],
     proto_reallocate_packet := True,
     context_descriptor := Some g_sk_buff\<rparr>"

definition bpf_rc_repeat_proto :: helper_prototype where
  "bpf_rc_repeat_proto = zero_proto\<lparr>proto_name := ''rc_repeat'',
     return_type := EBPF_RETURN_TYPE_INTEGER,
     argument_type := five_args [EBPF_ARGUMENT_TYPE_PTR_TO_CTX]\<rparr>"

definition bpf_rc_keydown_proto :: helper_prototype where
  "bpf_rc_keydown_proto = zero_proto\<lparr>proto_name := ''rc_keydown'',
     return_type := EBPF_RETURN_TYPE_INTEGER,
     argument_type := five_args [EBPF_ARGUMENT_TYPE_PTR_TO_CTX, EBPF_ARGUMENT_TYPE_ANYTHING, EBPF_ARGUMENT_TYPE_ANYTHING, EBPF_ARGUMENT_TYPE_ANYTHING]\<rparr>"

definition bpf_get_local_storage_proto :: helper_prototype where
  "bpf_get_local_storage_proto = zero_proto\<lparr>proto_name := ''get_local_storage'',
     return_type := EBPF_RETURN_TYPE_PTR_TO_MAP_VALUE,
     argument_type := five_args [EBPF_ARGUMENT_TYPE_PTR_TO_MAP, EBPF_ARGUMENT_TYPE_ANYTHING]\<rparr>"

definition bpf_redirect_map_proto :: helper_prototype where
  "bpf_redirect_map_proto = zero_proto\<lparr>proto_name := ''redirect_map'',
     return_type := EBPF_RETURN_TYPE_INTEGER,
     argument_type := five_args [EBPF_ARGUMENT_TYPE_PTR_TO_MAP, EBPF_ARGUMENT_TYPE_ANYTHING, EBPF_ARGUMENT_TYPE_ANYTHING]\<rparr>"

definition bpf_sk_select_reuseport_proto :: helper_prototype where
  "bpf_sk_select_reuseport_proto = zero_proto\<lparr>proto_name := ''sk_select_reuseport'',
     return_type := EBPF_RETURN_TYPE_INTEGER\<rparr>"

definition bpf_get_current_ancestor_cgroup_id_proto :: helper_prototype where
  "bpf_get_current_ancestor_cgroup_id_proto = zero_proto\<lparr>proto_name := ''get_current_ancestor_cgroup_id'',
     return_type := EBPF_RETURN_TYPE_INTEGER\<rparr>"

definition bpf_sk_lookup_tcp_proto :: helper_prototype where
  "bpf_sk_lookup_tcp_proto = zero_proto\<lparr>proto_name := ''sk_lookup_tcp'',
     return_type := EBPF_RETURN_TYPE_PTR_TO_SOCK_COMMON_OR_NULL,
     argument_type := five_args [EBPF_ARGUMENT_TYPE_PTR_TO_CTX, EBPF_ARGUMENT_TYPE_PTR_TO_READONLY_MEM, EBPF_ARGUMENT_TYPE_CONST_SIZE, EBPF_ARGUMENT_TYPE_ANYTHING, EBPF_ARGUMENT_TYPE_ANYTHING]\<rparr>"

definition bpf_sk_lookup_udp_proto :: helper_prototype where
  "bpf_sk_lookup_udp_proto = zero_proto\<lparr>proto_name := ''sk_lookup_udp'',
     return_type := EBPF_RETURN_TYPE_PTR_TO_SOCKET_OR_NULL\<rparr>"

definition bpf_sk_release_proto :: helper_prototype where
  "bpf_sk_release_proto = zero_proto\<lparr>proto_name := ''sk_release'',
     return_type := EBPF_RETURN_TYPE_INTEGER,
     argument_type := five_args [EBPF_ARGUMENT_TYPE_PTR_TO_BTF_ID_SOCK_COMMON]\<rparr>"

definition bpf_map_push_elem_proto :: helper_prototype where
  "bpf_map_push_elem_proto = zero_proto\<lparr>proto_name := ''map_push_elem'',
     return_type := EBPF_RETURN_TYPE_INTEGER\<rparr>"

definition bpf_map_pop_elem_proto :: helper_prototype where
  "bpf_map_pop_elem_proto = zero_proto\<lparr>proto_name := ''map_pop_elem'',
     return_type := EBPF_RETURN_TYPE_INTEGER\<rparr>"

definition bpf_map_peek_elem_proto :: helper_prototype where
  "bpf_map_peek_elem_proto = zero_proto\<lparr>proto_name := ''map_peek_elem'',
     return_type := EBPF_RETURN_TYPE_INTEGER\<rparr>"

definition bpf_msg_push_data_proto :: helper_prototype where
  "bpf_msg_push_data_proto = zero_proto\<lparr>proto_name := ''msg_push_data'',
     return_type := EBPF_RETURN_TYPE_INTEGER,
     context_descriptor := Some g_sk_msg_md\<rparr>"

definition bpf_msg_pop_data_proto :: helper_prototype where
  "bpf_msg_pop_data_proto = zero_proto\<lparr>proto_name := ''msg_pop_data'',
     return_type := EBPF_RETURN_TYPE_INTEGER,
     context_descriptor := Some g_sk_msg_md\<rparr>"

definition bpf_rc_pointer_rel_proto :: helper_prototype where
  "bpf_rc_pointer_rel_proto = zero_proto\<lparr>proto_name := ''rc_pointer_rel'',
     return_type := EBPF_RETURN_TYPE_INTEGER\<rparr>"

definition bpf_spin_lock_proto :: helper_prototype where
  "bpf_spin_lock_proto = zero_proto\<lparr>proto_name := ''spin_lock'',
     return_type := EBPF_RETURN_TYPE_INTEGER,
     argument_type := five_args [EBPF_ARGUMENT_TYPE_PTR_TO_SPIN_LOCK]\<rparr>"

definition bpf_spin_unlock_proto :: helper_prototype where
  "bpf_spin_unlock_proto = zero_proto\<lparr>proto_name := ''spin_unlock'',
     return_type := EBPF_RETURN_TYPE_INTEGER,
     argument_type := five_args [EBPF_ARGUMENT_TYPE_PTR_TO_SPIN_LOCK]\<rparr>"

definition bpf_jiffies64_proto :: helper_prototype where
  "bpf_jiffies64_proto = zero_proto\<lparr>proto_name := ''jiffies64'',
     return_type := EBPF_RETURN_TYPE_INTEGER\<rparr>"

definition bpf_sk_fullsock_proto :: helper_prototype where
  "bpf_sk_fullsock_proto = zero_proto\<lparr>proto_name := ''sk_fullsock'',
     return_type := EBPF_RETURN_TYPE_PTR_TO_SOCKET_OR_NULL,
     argument_type := five_args [EBPF_ARGUMENT_TYPE_PTR_TO_SOCK_COMMON]\<rparr>"

definition bpf_tcp_sock_proto :: helper_prototype where
  "bpf_tcp_sock_proto = zero_proto\<lparr>proto_name := ''tcp_sock'',
     return_type := EBPF_RETURN_TYPE_PTR_TO_TCP_SOCKET_OR_NULL,
     argument_type := five_args [EBPF_ARGUMENT_TYPE_PTR_TO_SOCK_COMMON]\<rparr>"

definition bpf_skb_ecn_set_ce_proto :: helper_prototype where
  "bpf_skb_ecn_set_ce_proto = zero_proto\<lparr>proto_name := ''skb_ecn_set_ce'',
     return_type := EBPF_RETURN_TYPE_INTEGER,
     argument_type := five_args [EBPF_ARGUMENT_TYPE_PTR_TO_CTX]\<rparr>"

definition bpf_tcp_check_syncookie_proto :: helper_prototype where
  "bpf_tcp_check_syncookie_proto = zero_proto\<lparr>proto_name := ''tcp_check_syncookie'',
     return_type := EBPF_RETURN_TYPE_INTEGER,
     argument_type := five_args [EBPF_ARGUMENT_TYPE_PTR_TO_BTF_ID_SOCK_COMMON, EBPF_ARGUMENT_TYPE_PTR_TO_READONLY_MEM, EBPF_ARGUMENT_TYPE_CONST_SIZE, EBPF_ARGUMENT_TYPE_PTR_TO_READONLY_MEM, EBPF_ARGUMENT_TYPE_CONST_SIZE]\<rparr>"

definition bpf_get_listener_sock_proto :: helper_prototype where
  "bpf_get_listener_sock_proto = zero_proto\<lparr>proto_name := ''get_listener_sock'',
     return_type := EBPF_RETURN_TYPE_PTR_TO_TCP_SOCKET_OR_NULL,
     argument_type := five_args [EBPF_ARGUMENT_TYPE_PTR_TO_SOCK_COMMON]\<rparr>"

definition bpf_skc_lookup_tcp_proto :: helper_prototype where
  "bpf_skc_lookup_tcp_proto = zero_proto\<lparr>proto_name := ''skc_lookup_tcp'',
     return_type := EBPF_RETURN_TYPE_PTR_TO_SOCK_COMMON_OR_NULL,
     argument_type := five_args [EBPF_ARGUMENT_TYPE_PTR_TO_CTX, EBPF_ARGUMENT_TYPE_PTR_TO_READONLY_MEM, EBPF_ARGUMENT_TYPE_CONST_SIZE, EBPF_ARGUMENT_TYPE_ANYTHING, EBPF_ARGUMENT_TYPE_ANYTHING]\<rparr>"

definition bpf_sysctl_get_name_proto :: helper_prototype where
  "bpf_sysctl_get_name_proto = zero_proto\<lparr>proto_name := ''sysctl_get_name'',
     return_type := EBPF_RETURN_TYPE_INTEGER,
     argument_type := five_args [EBPF_ARGUMENT_TYPE_PTR_TO_CTX, EBPF_ARGUMENT_TYPE_PTR_TO_READABLE_MEM, EBPF_ARGUMENT_TYPE_CONST_SIZE, EBPF_ARGUMENT_TYPE_ANYTHING]\<rparr>"

definition bpf_sysctl_get_current_value_proto :: helper_prototype where
  "bpf_sysctl_get_current_value_proto = zero_proto\<lparr>proto_name := ''sysctl_get_current_value'',
     return_type := EBPF_RETURN_TYPE_INTEGER,
     argument_type := five_args [EBPF_ARGUMENT_TYPE_PTR_TO_CTX, EBPF_ARGUMENT_TYPE_PTR_TO_WRITABLE_MEM, EBPF_ARGUMENT_TYPE_CONST_SIZE]\<rparr>"

definition bpf_sysctl_get_new_value_proto :: helper_prototype where
  "bpf_sysctl_get_new_value_proto = zero_proto\<lparr>proto_name := ''sysctl_get_new_value'',
     return_type := EBPF_RETURN_TYPE_INTEGER,
     argument_type := five_args [EBPF_ARGUMENT_TYPE_PTR_TO_CTX, EBPF_ARGUMENT_TYPE_PTR_TO_WRITABLE_MEM, EBPF_ARGUMENT_TYPE_CONST_SIZE]\<rparr>"

definition bpf_sysctl_set_new_value_proto :: helper_prototype where
  "bpf_sysctl_set_new_value_proto = zero_proto\<lparr>proto_name := ''sysctl_set_new_value'',
     return_type := EBPF_RETURN_TYPE_INTEGER,
     argument_type := five_args [EBPF_ARGUMENT_TYPE_PTR_TO_CTX, EBPF_ARGUMENT_TYPE_PTR_TO_READONLY_MEM, EBPF_ARGUMENT_TYPE_CONST_SIZE]\<rparr>"

definition bpf_strtol_proto :: helper_prototype where
  "bpf_strtol_proto = zero_proto\<lparr>proto_name := ''strtol'',
     return_type := EBPF_RETURN_TYPE_INTEGER,
     argument_type := five_args [EBPF_ARGUMENT_TYPE_PTR_TO_READONLY_MEM, EBPF_ARGUMENT_TYPE_CONST_SIZE, EBPF_ARGUMENT_TYPE_ANYTHING, EBPF_ARGUMENT_TYPE_PTR_TO_LONG]\<rparr>"

definition bpf_strtoul_proto :: helper_prototype where
  "bpf_strtoul_proto = zero_proto\<lparr>proto_name := ''strtoul'',
     return_type := EBPF_RETURN_TYPE_INTEGER,
     argument_type := five_args [EBPF_ARGUMENT_TYPE_PTR_TO_READONLY_MEM, EBPF_ARGUMENT_TYPE_CONST_SIZE, EBPF_ARGUMENT_TYPE_ANYTHING, EBPF_ARGUMENT_TYPE_PTR_TO_LONG]\<rparr>"

definition bpf_strncmp_proto :: helper_prototype where
  "bpf_strncmp_proto = zero_proto\<lparr>proto_name := ''strncmp'',
     return_type := EBPF_RETURN_TYPE_INTEGER,
     argument_type := five_args [EBPF_ARGUMENT_TYPE_PTR_TO_READABLE_MEM, EBPF_ARGUMENT_TYPE_CONST_SIZE, EBPF_ARGUMENT_TYPE_PTR_TO_CONST_STR]\<rparr>"

definition bpf_sk_storage_get_proto :: helper_prototype where
  "bpf_sk_storage_get_proto = zero_proto\<lparr>proto_name := ''sk_storage_get'',
     return_type := EBPF_RETURN_TYPE_PTR_TO_MAP_VALUE_OR_NULL,
     argument_type := five_args [EBPF_ARGUMENT_TYPE_PTR_TO_MAP, EBPF_ARGUMENT_TYPE_PTR_TO_BTF_ID_SOCK_COMMON, EBPF_ARGUMENT_TYPE_PTR_TO_MAP_VALUE_OR_NULL, EBPF_ARGUMENT_TYPE_ANYTHING]\<rparr>"

definition bpf_sk_storage_delete_proto :: helper_prototype where
  "bpf_sk_storage_delete_proto = zero_proto\<lparr>proto_name := ''sk_storage_delete'',
     return_type := EBPF_RETURN_TYPE_INTEGER,
     argument_type := five_args [EBPF_ARGUMENT_TYPE_PTR_TO_MAP, EBPF_ARGUMENT_TYPE_PTR_TO_BTF_ID_SOCK_COMMON]\<rparr>"

definition bpf_send_signal_proto :: helper_prototype where
  "bpf_send_signal_proto = zero_proto\<lparr>proto_name := ''send_signal'',
     return_type := EBPF_RETURN_TYPE_INTEGER,
     argument_type := five_args [EBPF_ARGUMENT_TYPE_ANYTHING]\<rparr>"

definition bpf_send_signal_thread_proto :: helper_prototype where
  "bpf_send_signal_thread_proto = zero_proto\<lparr>proto_name := ''send_signal_thread'',
     return_type := EBPF_RETURN_TYPE_INTEGER,
     argument_type := five_args [EBPF_ARGUMENT_TYPE_ANYTHING]\<rparr>"

definition bpf_tcp_gen_syncookie_proto :: helper_prototype where
  "bpf_tcp_gen_syncookie_proto = zero_proto\<lparr>proto_name := ''tcp_gen_syncookie'',
     return_type := EBPF_RETURN_TYPE_INTEGER,
     argument_type := five_args [EBPF_ARGUMENT_TYPE_PTR_TO_BTF_ID_SOCK_COMMON, EBPF_ARGUMENT_TYPE_PTR_TO_READONLY_MEM, EBPF_ARGUMENT_TYPE_CONST_SIZE, EBPF_ARGUMENT_TYPE_PTR_TO_READONLY_MEM, EBPF_ARGUMENT_TYPE_CONST_SIZE]\<rparr>"

definition bpf_skb_output_proto :: helper_prototype where
  "bpf_skb_output_proto = zero_proto\<lparr>proto_name := ''skb_event_output'',
     return_type := EBPF_RETURN_TYPE_INTEGER,
     argument_type := five_args [EBPF_ARGUMENT_TYPE_PTR_TO_BTF_ID, EBPF_ARGUMENT_TYPE_PTR_TO_MAP, EBPF_ARGUMENT_TYPE_ANYTHING, EBPF_ARGUMENT_TYPE_PTR_TO_READONLY_MEM, EBPF_ARGUMENT_TYPE_CONST_SIZE_OR_ZERO]\<rparr>"

definition bpf_probe_read_user_proto :: helper_prototype where
  "bpf_probe_read_user_proto = zero_proto\<lparr>proto_name := ''probe_read_user'',
     return_type := EBPF_RETURN_TYPE_INTEGER,
     argument_type := five_args [EBPF_ARGUMENT_TYPE_PTR_TO_WRITABLE_MEM, EBPF_ARGUMENT_TYPE_CONST_SIZE_OR_ZERO, EBPF_ARGUMENT_TYPE_ANYTHING]\<rparr>"

definition bpf_probe_read_user_str_proto :: helper_prototype where
  "bpf_probe_read_user_str_proto = zero_proto\<lparr>proto_name := ''probe_read_user_str'',
     return_type := EBPF_RETURN_TYPE_INTEGER,
     argument_type := five_args [EBPF_ARGUMENT_TYPE_PTR_TO_WRITABLE_MEM, EBPF_ARGUMENT_TYPE_CONST_SIZE_OR_ZERO, EBPF_ARGUMENT_TYPE_ANYTHING]\<rparr>"

definition bpf_probe_read_kernel_proto :: helper_prototype where
  "bpf_probe_read_kernel_proto = zero_proto\<lparr>proto_name := ''probe_read_kernel'',
     return_type := EBPF_RETURN_TYPE_INTEGER,
     argument_type := five_args [EBPF_ARGUMENT_TYPE_PTR_TO_WRITABLE_MEM, EBPF_ARGUMENT_TYPE_CONST_SIZE_OR_ZERO, EBPF_ARGUMENT_TYPE_ANYTHING]\<rparr>"

definition bpf_probe_read_kernel_str_proto :: helper_prototype where
  "bpf_probe_read_kernel_str_proto = zero_proto\<lparr>proto_name := ''probe_read_kernel_str'',
     return_type := EBPF_RETURN_TYPE_INTEGER,
     argument_type := five_args [EBPF_ARGUMENT_TYPE_PTR_TO_WRITABLE_MEM, EBPF_ARGUMENT_TYPE_CONST_SIZE_OR_ZERO, EBPF_ARGUMENT_TYPE_ANYTHING]\<rparr>"

definition bpf_tcp_send_ack_proto :: helper_prototype where
  "bpf_tcp_send_ack_proto = zero_proto\<lparr>proto_name := ''tcp_send_ack'',
     return_type := EBPF_RETURN_TYPE_INTEGER,
     argument_type := five_args [EBPF_ARGUMENT_TYPE_PTR_TO_BTF_ID, EBPF_ARGUMENT_TYPE_ANYTHING]\<rparr>"

definition bpf_read_branch_records_proto :: helper_prototype where
  "bpf_read_branch_records_proto = zero_proto\<lparr>proto_name := ''read_branch_records'',
     return_type := EBPF_RETURN_TYPE_INTEGER,
     argument_type := five_args [EBPF_ARGUMENT_TYPE_PTR_TO_CTX, EBPF_ARGUMENT_TYPE_PTR_TO_READABLE_MEM_OR_NULL, EBPF_ARGUMENT_TYPE_CONST_SIZE_OR_ZERO, EBPF_ARGUMENT_TYPE_ANYTHING]\<rparr>"

definition bpf_get_ns_current_pid_tgid_proto :: helper_prototype where
  "bpf_get_ns_current_pid_tgid_proto = zero_proto\<lparr>proto_name := ''get_ns_current_pid_tgid'',
     return_type := EBPF_RETURN_TYPE_INTEGER,
     argument_type := five_args [EBPF_ARGUMENT_TYPE_ANYTHING, EBPF_ARGUMENT_TYPE_ANYTHING, EBPF_ARGUMENT_TYPE_PTR_TO_WRITABLE_MEM_OR_NULL, EBPF_ARGUMENT_TYPE_CONST_SIZE]\<rparr>"

definition bpf_xdp_output_proto :: helper_prototype where
  "bpf_xdp_output_proto = zero_proto\<lparr>proto_name := ''xdp_event_output'',
     return_type := EBPF_RETURN_TYPE_INTEGER,
     argument_type := five_args [EBPF_ARGUMENT_TYPE_PTR_TO_BTF_ID, EBPF_ARGUMENT_TYPE_PTR_TO_MAP, EBPF_ARGUMENT_TYPE_ANYTHING, EBPF_ARGUMENT_TYPE_PTR_TO_READONLY_MEM, EBPF_ARGUMENT_TYPE_CONST_SIZE_OR_ZERO]\<rparr>"

definition bpf_sk_assign_proto :: helper_prototype where
  "bpf_sk_assign_proto = zero_proto\<lparr>proto_name := ''sk_assign'',
     return_type := EBPF_RETURN_TYPE_INTEGER,
     argument_type := five_args [EBPF_ARGUMENT_TYPE_PTR_TO_CTX, EBPF_ARGUMENT_TYPE_PTR_TO_BTF_ID_SOCK_COMMON, EBPF_ARGUMENT_TYPE_ANYTHING]\<rparr>"

definition bpf_ktime_get_boot_ns_proto :: helper_prototype where
  "bpf_ktime_get_boot_ns_proto = zero_proto\<lparr>proto_name := ''ktime_get_boot_ns'',
     return_type := EBPF_RETURN_TYPE_INTEGER\<rparr>"

definition bpf_seq_printf_proto :: helper_prototype where
  "bpf_seq_printf_proto = zero_proto\<lparr>proto_name := ''seq_printf'',
     return_type := EBPF_RETURN_TYPE_INTEGER,
     argument_type := five_args [EBPF_ARGUMENT_TYPE_PTR_TO_BTF_ID, EBPF_ARGUMENT_TYPE_PTR_TO_READABLE_MEM, EBPF_ARGUMENT_TYPE_CONST_SIZE, EBPF_ARGUMENT_TYPE_PTR_TO_READABLE_MEM_OR_NULL, EBPF_ARGUMENT_TYPE_CONST_SIZE_OR_ZERO]\<rparr>"

definition bpf_seq_write_proto :: helper_prototype where
  "bpf_seq_write_proto = zero_proto\<lparr>proto_name := ''seq_write'',
     return_type := EBPF_RETURN_TYPE_INTEGER,
     argument_type := five_args [EBPF_ARGUMENT_TYPE_PTR_TO_BTF_ID, EBPF_ARGUMENT_TYPE_PTR_TO_READABLE_MEM, EBPF_ARGUMENT_TYPE_CONST_SIZE_OR_ZERO]\<rparr>"

definition bpf_sk_cgroup_id_proto :: helper_prototype where
  "bpf_sk_cgroup_id_proto = zero_proto\<lparr>proto_name := ''sk_cgroup_id'',
     return_type := EBPF_RETURN_TYPE_INTEGER,
     argument_type := five_args [EBPF_ARGUMENT_TYPE_PTR_TO_BTF_ID_SOCK_COMMON]\<rparr>"

definition bpf_sk_ancestor_cgroup_id_proto :: helper_prototype where
  "bpf_sk_ancestor_cgroup_id_proto = zero_proto\<lparr>proto_name := ''sk_ancestor_cgroup_id'',
     return_type := EBPF_RETURN_TYPE_INTEGER,
     argument_type := five_args [EBPF_ARGUMENT_TYPE_PTR_TO_BTF_ID_SOCK_COMMON, EBPF_ARGUMENT_TYPE_ANYTHING]\<rparr>"

definition bpf_ringbuf_reserve_proto :: helper_prototype where
  "bpf_ringbuf_reserve_proto = zero_proto\<lparr>proto_name := ''ringbuf_reserve'',
     return_type := EBPF_RETURN_TYPE_PTR_TO_ALLOC_MEM_OR_NULL,
     argument_type := five_args [EBPF_ARGUMENT_TYPE_PTR_TO_MAP, EBPF_ARGUMENT_TYPE_CONST_ALLOC_SIZE_OR_ZERO, EBPF_ARGUMENT_TYPE_ANYTHING]\<rparr>"

definition bpf_ringbuf_submit_proto :: helper_prototype where
  "bpf_ringbuf_submit_proto = zero_proto\<lparr>proto_name := ''ringbuf_submit'',
     return_type := EBPF_RETURN_TYPE_INTEGER,
     argument_type := five_args [EBPF_ARGUMENT_TYPE_PTR_TO_ALLOC_MEM, EBPF_ARGUMENT_TYPE_ANYTHING]\<rparr>"

definition bpf_ringbuf_discard_proto :: helper_prototype where
  "bpf_ringbuf_discard_proto = zero_proto\<lparr>proto_name := ''ringbuf_discard'',
     return_type := EBPF_RETURN_TYPE_INTEGER,
     argument_type := five_args [EBPF_ARGUMENT_TYPE_PTR_TO_ALLOC_MEM, EBPF_ARGUMENT_TYPE_ANYTHING]\<rparr>"

definition bpf_ringbuf_output_proto :: helper_prototype where
  "bpf_ringbuf_output_proto = zero_proto\<lparr>proto_name := ''ringbuf_output'',
     return_type := EBPF_RETURN_TYPE_INTEGER,
     argument_type := five_args [EBPF_ARGUMENT_TYPE_PTR_TO_MAP, EBPF_ARGUMENT_TYPE_PTR_TO_READABLE_MEM, EBPF_ARGUMENT_TYPE_CONST_SIZE_OR_ZERO, EBPF_ARGUMENT_TYPE_ANYTHING]\<rparr>"

definition bpf_ringbuf_query_proto :: helper_prototype where
  "bpf_ringbuf_query_proto = zero_proto\<lparr>proto_name := ''ringbuf_query'',
     return_type := EBPF_RETURN_TYPE_INTEGER,
     argument_type := five_args [EBPF_ARGUMENT_TYPE_CONST_PTR_TO_MAP, EBPF_ARGUMENT_TYPE_ANYTHING]\<rparr>"

definition bpf_csum_level_proto :: helper_prototype where
  "bpf_csum_level_proto = zero_proto\<lparr>proto_name := ''csum_level'',
     return_type := EBPF_RETURN_TYPE_INTEGER,
     argument_type := five_args [EBPF_ARGUMENT_TYPE_PTR_TO_CTX, EBPF_ARGUMENT_TYPE_ANYTHING]\<rparr>"

definition bpf_skc_to_tcp6_sock_proto :: helper_prototype where
  "bpf_skc_to_tcp6_sock_proto = zero_proto\<lparr>proto_name := ''skc_to_tcp6_sock'',
     return_type := EBPF_RETURN_TYPE_PTR_TO_BTF_ID_OR_NULL,
     argument_type := five_args [EBPF_ARGUMENT_TYPE_PTR_TO_BTF_ID_SOCK_COMMON]\<rparr>"

definition bpf_skc_to_tcp_sock_proto :: helper_prototype where
  "bpf_skc_to_tcp_sock_proto = zero_proto\<lparr>proto_name := ''skc_to_tcp_sock'',
     return_type := EBPF_RETURN_TYPE_PTR_TO_BTF_ID_OR_NULL,
     argument_type := five_args [EBPF_ARGUMENT_TYPE_PTR_TO_BTF_ID_SOCK_COMMON]\<rparr>"

definition bpf_skc_to_tcp_timewait_sock_proto :: helper_prototype where
  "bpf_skc_to_tcp_timewait_sock_proto = zero_proto\<lparr>proto_name := ''skc_to_tcp_timewait_sock'',
     return_type := EBPF_RETURN_TYPE_PTR_TO_BTF_ID_OR_NULL,
     argument_type := five_args [EBPF_ARGUMENT_TYPE_PTR_TO_BTF_ID_SOCK_COMMON]\<rparr>"

definition bpf_skc_to_tcp_request_sock_proto :: helper_prototype where
  "bpf_skc_to_tcp_request_sock_proto = zero_proto\<lparr>proto_name := ''skc_to_tcp_request_sock'',
     return_type := EBPF_RETURN_TYPE_PTR_TO_BTF_ID_OR_NULL,
     argument_type := five_args [EBPF_ARGUMENT_TYPE_PTR_TO_BTF_ID_SOCK_COMMON]\<rparr>"

definition bpf_skc_to_udp6_sock_proto :: helper_prototype where
  "bpf_skc_to_udp6_sock_proto = zero_proto\<lparr>proto_name := ''skc_to_udp6_sock'',
     return_type := EBPF_RETURN_TYPE_PTR_TO_BTF_ID_OR_NULL,
     argument_type := five_args [EBPF_ARGUMENT_TYPE_PTR_TO_BTF_ID_SOCK_COMMON]\<rparr>"

definition bpf_sock_from_file_proto :: helper_prototype where
  "bpf_sock_from_file_proto = zero_proto\<lparr>proto_name := ''sock_from_file'',
     return_type := EBPF_RETURN_TYPE_PTR_TO_BTF_ID_OR_NULL,
     argument_type := five_args [EBPF_ARGUMENT_TYPE_PTR_TO_BTF_ID]\<rparr>"

definition bpf_get_task_stack_proto :: helper_prototype where
  "bpf_get_task_stack_proto = zero_proto\<lparr>proto_name := ''get_task_stack'',
     return_type := EBPF_RETURN_TYPE_INTEGER,
     argument_type := five_args [EBPF_ARGUMENT_TYPE_PTR_TO_BTF_ID, EBPF_ARGUMENT_TYPE_PTR_TO_WRITABLE_MEM, EBPF_ARGUMENT_TYPE_CONST_SIZE_OR_ZERO, EBPF_ARGUMENT_TYPE_ANYTHING]\<rparr>"

definition bpf_inode_storage_get_proto :: helper_prototype where
  "bpf_inode_storage_get_proto = zero_proto\<lparr>proto_name := ''inode_storage_get'',
     return_type := EBPF_RETURN_TYPE_PTR_TO_MAP_VALUE_OR_NULL,
     argument_type := five_args [EBPF_ARGUMENT_TYPE_PTR_TO_MAP, EBPF_ARGUMENT_TYPE_PTR_TO_BTF_ID, EBPF_ARGUMENT_TYPE_PTR_TO_MAP_VALUE_OR_NULL, EBPF_ARGUMENT_TYPE_ANYTHING]\<rparr>"

definition bpf_inode_storage_delete_proto :: helper_prototype where
  "bpf_inode_storage_delete_proto = zero_proto\<lparr>proto_name := ''inode_storage_delete'',
     return_type := EBPF_RETURN_TYPE_INTEGER,
     argument_type := five_args [EBPF_ARGUMENT_TYPE_PTR_TO_MAP, EBPF_ARGUMENT_TYPE_PTR_TO_BTF_ID]\<rparr>"

definition bpf_d_path_proto :: helper_prototype where
  "bpf_d_path_proto = zero_proto\<lparr>proto_name := ''d_path'',
     return_type := EBPF_RETURN_TYPE_INTEGER,
     argument_type := five_args [EBPF_ARGUMENT_TYPE_PTR_TO_BTF_ID, EBPF_ARGUMENT_TYPE_PTR_TO_READABLE_MEM, EBPF_ARGUMENT_TYPE_CONST_SIZE_OR_ZERO]\<rparr>"

definition bpf_copy_from_user_proto :: helper_prototype where
  "bpf_copy_from_user_proto = zero_proto\<lparr>proto_name := ''copy_from_user'',
     return_type := EBPF_RETURN_TYPE_INTEGER,
     argument_type := five_args [EBPF_ARGUMENT_TYPE_PTR_TO_WRITABLE_MEM, EBPF_ARGUMENT_TYPE_CONST_SIZE_OR_ZERO, EBPF_ARGUMENT_TYPE_ANYTHING]\<rparr>"

definition bpf_per_cpu_ptr_proto :: helper_prototype where
  "bpf_per_cpu_ptr_proto = zero_proto\<lparr>proto_name := ''per_cpu_ptr'',
     return_type := EBPF_RETURN_TYPE_PTR_TO_MEM_OR_BTF_ID_OR_NULL,
     argument_type := five_args [EBPF_ARGUMENT_TYPE_PTR_TO_PERCPU_BTF_ID, EBPF_ARGUMENT_TYPE_ANYTHING]\<rparr>"

definition bpf_this_cpu_ptr_proto :: helper_prototype where
  "bpf_this_cpu_ptr_proto = zero_proto\<lparr>proto_name := ''this_cpu_ptr'',
     return_type := EBPF_RETURN_TYPE_PTR_TO_MEM_OR_BTF_ID,
     argument_type := five_args [EBPF_ARGUMENT_TYPE_PTR_TO_PERCPU_BTF_ID]\<rparr>"

definition bpf_snprintf_btf_proto :: helper_prototype where
  "bpf_snprintf_btf_proto = zero_proto\<lparr>proto_name := ''snprintf_btf'',
     return_type := EBPF_RETURN_TYPE_INTEGER,
     argument_type := five_args [EBPF_ARGUMENT_TYPE_PTR_TO_READABLE_MEM, EBPF_ARGUMENT_TYPE_CONST_SIZE, EBPF_ARGUMENT_TYPE_PTR_TO_READABLE_MEM, EBPF_ARGUMENT_TYPE_CONST_SIZE, EBPF_ARGUMENT_TYPE_ANYTHING]\<rparr>"

definition bpf_seq_printf_btf_proto :: helper_prototype where
  "bpf_seq_printf_btf_proto = zero_proto\<lparr>proto_name := ''seq_printf_btf'',
     return_type := EBPF_RETURN_TYPE_INTEGER,
     argument_type := five_args [EBPF_ARGUMENT_TYPE_PTR_TO_BTF_ID, EBPF_ARGUMENT_TYPE_PTR_TO_READABLE_MEM, EBPF_ARGUMENT_TYPE_CONST_SIZE_OR_ZERO, EBPF_ARGUMENT_TYPE_ANYTHING]\<rparr>"

definition bpf_skb_cgroup_classid_proto :: helper_prototype where
  "bpf_skb_cgroup_classid_proto = zero_proto\<lparr>proto_name := ''skb_cgroup_classid'',
     return_type := EBPF_RETURN_TYPE_INTEGER,
     argument_type := five_args [EBPF_ARGUMENT_TYPE_PTR_TO_CTX]\<rparr>"

definition bpf_redirect_neigh_proto :: helper_prototype where
  "bpf_redirect_neigh_proto = zero_proto\<lparr>proto_name := ''redirect_neigh'',
     return_type := EBPF_RETURN_TYPE_INTEGER,
     argument_type := five_args [EBPF_ARGUMENT_TYPE_ANYTHING, EBPF_ARGUMENT_TYPE_PTR_TO_READABLE_MEM_OR_NULL, EBPF_ARGUMENT_TYPE_CONST_SIZE_OR_ZERO, EBPF_ARGUMENT_TYPE_ANYTHING]\<rparr>"

definition bpf_redirect_peer_proto :: helper_prototype where
  "bpf_redirect_peer_proto = zero_proto\<lparr>proto_name := ''redirect_peer'',
     return_type := EBPF_RETURN_TYPE_INTEGER,
     argument_type := five_args [EBPF_ARGUMENT_TYPE_ANYTHING, EBPF_ARGUMENT_TYPE_ANYTHING]\<rparr>"

definition bpf_task_storage_get_proto :: helper_prototype where
  "bpf_task_storage_get_proto = zero_proto\<lparr>proto_name := ''task_storage_get'',
     return_type := EBPF_RETURN_TYPE_PTR_TO_MAP_VALUE_OR_NULL,
     argument_type := five_args [EBPF_ARGUMENT_TYPE_PTR_TO_MAP, EBPF_ARGUMENT_TYPE_PTR_TO_BTF_ID, EBPF_ARGUMENT_TYPE_PTR_TO_MAP_VALUE_OR_NULL, EBPF_ARGUMENT_TYPE_ANYTHING]\<rparr>"

definition bpf_task_storage_delete_proto :: helper_prototype where
  "bpf_task_storage_delete_proto = zero_proto\<lparr>proto_name := ''task_storage_delete'',
     return_type := EBPF_RETURN_TYPE_INTEGER,
     argument_type := five_args [EBPF_ARGUMENT_TYPE_PTR_TO_MAP, EBPF_ARGUMENT_TYPE_PTR_TO_BTF_ID]\<rparr>"

definition bpf_get_current_task_btf_proto :: helper_prototype where
  "bpf_get_current_task_btf_proto = zero_proto\<lparr>proto_name := ''get_current_task_btf'',
     return_type := EBPF_RETURN_TYPE_PTR_TO_BTF_ID\<rparr>"

definition bpf_bprm_opts_set_proto :: helper_prototype where
  "bpf_bprm_opts_set_proto = zero_proto\<lparr>proto_name := ''bprm_opts_set'',
     return_type := EBPF_RETURN_TYPE_INTEGER,
     argument_type := five_args [EBPF_ARGUMENT_TYPE_PTR_TO_BTF_ID, EBPF_ARGUMENT_TYPE_ANYTHING]\<rparr>"

definition bpf_ima_inode_hash_proto :: helper_prototype where
  "bpf_ima_inode_hash_proto = zero_proto\<lparr>proto_name := ''ima_inode_hash'',
     return_type := EBPF_RETURN_TYPE_INTEGER,
     argument_type := five_args [EBPF_ARGUMENT_TYPE_PTR_TO_BTF_ID, EBPF_ARGUMENT_TYPE_PTR_TO_WRITABLE_MEM, EBPF_ARGUMENT_TYPE_CONST_SIZE]\<rparr>"

definition bpf_ktime_get_coarse_ns_proto :: helper_prototype where
  "bpf_ktime_get_coarse_ns_proto = zero_proto\<lparr>proto_name := ''ktime_get_coarse_ns'',
     return_type := EBPF_RETURN_TYPE_INTEGER\<rparr>"

definition bpf_check_mtu_proto :: helper_prototype where
  "bpf_check_mtu_proto = zero_proto\<lparr>proto_name := ''check_mtu'',
     return_type := EBPF_RETURN_TYPE_INTEGER,
     argument_type := five_args [EBPF_ARGUMENT_TYPE_PTR_TO_CTX, EBPF_ARGUMENT_TYPE_ANYTHING, EBPF_ARGUMENT_TYPE_PTR_TO_INT, EBPF_ARGUMENT_TYPE_ANYTHING, EBPF_ARGUMENT_TYPE_ANYTHING]\<rparr>"

definition bpf_for_each_map_elem_proto :: helper_prototype where
  "bpf_for_each_map_elem_proto = zero_proto\<lparr>proto_name := ''for_each_map_elem'',
     return_type := EBPF_RETURN_TYPE_INTEGER,
     argument_type := five_args [EBPF_ARGUMENT_TYPE_PTR_TO_MAP, EBPF_ARGUMENT_TYPE_PTR_TO_FUNC, EBPF_ARGUMENT_TYPE_PTR_TO_STACK_OR_NULL, EBPF_ARGUMENT_TYPE_ANYTHING]\<rparr>"

definition bpf_snprintf_proto :: helper_prototype where
  "bpf_snprintf_proto = zero_proto\<lparr>proto_name := ''snprintf'',
     return_type := EBPF_RETURN_TYPE_INTEGER,
     argument_type := five_args [EBPF_ARGUMENT_TYPE_PTR_TO_READABLE_MEM_OR_NULL, EBPF_ARGUMENT_TYPE_CONST_SIZE_OR_ZERO, EBPF_ARGUMENT_TYPE_PTR_TO_CONST_STR, EBPF_ARGUMENT_TYPE_PTR_TO_READONLY_MEM_OR_NULL, EBPF_ARGUMENT_TYPE_CONST_SIZE_OR_ZERO]\<rparr>"

definition bpf_sys_bpf_proto :: helper_prototype where
  "bpf_sys_bpf_proto = zero_proto\<lparr>proto_name := ''sys_bpf'',
     return_type := EBPF_RETURN_TYPE_INTEGER,
     argument_type := five_args [EBPF_ARGUMENT_TYPE_ANYTHING, EBPF_ARGUMENT_TYPE_PTR_TO_READONLY_MEM, EBPF_ARGUMENT_TYPE_CONST_SIZE]\<rparr>"

definition bpf_btf_find_by_name_kind_proto :: helper_prototype where
  "bpf_btf_find_by_name_kind_proto = zero_proto\<lparr>proto_name := ''btf_find_by_name_kind'',
     return_type := EBPF_RETURN_TYPE_INTEGER,
     argument_type := five_args [EBPF_ARGUMENT_TYPE_PTR_TO_READONLY_MEM, EBPF_ARGUMENT_TYPE_CONST_SIZE, EBPF_ARGUMENT_TYPE_ANYTHING, EBPF_ARGUMENT_TYPE_ANYTHING]\<rparr>"

definition bpf_sys_close_proto :: helper_prototype where
  "bpf_sys_close_proto = zero_proto\<lparr>proto_name := ''sys_close'',
     return_type := EBPF_RETURN_TYPE_INTEGER,
     argument_type := five_args [EBPF_ARGUMENT_TYPE_ANYTHING]\<rparr>"

definition bpf_kallsyms_lookup_name_proto :: helper_prototype where
  "bpf_kallsyms_lookup_name_proto = zero_proto\<lparr>proto_name := ''kallsyms_lookup_name'',
     return_type := EBPF_RETURN_TYPE_INTEGER,
     argument_type := five_args [EBPF_ARGUMENT_TYPE_PTR_TO_READABLE_MEM, EBPF_ARGUMENT_TYPE_CONST_SIZE_OR_ZERO, EBPF_ARGUMENT_TYPE_ANYTHING, EBPF_ARGUMENT_TYPE_PTR_TO_LONG]\<rparr>"

definition bpf_timer_init_proto :: helper_prototype where
  "bpf_timer_init_proto = zero_proto\<lparr>proto_name := ''timer_init'',
     return_type := EBPF_RETURN_TYPE_INTEGER,
     argument_type := five_args [EBPF_ARGUMENT_TYPE_PTR_TO_TIMER, EBPF_ARGUMENT_TYPE_CONST_PTR_TO_MAP, EBPF_ARGUMENT_TYPE_ANYTHING]\<rparr>"

definition bpf_timer_set_callback_proto :: helper_prototype where
  "bpf_timer_set_callback_proto = zero_proto\<lparr>proto_name := ''timer_set_callback'',
     return_type := EBPF_RETURN_TYPE_INTEGER,
     argument_type := five_args [EBPF_ARGUMENT_TYPE_PTR_TO_TIMER, EBPF_ARGUMENT_TYPE_PTR_TO_FUNC]\<rparr>"

definition bpf_timer_start_proto :: helper_prototype where
  "bpf_timer_start_proto = zero_proto\<lparr>proto_name := ''timer_start'',
     return_type := EBPF_RETURN_TYPE_INTEGER,
     argument_type := five_args [EBPF_ARGUMENT_TYPE_PTR_TO_TIMER, EBPF_ARGUMENT_TYPE_ANYTHING, EBPF_ARGUMENT_TYPE_ANYTHING]\<rparr>"

definition bpf_timer_cancel_proto :: helper_prototype where
  "bpf_timer_cancel_proto = zero_proto\<lparr>proto_name := ''timer_cancel'',
     return_type := EBPF_RETURN_TYPE_INTEGER,
     argument_type := five_args [EBPF_ARGUMENT_TYPE_PTR_TO_TIMER]\<rparr>"

definition bpf_get_func_ip_proto :: helper_prototype where
  "bpf_get_func_ip_proto = zero_proto\<lparr>proto_name := ''get_func_ip'',
     return_type := EBPF_RETURN_TYPE_INTEGER,
     argument_type := five_args [EBPF_ARGUMENT_TYPE_PTR_TO_CTX]\<rparr>"

definition bpf_get_attach_cookie_proto :: helper_prototype where
  "bpf_get_attach_cookie_proto = zero_proto\<lparr>proto_name := ''get_attach_cookie'',
     return_type := EBPF_RETURN_TYPE_INTEGER,
     argument_type := five_args [EBPF_ARGUMENT_TYPE_PTR_TO_CTX]\<rparr>"

definition bpf_task_pt_regs_proto :: helper_prototype where
  "bpf_task_pt_regs_proto = zero_proto\<lparr>proto_name := ''task_pt_regs'',
     return_type := EBPF_RETURN_TYPE_PTR_TO_BTF_ID,
     argument_type := five_args [EBPF_ARGUMENT_TYPE_PTR_TO_BTF_ID]\<rparr>"

definition bpf_get_branch_snapshot_proto :: helper_prototype where
  "bpf_get_branch_snapshot_proto = zero_proto\<lparr>proto_name := ''get_branch_snapshot'',
     return_type := EBPF_RETURN_TYPE_INTEGER,
     argument_type := five_args [EBPF_ARGUMENT_TYPE_PTR_TO_WRITABLE_MEM, EBPF_ARGUMENT_TYPE_CONST_SIZE_OR_ZERO]\<rparr>"

definition bpf_get_func_arg_proto :: helper_prototype where
  "bpf_get_func_arg_proto = zero_proto\<lparr>proto_name := ''get_func_arg'',
     return_type := EBPF_RETURN_TYPE_INTEGER,
     argument_type := five_args [EBPF_ARGUMENT_TYPE_PTR_TO_CTX, EBPF_ARGUMENT_TYPE_ANYTHING, EBPF_ARGUMENT_TYPE_PTR_TO_LONG]\<rparr>"

definition bpf_get_func_ret_proto :: helper_prototype where
  "bpf_get_func_ret_proto = zero_proto\<lparr>proto_name := ''get_func_ret'',
     return_type := EBPF_RETURN_TYPE_INTEGER,
     argument_type := five_args [EBPF_ARGUMENT_TYPE_PTR_TO_CTX, EBPF_ARGUMENT_TYPE_PTR_TO_LONG]\<rparr>"

definition bpf_get_func_arg_cnt_proto :: helper_prototype where
  "bpf_get_func_arg_cnt_proto = zero_proto\<lparr>proto_name := ''get_func_arg_cnt'',
     return_type := EBPF_RETURN_TYPE_INTEGER,
     argument_type := five_args [EBPF_ARGUMENT_TYPE_PTR_TO_CTX]\<rparr>"

definition bpf_trace_vprintk_proto :: helper_prototype where
  "bpf_trace_vprintk_proto = zero_proto\<lparr>proto_name := ''trace_vprintk'',
     return_type := EBPF_RETURN_TYPE_INTEGER,
     argument_type := five_args [EBPF_ARGUMENT_TYPE_PTR_TO_READONLY_MEM, EBPF_ARGUMENT_TYPE_CONST_SIZE, EBPF_ARGUMENT_TYPE_PTR_TO_READONLY_MEM_OR_NULL, EBPF_ARGUMENT_TYPE_CONST_SIZE_OR_ZERO]\<rparr>"

definition bpf_skc_to_unix_sock_proto :: helper_prototype where
  "bpf_skc_to_unix_sock_proto = zero_proto\<lparr>proto_name := ''skc_to_unix_sock'',
     return_type := EBPF_RETURN_TYPE_PTR_TO_BTF_ID_OR_NULL,
     argument_type := five_args [EBPF_ARGUMENT_TYPE_PTR_TO_BTF_ID_SOCK_COMMON]\<rparr>"

definition bpf_find_vma_proto :: helper_prototype where
  "bpf_find_vma_proto = zero_proto\<lparr>proto_name := ''find_vma'',
     return_type := EBPF_RETURN_TYPE_INTEGER,
     argument_type := five_args [EBPF_ARGUMENT_TYPE_PTR_TO_BTF_ID, EBPF_ARGUMENT_TYPE_ANYTHING, EBPF_ARGUMENT_TYPE_PTR_TO_FUNC, EBPF_ARGUMENT_TYPE_PTR_TO_STACK_OR_NULL, EBPF_ARGUMENT_TYPE_ANYTHING]\<rparr>"

definition bpf_loop_proto :: helper_prototype where
  "bpf_loop_proto = zero_proto\<lparr>proto_name := ''loop'',
     return_type := EBPF_RETURN_TYPE_INTEGER,
     argument_type := five_args [EBPF_ARGUMENT_TYPE_ANYTHING, EBPF_ARGUMENT_TYPE_PTR_TO_FUNC, EBPF_ARGUMENT_TYPE_PTR_TO_STACK_OR_NULL, EBPF_ARGUMENT_TYPE_ANYTHING]\<rparr>"

definition bpf_map_lookup_percpu_elem_proto :: helper_prototype where
  "bpf_map_lookup_percpu_elem_proto = zero_proto\<lparr>proto_name := ''map_lookup_percpu_elem'',
     return_type := EBPF_RETURN_TYPE_PTR_TO_MAP_VALUE_OR_NULL,
     argument_type := five_args [EBPF_ARGUMENT_TYPE_PTR_TO_MAP, EBPF_ARGUMENT_TYPE_PTR_TO_MAP_KEY, EBPF_ARGUMENT_TYPE_ANYTHING, EBPF_ARGUMENT_TYPE_DONTCARE, EBPF_ARGUMENT_TYPE_DONTCARE]\<rparr>"

definition bpf_ktime_get_tai_ns_proto :: helper_prototype where
  "bpf_ktime_get_tai_ns_proto = zero_proto\<lparr>proto_name := ''ktime_get_tai_ns'',
     return_type := EBPF_RETURN_TYPE_INTEGER\<rparr>"

definition bpf_ringbuf_reserve_dynptr_proto :: helper_prototype where
  "bpf_ringbuf_reserve_dynptr_proto = zero_proto\<lparr>proto_name := ''ringbuf_reserve_dynptr'',
     return_type := EBPF_RETURN_TYPE_PTR_TO_ALLOC_MEM_OR_NULL,
     argument_type := five_args [EBPF_ARGUMENT_TYPE_PTR_TO_MAP, EBPF_ARGUMENT_TYPE_ANYTHING, EBPF_ARGUMENT_TYPE_ANYTHING, EBPF_ARGUMENT_TYPE_ANYTHING],
     proto_unsupported := True\<rparr>"

definition bpf_ringbuf_submit_dynptr_proto :: helper_prototype where
  "bpf_ringbuf_submit_dynptr_proto = zero_proto\<lparr>proto_name := ''ringbuf_submit_dynptr'',
     return_type := EBPF_RETURN_TYPE_INTEGER,
     argument_type := five_args [EBPF_ARGUMENT_TYPE_ANYTHING, EBPF_ARGUMENT_TYPE_ANYTHING],
     proto_unsupported := True\<rparr>"

definition bpf_ringbuf_discard_dynptr_proto :: helper_prototype where
  "bpf_ringbuf_discard_dynptr_proto = zero_proto\<lparr>proto_name := ''ringbuf_discard_dynptr'',
     return_type := EBPF_RETURN_TYPE_INTEGER,
     argument_type := five_args [EBPF_ARGUMENT_TYPE_ANYTHING, EBPF_ARGUMENT_TYPE_ANYTHING],
     proto_unsupported := True\<rparr>"

definition bpf_skc_to_mptcp_sock_proto :: helper_prototype where
  "bpf_skc_to_mptcp_sock_proto = zero_proto\<lparr>proto_name := ''skc_to_mptcp_sock'',
     return_type := EBPF_RETURN_TYPE_PTR_TO_BTF_ID_OR_NULL,
     argument_type := five_args [EBPF_ARGUMENT_TYPE_PTR_TO_BTF_ID_SOCK_COMMON]\<rparr>"

definition bpf_copy_from_user_task_proto :: helper_prototype where
  "bpf_copy_from_user_task_proto = zero_proto\<lparr>proto_name := ''copy_from_user_task'',
     return_type := EBPF_RETURN_TYPE_INTEGER,
     argument_type := five_args [EBPF_ARGUMENT_TYPE_PTR_TO_WRITABLE_MEM, EBPF_ARGUMENT_TYPE_CONST_SIZE_OR_ZERO, EBPF_ARGUMENT_TYPE_ANYTHING, EBPF_ARGUMENT_TYPE_PTR_TO_BTF_ID, EBPF_ARGUMENT_TYPE_ANYTHING]\<rparr>"

definition bpf_set_retval_proto :: helper_prototype where
  "bpf_set_retval_proto = zero_proto\<lparr>proto_name := ''set_retval'',
     return_type := EBPF_RETURN_TYPE_INTEGER,
     argument_type := five_args [EBPF_ARGUMENT_TYPE_ANYTHING]\<rparr>"

definition bpf_get_retval_proto :: helper_prototype where
  "bpf_get_retval_proto = zero_proto\<lparr>proto_name := ''get_retval'',
     return_type := EBPF_RETURN_TYPE_INTEGER\<rparr>"

definition bpf_user_ringbuf_drain_proto :: helper_prototype where
  "bpf_user_ringbuf_drain_proto = zero_proto\<lparr>proto_name := ''user_ringbuf_drain'',
     return_type := EBPF_RETURN_TYPE_INTEGER,
     argument_type := five_args [EBPF_ARGUMENT_TYPE_PTR_TO_MAP, EBPF_ARGUMENT_TYPE_PTR_TO_FUNC, EBPF_ARGUMENT_TYPE_PTR_TO_STACK_OR_NULL, EBPF_ARGUMENT_TYPE_ANYTHING],
     proto_unsupported := True\<rparr>"

definition bpf_cgrp_storage_get_proto :: helper_prototype where
  "bpf_cgrp_storage_get_proto = zero_proto\<lparr>proto_name := ''cgrp_storage_get'',
     return_type := EBPF_RETURN_TYPE_PTR_TO_MAP_VALUE_OR_NULL,
     argument_type := five_args [EBPF_ARGUMENT_TYPE_PTR_TO_MAP, EBPF_ARGUMENT_TYPE_PTR_TO_BTF_ID, EBPF_ARGUMENT_TYPE_PTR_TO_MAP_VALUE, EBPF_ARGUMENT_TYPE_ANYTHING]\<rparr>"

definition bpf_cgrp_storage_delete_proto :: helper_prototype where
  "bpf_cgrp_storage_delete_proto = zero_proto\<lparr>proto_name := ''cgrp_storage_delete'',
     return_type := EBPF_RETURN_TYPE_INTEGER,
     argument_type := five_args [EBPF_ARGUMENT_TYPE_PTR_TO_MAP, EBPF_ARGUMENT_TYPE_PTR_TO_BTF_ID]\<rparr>"

definition bpf_skb_ancestor_cgroup_id_proto :: helper_prototype where
  "bpf_skb_ancestor_cgroup_id_proto = zero_proto\<lparr>proto_name := ''skb_ancestor_cgroup_id'',
     return_type := EBPF_RETURN_TYPE_INTEGER,
     argument_type := five_args [EBPF_ARGUMENT_TYPE_PTR_TO_CTX, EBPF_ARGUMENT_TYPE_ANYTHING],
     context_descriptor := Some g_sk_buff\<rparr>"

definition bpf_get_netns_cookie_proto :: helper_prototype where
  "bpf_get_netns_cookie_proto = zero_proto\<lparr>proto_name := ''get_netns_cookie'',
     return_type := EBPF_RETURN_TYPE_INTEGER,
     argument_type := five_args [EBPF_ARGUMENT_TYPE_PTR_TO_CTX_OR_NULL]\<rparr>"

definition bpf_load_hdr_opt_proto :: helper_prototype where
  "bpf_load_hdr_opt_proto = zero_proto\<lparr>proto_name := ''load_hdr_opt'',
     return_type := EBPF_RETURN_TYPE_INTEGER,
     argument_type := five_args [EBPF_ARGUMENT_TYPE_PTR_TO_CTX, EBPF_ARGUMENT_TYPE_PTR_TO_WRITABLE_MEM, EBPF_ARGUMENT_TYPE_CONST_SIZE, EBPF_ARGUMENT_TYPE_ANYTHING],
     context_descriptor := Some g_sock_ops_descr\<rparr>"

definition bpf_store_hdr_opt_proto :: helper_prototype where
  "bpf_store_hdr_opt_proto = zero_proto\<lparr>proto_name := ''store_hdr_opt'',
     return_type := EBPF_RETURN_TYPE_INTEGER,
     argument_type := five_args [EBPF_ARGUMENT_TYPE_PTR_TO_CTX, EBPF_ARGUMENT_TYPE_PTR_TO_READABLE_MEM, EBPF_ARGUMENT_TYPE_CONST_SIZE, EBPF_ARGUMENT_TYPE_ANYTHING],
     context_descriptor := Some g_sock_ops_descr\<rparr>"

definition bpf_reserve_hdr_opt_proto :: helper_prototype where
  "bpf_reserve_hdr_opt_proto = zero_proto\<lparr>proto_name := ''reserve_hdr_opt'',
     return_type := EBPF_RETURN_TYPE_INTEGER,
     argument_type := five_args [EBPF_ARGUMENT_TYPE_PTR_TO_CTX, EBPF_ARGUMENT_TYPE_ANYTHING, EBPF_ARGUMENT_TYPE_ANYTHING],
     context_descriptor := Some g_sock_ops_descr\<rparr>"

definition bpf_xdp_get_buff_len_proto :: helper_prototype where
  "bpf_xdp_get_buff_len_proto = zero_proto\<lparr>proto_name := ''xdp_get_buff_len'',
     return_type := EBPF_RETURN_TYPE_INTEGER,
     argument_type := five_args [EBPF_ARGUMENT_TYPE_PTR_TO_CTX],
     context_descriptor := Some g_xdp_md\<rparr>"

definition bpf_xdp_load_bytes_proto :: helper_prototype where
  "bpf_xdp_load_bytes_proto = zero_proto\<lparr>proto_name := ''xdp_load_bytes'',
     return_type := EBPF_RETURN_TYPE_INTEGER,
     argument_type := five_args [EBPF_ARGUMENT_TYPE_PTR_TO_CTX, EBPF_ARGUMENT_TYPE_ANYTHING, EBPF_ARGUMENT_TYPE_PTR_TO_WRITABLE_MEM, EBPF_ARGUMENT_TYPE_CONST_SIZE],
     context_descriptor := Some g_xdp_md\<rparr>"

definition bpf_xdp_store_bytes_proto :: helper_prototype where
  "bpf_xdp_store_bytes_proto = zero_proto\<lparr>proto_name := ''xdp_store_bytes'',
     return_type := EBPF_RETURN_TYPE_INTEGER,
     argument_type := five_args [EBPF_ARGUMENT_TYPE_PTR_TO_CTX, EBPF_ARGUMENT_TYPE_ANYTHING, EBPF_ARGUMENT_TYPE_PTR_TO_READABLE_MEM, EBPF_ARGUMENT_TYPE_CONST_SIZE],
     context_descriptor := Some g_xdp_md\<rparr>"

definition bpf_skb_set_tstamp_proto :: helper_prototype where
  "bpf_skb_set_tstamp_proto = zero_proto\<lparr>proto_name := ''skb_set_tstamp'',
     return_type := EBPF_RETURN_TYPE_INTEGER,
     argument_type := five_args [EBPF_ARGUMENT_TYPE_PTR_TO_CTX, EBPF_ARGUMENT_TYPE_ANYTHING, EBPF_ARGUMENT_TYPE_ANYTHING],
     context_descriptor := Some g_sk_buff\<rparr>"

definition bpf_ima_file_hash_proto :: helper_prototype where
  "bpf_ima_file_hash_proto = zero_proto\<lparr>proto_name := ''ima_file_hash'',
     return_type := EBPF_RETURN_TYPE_INTEGER,
     argument_type := five_args [EBPF_ARGUMENT_TYPE_PTR_TO_BTF_ID, EBPF_ARGUMENT_TYPE_PTR_TO_WRITABLE_MEM, EBPF_ARGUMENT_TYPE_CONST_SIZE]\<rparr>"

definition bpf_kptr_xchg_proto :: helper_prototype where
  "bpf_kptr_xchg_proto = zero_proto\<lparr>proto_name := ''kptr_xchg'',
     return_type := EBPF_RETURN_TYPE_PTR_TO_BTF_ID_OR_NULL,
     argument_type := five_args [EBPF_ARGUMENT_TYPE_PTR_TO_MAP_VALUE, EBPF_ARGUMENT_TYPE_PTR_TO_BTF_ID]\<rparr>"

definition bpf_dynptr_from_mem_proto :: helper_prototype where
  "bpf_dynptr_from_mem_proto = zero_proto\<lparr>proto_name := ''dynptr_from_mem'',
     return_type := EBPF_RETURN_TYPE_INTEGER,
     argument_type := five_args [EBPF_ARGUMENT_TYPE_PTR_TO_MAP_VALUE, EBPF_ARGUMENT_TYPE_ANYTHING, EBPF_ARGUMENT_TYPE_ANYTHING, EBPF_ARGUMENT_TYPE_PTR_TO_WRITABLE_MEM],
     proto_unsupported := True\<rparr>"

definition bpf_dynptr_read_proto :: helper_prototype where
  "bpf_dynptr_read_proto = zero_proto\<lparr>proto_name := ''dynptr_read'',
     return_type := EBPF_RETURN_TYPE_INTEGER,
     argument_type := five_args [EBPF_ARGUMENT_TYPE_PTR_TO_WRITABLE_MEM, EBPF_ARGUMENT_TYPE_CONST_SIZE, EBPF_ARGUMENT_TYPE_PTR_TO_READABLE_MEM, EBPF_ARGUMENT_TYPE_ANYTHING, EBPF_ARGUMENT_TYPE_ANYTHING],
     proto_unsupported := True\<rparr>"

definition bpf_dynptr_write_proto :: helper_prototype where
  "bpf_dynptr_write_proto = zero_proto\<lparr>proto_name := ''dynptr_write'',
     return_type := EBPF_RETURN_TYPE_INTEGER,
     argument_type := five_args [EBPF_ARGUMENT_TYPE_PTR_TO_WRITABLE_MEM, EBPF_ARGUMENT_TYPE_ANYTHING, EBPF_ARGUMENT_TYPE_PTR_TO_READABLE_MEM, EBPF_ARGUMENT_TYPE_CONST_SIZE, EBPF_ARGUMENT_TYPE_ANYTHING],
     proto_unsupported := True\<rparr>"

definition bpf_dynptr_data_proto :: helper_prototype where
  "bpf_dynptr_data_proto = zero_proto\<lparr>proto_name := ''dynptr_data'',
     return_type := EBPF_RETURN_TYPE_PTR_TO_MEM_OR_BTF_ID_OR_NULL,
     argument_type := five_args [EBPF_ARGUMENT_TYPE_PTR_TO_READABLE_MEM, EBPF_ARGUMENT_TYPE_ANYTHING, EBPF_ARGUMENT_TYPE_ANYTHING],
     proto_unsupported := True\<rparr>"

definition bpf_tcp_raw_gen_syncookie_ipv4_proto :: helper_prototype where
  "bpf_tcp_raw_gen_syncookie_ipv4_proto = zero_proto\<lparr>proto_name := ''tcp_raw_gen_syncookie_ipv4'',
     return_type := EBPF_RETURN_TYPE_INTEGER,
     argument_type := five_args [EBPF_ARGUMENT_TYPE_PTR_TO_READABLE_MEM, EBPF_ARGUMENT_TYPE_PTR_TO_READABLE_MEM, EBPF_ARGUMENT_TYPE_ANYTHING]\<rparr>"

definition bpf_tcp_raw_gen_syncookie_ipv6_proto :: helper_prototype where
  "bpf_tcp_raw_gen_syncookie_ipv6_proto = zero_proto\<lparr>proto_name := ''tcp_raw_gen_syncookie_ipv6'',
     return_type := EBPF_RETURN_TYPE_INTEGER,
     argument_type := five_args [EBPF_ARGUMENT_TYPE_PTR_TO_READABLE_MEM, EBPF_ARGUMENT_TYPE_PTR_TO_READABLE_MEM, EBPF_ARGUMENT_TYPE_ANYTHING]\<rparr>"

definition bpf_tcp_raw_check_syncookie_ipv4_proto :: helper_prototype where
  "bpf_tcp_raw_check_syncookie_ipv4_proto = zero_proto\<lparr>proto_name := ''tcp_raw_check_syncookie_ipv4'',
     return_type := EBPF_RETURN_TYPE_INTEGER,
     argument_type := five_args [EBPF_ARGUMENT_TYPE_PTR_TO_READABLE_MEM, EBPF_ARGUMENT_TYPE_PTR_TO_READABLE_MEM]\<rparr>"

definition bpf_tcp_raw_check_syncookie_ipv6_proto :: helper_prototype where
  "bpf_tcp_raw_check_syncookie_ipv6_proto = zero_proto\<lparr>proto_name := ''tcp_raw_check_syncookie_ipv6'',
     return_type := EBPF_RETURN_TYPE_INTEGER,
     argument_type := five_args [EBPF_ARGUMENT_TYPE_PTR_TO_READABLE_MEM, EBPF_ARGUMENT_TYPE_PTR_TO_READABLE_MEM]\<rparr>"

definition prototypes :: "helper_prototype list" where
  "prototypes =
     [bpf_unspec_proto,
      bpf_map_lookup_elem_proto,
      bpf_map_update_elem_proto,
      bpf_map_delete_elem_proto,
      bpf_probe_read_proto,
      bpf_ktime_get_ns_proto,
      bpf_trace_printk_proto,
      bpf_get_prandom_u32_proto,
      bpf_get_smp_processor_id_proto,
      bpf_skb_store_bytes_proto,
      bpf_l3_csum_replace_proto,
      bpf_l4_csum_replace_proto,
      bpf_tail_call_proto,
      bpf_clone_redirect_proto,
      bpf_get_current_pid_tgid_proto,
      bpf_get_current_uid_gid_proto,
      bpf_get_current_comm_proto,
      bpf_get_cgroup_classid_proto,
      bpf_skb_vlan_push_proto,
      bpf_skb_vlan_pop_proto,
      bpf_skb_get_tunnel_key_proto,
      bpf_skb_set_tunnel_key_proto,
      bpf_perf_event_read_proto,
      bpf_redirect_proto,
      bpf_get_route_realm_proto,
      bpf_perf_event_output_proto,
      bpf_skb_load_bytes_proto,
      bpf_get_stackid_proto,
      bpf_csum_diff_proto,
      bpf_skb_get_tunnel_opt_proto,
      bpf_skb_set_tunnel_opt_proto,
      bpf_skb_change_proto_proto,
      bpf_skb_change_type_proto,
      bpf_skb_under_cgroup_proto,
      bpf_get_hash_recalc_proto,
      bpf_get_current_task_proto,
      bpf_probe_write_user_proto,
      bpf_current_task_under_cgroup_proto,
      bpf_skb_change_tail_proto,
      bpf_skb_pull_data_proto,
      bpf_csum_update_proto,
      bpf_set_hash_invalid_proto,
      bpf_get_numa_node_id_proto,
      bpf_skb_change_head_proto,
      bpf_xdp_adjust_head_proto,
      bpf_probe_read_str_proto,
      bpf_get_socket_cookie_proto,
      bpf_get_socket_uid_proto,
      bpf_set_hash_proto,
      bpf_setsockopt_proto,
      bpf_skb_adjust_room_proto,
      bpf_redirect_map_proto,
      bpf_sk_redirect_map_proto,
      bpf_sock_map_update_proto,
      bpf_xdp_adjust_meta_proto,
      bpf_perf_event_read_value_proto,
      bpf_perf_prog_read_value_proto,
      bpf_getsockopt_proto,
      bpf_override_return_proto,
      bpf_sock_ops_cb_flags_set_proto,
      bpf_msg_redirect_map_proto,
      bpf_msg_apply_bytes_proto,
      bpf_msg_cork_bytes_proto,
      bpf_msg_pull_data_proto,
      bpf_bind_proto,
      bpf_xdp_adjust_tail_proto,
      bpf_skb_get_xfrm_state_proto,
      bpf_get_stack_proto,
      bpf_skb_load_bytes_relative_proto,
      bpf_fib_lookup_proto,
      bpf_sock_hash_update_proto,
      bpf_msg_redirect_hash_proto,
      bpf_sk_redirect_hash_proto,
      bpf_lwt_push_encap_proto,
      bpf_lwt_seg6_store_bytes_proto,
      bpf_lwt_seg6_adjust_srh_proto,
      bpf_lwt_seg6_action_proto,
      bpf_rc_repeat_proto,
      bpf_rc_keydown_proto,
      bpf_skb_cgroup_id_proto,
      bpf_get_current_cgroup_id_proto,
      bpf_get_local_storage_proto,
      bpf_sk_select_reuseport_proto,
      bpf_skb_ancestor_cgroup_id_proto,
      bpf_sk_lookup_tcp_proto,
      bpf_sk_lookup_udp_proto,
      bpf_sk_release_proto,
      bpf_map_push_elem_proto,
      bpf_map_pop_elem_proto,
      bpf_map_peek_elem_proto,
      bpf_msg_push_data_proto,
      bpf_msg_pop_data_proto,
      bpf_rc_pointer_rel_proto,
      bpf_spin_lock_proto,
      bpf_spin_unlock_proto,
      bpf_sk_fullsock_proto,
      bpf_tcp_sock_proto,
      bpf_skb_ecn_set_ce_proto,
      bpf_get_listener_sock_proto,
      bpf_skc_lookup_tcp_proto,
      bpf_tcp_check_syncookie_proto,
      bpf_sysctl_get_name_proto,
      bpf_sysctl_get_current_value_proto,
      bpf_sysctl_get_new_value_proto,
      bpf_sysctl_set_new_value_proto,
      bpf_strtol_proto,
      bpf_strtoul_proto,
      bpf_sk_storage_get_proto,
      bpf_sk_storage_delete_proto,
      bpf_send_signal_proto,
      bpf_tcp_gen_syncookie_proto,
      bpf_skb_output_proto,
      bpf_probe_read_user_proto,
      bpf_probe_read_kernel_proto,
      bpf_probe_read_user_str_proto,
      bpf_probe_read_kernel_str_proto,
      bpf_tcp_send_ack_proto,
      bpf_send_signal_thread_proto,
      bpf_jiffies64_proto,
      bpf_read_branch_records_proto,
      bpf_get_ns_current_pid_tgid_proto,
      bpf_xdp_output_proto,
      bpf_get_netns_cookie_proto,
      bpf_get_current_ancestor_cgroup_id_proto,
      bpf_sk_assign_proto,
      bpf_ktime_get_boot_ns_proto,
      bpf_seq_printf_proto,
      bpf_seq_write_proto,
      bpf_sk_cgroup_id_proto,
      bpf_sk_ancestor_cgroup_id_proto,
      bpf_ringbuf_output_proto,
      bpf_ringbuf_reserve_proto,
      bpf_ringbuf_submit_proto,
      bpf_ringbuf_discard_proto,
      bpf_ringbuf_query_proto,
      bpf_csum_level_proto,
      bpf_skc_to_tcp6_sock_proto,
      bpf_skc_to_tcp_sock_proto,
      bpf_skc_to_tcp_timewait_sock_proto,
      bpf_skc_to_tcp_request_sock_proto,
      bpf_skc_to_udp6_sock_proto,
      bpf_get_task_stack_proto,
      bpf_load_hdr_opt_proto,
      bpf_store_hdr_opt_proto,
      bpf_reserve_hdr_opt_proto,
      bpf_inode_storage_get_proto,
      bpf_inode_storage_delete_proto,
      bpf_d_path_proto,
      bpf_copy_from_user_proto,
      bpf_snprintf_btf_proto,
      bpf_seq_printf_btf_proto,
      bpf_skb_cgroup_classid_proto,
      bpf_redirect_neigh_proto,
      bpf_per_cpu_ptr_proto,
      bpf_this_cpu_ptr_proto,
      bpf_redirect_peer_proto,
      bpf_task_storage_get_proto,
      bpf_task_storage_delete_proto,
      bpf_get_current_task_btf_proto,
      bpf_bprm_opts_set_proto,
      bpf_ktime_get_coarse_ns_proto,
      bpf_ima_inode_hash_proto,
      bpf_sock_from_file_proto,
      bpf_check_mtu_proto,
      bpf_for_each_map_elem_proto,
      bpf_snprintf_proto,
      bpf_sys_bpf_proto,
      bpf_btf_find_by_name_kind_proto,
      bpf_sys_close_proto,
      bpf_timer_init_proto,
      bpf_timer_set_callback_proto,
      bpf_timer_start_proto,
      bpf_timer_cancel_proto,
      bpf_get_func_ip_proto,
      bpf_get_attach_cookie_proto,
      bpf_task_pt_regs_proto,
      bpf_get_branch_snapshot_proto,
      bpf_trace_vprintk_proto,
      bpf_skc_to_unix_sock_proto,
      bpf_kallsyms_lookup_name_proto,
      bpf_find_vma_proto,
      bpf_loop_proto,
      bpf_strncmp_proto,
      bpf_get_func_arg_proto,
      bpf_get_func_ret_proto,
      bpf_get_func_arg_cnt_proto,
      bpf_get_retval_proto,
      bpf_set_retval_proto,
      bpf_xdp_get_buff_len_proto,
      bpf_xdp_load_bytes_proto,
      bpf_xdp_store_bytes_proto,
      bpf_copy_from_user_task_proto,
      bpf_skb_set_tstamp_proto,
      bpf_ima_file_hash_proto,
      bpf_kptr_xchg_proto,
      bpf_map_lookup_percpu_elem_proto,
      bpf_skc_to_mptcp_sock_proto,
      bpf_dynptr_from_mem_proto,
      bpf_ringbuf_reserve_dynptr_proto,
      bpf_ringbuf_submit_dynptr_proto,
      bpf_ringbuf_discard_dynptr_proto,
      bpf_dynptr_read_proto,
      bpf_dynptr_write_proto,
      bpf_dynptr_data_proto,
      bpf_tcp_raw_gen_syncookie_ipv4_proto,
      bpf_tcp_raw_gen_syncookie_ipv6_proto,
      bpf_tcp_raw_check_syncookie_ipv4_proto,
      bpf_tcp_raw_check_syncookie_ipv6_proto,
      bpf_ktime_get_tai_ns_proto,
      bpf_user_ringbuf_drain_proto,
      bpf_cgrp_storage_get_proto,
      bpf_cgrp_storage_delete_proto]"

end
