(* ===== verification/Linux_Platform.thy ===== *)
theory Linux_Platform
  imports Linux_Prototypes Assertions
begin

text \<open>
  The Linux platform (\<^verbatim>\<open>linux/linux_platform.cpp\<close>, the queries of \<^verbatim>\<open>linux/gpl/spec_prototypes.cpp\<close>) and the
  map cache of \<^verbatim>\<open>elf_loader.cpp\<close>: helper prototypes, program types, map types and map
  descriptors. Preprocessor branches are those of a build without \<^verbatim>\<open>__linux__\<close>, so that native
  type numbers, which the kernel headers define, are zero as the source has them. The thread-local
  \<^verbatim>\<open>ProgramInfo\<close> is an argument: the context descriptor of the program, the cache of maps and the map descriptors.
\<close>

type_synonym u32 = "32 word"

section \<open>Helpers\<close>

definition is_helper_usable_linux :: "context_ref option \<Rightarrow> s32 \<Rightarrow> bool" where
  "is_helper_usable_linux descr n =
     (if sint n \<ge> int (length prototypes) \<or> sint n < 0 then False
      else let p = prototypes ! nat (sint n)
           in if proto_unsupported p then False
              else if context_descriptor p \<noteq> None \<and> context_descriptor p \<noteq> descr then False
              else True)"

definition get_helper_prototype_linux :: "context_ref option \<Rightarrow> s32 \<Rightarrow> helper_prototype result" where
  "get_helper_prototype_linux descr n =
     (if \<not> is_helper_usable_linux descr n then Inl Std_Exception else Inr (prototypes ! nat (sint n)))"

text \<open>
  The callbacks of \<^verbatim>\<open>g_ebpf_platform_linux\<close>. The decoder asks for the prototype of usable helpers only;
  the conformance groups come from the bpf_conformance project and are a parameter.
\<close>

definition g_ebpf_platform_linux :: "context_ref option \<Rightarrow> (bpf_conformance_groups_t \<Rightarrow> bool) \<Rightarrow> ebpf_platform_t" where
  "g_ebpf_platform_linux descr groups =
     \<lparr>get_helper_prototype = (\<lambda>n. EbpfHelperPrototype.truncate
        (case get_helper_prototype_linux descr n of Inr p \<Rightarrow> p | Inl _ \<Rightarrow> zero_proto)),
      is_helper_usable = is_helper_usable_linux descr,
      supports_group = groups\<rparr>"

section \<open>Program types\<close>

record EbpfProgramType =
  pt_name :: string
  pt_context_descriptor :: "context_ref option"
  pt_platform_specific_data :: u64
  pt_section_prefixes :: "string list"
  pt_is_privileged :: bool

definition PTYPE :: "string \<Rightarrow> context_ref \<Rightarrow> string list \<Rightarrow> EbpfProgramType" where
  "PTYPE name descr prefixes =
     \<lparr>pt_name = name, pt_context_descriptor = Some descr, pt_platform_specific_data = 0, pt_section_prefixes = prefixes, pt_is_privileged = False\<rparr>"

definition PTYPE_PRIVILEGED :: "string \<Rightarrow> context_ref \<Rightarrow> string list \<Rightarrow> EbpfProgramType" where
  "PTYPE_PRIVILEGED name descr prefixes = (PTYPE name descr prefixes)\<lparr>pt_is_privileged := True\<rparr>"

definition linux_socket_filter_program_type :: EbpfProgramType where
  "linux_socket_filter_program_type = PTYPE ''socket_filter'' g_socket_filter_descr [''socket'']"

definition linux_xdp_program_type :: EbpfProgramType where
  "linux_xdp_program_type = PTYPE ''xdp'' g_xdp_descr [''xdp'']"

definition cilium_lxc_program_type :: EbpfProgramType where
  "cilium_lxc_program_type = PTYPE ''lxc'' g_sched_descr []"

definition linux_program_types :: "EbpfProgramType list" where
  "linux_program_types =
     [PTYPE ''unspec'' g_unspec_descr [],
      linux_socket_filter_program_type,
      linux_xdp_program_type,
      PTYPE ''cgroup_device'' g_cgroup_dev_descr [''cgroup/dev''],
      PTYPE ''cgroup_skb'' g_socket_filter_descr [''cgroup/skb''],
      PTYPE ''cgroup_sock'' g_cgroup_sock_descr [''cgroup/sock''],
      PTYPE_PRIVILEGED ''kprobe'' g_kprobe_descr [''kprobe/'', ''kretprobe/''],
      PTYPE ''lwt_in'' g_lwt_inout_descr [''lwt_in''],
      PTYPE ''lwt_out'' g_lwt_inout_descr [''lwt_out''],
      PTYPE ''lwt_xmit'' g_lwt_xmit_descr [''lwt_xmit''],
      PTYPE ''perf_event'' g_perf_event_descr [''perf_section'', ''perf_event''],
      PTYPE ''sched_act'' g_sched_descr [''action''],
      PTYPE ''sched_cls'' g_sched_descr [''classifier''],
      PTYPE ''sk_skb'' g_sk_skb_descr [''sk_skb''],
      PTYPE ''sock_ops'' g_sock_ops_descr [''sockops''],
      PTYPE ''tracepoint'' g_tracepoint_descr [''tracepoint/''],
      PTYPE ''sk_msg'' g_sk_msg_md [''sk_msg''],
      PTYPE ''raw_tracepoint'' g_tracepoint_descr [''raw_tracepoint/''],
      PTYPE ''cgroup_sock_addr'' g_cgroup_sock_descr [],
      PTYPE ''lwt_seg6local'' g_lwt_xmit_descr [''lwt_seg6local''],
      PTYPE ''lirc_mode2'' g_sk_msg_md [''lirc_mode2'']]"

text \<open>\<^verbatim>\<open>s.find(x) != npos\<close> and \<^verbatim>\<open>s.find(x) == 0\<close>.\<close>

definition is_prefix :: "string \<Rightarrow> string \<Rightarrow> bool" where
  "is_prefix x s \<longleftrightarrow> take (length x) s = x"

fun contains_str :: "string \<Rightarrow> string \<Rightarrow> bool" where
  "contains_str x [] \<longleftrightarrow> x = []"
| "contains_str x (c # s) \<longleftrightarrow> is_prefix x (c # s) \<or> contains_str x s"

definition get_program_type_linux :: "string \<Rightarrow> string \<Rightarrow> EbpfProgramType" where
  "get_program_type_linux section_name path =
     (if contains_str ''cilium'' path \<and> contains_str ''xdp'' path then linux_xdp_program_type
      else if contains_str ''cilium'' path \<and> contains_str ''lxc'' path then cilium_lxc_program_type
      else (case find (\<lambda>t. list_ex (\<lambda>prefix. is_prefix prefix section_name) (pt_section_prefixes t)) linux_program_types of
              Some t \<Rightarrow> t
            | None \<Rightarrow> linux_socket_filter_program_type))"

section \<open>Maps\<close>

datatype EbpfMapValueType = MVT_ANY | MVT_MAP | MVT_PROGRAM

record EbpfMapType =
  mt_platform_specific_type :: u32
  mt_name :: string
  mt_is_array :: bool
  mt_value_type :: EbpfMapValueType

record EbpfMapDescriptor =
  original_fd :: int
  md_type :: u32
  key_size :: u32
  value_size :: u32
  max_entries :: u32
  inner_map_fd :: int

definition BPF_MAP_TYPE :: "string \<Rightarrow> bool \<Rightarrow> EbpfMapValueType \<Rightarrow> EbpfMapType" where
  "BPF_MAP_TYPE name arr vt = \<lparr>mt_platform_specific_type = 0, mt_name = name, mt_is_array = arr, mt_value_type = vt\<rparr>"

definition linux_map_types :: "EbpfMapType list" where
  "linux_map_types =
     [BPF_MAP_TYPE ''UNSPEC'' False MVT_ANY, BPF_MAP_TYPE ''HASH'' False MVT_ANY, BPF_MAP_TYPE ''ARRAY'' True MVT_ANY,
      BPF_MAP_TYPE ''PROG_ARRAY'' True MVT_PROGRAM, BPF_MAP_TYPE ''PERF_EVENT_ARRAY'' True MVT_ANY,
      BPF_MAP_TYPE ''PERCPU_HASH'' False MVT_ANY, BPF_MAP_TYPE ''PERCPU_ARRAY'' True MVT_ANY,
      BPF_MAP_TYPE ''STACK_TRACE'' False MVT_ANY, BPF_MAP_TYPE ''CGROUP_ARRAY'' True MVT_ANY,
      BPF_MAP_TYPE ''LRU_HASH'' False MVT_ANY, BPF_MAP_TYPE ''LRU_PERCPU_HASH'' False MVT_ANY,
      BPF_MAP_TYPE ''LPM_TRIE'' False MVT_ANY, BPF_MAP_TYPE ''ARRAY_OF_MAPS'' True MVT_MAP,
      BPF_MAP_TYPE ''HASH_OF_MAPS'' False MVT_MAP, BPF_MAP_TYPE ''DEVMAP'' False MVT_ANY,
      BPF_MAP_TYPE ''SOCKMAP'' False MVT_ANY, BPF_MAP_TYPE ''CPUMAP'' False MVT_ANY]"

definition get_map_type_linux :: "u32 \<Rightarrow> EbpfMapType" where
  "get_map_type_linux platform_specific_type =
     (let index = unat platform_specific_type
      in if index = 0 \<or> index \<ge> length linux_map_types then linux_map_types ! 0
         else (linux_map_types ! index)\<lparr>mt_platform_specific_type := platform_specific_type\<rparr>)"

text \<open>The cache from equivalence keys to file descriptors; a \<^verbatim>\<open>std::map\<close> of which only membership, lookup and size are used.\<close>

record EquivalenceKey =
  ek_value_type :: EbpfMapValueType
  ek_key_size :: u32
  ek_value_size :: u32
  ek_max_entries :: u32

type_synonym map_cache = "(EquivalenceKey \<times> int) list"

definition create_map_crab :: "EbpfMapType \<Rightarrow> u32 \<Rightarrow> u32 \<Rightarrow> u32 \<Rightarrow> map_cache \<Rightarrow> (int \<times> map_cache) result" where
  "create_map_crab map_type ksize vsize entries cache =
     (let equiv = \<lparr>ek_value_type = mt_value_type map_type, ek_key_size = ksize, ek_value_size = vsize,
                   ek_max_entries = (if mt_is_array map_type then entries else 0)\<rparr>
      in case map_of cache equiv of
           Some fd \<Rightarrow> Inr (fd, cache)
         | None \<Rightarrow> rmap (\<lambda>n. (n + 1, (equiv, n + 1) # cache)) (gsl_narrow int32_t (int (length cache))))"

definition create_map_linux :: "u32 \<Rightarrow> u32 \<Rightarrow> u32 \<Rightarrow> u32 \<Rightarrow> bool \<Rightarrow> map_cache \<Rightarrow> (int \<times> map_cache) result" where
  "create_map_linux map_type ksize vsize entries mock_map_fds cache =
     (if mock_map_fds then create_map_crab (get_map_type_linux map_type) ksize vsize entries cache
      else Inl (Runtime_Error ''cannot create a Linux map''))"

text \<open>
  A record of the \<^verbatim>\<open>maps\<close> section: seven 32-bit fields, copied from memory with the size the section
  uses, the rest zero (the host is little endian).
\<close>

record BpfLoadMapDef =
  lm_type :: u32
  lm_key_size :: u32
  lm_value_size :: u32
  lm_max_entries :: u32
  lm_map_flags :: u32
  lm_inner_map_idx :: u32
  lm_numa_node :: u32

definition le32 :: "u8 list \<Rightarrow> u32" where
  "le32 bs = foldr (\<lambda>b acc. push_bit 8 acc OR ucast b) (take 4 bs) 0"

definition load_map_def :: "u8 list \<Rightarrow> BpfLoadMapDef" where
  "load_map_def bs =
     \<lparr>lm_type = le32 bs, lm_key_size = le32 (drop 4 bs), lm_value_size = le32 (drop 8 bs), lm_max_entries = le32 (drop 12 bs),
      lm_map_flags = le32 (drop 16 bs), lm_inner_map_idx = le32 (drop 20 bs), lm_numa_node = le32 (drop 24 bs)\<rparr>"

abbreviation sizeof_BpfLoadMapDef :: nat where "sizeof_BpfLoadMapDef \<equiv> 28"

fun add_map_descriptors :: "bool \<Rightarrow> BpfLoadMapDef list \<Rightarrow> map_cache \<Rightarrow> EbpfMapDescriptor list \<Rightarrow> (EbpfMapDescriptor list \<times> map_cache) result" where
  "add_map_descriptors mock [] cache ds = Inr (ds, cache)"
| "add_map_descriptors mock (s # ss) cache ds =
     rbind (create_map_linux (lm_type s) (lm_key_size s) (lm_value_size s) (lm_max_entries s) mock cache) (\<lambda>(fd, cache).
     rbind (gsl_narrow int32_t (uint (lm_inner_map_idx s))) (\<lambda>inner.
       add_map_descriptors mock ss cache
         (ds @ [\<lparr>original_fd = fd, md_type = lm_type s, key_size = lm_key_size s, value_size = lm_value_size s,
                 max_entries = lm_max_entries s, inner_map_fd = inner\<rparr>])))"

definition parse_maps_section_linux ::
    "EbpfMapDescriptor list \<Rightarrow> u8 list \<Rightarrow> nat \<Rightarrow> nat \<Rightarrow> bool \<Rightarrow> map_cache \<Rightarrow> (EbpfMapDescriptor list \<times> map_cache) result" where
  "parse_maps_section_linux map_descriptors data map_def_size map_count mock cache =
     (let mapdefs = map (\<lambda>i. load_map_def (take (min map_def_size sizeof_BpfLoadMapDef) (drop (i * map_def_size) data))) [0..<map_count]
      in add_map_descriptors mock mapdefs cache map_descriptors)"

fun resolve_inner_map_loop :: "nat \<Rightarrow> nat \<Rightarrow> EbpfMapDescriptor list \<Rightarrow> EbpfMapDescriptor list result" where
  "resolve_inner_map_loop i 0 ds = Inr ds"
| "resolve_inner_map_loop i (Suc n) ds =
     (let inner = inner_map_fd (ds ! i)
      in if inner < 0 \<or> inner \<ge> int (length ds)
         then Inl (Unmarshal_Error (''bad inner map index '' @ show_int inner @ '' for map '' @ show_int (int i)))
         else resolve_inner_map_loop (Suc i) n (ds[i := (ds ! i)\<lparr>inner_map_fd := original_fd (ds ! nat inner)\<rparr>]))"

definition resolve_inner_map_references_linux :: "EbpfMapDescriptor list \<Rightarrow> EbpfMapDescriptor list result" where
  "resolve_inner_map_references_linux ds = resolve_inner_map_loop 0 (length ds) ds"

definition find_map_descriptor :: "EbpfMapDescriptor list \<Rightarrow> int \<Rightarrow> EbpfMapDescriptor option" where
  "find_map_descriptor ds fd = find (\<lambda>m. original_fd m = fd) ds"

definition get_map_descriptor_linux :: "EbpfMapDescriptor list \<Rightarrow> int \<Rightarrow> EbpfMapDescriptor result" where
  "get_map_descriptor_linux ds fd =
     (case find_map_descriptor ds fd of
        Some m \<Rightarrow> Inr m
      | None \<Rightarrow> Inl (Unmarshal_Error (''map_fd '' @ show_int fd @ '' not found'')))"

end
