(* ===== verification/Linux_Props.thy ===== *)
theory Linux_Props
  imports Linux_Platform Roundtrip Analysis_Props
begin

text \<open>
  Properties of the Linux platform: the table of helper prototypes fits the decoder and the extraction of
  assertions, and file descriptors identify maps up to equivalence.
\<close>

section \<open>Helper prototypes\<close>

text \<open>Key and value arguments come after a map argument.\<close>

fun key_after_map :: "bool \<Rightarrow> ebpf_argument_type_t list \<Rightarrow> bool" where
  "key_after_map m [] = True"
| "key_after_map m (a # as) =
     ((a = EBPF_ARGUMENT_TYPE_PTR_TO_MAP_KEY \<or> a = EBPF_ARGUMENT_TYPE_PTR_TO_MAP_VALUE \<longrightarrow> m) \<and>
      key_after_map (m \<or> a = EBPF_ARGUMENT_TYPE_PTR_TO_MAP) as)"

lemma key_after_map_mono: "key_after_map m as \<Longrightarrow> (m \<Longrightarrow> m') \<Longrightarrow> key_after_map m' as"
proof (induction as arbitrary: m m')
  case (Cons a as)
  then show ?case using Cons.IH[of "m \<or> a = EBPF_ARGUMENT_TYPE_PTR_TO_MAP" "m' \<or> a = EBPF_ARGUMENT_TYPE_PTR_TO_MAP"] by auto
qed simp

lemma assert_singles_append:
  "is_ok (assert_singles info m (as @ [a])) \<longleftrightarrow> is_ok (assert_singles info m as) \<and> (needs_map a \<longrightarrow> last_map m as \<noteq> None)"
proof (induction as arbitrary: m)
  case Nil
  show ?case using assert_singles_ok[of info m "[a]"] by (auto simp: Cons_eq_append_conv)
next
  case (Cons b as)
  show ?case unfolding append_Cons assert_singles_Cons_ok Cons.IH by auto
qed

lemma makeCall_args_extracts:
  assumes "makeCall_args name i ts res = Inr c" "is_ok (assert_singles info None (singles res))"
    "key_after_map (last_map None (singles res) \<noteq> None) ts"
  shows "is_ok (assert_singles info None (singles c))"
  using assms
proof (induction name i ts res rule: makeCall_args.induct)
  case (1 name i a b rest res)
  show ?case
  proof (cases "plain_single a \<or> nullable_single a")
    case True
    let ?s = "\<lparr>single_kind = toArgSingleKind a, single_or_null = nullable_single a, single_reg = of_nat i\<rparr>"
    have s: "is_ok (assert_singles info None (singles res @ [?s]))"
      unfolding assert_singles_append using 1(4,5) True by (cases a) (auto simp: needs_map_def plain_single_def nullable_single_def)
    have k: "key_after_map (last_map None (singles res @ [?s]) \<noteq> None) (b # rest)"
      using 1(5) True key_after_map_mono[of "last_map None (singles res) \<noteq> None" "b # rest" True]
      by (cases a) (auto simp: plain_single_def nullable_single_def last_map_append)
    show ?thesis using 1(1,3) True s k 1(4) by (auto split: if_splits simp: plain_single_def)
  next
    case False
    show ?thesis
    proof (cases "a = EBPF_ARGUMENT_TYPE_DONTCARE")
      case True
      then show ?thesis using 1(3,4) by simp
    next
      case nd: False
      have b: "b = EBPF_ARGUMENT_TYPE_CONST_SIZE \<or> b = EBPF_ARGUMENT_TYPE_CONST_SIZE_OR_ZERO"
        using 1(3) False nd by (auto split: if_splits)
      have "a \<noteq> EBPF_ARGUMENT_TYPE_PTR_TO_MAP" using False by (auto simp: plain_single_def)
      then have "key_after_map (last_map None (singles res) \<noteq> None) rest" using 1(5) b by auto
      then show ?thesis using 1(2,3,4) False nd by (auto split: if_splits)
    qed
  qed
qed auto


text \<open>The argument types the decoder accepts.\<close>

fun args_accepted :: "ebpf_argument_type_t list \<Rightarrow> bool" where
  "args_accepted (a # b # rest) =
     (a = EBPF_ARGUMENT_TYPE_DONTCARE \<or>
      (if plain_single a \<or> nullable_single a then args_accepted (b # rest)
       else a \<noteq> EBPF_ARGUMENT_TYPE_UNSUPPORTED \<and> a \<noteq> EBPF_ARGUMENT_TYPE_CONST_SIZE \<and> a \<noteq> EBPF_ARGUMENT_TYPE_CONST_SIZE_OR_ZERO \<and>
         (b = EBPF_ARGUMENT_TYPE_CONST_SIZE \<or> b = EBPF_ARGUMENT_TYPE_CONST_SIZE_OR_ZERO) \<and> args_accepted rest))"
| "args_accepted _ = True"

lemma makeCall_args_ok: "is_ok (makeCall_args name i ts res) \<longleftrightarrow> args_accepted ts"
  by (induction name i ts res rule: makeCall_args.induct) (auto simp: plain_single_def nullable_single_def)

lemma makeCall_error: "makeCall info i = Inl e \<Longrightarrow> \<exists>msg. e = Runtime_Error msg"
proof -
  have "\<exists>msg. e = Runtime_Error msg" if "makeCall_args name i ts res = Inl e" for name i ts res
    using that by (induction name i ts res rule: makeCall_args.induct) (auto split: if_splits)
  then show "makeCall info i = Inl e \<Longrightarrow> \<exists>msg. e = Runtime_Error msg" by (auto simp: makeCall_def Let_def split: if_splits)
qed

text \<open>What the table promises for one prototype: it has five argument types, and if the decoder accepts them, key and value arguments follow a map.\<close>

definition fits_decoder :: "helper_prototype \<Rightarrow> bool" where
  "fits_decoder p \<longleftrightarrow> length (argument_type p) = 5 \<and>
     (let ts = argument_type p @ [EBPF_ARGUMENT_TYPE_DONTCARE] in args_accepted ts \<longrightarrow> key_after_map False ts)"

lemma prototypes_fit: "list_all fits_decoder prototypes"
  by code_simp

lemma prototype_linux:
  assumes "is_helper_usable_linux descr n"
  shows "\<exists>p \<in> set prototypes. get_helper_prototype (g_ebpf_platform_linux descr groups) n = EbpfHelperPrototype.truncate p \<and>
    \<not> proto_unsupported p \<and> (context_descriptor p \<noteq> None \<longrightarrow> context_descriptor p = descr) \<and> p = prototypes ! nat (sint n) \<and>
    0 \<le> sint n \<and> sint n < int (length prototypes)"
proof -
  have n: "0 \<le> sint n" "sint n < int (length prototypes)" using assms by (auto simp: is_helper_usable_linux_def split: if_splits)
  then have "prototypes ! nat (sint n) \<in> set prototypes" by simp
  then show ?thesis using assms n
    by (intro bexI[of _ "prototypes ! nat (sint n)"]) (simp_all add: is_helper_usable_linux_def g_ebpf_platform_linux_def get_helper_prototype_linux_def Let_def split: if_splits)
qed

section \<open>Maps\<close>

text \<open>The equivalence key of a parsed map, and the invariant of the cache: file descriptors count the keys.\<close>

definition key_of :: "EbpfMapDescriptor \<Rightarrow> EquivalenceKey" where
  "key_of d = \<lparr>ek_value_type = mt_value_type (get_map_type_linux (md_type d)), ek_key_size = key_size d, ek_value_size = value_size d,
     ek_max_entries = (if mt_is_array (get_map_type_linux (md_type d)) then max_entries d else 0)\<rparr>"

definition cache_ok :: "map_cache \<Rightarrow> bool" where
  "cache_ok cache \<longleftrightarrow> distinct (map fst cache) \<and> map snd cache = rev (map int [1..<Suc (length cache)])"

lemma cache_ok_inj:
  assumes "cache_ok cache" "map_of cache k = Some fd" "map_of cache k' = Some fd"
  shows "k = k'"
proof -
  have "distinct (map snd cache)" using assms(1) by (simp add: cache_ok_def distinct_map)
  moreover have "(k, fd) \<in> set cache" "(k', fd) \<in> set cache" using assms(2,3) by (auto dest: map_of_SomeD)
  ultimately show ?thesis by (metis distinct_map inj_on_def prod.sel(1) prod.sel(2))
qed

lemma cache_ok_range:
  assumes "cache_ok cache" "map_of cache k = Some fd"
  shows "1 \<le> fd" "fd \<le> int (length cache)"
proof -
  have "fd \<in> set (map snd cache)" using assms(2) by (force dest: map_of_SomeD)
  also have "\<dots> = int ` {1..<Suc (length cache)}"
    using assms(1) by (simp only: cache_ok_def set_rev set_map set_upt)
  finally show "1 \<le> fd" "fd \<le> int (length cache)" by auto
qed

lemma create_map_crab_spec:
  assumes "create_map_crab mt k v e cache = Inr (fd, cache')" "cache_ok cache"
  shows "cache_ok cache'" "map_of cache' \<lparr>ek_value_type = mt_value_type mt, ek_key_size = k, ek_value_size = v,
      ek_max_entries = (if mt_is_array mt then e else 0)\<rparr> = Some fd" "map_of cache \<subseteq>\<^sub>m map_of cache'"
proof -
  let ?k = "\<lparr>ek_value_type = mt_value_type mt, ek_key_size = k, ek_value_size = v, ek_max_entries = (if mt_is_array mt then e else 0)\<rparr>"
  consider "map_of cache ?k = Some fd" "cache' = cache" |
      "map_of cache ?k = None" "fd = int (length cache) + 1" "cache' = (?k, int (length cache) + 1) # cache"
    using assms(1) by (auto simp: create_map_crab_def Let_def gsl_narrow_iff result_iffs split: option.splits if_splits)
  then show "cache_ok cache'" "map_of cache' ?k = Some fd" "map_of cache \<subseteq>\<^sub>m map_of cache'"
    using assms(2) by (cases; auto simp: cache_ok_def map_of_eq_None_iff map_le_def)+
qed

lemma add_map_descriptors_spec:
  assumes "add_map_descriptors True ss cache ds = Inr (ds', cache')" "cache_ok cache"
    "\<forall>d \<in> set ds. map_of cache (key_of d) = Some (original_fd d)"
  shows "cache_ok cache' \<and> (\<forall>d \<in> set ds'. map_of cache' (key_of d) = Some (original_fd d)) \<and> length ds' = length ds + length ss"
  using assms
proof (induction ss arbitrary: cache ds)
  case (Cons s ss)
  obtain fd c1 inner where r: "create_map_crab (get_map_type_linux (lm_type s)) (lm_key_size s) (lm_value_size s) (lm_max_entries s) cache = Inr (fd, c1)"
    "add_map_descriptors True ss c1 (ds @ [\<lparr>original_fd = fd, md_type = lm_type s, key_size = lm_key_size s, value_size = lm_value_size s,
                 max_entries = lm_max_entries s, inner_map_fd = inner\<rparr>]) = Inr (ds', cache')"
    using Cons.prems(1) by (auto simp: create_map_linux_def result_iffs)
  note c = create_map_crab_spec[OF r(1) Cons.prems(2)]
  have "map_of c1 (key_of d) = Some (original_fd d)" if "d \<in> set ds" for d
    using c(3) Cons.prems(3) that by (metis domI map_le_def)
  moreover have "map_of c1 (key_of \<lparr>original_fd = fd, md_type = lm_type s, key_size = lm_key_size s, value_size = lm_value_size s,
                 max_entries = lm_max_entries s, inner_map_fd = inner\<rparr>) = Some fd" using c(2) by (simp add: key_of_def cong: if_cong)
  ultimately show ?case using Cons.IH[OF r(2) c(1)] by auto
qed auto


section \<open>Properties\<close>

definition linux_info :: "context_ref option \<Rightarrow> ProgramInfo" where
  "linux_info descr = \<lparr>platform = g_ebpf_platform_linux descr (\<lambda>_. True), is_privileged = False, line_info = []\<rparr>"

text \<open>
  C15. The table of helper prototypes fits the decoder: for a helper that is usable on Linux the
  decoder finds a prototype with five argument types for the right kind of program, and either refuses it with an error or decodes a call whose
  arguments are in distinct argument registers and whose assertions can be extracted.
\<close>

theorem linux_helper_calls:
  assumes "platform info = g_ebpf_platform_linux descr groups" "is_helper_usable_linux descr n"
  shows "(\<exists>p \<in> set prototypes. get_helper_prototype (platform info) n = EbpfHelperPrototype.truncate p \<and> length (argument_type p) = 5 \<and>
      (context_descriptor p \<noteq> None \<longrightarrow> context_descriptor p = descr)) \<and>
    (case makeCall info n of
       Inl e \<Rightarrow> \<exists>msg. e = Runtime_Error msg
     | Inr c \<Rightarrow> func c = n \<and> distinct (call_regs c) \<and> (\<forall>r \<in> set (call_regs c). 1 \<le> unat r \<and> unat r \<le> 5) \<and>
         is_ok (get_assertions (Call c) info l))"
proof -
  obtain p where p: "p \<in> set prototypes" "get_helper_prototype (platform info) n = EbpfHelperPrototype.truncate p"
      "context_descriptor p \<noteq> None \<longrightarrow> context_descriptor p = descr"
    using prototype_linux[OF assms(2)] unfolding assms(1) by blast
  have fit: "fits_decoder p" using prototypes_fit p(1) by (simp add: list_all_iff)
  have five: "length (argument_type (get_helper_prototype (platform info) n)) = 5"
    using fit p(2) by (simp add: fits_decoder_def EbpfHelperPrototype.truncate_def)
  have "case makeCall info n of
       Inl e \<Rightarrow> \<exists>msg. e = Runtime_Error msg
     | Inr c \<Rightarrow> func c = n \<and> distinct (call_regs c) \<and> (\<forall>r \<in> set (call_regs c). 1 \<le> unat r \<and> unat r \<le> 5) \<and> is_ok (get_assertions (Call c) info l)"
  proof (cases "makeCall info n")
    case (Inl e)
    then show ?thesis using makeCall_error by simp
  next
    case (Inr c)
    let ?ts = "argument_type p @ [EBPF_ARGUMENT_TYPE_DONTCARE]"
    obtain res where r: "makeCall_args (proto_name p) 1 ?ts res = Inr c" "singles res = []"
      using Inr p(2) by (auto simp: makeCall_def Let_def EbpfHelperPrototype.truncate_def split: if_splits)
    then have "args_accepted ?ts" using makeCall_args_ok[of "proto_name p" 1 ?ts res] by simp
    then have "key_after_map False ?ts" using fit by (simp add: fits_decoder_def Let_def)
    then have "is_ok (assert_singles info None (singles c))" using makeCall_args_extracts[OF r(1), of info] r(2) by simp
    then have "is_ok (get_assertions (Call c) info l)"
      by (cases "assert_singles info None (singles c)") (simp_all add: assert_call_def)
    then show ?thesis using Inr makeCall_regs[OF Inr five] makeCall_func[OF Inr] by (auto simp: regs_below_def)
  qed
  then show ?thesis using p fit by (auto simp: fits_decoder_def)
qed

theorem linux_helper_calls_witness:
  "\<exists>c. makeCall (linux_info (Some g_xdp_md)) 1 = Inr c \<and> distinct (call_regs c) \<and> is_ok (get_assertions (Call c) (linux_info (Some g_xdp_md)) None)"
proof -
  have u: "is_helper_usable_linux (Some g_xdp_md) 1" by code_simp
  have "is_ok (makeCall (linux_info (Some g_xdp_md)) 1)" by code_simp
  then obtain c where "makeCall (linux_info (Some g_xdp_md)) 1 = Inr c" by (auto simp: is_ok_iff)
  then show ?thesis using linux_helper_calls[OF _ u, of "linux_info (Some g_xdp_md)" "\<lambda>_. True" None] by (simp add: linux_info_def)
qed


text \<open>
  C16. File descriptors identify the maps of a section up to equivalence: looking up the descriptor
  of a parsed map finds a map with the same key size, value size and kind of values (and number of
  entries, for arrays), and maps that differ in these have different descriptors, which are positive.
\<close>

theorem map_descriptors_identify_maps:
  assumes "parse_maps_section_linux [] data def_size count True [] = Inr (ds, cache)" "d \<in> set ds"
  shows "(\<exists>d'. get_map_descriptor_linux ds (original_fd d) = Inr d' \<and> key_of d' = key_of d) \<and> 1 \<le> original_fd d \<and> length ds = count \<and>
    (\<forall>d' \<in> set ds. original_fd d' = original_fd d \<longleftrightarrow> key_of d' = key_of d)"
proof -
  have spec: "cache_ok cache" "\<forall>d \<in> set ds. map_of cache (key_of d) = Some (original_fd d)" "length ds = count"
    using add_map_descriptors_spec[of _ "[]" "[]" ds cache] assms(1) by (auto simp: parse_maps_section_linux_def cache_ok_def)
  have same: "original_fd d' = original_fd d \<longleftrightarrow> key_of d' = key_of d" if "d' \<in> set ds" for d'
    using cache_ok_inj[OF spec(1)] spec(2) assms(2) that by (metis option.inject)
  obtain d' where "find (\<lambda>m. original_fd m = original_fd d) ds = Some d'" using assms(2) by (cases "find (\<lambda>m. original_fd m = original_fd d) ds") (auto simp: find_None_iff)
  then have "get_map_descriptor_linux ds (original_fd d) = Inr d'" "d' \<in> set ds" "original_fd d' = original_fd d"
    by (simp_all add: get_map_descriptor_linux_def find_map_descriptor_def) (auto simp: find_Some_iff)
  then show ?thesis using same spec(3) cache_ok_range(1)[OF spec(1)] spec(2) assms(2) by blast
qed

text \<open>Two arrays with four entries and one with five; the sizes are little endian.\<close>

definition some_maps :: "u8 list" where
  "some_maps = concat (map (\<lambda>n. [2, 0, 0, 0, 4, 0, 0, 0, 8, 0, 0, 0, n, 0, 0, 0, 0, 0, 0, 0, 0, 0, 0, 0, 0, 0, 0, 0]) [4, 4, 5])"

theorem map_descriptors_identify_maps_witness:
  "\<exists>ds cache d. parse_maps_section_linux [] some_maps 28 3 True [] = Inr (ds, cache) \<and> map original_fd ds = [1, 1, 2] \<and> length ds = 3 \<and>
     d \<in> set ds \<and> get_map_descriptor_linux ds (original_fd d) = Inr d"
proof -
  have c: "case parse_maps_section_linux [] some_maps 28 3 True [] of Inr (ds, cache) \<Rightarrow> map original_fd ds = [1, 1, 2] | _ \<Rightarrow> False" by code_simp
  then obtain ds cache where r: "parse_maps_section_linux [] some_maps 28 3 True [] = Inr (ds, cache)" "map original_fd ds = [1, 1, 2]"
    by (auto split: sum.splits)
  then obtain d where d: "d \<in> set ds" by (cases ds) auto
  obtain d' where d': "get_map_descriptor_linux ds (original_fd d) = Inr d'" "length ds = 3"
    using map_descriptors_identify_maps[OF r(1) d] by blast
  then have "d' \<in> set ds" "original_fd d' = original_fd d"
    by (auto simp: get_map_descriptor_linux_def find_map_descriptor_def find_Some_iff split: option.splits)
  then show ?thesis using r d' by metis
qed

end
