(* ===== verification/Linear.thy ===== *)
theory Linear
  imports Containers Number_Big
begin

text \<open>
  Variables, linear expressions and linear constraints (\<^verbatim>\<open>arith/variable.hpp\<close>,
  \<^verbatim>\<open>arith/linear_expression.hpp\<close>, \<^verbatim>\<open>arith/linear_constraint.hpp\<close>, \<^verbatim>\<open>arith/dsl_syntax.hpp\<close>). A variable is its
  identifier. The variable terms of an expression are a sorted map, in which no coefficient is zero;
  \<open>le_eval\<close> is the value of an expression in a state, and the operations compute it.
\<close>

section \<open>Expressions\<close>

type_synonym Variable = nat

record LinearExpression =
  constant_term :: int
  variable_terms :: "(Variable \<times> int) list"

definition coefficient_of :: "LinearExpression \<Rightarrow> Variable \<Rightarrow> int" where
  "coefficient_of e v = (case om_lookup (variable_terms e) v of None \<Rightarrow> 0 | Some c \<Rightarrow> c)"

definition le_number :: "int \<Rightarrow> LinearExpression" where
  "le_number coefficient = \<lparr>constant_term = coefficient, variable_terms = []\<rparr>"

definition le_variable :: "Variable \<Rightarrow> LinearExpression" where
  "le_variable v = \<lparr>constant_term = 0, variable_terms = [(v, 1)]\<rparr>"

definition le_term :: "int \<Rightarrow> Variable \<Rightarrow> LinearExpression" where
  "le_term coefficient v = \<lparr>constant_term = 0, variable_terms = (if coefficient \<noteq> 0 then [(v, coefficient)] else [])\<rparr>"

definition le_make :: "(Variable \<times> int) list \<Rightarrow> int \<Rightarrow> LinearExpression" where
  "le_make terms const = \<lparr>constant_term = const, variable_terms = filter (\<lambda>(v, c). c \<noteq> 0) terms\<rparr>"

definition is_constant :: "LinearExpression \<Rightarrow> bool" where
  "is_constant e \<longleftrightarrow> variable_terms e = []"

definition le_multiply :: "LinearExpression \<Rightarrow> int \<Rightarrow> LinearExpression" where
  "le_multiply e constant = le_make (map (\<lambda>(v, c). (v, c * constant)) (variable_terms e)) (constant_term e * constant)"

definition plus_number :: "LinearExpression \<Rightarrow> int \<Rightarrow> LinearExpression" where
  "plus_number e constant = le_make (variable_terms e) (constant_term e + constant)"

definition plus_variable :: "LinearExpression \<Rightarrow> Variable \<Rightarrow> LinearExpression" where
  "plus_variable e v = le_make (om_update v (coefficient_of e v + 1) (variable_terms e)) (constant_term e)"

definition le_plus :: "LinearExpression \<Rightarrow> LinearExpression \<Rightarrow> LinearExpression" where
  "le_plus e e2 =
     le_make (fold (\<lambda>(v, c) terms. om_update v (coefficient_of e v + c) terms) (variable_terms e2) (variable_terms e))
       (constant_term e + constant_term e2)"

definition le_negate :: "LinearExpression \<Rightarrow> LinearExpression" where
  "le_negate e = le_multiply e (-1)"

definition subtract_number :: "LinearExpression \<Rightarrow> int \<Rightarrow> LinearExpression" where
  "subtract_number e constant = le_make (variable_terms e) (constant_term e - constant)"

definition subtract_variable :: "LinearExpression \<Rightarrow> Variable \<Rightarrow> LinearExpression" where
  "subtract_variable e v = le_make (om_update v (coefficient_of e v - 1) (variable_terms e)) (constant_term e)"

definition le_subtract :: "LinearExpression \<Rightarrow> LinearExpression \<Rightarrow> LinearExpression" where
  "le_subtract e e2 =
     le_make (fold (\<lambda>(v, c) terms. om_update v (coefficient_of e v - c) terms) (variable_terms e2) (variable_terms e))
       (constant_term e - constant_term e2)"

section \<open>Constraints\<close>

datatype ConstraintKind = EQUALS_ZERO | LESS_THAN_OR_EQUALS_ZERO | LESS_THAN_ZERO | NOT_ZERO

record LinearConstraint =
  lc_expression :: LinearExpression
  lc_kind :: ConstraintKind

fun kind_holds :: "ConstraintKind \<Rightarrow> int \<Rightarrow> bool" where
  "kind_holds EQUALS_ZERO n \<longleftrightarrow> n = 0"
| "kind_holds LESS_THAN_OR_EQUALS_ZERO n \<longleftrightarrow> n \<le> 0"
| "kind_holds LESS_THAN_ZERO n \<longleftrightarrow> n < 0"
| "kind_holds NOT_ZERO n \<longleftrightarrow> n \<noteq> 0"

definition is_tautology :: "LinearConstraint \<Rightarrow> bool" where
  "is_tautology c =
     (if \<not> is_constant (lc_expression c) then False
      else kind_holds (lc_kind c) (constant_term (lc_expression c)))"

definition is_contradiction :: "LinearConstraint \<Rightarrow> bool" where
  "is_contradiction c = (if \<not> is_constant (lc_expression c) then False else \<not> is_tautology c)"

definition lc_negate :: "LinearConstraint \<Rightarrow> LinearConstraint" where
  "lc_negate c =
     (case lc_kind c of
        NOT_ZERO \<Rightarrow> \<lparr>lc_expression = lc_expression c, lc_kind = EQUALS_ZERO\<rparr>
      | EQUALS_ZERO \<Rightarrow> \<lparr>lc_expression = lc_expression c, lc_kind = NOT_ZERO\<rparr>
      | LESS_THAN_ZERO \<Rightarrow> \<lparr>lc_expression = le_negate (lc_expression c), lc_kind = LESS_THAN_OR_EQUALS_ZERO\<rparr>
      | LESS_THAN_OR_EQUALS_ZERO \<Rightarrow> \<lparr>lc_expression = le_negate (lc_expression c), lc_kind = LESS_THAN_ZERO\<rparr>)"

definition false_const :: LinearConstraint where
  "false_const = \<lparr>lc_expression = le_number 0, lc_kind = NOT_ZERO\<rparr>"

definition true_const :: LinearConstraint where
  "true_const = \<lparr>lc_expression = le_number 0, lc_kind = EQUALS_ZERO\<rparr>"

text \<open>The operators of \<^verbatim>\<open>dsl_syntax\<close>.\<close>

definition dsl_le :: "LinearExpression \<Rightarrow> LinearExpression \<Rightarrow> LinearConstraint" where
  "dsl_le e1 e2 = \<lparr>lc_expression = le_subtract e1 e2, lc_kind = LESS_THAN_OR_EQUALS_ZERO\<rparr>"

definition dsl_lt :: "LinearExpression \<Rightarrow> LinearExpression \<Rightarrow> LinearConstraint" where
  "dsl_lt e1 e2 = \<lparr>lc_expression = le_subtract e1 e2, lc_kind = LESS_THAN_ZERO\<rparr>"

definition dsl_ge :: "LinearExpression \<Rightarrow> LinearExpression \<Rightarrow> LinearConstraint" where
  "dsl_ge e1 e2 = dsl_le e2 e1"

definition dsl_gt :: "LinearExpression \<Rightarrow> LinearExpression \<Rightarrow> LinearConstraint" where
  "dsl_gt e1 e2 = dsl_lt e2 e1"

definition dsl_eq :: "LinearExpression \<Rightarrow> LinearExpression \<Rightarrow> LinearConstraint" where
  "dsl_eq e1 e2 = \<lparr>lc_expression = le_subtract e1 e2, lc_kind = EQUALS_ZERO\<rparr>"

definition dsl_neq :: "LinearExpression \<Rightarrow> LinearExpression \<Rightarrow> LinearConstraint" where
  "dsl_neq e1 e2 = \<lparr>lc_expression = le_subtract e1 e2, lc_kind = NOT_ZERO\<rparr>"

section \<open>Values\<close>

definition terms_eval :: "(Variable \<Rightarrow> int) \<Rightarrow> (Variable \<times> int) list \<Rightarrow> int" where
  "terms_eval \<sigma> ts = (\<Sum>(v, c)\<leftarrow>ts. c * \<sigma> v)"

definition le_eval :: "(Variable \<Rightarrow> int) \<Rightarrow> LinearExpression \<Rightarrow> int" where
  "le_eval \<sigma> e = constant_term e + terms_eval \<sigma> (variable_terms e)"

definition le_wf :: "LinearExpression \<Rightarrow> bool" where
  "le_wf e \<longleftrightarrow> om_wf (variable_terms e) \<and> (\<forall>(v, c) \<in> set (variable_terms e). c \<noteq> 0)"

definition lc_holds :: "(Variable \<Rightarrow> int) \<Rightarrow> LinearConstraint \<Rightarrow> bool" where
  "lc_holds \<sigma> c \<longleftrightarrow> kind_holds (lc_kind c) (le_eval \<sigma> (lc_expression c))"

lemma terms_eval_simps [simp]:
  "terms_eval \<sigma> [] = 0" "terms_eval \<sigma> ((v, c) # ts) = c * \<sigma> v + terms_eval \<sigma> ts"
  "terms_eval \<sigma> (filter (\<lambda>(v, c). c \<noteq> 0) ts) = terms_eval \<sigma> ts"
  by (simp_all add: terms_eval_def) (induction ts, auto)

lemma le_eval_make [simp]: "le_eval \<sigma> (le_make ts k) = k + terms_eval \<sigma> ts"
  by (simp add: le_eval_def le_make_def)

lemma terms_eval_update:
  "om_wf ts \<Longrightarrow> terms_eval \<sigma> (om_update v c ts) =
     terms_eval \<sigma> ts + (c - (case om_lookup ts v of None \<Rightarrow> 0 | Some c \<Rightarrow> c)) * \<sigma> v"
proof (induction ts)
  case (Cons t ts)
  obtain w k where t: "t = (w, k)" by (cases t)
  have "om_wf ts" using Cons.prems by (simp add: om_wf_def)
  moreover have "om_lookup ts v = None" if "v \<le> w"
    using Cons.prems that by (force simp: om_wf_def t map_of_eq_None_iff)
  ultimately show ?case using Cons.IH by (auto simp: t algebra_simps)
qed simp

lemma terms_eval_mult: "terms_eval \<sigma> (map (\<lambda>(v, c). (v, c * k)) ts) = terms_eval \<sigma> ts * k"
  by (induction ts) (auto simp: algebra_simps)

text \<open>Adding the terms of one expression to another; every coefficient is read from the original.\<close>

lemma terms_eval_fold:
  assumes "om_wf ts" "om_wf ts2"
  shows "terms_eval \<sigma> (fold (\<lambda>(v, c) terms. om_update v ((case om_lookup ts v of None \<Rightarrow> 0 | Some c \<Rightarrow> c) + k * c) terms) ts2 ts) =
    terms_eval \<sigma> ts + k * terms_eval \<sigma> ts2"
proof -
  let ?co = "\<lambda>v. case om_lookup ts v of None \<Rightarrow> 0 | Some c \<Rightarrow> c"
  let ?f = "\<lambda>(v, c) terms. om_update v (?co v + k * c) terms"
  have "om_wf acc \<Longrightarrow> (\<forall>v \<in> fst ` set us. om_lookup acc v = om_lookup ts v) \<Longrightarrow> distinct (map fst us) \<Longrightarrow>
      terms_eval \<sigma> (fold ?f us acc) = terms_eval \<sigma> acc + k * terms_eval \<sigma> us" for us acc
  proof (induction us arbitrary: acc)
    case (Cons u us)
    obtain v c where u: "u = (v, c)" by (cases u)
    have "terms_eval \<sigma> (fold ?f us (om_update v (?co v + k * c) acc)) =
        terms_eval \<sigma> (om_update v (?co v + k * c) acc) + k * terms_eval \<sigma> us"
      by (rule Cons.IH) (use Cons.prems u in \<open>auto simp: om_wf_update om_lookup_update\<close>)
    moreover have "terms_eval \<sigma> (om_update v (?co v + k * c) acc) = terms_eval \<sigma> acc + k * c * \<sigma> v"
      using Cons.prems u by (subst terms_eval_update) (auto split: option.splits)
    ultimately show ?case by (simp add: u algebra_simps)
  qed simp
  moreover have "distinct (map fst ts2)" using assms(2) by (simp add: om_wf_def strict_sorted_iff)
  ultimately show ?thesis using assms(1) by simp
qed

lemma le_eval_multiply: "le_eval \<sigma> (le_multiply e k) = le_eval \<sigma> e * k"
  unfolding le_multiply_def le_eval_make terms_eval_mult by (simp add: le_eval_def algebra_simps)

lemma le_eval_simps [simp]:
  "le_eval \<sigma> (le_number k) = k" "le_eval \<sigma> (le_variable v) = \<sigma> v" "le_eval \<sigma> (le_term c v) = c * \<sigma> v"
  "le_eval \<sigma> (le_multiply e k) = le_eval \<sigma> e * k" "le_eval \<sigma> (plus_number e k) = le_eval \<sigma> e + k"
  "le_eval \<sigma> (subtract_number e k) = le_eval \<sigma> e - k" "le_eval \<sigma> (le_negate e) = - le_eval \<sigma> e"
  unfolding le_negate_def le_eval_multiply plus_number_def subtract_number_def le_eval_make
  by (simp_all add: le_eval_def le_number_def le_variable_def le_term_def)

lemma le_eval_plus_term:
  assumes "le_wf e"
  shows "le_eval \<sigma> (le_make (om_update v (coefficient_of e v + k) (variable_terms e)) (constant_term e)) = le_eval \<sigma> e + k * \<sigma> v"
  using assms unfolding le_eval_make le_wf_def
  by (simp add: terms_eval_update coefficient_of_def le_eval_def split: option.splits)

lemma le_eval_plus_terms:
  assumes "le_wf e" "le_wf e2"
  shows "terms_eval \<sigma> (fold (\<lambda>(v, c) terms. om_update v (coefficient_of e v + k * c) terms) (variable_terms e2) (variable_terms e)) =
    terms_eval \<sigma> (variable_terms e) + k * terms_eval \<sigma> (variable_terms e2)"
  unfolding coefficient_of_def by (rule terms_eval_fold) (use assms in \<open>auto simp: le_wf_def\<close>)

lemma le_eval_wf_simps [simp]:
  assumes "le_wf e"
  shows "le_eval \<sigma> (plus_variable e v) = le_eval \<sigma> e + \<sigma> v" "le_eval \<sigma> (subtract_variable e v) = le_eval \<sigma> e - \<sigma> v"
    "le_wf e2 \<Longrightarrow> le_eval \<sigma> (le_plus e e2) = le_eval \<sigma> e + le_eval \<sigma> e2"
    "le_wf e2 \<Longrightarrow> le_eval \<sigma> (le_subtract e e2) = le_eval \<sigma> e - le_eval \<sigma> e2"
  using le_eval_plus_term[OF assms, of \<sigma> v 1] le_eval_plus_term[OF assms, of \<sigma> v "-1"]
    le_eval_plus_terms[OF assms, of e2 \<sigma> 1] le_eval_plus_terms[OF assms, of e2 \<sigma> "-1"]
  unfolding plus_variable_def subtract_variable_def le_plus_def le_subtract_def le_eval_make by (simp_all add: le_eval_def)

lemma om_wf_filter: "om_wf m \<Longrightarrow> om_wf (filter P m)"
  by (induction m) (auto simp: om_wf_def)

lemma om_wf_fold_update: "om_wf m \<Longrightarrow> om_wf (fold (\<lambda>(v, c) terms. om_update v (f v c) terms) us m)"
  by (induction us arbitrary: m) (auto simp: om_wf_update)

lemma le_wf_make: "om_wf ts \<Longrightarrow> le_wf (le_make ts k)"
  by (auto simp: le_wf_def le_make_def om_wf_filter)

lemma le_wf_multiply: "le_wf e \<Longrightarrow> le_wf (le_multiply e k)"
  unfolding le_multiply_def by (rule le_wf_make) (simp add: le_wf_def om_wf_def case_prod_unfold comp_def)

lemma le_wf_simps [simp]:
  "le_wf (le_number k)" "le_wf (le_variable v)" "le_wf (le_term c v)"
  "le_wf e \<Longrightarrow> le_wf (le_multiply e k)" "le_wf e \<Longrightarrow> le_wf (plus_number e k)" "le_wf e \<Longrightarrow> le_wf (subtract_number e k)"
  "le_wf e \<Longrightarrow> le_wf (le_negate e)" "le_wf e \<Longrightarrow> le_wf (plus_variable e v)" "le_wf e \<Longrightarrow> le_wf (subtract_variable e v)"
  "le_wf e \<Longrightarrow> le_wf (le_plus e e2)" "le_wf e \<Longrightarrow> le_wf (le_subtract e e2)"
proof -
  show "le_wf (le_number k)" "le_wf (le_variable v)" "le_wf (le_term c v)"
    by (auto simp: le_wf_def le_number_def le_variable_def le_term_def om_wf_def)
  assume e: "le_wf e"
  then have w: "om_wf (variable_terms e)" by (simp add: le_wf_def)
  show "le_wf (le_multiply e k)" "le_wf (le_negate e)" using e by (simp_all only: le_negate_def le_wf_multiply)
  show "le_wf (plus_number e k)" "le_wf (subtract_number e k)"
      "le_wf (plus_variable e v)" "le_wf (subtract_variable e v)" "le_wf (le_plus e e2)" "le_wf (le_subtract e e2)"
    using w by (auto simp: plus_number_def subtract_number_def plus_variable_def subtract_variable_def
      le_plus_def le_subtract_def intro!: le_wf_make om_wf_update om_wf_fold_update)
qed

lemma lc_negate_holds: "lc_holds \<sigma> (lc_negate c) \<longleftrightarrow> \<not> lc_holds \<sigma> c"
  by (cases "lc_kind c") (auto simp: lc_holds_def lc_negate_def)

lemma is_tautology_holds: "is_tautology c \<Longrightarrow> lc_holds \<sigma> c"
  by (auto simp: is_tautology_def lc_holds_def le_eval_def is_constant_def split: if_splits)

lemma is_contradiction_holds: "is_contradiction c \<Longrightarrow> \<not> lc_holds \<sigma> c"
  by (auto simp: is_contradiction_def is_tautology_def lc_holds_def le_eval_def is_constant_def split: if_splits)

lemma dsl_holds [simp]:
  assumes "le_wf e1" "le_wf e2"
  shows "lc_holds \<sigma> (dsl_le e1 e2) \<longleftrightarrow> le_eval \<sigma> e1 \<le> le_eval \<sigma> e2" "lc_holds \<sigma> (dsl_lt e1 e2) \<longleftrightarrow> le_eval \<sigma> e1 < le_eval \<sigma> e2"
    "lc_holds \<sigma> (dsl_ge e1 e2) \<longleftrightarrow> le_eval \<sigma> e1 \<ge> le_eval \<sigma> e2" "lc_holds \<sigma> (dsl_gt e1 e2) \<longleftrightarrow> le_eval \<sigma> e1 > le_eval \<sigma> e2"
    "lc_holds \<sigma> (dsl_eq e1 e2) \<longleftrightarrow> le_eval \<sigma> e1 = le_eval \<sigma> e2" "lc_holds \<sigma> (dsl_neq e1 e2) \<longleftrightarrow> le_eval \<sigma> e1 \<noteq> le_eval \<sigma> e2"
  using assms by (auto simp: lc_holds_def dsl_le_def dsl_lt_def dsl_ge_def dsl_gt_def dsl_eq_def dsl_neq_def)

end
