(* ===== verification/Adapt_Graph.thy ===== *)
theory Adapt_Graph
  imports Containers
begin

text \<open>
  The sparse weighted graph of the zone domain (\<^verbatim>\<open>crab_utils/adapt_sgraph.hpp\<close>): adjacency maps from a
  16 bit vertex key to an index into the weights, with free lists of vertices and of weight indices.
  The invariant \<open>graph_inv\<close> holds for at most 65536 vertices; under it the operations refine updates of
  the edge map \<open>edge_of\<close>. The number of edges is a natural number; the invariant keeps its
  subtractions exact. Weights are numbers of arbitrary precision.
\<close>

section \<open>The adjacency map\<close>

type_synonym TreeSMap = "(nat \<times> nat) list"

definition key_of :: "nat \<Rightarrow> nat" where
  "key_of k = k mod 2 ^ 16"

definition tsm_contains :: "TreeSMap \<Rightarrow> nat \<Rightarrow> bool" where
  "tsm_contains m k \<longleftrightarrow> om_lookup m (key_of k) \<noteq> None"

definition tsm_lookup :: "TreeSMap \<Rightarrow> nat \<Rightarrow> nat option" where
  "tsm_lookup m k = om_lookup m (key_of k)"

definition tsm_remove :: "nat \<Rightarrow> TreeSMap \<Rightarrow> TreeSMap" where
  "tsm_remove k m = filter (\<lambda>(j, v). j \<noteq> key_of k) m"

definition tsm_add :: "nat \<Rightarrow> nat \<Rightarrow> TreeSMap \<Rightarrow> TreeSMap" where
  "tsm_add k v m = om_update (key_of k) v m"

section \<open>The graph\<close>

type_synonym VertId = nat

record AdaptGraph =
  preds_of :: "TreeSMap list"
  succs_of :: "TreeSMap list"
  g_ws :: "int list"
  edge_count :: nat
  is_free :: "bool list"
  free_id :: "VertId list"
  free_widx :: "nat list"

definition empty_graph :: AdaptGraph where
  "empty_graph = \<lparr>preds_of = [], succs_of = [], g_ws = [], edge_count = 0, is_free = [], free_id = [], free_widx = []\<rparr>"

definition g_verts :: "AdaptGraph \<Rightarrow> VertId list" where
  "g_verts g = filter (\<lambda>v. \<not> is_free g ! v) [0..<length (is_free g)]"

definition g_succs :: "AdaptGraph \<Rightarrow> VertId \<Rightarrow> VertId list" where
  "g_succs g v = map fst (succs_of g ! v)"

definition g_preds :: "AdaptGraph \<Rightarrow> VertId \<Rightarrow> VertId list" where
  "g_preds g v = map fst (preds_of g ! v)"

definition g_e_succs :: "AdaptGraph \<Rightarrow> VertId \<Rightarrow> (VertId \<times> int) list" where
  "g_e_succs g v = map (\<lambda>(d, i). (d, g_ws g ! i)) (succs_of g ! v)"

definition g_e_preds :: "AdaptGraph \<Rightarrow> VertId \<Rightarrow> (VertId \<times> int) list" where
  "g_e_preds g v = map (\<lambda>(s, i). (s, g_ws g ! i)) (preds_of g ! v)"

definition g_is_empty :: "AdaptGraph \<Rightarrow> bool" where
  "g_is_empty g \<longleftrightarrow> edge_count g = 0"

definition g_size :: "AdaptGraph \<Rightarrow> nat" where
  "g_size g = length (succs_of g)"

definition new_vertex :: "AdaptGraph \<Rightarrow> VertId \<times> AdaptGraph" where
  "new_vertex g =
     (if free_id g \<noteq> [] then
        let v = last (free_id g) in (v, g\<lparr>free_id := butlast (free_id g), is_free := (is_free g)[v := False]\<rparr>)
      else
        (length (succs_of g),
         g\<lparr>is_free := is_free g @ [False], succs_of := succs_of g @ [[]], preds_of := preds_of g @ [[]]\<rparr>))"

function growTo :: "nat \<Rightarrow> AdaptGraph \<Rightarrow> AdaptGraph" where
  "growTo v g = (if g_size g < v then growTo v (snd (new_vertex g)) else g)"
  by auto

termination
  by (relation "measure (\<lambda>(v, g). (v - g_size g) + length (free_id g))")
    (auto simp: new_vertex_def g_size_def Let_def simp flip: length_greater_0_conv)

definition g_forget :: "VertId \<Rightarrow> AdaptGraph \<Rightarrow> AdaptGraph" where
  "g_forget v g =
     (if is_free g ! v then g
      else
        let g = fold (\<lambda>(key, val) g. g\<lparr>free_widx := free_widx g @ [val], preds_of := (preds_of g)[key := tsm_remove v (preds_of g ! key)]\<rparr>)
                  (succs_of g ! v) g;
            g = g\<lparr>edge_count := edge_count g - length (succs_of g ! v), succs_of := (succs_of g)[v := []]\<rparr>;
            g = fold (\<lambda>k g. g\<lparr>succs_of := (succs_of g)[k := tsm_remove v (succs_of g ! k)]\<rparr>) (map fst (preds_of g ! v)) g;
            g = g\<lparr>edge_count := edge_count g - length (preds_of g ! v), preds_of := (preds_of g)[v := []]\<rparr>
        in g\<lparr>is_free := (is_free g)[v := True], free_id := free_id g @ [v]\<rparr>)"

definition clear_edges :: "AdaptGraph \<Rightarrow> AdaptGraph" where
  "clear_edges g =
     (let g = fold (\<lambda>v g. g\<lparr>succs_of := (succs_of g)[v := []], preds_of := (preds_of g)[v := []]\<rparr>) (g_verts g) (g\<lparr>g_ws := []\<rparr>)
      in g\<lparr>edge_count := 0\<rparr>)"

definition g_clear :: "AdaptGraph \<Rightarrow> AdaptGraph" where
  "g_clear g = empty_graph"

definition g_elem :: "AdaptGraph \<Rightarrow> VertId \<Rightarrow> VertId \<Rightarrow> bool" where
  "g_elem g s d \<longleftrightarrow> tsm_contains (succs_of g ! s) d"

definition g_edge_val :: "AdaptGraph \<Rightarrow> VertId \<Rightarrow> VertId \<Rightarrow> int" where
  "g_edge_val g s d = g_ws g ! the (tsm_lookup (succs_of g ! s) d)"

definition g_lookup :: "AdaptGraph \<Rightarrow> VertId \<Rightarrow> VertId \<Rightarrow> int option" where
  "g_lookup g s d = (case tsm_lookup (succs_of g ! s) d of Some idx \<Rightarrow> Some (g_ws g ! idx) | None \<Rightarrow> None)"

definition add_edge :: "VertId \<Rightarrow> int \<Rightarrow> VertId \<Rightarrow> AdaptGraph \<Rightarrow> AdaptGraph" where
  "add_edge s w d g =
     (let (idx, g) =
        (if free_widx g \<noteq> [] then
           let idx = last (free_widx g) in (idx, g\<lparr>free_widx := butlast (free_widx g), g_ws := (g_ws g)[idx := w]\<rparr>)
         else (length (g_ws g), g\<lparr>g_ws := g_ws g @ [w]\<rparr>))
      in g\<lparr>succs_of := (succs_of g)[s := tsm_add d idx (succs_of g ! s)],
           preds_of := (preds_of g)[d := tsm_add s idx (preds_of g ! d)],
           edge_count := edge_count g + 1\<rparr>)"

definition update_edge :: "VertId \<Rightarrow> int \<Rightarrow> VertId \<Rightarrow> AdaptGraph \<Rightarrow> AdaptGraph" where
  "update_edge s w d g =
     (case tsm_lookup (succs_of g ! s) d of
        Some idx \<Rightarrow> g\<lparr>g_ws := (g_ws g)[idx := min (g_ws g ! idx) w]\<rparr>
      | None \<Rightarrow> add_edge s w d g)"

definition set_edge :: "VertId \<Rightarrow> int \<Rightarrow> VertId \<Rightarrow> AdaptGraph \<Rightarrow> AdaptGraph" where
  "set_edge s w d g =
     (case tsm_lookup (succs_of g ! s) d of
        Some idx \<Rightarrow> g\<lparr>g_ws := (g_ws g)[idx := w]\<rparr>
      | None \<Rightarrow> add_edge s w d g)"

declare growTo.simps [simp del]

section \<open>The invariant\<close>

definition edge_upd :: "('a \<Rightarrow> 'b \<Rightarrow> 'c option) \<Rightarrow> 'a \<Rightarrow> 'b \<Rightarrow> 'c \<Rightarrow> ('a \<Rightarrow> 'b \<Rightarrow> 'c option)" where
  "edge_upd E s d w = (\<lambda>s' d'. if s' = s \<and> d' = d then Some w else E s' d')"

lemma edge_upd_simps [simp]: "edge_upd E s d w s d = Some w" "s' \<noteq> s \<Longrightarrow> edge_upd E s d w s' d' = E s' d'" "d' \<noteq> d \<Longrightarrow> edge_upd E s d w s' d' = E s' d'"
  by (auto simp: edge_upd_def)

text \<open>The index of an edge, and the edge map the graph stands for.\<close>

definition eidx :: "AdaptGraph \<Rightarrow> VertId \<Rightarrow> VertId \<Rightarrow> nat option" where
  "eidx g s d = (if s < g_size g then om_lookup (succs_of g ! s) d else None)"

definition edge_of :: "AdaptGraph \<Rightarrow> VertId \<Rightarrow> VertId \<Rightarrow> int option" where
  "edge_of g s d = map_option (\<lambda>i. g_ws g ! i) (eidx g s d)"

definition edges :: "AdaptGraph \<Rightarrow> (VertId \<times> VertId) set" where
  "edges g = {(s, d). eidx g s d \<noteq> None}"

definition adj_inv :: "AdaptGraph \<Rightarrow> bool" where
  "adj_inv g \<longleftrightarrow> g_size g \<le> 2 ^ 16 \<and> length (preds_of g) = g_size g \<and> length (is_free g) = g_size g \<and>
     (\<forall>v < g_size g. om_wf (succs_of g ! v) \<and> om_wf (preds_of g ! v)) \<and>
     (\<forall>s d i. eidx g s d = Some i \<longleftrightarrow> d < g_size g \<and> om_lookup (preds_of g ! d) s = Some i)"

definition idx_inv :: "AdaptGraph \<Rightarrow> bool" where
  "idx_inv g \<longleftrightarrow>
     (\<forall>s d i. eidx g s d = Some i \<longrightarrow> i < length (g_ws g) \<and> i \<notin> set (free_widx g)) \<and>
     (\<forall>s d i s' d'. eidx g s d = Some i \<longrightarrow> eidx g s' d' = Some i \<longrightarrow> s = s' \<and> d = d') \<and>
     distinct (free_widx g) \<and> set (free_widx g) \<subseteq> {..<length (g_ws g)}"

definition free_inv :: "AdaptGraph \<Rightarrow> bool" where
  "free_inv g \<longleftrightarrow>
     (\<forall>s d i. eidx g s d = Some i \<longrightarrow> \<not> is_free g ! s \<and> \<not> is_free g ! d) \<and>
     distinct (free_id g) \<and> set (free_id g) = {v. v < g_size g \<and> is_free g ! v}"

definition graph_inv :: "AdaptGraph \<Rightarrow> bool" where
  "graph_inv g \<longleftrightarrow> adj_inv g \<and> idx_inv g \<and> free_inv g \<and> edge_count g = card (edges g)"

definition live :: "AdaptGraph \<Rightarrow> VertId \<Rightarrow> bool" where
  "live g v \<longleftrightarrow> v < g_size g \<and> \<not> is_free g ! v"

lemma key_of_less [simp]: "k < 2 ^ 16 \<Longrightarrow> key_of k = k"
  by (simp add: key_of_def)

lemma om_lookup_filter: "om_lookup (filter (\<lambda>(j, v). j \<noteq> k) m) j = (if j = k then None else om_lookup m j)"
  by (induction m) auto

lemma eidx_bounds: "graph_inv g \<Longrightarrow> eidx g s d = Some i \<Longrightarrow> live g s \<and> live g d \<and> i < length (g_ws g)"
  unfolding graph_inv_def adj_inv_def free_inv_def idx_inv_def live_def by (metis eidx_def option.distinct(1))

lemma live_key: "graph_inv g \<Longrightarrow> live g v \<Longrightarrow> key_of v = v"
  by (auto simp: graph_inv_def adj_inv_def live_def)

lemma edge_of_live: "graph_inv g \<Longrightarrow> edge_of g s d = Some w \<Longrightarrow> live g s \<and> live g d"
  by (auto simp: edge_of_def dest: eidx_bounds)

lemma finite_edges: "graph_inv g \<Longrightarrow> finite (edges g)"
  by (rule finite_subset[of _ "{..<g_size g} \<times> {..<g_size g}"]) (auto simp: edges_def live_def dest: eidx_bounds)

lemma tsm_lookup_eidx: "graph_inv g \<Longrightarrow> live g s \<Longrightarrow> live g d \<Longrightarrow> tsm_lookup (succs_of g ! s) d = eidx g s d"
  using live_key[of g d] by (simp add: tsm_lookup_def eidx_def live_def)

lemma g_lookup_edge: "graph_inv g \<Longrightarrow> live g s \<Longrightarrow> live g d \<Longrightarrow> g_lookup g s d = edge_of g s d"
  by (simp add: g_lookup_def tsm_lookup_eidx edge_of_def option.case_eq_if map_option_case)

lemma g_elem_edge: "graph_inv g \<Longrightarrow> live g s \<Longrightarrow> live g d \<Longrightarrow> g_elem g s d \<longleftrightarrow> edge_of g s d \<noteq> None"
  using tsm_lookup_eidx[of g s d] by (simp add: g_elem_def tsm_contains_def tsm_lookup_def edge_of_def)

lemma g_edge_val_edge: "graph_inv g \<Longrightarrow> edge_of g s d = Some w \<Longrightarrow> g_edge_val g s d = w"
  using edge_of_live[of g s d w] by (auto simp: g_edge_val_def tsm_lookup_eidx edge_of_def)

lemma g_verts_live [simp]: "graph_inv g \<Longrightarrow> set (g_verts g) = {v. live g v}" "distinct (g_verts g)" "sorted (g_verts g)"
  by (auto simp: g_verts_def live_def graph_inv_def adj_inv_def sorted_wrt_filter)

lemma g_e_succs_set:
  assumes "graph_inv g" "live g s"
  shows "set (g_e_succs g s) = {(d, w). edge_of g s d = Some w}" "distinct (map fst (g_e_succs g s))" "map fst (g_e_succs g s) = g_succs g s"
proof -
  have "om_wf (succs_of g ! s)" using assms by (simp add: graph_inv_def adj_inv_def live_def)
  then show d: "distinct (map fst (g_e_succs g s))" by (auto simp: g_e_succs_def om_wf_def strict_sorted_iff comp_def case_prod_unfold)
  then have "distinct (map fst (succs_of g ! s))" by (simp add: g_e_succs_def comp_def case_prod_unfold)
  then show "set (g_e_succs g s) = {(d, w). edge_of g s d = Some w}"
    using assms(2) by (force simp: g_e_succs_def edge_of_def eidx_def live_def)
  show "map fst (g_e_succs g s) = g_succs g s" by (simp add: g_e_succs_def g_succs_def comp_def case_prod_unfold)
qed

lemma g_e_preds_set:
  assumes "graph_inv g" "live g d"
  shows "set (g_e_preds g d) = {(s, w). edge_of g s d = Some w}" "distinct (map fst (g_e_preds g d))" "map fst (g_e_preds g d) = g_preds g d"
proof -
  have "om_wf (preds_of g ! d)" using assms by (simp add: graph_inv_def adj_inv_def live_def)
  then show d: "distinct (map fst (g_e_preds g d))" by (auto simp: g_e_preds_def om_wf_def strict_sorted_iff comp_def case_prod_unfold)
  then have "distinct (map fst (preds_of g ! d))" by (simp add: g_e_preds_def comp_def case_prod_unfold)
  moreover have "om_lookup (preds_of g ! d) s = Some i \<longleftrightarrow> eidx g s d = Some i" for s i
    using assms unfolding graph_inv_def adj_inv_def live_def by metis
  ultimately show "set (g_e_preds g d) = {(s, w). edge_of g s d = Some w}"
    by (force simp: g_e_preds_def edge_of_def)
  show "map fst (g_e_preds g d) = g_preds g d" by (simp add: g_e_preds_def g_preds_def comp_def case_prod_unfold)
qed

lemma g_is_empty_edges: "graph_inv g \<Longrightarrow> g_is_empty g \<longleftrightarrow> (\<forall>s d. edge_of g s d = None)"
  using finite_edges[of g] by (auto simp: g_is_empty_def graph_inv_def edges_def edge_of_def)

section \<open>The operations on the edge map\<close>

lemma edge_ops_frame [simp]:
  "g_size (add_edge s w d g) = g_size g" "g_size (set_edge s w d g) = g_size g" "g_size (update_edge s w d g) = g_size g"
  "free_id (add_edge s w d g) = free_id g" "free_id (set_edge s w d g) = free_id g" "free_id (update_edge s w d g) = free_id g"
  by (simp_all add: add_edge_def set_edge_def update_edge_def g_size_def Let_def split: option.splits prod.splits)

lemma set_weight_ok:
  assumes "graph_inv g" "eidx g s d = Some i" "g' = g\<lparr>g_ws := (g_ws g)[i := w]\<rparr>"
  shows "graph_inv g' \<and> edge_of g' = edge_upd (edge_of g) s d w \<and> live g' = live g \<and> g_size g' = g_size g"
proof -
  have e: "eidx g' = eidx g" by (auto simp: assms(3) eidx_def g_size_def fun_eq_iff)
  have "adj_inv g' = adj_inv g" "free_inv g' = free_inv g" "idx_inv g' = idx_inv g" "edges g' = edges g"
    unfolding adj_inv_def free_inv_def idx_inv_def edges_def e by (simp_all add: assms(3) g_size_def)
  then have "graph_inv g'" using assms(1) by (simp add: graph_inv_def assms(3))
  moreover have "edge_of g' s' d' = edge_upd (edge_of g) s d w s' d'" for s' d'
  proof (cases "eidx g s' d'")
    case (Some j)
    moreover have "j = i \<longleftrightarrow> s' = s \<and> d' = d"
      using Some assms(1,2) unfolding graph_inv_def idx_inv_def by (metis option.inject)
    ultimately show ?thesis using assms(2,3) eidx_bounds[OF assms(1) assms(2)] unfolding edge_of_def e edge_upd_def by (auto simp: nth_list_update)
  next
    case None
    then show ?thesis using assms(2) unfolding edge_of_def e edge_upd_def by auto
  qed
  ultimately show ?thesis by (auto simp: fun_eq_iff assms(3) live_def g_size_def)
qed

lemma add_edge_ok:
  assumes g: "graph_inv g" and live: "live g s" "live g d" and new: "edge_of g s d = None" and g': "g' = add_edge s w d g"
  shows "graph_inv g' \<and> edge_of g' = edge_upd (edge_of g) s d w \<and> live g' = live g \<and> g_size g' = g_size g"
proof -
  define idx where "idx = (if free_widx g \<noteq> [] then last (free_widx g) else length (g_ws g))"
  define ws' where "ws' = (if free_widx g \<noteq> [] then (g_ws g)[idx := w] else g_ws g @ [w])"
  have keys: "key_of s = s" "key_of d = d" using live g live_key by auto
  have g'_eq: "g' = g\<lparr>free_widx := butlast (free_widx g), g_ws := ws', succs_of := (succs_of g)[s := om_update d idx (succs_of g ! s)],
      preds_of := (preds_of g)[d := om_update s idx (preds_of g ! d)], edge_count := edge_count g + 1\<rparr>"
    unfolding g' add_edge_def Let_def idx_def ws'_def by (simp add: tsm_add_def keys)
  have size: "g_size g' = g_size g" by (simp add: g'_eq g_size_def)
  have adj: "length (preds_of g) = g_size g" "s < g_size g" "d < g_size g" "om_wf (succs_of g ! s)" "om_wf (preds_of g ! d)"
    using g live by (auto simp: graph_inv_def adj_inv_def live_def)
  have e: "eidx g' = edge_upd (eidx g) s d idx"
    using adj by (auto simp: edge_upd_def eidx_def size g'_eq g_size_def nth_list_update om_lookup_update fun_eq_iff)
  have new': "eidx g s d = None" using new by (simp add: edge_of_def)
  have idx: "idx < length ws'" "length (g_ws g) \<le> length ws'" "set (butlast (free_widx g)) \<subseteq> set (free_widx g)" "idx \<notin> set (butlast (free_widx g))"
      "distinct (butlast (free_widx g))" "eidx g s' d' \<noteq> Some idx" for s' d'
  proof -
    have d: "distinct (free_widx g)" "set (free_widx g) \<subseteq> {..<length (g_ws g)}" using g by (auto simp: graph_inv_def idx_inv_def)
    show "idx < length ws'" "length (g_ws g) \<le> length ws'" using subsetD[OF d(2) last_in_set] by (auto simp: idx_def ws'_def)
    show "set (butlast (free_widx g)) \<subseteq> set (free_widx g)" by (auto dest: in_set_butlastD)
    show "distinct (butlast (free_widx g))" using d(1) by (rule distinct_butlast)
    show "idx \<notin> set (butlast (free_widx g))"
      using d(1) by (cases "free_widx g" rule: rev_cases) (auto simp: idx_def)
    show "eidx g s' d' \<noteq> Some idx"
    proof
      assume "eidx g s' d' = Some idx"
      then have "idx < length (g_ws g)" "idx \<notin> set (free_widx g)" using g by (auto simp: graph_inv_def idx_inv_def)
      then show False by (auto simp: idx_def split: if_splits)
    qed
  qed
  have "adj_inv g'"
    unfolding adj_inv_def e size
  proof (intro conjI allI)
    show "edge_upd (eidx g) s d idx s' d' = Some i \<longleftrightarrow> d' < g_size g \<and> om_lookup (preds_of g' ! d') s' = Some i" for s' d' i
    proof -
      have "eidx g s' d' = Some i \<longleftrightarrow> d' < g_size g \<and> om_lookup (preds_of g ! d') s' = Some i" using g unfolding graph_inv_def adj_inv_def by blast
      then show ?thesis using adj by (auto simp: edge_upd_def g'_eq nth_list_update om_lookup_update)
    qed
  qed (use g adj in \<open>auto simp: graph_inv_def adj_inv_def g'_eq nth_list_update om_wf_update g_size_def\<close>)
  moreover have "idx_inv g'"
  proof -
    have i: "idx_inv g" using g by (simp add: graph_inv_def)
    have "i < length ws' \<and> i \<notin> set (butlast (free_widx g))" if "eidx g s' d' = Some i" for s' d' i
      using i idx(2,3) that unfolding idx_inv_def by (meson less_le_trans subsetD)
    then show ?thesis using i idx unfolding idx_inv_def e edge_upd_def by (auto simp: g'_eq split: if_splits)
  qed
  moreover have "free_inv g'" using g live unfolding graph_inv_def free_inv_def e edge_upd_def size by (auto simp: g'_eq live_def)
  moreover have "edge_count g' = card (edges g')"
  proof -
    have "edges g' = insert (s, d) (edges g)" "(s, d) \<notin> edges g" using new' by (auto simp: edges_def e edge_upd_def split: if_splits)
    then show ?thesis using g finite_edges[OF g] by (simp add: g'_eq graph_inv_def)
  qed
  ultimately have "graph_inv g'" by (simp add: graph_inv_def)
  moreover have "edge_of g' s' d' = edge_upd (edge_of g) s d w s' d'" for s' d'
  proof (cases "s' = s \<and> d' = d")
    case True
    then have "edge_of g' s' d' = Some (ws' ! idx)" by (simp add: edge_of_def e) (simp add: g'_eq)
    then show ?thesis using idx(1) True by (simp add: ws'_def idx_def split: if_splits)
  next
    case False
    have "ws' ! i = g_ws g ! i" if "eidx g s' d' = Some i" for i
      using that idx(6)[of s' d'] eidx_bounds[OF g that] by (auto simp: ws'_def nth_append nth_list_update)
    moreover have "g_ws g' = ws'" by (simp add: g'_eq)
    ultimately show ?thesis using False by (cases "eidx g s' d'") (auto simp: edge_of_def e edge_upd_def)
  qed
  ultimately show ?thesis by (auto simp: fun_eq_iff live_def size) (auto simp: g'_eq)
qed

lemma set_edge_ok:
  assumes "graph_inv g" "live g s" "live g d" "g' = set_edge s w d g"
  shows "graph_inv g' \<and> edge_of g' = edge_upd (edge_of g) s d w \<and> live g' = live g \<and> g_size g' = g_size g"
proof (cases "eidx g s d")
  case None
  then show ?thesis using assms by (intro add_edge_ok) (simp_all add: set_edge_def tsm_lookup_eidx edge_of_def)
next
  case (Some i)
  then show ?thesis using assms by (intro set_weight_ok[OF assms(1) Some]) (simp add: set_edge_def tsm_lookup_eidx)
qed

definition min_weight :: "int option \<Rightarrow> int \<Rightarrow> int" where
  "min_weight old w = (case old of None \<Rightarrow> w | Some v \<Rightarrow> min v w)"

lemma update_edge_ok:
  assumes "graph_inv g" "live g s" "live g d" "g' = update_edge s w d g"
  shows "graph_inv g' \<and> edge_of g' = edge_upd (edge_of g) s d (min_weight (edge_of g s d) w) \<and> live g' = live g \<and> g_size g' = g_size g"
proof (cases "eidx g s d")
  case None
  then have w: "min_weight (edge_of g s d) w = w" by (simp add: edge_of_def min_weight_def)
  show ?thesis unfolding w using None assms by (intro add_edge_ok) (simp_all add: update_edge_def tsm_lookup_eidx edge_of_def)
next
  case (Some i)
  then have w: "min_weight (edge_of g s d) w = min (g_ws g ! i) w" by (simp add: edge_of_def min_weight_def)
  show ?thesis unfolding w using Some assms by (intro set_weight_ok[OF assms(1) Some]) (simp add: update_edge_def tsm_lookup_eidx)
qed

lemma new_vertex_ok:
  assumes g: "graph_inv g" and room: "free_id g = [] \<Longrightarrow> g_size g < 2 ^ 16" and v: "new_vertex g = (v, g')"
  shows "graph_inv g' \<and> edge_of g' = edge_of g \<and> live g' = (live g)(v := True) \<and> \<not> live g v \<and> v \<le> g_size g \<and> g_size g' = max (g_size g) (Suc v)"
proof (cases "free_id g = []")
  case False
  have f: "distinct (free_id g)" "set (free_id g) = {v. v < g_size g \<and> is_free g ! v}" "length (is_free g) = g_size g"
    using g by (auto simp: graph_inv_def free_inv_def adj_inv_def)
  have vg: "v = last (free_id g)" "g' = g\<lparr>free_id := butlast (free_id g), is_free := (is_free g)[v := False]\<rparr>"
    using v False by (auto simp: new_vertex_def Let_def)
  have m: "v \<in> set (free_id g)" using vg False by simp
  have size: "g_size g' = g_size g" and e: "eidx g' = eidx g" by (auto simp: vg g_size_def eidx_def fun_eq_iff)
  have "set (butlast (free_id g)) = set (free_id g) - {v}" "distinct (butlast (free_id g))"
    using f(1) vg(1) False by (cases "free_id g" rule: rev_cases; auto)+
  then have "free_inv g'" using g f m unfolding graph_inv_def free_inv_def e size by (auto simp: vg(2) nth_list_update)
  moreover have "adj_inv g' = adj_inv g" "idx_inv g' = idx_inv g" "edges g' = edges g"
    unfolding adj_inv_def idx_inv_def edges_def e size by (simp_all add: vg)
  ultimately have "graph_inv g'" using g by (simp add: graph_inv_def vg(2))
  moreover have w: "g_ws g' = g_ws g" "is_free g' = (is_free g)[v := False]" by (simp_all add: vg(2))
  have vl: "v < g_size g" "is_free g ! v" using m f(2) by auto
  have "live g' u = ((live g)(v := True)) u" for u using vl f(3) by (simp add: live_def size w nth_list_update)
  moreover have "edge_of g' = edge_of g" unfolding edge_of_def e w ..
  ultimately show ?thesis using vl by (simp add: size fun_eq_iff live_def)
next
  case True
  have vg: "v = g_size g" "g' = g\<lparr>is_free := is_free g @ [False], succs_of := succs_of g @ [[]], preds_of := preds_of g @ [[]]\<rparr>"
    using v True by (auto simp: new_vertex_def g_size_def)
  have a: "adj_inv g" "length (preds_of g) = g_size g" "length (is_free g) = g_size g" "idx_inv g" "free_inv g"
    using g by (auto simp: graph_inv_def adj_inv_def)
  have size: "g_size g' = Suc (g_size g)" by (simp add: vg g_size_def)
  have e: "eidx g' = eidx g" unfolding eidx_def size by (auto simp: vg g_size_def fun_eq_iff nth_append less_Suc_eq)
  have b: "d < g_size g \<and> s < g_size g" if "eidx g s d = Some i" for s d i using eidx_bounds[OF g that] by (auto simp: live_def)
  have "adj_inv g'"
    unfolding adj_inv_def e size
  proof (intro conjI allI)
    show "eidx g s d = Some i \<longleftrightarrow> d < Suc (g_size g) \<and> om_lookup (preds_of g' ! d) s = Some i" for s d i
    proof -
      have "eidx g s d = Some i \<longleftrightarrow> d < g_size g \<and> om_lookup (preds_of g ! d) s = Some i" using a(1) unfolding adj_inv_def by blast
      then show ?thesis using a(2) by (auto simp: vg nth_append less_Suc_eq)
    qed
  qed (use a room[OF True] in \<open>auto simp: adj_inv_def vg nth_append g_size_def om_wf_def less_Suc_eq\<close>)
  moreover have "idx_inv g'" "edges g' = edges g" using a(4) unfolding idx_inv_def edges_def e by (simp_all add: vg)
  moreover have "free_inv g'"
    using a(3,5) b unfolding free_inv_def e size by (auto simp: vg nth_append less_Suc_eq)
  ultimately have "graph_inv g'" using g by (simp add: graph_inv_def vg(2))
  then show ?thesis using a by (auto simp: live_def edge_of_def e fun_eq_iff size) (auto simp: vg nth_append)
qed

text \<open>Forgetting a vertex: the two loops remove it from the maps of its neighbours.\<close>

lemma forget_succs_loop:
  assumes "distinct (map fst m)" "set (map fst m) \<subseteq> {..<length (preds_of g)}"
  shows "fold (\<lambda>(key, val) g. g\<lparr>free_widx := free_widx g @ [val], preds_of := (preds_of g)[key := tsm_remove v (preds_of g ! key)]\<rparr>) m g =
    g\<lparr>free_widx := free_widx g @ map snd m,
      preds_of := map (\<lambda>d. if d \<in> set (map fst m) then tsm_remove v (preds_of g ! d) else preds_of g ! d) [0..<length (preds_of g)]\<rparr>"
  using assms
proof (induction m arbitrary: g)
  case Nil
  then show ?case by (simp add: map_nth)
next
  case (Cons a m)
  obtain k i where a: "a = (k, i)" by (cases a)
  show ?case using Cons.prems unfolding a
    by (simp add: Cons.IH) (auto intro!: nth_equalityI simp: nth_list_update)
qed

lemma forget_preds_loop:
  assumes "distinct ks" "set ks \<subseteq> {..<length (succs_of g)}"
  shows "fold (\<lambda>k g. g\<lparr>succs_of := (succs_of g)[k := tsm_remove v (succs_of g ! k)]\<rparr>) ks g =
    g\<lparr>succs_of := map (\<lambda>s. if s \<in> set ks then tsm_remove v (succs_of g ! s) else succs_of g ! s) [0..<length (succs_of g)]\<rparr>"
  using assms
proof (induction ks arbitrary: g)
  case Nil
  then show ?case by (simp add: map_nth)
next
  case (Cons k ks)
  then show ?case by (simp add: Cons.IH) (auto intro!: nth_equalityI simp: nth_list_update)
qed

lemma g_succs_live: "graph_inv g \<Longrightarrow> live g s \<Longrightarrow> d \<in> set (g_succs g s) \<longleftrightarrow> edge_of g s d \<noteq> None"
  by (simp only: g_e_succs_set(1) set_map flip: g_e_succs_set(3)) (auto simp: image_iff)

lemma g_preds_live: "graph_inv g \<Longrightarrow> live g d \<Longrightarrow> s \<in> set (g_preds g d) \<longleftrightarrow> edge_of g s d \<noteq> None"
  by (simp only: g_e_preds_set(1) set_map flip: g_e_preds_set(3)) (auto simp: image_iff)

lemma card_Collect_fst: "distinct (map fst m) \<Longrightarrow> card {k. om_lookup m k \<noteq> None} = length m"
proof -
  assume "distinct (map fst m)"
  moreover have "{k. om_lookup m k \<noteq> None} = set (map fst m)" by (auto simp: map_of_eq_None_iff)
  ultimately show ?thesis by (metis distinct_card length_map)
qed

lemma forget_unfold:
  assumes g: "graph_inv g" and v: "live g v"
  defines "ps \<equiv> map (\<lambda>d. if d \<in> set (g_succs g v) then tsm_remove v (preds_of g ! d) else preds_of g ! d) [0..<g_size g]"
    and "ss \<equiv> map (\<lambda>s. if s \<in> set (g_preds g v) then tsm_remove v ((succs_of g)[v := []] ! s) else (succs_of g)[v := []] ! s) [0..<g_size g]"
  shows "g_forget v g = g\<lparr>free_widx := free_widx g @ map snd (succs_of g ! v), preds_of := ps[v := []], succs_of := ss,
    edge_count := edge_count g - length (succs_of g ! v) - length (ps ! v), is_free := (is_free g)[v := True], free_id := free_id g @ [v]\<rparr>"
proof -
  have len: "length (preds_of g) = g_size g" "length (succs_of g) = g_size g" "v < g_size g" "\<not> is_free g ! v"
    using g v by (auto simp: graph_inv_def adj_inv_def g_size_def live_def)
  have d: "distinct (g_succs g v)" "set (g_succs g v) \<subseteq> {..<g_size g}"
    using g_e_succs_set[OF g v] edge_of_live[OF g] g_succs_live[OF g v] by (auto simp: live_def)
  have dp: "distinct (g_preds g v)" "set (g_preds g v) \<subseteq> {..<g_size g}"
    using g_e_preds_set[OF g v] edge_of_live[OF g] g_preds_live[OF g v] by (auto simp: live_def)
  note loop1 = forget_succs_loop[of "succs_of g ! v" g v, folded g_succs_def, unfolded len, OF d]
  define g1 where "g1 = g\<lparr>free_widx := free_widx g @ map snd (succs_of g ! v), preds_of := ps,
    edge_count := edge_count g - length (succs_of g ! v), succs_of := (succs_of g)[v := []]\<rparr>"
  have psv: "ps ! v = (if v \<in> set (g_succs g v) then tsm_remove v (preds_of g ! v) else preds_of g ! v)" using len by (simp add: ps_def)
  have "set (map fst (ps ! v)) \<subseteq> set (g_preds g v)" by (auto simp: psv g_preds_def tsm_remove_def)
  moreover have "distinct (map fst (ps ! v))"
    using dp(1) by (auto simp: psv g_preds_def tsm_remove_def distinct_map_filter)
  ultimately have loop2: "fold (\<lambda>k g. g\<lparr>succs_of := (succs_of g)[k := tsm_remove v (succs_of g ! k)]\<rparr>) (map fst (ps ! v)) g1 =
    g1\<lparr>succs_of := map (\<lambda>s. if s \<in> set (map fst (ps ! v)) then tsm_remove v (succs_of g1 ! s) else succs_of g1 ! s) [0..<g_size g]\<rparr>"
    using dp(2) len by (subst forget_preds_loop) (auto simp: g1_def)
  have ss: "map (\<lambda>s. if s \<in> set (map fst (ps ! v)) then tsm_remove v (succs_of g1 ! s) else succs_of g1 ! s) [0..<g_size g] = ss"
    unfolding ss_def
  proof (intro map_cong refl)
    fix s assume "s \<in> set [0..<g_size g]"
    have "s \<in> set (map fst (ps ! v)) \<longleftrightarrow> s \<in> set (g_preds g v)" if "s \<noteq> v"
      using that len live_key[OF g v] by (auto simp: psv g_preds_def tsm_remove_def)
    then show "(if s \<in> set (map fst (ps ! v)) then tsm_remove v (succs_of g1 ! s) else succs_of g1 ! s) =
        (if s \<in> set (g_preds g v) then tsm_remove v ((succs_of g)[v := []] ! s) else (succs_of g)[v := []] ! s)"
      using len by (cases "s = v") (auto simp: g1_def tsm_remove_def)
  qed
  have "g_forget v g = (let g = fold (\<lambda>k g. g\<lparr>succs_of := (succs_of g)[k := tsm_remove v (succs_of g ! k)]\<rparr>) (map fst (ps ! v)) g1;
            g = g\<lparr>edge_count := edge_count g - length (preds_of g ! v), preds_of := (preds_of g)[v := []]\<rparr>
        in g\<lparr>is_free := (is_free g)[v := True], free_id := free_id g @ [v]\<rparr>)"
    using len unfolding g_forget_def loop1 ps_def[symmetric] by (simp add: Let_def g1_def)
  then show ?thesis unfolding loop2 ss by (simp add: g1_def Let_def)
qed

lemma g_forget_ok:
  assumes g: "graph_inv g" and v: "live g v" and g': "g' = g_forget v g"
  shows "graph_inv g' \<and> edge_of g' = (\<lambda>s d. if s = v \<or> d = v then None else edge_of g s d) \<and>
    live g' = (live g)(v := False) \<and> g_size g' = g_size g"
proof -
  define ps where "ps = map (\<lambda>d. if d \<in> set (g_succs g v) then tsm_remove v (preds_of g ! d) else preds_of g ! d) [0..<g_size g]"
  define ss where "ss = map (\<lambda>s. if s \<in> set (g_preds g v) then tsm_remove v ((succs_of g)[v := []] ! s) else (succs_of g)[v := []] ! s) [0..<g_size g]"
  note g'_eq = forget_unfold[OF g v, folded ps_def ss_def g']
  have size: "g_size g' = g_size g" by (simp add: g'_eq g_size_def ss_def)
  have len: "length (preds_of g) = g_size g" "length (is_free g) = g_size g" "length (succs_of g) = g_size g" "v < g_size g" "\<not> is_free g ! v"
    and omw: "\<And>u. u < g_size g \<Longrightarrow> om_wf (succs_of g ! u) \<and> om_wf (preds_of g ! u)"
    and sym: "\<And>s d i. eidx g s d = Some i \<longleftrightarrow> d < g_size g \<and> om_lookup (preds_of g ! d) s = Some i"
    using g v unfolding graph_inv_def adj_inv_def live_def g_size_def by blast+
  have key: "key_of v = v" using live_key[OF g v] .
  have nosucc: "om_lookup (preds_of g ! d) v = None" if "d < g_size g" "d \<notin> set (g_succs g v)" for d
  proof -
    have "eidx g v d = None" using that len by (simp add: eidx_def g_succs_def map_of_eq_None_iff)
    then show ?thesis using sym[of v d] that(1) by (metis option.exhaust option.distinct(1))
  qed
  have nopred: "om_lookup (succs_of g ! s) v = None" if "s < g_size g" "s \<notin> set (g_preds g v)" for s
  proof -
    have "om_lookup (preds_of g ! v) s = None" using that len by (simp add: g_preds_def map_of_eq_None_iff)
    then show ?thesis using sym[of s v] that(1) by (metis eidx_def option.exhaust option.distinct(1))
  qed
  have lps: "om_lookup (ps ! d) s = (if s = v then None else om_lookup (preds_of g ! d) s)" if "d < g_size g" for s d
    using that nosucc by (auto simp: ps_def tsm_remove_def key om_lookup_filter)
  have lss: "om_lookup (ss ! s) d = (if s = v \<or> d = v then None else om_lookup (succs_of g ! s) d)" if "s < g_size g" for s d
    using that nopred len by (auto simp: ss_def tsm_remove_def key om_lookup_filter nth_list_update)
  have e: "eidx g' = (\<lambda>s d. if s = v \<or> d = v then None else eidx g s d)"
    unfolding eidx_def size by (auto simp: g'_eq lss fun_eq_iff)
  have w: "g_ws g' = g_ws g" by (simp add: g'_eq)
  have omf: "om_wf m \<Longrightarrow> om_wf (tsm_remove v m)" for m
    unfolding tsm_remove_def om_wf_def by (induction m) auto
  have "adj_inv g'"
    unfolding adj_inv_def size
  proof (intro conjI allI impI)
    show "eidx g' s d = Some i \<longleftrightarrow> d < g_size g \<and> om_lookup (preds_of g' ! d) s = Some i" for s d i
      using sym[of s d i] lps[of d s] len unfolding e by (cases "d = v") (auto simp: g'_eq ps_def)
    fix u assume "u < g_size g"
    then show "om_wf (succs_of g' ! u)" "om_wf (preds_of g' ! u)"
      using omw[of u] len omf by (auto simp: g'_eq ps_def ss_def nth_list_update om_wf_def)
  qed (use g len in \<open>auto simp: g'_eq ps_def graph_inv_def adj_inv_def\<close>)
  moreover have "idx_inv g'"
  proof -
    have i: "idx_inv g" using g by (simp add: graph_inv_def)
    have sv: "i \<in> set (map snd (succs_of g ! v)) \<longleftrightarrow> (\<exists>d. eidx g v d = Some i)" for i
      using omw[OF len(4)] len by (force simp: eidx_def om_wf_def strict_sorted_iff)
    have "distinct (map snd (succs_of g ! v))"
      unfolding distinct_map
    proof
      have df: "distinct (map fst (succs_of g ! v))" using omw[OF len(4)] by (simp add: om_wf_def strict_sorted_iff)
      then show "distinct (succs_of g ! v)" by (simp add: distinct_map)
      have ei: "eidx g v (fst x) = Some (snd x)" if "x \<in> set (succs_of g ! v)" for x
        using that len df by (simp add: eidx_def)
      show "inj_on snd (set (succs_of g ! v))"
      proof (rule inj_onI)
        fix x y assume "x \<in> set (succs_of g ! v)" "y \<in> set (succs_of g ! v)" "snd x = snd y"
        then have "eidx g v (fst x) = Some (snd x)" "eidx g v (fst y) = Some (snd x)" using ei by auto
        then have "fst x = fst y" using i unfolding idx_inv_def by blast
        then show "x = y" using \<open>snd x = snd y\<close> by (simp add: prod_eq_iff)
      qed
    qed
    moreover have "set (map snd (succs_of g ! v)) \<inter> set (free_widx g) = {}" "set (map snd (succs_of g ! v)) \<subseteq> {..<length (g_ws g)}"
      using i sv unfolding idx_inv_def by (blast, blast)
    moreover have "i \<notin> set (map snd (succs_of g ! v))" if "eidx g' s d = Some i" for s d i
      using that i unfolding sv e idx_inv_def by (metis option.distinct(1))
    moreover have "eidx g s d = Some i" if "eidx g' s d = Some i" for s d i using that by (simp add: e split: if_splits)
    moreover have fw: "free_widx g' = free_widx g @ map snd (succs_of g ! v)" by (simp add: g'_eq)
    ultimately show ?thesis
      using i unfolding idx_inv_def w fw by (simp add: Int_commute) meson
  qed
  moreover have "free_inv g'"
    using g len v unfolding graph_inv_def free_inv_def e size by (auto simp: g'_eq nth_list_update live_def)
  moreover have "edge_count g' = card (edges g')"
  proof -
    have "{d. eidx g v d \<noteq> None} = {d. om_lookup (succs_of g ! v) d \<noteq> None}" "{s. om_lookup (ps ! v) s \<noteq> None} = {s. s \<noteq> v \<and> eidx g s v \<noteq> None}"
      using len sym[of _ v] by (auto simp: eidx_def lps)
    moreover have "distinct (map fst (succs_of g ! v))" "distinct (map fst (ps ! v))"
      using omw[OF len(4)] omf len by (auto simp: ps_def om_wf_def strict_sorted_iff)
    ultimately have c: "length (succs_of g ! v) = card {d. eidx g v d \<noteq> None}" "length (ps ! v) = card {s. s \<noteq> v \<and> eidx g s v \<noteq> None}"
      by (metis card_Collect_fst)+
    have "edges g = edges g' \<union> (Pair v ` {d. eidx g v d \<noteq> None} \<union> (\<lambda>s. (s, v)) ` {s. s \<noteq> v \<and> eidx g s v \<noteq> None})"
      by (auto simp: edges_def e)
    moreover have "edges g' \<inter> (Pair v ` {d. eidx g v d \<noteq> None} \<union> (\<lambda>s. (s, v)) ` {s. s \<noteq> v \<and> eidx g s v \<noteq> None}) = {}"
      "Pair v ` {d. eidx g v d \<noteq> None} \<inter> (\<lambda>s. (s, v)) ` {s. s \<noteq> v \<and> eidx g s v \<noteq> None} = {}"
      by (auto simp: edges_def e)
    ultimately have "card (edges g) = card (edges g') + (card {d. eidx g v d \<noteq> None} + card {s. s \<noteq> v \<and> eidx g s v \<noteq> None})"
      using finite_edges[OF g] by (simp add: card_Un_disjoint card_image inj_on_def)
    moreover have "edge_count g' = card (edges g) - length (succs_of g ! v) - length (ps ! v)" using g by (simp add: g'_eq graph_inv_def)
    ultimately show ?thesis unfolding c by linarith
  qed
  ultimately have "graph_inv g'" by (simp add: graph_inv_def)
  moreover have f: "is_free g' = (is_free g)[v := True]" by (simp add: g'_eq)
  have "live g' = (live g)(v := False)" using len unfolding live_def size f by (auto simp: nth_list_update fun_eq_iff)
  moreover have "edge_of g' = (\<lambda>s d. if s = v \<or> d = v then None else edge_of g s d)" by (auto simp: edge_of_def e w fun_eq_iff)
  ultimately show ?thesis by (simp add: size)
qed

lemma g_forget_free: "is_free g ! v \<Longrightarrow> g_forget v g = g"
  by (simp add: g_forget_def)

lemma empty_graph_inv [simp]: "graph_inv empty_graph" "g_size empty_graph = 0" "free_id empty_graph = []"
  by (auto simp: graph_inv_def adj_inv_def idx_inv_def free_inv_def edges_def eidx_def empty_graph_def g_size_def)

lemma growTo_ok:
  assumes "graph_inv g" "free_id g = []" "n \<le> 2 ^ 16" "edge_of g = (\<lambda>s d. None)" "live g = (\<lambda>v. v < g_size g)" "g_size g \<le> n"
  shows "graph_inv (growTo n g) \<and> edge_of (growTo n g) = (\<lambda>s d. None) \<and> live (growTo n g) = (\<lambda>v. v < n) \<and> g_size (growTo n g) = n \<and>
    free_id (growTo n g) = []"
  using assms
proof (induction n g rule: growTo.induct)
  case (1 n g)
  show ?case
  proof (cases "g_size g < n")
    case True
    obtain v g' where v: "new_vertex g = (v, g')" by fastforce
    have "free_id g' = []" "v = g_size g" using v 1(3) by (auto simp: new_vertex_def g_size_def)
    moreover note new_vertex_ok[OF 1(2) _ v]
    ultimately have ok: "graph_inv g'" "edge_of g' = (\<lambda>s d. None)" "live g' = (\<lambda>u. u < g_size g')" "g_size g' \<le> n" "free_id g' = []"
      using 1(2-) True by (auto simp: fun_eq_iff max_def)
    have "growTo n g = growTo n g'" using True v by (simp add: growTo.simps[of n g])
    then show ?thesis using 1(1)[OF True] ok 1(4) v by simp
  next
    case False
    then show ?thesis using 1(2-) by (simp add: growTo.simps)
  qed
qed

lemma growTo_empty:
  assumes "n \<le> 2 ^ 16"
  shows "graph_inv (growTo n empty_graph)" "edge_of (growTo n empty_graph) = (\<lambda>s d. None)" "live (growTo n empty_graph) = (\<lambda>v. v < n)"
    "g_size (growTo n empty_graph) = n" "free_id (growTo n empty_graph) = []"
proof -
  have "edge_of empty_graph = (\<lambda>s d. None)" "live empty_graph = (\<lambda>v. v < g_size empty_graph)"
    by (auto simp: edge_of_def eidx_def live_def fun_eq_iff)
  note growTo_ok[OF empty_graph_inv(1,3) assms this]
  then show "graph_inv (growTo n empty_graph)" "edge_of (growTo n empty_graph) = (\<lambda>s d. None)" "live (growTo n empty_graph) = (\<lambda>v. v < n)"
    "g_size (growTo n empty_graph) = n" "free_id (growTo n empty_graph) = []" by simp_all
qed

section \<open>Valuations\<close>

text \<open>An edge from \<open>s\<close> to \<open>d\<close> of weight \<open>w\<close> is the constraint that the value of \<open>d\<close> is at most the value of
  \<open>s\<close> plus \<open>w\<close>.\<close>

definition sat :: "(nat \<Rightarrow> int) \<Rightarrow> (nat \<Rightarrow> nat \<Rightarrow> int option) \<Rightarrow> bool" where
  "sat val E \<longleftrightarrow> (\<forall>s d w. E s d = Some w \<longrightarrow> val d \<le> val s + w)"

lemma satD: "sat val E \<Longrightarrow> E s d = Some w \<Longrightarrow> val d \<le> val s + w"
  by (auto simp: sat_def)

lemma sat_edge_upd: "sat val E \<Longrightarrow> val d \<le> val s + w \<Longrightarrow> sat val (edge_upd E s d w)"
  by (auto simp: sat_def edge_upd_def)

lemma sat_edge_min: "sat val E \<Longrightarrow> val d \<le> val s + w \<Longrightarrow> sat val (edge_upd E s d (min_weight (E s d) w))"
  by (auto simp: sat_def edge_upd_def min_weight_def min_def split: option.splits)

text \<open>What the algorithms rely on when they add constraints to a graph.\<close>

locale weighted_graph =
  fixes invar :: "'g \<Rightarrow> bool" and edge :: "'g \<Rightarrow> nat \<Rightarrow> nat \<Rightarrow> int option" and alive :: "'g \<Rightarrow> nat \<Rightarrow> bool"
    and put :: "nat \<Rightarrow> int \<Rightarrow> nat \<Rightarrow> 'g \<Rightarrow> 'g" and weight :: "int option \<Rightarrow> int \<Rightarrow> int"
  assumes put_ok: "invar g \<Longrightarrow> alive g s \<Longrightarrow> alive g d \<Longrightarrow>
      invar (put s w d g) \<and> edge (put s w d g) = edge_upd (edge g) s d (weight (edge g s d) w) \<and> alive (put s w d g) = alive g"
    and weight_cases: "weight old w = w \<or> old = Some (weight old w) \<and> weight old w \<le> w"
begin

lemma put_sat:
  assumes "invar g" "alive g s" "alive g d" "sat val (edge g)" "val d \<le> val s + w"
  shows "sat val (edge (put s w d g))"
proof -
  have "val d \<le> val s + weight (edge g s d) w" using weight_cases[of "edge g s d" w] assms(4,5) by (auto dest: satD)
  then show ?thesis using put_ok[OF assms(1-3), of w] assms(4) by (simp add: sat_edge_upd)
qed

lemma put_all:
  assumes "invar g" "\<forall>(s, d, w) \<in> set delta. alive g s \<and> alive g d"
  shows "invar (fold (\<lambda>(s, d, w). put s w d) delta g) \<and> alive (fold (\<lambda>(s, d, w). put s w d) delta g) = alive g \<and>
    (\<forall>val. sat val (edge g) \<longrightarrow> (\<forall>(s, d, w) \<in> set delta. val d \<le> val s + w) \<longrightarrow> sat val (edge (fold (\<lambda>(s, d, w). put s w d) delta g)))"
  using assms
proof (induction delta arbitrary: g)
  case (Cons e delta)
  obtain s d w where e: "e = (s, d, w)" by (cases e)
  have a: "invar g" "alive g s" "alive g d" using Cons.prems e by auto
  note p = put_ok[OF a, of w]
  have "\<forall>(s', d', w') \<in> set delta. alive (put s w d g) s' \<and> alive (put s w d g) d'" using Cons.prems(2) p by auto
  note IH = Cons.IH[OF conjunct1[OF p] this]
  have "sat val (edge (put s w d g))" if "sat val (edge g)" "val d \<le> val s + w" for val by (rule put_sat[OF a that])
  then show ?case using IH p by (simp add: e)
qed simp

end

interpretation sg: weighted_graph graph_inv edge_of live set_edge "\<lambda>old w. w"
proof unfold_locales
  show "graph_inv (set_edge s w d g) \<and> edge_of (set_edge s w d g) = edge_upd (edge_of g) s d w \<and> live (set_edge s w d g) = live g"
    if "graph_inv g" "live g s" "live g d" for g s d w
    using set_edge_ok[OF that refl, of w] by blast
qed simp

interpretation ug: weighted_graph graph_inv edge_of live update_edge min_weight
proof unfold_locales
  show "graph_inv (update_edge s w d g) \<and> edge_of (update_edge s w d g) = edge_upd (edge_of g) s d (min_weight (edge_of g s d) w) \<and>
      live (update_edge s w d g) = live g" if "graph_inv g" "live g s" "live g d" for g s d w
    using update_edge_ok[OF that refl, of w] by blast
qed (auto simp: min_weight_def min_def split: option.splits)

end
