(* ===== verification/Graph_Views.thy ===== *)
theory Graph_Views
  imports Adapt_Graph
begin

text \<open>
  The views of a graph (\<^verbatim>\<open>crab_utils/graph_ops.hpp\<close>): a permutation of the vertices, the graph without one
  vertex, the graph with its edges reversed. The algorithms are templates over the graph type; here a
  graph type is the record of the operations they call. \<open>view_ok\<close> says which edge map a view presents.
  The sentinel \<^verbatim>\<open>invalid_vert\<close> of a permutation is \<open>None\<close>.
\<close>

section \<open>The views\<close>

record Graph_View =
  v_size :: nat
  v_verts :: "VertId list"
  v_succs :: "VertId \<Rightarrow> VertId list"
  v_preds :: "VertId \<Rightarrow> VertId list"
  v_e_succs :: "VertId \<Rightarrow> (VertId \<times> int) list"
  v_e_preds :: "VertId \<Rightarrow> (VertId \<times> int) list"
  v_elem :: "VertId \<Rightarrow> VertId \<Rightarrow> bool"
  v_lookup :: "VertId \<Rightarrow> VertId \<Rightarrow> int option"
  v_edge_val :: "VertId \<Rightarrow> VertId \<Rightarrow> int"

definition adapt_view :: "AdaptGraph \<Rightarrow> Graph_View" where
  "adapt_view g =
     \<lparr>v_size = g_size g, v_verts = g_verts g, v_succs = g_succs g, v_preds = g_preds g, v_e_succs = g_e_succs g,
      v_e_preds = g_e_preds g, v_elem = g_elem g, v_lookup = g_lookup g, v_edge_val = g_edge_val g\<rparr>"

definition perm_inverse :: "VertId option list \<Rightarrow> nat \<Rightarrow> VertId option list" where
  "perm_inverse perm n =
     fold (\<lambda>vi vinv. case perm ! vi of None \<Rightarrow> vinv | Some p \<Rightarrow> vinv[p := Some vi]) [0..<length perm] (replicate n None)"

text \<open>The checks of \<^verbatim>\<open>elem\<close> and \<^verbatim>\<open>lookup\<close> compare with the size of the graph; the sentinel is larger.\<close>

definition perm_invalid :: "VertId option \<Rightarrow> nat \<Rightarrow> bool" where
  "perm_invalid p n \<longleftrightarrow> (case p of None \<Rightarrow> True | Some p \<Rightarrow> p > n)"

definition adj_verts :: "VertId option list \<Rightarrow> VertId list \<Rightarrow> VertId list" where
  "adj_verts vinv adj = List.map_filter (\<lambda>v. vinv ! v) adj"

definition adj_edges :: "VertId option list \<Rightarrow> (VertId \<times> int) list \<Rightarrow> (VertId \<times> int) list" where
  "adj_edges vinv adj = List.map_filter (\<lambda>(v, w). map_option (\<lambda>u. (u, w)) (vinv ! v)) adj"

definition graph_perm :: "VertId option list \<Rightarrow> Graph_View \<Rightarrow> Graph_View" where
  "graph_perm perm g =
     (let vinv = perm_inverse perm (v_size g) in
      \<lparr>v_size = length perm, v_verts = [0..<length perm],
       v_succs = (\<lambda>v. case perm ! v of None \<Rightarrow> [] | Some p \<Rightarrow> adj_verts vinv (v_succs g p)),
       v_preds = (\<lambda>v. case perm ! v of None \<Rightarrow> [] | Some p \<Rightarrow> adj_verts vinv (v_preds g p)),
       v_e_succs = (\<lambda>v. case perm ! v of None \<Rightarrow> [] | Some p \<Rightarrow> adj_edges vinv (v_e_succs g p)),
       v_e_preds = (\<lambda>v. case perm ! v of None \<Rightarrow> [] | Some p \<Rightarrow> adj_edges vinv (v_e_preds g p)),
       v_elem = (\<lambda>x y. if perm_invalid (perm ! x) (v_size g) \<or> perm_invalid (perm ! y) (v_size g) then False
                       else v_elem g (the (perm ! x)) (the (perm ! y))),
       v_lookup = (\<lambda>x y. if perm_invalid (perm ! x) (v_size g) \<or> perm_invalid (perm ! y) (v_size g) then None
                         else v_lookup g (the (perm ! x)) (the (perm ! y))),
       v_edge_val = (\<lambda>x y. v_edge_val g (the (perm ! x)) (the (perm ! y)))\<rparr>)"

definition sub_graph :: "Graph_View \<Rightarrow> VertId \<Rightarrow> Graph_View" where
  "sub_graph g v_ex =
     \<lparr>v_size = v_size g, v_verts = filter (\<lambda>v. v \<noteq> v_ex) (v_verts g),
      v_succs = (\<lambda>v. filter (\<lambda>u. u \<noteq> v_ex) (v_succs g v)), v_preds = (\<lambda>v. filter (\<lambda>u. u \<noteq> v_ex) (v_preds g v)),
      v_e_succs = (\<lambda>v. filter (\<lambda>(u, w). u \<noteq> v_ex) (v_e_succs g v)), v_e_preds = (\<lambda>v. filter (\<lambda>(u, w). u \<noteq> v_ex) (v_e_preds g v)),
      v_elem = (\<lambda>x y. x \<noteq> v_ex \<and> y \<noteq> v_ex \<and> v_elem g x y),
      v_lookup = (\<lambda>x y. if x = v_ex \<or> y = v_ex then None else v_lookup g x y),
      v_edge_val = v_edge_val g\<rparr>"

definition graph_rev :: "Graph_View \<Rightarrow> Graph_View" where
  "graph_rev g =
     \<lparr>v_size = v_size g, v_verts = v_verts g, v_succs = v_preds g, v_preds = v_succs g, v_e_succs = v_e_preds g,
      v_e_preds = v_e_succs g, v_elem = (\<lambda>x y. v_elem g y x), v_lookup = (\<lambda>x y. v_lookup g y x),
      v_edge_val = (\<lambda>x y. v_edge_val g y x)\<rparr>"

section \<open>The edges of a view\<close>

definition view_ok :: "Graph_View \<Rightarrow> (nat \<Rightarrow> nat \<Rightarrow> int option) \<Rightarrow> bool" where
  "view_ok V E \<longleftrightarrow> distinct (v_verts V) \<and> (\<forall>v \<in> set (v_verts V). v < v_size V) \<and>
     (\<forall>s d w. E s d = Some w \<longrightarrow> s \<in> set (v_verts V) \<and> d \<in> set (v_verts V) \<and> v_edge_val V s d = w) \<and>
     (\<forall>s \<in> set (v_verts V). \<forall>d \<in> set (v_verts V). v_lookup V s d = E s d \<and> (v_elem V s d \<longleftrightarrow> E s d \<noteq> None)) \<and>
     (\<forall>v \<in> set (v_verts V). v_succs V v = map fst (v_e_succs V v) \<and> v_preds V v = map fst (v_e_preds V v) \<and>
        distinct (v_succs V v) \<and> distinct (v_preds V v) \<and>
        set (v_e_succs V v) = {(d, w). E v d = Some w} \<and> set (v_e_preds V v) = {(s, w). E s v = Some w})"

lemma view_okD:
  assumes "view_ok V E"
  shows view_distinct: "distinct (v_verts V)" and view_size: "v \<in> set (v_verts V) \<Longrightarrow> v < v_size V"
    and view_edge: "E s d = Some w \<Longrightarrow> s \<in> set (v_verts V) \<and> d \<in> set (v_verts V)"
    and view_edge_val: "E s d = Some w \<Longrightarrow> v_edge_val V s d = w"
    and view_lookup: "s \<in> set (v_verts V) \<Longrightarrow> d \<in> set (v_verts V) \<Longrightarrow> v_lookup V s d = E s d"
    and view_elem: "s \<in> set (v_verts V) \<Longrightarrow> d \<in> set (v_verts V) \<Longrightarrow> v_elem V s d \<longleftrightarrow> E s d \<noteq> None"
    and view_e_succs: "v \<in> set (v_verts V) \<Longrightarrow> set (v_e_succs V v) = {(d, w). E v d = Some w}"
    and view_e_preds: "v \<in> set (v_verts V) \<Longrightarrow> set (v_e_preds V v) = {(s, w). E s v = Some w}"
    and view_succs: "v \<in> set (v_verts V) \<Longrightarrow> v_succs V v = map fst (v_e_succs V v)"
    and view_preds: "v \<in> set (v_verts V) \<Longrightarrow> v_preds V v = map fst (v_e_preds V v)"
    and view_distinct_succs: "v \<in> set (v_verts V) \<Longrightarrow> distinct (map fst (v_e_succs V v))"
    and view_distinct_preds: "v \<in> set (v_verts V) \<Longrightarrow> distinct (map fst (v_e_preds V v))"
  using assms unfolding view_ok_def by metis+

lemma adapt_view_ok: "graph_inv g \<Longrightarrow> view_ok (adapt_view g) (edge_of g)"
  unfolding view_ok_def by (auto simp: adapt_view_def g_lookup_edge g_elem_edge g_edge_val_edge g_e_succs_set g_e_preds_set live_def
    dest: edge_of_live) (metis g_e_succs_set(2,3) g_e_preds_set(2,3) live_def)+

definition without :: "nat \<Rightarrow> (nat \<Rightarrow> nat \<Rightarrow> int option) \<Rightarrow> (nat \<Rightarrow> nat \<Rightarrow> int option)" where
  "without v E = (\<lambda>s d. if s = v \<or> d = v then None else E s d)"

lemma sub_graph_ok: "view_ok V E \<Longrightarrow> view_ok (sub_graph V v) (without v E)"
  unfolding view_ok_def sub_graph_def
  by (auto simp: without_def filter_map comp_def case_prod_unfold distinct_map_filter)

lemma graph_rev_ok: "view_ok V E \<Longrightarrow> view_ok (graph_rev V) (\<lambda>s d. E d s)"
  unfolding view_ok_def graph_rev_def by auto

definition perm_ok :: "VertId option list \<Rightarrow> VertId set \<Rightarrow> bool" where
  "perm_ok perm vs \<longleftrightarrow> (\<forall>x < length perm. \<forall>p. perm ! x = Some p \<longrightarrow> p \<in> vs) \<and>
     (\<forall>x < length perm. \<forall>y < length perm. \<forall>p. perm ! x = Some p \<longrightarrow> perm ! y = Some p \<longrightarrow> x = y)"

definition permuted :: "VertId option list \<Rightarrow> (nat \<Rightarrow> nat \<Rightarrow> int option) \<Rightarrow> (nat \<Rightarrow> nat \<Rightarrow> int option)" where
  "permuted perm E = (\<lambda>x y. if x < length perm \<and> y < length perm then
     (case (perm ! x, perm ! y) of (Some a, Some b) \<Rightarrow> E a b | _ \<Rightarrow> None) else None)"

lemma permuted_Some:
  "permuted perm E x y = Some w \<longleftrightarrow> x < length perm \<and> y < length perm \<and> (\<exists>a b. perm ! x = Some a \<and> perm ! y = Some b \<and> E a b = Some w)"
  by (auto simp: permuted_def split: option.splits)

lemma perm_inverse_nth:
  assumes "perm_ok perm {..<n}" "p < n"
  shows "length (perm_inverse perm n) = n" "perm_inverse perm n ! p = Some x \<longleftrightarrow> x < length perm \<and> perm ! x = Some p"
proof -
  let ?f = "\<lambda>vi vinv. case perm ! vi of None \<Rightarrow> vinv | Some p \<Rightarrow> vinv[p := Some vi]"
  have "k \<le> length perm \<Longrightarrow> length (fold ?f [0..<k] (replicate n None)) = n \<and>
      (\<forall>x. fold ?f [0..<k] (replicate n None) ! p = Some x \<longleftrightarrow> x < k \<and> perm ! x = Some p)" for k
  proof (induction k)
    case (Suc k)
    show ?case
    proof (cases "perm ! k")
      case (Some q)
      then have "q < n" using assms(1) Suc.prems unfolding perm_ok_def by (metis Suc_le_lessD lessThan_iff)
      moreover have "perm ! x \<noteq> Some q" if "x < k" for x
        using assms(1) Suc.prems Some that unfolding perm_ok_def by (metis Suc_le_lessD less_trans nat_neq_iff)
      ultimately show ?thesis using Suc Some by (auto simp: nth_list_update less_Suc_eq)
    next
      case None
      then have "x < Suc k \<and> perm ! x = Some p \<longleftrightarrow> x < k \<and> perm ! x = Some p" for x by (auto simp: less_Suc_eq)
      then show ?thesis using Suc None by simp
    qed
  qed (use assms(2) in auto)
  from this[of "length perm"] show "length (perm_inverse perm n) = n" "perm_inverse perm n ! p = Some x \<longleftrightarrow> x < length perm \<and> perm ! x = Some p"
    by (auto simp: perm_inverse_def)
qed

lemma set_map_filter_edges: "(u, w) \<in> set (adj_edges vinv adj) \<longleftrightarrow> (\<exists>v. (v, w) \<in> set adj \<and> vinv ! v = Some u)"
  unfolding adj_edges_def by (induction adj) (auto simp: map_filter_simps split: option.splits)

lemma adj_verts_edges: "adj_verts vinv (map fst adj) = map fst (adj_edges vinv adj)"
  unfolding adj_verts_def adj_edges_def by (induction adj) (auto simp: map_filter_simps split: option.splits)

lemma distinct_adj_edges:
  assumes "distinct (map fst adj)" "\<And>u v x. u \<in> fst ` set adj \<Longrightarrow> v \<in> fst ` set adj \<Longrightarrow> vinv ! u = Some x \<Longrightarrow> vinv ! v = Some x \<Longrightarrow> u = v"
  shows "distinct (map fst (adj_edges vinv adj))"
  using assms
proof (induction adj)
  case (Cons a adj)
  obtain v w where a: "a = (v, w)" by (cases a)
  have IH: "distinct (map fst (adj_edges vinv adj))"
    by (rule Cons.IH) (use Cons.prems(1) in simp, rule Cons.prems(2), simp_all)
  have "x \<notin> fst ` set (adj_edges vinv adj)" if "vinv ! v = Some x" for x
  proof
    assume "x \<in> fst ` set (adj_edges vinv adj)"
    then obtain u w' where u: "(u, w') \<in> set adj" "vinv ! u = Some x" by (auto simp: set_map_filter_edges)
    then have "u \<in> fst ` set adj" by (auto intro: rev_image_eqI)
    moreover from this have "v = u" using Cons.prems(2)[of v u x] that a u(2) by simp
    ultimately show False using Cons.prems(1) a by simp
  qed
  then show ?case using IH by (auto simp: a adj_edges_def map_filter_simps split: option.splits)
qed (simp add: adj_edges_def map_filter_simps)

lemma graph_perm_ok:
  assumes V: "view_ok V E" and p: "perm_ok perm (set (v_verts V))"
  shows "view_ok (graph_perm perm V) (permuted perm E)"
proof -
  have pn: "perm_ok perm {..<v_size V}" using p view_size[OF V] by (force simp: perm_ok_def)
  let ?vinv = "perm_inverse perm (v_size V)"
  have vinv: "?vinv ! v = Some x \<longleftrightarrow> x < length perm \<and> perm ! x = Some v" if "v \<in> set (v_verts V)" for v x
    using perm_inverse_nth(2)[OF pn view_size[OF V that]] .
  have inP: "a \<in> set (v_verts V)" if "x < length perm" "perm ! x = Some a" for x a using p that by (auto simp: perm_ok_def)
  have valid: "\<not> perm_invalid (Some a) (v_size V)" if "a \<in> set (v_verts V)" for a using view_size[OF V that] by (simp add: perm_invalid_def)
  have adj: "distinct (map fst (adj_edges ?vinv m))" if "distinct (map fst m)" "fst ` set m \<subseteq> set (v_verts V)" for m
    by (rule distinct_adj_edges[OF that(1)]) (metis that(2) vinv subsetD option.inject)
  have iv: "perm_invalid None n" for n by (simp add: perm_invalid_def)
  have s: "fst ` set (v_e_succs V a) \<subseteq> set (v_verts V)" "fst ` set (v_e_preds V a) \<subseteq> set (v_verts V)" if "a \<in> set (v_verts V)" for a
    using view_e_succs[OF V that] view_e_preds[OF V that] view_edge[OF V] by auto
  have es: "set (adj_edges ?vinv (v_e_succs V a)) = {(d, w). permuted perm E x d = Some w}" if "x < length perm" "perm ! x = Some a" for a x
  proof -
    have "(d, w) \<in> set (adj_edges ?vinv (v_e_succs V a)) \<longleftrightarrow> permuted perm E x d = Some w" for d w
    proof -
      have "(v, w) \<in> set (v_e_succs V a) \<and> ?vinv ! v = Some d \<longleftrightarrow> E a v = Some w \<and> d < length perm \<and> perm ! d = Some v" for v
        using view_e_succs[OF V inP[OF that]] vinv[of v] view_edge[OF V, of _ _ w] by auto
      then show ?thesis unfolding set_map_filter_edges permuted_Some using that by auto
    qed
    then show ?thesis by auto
  qed
  have ep: "set (adj_edges ?vinv (v_e_preds V a)) = {(d, w). permuted perm E d x = Some w}" if "x < length perm" "perm ! x = Some a" for a x
  proof -
    have "(d, w) \<in> set (adj_edges ?vinv (v_e_preds V a)) \<longleftrightarrow> permuted perm E d x = Some w" for d w
    proof -
      have "(v, w) \<in> set (v_e_preds V a) \<and> ?vinv ! v = Some d \<longleftrightarrow> E v a = Some w \<and> d < length perm \<and> perm ! d = Some v" for v
        using view_e_preds[OF V inP[OF that]] vinv[of v] view_edge[OF V, of _ _ w] by auto
      then show ?thesis unfolding set_map_filter_edges permuted_Some using that by auto
    qed
    then show ?thesis by auto
  qed
  have "v_lookup (graph_perm perm V) x y = permuted perm E x y \<and> (v_elem (graph_perm perm V) x y \<longleftrightarrow> permuted perm E x y \<noteq> None)"
    if "x < length perm" "y < length perm" for x y
    using that inP valid iv view_lookup[OF V] view_elem[OF V]
    by (cases "perm ! x"; cases "perm ! y") (simp_all add: graph_perm_def Let_def permuted_def)
  moreover have "v_edge_val (graph_perm perm V) x y = w" if "permuted perm E x y = Some w" for x y w
    using that view_edge_val[OF V] by (auto simp: graph_perm_def Let_def permuted_Some)
  moreover have "v_succs (graph_perm perm V) x = map fst (v_e_succs (graph_perm perm V) x) \<and> distinct (map fst (v_e_succs (graph_perm perm V) x)) \<and>
      set (v_e_succs (graph_perm perm V) x) = {(d, w). permuted perm E x d = Some w}" if "x < length perm" for x
  proof (cases "perm ! x")
    case (Some a)
    note a = inP[OF that Some]
    show ?thesis using Some es[OF that Some] adj[OF view_distinct_succs[OF V a] s(1)[OF a]] view_succs[OF V a]
      by (simp add: graph_perm_def Let_def adj_verts_edges)
  qed (use that in \<open>auto simp: graph_perm_def Let_def permuted_def\<close>)
  moreover have "v_preds (graph_perm perm V) x = map fst (v_e_preds (graph_perm perm V) x) \<and> distinct (map fst (v_e_preds (graph_perm perm V) x)) \<and>
      set (v_e_preds (graph_perm perm V) x) = {(d, w). permuted perm E d x = Some w}" if "x < length perm" for x
  proof (cases "perm ! x")
    case (Some a)
    note a = inP[OF that Some]
    show ?thesis using Some ep[OF that Some] adj[OF view_distinct_preds[OF V a] s(2)[OF a]] view_preds[OF V a]
      by (simp add: graph_perm_def Let_def adj_verts_edges)
  qed (use that in \<open>auto simp: graph_perm_def Let_def permuted_def split: option.splits\<close>)
  moreover have "v_verts (graph_perm perm V) = [0..<length perm]" "v_size (graph_perm perm V) = length perm"
    by (simp_all add: graph_perm_def Let_def)
  moreover have "x < length perm \<and> y < length perm" if "permuted perm E x y = Some w" for x y w using that by (simp add: permuted_Some)
  ultimately show ?thesis by (simp add: view_ok_def)
qed

end
