(* ===== verification/Min_Heap.thy ===== *)
theory Min_Heap
  imports Prelude
begin

text \<open>
  The binary heap with an index (\<^verbatim>\<open>crab_utils/heap.hpp\<close>) that the graph algorithms use as a priority
  queue. The comparison function is a parameter of the operations that call it: in the code it reads
  an array that changes between the calls. The locale \<open>min_queue\<close> is what the algorithms rely on.
\<close>

section \<open>The contract\<close>

locale min_queue =
  fixes invar :: "(nat \<Rightarrow> int) \<Rightarrow> 'q \<Rightarrow> bool" and elems :: "'q \<Rightarrow> nat set" and contains :: "'q \<Rightarrow> nat \<Rightarrow> bool"
    and ins :: "(nat \<Rightarrow> nat \<Rightarrow> bool) \<Rightarrow> nat \<Rightarrow> 'q \<Rightarrow> 'q" and dec :: "(nat \<Rightarrow> nat \<Rightarrow> bool) \<Rightarrow> nat \<Rightarrow> 'q \<Rightarrow> 'q"
    and pop :: "(nat \<Rightarrow> nat \<Rightarrow> bool) \<Rightarrow> 'q \<Rightarrow> nat \<times> 'q"
  assumes contains_iff: "invar key q \<Longrightarrow> contains q n \<longleftrightarrow> n \<in> elems q"
    and invar_cong: "invar key q \<Longrightarrow> (\<And>n. n \<in> elems q \<Longrightarrow> key n = key' n) \<Longrightarrow> invar key' q"
    and ins_ok: "invar key q \<Longrightarrow> n \<notin> elems q \<Longrightarrow>
        invar key (ins (\<lambda>x y. key x < key y) n q) \<and> elems (ins (\<lambda>x y. key x < key y) n q) = insert n (elems q)"
    and dec_ok: "invar key q \<Longrightarrow> n \<in> elems q \<Longrightarrow> k \<le> key n \<Longrightarrow> key' = key(n := k) \<Longrightarrow>
        invar key' (dec (\<lambda>x y. key' x < key' y) n q) \<and> elems (dec (\<lambda>x y. key' x < key' y) n q) = elems q"
    and pop_ok: "invar key q \<Longrightarrow> elems q \<noteq> {} \<Longrightarrow> pop (\<lambda>x y. key x < key y) q = (x, q') \<Longrightarrow>
        x \<in> elems q \<and> (\<forall>y \<in> elems q. key x \<le> key y) \<and> invar key q' \<and> elems q' = elems q - {x}"
begin

text \<open>The step all the algorithms share: lower the key of a vertex, then move it up or insert it.\<close>

lemma push_ok:
  assumes "invar key q" "n \<in> elems q \<Longrightarrow> k \<le> key n" "key' = key(n := k)"
    and "q' = (if contains q n then dec (\<lambda>x y. key' x < key' y) n q else ins (\<lambda>x y. key' x < key' y) n q)"
  shows "invar key' q' \<and> elems q' = insert n (elems q)"
proof (cases "n \<in> elems q")
  case True
  then show ?thesis using dec_ok[OF assms(1) True assms(2)[OF True] assms(3)] assms(1,4) by (auto simp: contains_iff)
next
  case False
  then have "invar key' q" using invar_cong[OF assms(1), of key'] assms(3) by fastforce
  then show ?thesis using ins_ok[of key' q n] False assms(1,4) by (simp add: contains_iff)
qed

end

section \<open>The heap\<close>

record Heap =
  heap :: "nat list"
  indices :: "int list"

definition left :: "nat \<Rightarrow> nat" where "left i = i * 2 + 1"

definition right :: "nat \<Rightarrow> nat" where "right i = (i + 1) * 2"

definition parent :: "nat \<Rightarrow> nat" where "parent i = (i - 1) div 2"

definition heap_move :: "nat \<Rightarrow> nat \<Rightarrow> Heap \<Rightarrow> Heap" where
  "heap_move i v h = h\<lparr>heap := (heap h)[i := v], indices := (indices h)[v := int i]\<rparr>"

function up_loop :: "(nat \<Rightarrow> nat \<Rightarrow> bool) \<Rightarrow> nat \<Rightarrow> nat \<Rightarrow> Heap \<Rightarrow> nat \<times> Heap" where
  "up_loop lt x i h =
     (if i \<noteq> 0 \<and> lt x (heap h ! parent i) then up_loop lt x (parent i) (heap_move i (heap h ! parent i) h) else (i, h))"
  by auto

termination
  by (relation "measure (\<lambda>(lt, x, i, h). i)") (auto simp: parent_def)

definition percolateUp :: "(nat \<Rightarrow> nat \<Rightarrow> bool) \<Rightarrow> nat \<Rightarrow> Heap \<Rightarrow> Heap" where
  "percolateUp lt i h =
     (let x = heap h ! i; (i, h) = up_loop lt x i h in heap_move i x h)"

function down_loop :: "(nat \<Rightarrow> nat \<Rightarrow> bool) \<Rightarrow> nat \<Rightarrow> nat \<Rightarrow> Heap \<Rightarrow> nat \<times> Heap" where
  "down_loop lt x i h =
     (if left i < length (heap h) then
        let ri = right i; li = left i;
            child = (if ri < length (heap h) \<and> lt (heap h ! ri) (heap h ! li) then ri else li)
        in if \<not> lt (heap h ! child) x then (i, h)
           else down_loop lt x child (heap_move i (heap h ! child) h)
      else (i, h))"
  by auto

termination
  by (relation "measure (\<lambda>(lt, x, i, h). length (heap h) - i)") (auto simp: left_def right_def heap_move_def Let_def)

definition percolateDown :: "(nat \<Rightarrow> nat \<Rightarrow> bool) \<Rightarrow> Heap \<Rightarrow> Heap" where
  "percolateDown lt h =
     (let x = heap h ! 0; (i, h) = down_loop lt x 0 h in heap_move i x h)"

definition empty_heap :: Heap where
  "empty_heap = \<lparr>heap = [], indices = []\<rparr>"

definition heap_empty :: "Heap \<Rightarrow> bool" where
  "heap_empty h \<longleftrightarrow> heap h = []"

definition inHeap :: "Heap \<Rightarrow> nat \<Rightarrow> bool" where
  "inHeap h n \<longleftrightarrow> n < length (indices h) \<and> indices h ! n \<ge> 0"

definition decrease :: "(nat \<Rightarrow> nat \<Rightarrow> bool) \<Rightarrow> nat \<Rightarrow> Heap \<Rightarrow> Heap" where
  "decrease lt n h = percolateUp lt (nat (indices h ! n)) h"

definition heap_insert :: "(nat \<Rightarrow> nat \<Rightarrow> bool) \<Rightarrow> nat \<Rightarrow> Heap \<Rightarrow> Heap" where
  "heap_insert lt n h =
     (let ix = (if n \<ge> length (indices h) then indices h @ replicate (n + 1 - length (indices h)) (-1) else indices h);
          h = h\<lparr>heap := heap h @ [n], indices := ix[n := int (length (heap h))]\<rparr>
      in percolateUp lt (nat (indices h ! n)) h)"

definition removeMin :: "(nat \<Rightarrow> nat \<Rightarrow> bool) \<Rightarrow> Heap \<Rightarrow> nat \<times> Heap" where
  "removeMin lt h =
     (let x = heap h ! 0; v = last (heap h);
          h = h\<lparr>heap := butlast ((heap h)[0 := v]), indices := ((indices h)[v := 0])[x := -1]\<rparr>
      in (x, if length (heap h) > 1 then percolateDown lt h else h))"

declare up_loop.simps [simp del] down_loop.simps [simp del]

section \<open>The index\<close>

definition index_ok :: "nat list \<Rightarrow> int list \<Rightarrow> bool" where
  "index_ok hp ix \<longleftrightarrow> distinct hp \<and> set hp \<subseteq> {..<length ix} \<and> (\<forall>j < length hp. ix ! (hp ! j) = int j) \<and>
     (\<forall>n < length ix. n \<notin> set hp \<longrightarrow> ix ! n < 0)"

lemma index_ok_swap:
  assumes "index_ok hp ix" "i < length hp" "p < length hp" "i \<noteq> p"
  shows "index_ok (hp[i := hp ! p, p := hp ! i]) (ix[hp ! p := int i, hp ! i := int p])"
proof -
  have d: "distinct hp" using assms(1) by (simp add: index_ok_def)
  have l: "hp ! j < length ix" if "j < length hp" for j using assms(1) that nth_mem[of j hp] by (metis index_ok_def lessThan_iff subsetD)
  have [simp]: "hp ! j = hp ! k \<longleftrightarrow> j = k" if "j < length hp" "k < length hp" for j k using d that by (simp add: nth_eq_iff_index_eq)
  show ?thesis using assms l by (auto simp: index_ok_def nth_list_update set_swap)
qed

lemma index_ok_move:
  assumes "index_ok ((heap h)[i := x]) ((indices h)[x := int i])" "i < length (heap h)" "p < length (heap h)" "i \<noteq> p"
    and "h' = heap_move i (heap h ! p) h"
  shows "index_ok ((heap h')[p := x]) ((indices h')[x := int p])" "(heap h')[p := x] = (heap h)[i := heap h ! p, p := x]"
    "length (heap h') = length (heap h)"
proof -
  have "index_ok ((heap h)[i := heap h ! p, p := x]) ((indices h)[x := int i, heap h ! p := int i, x := int p])"
    using index_ok_swap[OF assms(1), of i p] assms by simp
  moreover have "heap h ! p \<noteq> x"
    using assms(1-4) by (metis index_ok_def length_list_update nth_eq_iff_index_eq nth_list_update_eq nth_list_update_neq)
  ultimately show "index_ok ((heap h')[p := x]) ((indices h')[x := int p])"
    using assms(5) by (simp add: heap_move_def list_update_swap)
qed (use assms(5) in \<open>simp_all add: heap_move_def\<close>)

lemma index_ok_inHeap: "index_ok (heap h) (indices h) \<Longrightarrow> inHeap h n \<longleftrightarrow> n \<in> set (heap h)"
  unfolding index_ok_def inHeap_def by (metis in_set_conv_nth lessThan_iff linorder_not_less of_nat_0_le_iff subsetD)

section \<open>The order\<close>

definition heap_order :: "(nat \<Rightarrow> int) \<Rightarrow> nat list \<Rightarrow> bool" where
  "heap_order key hp \<longleftrightarrow> (\<forall>j < length hp. j \<noteq> 0 \<longrightarrow> key (hp ! parent j) \<le> key (hp ! j))"

text \<open>While a value moves up, the order may fail only between the hole and its parent; while it moves
  down, only between the hole and its children. The keys are given by position.\<close>

definition order_above :: "nat \<Rightarrow> nat \<Rightarrow> (nat \<Rightarrow> int) \<Rightarrow> bool" where
  "order_above n i a \<longleftrightarrow> (\<forall>j < n. j \<noteq> 0 \<longrightarrow> (j \<noteq> i \<longrightarrow> a (parent j) \<le> a j) \<and> (parent j = i \<longrightarrow> i \<noteq> 0 \<longrightarrow> a (parent i) \<le> a j))"

definition order_below :: "nat \<Rightarrow> nat \<Rightarrow> (nat \<Rightarrow> int) \<Rightarrow> bool" where
  "order_below n i a \<longleftrightarrow> (\<forall>j < n. j \<noteq> 0 \<longrightarrow> (parent j \<noteq> i \<longrightarrow> a (parent j) \<le> a j) \<and> (parent j = i \<longrightarrow> i \<noteq> 0 \<longrightarrow> a (parent i) \<le> a j))"

lemma parent_less: "j \<noteq> 0 \<Longrightarrow> parent j < j"
  by (auto simp: parent_def)

lemma child_cases: "j \<noteq> 0 \<Longrightarrow> parent j = i \<longleftrightarrow> j = left i \<or> j = right i" and child_simps [simp]: "parent (left i) = i" "parent (right i) = i"
  by (auto simp: parent_def left_def right_def)

lemma order_above_swap:
  assumes "order_above n i a" "i \<noteq> 0" "i < n" "a i < a (parent i)"
  shows "order_above n (parent i) (a(i := a (parent i), parent i := a i))"
proof -
  let ?p = "parent i" and ?b = "a(i := a (parent i), parent i := a i)"
  have above: "a (parent j) \<le> a j" if "j < n" "j \<noteq> 0" "j \<noteq> i" for j using assms(1) that by (simp add: order_above_def)
  have below: "a ?p \<le> a j" if "j < n" "j \<noteq> 0" "parent j = i" for j using assms(1,2) that by (simp add: order_above_def)
  have p: "?p < i" "?p \<noteq> i" "i \<noteq> ?p" using assms(2) parent_less[of i] by auto
  have "?b (parent j) \<le> ?b j" if j: "j < n" "j \<noteq> 0" "j \<noteq> ?p" for j
  proof (cases "j = i")
    case False
    then show ?thesis using above[OF j(1,2) False] below[OF j(1,2)] assms(4) j(3) p by (cases "parent j = i"; cases "parent j = ?p"; simp)
  qed (use assms(4) p in simp)
  moreover have "?b (parent ?p) \<le> ?b j" if j: "j < n" "j \<noteq> 0" "parent j = ?p" "?p \<noteq> 0" for j
  proof -
    have "parent ?p < ?p" "j \<noteq> ?p" using j parent_less[of ?p] parent_less[of j] by auto
    moreover have "a (parent ?p) \<le> a ?p" using above[of ?p] p j assms(3) by simp
    ultimately show ?thesis using above[OF j(1,2)] j(3) p by (cases "j = i") auto
  qed
  ultimately show ?thesis by (simp add: order_above_def)
qed

lemma order_below_swap:
  assumes "order_below n i a" "c < n" "c \<noteq> 0" "parent c = i" "a c < a i" "\<And>j. j < n \<Longrightarrow> j \<noteq> 0 \<Longrightarrow> parent j = i \<Longrightarrow> a c \<le> a j"
  shows "order_below n c (a(i := a c, c := a i))"
proof -
  let ?b = "a(i := a c, c := a i)"
  have above: "a (parent j) \<le> a j" if "j < n" "j \<noteq> 0" "parent j \<noteq> i" for j using assms(1) that by (simp add: order_below_def)
  have c: "i < c" "i \<noteq> c" "c \<noteq> i" using assms(3,4) parent_less[of c] by auto
  have "?b (parent j) \<le> ?b j" if j: "j < n" "j \<noteq> 0" "parent j \<noteq> c" for j
  proof (cases "j = i")
    case True
    then have "parent j \<noteq> i" "a (parent i) \<le> a c" using assms(1-4) j parent_less[of i] by (auto simp: order_below_def)
    then show ?thesis using True c j(3) by simp
  next
    case False
    then show ?thesis using above[OF j(1,2)] assms(5) assms(6)[OF j(1,2)] j(3) c assms(4) by (cases "j = c"; cases "parent j = i") auto
  qed
  moreover have "?b (parent c) \<le> ?b j" if j: "j < n" "j \<noteq> 0" "parent j = c" for j
  proof -
    have "j \<noteq> i" "j \<noteq> c" using j c parent_less[of j] by auto
    then show ?thesis using above[OF j(1,2)] j(3) c assms(4) by simp
  qed
  ultimately show ?thesis by (simp add: order_below_def)
qed

lemma key_swap:
  assumes "i < length hp" "p < length hp" "i \<noteq> p"
  shows "(\<lambda>j. key ((hp[i := hp ! p, p := x]) ! j)) = (\<lambda>j. key (hp[i := x] ! j))(i := key (hp[i := x] ! p), p := key (hp[i := x] ! i))"
  using assms by (auto simp: nth_list_update fun_eq_iff)

lemma up_loop_ok:
  assumes "up_loop (\<lambda>x y. key x < key y) x i h = (k, h')"
    and "index_ok ((heap h)[i := x]) ((indices h)[x := int i])" "i < length (heap h)"
    and "order_above (length (heap h)) i (\<lambda>j. key ((heap h)[i := x] ! j))"
  shows "k < length (heap h') \<and> index_ok ((heap h')[k := x]) ((indices h')[x := int k]) \<and>
    set ((heap h')[k := x]) = set ((heap h)[i := x]) \<and> heap_order key ((heap h')[k := x])"
  using assms
proof (induction "\<lambda>x y. key x < key y" x i h rule: up_loop.induct)
  case (1 x i h)
  show ?case
  proof (cases "i \<noteq> 0 \<and> key x < key (heap h ! parent i)")
    case True
    let ?p = "parent i" and ?hp = "(heap h)[i := x]"
    let ?h = "heap_move i (heap h ! ?p) h"
    have p: "?p < i" "?p < length (heap h)" using True 1(4) parent_less[of i] by auto
    note m = index_ok_move[OF 1(3) 1(4) p(2) _ refl]
    have "?p \<noteq> i" "i \<noteq> ?p" using p by auto
    then have "order_above (length (heap ?h)) ?p (\<lambda>j. key (((heap ?h)[?p := x]) ! j))"
      unfolding m(2)[OF \<open>i \<noteq> ?p\<close>] m(3)[OF \<open>i \<noteq> ?p\<close>] key_swap[OF 1(4) p(2) \<open>i \<noteq> ?p\<close>]
      by (intro order_above_swap[OF 1(5)]) (use True 1(4) in simp_all)
    moreover have "set ((heap ?h)[?p := x]) = set ?hp" using p 1(4) m(2) set_swap[of i ?hp ?p] by simp
    moreover have "up_loop (\<lambda>x y. key x < key y) x ?p ?h = (k, h')" using 1(2) True by (simp add: up_loop.simps[of _ x i])
    ultimately show ?thesis using 1(1)[OF True] m p by simp
  next
    case False
    then have "k = i" "h' = h" using 1(2) by (auto simp: up_loop.simps[of _ x i])
    moreover have "key ((heap h)[i := x] ! parent j) \<le> key ((heap h)[i := x] ! j)" if "j < length (heap h)" "j \<noteq> 0" for j
      using 1(4,5) False parent_less[of i] that unfolding order_above_def by (cases "j = i") auto
    then have "heap_order key ((heap h)[i := x])" by (simp add: heap_order_def)
    ultimately show ?thesis using 1(3,4) by simp
  qed
qed

lemma down_loop_ok:
  assumes "down_loop (\<lambda>x y. key x < key y) x i h = (k, h')"
    and "index_ok ((heap h)[i := x]) ((indices h)[x := int i])" "i < length (heap h)"
    and "order_below (length (heap h)) i (\<lambda>j. key ((heap h)[i := x] ! j))"
  shows "k < length (heap h') \<and> index_ok ((heap h')[k := x]) ((indices h')[x := int k]) \<and>
    set ((heap h')[k := x]) = set ((heap h)[i := x]) \<and> heap_order key ((heap h')[k := x])"
  using assms
proof (induction "\<lambda>x y. key x < key y" x i h rule: down_loop.induct)
  case (1 x i h)
  let ?a = "\<lambda>j. key ((heap h)[i := x] ! j)" and ?n = "length (heap h)"
  define c where "c = (if right i < ?n \<and> key (heap h ! right i) < key (heap h ! left i) then right i else left i)"
  have c: "parent c = i" "c \<noteq> 0" "i < c" by (auto simp: c_def) (auto simp: left_def right_def)
  have least: "?a c \<le> ?a j" if "j < ?n" "j \<noteq> 0" "parent j = i" for j
    using that by (auto simp: child_cases c_def nth_list_update) (auto simp: left_def right_def)
  show ?case
  proof (cases "left i < ?n \<and> key (heap h ! c) < key x")
    case True
    then have cn: "c < ?n" by (auto simp: c_def)
    let ?h = "heap_move i (heap h ! c) h"
    note m = index_ok_move[OF 1(3) 1(4) cn _ refl]
    have ic: "i \<noteq> c" "c \<noteq> i" using c by auto
    have "order_below (length (heap ?h)) c (\<lambda>j. key (((heap ?h)[c := x]) ! j))"
      unfolding m(2)[OF ic(1)] m(3)[OF ic(1)] key_swap[OF 1(4) cn ic(1)]
      by (intro order_below_swap[OF 1(5) cn c(2,1) _ least]) (use True 1(4) ic in simp_all)
    moreover have "set ((heap ?h)[c := x]) = set ((heap h)[i := x])" using c cn 1(4) m(2) set_swap[of i "(heap h)[i := x]" c] by simp
    moreover have "down_loop (\<lambda>x y. key x < key y) x c ?h = (k, h')"
      using 1(2) True unfolding down_loop.simps[of _ x i] Let_def c_def[symmetric] by simp
    ultimately show ?thesis using 1(1)[OF _ refl refl c_def] True m cn c by simp
  next
    case False
    then have "k = i" "h' = h" using 1(2) unfolding down_loop.simps[of _ x i] Let_def c_def[symmetric] by (auto split: if_splits)
    moreover have "key ((heap h)[i := x] ! parent j) \<le> key ((heap h)[i := x] ! j)" if j: "j < ?n" "j \<noteq> 0" for j
    proof (cases "parent j = i")
      case True
      then have "left i < ?n" using j by (auto simp: child_cases left_def right_def)
      then show ?thesis using False True least[OF j True] c 1(4) by (auto simp: not_less)
    next
      case False
      then show ?thesis using 1(5) j by (simp add: order_below_def)
    qed
    then have "heap_order key ((heap h)[i := x])" by (simp add: heap_order_def)
    ultimately show ?thesis using 1(3,4) by simp
  qed
qed

section \<open>The operations\<close>

definition heap_invar :: "(nat \<Rightarrow> int) \<Rightarrow> Heap \<Rightarrow> bool" where
  "heap_invar key h \<longleftrightarrow> index_ok (heap h) (indices h) \<and> heap_order key (heap h)"

lemma heap_invar_cong: "heap_invar key h \<Longrightarrow> (\<And>n. n \<in> set (heap h) \<Longrightarrow> key n = key' n) \<Longrightarrow> heap_invar key' h"
  unfolding heap_invar_def heap_order_def by (metis nth_mem order.strict_trans parent_less)

lemma heap_root_least: "heap_order key hp \<Longrightarrow> j < length hp \<Longrightarrow> key (hp ! 0) \<le> key (hp ! j)"
proof (induction j rule: less_induct)
  case (less j)
  show ?case
  proof (cases "j = 0")
    case False
    then have "key (hp ! parent j) \<le> key (hp ! j)" using less.prems by (auto simp: heap_order_def)
    moreover have "key (hp ! 0) \<le> key (hp ! parent j)" using less parent_less[OF False] by auto
    ultimately show ?thesis by simp
  qed simp
qed

lemma percolateUp_ok:
  assumes "index_ok (heap h) (indices h)" "i < length (heap h)" "order_above (length (heap h)) i (\<lambda>j. key (heap h ! j))"
  shows "heap_invar key (percolateUp (\<lambda>x y. key x < key y) i h) \<and> set (heap (percolateUp (\<lambda>x y. key x < key y) i h)) = set (heap h)"
proof -
  let ?x = "heap h ! i"
  obtain k h' where u: "up_loop (\<lambda>x y. key x < key y) ?x i h = (k, h')" by fastforce
  have "(indices h)[?x := int i] = indices h" using assms by (metis index_ok_def list_update_id)
  then show ?thesis using up_loop_ok[OF u] assms by (simp add: percolateUp_def u heap_move_def heap_invar_def Let_def)
qed

lemma percolateDown_ok:
  assumes "index_ok (heap h) (indices h)" "heap h \<noteq> []" "order_below (length (heap h)) 0 (\<lambda>j. key (heap h ! j))"
  shows "heap_invar key (percolateDown (\<lambda>x y. key x < key y) h) \<and> set (heap (percolateDown (\<lambda>x y. key x < key y) h)) = set (heap h)"
proof -
  let ?x = "heap h ! 0"
  obtain k h' where u: "down_loop (\<lambda>x y. key x < key y) ?x 0 h = (k, h')" by fastforce
  have "(indices h)[?x := int 0] = indices h" using assms by (metis index_ok_def length_greater_0_conv list_update_id)
  then show ?thesis using down_loop_ok[OF u] assms by (simp add: percolateDown_def u heap_move_def heap_invar_def Let_def)
qed

lemma heap_insert_ok:
  assumes "heap_invar key h" "n \<notin> set (heap h)"
  shows "heap_invar key (heap_insert (\<lambda>x y. key x < key y) n h) \<and>
    set (heap (heap_insert (\<lambda>x y. key x < key y) n h)) = insert n (set (heap h))"
proof -
  define ix where "ix = (if n \<ge> length (indices h) then indices h @ replicate (n + 1 - length (indices h)) (-1) else indices h)"
  define h' where "h' = h\<lparr>heap := heap h @ [n], indices := ix[n := int (length (heap h))]\<rparr>"
  have "index_ok (heap h) ix"
    using assms(1) unfolding heap_invar_def index_ok_def ix_def by (force simp: nth_append subset_iff)
  moreover have n: "n < length ix" by (simp add: ix_def)
  ultimately have i: "index_ok (heap h') (indices h')"
    using assms(2) unfolding h'_def index_ok_def by (auto simp: nth_list_update nth_append)
  have "order_above (length (heap h')) (length (heap h)) (\<lambda>j. key (heap h' ! j))"
    using assms(1) parent_less unfolding h'_def order_above_def heap_invar_def heap_order_def
    by (auto simp: nth_append less_Suc_eq) (metis order.strict_trans parent_less not_less_iff_gr_or_eq)+
  then have "heap_invar key (percolateUp (\<lambda>x y. key x < key y) (length (heap h)) h') \<and>
      set (heap (percolateUp (\<lambda>x y. key x < key y) (length (heap h)) h')) = set (heap h')"
    by (intro percolateUp_ok i) (simp_all add: h'_def)
  moreover have "heap_insert (\<lambda>x y. key x < key y) n h = percolateUp (\<lambda>x y. key x < key y) (length (heap h)) h'"
    using n by (simp add: heap_insert_def h'_def ix_def Let_def)
  ultimately show ?thesis by (simp add: h'_def)
qed

lemma decrease_ok:
  assumes "heap_invar key h" "n \<in> set (heap h)" "k \<le> key n" "key' = key(n := k)"
  shows "heap_invar key' (decrease (\<lambda>x y. key' x < key' y) n h) \<and> set (heap (decrease (\<lambda>x y. key' x < key' y) n h)) = set (heap h)"
proof -
  obtain i where i: "i < length (heap h)" "heap h ! i = n" using assms(2) by (metis in_set_conv_nth)
  have ok: "index_ok (heap h) (indices h)" and o: "heap_order key (heap h)" using assms(1) by (auto simp: heap_invar_def)
  have ix: "nat (indices h ! n) = i" using ok i unfolding index_ok_def by force
  have d: "heap h ! j = n \<longleftrightarrow> j = i" if "j < length (heap h)" for j
    using ok i that by (metis index_ok_def nth_eq_iff_index_eq)
  have "order_above (length (heap h)) i (\<lambda>j. key' (heap h ! j))"
    unfolding order_above_def
  proof (intro allI impI conjI)
    fix j assume j: "j < length (heap h)" "j \<noteq> 0"
    have pj: "parent j < length (heap h)" using j parent_less[of j] by simp
    have le: "key (heap h ! parent j) \<le> key (heap h ! j)" using o j by (simp add: heap_order_def)
    show "key' (heap h ! parent j) \<le> key' (heap h ! j)" if "j \<noteq> i"
      using le that d[OF pj] d[OF j(1)] assms(3,4) i by auto
    show "key' (heap h ! parent i) \<le> key' (heap h ! j)" if "parent j = i" "i \<noteq> 0"
    proof -
      have "key (heap h ! parent i) \<le> key (heap h ! i)" "parent i < i" using o i that by (auto simp: heap_order_def parent_less)
      then show ?thesis using le that d[of "parent i"] d[OF j(1)] parent_less[OF j(2)] assms(4) i by auto
    qed
  qed
  then show ?thesis unfolding decrease_def ix by (rule percolateUp_ok[OF ok i(1)])
qed

lemma removeMin_ok:
  assumes "heap_invar key h" "heap h \<noteq> []" "removeMin (\<lambda>x y. key x < key y) h = (x, h')"
  shows "x \<in> set (heap h) \<and> (\<forall>y \<in> set (heap h). key x \<le> key y) \<and> heap_invar key h' \<and> set (heap h') = set (heap h) - {x}"
proof -
  define hp where "hp = butlast ((heap h)[0 := last (heap h)])"
  define h1 where "h1 = h\<lparr>heap := hp, indices := ((indices h)[last (heap h) := 0])[heap h ! 0 := -1]\<rparr>"
  have x: "x = heap h ! 0" and h': "h' = (if length hp > 1 then percolateDown (\<lambda>x y. key x < key y) h1 else h1)"
    using assms(3) by (auto simp: removeMin_def h1_def hp_def Let_def)
  have ok: "index_ok (heap h) (indices h)" and o: "heap_order key (heap h)" using assms(1) by (auto simp: heap_invar_def)
  have least: "\<forall>y \<in> set (heap h). key x \<le> key y" using heap_root_least[OF o] x by (metis in_set_conv_nth)
  have len: "length hp = length (heap h) - 1" by (simp add: hp_def)
  have d: "distinct (heap h)" using ok by (simp add: index_ok_def)
  have nth: "hp ! j = (if j = 0 then last (heap h) else heap h ! j)" if "j < length hp" for j
    using that assms(2) by (auto simp: hp_def nth_butlast nth_list_update)
  have sd: "set hp = set (heap h) - {x} \<and> distinct hp"
  proof (cases "heap h")
    case (Cons a as)
    then show ?thesis using x d by (cases as rule: rev_cases) (auto simp: hp_def butlast_append)
  qed (use assms(2) in simp)
  have [simp]: "heap h ! j = heap h ! k \<longleftrightarrow> j = k" if "j < length (heap h)" "k < length (heap h)" for j k
    using d that by (simp add: nth_eq_iff_index_eq)
  have l: "heap h ! j < length (indices h)" if "j < length (heap h)" for j
    using ok that nth_mem[of j "heap h"] by (metis index_ok_def lessThan_iff subsetD)
  have ix: "indices h1 = ((indices h)[heap h ! (length (heap h) - 1) := 0])[heap h ! 0 := -1]"
    using assms(2) by (simp add: h1_def last_conv_nth)
  have "indices h1 ! (hp ! j) = int j" if "j < length hp" for j
    using that ok l nth[OF that] len assms(2) unfolding ix index_ok_def by (auto simp: last_conv_nth nth_list_update)
  moreover have "indices h1 ! n < 0" if "n < length (indices h)" "n \<notin> set hp" for n
    using that sd x ok l[of 0] assms(2) nth_mem[of "length (heap h) - 1" "heap h"] unfolding ix index_ok_def
    by (cases "n = x"; cases "n = heap h ! (length (heap h) - 1)") auto
  ultimately have "index_ok hp (indices h1)"
    using sd ok unfolding index_ok_def by (auto simp: ix)
  moreover have "key (hp ! parent j) \<le> key (hp ! j)" if "j < length hp" "j \<noteq> 0" "parent j \<noteq> 0" for j
    using o that len nth[of j] nth[of "parent j"] parent_less[of j] by (simp add: heap_order_def)
  then have "order_below (length hp) 0 (\<lambda>j. key (hp ! j))" by (simp add: order_below_def)
  moreover have "heap_order key hp" if "\<not> length hp > 1" using that by (auto simp: heap_order_def)
  ultimately have "heap_invar key h' \<and> set (heap h') = set hp"
    using percolateDown_ok[of h1 key] h' by (cases "hp = []") (auto simp: h1_def heap_invar_def)
  then show ?thesis using least sd x assms(2) by (auto simp: hd_conv_nth[symmetric])
qed

interpretation hq: min_queue heap_invar "\<lambda>h. set (heap h)" inHeap heap_insert decrease removeMin
proof unfold_locales
  show "inHeap q n \<longleftrightarrow> n \<in> set (heap q)" if "heap_invar key q" for key q n
    using that by (simp add: heap_invar_def index_ok_inHeap)
  show "heap_invar key' q" if "heap_invar key q" "\<And>n. n \<in> set (heap q) \<Longrightarrow> key n = key' n" for key key' q
    using that by (rule heap_invar_cong)
qed (use heap_insert_ok decrease_ok removeMin_ok in \<open>auto simp del: fun_upd_apply\<close>)

lemma empty_heap_ok [simp]: "heap_invar key empty_heap" "set (heap empty_heap) = {}" "heap_empty empty_heap"
  by (simp_all add: heap_invar_def empty_heap_def index_ok_def heap_order_def heap_empty_def)

lemma heap_empty_iff: "heap_empty h \<longleftrightarrow> set (heap h) = {}"
  by (simp add: heap_empty_def)

end
