(* ===== verification/Graph_Ops.thy ===== *)
theory Graph_Ops
  imports Graph_Views Min_Heap "HOL-Library.While_Combinator"
begin

text \<open>
  The graph algorithms of the zone domain (\<^verbatim>\<open>GraphOps\<close> in \<^verbatim>\<open>crab_utils/graph_ops.hpp\<close>). The scratch arrays
  of the code are written before they are read in every call, so they are local here: an array is a
  function of the vertex, and the distances with the time stamps that make them valid are \<open>None\<close> when the
  stamp is old. The queues of the Dijkstra variants are the heap; their loops end when the constraints have a
  solution, which \<^verbatim>\<open>Graph_Ops_Sound\<close> proves, and the value \<open>None\<close> is a loop that does not end.
\<close>

section \<open>Syntactic join, meet and widening\<close>

definition edge_list :: "Graph_View \<Rightarrow> (VertId \<times> VertId \<times> int) list" where
  "edge_list g = concat (map (\<lambda>s. map (\<lambda>(d, val). (s, d, val)) (v_e_succs g s)) (v_verts g))"

definition graph_copy :: "Graph_View \<Rightarrow> AdaptGraph" where
  "graph_copy g = fold (\<lambda>(s, d, val). add_edge s val d) (edge_list g) (growTo (v_size g) empty_graph)"

definition graph_join :: "Graph_View \<Rightarrow> Graph_View \<Rightarrow> AdaptGraph" where
  "graph_join l r =
     fold (\<lambda>(s, d, val) g. case v_lookup r s d of Some pw \<Rightarrow> add_edge s (max val pw) d g | None \<Rightarrow> g)
       (edge_list l) (growTo (v_size l) empty_graph)"

definition graph_meet :: "Graph_View \<Rightarrow> Graph_View \<Rightarrow> AdaptGraph" where
  "graph_meet l r =
     fold (\<lambda>(s, d, val) g.
        case g_lookup g s d of
          Some pw \<Rightarrow> if val < pw then set_edge s val d g else g
        | None \<Rightarrow> add_edge s val d g)
       (edge_list r) (graph_copy l)"

definition widen_vertex :: "Graph_View \<Rightarrow> Graph_View \<Rightarrow> VertId \<Rightarrow> AdaptGraph \<times> VertId list \<Rightarrow> AdaptGraph \<times> VertId list" where
  "widen_vertex l r s gu =
     (let (g, unstable) = gu;
          g = fold (\<lambda>(d, val) g. case v_lookup l s d of Some wl \<Rightarrow> if val \<le> wl then add_edge s wl d g else g | None \<Rightarrow> g) (v_e_succs r s) g
      in (g, if list_ex (\<lambda>d. \<not> g_elem g s d) (v_succs l s) then List.insert s unstable else unstable))"

definition graph_widen :: "Graph_View \<Rightarrow> Graph_View \<Rightarrow> VertId list \<Rightarrow> AdaptGraph \<times> VertId list" where
  "graph_widen l r unstable = fold (widen_vertex l r) (v_verts r) (growTo (v_size l) empty_graph, unstable)"

section \<open>Strongly connected components and potentials\<close>

record Scc_State =
  scc_marks :: "VertId \<Rightarrow> nat"
  scc_low :: "VertId \<Rightarrow> nat"
  scc_stack :: "VertId list"
  scc_index :: nat
  scc_out :: "VertId list list"

text \<open>The vertices popped from the stack, up to \<open>v\<close>.\<close>

fun pop_scc :: "VertId \<Rightarrow> VertId list \<Rightarrow> VertId list \<times> VertId list" where
  "pop_scc v [] = ([], [])"
| "pop_scc v (w # stack) = (if v \<noteq> w then (let (scc, rest) = pop_scc v stack in (w # scc, rest)) else ([w], stack))"

definition scc_enter :: "VertId \<Rightarrow> Scc_State \<Rightarrow> Scc_State" where
  "scc_enter v st =
     st\<lparr>scc_marks := (scc_marks st)(v := 2 * scc_index st + 1), scc_low := (scc_low st)(v := scc_index st),
        scc_index := scc_index st + 1, scc_stack := v # scc_stack st\<rparr>"

definition scc_leave :: "VertId \<Rightarrow> Scc_State \<Rightarrow> Scc_State" where
  "scc_leave v st =
     (if scc_low st v = scc_marks st v div 2 then
        let (scc, rest) = pop_scc v (scc_stack st) in
        st\<lparr>scc_stack := rest, scc_marks := (\<lambda>w. if w \<in> set scc then 2 * (scc_marks st w div 2) else scc_marks st w),
           scc_out := scc_out st @ [scc]\<rparr>
      else st)"

function (sequential) strong_connect :: "nat \<Rightarrow> Graph_View \<Rightarrow> VertId \<Rightarrow> Scc_State \<Rightarrow> Scc_State option"
  and scc_succs :: "nat \<Rightarrow> Graph_View \<Rightarrow> VertId \<Rightarrow> VertId list \<Rightarrow> Scc_State \<Rightarrow> Scc_State option" where
  "strong_connect 0 x v st = None"
| "strong_connect (Suc fuel) x v st = map_option (scc_leave v) (scc_succs fuel x v (v_succs x v) (scc_enter v st))"
| "scc_succs fuel x v [] st = Some st"
| "scc_succs fuel x v (w # ws) st =
     (if scc_marks st w = 0 then
        (case strong_connect fuel x w st of
           None \<Rightarrow> None
         | Some st \<Rightarrow> scc_succs fuel x v ws (st\<lparr>scc_low := (scc_low st)(v := min (scc_low st v) (scc_low st w))\<rparr>))
      else if odd (scc_marks st w) then
        scc_succs fuel x v ws (st\<lparr>scc_low := (scc_low st)(v := min (scc_low st v) (scc_marks st w div 2))\<rparr>)
      else scc_succs fuel x v ws st)"
  by pat_completeness auto

termination
  by (relation "measures [\<lambda>a. case a of Inl (f, x, v, st) \<Rightarrow> f | Inr (f, x, v, ws, st) \<Rightarrow> f,
        \<lambda>a. case a of Inl (f, x, v, st) \<Rightarrow> 0 | Inr (f, x, v, ws, st) \<Rightarrow> Suc (length ws)]") auto

text \<open>A call marks its vertex, so the depth of the recursion is at most the number of vertices.\<close>

definition compute_sccs :: "Graph_View \<Rightarrow> VertId list list option" where
  "compute_sccs x =
     map_option scc_out
       (fold (\<lambda>v st. case st of
            None \<Rightarrow> None
          | Some st \<Rightarrow> if scc_marks st v = 0 then strong_connect (Suc (length (v_verts x))) x v (st\<lparr>scc_stack := [], scc_index := 1\<rparr>) else Some st)
         (v_verts x) (Some \<lparr>scc_marks = (\<lambda>v. 0), scc_low = (\<lambda>v. 0), scc_stack = [], scc_index = 1, scc_out = []\<rparr>))"

record Bf_State =
  bf_pots :: "int list"
  bf_marks :: "VertId \<Rightarrow> nat"
  bf_next :: "VertId list"

definition BF_SCC :: nat where "BF_SCC = 1"

definition BF_SCC_QUEUED :: nat where "BF_SCC_QUEUED = 3"

definition bf_relax :: "int \<Rightarrow> VertId \<times> int \<Rightarrow> Bf_State \<Rightarrow> Bf_State" where
  "bf_relax s_pot e st =
     (let (d, val) = e; sd_pot = s_pot + val in
      if sd_pot < bf_pots st ! d then
        let st = st\<lparr>bf_pots := (bf_pots st)[d := sd_pot]\<rparr> in
        if bf_marks st d = BF_SCC then st\<lparr>bf_next := bf_next st @ [d], bf_marks := (bf_marks st)(d := BF_SCC_QUEUED)\<rparr> else st
      else st)"

definition bf_vertex :: "Graph_View \<Rightarrow> VertId \<Rightarrow> Bf_State \<Rightarrow> Bf_State" where
  "bf_vertex g s st = fold (bf_relax (bf_pots st ! s)) (v_e_succs g s) (st\<lparr>bf_marks := (bf_marks st)(s := BF_SCC)\<rparr>)"

fun bf_rounds :: "Graph_View \<Rightarrow> VertId list \<Rightarrow> VertId list \<Rightarrow> Bf_State \<Rightarrow> VertId list \<times> Bf_State" where
  "bf_rounds g [] q st = (q, st)"
| "bf_rounds g (x # scc) q st =
     (let st = fold (bf_vertex g) (rev q) (st\<lparr>bf_next := []\<rparr>) in
      if bf_next st = [] then ([], st) else bf_rounds g scc (bf_next st) st)"

definition bf_feasible :: "Graph_View \<Rightarrow> VertId list \<Rightarrow> int list \<Rightarrow> bool" where
  "bf_feasible g q pots = (\<not> list_ex (\<lambda>s. list_ex (\<lambda>(d, val). pots ! s + val < pots ! d) (v_e_succs g s)) (rev q))"

fun bf_sccs :: "Graph_View \<Rightarrow> VertId list list \<Rightarrow> Bf_State \<Rightarrow> int list option" where
  "bf_sccs g [] st = Some (bf_pots st)"
| "bf_sccs g (scc # sccs) st =
     (let (q, st) = bf_rounds g scc scc (st\<lparr>bf_marks := (\<lambda>v. if v \<in> set scc then BF_SCC_QUEUED else bf_marks st v)\<rparr>) in
      if bf_feasible g q (bf_pots st) then bf_sccs g sccs st else None)"

text \<open>The inner \<open>None\<close> is the answer \<^verbatim>\<open>false\<close>.\<close>

definition select_potentials :: "Graph_View \<Rightarrow> int list \<Rightarrow> int list option option" where
  "select_potentials g potentials =
     map_option (\<lambda>sccs. bf_sccs g sccs \<lparr>bf_pots = potentials, bf_marks = (\<lambda>v. 0), bf_next = []\<rparr>) (compute_sccs g)"

section \<open>Shortest paths\<close>

record Queue_State =
  dists :: "VertId \<Rightarrow> int option"
  vert_marks :: "VertId \<Rightarrow> nat"
  queue :: Heap

definition dist_at :: "(VertId \<Rightarrow> int option) \<Rightarrow> VertId \<Rightarrow> int" where
  "dist_at ds v = (case ds v of Some x \<Rightarrow> x | None \<Rightarrow> 0)"

definition dists_compare :: "(VertId \<Rightarrow> int option) \<Rightarrow> VertId \<Rightarrow> VertId \<Rightarrow> bool" where
  "dists_compare ds x y \<longleftrightarrow> dist_at ds x < dist_at ds y"

definition push_vertex :: "(VertId \<Rightarrow> VertId \<Rightarrow> bool) \<Rightarrow> VertId \<Rightarrow> Heap \<Rightarrow> Heap" where
  "push_vertex lt ed h = (if inHeap h ed then decrease lt ed h else heap_insert lt ed h)"

text \<open>One edge \<open>(ed, val)\<close> out of a vertex of cost \<open>es_cost\<close>, with the mark it gives.\<close>

definition relax :: "(VertId \<Rightarrow> int) \<Rightarrow> int \<Rightarrow> VertId \<times> int \<times> nat \<Rightarrow> Queue_State \<Rightarrow> Queue_State" where
  "relax p es_cost e st =
     (let (ed, val, mark) = e; v = es_cost + val - p ed in
      if dists st ed = None \<or> v < dist_at (dists st) ed then
        let ds = (dists st)(ed \<mapsto> v)
        in \<lparr>dists = ds, vert_marks = (vert_marks st)(ed := mark), queue = push_vertex (dists_compare ds) ed (queue st)\<rparr>
      else if v = dist_at (dists st) ed then st\<lparr>vert_marks := (vert_marks st)(ed := or (vert_marks st ed) mark)\<rparr>
      else st)"

text \<open>The edges out of the source.\<close>

definition dijkstra_first :: "(VertId \<Rightarrow> int) \<Rightarrow> VertId \<Rightarrow> VertId \<times> int \<times> nat \<Rightarrow> Queue_State \<Rightarrow> Queue_State" where
  "dijkstra_first p src e st =
     (let (dest, val, mark) = e; ds = (dists st)(dest \<mapsto> p src + val - p dest)
      in \<lparr>dists = ds, vert_marks = (vert_marks st)(dest := mark), queue = heap_insert (dists_compare ds) dest (queue st)\<rparr>)"

definition dijkstra_init :: "(VertId \<Rightarrow> int) \<Rightarrow> VertId \<Rightarrow> (VertId \<times> int \<times> nat) list \<Rightarrow> Queue_State" where
  "dijkstra_init p src es = fold (dijkstra_first p src) es \<lparr>dists = [src \<mapsto> 0], vert_marks = (\<lambda>v. 0), queue = empty_heap\<rparr>"

definition dijkstra_step ::
  "Graph_View \<Rightarrow> (VertId \<Rightarrow> int) \<Rightarrow> VertId \<Rightarrow> ((VertId \<Rightarrow> nat) \<Rightarrow> VertId \<Rightarrow> (VertId \<times> int \<times> nat) list) \<Rightarrow>
   (VertId \<times> int) list \<times> Queue_State \<Rightarrow> (VertId \<times> int) list \<times> Queue_State" where
  "dijkstra_step g p src expand os =
     (let (out, st) = os;
          (es, q) = removeMin (dists_compare (dists st)) (queue st);
          st = st\<lparr>queue := q\<rparr>;
          es_cost = dist_at (dists st) es + p es;
          es_val = es_cost - p src;
          out = (case v_lookup g src es of Some w \<Rightarrow> if w > es_val then out @ [(es, es_val)] else out | None \<Rightarrow> out @ [(es, es_val)])
      in (out, fold (relax p es_cost) (expand (vert_marks st) es) st))"

definition dijkstra_run ::
  "Graph_View \<Rightarrow> (VertId \<Rightarrow> int) \<Rightarrow> VertId \<Rightarrow> (VertId \<times> int \<times> nat) list \<Rightarrow>
   ((VertId \<Rightarrow> nat) \<Rightarrow> VertId \<Rightarrow> (VertId \<times> int \<times> nat) list) \<Rightarrow> (VertId \<times> int) list option" where
  "dijkstra_run g p src es expand =
     map_option fst (while_option (\<lambda>(out, st). \<not> heap_empty (queue st)) (dijkstra_step g p src expand) ([], dijkstra_init p src es))"

definition E_LEFT :: nat where "E_LEFT = 1"

definition E_RIGHT :: nat where "E_RIGHT = 2"

definition E_BOTH :: nat where "E_BOTH = 3"

definition edge_mark :: "Graph_View \<Rightarrow> Graph_View \<Rightarrow> Graph_View \<Rightarrow> VertId \<Rightarrow> VertId \<Rightarrow> nat" where
  "edge_mark g l r s d =
     (if v_lookup l s d = Some (v_edge_val g s d) then E_LEFT else 0) + (if v_lookup r s d = Some (v_edge_val g s d) then E_RIGHT else 0)"

definition chrome_dijkstra ::
  "Graph_View \<Rightarrow> (VertId \<Rightarrow> int) \<Rightarrow> (VertId \<Rightarrow> VertId \<Rightarrow> nat) \<Rightarrow> VertId \<Rightarrow> (VertId \<times> int) list option" where
  "chrome_dijkstra g p emark src =
     (if v_size g = 0 then Some []
      else dijkstra_run g p src (map (\<lambda>(dest, val). (dest, val, emark src dest)) (v_e_succs g src))
        (\<lambda>marks es.
           if marks es = E_BOTH then []
           else map (\<lambda>ed. (ed, v_edge_val g es ed, emark es ed))
             (filter (\<lambda>ed. emark es ed = (if marks es = E_LEFT then E_RIGHT else E_LEFT)) (map fst (v_e_succs g es)))))"

fun collect_deltas :: "(VertId \<Rightarrow> (VertId \<times> int) list option) \<Rightarrow> VertId list \<Rightarrow> (VertId \<times> VertId \<times> int) list option" where
  "collect_deltas f [] = Some []"
| "collect_deltas f (v # vs) =
     (case f v of None \<Rightarrow> None
      | Some adjs \<Rightarrow> map_option (\<lambda>delta. map (\<lambda>(d, w). (v, d, w)) adjs @ delta) (collect_deltas f vs))"

definition close_after_meet :: "Graph_View \<Rightarrow> (VertId \<Rightarrow> int) \<Rightarrow> Graph_View \<Rightarrow> Graph_View \<Rightarrow> (VertId \<times> VertId \<times> int) list option" where
  "close_after_meet g pots l r = collect_deltas (chrome_dijkstra g pots (edge_mark g l r)) (v_verts g)"

definition apply_delta :: "AdaptGraph \<Rightarrow> (VertId \<times> VertId \<times> int) list \<Rightarrow> AdaptGraph" where
  "apply_delta g delta = fold (\<lambda>(s, d, w). set_edge s w d) delta g"

definition V_UNSTABLE :: nat where "V_UNSTABLE = 0"

definition V_STABLE :: nat where "V_STABLE = 1"

definition dijkstra_recover :: "Graph_View \<Rightarrow> (VertId \<Rightarrow> int) \<Rightarrow> (VertId \<Rightarrow> bool) \<Rightarrow> VertId \<Rightarrow> (VertId \<times> int) list option" where
  "dijkstra_recover g p is_stable src =
     (if v_size g = 0 \<or> is_stable src then Some []
      else dijkstra_run g p src (map (\<lambda>(dest, val). (dest, val, V_UNSTABLE)) (v_e_succs g src))
        (\<lambda>marks es.
           if marks es = V_STABLE then []
           else map (\<lambda>(ed, val). (ed, val, if is_stable es then V_STABLE else V_UNSTABLE)) (v_e_succs g es)))"

definition close_after_widen :: "Graph_View \<Rightarrow> (VertId \<Rightarrow> int) \<Rightarrow> (VertId \<Rightarrow> bool) \<Rightarrow> (VertId \<times> VertId \<times> int) list option" where
  "close_after_widen g p is_stable = collect_deltas (dijkstra_recover g p is_stable) (filter (\<lambda>v. \<not> is_stable v) (v_verts g))"

section \<open>Potentials after a new edge\<close>

definition repair_relax :: "int list \<Rightarrow> (VertId \<Rightarrow> int) \<Rightarrow> VertId \<Rightarrow> VertId \<times> int \<Rightarrow> (VertId \<Rightarrow> int) \<times> Heap \<Rightarrow> (VertId \<Rightarrow> int) \<times> Heap" where
  "repair_relax p alt es e dh =
     (let (ed, val) = e; (ds, h) = dh in
      if alt ed = p ! ed then
        let gnext_ed = alt es + val - alt ed in
        if gnext_ed < ds ed then
          let ds = ds(ed := gnext_ed) in (ds, push_vertex (\<lambda>x y. ds x < ds y) ed h)
        else (ds, h)
      else (ds, h))"

definition repair_step :: "Graph_View \<Rightarrow> int list \<Rightarrow> (VertId \<Rightarrow> int) \<times> (VertId \<Rightarrow> int) \<times> Heap \<Rightarrow> (VertId \<Rightarrow> int) \<times> (VertId \<Rightarrow> int) \<times> Heap" where
  "repair_step g p st =
     (let (alt, ds, h) = st;
          (es, h) = removeMin (\<lambda>x y. ds x < ds y) h;
          alt = alt(es := p ! es + ds es)
      in (alt, fold (repair_relax p alt es) (v_e_succs g es) (ds, h)))"

definition repair_potential :: "Graph_View \<Rightarrow> int list \<Rightarrow> VertId \<Rightarrow> VertId \<Rightarrow> (bool \<times> int list) option" where
  "repair_potential g p ii jj =
     (let ds = (\<lambda>v. 0)(jj := p ! ii + v_edge_val g ii jj - p ! jj) in
      if ds jj \<ge> 0 then Some (True, p)
      else
        map_option (\<lambda>(alt, ds, h).
            if ds ii < 0 then (False, p)
            else (True, fold (\<lambda>v p. p[v := alt v]) (v_verts g) p))
          (while_option (\<lambda>(alt, ds, h). \<not> heap_empty h) (repair_step g p)
             (\<lambda>v. p ! v, ds, heap_insert (\<lambda>x y. ds x < ds y) jj empty_heap)))"

section \<open>Closure after an assignment\<close>

definition fwd_reach :: "(VertId \<times> int) list \<Rightarrow> int \<Rightarrow> (VertId \<Rightarrow> int option) \<times> VertId list \<Rightarrow> (VertId \<Rightarrow> int option) \<times> VertId list" where
  "fwd_reach es d_wt dr =
     fold (\<lambda>(e, val) (ds, reach).
         let e_wt = d_wt + val in
         case ds e of None \<Rightarrow> (ds(e \<mapsto> e_wt), reach @ [e]) | Some old \<Rightarrow> (ds(e \<mapsto> min e_wt old), reach)) es dr"

definition close_after_assign_fwd :: "Graph_View \<Rightarrow> (VertId \<Rightarrow> int) \<Rightarrow> VertId \<Rightarrow> (VertId \<times> int) list" where
  "close_after_assign_fwd g p v =
     (let ds = fold (\<lambda>(d, val) ds. ds(d \<mapsto> val)) (v_e_succs g v) [v \<mapsto> 0];
          adj = sort_key (\<lambda>d. dist_at ds d - p d) (map fst (v_e_succs g v));
          (ds, reach) = fold (\<lambda>d (ds, reach). fwd_reach (v_e_succs g d) (dist_at ds d) (ds, reach)) adj (ds, [])
      in map (\<lambda>u. (u, dist_at ds u)) (adj @ reach))"

definition close_after_assign :: "Graph_View \<Rightarrow> (VertId \<Rightarrow> int) \<Rightarrow> VertId \<Rightarrow> (VertId \<times> VertId \<times> int) list" where
  "close_after_assign g p v =
     map (\<lambda>(vid, wt). (v, vid, wt)) (close_after_assign_fwd g p v) @
     map (\<lambda>(vid, wt). (vid, v, wt)) (close_after_assign_fwd (graph_rev g) (\<lambda>v. - p v) v)"

text \<open>Lower an edge, unless it is already at most \<open>w\<close>.\<close>

definition improve_edge :: "VertId \<Rightarrow> int \<Rightarrow> VertId \<Rightarrow> AdaptGraph \<Rightarrow> AdaptGraph option" where
  "improve_edge s w d g =
     (case g_lookup g s d of
        Some pw \<Rightarrow> if pw \<le> w then None else Some (set_edge s w d g)
      | None \<Rightarrow> Some (add_edge s w d g))"

definition close_over_edge :: "AdaptGraph \<Rightarrow> VertId \<Rightarrow> VertId \<Rightarrow> AdaptGraph" where
  "close_over_edge g ii jj =
     (let c = g_edge_val g ii jj;
          (g, src_dec) = fold (\<lambda>(se, val) (g, src_dec).
              if se \<noteq> jj then
                case improve_edge se (val + c) jj g of None \<Rightarrow> (g, src_dec) | Some g \<Rightarrow> (g, src_dec @ [(se, val)])
              else (g, src_dec)) (v_e_preds (sub_graph (adapt_view g) 0) ii) (g, []);
          (g, dest_dec) = fold (\<lambda>(de, val) (g, dest_dec).
              if de \<noteq> ii then
                case improve_edge ii (val + c) de g of None \<Rightarrow> (g, dest_dec) | Some g \<Rightarrow> (g, dest_dec @ [(de, val)])
              else (g, dest_dec)) (v_e_succs (sub_graph (adapt_view g) 0) jj) (g, [])
      in fold (\<lambda>(se, p1). fold (\<lambda>(de, p2) g.
            case improve_edge se (c + p1 + p2) de g of None \<Rightarrow> g | Some g \<Rightarrow> g) dest_dec) src_dec g)"

end
