(* ===== verification/Graph_Ops_Sound.thy ===== *)
theory Graph_Ops_Sound
  imports Graph_Ops
begin

text \<open>
  The graph algorithms keep every solution of the constraints: the edges they add are implied by the edges
  of the graph. The Dijkstra variants return whenever the constraints have a solution.
\<close>

section \<open>Shortest paths\<close>

text \<open>A bound that every solution of \<open>E\<close> satisfies.\<close>

definition implied :: "(nat \<Rightarrow> nat \<Rightarrow> int option) \<Rightarrow> nat \<Rightarrow> nat \<Rightarrow> int \<Rightarrow> bool" where
  "implied E s d w \<longleftrightarrow> (\<forall>val. sat val E \<longrightarrow> val d \<le> val s + w)"

lemma implied_edge: "E s d = Some w \<Longrightarrow> implied E s d w"
  by (auto simp: implied_def dest: satD)

lemma implied_trans: "implied E s d w \<Longrightarrow> E d e = Some x \<Longrightarrow> implied E s e (w + x)"
  using satD[of _ E d e x] by (force simp: implied_def)

definition dij_inv :: "(nat \<Rightarrow> nat \<Rightarrow> int option) \<Rightarrow> nat set \<Rightarrow> (nat \<Rightarrow> int) \<Rightarrow> nat \<Rightarrow> Queue_State \<Rightarrow> bool" where
  "dij_inv E vs p src st \<longleftrightarrow>
     (\<forall>v x. dists st v = Some x \<longrightarrow> v \<in> vs \<and> implied E src v (x + p v - p src)) \<and>
     heap_invar (dist_at (dists st)) (queue st) \<and> set (heap (queue st)) \<subseteq> dom (dists st)"

lemma dist_at_upd [simp]: "dist_at (ds(v \<mapsto> x)) = (dist_at ds)(v := x)"
  by (auto simp: dist_at_def fun_eq_iff)

lemma dists_compare_eta: "dists_compare ds = (\<lambda>x y. dist_at ds x < dist_at ds y)"
  by (simp add: dists_compare_def fun_eq_iff)

lemma push_vertex_ok:
  assumes "heap_invar key h" "v \<in> set (heap h) \<Longrightarrow> x \<le> key v" "key' = key(v := x)"
  shows "heap_invar key' (push_vertex (\<lambda>a b. key' a < key' b) v h) \<and> set (heap (push_vertex (\<lambda>a b. key' a < key' b) v h)) = insert v (set (heap h))"
  using hq.push_ok[OF assms refl] by (simp add: push_vertex_def)

lemma relax_inv:
  assumes "dij_inv E vs p src st" "implied E src es (c - p src)" "E es ed = Some val" "ed \<in> vs"
  shows "dij_inv E vs p src (relax p c (ed, val, m) st)"
proof (cases "dists st ed = None \<or> c + val - p ed < dist_at (dists st) ed")
  case True
  let ?ds = "(dists st)(ed \<mapsto> c + val - p ed)"
  have "implied E src ed (c + val - p ed + p ed - p src)" using implied_trans[of E src es, OF assms(2,3)] by (simp add: algebra_simps)
  moreover have "heap_invar (dist_at ?ds) (push_vertex (dists_compare ?ds) ed (queue st)) \<and>
      set (heap (push_vertex (dists_compare ?ds) ed (queue st))) = insert ed (set (heap (queue st)))"
    unfolding dists_compare_eta using assms(1) True
    by (intro push_vertex_ok[of "dist_at (dists st)"]) (auto simp: dij_inv_def)
  ultimately show ?thesis using True assms(1,4) by (auto simp: relax_def dij_inv_def Let_def)
next
  case False
  then show ?thesis using assms(1) by (auto simp: relax_def dij_inv_def Let_def)
qed

lemma relax_all_inv:
  assumes "dij_inv E vs p src st" "implied E src es (c - p src)" "\<forall>(ed, val, m) \<in> set l. E es ed = Some val \<and> ed \<in> vs"
  shows "dij_inv E vs p src (fold (relax p c) l st)"
  using assms(1,3)
proof (induction l arbitrary: st)
  case (Cons e l)
  obtain ed val m where "e = (ed, val, m)" by (cases e)
  then show ?case using Cons relax_inv[of E vs p src st es c, OF Cons.prems(1) assms(2), of ed val m] by auto
qed simp

lemma init_inv:
  assumes "src \<in> vs" "\<forall>(ed, val, m) \<in> set l. E src ed = Some val \<and> ed \<in> vs" "distinct (map fst l)"
  shows "dij_inv E vs p src (dijkstra_init p src l)"
proof -
  have "dij_inv E vs p src (fold (dijkstra_first p src) l st)"
    if "dij_inv E vs p src st" "\<forall>(ed, val, m) \<in> set l. E src ed = Some val \<and> ed \<in> vs \<and> ed \<notin> set (heap (queue st))" "distinct (map fst l)" for st
    using that
  proof (induction l arbitrary: st)
    case (Cons e l)
    obtain ed val m where e: "e = (ed, val, m)" by (cases e)
    let ?ds = "(dists st)(ed \<mapsto> p src + val - p ed)"
    have n: "ed \<notin> set (heap (queue st))" "E src ed = Some val" "ed \<in> vs" using Cons.prems e by auto
    have "heap_invar (dist_at ?ds) (queue st)"
      by (rule hq.invar_cong[of "dist_at (dists st)"]) (use Cons.prems(1) n in \<open>auto simp: dij_inv_def\<close>)
    note ins = hq.ins_ok[OF this n(1), folded dists_compare_eta]
    have "implied E src ed (p src + val - p ed + p ed - p src)" using implied_edge[of E src ed, OF n(2)] by simp
    then have "dij_inv E vs p src (dijkstra_first p src e st)" using ins Cons.prems(1) n by (auto simp: e dijkstra_first_def dij_inv_def Let_def simp del: dist_at_upd)
    moreover have "\<forall>(ed', val, m) \<in> set l. E src ed' = Some val \<and> ed' \<in> vs \<and> ed' \<notin> set (heap (queue (dijkstra_first p src e st)))"
    proof -
      have "set (heap (queue (dijkstra_first p src e st))) = insert ed (set (heap (queue st)))" using ins by (simp add: e dijkstra_first_def Let_def)
      moreover have "ed' \<noteq> ed" if "(ed', x) \<in> set l" for ed' x using Cons.prems(3) that by (force simp: e)
      ultimately show ?thesis using Cons.prems(2) by auto
    qed
    ultimately show ?case using Cons.IH Cons.prems(3) by simp
  qed simp
  moreover have "dij_inv E vs p src \<lparr>dists = [src \<mapsto> 0], vert_marks = (\<lambda>v. 0), queue = empty_heap\<rparr>"
    using assms(1) by (auto simp: dij_inv_def implied_def)
  ultimately show ?thesis using assms(2,3) unfolding dijkstra_init_def by (auto simp: empty_heap_def)
qed

text \<open>The solution \<open>val0\<close> bounds every distance from below: the distances can decrease only finitely often.\<close>

definition unseen :: "nat set \<Rightarrow> Queue_State \<Rightarrow> nat" where
  "unseen vs st = card {v \<in> vs. dists st v = None}"

definition slack :: "nat set \<Rightarrow> (nat \<Rightarrow> int) \<Rightarrow> nat \<Rightarrow> (nat \<Rightarrow> int) \<Rightarrow> Queue_State \<Rightarrow> nat" where
  "slack vs p src val0 st = (\<Sum>v\<in>vs. case dists st v of None \<Rightarrow> 0 | Some x \<Rightarrow> nat (x + p v - p src - (val0 v - val0 src)))"

lemma relax_decreases:
  assumes "dij_inv E vs p src st" "dij_inv E vs p src (relax p c (ed, val, m) st)" "finite vs" "ed \<in> vs" "sat val0 E"
  defines "st' \<equiv> relax p c (ed, val, m) st"
  shows "dists st' = dists st \<and> queue st' = queue st \<or> unseen vs st' < unseen vs st \<or>
    unseen vs st' = unseen vs st \<and> slack vs p src val0 st' < slack vs p src val0 st"
proof (cases "dists st ed = None \<or> c + val - p ed < dist_at (dists st) ed")
  case True
  have st': "dists st' = (dists st)(ed \<mapsto> c + val - p ed)" using True by (auto simp: st'_def relax_def Let_def)
  show ?thesis
  proof (cases "dists st ed")
    case None
    then have "{v \<in> vs. dists st' v = None} \<subset> {v \<in> vs. dists st v = None}"
      using assms(4) by (auto simp: st')
    then have "unseen vs st' < unseen vs st" unfolding unseen_def using assms(3) by (intro psubset_card_mono) simp_all
    then show ?thesis by simp
  next
    case (Some x)
    have "dists st' ed = Some (c + val - p ed)" by (simp add: st')
    then have "implied E src ed (c + val - p ed + p ed - p src)" using assms(2) unfolding st'_def[symmetric] dij_inv_def by blast
    then have b: "val0 ed \<le> val0 src + (c + val - p src)" using assms(5) by (simp add: implied_def)
    have "c + val - p ed < x" using True Some by (simp add: dist_at_def)
    then have "nat (c + val - p ed + p ed - p src - (val0 ed - val0 src)) < nat (x + p ed - p src - (val0 ed - val0 src))" using b by simp
    then have "slack vs p src val0 st' < slack vs p src val0 st"
      unfolding slack_def st'
    proof (intro sum_strict_mono_ex1[OF assms(3)] ballI bexI[of _ ed])
      fix v show "(case ((dists st)(ed \<mapsto> c + val - p ed)) v of None \<Rightarrow> 0 | Some x \<Rightarrow> nat (x + p v - p src - (val0 v - val0 src))) \<le>
          (case dists st v of None \<Rightarrow> 0 | Some x \<Rightarrow> nat (x + p v - p src - (val0 v - val0 src)))"
        using Some \<open>c + val - p ed < x\<close> by (cases "v = ed") simp_all
    qed (use Some assms(4) in simp_all)
    moreover have "{v \<in> vs. dists st' v = None} = {v \<in> vs. dists st v = None}" using Some by (auto simp: st')
    ultimately show ?thesis by (simp add: unseen_def)
  qed
next
  case False
  then show ?thesis by (auto simp: st'_def relax_def Let_def)
qed

lemma relax_all_decreases:
  assumes "dij_inv E vs p src st" "implied E src es (c - p src)" "\<forall>(ed, val, m) \<in> set l. E es ed = Some val \<and> ed \<in> vs" "finite vs" "sat val0 E"
  defines "st' \<equiv> fold (relax p c) l st"
  shows "dists st' = dists st \<and> queue st' = queue st \<or> unseen vs st' < unseen vs st \<or>
    unseen vs st' = unseen vs st \<and> slack vs p src val0 st' < slack vs p src val0 st"
  using assms(1,3) unfolding st'_def
proof (induction l arbitrary: st)
  case (Cons e l)
  obtain ed val m where e: "e = (ed, val, m)" by (cases e)
  have i: "dij_inv E vs p src (relax p c (ed, val, m) st)" using Cons.prems by (intro relax_inv[of E vs p src _ es, OF _ assms(2)]) (auto simp: e)
  note d = relax_decreases[OF Cons.prems(1) i assms(4) _ assms(5)]
  have same: "unseen vs s = unseen vs s' \<and> slack vs p src val0 s = slack vs p src val0 s'" if "dists s = dists s'" for s s'
    using that by (simp add: unseen_def slack_def)
  show ?case using d Cons.IH[OF i] Cons.prems(2) same[of "relax p c (ed, val, m) st" st]
      same[of "fold (relax p c) l (relax p c (ed, val, m) st)" "relax p c (ed, val, m) st"]
    by (simp add: e) (smt (verit, best) order.strict_trans)
qed simp

definition expands :: "(nat \<Rightarrow> nat \<Rightarrow> int option) \<Rightarrow> nat set \<Rightarrow> ((nat \<Rightarrow> nat) \<Rightarrow> nat \<Rightarrow> (nat \<times> int \<times> nat) list) \<Rightarrow> bool" where
  "expands E vs expand \<longleftrightarrow> (\<forall>marks es. es \<in> vs \<longrightarrow> (\<forall>(ed, val, m) \<in> set (expand marks es). E es ed = Some val \<and> ed \<in> vs))"

definition out_inv :: "(nat \<Rightarrow> nat \<Rightarrow> int option) \<Rightarrow> nat set \<Rightarrow> nat \<Rightarrow> (nat \<times> int) list \<Rightarrow> bool" where
  "out_inv E vs src out \<longleftrightarrow> (\<forall>(v, w) \<in> set out. v \<in> vs \<and> implied E src v w)"

lemma dijkstra_step_ok:
  assumes "dij_inv E vs p src st" "out_inv E vs src out" "\<not> heap_empty (queue st)" "expands E vs expand"
    and "dijkstra_step g p src expand (out, st) = (out', st')"
  shows "dij_inv E vs p src st' \<and> out_inv E vs src out' \<and> (finite vs \<longrightarrow> sat val0 E \<longrightarrow>
    unseen vs st' < unseen vs st \<or> unseen vs st' = unseen vs st \<and> slack vs p src val0 st' < slack vs p src val0 st \<or>
    unseen vs st' = unseen vs st \<and> slack vs p src val0 st' = slack vs p src val0 st \<and> card (set (heap (queue st'))) < card (set (heap (queue st))))"
proof -
  obtain es q where m: "removeMin (dists_compare (dists st)) (queue st) = (es, q)" by fastforce
  have hi: "heap_invar (dist_at (dists st)) (queue st)" "set (heap (queue st)) \<noteq> {}" "set (heap (queue st)) \<subseteq> dom (dists st)"
    using assms(1,3) by (auto simp: dij_inv_def heap_empty_iff)
  note pop = hq.pop_ok[OF hi(1,2), folded dists_compare_eta, OF m]
  define st1 where "st1 = st\<lparr>queue := q\<rparr>"
  define c where "c = dist_at (dists st) es + p es"
  have "es \<in> dom (dists st)" using pop hi(3) by (meson subsetD)
  then obtain x where x: "dists st es = Some x" by blast
  then have es: "es \<in> vs" "implied E src es (c - p src)" using assms(1) by (auto simp: dij_inv_def c_def dist_at_def)
  have i1: "dij_inv E vs p src st1" using assms(1) pop by (auto simp: dij_inv_def st1_def)
  have ex: "\<forall>(ed, val, m) \<in> set (expand (vert_marks st1) es). E es ed = Some val \<and> ed \<in> vs"
    using assms(4) es(1) by (auto simp: expands_def)
  have st': "st' = fold (relax p c) (expand (vert_marks st1) es) st1"
    and out': "out' = out \<or> out' = out @ [(es, c - p src)]"
    using assms(5) by (auto simp: dijkstra_step_def m st1_def c_def Let_def split: option.splits if_splits)
  have "dij_inv E vs p src st'" unfolding st' by (rule relax_all_inv[of E vs p src st1 es, OF i1 es(2) ex])
  moreover have "out_inv E vs src out'" using out' assms(2) es by (auto simp: out_inv_def)
  moreover have "unseen vs st1 = unseen vs st" "slack vs p src val0 st1 = slack vs p src val0 st"
    by (simp_all add: unseen_def slack_def st1_def)
  moreover have "card (set (heap q)) < card (set (heap (queue st)))" by (rule psubset_card_mono) (use pop in auto)
  moreover have "dists st' = dists st1 \<Longrightarrow> unseen vs st' = unseen vs st1 \<and> slack vs p src val0 st' = slack vs p src val0 st1"
    by (simp add: unseen_def slack_def)
  moreover have "queue st1 = q" by (simp add: st1_def)
  ultimately show ?thesis using relax_all_decreases[of E vs p src st1 es, OF i1 es(2) ex, folded st', of val0] 
    by (cases "dists st' = dists st1 \<and> queue st' = queue st1") (simp, simp, blast)
qed

lemma dijkstra_run_ok:
  assumes "src \<in> vs" "\<forall>(ed, val, m) \<in> set l. E src ed = Some val \<and> ed \<in> vs" "distinct (map fst l)" "expands E vs expand"
  shows "dijkstra_run g p src l expand = Some out \<Longrightarrow> out_inv E vs src out"
    and "finite vs \<Longrightarrow> sat val0 E \<Longrightarrow> \<exists>out. dijkstra_run g p src l expand = Some out"
proof -
  let ?P = "\<lambda>(out, st). dij_inv E vs p src st \<and> out_inv E vs src out"
  let ?b = "\<lambda>(out, st). \<not> heap_empty (queue st)" and ?s = "([], dijkstra_init p src l)"
  have init: "?P ?s" using init_inv[of src vs l E p] assms(1-3) by (simp add: out_inv_def)
  have step: "?P (dijkstra_step g p src expand os)" if "?P os" "?b os" for os
  proof -
    obtain out st out' st' where o: "os = (out, st)" "dijkstra_step g p src expand (out, st) = (out', st')" by (metis surj_pair)
    then show ?thesis using dijkstra_step_ok[of E vs p src st out expand g out' st'] that assms(4) by simp
  qed
  show "out_inv E vs src out" if r: "dijkstra_run g p src l expand = Some out"
  proof -
    obtain st where w: "while_option ?b (dijkstra_step g p src expand) ?s = Some (out, st)" using r by (auto simp: dijkstra_run_def)
    have "?P (out, st)" by (rule while_option_rule[where P = "?P", OF step w init])
    then show ?thesis by simp
  qed
  assume fin: "finite vs" "sat val0 E"
  let ?R = "inv_image (less_than <*lex*> less_than <*lex*> less_than)
    (\<lambda>(out :: (nat \<times> int) list, st). (unseen vs st, slack vs p src val0 st, card (set (heap (queue st)))))"
  have "\<exists>t. while_option ?b (dijkstra_step g p src expand) ?s = Some t"
  proof (rule wf_rel_while_option_Some[of ?R ?P])
    show "wf ?R" by auto
    show "(dijkstra_step g p src expand os, os) \<in> ?R" if "?P os \<and> ?b os" for os
    proof -
      obtain out st out' st' where o: "os = (out, st)" "dijkstra_step g p src expand os = (out', st')" by (metis surj_pair)
      then show ?thesis using dijkstra_step_ok[of E vs p src st out expand g out' st' val0] that assms(4) fin by simp blast
    qed
  qed (use step init in auto)
  then show "\<exists>out. dijkstra_run g p src l expand = Some out" by (auto simp: dijkstra_run_def)
qed

section \<open>The closures\<close>

lemma apply_delta_size [simp]: "g_size (apply_delta g delta) = g_size g"
  unfolding apply_delta_def by (induction delta arbitrary: g) auto

definition delta_ok :: "(nat \<Rightarrow> nat \<Rightarrow> int option) \<Rightarrow> nat set \<Rightarrow> (nat \<times> nat \<times> int) list \<Rightarrow> bool" where
  "delta_ok E vs delta \<longleftrightarrow> (\<forall>(s, d, w) \<in> set delta. s \<in> vs \<and> d \<in> vs \<and> implied E s d w)"

lemma chrome_dijkstra_ok:
  assumes "view_ok g E" "src \<in> set (v_verts g)"
  shows "chrome_dijkstra g p emark src = Some out \<Longrightarrow> out_inv E (set (v_verts g)) src out"
    and "sat val0 E \<Longrightarrow> \<exists>out. chrome_dijkstra g p emark src = Some out"
proof -
  let ?l = "map (\<lambda>(dest, val). (dest, val, emark src dest)) (v_e_succs g src)"
  let ?ex = "\<lambda>marks es. if marks es = E_BOTH then [] else map (\<lambda>ed. (ed, v_edge_val g es ed, emark es ed))
             (filter (\<lambda>ed. emark es ed = (if marks es = E_LEFT then E_RIGHT else E_LEFT)) (map fst (v_e_succs g es)))"
  have l: "\<forall>(ed, val, m) \<in> set ?l. E src ed = Some val \<and> ed \<in> set (v_verts g)" "distinct (map fst ?l)"
    using view_e_succs[OF assms] view_edge[OF assms(1)] view_distinct_succs[OF assms] by (auto simp: comp_def case_prod_unfold)
  have ex: "expands E (set (v_verts g)) ?ex"
    using view_e_succs[OF assms(1)] view_edge[OF assms(1)] view_edge_val[OF assms(1)] unfolding expands_def by auto
  show "out_inv E (set (v_verts g)) src out" if "chrome_dijkstra g p emark src = Some out"
    using that dijkstra_run_ok(1)[OF assms(2) l ex] by (auto simp: chrome_dijkstra_def out_inv_def split: if_splits)
  show "\<exists>out. chrome_dijkstra g p emark src = Some out" if "sat val0 E"
    using dijkstra_run_ok(2)[OF assms(2) l ex _ that] by (simp add: chrome_dijkstra_def)
qed

lemma dijkstra_recover_ok:
  assumes "view_ok g E" "src \<in> set (v_verts g)"
  shows "dijkstra_recover g p is_stable src = Some out \<Longrightarrow> out_inv E (set (v_verts g)) src out"
    and "sat val0 E \<Longrightarrow> \<exists>out. dijkstra_recover g p is_stable src = Some out"
proof -
  let ?l = "map (\<lambda>(dest, val). (dest, val, V_UNSTABLE)) (v_e_succs g src)"
  let ?ex = "\<lambda>marks es. if marks es = V_STABLE then []
     else map (\<lambda>(ed, val). (ed, val, if is_stable es then V_STABLE else V_UNSTABLE)) (v_e_succs g es)"
  have l: "\<forall>(ed, val, m) \<in> set ?l. E src ed = Some val \<and> ed \<in> set (v_verts g)" "distinct (map fst ?l)"
    using view_e_succs[OF assms] view_edge[OF assms(1)] view_distinct_succs[OF assms] by (auto simp: comp_def case_prod_unfold)
  have ex: "expands E (set (v_verts g)) ?ex"
    using view_e_succs[OF assms(1)] view_edge[OF assms(1)] unfolding expands_def by auto
  show "out_inv E (set (v_verts g)) src out" if "dijkstra_recover g p is_stable src = Some out"
    using that dijkstra_run_ok(1)[OF assms(2) l ex] by (auto simp: dijkstra_recover_def out_inv_def split: if_splits)
  show "\<exists>out. dijkstra_recover g p is_stable src = Some out" if "sat val0 E"
    using dijkstra_run_ok(2)[OF assms(2) l ex _ that] by (simp add: dijkstra_recover_def)
qed

lemma collect_deltas_ok:
  assumes "set vs \<subseteq> V" "\<And>v out. v \<in> V \<Longrightarrow> f v = Some out \<Longrightarrow> out_inv E V v out"
  shows "collect_deltas f vs = Some delta \<Longrightarrow> delta_ok E V delta"
    and "(\<And>v. v \<in> V \<Longrightarrow> \<exists>out. f v = Some out) \<Longrightarrow> \<exists>delta. collect_deltas f vs = Some delta"
proof -
  show "delta_ok E V delta" if "collect_deltas f vs = Some delta"
    using that assms
  proof (induction vs arbitrary: delta)
    case (Cons v vs)
    then obtain out delta' where o: "f v = Some out" "collect_deltas f vs = Some delta'" "delta = map (\<lambda>(d, w). (v, d, w)) out @ delta'"
      by (auto split: option.splits)
    have "out_inv E V v out" "v \<in> V" using Cons.prems o by auto
    moreover have "delta_ok E V delta'" using Cons o by simp
    ultimately show ?case by (auto simp: o delta_ok_def out_inv_def)
  qed (simp add: delta_ok_def)
  show "\<exists>delta. collect_deltas f vs = Some delta" if "\<And>v. v \<in> V \<Longrightarrow> \<exists>out. f v = Some out"
    using assms(1) by (induction vs) (auto dest: that)
qed

lemma close_after_meet_ok:
  assumes "view_ok g E"
  shows "close_after_meet g p l r = Some delta \<Longrightarrow> delta_ok E (set (v_verts g)) delta"
    and "sat val0 E \<Longrightarrow> \<exists>delta. close_after_meet g p l r = Some delta"
proof -
  note f = chrome_dijkstra_ok[OF assms]
  show "delta_ok E (set (v_verts g)) delta" if "close_after_meet g p l r = Some delta"
    by (rule collect_deltas_ok(1)[OF subset_refl f(1) that[unfolded close_after_meet_def]])
  show "\<exists>delta. close_after_meet g p l r = Some delta" if "sat val0 E"
    unfolding close_after_meet_def by (rule collect_deltas_ok(2)[OF subset_refl f(1) f(2)[OF _ that]])
qed

lemma close_after_widen_ok:
  assumes "view_ok g E"
  shows "close_after_widen g p is_stable = Some delta \<Longrightarrow> delta_ok E (set (v_verts g)) delta"
    and "sat val0 E \<Longrightarrow> \<exists>delta. close_after_widen g p is_stable = Some delta"
proof -
  note f = dijkstra_recover_ok[OF assms]
  have sub: "set (filter (\<lambda>v. \<not> is_stable v) (v_verts g)) \<subseteq> set (v_verts g)" by auto
  show "delta_ok E (set (v_verts g)) delta" if "close_after_widen g p is_stable = Some delta"
    by (rule collect_deltas_ok(1)[OF sub f(1) that[unfolded close_after_widen_def]])
  show "\<exists>delta. close_after_widen g p is_stable = Some delta" if "sat val0 E"
    unfolding close_after_widen_def by (rule collect_deltas_ok(2)[OF sub f(1) f(2)[OF _ that]])
qed

lemma apply_delta_ok:
  assumes "graph_inv g" "delta_ok E vs delta" "\<And>v. v \<in> vs \<Longrightarrow> live g v"
  shows "graph_inv (apply_delta g delta)" "live (apply_delta g delta) = live g"
    and "sat val (edge_of g) \<Longrightarrow> sat val E \<Longrightarrow> sat val (edge_of (apply_delta g delta))"
proof -
  have "\<forall>(s, d, w) \<in> set delta. live g s \<and> live g d" using assms(2,3) by (auto simp: delta_ok_def)
  note p = sg.put_all[OF assms(1) this]
  show "graph_inv (apply_delta g delta)" "live (apply_delta g delta) = live g" using p by (simp_all add: apply_delta_def)
  show "sat val (edge_of (apply_delta g delta))" if "sat val (edge_of g)" "sat val E"
    using p that assms(2) unfolding apply_delta_def delta_ok_def implied_def by fastforce
qed

end
