(* ===== verification/Graph_Closure.thy ===== *)
theory Graph_Closure
  imports Graph_Ops_Sound
begin

text \<open>
  The closure after an assignment and over an edge add implied edges only, and the repair of the
  potentials decides whether the constraints with the new edge have a solution.
\<close>

section \<open>Closure after an assignment\<close>

definition dist_inv :: "(nat \<Rightarrow> nat \<Rightarrow> int option) \<Rightarrow> nat set \<Rightarrow> nat \<Rightarrow> (nat \<Rightarrow> int option) \<Rightarrow> bool" where
  "dist_inv E vs v ds \<longleftrightarrow> (\<forall>u x. ds u = Some x \<longrightarrow> u \<in> vs \<and> implied E v u x)"

lemma fwd_reach_inv:
  assumes "dist_inv E vs v ds" "set reach \<subseteq> dom ds" "implied E v d d_wt" "\<forall>(e, val) \<in> set es. E d e = Some val \<and> e \<in> vs"
    and "fwd_reach es d_wt (ds, reach) = (ds', reach')"
  shows "dist_inv E vs v ds' \<and> set reach' \<subseteq> dom ds' \<and> dom ds \<subseteq> dom ds'"
  using assms(1,2,4,5)
proof (induction es arbitrary: ds reach)
  case (Cons e es)
  obtain u val where e: "e = (u, val)" by (cases e)
  have u: "u \<in> vs" "implied E v u (d_wt + val)" using Cons.prems(3) implied_trans[of E v d, OF assms(3)] by (auto simp: e)
  define ds1 where "ds1 = ds(u \<mapsto> (case ds u of None \<Rightarrow> d_wt + val | Some old \<Rightarrow> min (d_wt + val) old))"
  define reach1 where "reach1 = (case ds u of None \<Rightarrow> reach @ [u] | Some old \<Rightarrow> reach)"
  have "dist_inv E vs v ds1" using Cons.prems(1) u by (auto simp: ds1_def dist_inv_def min_def split: option.splits)
  moreover have d: "set reach1 \<subseteq> dom ds1" "dom ds \<subseteq> dom ds1" using Cons.prems(2) by (auto simp: ds1_def reach1_def split: option.splits)
  moreover have "fwd_reach es d_wt (ds1, reach1) = (ds', reach')"
    using Cons.prems(4) by (simp add: ds1_def reach1_def e fwd_reach_def Let_def split: option.splits)
  moreover have "\<forall>(e, val) \<in> set es. E d e = Some val \<and> e \<in> vs" using Cons.prems(3) by simp
  ultimately have "dist_inv E vs v ds' \<and> set reach' \<subseteq> dom ds' \<and> dom ds1 \<subseteq> dom ds'" by (intro Cons.IH)
  then show ?case using d(2) by blast
qed (auto simp: fwd_reach_def)

lemma close_after_assign_fwd_ok:
  assumes V: "view_ok g E" and v: "v \<in> set (v_verts g)"
  shows "\<forall>(u, w) \<in> set (close_after_assign_fwd g p v). u \<in> set (v_verts g) \<and> implied E v u w"
proof -
  let ?vs = "set (v_verts g)" and ?es = "v_e_succs g v"
  define ds where "ds = fold (\<lambda>(d, val) ds. ds(d \<mapsto> val)) ?es [v \<mapsto> 0]"
  define adj where "adj = sort_key (\<lambda>d. dist_at ds d - p d) (map fst ?es)"
  let ?step = "\<lambda>d (ds, reach). fwd_reach (v_e_succs g d) (dist_at ds d) (ds, reach)"
  obtain ds' reach where r: "fold ?step adj (ds, []) = (ds', reach)" by fastforce
  have succ: "\<forall>(d, val) \<in> set (v_e_succs g u). E u d = Some val \<and> d \<in> ?vs" if "u \<in> ?vs" for u
    using view_e_succs[OF V that] view_edge[OF V] by auto
  have loop: "dist_inv E ?vs v (fold (\<lambda>(d, val) ds. ds(d \<mapsto> val)) es ds0) \<and> dom ds0 \<union> fst ` set es \<subseteq> dom (fold (\<lambda>(d, val) ds. ds(d \<mapsto> val)) es ds0)"
    if "dist_inv E ?vs v ds0" "\<forall>(d, val) \<in> set es. E v d = Some val \<and> d \<in> ?vs" for es ds0
    using that
  proof (induction es arbitrary: ds0)
    case (Cons e es)
    obtain d val where e: "e = (d, val)" by (cases e)
    have "dist_inv E ?vs v (ds0(d \<mapsto> val))" using Cons.prems implied_edge[of E v d val] by (auto simp: dist_inv_def e)
    from Cons.IH[OF this] Cons.prems(2) show ?case by (simp add: e del: fun_upd_apply)
  qed simp
  have "dist_inv E ?vs v [v \<mapsto> 0]" using v by (auto simp: dist_inv_def implied_def split: if_splits)
  from loop[OF this succ[OF v], folded ds_def] have ds: "dist_inv E ?vs v ds" "set adj \<subseteq> dom ds" by (simp_all add: adj_def)
  have "dist_inv E ?vs v ds2 \<and> set reach2 \<subseteq> dom ds2 \<and> dom ds1 \<subseteq> dom ds2"
    if "fold ?step ad (ds1, reach1) = (ds2, reach2)" "dist_inv E ?vs v ds1" "set reach1 \<subseteq> dom ds1" "set ad \<subseteq> dom ds1" for ad ds1 reach1 ds2 reach2
    using that
  proof (induction ad arbitrary: ds1 reach1)
    case (Cons d ad)
    obtain ds3 reach3 where s: "fwd_reach (v_e_succs g d) (dist_at ds1 d) (ds1, reach1) = (ds3, reach3)" by fastforce
    obtain x where x: "ds1 d = Some x" using Cons.prems(4) by auto
    then have "d \<in> ?vs" "implied E v d (dist_at ds1 d)" using Cons.prems(2) by (auto simp: dist_inv_def dist_at_def)
    note f = fwd_reach_inv[of E ?vs v ds1 reach1 d, OF Cons.prems(2,3) this(2) succ[OF this(1)] s]
    moreover have "set ad \<subseteq> dom ds3" using f Cons.prems(4) by (simp, blast)
    ultimately have "dist_inv E ?vs v ds2 \<and> set reach2 \<subseteq> dom ds2 \<and> dom ds3 \<subseteq> dom ds2"
      using Cons.prems(1) s by (intro Cons.IH[of ds3 reach3]) simp_all
    then show ?case using f by blast
  qed simp
  from this[OF r ds(1) _ ds(2)] have "dist_inv E ?vs v ds'" "set (adj @ reach) \<subseteq> dom ds'" using ds(2) by (simp_all, blast)
  moreover have "close_after_assign_fwd g p v = map (\<lambda>u. (u, dist_at ds' u)) (adj @ reach)"
    using r by (simp add: close_after_assign_fwd_def ds_def adj_def Let_def)
  ultimately show ?thesis by (force simp: dist_inv_def dist_at_def)
qed

lemma implied_rev: "implied (\<lambda>s d. E d s) s d w \<Longrightarrow> implied E d s w"
proof (unfold implied_def, intro allI impI)
  fix val assume a: "\<forall>val. sat val (\<lambda>s d. E d s) \<longrightarrow> val d \<le> val s + w" and "sat val E"
  then have "sat (\<lambda>v. - val v) (\<lambda>s d. E d s)" by (force simp: sat_def)
  with a have "- val d \<le> - val s + w" by blast
  then show "val s \<le> val d + w" by simp
qed

lemma close_after_assign_ok:
  assumes "view_ok g E" "v \<in> set (v_verts g)"
  shows "delta_ok E (set (v_verts g)) (close_after_assign g p v)"
proof -
  have v: "v_verts (graph_rev g) = v_verts g" by (simp add: graph_rev_def)
  show ?thesis
    using close_after_assign_fwd_ok[OF assms, of p] close_after_assign_fwd_ok[OF graph_rev_ok[OF assms(1)], of v "\<lambda>v. - p v"] assms(2)
    unfolding v by (force simp: delta_ok_def close_after_assign_def intro: implied_rev)
qed

section \<open>Closure over an edge\<close>

lemma improve_edge_ok:
  assumes "graph_inv g" "live g s" "live g d" "improve_edge s w d g = Some g'"
  shows "graph_inv g' \<and> live g' = live g \<and> edge_of g' = edge_upd (edge_of g) s d w \<and> g_size g' = g_size g"
proof -
  consider "g' = set_edge s w d g" | "edge_of g s d = None" "g' = add_edge s w d g"
    using assms by (auto simp: improve_edge_def g_lookup_edge split: option.splits if_splits)
  then show ?thesis
  proof cases
    case 1
    then show ?thesis using set_edge_ok[OF assms(1-3) 1] by blast
  next
    case 2
    then show ?thesis using add_edge_ok[OF assms(1-3) 2] by blast
  qed
qed

definition extends :: "AdaptGraph \<Rightarrow> AdaptGraph \<Rightarrow> bool" where
  "extends g g' \<longleftrightarrow> graph_inv g' \<and> live g' = live g \<and> g_size g' = g_size g \<and> (\<forall>val. sat val (edge_of g) \<longrightarrow> sat val (edge_of g'))"

lemma extends_refl: "graph_inv g \<Longrightarrow> extends g g"
  by (simp add: extends_def)

lemma extends_trans: "extends g g' \<Longrightarrow> extends g' g'' \<Longrightarrow> extends g g''"
  by (auto simp: extends_def)

lemma improve_edge_extends:
  assumes "extends g g1" "live g s" "live g d" "implied (edge_of g) s d w" "improve_edge s w d g1 = Some g2"
  shows "extends g g2"
  using improve_edge_ok[of g1 s d w g2] assms by (auto simp: extends_def implied_def intro: sat_edge_upd)

text \<open>A loop over edges that improves one edge for each, and collects the ones it improved.\<close>

lemma improve_loop:
  assumes "extends g g1" "\<forall>(u, val) \<in> set es. live g (s u) \<and> live g (d u) \<and> implied (edge_of g) (s u) (d u) (val + c)"
    and "fold (\<lambda>(u, val) (g, dec). if P u then case improve_edge (s u) (val + c) (d u) g of None \<Rightarrow> (g, dec) | Some g \<Rightarrow> (g, dec @ [(u, val)]) else (g, dec))
      es (g1, dec) = (g2, dec')"
  shows "extends g g2 \<and> set dec' \<subseteq> set dec \<union> set es"
  using assms
proof (induction es arbitrary: g1 dec)
  case (Cons e es)
  obtain u val where e: "e = (u, val)" by (cases e)
  have u: "live g (s u)" "live g (d u)" "implied (edge_of g) (s u) (d u) (val + c)" using Cons.prems(2) by (auto simp: e)
  show ?case
  proof (cases "P u")
    case True
    show ?thesis
    proof (cases "improve_edge (s u) (val + c) (d u) g1")
      case (Some g3)
      have "extends g g3" by (rule improve_edge_extends[OF Cons.prems(1) u Some])
      then show ?thesis using Cons.IH[of g3 "dec @ [(u, val)]"] Cons.prems(2,3) True Some by (auto simp: e)
    qed (use Cons True in \<open>auto simp: e\<close>)
  qed (use Cons in \<open>auto simp: e\<close>)
qed simp

lemma close_over_edge_ok:
  assumes g: "graph_inv g" and e: "edge_of g ii jj = Some c" "ii \<noteq> 0" "jj \<noteq> 0"
  shows "extends g (close_over_edge g ii jj)"
proof -
  have l: "live g ii" "live g jj" using edge_of_live[OF g e(1)] by auto
  have c: "g_edge_val g ii jj = c" using g_edge_val_edge[OF g e(1)] .
  have preds: "set (v_e_preds (sub_graph (adapt_view g) 0) ii) \<subseteq> {(s, w). edge_of g s ii = Some w}"
    using g_e_preds_set(1)[OF g l(1)] by (auto simp: sub_graph_def adapt_view_def)
  let ?f1 = "\<lambda>(se, val) (g, src_dec). if se \<noteq> jj then case improve_edge se (val + c) jj g of None \<Rightarrow> (g, src_dec) | Some g \<Rightarrow> (g, src_dec @ [(se, val)]) else (g, src_dec)"
  obtain g1 src where f1: "fold ?f1 (v_e_preds (sub_graph (adapt_view g) 0) ii) (g, []) = (g1, src)" by fastforce
  have ex1: "extends g g1 \<and> set src \<subseteq> {(s, w). edge_of g s ii = Some w}"
  proof -
    have "\<forall>(u, val) \<in> set (v_e_preds (sub_graph (adapt_view g) 0) ii). live g u \<and> live g jj \<and> implied (edge_of g) u jj (val + c)"
      using preds edge_of_live[OF g] implied_trans[of "edge_of g" _ ii, OF implied_edge e(1)] l(2) by blast
    from improve_loop[OF extends_refl[OF g] this f1] show ?thesis using preds by auto
  qed
  let ?f2 = "\<lambda>(de, val) (g, dest_dec). if de \<noteq> ii then case improve_edge ii (val + c) de g of None \<Rightarrow> (g, dest_dec) | Some g \<Rightarrow> (g, dest_dec @ [(de, val)]) else (g, dest_dec)"
  have g1: "graph_inv g1" "live g1 jj" "live g1 = live g" using ex1 l by (auto simp: extends_def)
  have jd: "implied (edge_of g) jj d w" if "edge_of g1 jj d = Some w" for d w
    using implied_edge[of "edge_of g1", OF that] ex1 by (auto simp: implied_def extends_def)
  have comp: "implied (edge_of g) a d (w1 + w2)" if "implied (edge_of g) a b w1" "implied (edge_of g) b d w2" for a b d w1 w2
    using that by (force simp: implied_def)
  have succs: "set (v_e_succs (sub_graph (adapt_view g1) 0) jj) \<subseteq> {(d, w). live g d \<and> implied (edge_of g) jj d w}"
    using g_e_succs_set(1)[OF g1(1,2)] edge_of_live[OF g1(1)] jd g1(3) by (auto simp: sub_graph_def adapt_view_def)
  obtain g2 dest where f2: "fold ?f2 (v_e_succs (sub_graph (adapt_view g1) 0) jj) (g1, []) = (g2, dest)" by fastforce
  have ex2: "extends g g2 \<and> set dest \<subseteq> {(d, w). live g d \<and> implied (edge_of g) jj d w}"
  proof -
    have "\<forall>(u, val) \<in> set (v_e_succs (sub_graph (adapt_view g1) 0) jj). live g ii \<and> live g u \<and> implied (edge_of g) ii u (val + c)"
      using succs comp[OF implied_edge[of "edge_of g", OF e(1)]] l(1) by (auto simp: add.commute)
    from improve_loop[OF conjunct1[OF ex1] this f2] show ?thesis using succs by auto
  qed
  have src: "live g s \<and> implied (edge_of g) s jj (c + w)" if "(s, w) \<in> set src" for s w
    using that ex1 edge_of_live[OF g] implied_trans[of "edge_of g" s ii w, OF implied_edge e(1)] by (auto simp: add.commute)
  have inner: "extends g (fold (\<lambda>(de, p2) g. case improve_edge se (c + p1 + p2) de g of None \<Rightarrow> g | Some g \<Rightarrow> g) ds h)"
    if "extends g h" "(se, p1) \<in> set src" "set ds \<subseteq> set dest" for h se p1 ds
    using that
  proof (induction ds arbitrary: h)
    case (Cons a ds)
    obtain de p2 where a: "a = (de, p2)" by (cases a)
    have de: "live g de" "implied (edge_of g) jj de p2" using Cons.prems(3) ex2 by (auto simp: a)
    moreover have "implied (edge_of g) se de (c + p1 + p2)" by (rule comp[OF _ de(2)]) (use src[OF Cons.prems(2)] in simp)
    ultimately have "extends g (case improve_edge se (c + p1 + p2) de h of None \<Rightarrow> h | Some g \<Rightarrow> g)"
      using improve_edge_extends[OF Cons.prems(1)] src[OF Cons.prems(2)] Cons.prems(1) by (auto split: option.splits)
    then show ?case using Cons by (simp add: a)
  qed simp
  have "extends g (fold (\<lambda>(se, p1). fold (\<lambda>(de, p2) g. case improve_edge se (c + p1 + p2) de g of None \<Rightarrow> g | Some g \<Rightarrow> g) dest) sr h)"
    if "extends g h" "set sr \<subseteq> set src" for h sr
    using that by (induction sr arbitrary: h) (auto simp: inner)
  from this[OF conjunct1[OF ex2] subset_refl] show ?thesis
    by (simp add: close_over_edge_def c f1 f2)
qed

section \<open>Repair of the potentials\<close>

text \<open>
  The state of the loop: \<open>ds v\<close> is the improvement found for \<open>v\<close>, zero when there is none; \<open>alt\<close> is the new
  potential of the vertices that have left the queue. The vertices leave the queue in the order of their
  improvements, and a vertex that has left does not come back.
\<close>

definition fixed :: "int list \<Rightarrow> (nat \<Rightarrow> int) \<Rightarrow> nat \<Rightarrow> bool" where
  "fixed p alt v \<longleftrightarrow> alt v \<noteq> p ! v"

definition repair_inv :: "(nat \<Rightarrow> nat \<Rightarrow> int option) \<Rightarrow> nat set \<Rightarrow> int list \<Rightarrow> nat \<Rightarrow> nat \<Rightarrow> (nat \<Rightarrow> int) \<times> (nat \<Rightarrow> int) \<times> Heap \<Rightarrow> bool" where
  "repair_inv E vs p ii jj st \<longleftrightarrow> (case st of (alt, ds, h) \<Rightarrow>
     heap_invar ds h \<and> set (heap h) = {v. ds v < 0 \<and> \<not> fixed p alt v} \<and>
     (\<forall>v. ds v \<le> 0 \<and> (ds v < 0 \<longrightarrow> v \<in> vs \<and> implied E ii v (p ! v + ds v - p ! ii))) \<and>
     (\<forall>v. fixed p alt v \<longrightarrow> ds v < 0 \<and> alt v = p ! v + ds v \<and> (\<forall>u \<in> set (heap h). ds v \<le> ds u)) \<and>
     (\<forall>v d w. fixed p alt v \<longrightarrow> E v d = Some w \<longrightarrow> (v, d) \<noteq> (ii, jj) \<longrightarrow> p ! d + ds d \<le> alt v + w) \<and>
     (fixed p alt jj \<or> (\<forall>v. v \<noteq> jj \<longrightarrow> ds v = 0)) \<and> p ! jj + ds jj \<le> p ! ii + the (E ii jj))"

lemma repair_relax_loop:
  fixes E vs p ii alt es and c :: int
  defines "I \<equiv> \<lambda>(ds, h). heap_invar ds h \<and> set (heap h) = {v. ds v < 0 \<and> \<not> fixed p alt v} \<and>
     (\<forall>v. ds v \<le> 0 \<and> (ds v < 0 \<longrightarrow> v \<in> vs \<and> implied E ii v (p ! v + ds v - p ! ii))) \<and> (\<forall>u \<in> set (heap h). c \<le> ds u)"
  assumes I: "I (ds, h)" and l: "\<forall>(ed, val) \<in> set l. E es ed = Some val \<and> ed \<in> vs \<and> (\<not> fixed p alt ed \<longrightarrow> c \<le> alt es + val - p ! ed)"
    and es: "implied E ii es (alt es - p ! ii)" and r: "fold (repair_relax p alt es) l (ds, h) = (ds', h')"
  shows "I (ds', h') \<and> (\<forall>v. ds' v \<le> ds v \<and> (fixed p alt v \<longrightarrow> ds' v = ds v)) \<and>
    (\<forall>(ed, val) \<in> set l. \<not> fixed p alt ed \<longrightarrow> p ! ed + ds' ed \<le> alt es + val)"
  using I l r
proof (induction l arbitrary: ds h)
  case (Cons e l)
  obtain ed val where e: "e = (ed, val)" by (cases e)
  have ed: "E es ed = Some val" "ed \<in> vs" "\<not> fixed p alt ed \<Longrightarrow> c \<le> alt es + val - p ! ed" using Cons.prems(2) by (auto simp: e)
  obtain ds1 h1 where s: "repair_relax p alt es (ed, val) (ds, h) = (ds1, h1)" by fastforce
  have "I (ds1, h1) \<and> (\<forall>v. ds1 v \<le> ds v \<and> (fixed p alt v \<longrightarrow> ds1 v = ds v)) \<and> (\<not> fixed p alt ed \<longrightarrow> p ! ed + ds1 ed \<le> alt es + val)"
  proof (cases "\<not> fixed p alt ed \<and> alt es + val - p ! ed < ds ed")
    case True
    define k where "k = alt es + val - p ! ed"
    have s1: "ds1 = ds(ed := k)" "h1 = push_vertex (\<lambda>x y. ds1 x < ds1 y) ed h"
      using s True by (auto simp: repair_relax_def Let_def fixed_def k_def)
    have "heap_invar ds1 h1 \<and> set (heap h1) = insert ed (set (heap h))"
      unfolding s1(2) using Cons.prems(1) True by (intro push_vertex_ok[of ds, OF _ _ s1(1)]) (auto simp: I_def k_def)
    moreover have "implied E ii ed (p ! ed + k - p ! ii)"
      using implied_trans[of E ii es, OF es ed(1)] by (simp add: k_def algebra_simps)
    moreover have "ds ed \<le> 0" using Cons.prems(1) by (simp add: I_def)
    then have "k < 0" "k < ds ed" "c \<le> k" using True ed(3) by (auto simp: k_def)
    ultimately show ?thesis using Cons.prems(1) True ed(2) by (auto simp: I_def s1(1) k_def)
  next
    case False
    then have "ds1 = ds" "h1 = h" using s by (auto simp: repair_relax_def Let_def fixed_def split: if_splits)
    then show ?thesis using Cons.prems(1) False by auto
  qed
  note one = this
  have "I (ds', h') \<and> (\<forall>v. ds' v \<le> ds1 v \<and> (fixed p alt v \<longrightarrow> ds' v = ds1 v)) \<and>
    (\<forall>(ed, val) \<in> set l. \<not> fixed p alt ed \<longrightarrow> p ! ed + ds' ed \<le> alt es + val)"
    using one Cons.prems(2,3) s by (intro Cons.IH[of ds1 h1]) (auto simp: e)
  moreover have "ds' v \<le> ds v" "fixed p alt v \<Longrightarrow> ds' v = ds v" for v
    using calculation one by (meson order_trans, simp)
  moreover have "p ! ed + ds' ed \<le> alt es + val" if "\<not> fixed p alt ed"
    using calculation(1) one that by (smt (verit, best))
  ultimately show ?case by (simp add: e)
qed simp

definition edges_except :: "nat \<Rightarrow> nat \<Rightarrow> int list \<Rightarrow> (nat \<Rightarrow> nat \<Rightarrow> int option) \<Rightarrow> bool" where
  "edges_except ii jj p E \<longleftrightarrow> (\<forall>s d w. E s d = Some w \<longrightarrow> (s, d) \<noteq> (ii, jj) \<longrightarrow> p ! d \<le> p ! s + w)"

lemma repair_step_ok:
  assumes V: "view_ok g E" and p: "edges_except ii jj p E" and I: "repair_inv E (set (v_verts g)) p ii jj (alt, ds, h)" and ne: "\<not> heap_empty h"
    and r: "repair_step g p (alt, ds, h) = (alt', ds', h')"
  shows "repair_inv E (set (v_verts g)) p ii jj (alt', ds', h') \<and>
    {v \<in> set (v_verts g). \<not> fixed p alt' v} \<subset> {v \<in> set (v_verts g). \<not> fixed p alt v}"
proof -
  let ?vs = "set (v_verts g)"
  obtain es h1 where m: "removeMin (\<lambda>x y. ds x < ds y) h = (es, h1)" by fastforce
  note I' = I[unfolded repair_inv_def, simplified]
  have pop: "es \<in> set (heap h)" "\<And>y. y \<in> set (heap h) \<Longrightarrow> ds es \<le> ds y" "heap_invar ds h1" "set (heap h1) = set (heap h) - {es}"
    using hq.pop_ok[OF _ _ m] I' ne by (auto simp: heap_empty_iff)
  have es: "ds es < 0" "\<not> fixed p alt es" "es \<in> ?vs" "implied E ii es (p ! es + ds es - p ! ii)" using pop(1) I' by auto
  have alt': "alt' = alt(es := p ! es + ds es)" and f: "fold (repair_relax p alt' es) (v_e_succs g es) (ds, h1) = (ds', h')"
    using r by (auto simp: repair_step_def m Let_def split: prod.splits)
  have fx: "fixed p alt' v \<longleftrightarrow> v = es \<or> fixed p alt v" for v using es(1) by (auto simp: fixed_def alt')
  have jj: "fixed p alt' jj"
  proof (cases "fixed p alt jj")
    case False
    then have "\<forall>v. v \<noteq> jj \<longrightarrow> ds v = 0" using I' by blast
    then have "es = jj" using es(1) by force
    then show ?thesis by (simp add: fx)
  qed (simp add: fx)
  have sat: "p ! d \<le> p ! es + w" if "E es d = Some w" "(es, d) \<noteq> (ii, jj)" for d w using p that by (auto simp: edges_except_def)
  have l: "\<forall>(ed, val) \<in> set (v_e_succs g es). E es ed = Some val \<and> ed \<in> ?vs \<and> (\<not> fixed p alt' ed \<longrightarrow> ds es \<le> alt' es + val - p ! ed)"
  proof (intro ballI, clarify)
    fix ed val assume "(ed, val) \<in> set (v_e_succs g es)"
    then have e: "E es ed = Some val" using view_e_succs[OF V es(3)] by auto
    then show "E es ed = Some val \<and> ed \<in> ?vs \<and> (\<not> fixed p alt' ed \<longrightarrow> ds es \<le> alt' es + val - p ! ed)"
      using view_edge[OF V e] sat[OF e] jj by (cases "ed = jj"; simp add: alt')
  qed
  have init: "heap_invar ds h1 \<and> set (heap h1) = {v. ds v < 0 \<and> \<not> fixed p alt' v} \<and>
     (\<forall>v. ds v \<le> 0 \<and> (ds v < 0 \<longrightarrow> v \<in> ?vs \<and> implied E ii v (p ! v + ds v - p ! ii))) \<and> (\<forall>u \<in> set (heap h1). ds es \<le> ds u)"
    using pop I' fx by auto
  note R = repair_relax_loop[where c = "ds es" and alt = alt' and E = E and vs = ?vs and ii = ii and p = p, simplified prod.case, OF init l _ f]
  have alt_es: "alt' es = p ! es + ds es" by (simp add: alt')
  note R = R[unfolded alt_es, OF es(4)]
  have same: "ds' v = ds v" if "fixed p alt' v" for v using R that by blast
  have old: "ds v \<le> ds es" if "fixed p alt v" for v using I' that pop(1) by blast
  have "p ! d + ds' d \<le> alt' v + w" if "fixed p alt' v" "E v d = Some w" "(v, d) \<noteq> (ii, jj)" for v d w
  proof (cases "v = es")
    case False
    then have "p ! d + ds d \<le> alt v + w" "alt' v = alt v" using I' that fx by (auto simp: alt')
    moreover have "ds' d \<le> ds d" using R by blast
    ultimately show ?thesis by simp
  next
    case True
    show ?thesis
    proof (cases "fixed p alt' d")
      case True
      then have "ds' d \<le> ds es" using same old fx by force
      then show ?thesis using sat[of d w] that \<open>v = es\<close> by (simp add: alt_es)
    next
      case False
      have "(d, w) \<in> set (v_e_succs g es)" using view_e_succs[OF V es(3)] that \<open>v = es\<close> by auto
      then show ?thesis using R False \<open>v = es\<close> by (auto simp: alt_es)
    qed
  qed
  moreover have "ds' v < 0 \<and> alt' v = p ! v + ds' v \<and> (\<forall>u \<in> set (heap h'). ds' v \<le> ds' u)" if "fixed p alt' v" for v
  proof -
    have "ds v < 0 \<and> alt' v = p ! v + ds v \<and> ds v \<le> ds es" using that fx es(1) I' old by (cases "v = es") (auto simp: alt')
    moreover have "\<forall>u \<in> set (heap h'). ds es \<le> ds' u" using R by simp
    ultimately show ?thesis using same[OF that] by (metis order_trans)
  qed
  moreover have "p ! jj + ds' jj \<le> p ! ii + the (E ii jj)" using I' same[OF jj] by simp
  ultimately have "repair_inv E ?vs p ii jj (alt', ds', h')" using R jj by (simp add: repair_inv_def)
  then show ?thesis using fx es by auto
qed

lemma repair_init:
  assumes V: "view_ok g E" and e: "E ii jj = Some w" and neg: "p ! ii + w - p ! jj < 0"
  defines "ds \<equiv> (\<lambda>v. 0)(jj := p ! ii + w - p ! jj)"
  shows "repair_inv E (set (v_verts g)) p ii jj (\<lambda>v. p ! v, ds, heap_insert (\<lambda>x y. ds x < ds y) jj empty_heap)"
proof -
  note ins = hq.ins_ok[of ds empty_heap jj, simplified]
  have "implied E ii jj (p ! jj + ds jj - p ! ii)" using implied_edge[of E ii jj w, OF e] by (simp add: ds_def)
  then show ?thesis using ins view_edge[OF V e] e neg by (auto simp: repair_inv_def fixed_def ds_def)
qed

lemma fold_assign_nth:
  "length (fold (\<lambda>v p. p[v := f v]) vs p) = length p"
  "v < length p \<Longrightarrow> fold (\<lambda>v p. p[v := f v]) vs p ! v = (if v \<in> set vs then f v else p ! v)"
  by (induction vs arbitrary: p) (auto simp: nth_list_update)

lemma repair_done:
  assumes V: "view_ok g E" and e: "E ii jj = Some w" and p: "edges_except ii jj p E" and I: "repair_inv E (set (v_verts g)) p ii jj (alt, ds, h)" and h: "heap_empty h"
  shows "ds ii < 0 \<Longrightarrow> \<not> sat val E" and "\<not> ds ii < 0 \<Longrightarrow> sat alt E"
proof -
  note I' = I[unfolded repair_inv_def, simplified]
  show "\<not> sat val E" if "ds ii < 0"
  proof
    assume "sat val E"
    moreover have "implied E ii ii (p ! ii + ds ii - p ! ii)" using I' that by blast
    ultimately show False using that by (force simp: implied_def)
  qed
  assume ii: "\<not> ds ii < 0"
  have alt: "alt v = p ! v + ds v" and le: "ds v \<le> 0" for v
  proof -
    show le: "ds v \<le> 0" using I' by blast
    have "v \<notin> {v. ds v < 0 \<and> \<not> fixed p alt v}" using I' h by (simp add: heap_empty_iff)
    moreover have "fixed p alt v \<Longrightarrow> alt v = p ! v + ds v" using I' by blast
    ultimately show "alt v = p ! v + ds v" using le by (cases "fixed p alt v") (simp_all add: fixed_def)
  qed
  show "sat alt E"
    unfolding sat_def
  proof (intro allI impI)
    fix s d k assume k: "E s d = Some k"
    show "alt d \<le> alt s + k"
    proof (cases "fixed p alt s")
      case True
      then have "s \<noteq> ii" using I' ii by blast
      then have "(s = ii \<longrightarrow> d \<noteq> jj)" by simp
      then have "p ! d + ds d \<le> alt s + k" using I' True k by blast
      then show ?thesis by (simp add: alt[of d])
    next
      case False
      then have "alt s = p ! s" by (simp add: fixed_def)
      moreover have "p ! jj + ds jj \<le> p ! ii + the (E ii jj)" using I' by blast
      moreover have "p ! d \<le> p ! s + k" if "(s, d) \<noteq> (ii, jj)" using p k that by (simp add: edges_except_def)
      ultimately show ?thesis using k e alt[of d] le[of d] by (cases "(s, d) = (ii, jj)") auto
    qed
  qed
qed

lemma repair_potential_ok:
  assumes V: "view_ok g E" and e: "E ii jj = Some w" and p: "edges_except ii jj p E" and len: "\<And>v. v \<in> set (v_verts g) \<Longrightarrow> v < length p"
  shows "\<exists>b p'. repair_potential g p ii jj = Some (b, p') \<and> length p' = length p \<and>
    (if b then sat (\<lambda>v. p' ! v) E else p' = p \<and> (\<forall>val. \<not> sat val E))"
proof -
  have w: "v_edge_val g ii jj = w" using view_edge_val[OF V e] .
  show ?thesis
  proof (cases "p ! ii + w - p ! jj \<ge> 0")
    case True
    have "p ! d \<le> p ! s + k" if "E s d = Some k" for s d k
      using True p e that by (cases "(s, d) = (ii, jj)") (auto simp: edges_except_def)
    then have "sat (\<lambda>v. p ! v) E" by (simp add: sat_def)
    moreover have "repair_potential g p ii jj = Some (True, p)" using True by (simp add: repair_potential_def w Let_def)
    ultimately show ?thesis by (intro exI[of _ True] exI[of _ p]) simp
  next
    case False
    define ds where "ds = (\<lambda>v. 0 :: int)(jj := p ! ii + w - p ! jj)"
    let ?s = "(\<lambda>v. p ! v, ds, heap_insert (\<lambda>x y. ds x < ds y) jj empty_heap)" and ?b = "\<lambda>(alt :: nat \<Rightarrow> int, ds :: nat \<Rightarrow> int, h). \<not> heap_empty h"
    let ?I = "repair_inv E (set (v_verts g)) p ii jj"
    have init: "?I ?s" using repair_init[OF V e, of p] False by (simp add: ds_def)
    have step: "?I (repair_step g p st) \<and> {v \<in> set (v_verts g). \<not> fixed p (fst (repair_step g p st)) v} \<subset> {v \<in> set (v_verts g). \<not> fixed p (fst st) v}"
      if "?I st" "?b st" for st
    proof -
      obtain alt ds h alt' ds' h' where s: "st = (alt, ds, h)" "repair_step g p st = (alt', ds', h')" by (metis surj_pair)
      then show ?thesis using repair_step_ok[OF V p, of alt ds h alt' ds' h'] that by auto
    qed
    have "\<exists>t. while_option ?b (repair_step g p) ?s = Some t"
    proof (rule measure_while_option_Some[where P = ?I and f = "\<lambda>st. card {v \<in> set (v_verts g). \<not> fixed p (fst st) v}"])
      show "?I (repair_step g p st) \<and> card {v \<in> set (v_verts g). \<not> fixed p (fst (repair_step g p st)) v} < card {v \<in> set (v_verts g). \<not> fixed p (fst st) v}"
        if "?I st" "?b st" for st
        using step[OF that] by (intro conjI psubset_card_mono) simp_all
    qed (rule init)
    then obtain alt ds' h where t: "while_option ?b (repair_step g p) ?s = Some (alt, ds', h)" by auto
    have I: "?I (alt, ds', h)" by (rule while_option_rule[where P = ?I, OF _ t init]) (use step in blast)
    have h: "heap_empty h" using while_option_stop[OF t] by simp
    define q where "q = fold (\<lambda>v p. p[v := alt v]) (v_verts g) p"
    have "repair_potential g p ii jj = Some (if ds' ii < 0 then (False, p) else (True, q))"
      using False t by (simp add: repair_potential_def w Let_def ds_def q_def)
    moreover have "sat (\<lambda>v. q ! v) E" if "\<not> ds' ii < 0"
    proof -
      have "q ! v = alt v" if "v \<in> set (v_verts g)" for v using len[OF that] that by (simp add: q_def fold_assign_nth)
      then show ?thesis using repair_done(2)[OF V e p I h that] view_edge[OF V] by (auto simp: sat_def)
    qed
    moreover have "length q = length p" by (simp add: q_def fold_assign_nth)
    ultimately show ?thesis using repair_done(1)[OF V e p I h] by (cases "ds' ii < 0") auto
  qed
qed

end
