(* ===== verification/Graph_Lattice.thy ===== *)
theory Graph_Lattice
  imports Graph_Closure
begin

text \<open>
  The edges of the syntactic join, meet and widening of two graphs, and the totality of the selection of
  potentials: the recursion of the component search is as deep as there are vertices.
\<close>

section \<open>Building a graph from edges\<close>

definition cond_add :: "(nat \<Rightarrow> nat \<Rightarrow> int \<Rightarrow> int option) \<Rightarrow> nat \<times> nat \<times> int \<Rightarrow> AdaptGraph \<Rightarrow> AdaptGraph" where
  "cond_add f e g = (case e of (s, d, val) \<Rightarrow> case f s d val of None \<Rightarrow> g | Some w \<Rightarrow> add_edge s w d g)"

lemma cond_add_all:
  assumes "graph_inv g" "distinct (map (\<lambda>(s, d, w). (s, d)) l)" "\<forall>(s, d, w) \<in> set l. live g s \<and> live g d \<and> edge_of g s d = None"
  shows "graph_inv (fold (cond_add f) l g) \<and> live (fold (cond_add f) l g) = live g \<and> g_size (fold (cond_add f) l g) = g_size g \<and>
    free_id (fold (cond_add f) l g) = free_id g \<and>
    (\<forall>s d w. edge_of (fold (cond_add f) l g) s d = Some w \<longleftrightarrow> (\<exists>val. (s, d, val) \<in> set l \<and> f s d val = Some w) \<or> edge_of g s d = Some w)"
  using assms
proof (induction l arbitrary: g)
  case (Cons e l)
  obtain s d val where e: "e = (s, d, val)" by (cases e)
  have new: "live g s" "live g d" "edge_of g s d = None" using Cons.prems(3) by (auto simp: e)
  have notin: "(s, d, w) \<notin> set l" for w using Cons.prems(2) by (force simp: e)
  show ?case
  proof (cases "f s d val")
    case None
    then have "cond_add f e g = g" by (simp add: cond_add_def e)
    moreover have "(\<exists>val'. (s', d', val') \<in> set (e # l) \<and> f s' d' val' = Some w) \<longleftrightarrow> (\<exists>val'. (s', d', val') \<in> set l \<and> f s' d' val' = Some w)" for s' d' w
      using None by (auto simp: e)
    ultimately show ?thesis using Cons.IH[of g] Cons.prems by simp
  next
    case (Some w0)
    define g1 where "g1 = add_edge s w0 d g"
    have g1: "graph_inv g1" "edge_of g1 = edge_upd (edge_of g) s d w0" "live g1 = live g" "g_size g1 = g_size g" "free_id g1 = free_id g"
      using add_edge_ok[OF Cons.prems(1) new g1_def] by (auto simp: g1_def)
    have "\<forall>(s', d', w) \<in> set l. live g1 s' \<and> live g1 d' \<and> edge_of g1 s' d' = None"
      using Cons.prems(3) notin by (auto simp: g1 edge_upd_def)
    note IH = Cons.IH[OF g1(1) _ this]
    have "fold (cond_add f) (e # l) g = fold (cond_add f) l g1" using Some by (simp add: cond_add_def e g1_def)
    moreover have "(\<exists>val'. (s', d', val') \<in> set (e # l) \<and> f s' d' val' = Some w) \<or> edge_of g s' d' = Some w \<longleftrightarrow>
        (\<exists>val'. (s', d', val') \<in> set l \<and> f s' d' val' = Some w) \<or> edge_of g1 s' d' = Some w" for s' d' w
      using Some new(3) notin by (auto simp: e g1 edge_upd_def)
    ultimately show ?thesis using IH Cons.prems(2) g1 by simp
  qed
qed simp

lemma edge_list_set:
  assumes "view_ok V E"
  shows "(s, d, w) \<in> set (edge_list V) \<longleftrightarrow> E s d = Some w" "distinct (map (\<lambda>(s, d, w). (s, d)) (edge_list V))"
proof -
  have es: "(d, w) \<in> set (v_e_succs V s) \<longleftrightarrow> E s d = Some w" if "s \<in> set (v_verts V)" for s d w using view_e_succs[OF assms that] by auto
  show "(s, d, w) \<in> set (edge_list V) \<longleftrightarrow> E s d = Some w"
  proof -
    have "(s, d, w) \<in> set (edge_list V) \<longleftrightarrow> s \<in> set (v_verts V) \<and> (d, w) \<in> set (v_e_succs V s)" by (auto simp: edge_list_def)
    then show ?thesis using es[of s d w] view_edge[OF assms, of s d w] by blast
  qed
  have "distinct (concat (map (\<lambda>s. map (\<lambda>(d, val). (s, d)) (v_e_succs V s)) vs))" if "distinct vs" "set vs \<subseteq> set (v_verts V)" for vs
    using that
  proof (induction vs)
    case (Cons v vs)
    have "distinct (map (\<lambda>(d, val). (v, d)) (v_e_succs V v))"
      using view_distinct_succs[OF assms, of v] Cons.prems(2) by (simp add: distinct_map inj_on_def case_prod_unfold)
    then show ?case using Cons by (auto simp: case_prod_unfold)
  qed simp
  from this[OF view_distinct[OF assms] subset_refl] show "distinct (map (\<lambda>(s, d, w). (s, d)) (edge_list V))"
    by (simp add: edge_list_def map_concat comp_def case_prod_unfold)
qed

lemma build_graph:
  assumes "view_ok V E" "set (v_verts V) \<subseteq> {..<n}" "n \<le> 2 ^ 16" "g = fold (cond_add f) (edge_list V) (growTo n empty_graph)"
  shows "graph_inv g" "live g = (\<lambda>v. v < n)" "g_size g = n" "free_id g = []"
    "edge_of g s d = Some w \<longleftrightarrow> (\<exists>val. E s d = Some val \<and> f s d val = Some w)"
proof -
  note gr = growTo_empty[OF assms(3)]
  have "\<forall>(s, d, w) \<in> set (edge_list V). live (growTo n empty_graph) s \<and> live (growTo n empty_graph) d \<and> edge_of (growTo n empty_graph) s d = None"
    using edge_list_set(1)[OF assms(1)] view_edge[OF assms(1)] assms(2) gr by fastforce
  note c = cond_add_all[OF gr(1) edge_list_set(2)[OF assms(1)] this, of f, folded assms(4)]
  then show "graph_inv g" "live g = (\<lambda>v. v < n)" "g_size g = n" "free_id g = []" using gr by simp_all
  show "edge_of g s d = Some w \<longleftrightarrow> (\<exists>val. E s d = Some val \<and> f s d val = Some w)"
    using c gr(2) by (simp add: edge_list_set(1)[OF assms(1)])
qed

lemma fold_cond_add: "(\<lambda>(s, d, val) g. case f s d val of None \<Rightarrow> g | Some w \<Rightarrow> add_edge s w d g) = cond_add f"
  by (auto simp: cond_add_def fun_eq_iff)

lemma graph_copy_ok:
  assumes "view_ok V E" "v_size V \<le> 2 ^ 16"
  shows "graph_inv (graph_copy V)" "live (graph_copy V) = (\<lambda>v. v < v_size V)" "g_size (graph_copy V) = v_size V" "free_id (graph_copy V) = []"
    "edge_of (graph_copy V) = E"
proof -
  have sub: "set (v_verts V) \<subseteq> {..<v_size V}" using view_size[OF assms(1)] by auto
  have "(\<lambda>(s, d, val). add_edge s val d) = cond_add (\<lambda>s d val. Some val)" by (auto simp: cond_add_def fun_eq_iff)
  then have "graph_copy V = fold (cond_add (\<lambda>s d val. Some val)) (edge_list V) (growTo (v_size V) empty_graph)"
    by (simp add: graph_copy_def)
  note b = build_graph[OF assms(1) sub assms(2) this]
  show "graph_inv (graph_copy V)" "live (graph_copy V) = (\<lambda>v. v < v_size V)" "g_size (graph_copy V) = v_size V" "free_id (graph_copy V) = []"
    using b by simp_all
  have "edge_of (graph_copy V) s d = E s d" for s d using b(5)[of s d] by (metis option.exhaust option.inject)
  then show "edge_of (graph_copy V) = E" by (simp add: fun_eq_iff)
qed

lemma graph_join_ok:
  assumes l: "view_ok l El" "v_size l \<le> 2 ^ 16" and r: "view_ok r Er" and verts: "set (v_verts l) \<subseteq> set (v_verts r)"
  defines "g \<equiv> graph_join l r"
  shows "graph_inv g" "live g = (\<lambda>v. v < v_size l)" "g_size g = v_size l" "free_id g = []"
    "edge_of g s d = Some w \<longleftrightarrow> (\<exists>a b. El s d = Some a \<and> Er s d = Some b \<and> w = max a b)"
proof -
  have sub: "set (v_verts l) \<subseteq> {..<v_size l}" using view_size[OF l(1)] by auto
  have "(\<lambda>(s, d, val) g. case v_lookup r s d of Some pw \<Rightarrow> add_edge s (max val pw) d g | None \<Rightarrow> g) =
      cond_add (\<lambda>s d val. map_option (max val) (v_lookup r s d))"
    by (auto simp: cond_add_def fun_eq_iff split: option.splits)
  then have "g = fold (cond_add (\<lambda>s d val. map_option (max val) (v_lookup r s d))) (edge_list l) (growTo (v_size l) empty_graph)"
    by (simp add: g_def graph_join_def)
  note b = build_graph[OF l(1) sub l(2) this]
  then show "graph_inv g" "live g = (\<lambda>v. v < v_size l)" "g_size g = v_size l" "free_id g = []" by simp_all
  have "v_lookup r s d = Er s d" if "El s d = Some a" for a using view_lookup[OF r] view_edge[OF l(1) that] verts by blast
  then have "map_option (max val) (v_lookup r s d) = Some w \<longleftrightarrow> (\<exists>b. Er s d = Some b \<and> w = max val b)" if "El s d = Some val" for val
    using that by (cases "Er s d") auto
  then show "edge_of g s d = Some w \<longleftrightarrow> (\<exists>a b. El s d = Some a \<and> Er s d = Some b \<and> w = max a b)" unfolding b(5) by blast
qed

lemma graph_meet_ok:
  assumes l: "view_ok l El" "v_size l \<le> 2 ^ 16" and r: "view_ok r Er" "v_size r = v_size l"
  shows "graph_inv (graph_meet l r) \<and> live (graph_meet l r) = (\<lambda>v. v < v_size l) \<and> g_size (graph_meet l r) = v_size l \<and> free_id (graph_meet l r) = [] \<and>
    (\<forall>val. sat val El \<longrightarrow> sat val Er \<longrightarrow> sat val (edge_of (graph_meet l r)))"
proof -
  let ?f = "\<lambda>(s, d, val) g. case g_lookup g s d of Some pw \<Rightarrow> if val < pw then set_edge s val d g else g | None \<Rightarrow> add_edge s val d g"
  note c = graph_copy_ok[OF l]
  have "graph_inv (fold ?f es g) \<and> live (fold ?f es g) = live g \<and> g_size (fold ?f es g) = g_size g \<and> free_id (fold ?f es g) = free_id g \<and>
      (\<forall>val. sat val (edge_of g) \<longrightarrow> sat val Er \<longrightarrow> sat val (edge_of (fold ?f es g)))"
    if "graph_inv g" "\<forall>(s, d, w) \<in> set es. Er s d = Some w \<and> live g s \<and> live g d" for es g
    using that
  proof (induction es arbitrary: g)
    case (Cons e es)
    obtain s d w where e: "e = (s, d, w)" by (cases e)
    have g: "graph_inv g" "live g s" "live g d" and w: "Er s d = Some w" using Cons.prems by (auto simp: e)
    note se = set_edge_ok[OF g refl, of w] and ae = add_edge_ok[OF g _ refl, of w]
    have up: "sat val (edge_upd (edge_of g) s d w)" if "sat val (edge_of g)" "sat val Er" for val
      using that(1) satD[OF that(2) w] by (rule sat_edge_upd)
    have g1: "graph_inv (?f e g) \<and> live (?f e g) = live g \<and> g_size (?f e g) = g_size g \<and> free_id (?f e g) = free_id g \<and>
        (\<forall>val. sat val (edge_of g) \<longrightarrow> sat val Er \<longrightarrow> sat val (edge_of (?f e g)))"
    proof (cases "edge_of g s d")
      case None
      then have "?f e g = add_edge s w d g" using g by (simp add: e g_lookup_edge)
      then show ?thesis using ae[OF None] up by simp
    next
      case (Some pw)
      then have "?f e g = set_edge s w d g \<or> ?f e g = g" using g by (simp add: e g_lookup_edge)
      then show ?thesis using se g up by auto
    qed
    moreover have "\<forall>(s, d, w) \<in> set es. Er s d = Some w \<and> live (?f e g) s \<and> live (?f e g) d" using Cons.prems(2) g1 by auto
    ultimately show ?case using Cons.IH[of "?f e g"] by simp
  qed simp
  from this[OF c(1), of "edge_list r"] show ?thesis
    using edge_list_set(1)[OF r(1)] view_edge[OF r(1)] view_size[OF r(1)] r(2) unfolding graph_meet_def c by fastforce
qed

lemma widen_graph: "fst (fold (widen_vertex l r) vs (g, u)) =
    fold (cond_add (\<lambda>s d val. case v_lookup l s d of Some wl \<Rightarrow> if val \<le> wl then Some wl else None | None \<Rightarrow> None))
      (concat (map (\<lambda>s. map (\<lambda>(d, val). (s, d, val)) (v_e_succs r s)) vs)) g"
proof (induction vs arbitrary: g u)
  case (Cons s vs)
  let ?c = "cond_add (\<lambda>s d val. case v_lookup l s d of Some wl \<Rightarrow> if val \<le> wl then Some wl else None | None \<Rightarrow> None)"
  let ?h = "\<lambda>(d, val) g. case v_lookup l s d of Some wl \<Rightarrow> if val \<le> wl then add_edge s wl d g else g | None \<Rightarrow> g"
  have "fold ?h es g = fold ?c (map (\<lambda>(d, val). (s, d, val)) es) g" for es g
    by (induction es arbitrary: g) (auto simp: cond_add_def split: option.splits)
  then obtain u' where "widen_vertex l r s (g, u) = (fold ?c (map (\<lambda>(d, val). (s, d, val)) (v_e_succs r s)) g, u')"
    by (auto simp: widen_vertex_def Let_def)
  then show ?case using Cons.IH by simp
qed simp

lemma graph_widen_ok:
  assumes l: "view_ok l El" "v_size l \<le> 2 ^ 16" and r: "view_ok r Er" and verts: "set (v_verts r) \<subseteq> set (v_verts l)"
    and g: "graph_widen l r u = (g, u')"
  shows "graph_inv g" "live g = (\<lambda>v. v < v_size l)" "g_size g = v_size l" "free_id g = []"
    "edge_of g s d = Some w \<longleftrightarrow> El s d = Some w \<and> (\<exists>b. Er s d = Some b \<and> b \<le> w)"
proof -
  let ?f = "\<lambda>s d val. case v_lookup l s d of Some wl \<Rightarrow> if val \<le> wl then Some wl else None | None \<Rightarrow> None"
  have sub: "set (v_verts r) \<subseteq> {..<v_size l}" using view_size[OF l(1)] verts by auto
  have "g = fold (cond_add ?f) (edge_list r) (growTo (v_size l) empty_graph)"
    using g widen_graph[of l r "v_verts r" "growTo (v_size l) empty_graph" u] by (simp add: graph_widen_def edge_list_def)
  note b = build_graph[OF r sub l(2) this]
  then show "graph_inv g" "live g = (\<lambda>v. v < v_size l)" "g_size g = v_size l" "free_id g = []" by simp_all
  have "v_lookup l s d = El s d" if "Er s d = Some a" for a using view_lookup[OF l(1)] view_edge[OF r that] verts by blast
  then have "?f s d val = Some w \<longleftrightarrow> El s d = Some w \<and> val \<le> w" if "Er s d = Some val" for val
    using that by (auto split: option.splits)
  then show "edge_of g s d = Some w \<longleftrightarrow> El s d = Some w \<and> (\<exists>b. Er s d = Some b \<and> b \<le> w)" unfolding b(5) by blast
qed

section \<open>Selection of potentials\<close>

definition scc_white :: "Graph_View \<Rightarrow> Scc_State \<Rightarrow> nat set" where
  "scc_white x st = {v \<in> set (v_verts x). scc_marks st v = 0}"

text \<open>A mark is zero or at least two, and stays different from zero.\<close>

definition marks_ok :: "Scc_State \<Rightarrow> bool" where
  "marks_ok st \<longleftrightarrow> scc_index st > 0 \<and> (\<forall>v. scc_marks st v \<noteq> 1)"

lemma scc_enter_ok:
  assumes "marks_ok st"
  shows "marks_ok (scc_enter v st)" "scc_marks (scc_enter v st) u = 0 \<longleftrightarrow> scc_marks st u = 0 \<and> u \<noteq> v"
  using assms by (auto simp: marks_ok_def scc_enter_def)

lemma scc_leave_ok:
  assumes "marks_ok st"
  shows "marks_ok (scc_leave v st)" "scc_marks (scc_leave v st) u = 0 \<longleftrightarrow> scc_marks st u = 0"
proof -
  have "2 * (m div 2) = 0 \<longleftrightarrow> m = 0" "2 * (m div 2) \<noteq> 1" if "m \<noteq> 1" for m :: nat using that by presburger+
  then show "marks_ok (scc_leave v st)" "scc_marks (scc_leave v st) u = 0 \<longleftrightarrow> scc_marks st u = 0"
    using assms by (auto simp: marks_ok_def scc_leave_def Let_def split: prod.splits)
qed

lemma strong_connect_total:
  "view_ok x E \<Longrightarrow> marks_ok st \<Longrightarrow> v \<in> set (v_verts x) \<Longrightarrow> scc_marks st v = 0 \<Longrightarrow> card (scc_white x st) \<le> fuel \<Longrightarrow>
     \<exists>st'. strong_connect fuel x v st = Some st' \<and> marks_ok st' \<and> scc_white x st' \<subseteq> scc_white x st"
  "view_ok x E \<Longrightarrow> marks_ok st \<Longrightarrow> set ws \<subseteq> set (v_verts x) \<Longrightarrow> card (scc_white x st) \<le> fuel \<Longrightarrow>
     \<exists>st'. scc_succs fuel x v ws st = Some st' \<and> marks_ok st' \<and> scc_white x st' \<subseteq> scc_white x st"
proof (induction fuel x v st and fuel x v ws st rule: strong_connect_scc_succs.induct)
  case (1 x v st)
  have "finite (scc_white x st)" by (simp add: scc_white_def)
  moreover have "v \<in> scc_white x st" using 1 by (simp add: scc_white_def)
  ultimately show ?case using 1 by auto
next
  case (2 fuel x v st)
  have w: "scc_white x (scc_enter v st) = scc_white x st - {v}" "v \<in> scc_white x st" "finite (scc_white x st)"
    using scc_enter_ok(2)[OF 2(3)] 2(4,5) by (auto simp: scc_white_def)
  then have "card (scc_white x (scc_enter v st)) \<le> fuel" using 2(6) by (simp add: card_Diff_singleton)
  moreover have "set (v_succs x v) \<subseteq> set (v_verts x)"
    using view_succs[OF 2(2,4)] view_e_succs[OF 2(2,4)] view_edge[OF 2(2)] by auto
  ultimately obtain st1 where "scc_succs fuel x v (v_succs x v) (scc_enter v st) = Some st1" "marks_ok st1" "scc_white x st1 \<subseteq> scc_white x (scc_enter v st)"
    using 2(1)[OF 2(2) scc_enter_ok(1)[OF 2(3)]] by blast
  moreover have "scc_white x (scc_leave v st1) = scc_white x st1" using scc_leave_ok(2)[OF calculation(2)] by (simp add: scc_white_def)
  ultimately show ?case using w(1) scc_leave_ok(1) by auto
next
  case (4 fuel x v w ws st)
  have up: "marks_ok (s\<lparr>scc_low := l\<rparr>) = marks_ok s" "scc_white x (s\<lparr>scc_low := l\<rparr>) = scc_white x s" for s l
    by (simp_all add: marks_ok_def scc_white_def)
  show ?case
  proof (cases "scc_marks st w = 0")
    case True
    then obtain st1 where s: "strong_connect fuel x w st = Some st1" "marks_ok st1" "scc_white x st1 \<subseteq> scc_white x st"
      using 4(1)[OF True 4(5,6) _ True 4(8)] 4(7) by auto
    have "card (scc_white x st1) \<le> fuel" using card_mono[OF _ s(3)] 4(8) by (simp add: scc_white_def)
    then show ?thesis using 4(2)[OF True s(1) 4(5)] 4(7) s True by (auto simp: up)
  next
    case False
    then show ?thesis using 4(3)[OF False _ 4(5)] 4(4)[OF False _ 4(5)] 4(6-8) by (auto simp: up)
  qed
qed auto

lemma compute_sccs_total:
  assumes "view_ok x E"
  shows "\<exists>sccs. compute_sccs x = Some sccs"
proof -
  let ?f = "\<lambda>v st. case st of None \<Rightarrow> None
    | Some st \<Rightarrow> if scc_marks st v = 0 then strong_connect (Suc (length (v_verts x))) x v (st\<lparr>scc_stack := [], scc_index := 1\<rparr>) else Some st"
  have "\<exists>st'. fold ?f vs (Some st) = Some st'" if "marks_ok st" "set vs \<subseteq> set (v_verts x)" for vs st
    using that
  proof (induction vs arbitrary: st)
    case (Cons v vs)
    have "\<exists>st1. ?f v (Some st) = Some st1 \<and> marks_ok st1"
    proof (cases "scc_marks st v = 0")
      case True
      let ?st = "st\<lparr>scc_stack := [], scc_index := 1\<rparr>"
      have "card (scc_white x ?st) \<le> card (set (v_verts x))" by (rule card_mono) (auto simp: scc_white_def)
      then have "card (scc_white x ?st) \<le> Suc (length (v_verts x))" using card_length[of "v_verts x"] by simp
      moreover have "marks_ok ?st" "scc_marks ?st v = 0" using Cons.prems(1) True by (simp_all add: marks_ok_def)
      ultimately have "\<exists>st1. strong_connect (Suc (length (v_verts x))) x v ?st = Some st1 \<and> marks_ok st1"
        using strong_connect_total(1)[OF assms, of ?st v "Suc (length (v_verts x))"] Cons.prems(2) by (simp del: strong_connect.simps) blast
      then show ?thesis using True by (simp del: strong_connect.simps)
    qed (use Cons.prems in simp)
    then show ?case using Cons by auto
  qed simp
  from this[of "\<lparr>scc_marks = (\<lambda>v. 0), scc_low = (\<lambda>v. 0), scc_stack = [], scc_index = 1, scc_out = []\<rparr>", OF _ subset_refl] show ?thesis
    by (auto simp: compute_sccs_def marks_ok_def)
qed

lemma bf_lengths:
  "length (bf_pots (fold (bf_relax k) es st)) = length (bf_pots st)"
  "length (bf_pots (bf_vertex g s st)) = length (bf_pots st)"
  "length (bf_pots (fold (bf_vertex g) q st)) = length (bf_pots st)"
proof -
  show r: "length (bf_pots (fold (bf_relax k) es st)) = length (bf_pots st)" for k es st
    by (induction es arbitrary: st) (auto simp: bf_relax_def Let_def)
  show v: "length (bf_pots (bf_vertex g s st)) = length (bf_pots st)" for s st by (simp add: bf_vertex_def r)
  show "length (bf_pots (fold (bf_vertex g) q st)) = length (bf_pots st)" by (induction q arbitrary: st) (simp_all add: v)
qed

lemma bf_rounds_length: "length (bf_pots (snd (bf_rounds g scc q st))) = length (bf_pots st)"
  by (induction g scc q st rule: bf_rounds.induct) (auto simp: Let_def bf_lengths)

lemma bf_sccs_length: "bf_sccs g sccs st = Some p \<Longrightarrow> length p = length (bf_pots st)"
proof (induction g sccs st rule: bf_sccs.induct)
  case (2 g scc sccs st)
  let ?st = "st\<lparr>bf_marks := (\<lambda>v. if v \<in> set scc then BF_SCC_QUEUED else bf_marks st v)\<rparr>"
  obtain q st1 where r: "bf_rounds g scc scc ?st = (q, st1)" by fastforce
  have "length (bf_pots st1) = length (bf_pots st)" using bf_rounds_length[of g scc scc ?st] r by simp
  then show ?case using 2 r by (auto simp: Let_def split: if_splits)
qed simp

lemma select_potentials_total:
  assumes "view_ok g E"
  shows "\<exists>r. select_potentials g p = Some r \<and> (\<forall>q. r = Some q \<longrightarrow> length q = length p)"
  using compute_sccs_total[OF assms] bf_sccs_length[of g] by (fastforce simp: select_potentials_def)

end
