(* ===== verification/Split_Dbm.thy ===== *)
theory Split_Dbm
  imports Linear Graph_Lattice Interval_Arith
begin

text \<open>
  The zone domain (\<^verbatim>\<open>SplitDBM\<close> in \<^verbatim>\<open>crab/split_dbm.hpp\<close> and \<^verbatim>\<open>crab/split_dbm.cpp\<close>). A state is a graph
  over vertices, one for each variable that has a constraint and vertex 0 for the number zero; an edge from
  \<open>s\<close> to \<open>d\<close> of weight \<open>w\<close> is the constraint \<open>d - s \<le> w\<close>. The weights are numbers of arbitrary
  precision, for which \<^verbatim>\<open>convert_NtoW_overflow\<close> is the identity and never reports an overflow, so the branches it
  guards do not occur. A method that returns \<^verbatim>\<open>false\<close> when the state becomes bottom returns \<open>None\<close> for it; an
  outcome is \<open>'a out\<close>, since interval arithmetic may throw and the shortest path loops may not end.
\<close>

section \<open>The state\<close>

record SplitDBM =
  vert_map :: "(Variable \<times> VertId) list"
  rev_map :: "Variable option list"
  dbm_g :: AdaptGraph
  potential :: "int list"
  unstable :: "VertId list"

abbreviation ret :: "'a \<Rightarrow> 'a out" where
  "ret x \<equiv> Some (Inr x)"

abbreviation pot_fun :: "SplitDBM \<Rightarrow> VertId \<Rightarrow> int" where
  "pot_fun z \<equiv> \<lambda>v. potential z ! v"

definition dbm_top :: SplitDBM where
  "dbm_top = \<lparr>vert_map = [], rev_map = [None], dbm_g = growTo 1 empty_graph, potential = [0], unstable = []\<rparr>"

definition dbm_is_top :: "SplitDBM \<Rightarrow> bool" where
  "dbm_is_top z \<longleftrightarrow> g_is_empty (dbm_g z)"

definition get_vertid :: "SplitDBM \<Rightarrow> Variable \<Rightarrow> VertId option" where
  "get_vertid z x = om_lookup (vert_map z) x"

definition get_lb :: "SplitDBM \<Rightarrow> Variable \<Rightarrow> ExtendedNumber" where
  "get_lb z x =
     (case get_vertid z x of
        Some v \<Rightarrow> if g_elem (dbm_g z) v 0 then ext_of (- g_edge_val (dbm_g z) v 0) else minus_infinity
      | None \<Rightarrow> minus_infinity)"

definition get_ub :: "SplitDBM \<Rightarrow> Variable \<Rightarrow> ExtendedNumber" where
  "get_ub z x =
     (case get_vertid z x of
        Some v \<Rightarrow> if g_elem (dbm_g z) 0 v then ext_of (g_edge_val (dbm_g z) 0 v) else plus_infinity
      | None \<Rightarrow> plus_infinity)"

definition get_interval :: "SplitDBM \<Rightarrow> Variable \<Rightarrow> Interval" where
  "get_interval z x = iv_make (get_lb z x) (get_ub z x)"

definition get_vert :: "Variable \<Rightarrow> SplitDBM \<Rightarrow> VertId \<times> SplitDBM" where
  "get_vert v z =
     (case om_lookup (vert_map z) v of
        Some y \<Rightarrow> (y, z)
      | None \<Rightarrow>
          (let (vert, g) = new_vertex (dbm_g z);
               z = z\<lparr>dbm_g := g, vert_map := om_update v vert (vert_map z)\<rparr>
           in (vert,
               if vert < length (rev_map z) then
                 z\<lparr>potential := (potential z)[vert := 0], rev_map := (rev_map z)[vert := Some v]\<rparr>
               else z\<lparr>potential := potential z @ [0], rev_map := rev_map z @ [Some v]\<rparr>)))"

definition normalize :: "SplitDBM \<Rightarrow> SplitDBM out" where
  "normalize z =
     (if unstable z = [] then ret z
      else
        case close_after_widen (sub_graph (adapt_view (dbm_g z)) 0) (pot_fun z) (\<lambda>v. v \<in> set (unstable z)) of
          None \<Rightarrow> None
        | Some delta \<Rightarrow>
            (let g = apply_delta (dbm_g z) delta
             in ret (z\<lparr>dbm_g := apply_delta g (close_after_assign (adapt_view g) (pot_fun z) 0), unstable := []\<rparr>)))"

definition dbm_repair_potential :: "VertId \<Rightarrow> VertId \<Rightarrow> SplitDBM \<Rightarrow> SplitDBM option out" where
  "dbm_repair_potential src dest z =
     (case repair_potential (adapt_view (dbm_g z)) (potential z) src dest of
        None \<Rightarrow> None
      | Some (b, p) \<Rightarrow> ret (if b then Some (z\<lparr>potential := p\<rparr>) else None))"

text \<open>Sequencing of steps that may make the state bottom.\<close>

definition zbind :: "SplitDBM option out \<Rightarrow> (SplitDBM \<Rightarrow> SplitDBM option out) \<Rightarrow> SplitDBM option out" where
  "zbind m f = obind m (\<lambda>r. case r of None \<Rightarrow> ret None | Some z \<Rightarrow> f z)"

fun zfold :: "('a \<Rightarrow> SplitDBM \<Rightarrow> SplitDBM option out) \<Rightarrow> 'a list \<Rightarrow> SplitDBM \<Rightarrow> SplitDBM option out" where
  "zfold f [] z = ret (Some z)"
| "zfold f (x # xs) z = zbind (f x z) (zfold f xs)"

section \<open>Expressions over the state\<close>

definition eval_interval :: "SplitDBM \<Rightarrow> LinearExpression \<Rightarrow> Interval result" where
  "eval_interval z e =
     rfold (\<lambda>(v, c) r. iv_add r (iv_mul (iv_of c) (get_interval z v))) (variable_terms e) (iv_of (constant_term e))"

definition compute_residual :: "SplitDBM \<Rightarrow> LinearExpression \<Rightarrow> Variable \<Rightarrow> Interval result" where
  "compute_residual z e pivot =
     rfold (\<lambda>(v, c) r. if v \<noteq> pivot then iv_sub r (iv_mul (iv_of c) (get_interval z v)) else Inr r)
       (variable_terms e) (iv_of (- constant_term e))"

definition pot_value :: "SplitDBM \<Rightarrow> Variable \<Rightarrow> int" where
  "pot_value z v = (case om_lookup (vert_map z) v of Some y \<Rightarrow> potential z ! y | None \<Rightarrow> 0)"

definition eval_expression :: "SplitDBM \<Rightarrow> LinearExpression \<Rightarrow> int" where
  "eval_expression z e =
     fold (\<lambda>(v, c) out. out + (pot_value z v - potential z ! 0) * c) (variable_terms e) (constant_term e)"

text \<open>The loop of \<^verbatim>\<open>diffcsts_of_assign\<close>; \<open>None\<close> is its early return. The state is the residual, the
  unbounded variable and the bounded terms.\<close>

fun assign_terms :: "SplitDBM \<Rightarrow> bool \<Rightarrow> (Variable \<times> int) list \<Rightarrow> int \<times> Variable option \<times> (Variable \<times> int) list \<Rightarrow>
    (int \<times> Variable option \<times> (Variable \<times> int) list) option" where
  "assign_terms z up [] st = Some st"
| "assign_terms z up ((y, coeff) # ts) (residual, unbounded_var, terms) =
     (if coeff < 0 then
        let y_val = (if up then get_lb z y else get_ub z y) in
        if is_infinite y_val then None
        else assign_terms z up ts (residual + ext_n y_val * coeff, unbounded_var, terms)
      else
        let y_val = (if up then get_ub z y else get_lb z y) in
        if is_infinite y_val then
          if unbounded_var \<noteq> None \<or> coeff \<noteq> 1 then None
          else assign_terms z up ts (residual, Some y, terms)
        else assign_terms z up ts (residual + ext_n y_val * coeff, unbounded_var, terms @ [(y, ext_n y_val)]))"

definition diffcsts_of_assign :: "SplitDBM \<Rightarrow> LinearExpression \<Rightarrow> bool \<Rightarrow> (Variable \<times> int) list" where
  "diffcsts_of_assign z exp extract_upper_bounds =
     (case assign_terms z extract_upper_bounds (variable_terms exp) (constant_term exp, None, []) of
        None \<Rightarrow> []
      | Some (residual, unbounded_var, terms) \<Rightarrow>
          (case unbounded_var of
             Some y \<Rightarrow> [(y, residual)]
           | None \<Rightarrow> map (\<lambda>(v, n). (v, residual - n)) terms))"

record Leq_State =
  exp_ub :: int
  unbounded_lb :: "(Variable \<times> int) option"
  unbounded_ub :: "(Variable \<times> int) option"
  pos_terms :: "(int \<times> Variable \<times> int) list"
  neg_terms :: "(int \<times> Variable \<times> int) list"

fun leq_terms :: "SplitDBM \<Rightarrow> (Variable \<times> int) list \<Rightarrow> Leq_State \<Rightarrow> Leq_State option" where
  "leq_terms z [] st = Some st"
| "leq_terms z ((y, coeff) # ts) st =
     (if coeff > 0 then
        let y_lb = get_lb z y in
        if is_infinite y_lb then
          if unbounded_lb st \<noteq> None then None
          else leq_terms z ts (st\<lparr>unbounded_lb := Some (y, coeff)\<rparr>)
        else leq_terms z ts (st\<lparr>exp_ub := exp_ub st - ext_n y_lb * coeff, pos_terms := pos_terms st @ [(coeff, y, ext_n y_lb)]\<rparr>)
      else
        let y_ub = iv_ub (get_interval z y) in
        if is_infinite y_ub then
          if unbounded_ub st \<noteq> None then None
          else leq_terms z ts (st\<lparr>unbounded_ub := Some (y, - coeff)\<rparr>)
        else leq_terms z ts (st\<lparr>exp_ub := exp_ub st - ext_n y_ub * coeff, neg_terms := neg_terms st @ [(- coeff, y, ext_n y_ub)]\<rparr>))"

record Diffcsts =
  dc_csts :: "((Variable \<times> Variable) \<times> int) list"
  dc_lbs :: "(Variable \<times> int) list"
  dc_ubs :: "(Variable \<times> int) list"

text \<open>The divisors are coefficients, which are not zero; the quotients are truncated.\<close>

definition diffcsts_of_lin_leq :: "SplitDBM \<Rightarrow> LinearExpression \<Rightarrow> Diffcsts" where
  "diffcsts_of_lin_leq z exp =
     (case leq_terms z (variable_terms exp)
         \<lparr>exp_ub = - constant_term exp, unbounded_lb = None, unbounded_ub = None, pos_terms = [], neg_terms = []\<rparr> of
        None \<Rightarrow> \<lparr>dc_csts = [], dc_lbs = [], dc_ubs = []\<rparr>
      | Some st \<Rightarrow>
          (case (unbounded_lb st, unbounded_ub st) of
             (Some (x, lbcoeff), Some (y, ubcoeff)) \<Rightarrow>
               \<lparr>dc_csts = (if lbcoeff = 1 \<and> ubcoeff = 1 then [((x, y), exp_ub st)] else []), dc_lbs = [], dc_ubs = []\<rparr>
           | (Some (x, lbcoeff), None) \<Rightarrow>
               \<lparr>dc_csts = (if lbcoeff = 1 then map (\<lambda>(c, v, k). ((x, v), exp_ub st - k)) (neg_terms st) else []),
                dc_lbs = [], dc_ubs = [(x, exp_ub st sdiv lbcoeff)]\<rparr>
           | (None, Some (y, ubcoeff)) \<Rightarrow>
               \<lparr>dc_csts = (if ubcoeff = 1 then map (\<lambda>(c, v, k). ((v, y), exp_ub st + k)) (pos_terms st) else []),
                dc_lbs = [(y, (- exp_ub st) sdiv ubcoeff)], dc_ubs = []\<rparr>
           | (None, None) \<Rightarrow>
               \<lparr>dc_csts = concat (map (\<lambda>(nc, nv, neg_k). map (\<lambda>(pc, pv, pos_k). ((pv, nv), exp_ub st - neg_k + pos_k)) (pos_terms st)) (neg_terms st)),
                dc_lbs = map (\<lambda>(c, v, k). (v, (- exp_ub st) sdiv c + k)) (neg_terms st),
                dc_ubs = map (\<lambda>(c, v, k). (v, exp_ub st sdiv c + k)) (pos_terms st)\<rparr>))"

section \<open>Adding constraints\<close>

definition add_lower_bound :: "Variable \<times> int \<Rightarrow> SplitDBM \<Rightarrow> SplitDBM option out" where
  "add_lower_bound vn z =
     (let (var, n) = vn; (vert, z) = get_vert var z in
      case g_lookup (dbm_g z) vert 0 of
        Some w \<Rightarrow> if w \<le> - n then ret (Some z) else dbm_repair_potential vert 0 (z\<lparr>dbm_g := set_edge vert (- n) 0 (dbm_g z)\<rparr>)
      | None \<Rightarrow> dbm_repair_potential vert 0 (z\<lparr>dbm_g := set_edge vert (- n) 0 (dbm_g z)\<rparr>))"

definition add_upper_bound :: "Variable \<times> int \<Rightarrow> SplitDBM \<Rightarrow> SplitDBM option out" where
  "add_upper_bound vn z =
     (let (var, n) = vn; (vert, z) = get_vert var z in
      case g_lookup (dbm_g z) 0 vert of
        Some w \<Rightarrow> if w \<le> n then ret (Some z) else dbm_repair_potential 0 vert (z\<lparr>dbm_g := set_edge 0 n vert (dbm_g z)\<rparr>)
      | None \<Rightarrow> dbm_repair_potential 0 vert (z\<lparr>dbm_g := set_edge 0 n vert (dbm_g z)\<rparr>))"

definition add_difference :: "(Variable \<times> Variable) \<times> int \<Rightarrow> SplitDBM \<Rightarrow> SplitDBM option out" where
  "add_difference dk z =
     (let ((x, y), k) = dk; (src, z) = get_vert y z; (dest, z) = get_vert x z in
      zbind (dbm_repair_potential src dest (z\<lparr>dbm_g := update_edge src k dest (dbm_g z)\<rparr>))
        (\<lambda>z. ret (Some (z\<lparr>dbm_g := close_over_edge (dbm_g z) src dest\<rparr>))))"

definition add_linear_leq :: "LinearExpression \<Rightarrow> SplitDBM \<Rightarrow> SplitDBM option out" where
  "add_linear_leq exp z =
     (let cs = diffcsts_of_lin_leq z exp in
      zbind (zfold add_lower_bound (dc_lbs cs) z) (\<lambda>z.
      zbind (zfold add_upper_bound (dc_ubs cs) z) (\<lambda>z.
      zbind (zfold add_difference (dc_csts cs) z) (\<lambda>z.
        obind (normalize (z\<lparr>dbm_g := apply_delta (dbm_g z) (close_after_assign (adapt_view (dbm_g z)) (pot_fun z) 0)\<rparr>))
          (\<lambda>z. ret (Some z))))))"

definition trim_interval :: "Interval \<Rightarrow> int \<Rightarrow> Interval" where
  "trim_interval i n =
     (if ext_eq (iv_lb i) (ext_of n) then iv_make (ext_of (n + 1)) (iv_ub i)
      else if ext_eq (iv_ub i) (ext_of n) then iv_make (iv_lb i) (ext_of (n - 1))
      else if iv_is_top i \<and> n = 0 then iv_make (ext_of 1) (ext_of (2 ^ 64 - 1))
      else i)"

text \<open>The propagation loops of \<^verbatim>\<open>add_univar_disequation\<close>.\<close>

definition strengthen_lb :: "VertId \<Rightarrow> int \<Rightarrow> SplitDBM \<Rightarrow> SplitDBM option out" where
  "strengthen_lb v lb_val z =
     (case g_lookup (dbm_g z) v 0 of
        None \<Rightarrow> ret (Some z)
      | Some w \<Rightarrow>
          if lb_val < w then
            zbind (dbm_repair_potential v 0 (z\<lparr>dbm_g := set_edge v lb_val 0 (dbm_g z)\<rparr>)) (\<lambda>z.
              zfold (\<lambda>(u, val) z.
                  if u = 0 then ret (Some z)
                  else dbm_repair_potential u 0 (z\<lparr>dbm_g := update_edge u (val + lb_val) 0 (dbm_g z)\<rparr>))
                (g_e_preds (dbm_g z) v) z)
          else ret (Some z))"

definition strengthen_ub :: "VertId \<Rightarrow> int \<Rightarrow> SplitDBM \<Rightarrow> SplitDBM option out" where
  "strengthen_ub v ub_val z =
     (case g_lookup (dbm_g z) 0 v of
        None \<Rightarrow> ret (Some z)
      | Some w \<Rightarrow>
          if ub_val < w then
            zbind (dbm_repair_potential 0 v (z\<lparr>dbm_g := set_edge 0 ub_val v (dbm_g z)\<rparr>)) (\<lambda>z.
              zfold (\<lambda>(u, val) z.
                  if u = 0 then ret (Some z)
                  else dbm_repair_potential 0 u (z\<lparr>dbm_g := update_edge 0 (val + ub_val) u (dbm_g z)\<rparr>))
                (g_e_succs (dbm_g z) v) z)
          else ret (Some z))"

definition add_univar_disequation :: "Variable \<Rightarrow> int \<Rightarrow> SplitDBM \<Rightarrow> SplitDBM option out" where
  "add_univar_disequation x n z =
     (let i = get_interval z x; new_i = trim_interval i n in
      if iv_is_bottom new_i then ret None
      else if iv_is_top new_i \<or> \<not> iv_le new_i i then ret (Some z)
      else
        let (v, z) = get_vert x z in
        zbind (if is_finite (iv_lb new_i) then strengthen_lb v (- ext_n (iv_lb new_i)) z else ret (Some z)) (\<lambda>z.
        zbind (if is_finite (iv_ub new_i) then strengthen_ub v (ext_n (iv_ub new_i)) z else ret (Some z)) (\<lambda>z.
          obind (normalize z) (\<lambda>z. ret (Some z)))))"

definition add_disequation_term :: "LinearExpression \<Rightarrow> Variable \<times> int \<Rightarrow> SplitDBM \<Rightarrow> SplitDBM option out" where
  "add_disequation_term e vc z =
     (let (variable, coefficient) = vc in
      obind (Some (rbind (compute_residual z e variable) (\<lambda>r. iv_div r (iv_of coefficient)))) (\<lambda>i.
        case iv_singleton i of
          Some k \<Rightarrow> add_univar_disequation variable k z
        | None \<Rightarrow> ret (Some z)))"

definition add_constraint :: "LinearConstraint \<Rightarrow> SplitDBM \<Rightarrow> SplitDBM option out" where
  "add_constraint cst z =
     (if is_tautology cst then ret (Some z)
      else if is_contradiction cst then ret None
      else
        let e = lc_expression cst in
        zbind
          (case lc_kind cst of
             LESS_THAN_OR_EQUALS_ZERO \<Rightarrow> add_linear_leq e z
           | LESS_THAN_ZERO \<Rightarrow> add_linear_leq (plus_number e 1) z
           | EQUALS_ZERO \<Rightarrow> zbind (add_linear_leq e z) (add_linear_leq (le_negate e))
           | NOT_ZERO \<Rightarrow> zfold (add_disequation_term e) (variable_terms e) z)
          (\<lambda>z. obind (normalize z) (\<lambda>z. ret (Some z))))"

section \<open>Assignment\<close>

definition havoc :: "Variable \<Rightarrow> SplitDBM \<Rightarrow> SplitDBM out" where
  "havoc v z =
     (case om_lookup (vert_map z) v of
        Some y \<Rightarrow>
          normalize (z\<lparr>dbm_g := g_forget y (dbm_g z), rev_map := (rev_map z)[y := None],
            vert_map := filter (\<lambda>(u, n). u \<noteq> v) (vert_map z)\<rparr>)
      | None \<Rightarrow> ret z)"

definition dbm_set :: "Variable \<Rightarrow> Interval \<Rightarrow> SplitDBM \<Rightarrow> SplitDBM out" where
  "dbm_set x intv z =
     (if iv_is_bottom intv then Some (Inl Assert_Failed)
      else obind (havoc x z) (\<lambda>z.
        if iv_is_top intv then ret z
        else
          let (v, z) = get_vert x z;
              z = (if is_finite (iv_ub intv) then
                     z\<lparr>potential := (potential z)[v := potential z ! 0 + ext_n (iv_ub intv)], dbm_g := set_edge 0 (ext_n (iv_ub intv)) v (dbm_g z)\<rparr>
                   else z);
              z = (if is_finite (iv_lb intv) then
                     z\<lparr>potential := (potential z)[v := potential z ! 0 + ext_n (iv_lb intv)], dbm_g := set_edge v (- ext_n (iv_lb intv)) 0 (dbm_g z)\<rparr>
                   else z)
          in normalize z))"

text \<open>The edges of an assignment, each with the vertex of its variable.\<close>

fun assign_edges :: "(VertId \<Rightarrow> int \<Rightarrow> VertId \<times> VertId \<times> int) \<Rightarrow> (Variable \<times> int) list \<Rightarrow> SplitDBM \<Rightarrow> (VertId \<times> VertId \<times> int) list \<times> SplitDBM" where
  "assign_edges f [] z = ([], z)"
| "assign_edges f ((var, n) # ds) z =
     (let (v, z) = get_vert var z; (es, z) = assign_edges f ds z in (f v n # es, z))"

definition dbm_assign :: "Variable \<Rightarrow> LinearExpression \<Rightarrow> SplitDBM \<Rightarrow> SplitDBM out" where
  "dbm_assign lhs e z =
     obind (Some (eval_interval z e)) (\<lambda>value_interval.
       if iv_is_singleton value_interval then obind (dbm_set lhs value_interval z) normalize
       else
         let diffs_lb = diffcsts_of_assign z e False; diffs_ub = diffcsts_of_assign z e True in
         if diffs_lb = [] \<and> diffs_ub = [] then obind (dbm_set lhs value_interval z) normalize
         else
           let e_val = eval_expression z e;
               (vert, g) = new_vertex (dbm_g z);
               z = z\<lparr>dbm_g := g\<rparr>;
               z = (if vert = length (rev_map z) then
                      z\<lparr>rev_map := rev_map z @ [Some lhs], potential := potential z @ [potential z ! 0 + e_val]\<rparr>
                    else z\<lparr>potential := (potential z)[vert := potential z ! 0 + e_val], rev_map := (rev_map z)[vert := Some lhs]\<rparr>);
               (es1, z) = assign_edges (\<lambda>v n. (vert, v, - n)) diffs_lb z;
               (es2, z) = assign_edges (\<lambda>v n. (v, vert, n)) diffs_ub z;
               g = apply_delta (dbm_g z) (es1 @ es2);
               g = apply_delta g (close_after_assign (sub_graph (adapt_view g) 0) (pot_fun z) vert);
               g = (if is_finite (iv_lb value_interval) then update_edge vert (- ext_n (iv_lb value_interval)) 0 g else g);
               g = (if is_finite (iv_ub value_interval) then update_edge 0 (ext_n (iv_ub value_interval)) vert g else g)
           in obind (havoc lhs (z\<lparr>dbm_g := g\<rparr>)) (\<lambda>z. normalize (z\<lparr>vert_map := om_update lhs vert (vert_map z)\<rparr>)))"

definition dbm_assign_opt :: "Variable \<Rightarrow> LinearExpression option \<Rightarrow> SplitDBM \<Rightarrow> SplitDBM out" where
  "dbm_assign_opt x e z = (case e of Some e \<Rightarrow> dbm_assign x e z | None \<Rightarrow> havoc x z)"

datatype ArithBinOp = ADD | SUB | MUL

definition dbm_apply :: "ArithBinOp \<Rightarrow> Variable \<Rightarrow> Variable \<Rightarrow> Variable \<Rightarrow> SplitDBM \<Rightarrow> SplitDBM out" where
  "dbm_apply op1 x y u z =
     obind (case op1 of
         ADD \<Rightarrow> dbm_assign x (plus_variable (le_variable y) u) z
       | SUB \<Rightarrow> dbm_assign x (subtract_variable (le_variable y) u) z
       | MUL \<Rightarrow> dbm_set x (iv_mul (get_interval z y) (get_interval z u)) z) normalize"

definition dbm_apply_number :: "ArithBinOp \<Rightarrow> Variable \<Rightarrow> Variable \<Rightarrow> int \<Rightarrow> SplitDBM \<Rightarrow> SplitDBM out" where
  "dbm_apply_number op1 x y k z =
     obind (case op1 of
         ADD \<Rightarrow> dbm_assign x (plus_number (le_variable y) k) z
       | SUB \<Rightarrow> dbm_assign x (subtract_number (le_variable y) k) z
       | MUL \<Rightarrow> dbm_assign x (le_term k y) z) normalize"

fun havoc_all :: "Variable list \<Rightarrow> SplitDBM \<Rightarrow> SplitDBM out" where
  "havoc_all [] z = ret z"
| "havoc_all (v # vs) z = obind (if om_lookup (vert_map z) v \<noteq> None then havoc v z else ret z) (havoc_all vs)"

definition dbm_forget :: "Variable list \<Rightarrow> SplitDBM \<Rightarrow> SplitDBM out" where
  "dbm_forget variables z = (if dbm_is_top z then ret z else obind (havoc_all variables z) normalize)"

section \<open>Lattice operations\<close>

definition vert_renaming :: "SplitDBM \<Rightarrow> SplitDBM \<Rightarrow> VertId option list option" where
  "vert_renaming z o2 =
     fold (\<lambda>(v, n) r. case r of
           None \<Rightarrow> None
         | Some ren \<Rightarrow>
             if g_succs (dbm_g o2) n = [] \<and> g_preds (dbm_g o2) n = [] then Some ren
             else (case om_lookup (vert_map z) v of Some y \<Rightarrow> Some (ren[n := Some y]) | None \<Rightarrow> None))
       (vert_map o2) (Some ((replicate (g_size (dbm_g o2)) None)[0 := Some 0]))"

definition edge_entailed :: "AdaptGraph \<Rightarrow> VertId \<Rightarrow> VertId \<Rightarrow> int \<Rightarrow> bool" where
  "edge_entailed g x y ow \<longleftrightarrow>
     (case g_lookup g x y of Some w \<Rightarrow> w \<le> ow | None \<Rightarrow> False) \<or>
     (case (g_lookup g x 0, g_lookup g 0 y) of (Some wx, Some wy) \<Rightarrow> wx + wy \<le> ow | _ \<Rightarrow> False)"

definition dbm_leq :: "SplitDBM \<Rightarrow> SplitDBM \<Rightarrow> bool" where
  "dbm_leq z o2 =
     (if dbm_is_top o2 then True
      else if dbm_is_top z then False
      else if length (vert_map z) < length (vert_map o2) then False
      else
        case vert_renaming z o2 of
          None \<Rightarrow> False
        | Some ren \<Rightarrow>
            list_all (\<lambda>ox. list_all (\<lambda>(oy, ow). edge_entailed (dbm_g z) (the (ren ! ox)) (the (ren ! oy)) ow) (g_e_succs (dbm_g o2) ox))
              (g_verts (dbm_g o2)))"

text \<open>The variables both states have, with their vertices, in the order of the map.\<close>

definition common_vars :: "SplitDBM \<Rightarrow> SplitDBM \<Rightarrow> (Variable \<times> VertId \<times> VertId) list" where
  "common_vars l r = List.map_filter (\<lambda>(v, n). map_option (\<lambda>y. (v, n, y)) (om_lookup (vert_map r) v)) (vert_map l)"

definition renumber :: "Variable list \<Rightarrow> (Variable \<times> VertId) list" where
  "renumber vs = zip vs [1..<Suc (length vs)]"

definition deferred_relations :: "Graph_View \<Rightarrow> Graph_View \<Rightarrow> nat \<Rightarrow> AdaptGraph" where
  "deferred_relations gx gy sz =
     (let gy_excl = sub_graph gy 0 in
      fold (\<lambda>(s, d, val) g.
          case (v_lookup gx s 0, v_lookup gx 0 d) of
            (Some w1, Some w2) \<Rightarrow> add_edge s (w1 + w2) d g
          | _ \<Rightarrow> g)
        (edge_list gy_excl) (growTo sz empty_graph))"

definition reclose :: "Graph_View \<Rightarrow> AdaptGraph \<Rightarrow> int list \<Rightarrow> AdaptGraph option" where
  "reclose gx g_ix pots =
     (let g = graph_meet gx (adapt_view g_ix) in
      map_option (apply_delta g) (close_after_meet (sub_graph (adapt_view g) 0) (\<lambda>v. pots ! v) gx (adapt_view g_ix)))"

definition bounds_moved :: "(int \<Rightarrow> int \<Rightarrow> bool) \<Rightarrow> (VertId \<Rightarrow> int option) \<Rightarrow> (VertId \<Rightarrow> int option) \<Rightarrow> VertId list \<Rightarrow> VertId list" where
  "bounds_moved lt bx by1 vs = filter (\<lambda>v. case (bx v, by1 v) of (Some wx, Some wy) \<Rightarrow> lt wx wy | _ \<Rightarrow> False) vs"

definition add_independent :: "Graph_View \<Rightarrow> Graph_View \<Rightarrow> VertId list \<Rightarrow> VertId list \<Rightarrow> AdaptGraph \<Rightarrow> AdaptGraph" where
  "add_independent gx gy lbs ubs g =
     fold (\<lambda>s. fold (\<lambda>d g.
         if s = d then g
         else update_edge s (max (v_edge_val gx s 0 + v_edge_val gx 0 d) (v_edge_val gy s 0 + v_edge_val gy 0 d)) d g) ubs) lbs g"

definition collect_garbage :: "SplitDBM \<Rightarrow> SplitDBM" where
  "collect_garbage z =
     fold (\<lambda>v z.
         if v \<noteq> 0 \<and> g_succs (dbm_g z) v = [] \<and> g_preds (dbm_g z) v = [] then
           let z = z\<lparr>dbm_g := g_forget v (dbm_g z)\<rparr> in
           case rev_map z ! v of
             Some x \<Rightarrow> z\<lparr>vert_map := filter (\<lambda>(u, n). u \<noteq> x) (vert_map z), rev_map := (rev_map z)[v := None]\<rparr>
           | None \<Rightarrow> z
         else z)
       (g_verts (dbm_g z)) z"

definition shifted_pots :: "SplitDBM \<Rightarrow> VertId list \<Rightarrow> int list" where
  "shifted_pots z ns = 0 # map (\<lambda>n. potential z ! n - potential z ! 0) ns"

definition dbm_join :: "SplitDBM \<Rightarrow> SplitDBM \<Rightarrow> SplitDBM out" where
  "dbm_join l r =
     (if dbm_is_top r then ret r
      else if dbm_is_top l then ret l
      else
        let common = common_vars l r;
            vs = map fst common; xs = map (fst \<circ> snd) common; ys = map (snd \<circ> snd) common;
            sz = Suc (length common);
            pot_rx = shifted_pots l xs; pot_ry = shifted_pots r ys;
            gx = graph_perm (map Some (0 # xs)) (adapt_view (dbm_g l));
            gy = graph_perm (map Some (0 # ys)) (adapt_view (dbm_g r))
        in case reclose gx (deferred_relations gx gy sz) pot_rx of
             None \<Rightarrow> None
           | Some g_rx \<Rightarrow>
          (case reclose gy (deferred_relations gy gx sz) pot_ry of
             None \<Rightarrow> None
           | Some g_ry \<Rightarrow>
               let join_g = graph_join (adapt_view g_rx) (adapt_view g_ry);
                   verts = v_verts (sub_graph gx 0);
                   ub_up = bounds_moved (<) (v_lookup gx 0) (v_lookup gy 0) verts;
                   ub_down = bounds_moved (\<lambda>wx wy. wy < wx) (v_lookup gx 0) (v_lookup gy 0) verts;
                   lb_down = bounds_moved (<) (\<lambda>v. v_lookup gx v 0) (\<lambda>v. v_lookup gy v 0) verts;
                   lb_up = bounds_moved (\<lambda>wx wy. wy < wx) (\<lambda>v. v_lookup gx v 0) (\<lambda>v. v_lookup gy v 0) verts;
                   join_g = add_independent gx gy lb_down ub_down (add_independent gx gy lb_up ub_up join_g)
               in normalize (collect_garbage
                    \<lparr>vert_map = renumber vs, rev_map = None # map Some vs, dbm_g = join_g, potential = pot_rx, unstable = []\<rparr>)))"

definition dbm_widen :: "SplitDBM \<Rightarrow> SplitDBM \<Rightarrow> SplitDBM out" where
  "dbm_widen z o2 =
     (let common = common_vars z o2;
          vs = map fst common; xs = map (fst \<circ> snd) common; ys = map (snd \<circ> snd) common;
          gx = graph_perm (map Some (0 # xs)) (adapt_view (dbm_g z));
          gy = graph_perm (map Some (0 # ys)) (adapt_view (dbm_g o2));
          (widen_g, widen_unstable) = graph_widen gx gy (unstable z)
      in normalize \<lparr>vert_map = renumber vs, rev_map = None # map Some vs, dbm_g = widen_g, potential = shifted_pots z xs, unstable = widen_unstable\<rparr>)"

definition dbm_narrow :: "SplitDBM \<Rightarrow> SplitDBM \<Rightarrow> SplitDBM" where
  "dbm_narrow z o2 = (if dbm_is_top z then o2 else z)"

text \<open>The variables of the meet: those of the left state in order, then the others of the right state.\<close>

definition dbm_meet :: "SplitDBM \<Rightarrow> SplitDBM \<Rightarrow> SplitDBM option out" where
  "dbm_meet z o2 =
     (if dbm_is_top z then ret (Some o2)
      else if dbm_is_top o2 then ret (Some z)
      else
        let extra = filter (\<lambda>(v, n). om_lookup (vert_map z) v = None) (vert_map o2);
            vs = map fst (vert_map z) @ map fst extra;
            perm_x = Some 0 # map (Some \<circ> snd) (vert_map z) @ map (\<lambda>_. None) extra;
            perm_y = Some 0 # map (\<lambda>(v, n). om_lookup (vert_map o2) v) (vert_map z) @ map (Some \<circ> snd) extra;
            meet_pi = shifted_pots z (map snd (vert_map z)) @ map (\<lambda>(v, n). potential o2 ! n - potential o2 ! 0) extra;
            meet_verts = fold (\<lambda>(v, n). om_update v n) (renumber vs) [];
            gx = graph_perm perm_x (adapt_view (dbm_g z));
            gy = graph_perm perm_y (adapt_view (dbm_g o2));
            meet_g = graph_meet gx gy
        in case select_potentials (adapt_view meet_g) meet_pi of
             None \<Rightarrow> None
           | Some None \<Rightarrow> ret None
           | Some (Some pi1) \<Rightarrow>
          (case close_after_meet (sub_graph (adapt_view meet_g) 0) (\<lambda>v. pi1 ! v) gx gy of
             None \<Rightarrow> None
           | Some delta \<Rightarrow>
               let g = apply_delta meet_g delta;
                   g = apply_delta g (close_after_assign (adapt_view g) (\<lambda>v. pi1 ! v) 0)
               in obind (normalize \<lparr>vert_map = meet_verts, rev_map = None # map Some vs, dbm_g = g, potential = pi1, unstable = []\<rparr>)
                    (\<lambda>z. ret (Some z))))"

section \<open>Queries\<close>

definition intersect :: "SplitDBM \<Rightarrow> LinearConstraint \<Rightarrow> bool out" where
  "intersect z cst =
     (if is_contradiction cst then ret False
      else if dbm_is_top z \<or> is_tautology cst then ret True
      else obind (add_constraint cst z) (\<lambda>r. ret (r \<noteq> None)))"

definition entail_aux :: "SplitDBM \<Rightarrow> LinearConstraint \<Rightarrow> bool out" where
  "entail_aux z cst = obind (add_constraint (lc_negate cst) z) (\<lambda>r. ret (r = None))"

definition interval_entails :: "Interval \<Rightarrow> ConstraintKind \<Rightarrow> bool" where
  "interval_entails i k =
     (case k of
        EQUALS_ZERO \<Rightarrow> iv_singleton i = Some 0
      | LESS_THAN_OR_EQUALS_ZERO \<Rightarrow> ext_le (iv_ub i) (ext_of 0)
      | LESS_THAN_ZERO \<Rightarrow> ext_lt (iv_ub i) (ext_of 0)
      | NOT_ZERO \<Rightarrow> ext_lt (iv_ub i) (ext_of 0) \<or> ext_gt (iv_lb i) (ext_of 0))"

definition entail :: "SplitDBM \<Rightarrow> LinearConstraint \<Rightarrow> bool out" where
  "entail z rhs =
     (if is_tautology rhs then ret True
      else if is_contradiction rhs then ret False
      else obind (Some (eval_interval z (lc_expression rhs))) (\<lambda>i.
        if interval_entails i (lc_kind rhs) then ret True
        else if lc_kind rhs = EQUALS_ZERO then
          obind (entail_aux z \<lparr>lc_expression = lc_expression rhs, lc_kind = LESS_THAN_OR_EQUALS_ZERO\<rparr>) (\<lambda>b.
            if b then entail_aux z \<lparr>lc_expression = le_negate (lc_expression rhs), lc_kind = LESS_THAN_OR_EQUALS_ZERO\<rparr> else ret False)
        else entail_aux z rhs))"

definition implies :: "SplitDBM \<Rightarrow> LinearConstraint \<Rightarrow> LinearConstraint \<Rightarrow> bool out" where
  "implies z premise1 conclusion1 =
     obind (add_constraint premise1 z) (\<lambda>r. case r of None \<Rightarrow> ret True | Some z \<Rightarrow> entail z conclusion1)"

end
