(* ===== verification/Zone_State.thy ===== *)
theory Zone_State
  imports Split_Dbm
begin

text \<open>
  The invariant of a zone and the states it stands for. \<open>V\<close> is a set of variables that the zone may
  mention, small enough for the vertex numbers to fit the 16-bit keys of the graph. \<open>X\<close> holds the
  vertices that do not stand for a variable yet, which only occurs inside an assignment.
\<close>

section \<open>Invariant and meaning\<close>

definition dbm_shape :: "Variable set \<Rightarrow> VertId set \<Rightarrow> SplitDBM \<Rightarrow> bool" where
  "dbm_shape V X z \<longleftrightarrow>
     graph_inv (dbm_g z) \<and> length (rev_map z) = g_size (dbm_g z) \<and> length (potential z) = g_size (dbm_g z) \<and>
     0 < g_size (dbm_g z) \<and> rev_map z ! 0 = None \<and> om_wf (vert_map z) \<and> unstable z = [] \<and>
     (\<forall>n. live (dbm_g z) n \<longleftrightarrow> n < g_size (dbm_g z) \<and> (n = 0 \<or> rev_map z ! n \<noteq> None)) \<and>
     (\<forall>v n. om_lookup (vert_map z) v = Some n \<longleftrightarrow> n < g_size (dbm_g z) \<and> rev_map z ! n = Some v \<and> n \<notin> X) \<and>
     X \<subseteq> {n. live (dbm_g z) n} - {0} \<and> finite V \<and> card V + card X < 2 ^ 16 \<and> dom (om_lookup (vert_map z)) \<subseteq> V"

definition models :: "SplitDBM \<Rightarrow> (Variable \<Rightarrow> int) \<Rightarrow> (VertId \<Rightarrow> int) \<Rightarrow> bool" where
  "models z \<sigma> val \<longleftrightarrow> val 0 = 0 \<and> sat val (edge_of (dbm_g z)) \<and> (\<forall>v n. om_lookup (vert_map z) v = Some n \<longrightarrow> val n = \<sigma> v)"

definition dbm_sat :: "SplitDBM \<Rightarrow> (Variable \<Rightarrow> int) \<Rightarrow> bool" where
  "dbm_sat z \<sigma> \<longleftrightarrow> (\<exists>val. models z \<sigma> val)"

definition zone_inv :: "Variable set \<Rightarrow> SplitDBM \<Rightarrow> bool" where
  "zone_inv V z \<longleftrightarrow> dbm_shape V {} z \<and> sat (pot_fun z) (edge_of (dbm_g z))"

lemma shapeD:
  assumes "dbm_shape V X z"
  shows shape_graph: "graph_inv (dbm_g z)" and shape_rev: "length (rev_map z) = g_size (dbm_g z)"
    and shape_pot: "length (potential z) = g_size (dbm_g z)" and shape_zero: "live (dbm_g z) 0"
    and shape_om: "om_wf (vert_map z)" and shape_stable: "unstable z = []"
    and shape_live: "live (dbm_g z) n \<longleftrightarrow> n < g_size (dbm_g z) \<and> (n = 0 \<or> rev_map z ! n \<noteq> None)"
    and shape_lookup: "om_lookup (vert_map z) v = Some n \<longleftrightarrow> n < g_size (dbm_g z) \<and> rev_map z ! n = Some v \<and> n \<notin> X"
    and shape_vert: "om_lookup (vert_map z) v = Some n \<Longrightarrow> live (dbm_g z) n \<and> n \<noteq> 0 \<and> n \<notin> X"
    and shape_special: "n \<in> X \<Longrightarrow> live (dbm_g z) n"
    and shape_var: "om_lookup (vert_map z) v = Some n \<Longrightarrow> v \<in> V"
    and shape_inj: "om_lookup (vert_map z) v = Some n \<Longrightarrow> om_lookup (vert_map z) u = Some n \<Longrightarrow> u = v"
  using assms unfolding dbm_shape_def by (auto simp: domIff) force+

lemma dbm_shapeI:
  assumes "graph_inv g" "length rm = g_size g" "length ps = g_size g" "0 < g_size g" "rm ! 0 = None" "om_wf vm"
    "\<And>n. live g n \<longleftrightarrow> n < g_size g \<and> (n = 0 \<or> rm ! n \<noteq> None)"
    "\<And>v n. om_lookup vm v = Some n \<longleftrightarrow> n < g_size g \<and> rm ! n = Some v \<and> n \<notin> X"
    "X \<subseteq> {n. live g n} - {0}" "finite V" "card V + card X < 2 ^ 16" "dom (om_lookup vm) \<subseteq> V"
  shows "dbm_shape V X \<lparr>vert_map = vm, rev_map = rm, dbm_g = g, potential = ps, unstable = []\<rparr>"
  unfolding dbm_shape_def using assms(11) by (simp del: not_None_eq add: assms(1-10,12))

lemma shape_cases:
  assumes "dbm_shape V X z" "live (dbm_g z) n"
  obtains "n = 0" | "n \<in> X" | v where "om_lookup (vert_map z) v = Some n"
  using assms by (auto simp: shape_live[OF assms(1)] shape_lookup[OF assms(1)])

lemma sat_live_cong:
  assumes "graph_inv g" "\<And>n. live g n \<Longrightarrow> val n = val' n" "sat val (edge_of g)"
  shows "sat val' (edge_of g)"
  using assms unfolding sat_def by (metis edge_of_live)

lemma zone_top: "finite V \<Longrightarrow> card V < 2 ^ 16 \<Longrightarrow> zone_inv V dbm_top \<and> (\<forall>\<sigma>. dbm_sat dbm_top \<sigma>)"
proof -
  assume V: "finite V" "card V < 2 ^ 16"
  note g = growTo_empty[of 1, simplified]
  have "models dbm_top \<sigma> (\<lambda>_. 0)" for \<sigma> using g by (simp add: models_def dbm_top_def sat_def)
  then show ?thesis using g V by (auto simp: zone_inv_def dbm_shape_def dbm_top_def dbm_sat_def sat_def om_wf_def)
qed

section \<open>Vertices\<close>

text \<open>A graph without free vertex has one vertex for zero, for each variable and for each element of \<open>X\<close>.\<close>

lemma shape_room:
  assumes s: "dbm_shape V X z" and full: "free_id (dbm_g z) = []" and new: "dom (om_lookup (vert_map z)) \<subset> V \<or> card V + card X + 1 < 2 ^ 16"
  shows "g_size (dbm_g z) < 2 ^ 16"
proof -
  let ?D = "dom (om_lookup (vert_map z))" and ?f = "\<lambda>v. the (om_lookup (vert_map z) v)"
  have V: "finite V" "?D \<subseteq> V" "card V + card X < 2 ^ 16" using s by (auto simp: dbm_shape_def)
  have "live (dbm_g z) n" if "n < g_size (dbm_g z)" for n
    using shape_graph[OF s] full that by (auto simp: live_def graph_inv_def free_inv_def)
  then have "n = 0 \<or> n \<in> X \<or> n \<in> ?f ` ?D" if "n < g_size (dbm_g z)" for n
    by (rule shape_cases[OF s]) (use that in \<open>force simp: image_iff\<close>)+
  then have "{..<g_size (dbm_g z)} \<subseteq> insert 0 (?f ` ?D \<union> X)" by blast
  moreover have fin: "finite X" using shape_graph[OF s] s by (auto simp: dbm_shape_def live_def intro: finite_subset[of _ "{..<g_size (dbm_g z)}"])
  moreover have "finite ?D" using V finite_subset by blast
  ultimately have "g_size (dbm_g z) \<le> card (insert 0 (?f ` ?D \<union> X))" using card_mono[of "insert 0 (?f ` ?D \<union> X)" "{..<g_size (dbm_g z)}"] by simp
  also have "\<dots> \<le> Suc (card (?f ` ?D) + card X)" using card_Un_le[of "?f ` ?D" X] card_insert_le_m1[of "Suc (card (?f ` ?D \<union> X))" "?f ` ?D \<union> X" 0] by simp
  also have "\<dots> \<le> Suc (card ?D + card X)" using card_image_le[OF \<open>finite ?D\<close>, of ?f] by simp
  finally have "g_size (dbm_g z) \<le> Suc (card ?D + card X)" .
  moreover have "card ?D \<le> card V" "?D \<subset> V \<Longrightarrow> card ?D < card V" using V card_mono[of V ?D] psubset_card_mono[of V ?D] by blast+
  ultimately show ?thesis using new V(3) by linarith
qed


text \<open>A new vertex, recorded for the variable \<open>v\<close> with potential \<open>p\<close>.\<close>

lemma new_vertex_arrays:
  assumes s: "dbm_shape V X z" and room: "free_id (dbm_g z) = [] \<Longrightarrow> g_size (dbm_g z) < 2 ^ 16" and g: "new_vertex (dbm_g z) = (n, g)"
    and rm_def: "rm = (if n < length (rev_map z) then (rev_map z)[n := Some v] else rev_map z @ [Some v])"
    and ps_def: "ps = (if n < length (rev_map z) then (potential z)[n := p] else potential z @ [p])"
  shows "graph_inv g" "edge_of g = edge_of (dbm_g z)" "live g = (live (dbm_g z))(n := True)" "\<not> live (dbm_g z) n" "n \<noteq> 0" "n \<notin> X"
    "length rm = g_size g" "length ps = g_size g" "rm ! n = Some v" "ps ! n = p" "rm ! 0 = None" "0 < g_size g"
    "live (dbm_g z) m \<Longrightarrow> rm ! m = rev_map z ! m" "live (dbm_g z) m \<Longrightarrow> ps ! m = potential z ! m"
    "live g m \<longleftrightarrow> m < g_size g \<and> (m = 0 \<or> rm ! m \<noteq> None)"
    "m < g_size g \<and> rm ! m = Some u \<longleftrightarrow> m = n \<and> u = v \<or> m < g_size (dbm_g z) \<and> rev_map z ! m = Some u"
proof -
  note nv = new_vertex_ok[OF shape_graph[OF s] room g]
  then show "graph_inv g" "edge_of g = edge_of (dbm_g z)" "live g = (live (dbm_g z))(n := True)" "\<not> live (dbm_g z) n" "0 < g_size g" by auto
  show n: "n \<noteq> 0" "n \<notin> X" using nv s by (auto simp: dbm_shape_def)
  have sz: "m < g_size g \<longleftrightarrow> m < g_size (dbm_g z) \<or> m = n" for m using nv by auto
  show rm: "length rm = g_size g" "rm ! n = Some v" using nv shape_rev[OF s] by (auto simp: rm_def nth_append max_def)
  show ps: "length ps = g_size g" "ps ! n = p" using nv shape_rev[OF s] shape_pot[OF s] by (auto simp: ps_def nth_append max_def)
  have rm': "rm ! m = rev_map z ! m" if "m \<noteq> n" "m < g_size (dbm_g z)" for m using that shape_rev[OF s] by (auto simp: rm_def nth_append)
  show "rm ! 0 = None" using rm'[of 0] n(1) s by (auto simp: dbm_shape_def)
  show "rm ! m = rev_map z ! m" if "live (dbm_g z) m" using that nv by (intro rm') (auto simp: live_def)
  show "ps ! m = potential z ! m" if "live (dbm_g z) m" using that nv shape_rev[OF s] shape_pot[OF s] by (cases "m = n") (auto simp: ps_def nth_append live_def)
  have rn: "n < g_size (dbm_g z) \<Longrightarrow> rev_map z ! n = None" using nv shape_live[OF s, of n] by auto
  show "live g m \<longleftrightarrow> m < g_size g \<and> (m = 0 \<or> rm ! m \<noteq> None)" using nv shape_live[OF s, of m] rm(2) rm'[of m] sz[of m] by (cases "m = n") auto
  show "m < g_size g \<and> rm ! m = Some u \<longleftrightarrow> m = n \<and> u = v \<or> m < g_size (dbm_g z) \<and> rev_map z ! m = Some u"
    using rm(2) rm'[of m] sz[of m] rn by (cases "m = n") auto
qed

lemma get_vert_ok:
  assumes s: "dbm_shape V X z" and v: "v \<in> V" and r: "get_vert v z = (n, z')"
  shows "dbm_shape V X z'" "om_lookup (vert_map z') = (om_lookup (vert_map z))(v \<mapsto> n)" "edge_of (dbm_g z') = edge_of (dbm_g z)"
    "om_lookup (vert_map z) v = None \<Longrightarrow> \<not> live (dbm_g z) n"
    "om_lookup (vert_map z) v = None \<Longrightarrow> potential z' ! n = 0" "\<And>m. live (dbm_g z) m \<Longrightarrow> potential z' ! m = potential z ! m"
    "\<And>m. live (dbm_g z) m \<Longrightarrow> rev_map z' ! m = rev_map z ! m"
proof -
  have "dbm_shape V X z' \<and> om_lookup (vert_map z') = (om_lookup (vert_map z))(v \<mapsto> n) \<and> edge_of (dbm_g z') = edge_of (dbm_g z) \<and>
    (om_lookup (vert_map z) v = None \<longrightarrow> \<not> live (dbm_g z) n \<and> potential z' ! n = 0) \<and>
    (\<forall>m. live (dbm_g z) m \<longrightarrow> potential z' ! m = potential z ! m \<and> rev_map z' ! m = rev_map z ! m)"
  proof (cases "om_lookup (vert_map z) v")
    case None
    obtain g where g: "new_vertex (dbm_g z) = (n, g)" using r None by (auto simp: get_vert_def Let_def split: prod.splits)
    define rm where "rm = (if n < length (rev_map z) then (rev_map z)[n := Some v] else rev_map z @ [Some v])"
    define ps where "ps = (if n < length (rev_map z) then (potential z)[n := 0] else potential z @ [0])"
    have z': "z' = z\<lparr>dbm_g := g, vert_map := om_update v n (vert_map z), potential := ps, rev_map := rm\<rparr>"
      using r None g by (auto simp: get_vert_def rm_def ps_def split: if_splits)
    have "dom (om_lookup (vert_map z)) \<subset> V" using s v None by (auto simp: dbm_shape_def)
    then have room: "free_id (dbm_g z) = [] \<Longrightarrow> g_size (dbm_g z) < 2 ^ 16" using shape_room[OF s] by blast
    note nv = new_vertex_arrays[OF s room g rm_def ps_def]
    have lk: "om_lookup (om_update v n (vert_map z)) = (om_lookup (vert_map z))(v \<mapsto> n)" using om_lookup_update[OF shape_om[OF s]] .
    have "((om_lookup (vert_map z))(v \<mapsto> n)) u = Some m \<longleftrightarrow> m < g_size g \<and> rm ! m = Some u \<and> m \<notin> X" for u m
      using nv(16)[of m u] shape_lookup[OF s, of u m] shape_lookup[OF s, of v m] None nv(6) by auto
    moreover have "X \<subseteq> {m. live g m} - {0}" "dom ((om_lookup (vert_map z))(v \<mapsto> n)) \<subseteq> V" "finite V" "card V + card X < 2 ^ 16"
      using s nv(3) v by (auto simp: dbm_shape_def)
    ultimately have "dbm_shape V X \<lparr>vert_map = om_update v n (vert_map z), rev_map = rm, dbm_g = g, potential = ps, unstable = []\<rparr>"
      using nv(1,7,8,11,12,15) by (intro dbm_shapeI) (simp_all only: lk om_wf_update shape_om[OF s])
    then have "dbm_shape V X z'" using shape_stable[OF s] by (cases z) (simp add: z')
    then show ?thesis using nv(2,4,10,13,14) by (simp add: z' lk)
  qed (use r s in \<open>auto simp: get_vert_def fun_upd_idem\<close>)
  then show "dbm_shape V X z'" "om_lookup (vert_map z') = (om_lookup (vert_map z))(v \<mapsto> n)" "edge_of (dbm_g z') = edge_of (dbm_g z)"
    "om_lookup (vert_map z) v = None \<Longrightarrow> \<not> live (dbm_g z) n"
    "om_lookup (vert_map z) v = None \<Longrightarrow> potential z' ! n = 0" "\<And>m. live (dbm_g z) m \<Longrightarrow> potential z' ! m = potential z ! m"
    "\<And>m. live (dbm_g z) m \<Longrightarrow> rev_map z' ! m = rev_map z ! m" by blast+
qed

lemma get_vert_models:
  assumes s: "dbm_shape V X z" and v: "v \<in> V" and r: "get_vert v z = (n, z')"
  shows "models z \<sigma> val \<Longrightarrow> models z' \<sigma> (val(n := \<sigma> v))" "models z \<sigma> val \<Longrightarrow> live (dbm_g z) m \<Longrightarrow> (val(n := \<sigma> v)) m = val m"
    "sat (pot_fun z) (edge_of (dbm_g z)) \<Longrightarrow> sat (pot_fun z') (edge_of (dbm_g z'))"
    "pot_value z' u = pot_value z u" "potential z' ! 0 = potential z ! 0" "live (dbm_g z) m \<Longrightarrow> live (dbm_g z') m"
    "om_lookup (vert_map z) u = Some k \<Longrightarrow> om_lookup (vert_map z') u = Some k"
proof -
  note g = get_vert_ok[OF s v r]
  show kept: "om_lookup (vert_map z') u = Some k" if "om_lookup (vert_map z) u = Some k" for u k
  proof (cases "om_lookup (vert_map z) v")
    case None
    with that show ?thesis unfolding g(2) by (cases "u = v") simp_all
  next
    case (Some m)
    then have "z' = z" using r by (simp add: get_vert_def)
    with that show ?thesis by simp
  qed
  have lv: "n \<noteq> 0" "live (dbm_g z') n" using shape_vert[OF g(1), of v n] g(2) by auto
  have old: "om_lookup (vert_map z) v = Some n" if "live (dbm_g z) n" using g(4) that r by (cases "om_lookup (vert_map z) v") (auto simp: get_vert_def)
  show keep: "(val(n := \<sigma> v)) m = val m" if "models z \<sigma> val" "live (dbm_g z) m" for m using old that by (auto simp: models_def)
  show "models z' \<sigma> (val(n := \<sigma> v))" if m: "models z \<sigma> val"
  proof -
    have "sat (val(n := \<sigma> v)) (edge_of (dbm_g z))"
      by (rule sat_live_cong[OF shape_graph[OF s], of val]) (use m keep in \<open>auto simp: models_def\<close>)
    moreover have "k = n \<Longrightarrow> u = v" if "om_lookup (vert_map z) u = Some k" "u \<noteq> v" for u k
      using shape_inj[OF g(1), of v n u] that by (auto simp: g(2))
    ultimately show ?thesis using m lv(1) by (auto simp: models_def g(2,3))
  qed
  show "sat (pot_fun z') (edge_of (dbm_g z'))" if "sat (pot_fun z) (edge_of (dbm_g z))"
    unfolding g(3) by (rule sat_live_cong[OF shape_graph[OF s] _ that]) (simp add: g(6))
  show "pot_value z' u = pot_value z u"
  proof (cases "om_lookup (vert_map z) u")
    case (Some k)
    then have "om_lookup (vert_map z') u = Some k" by (rule kept)
    then show ?thesis using Some g(6) shape_vert[OF s Some] by (simp add: pot_value_def)
  qed (use g(5) in \<open>auto simp: pot_value_def g(2)\<close>)
  show "potential z' ! 0 = potential z ! 0" using g(6) shape_zero[OF s] .
  show "live (dbm_g z') m" if "live (dbm_g z) m"
  proof (rule shape_cases[OF s that])
    fix u assume "om_lookup (vert_map z) u = Some m"
    then have "om_lookup (vert_map z') u = Some m" by (rule kept)
    then show ?thesis using shape_vert[OF g(1)] by blast
  qed (use shape_zero[OF g(1)] shape_special[OF g(1)] in blast)+
qed


section \<open>Bounds and values of expressions\<close>

lemma get_lb_ok:
  assumes "dbm_shape V X z"
  shows "get_lb z x = minus_infinity \<or> (\<exists>k n. get_lb z x = ext_of (- k) \<and> om_lookup (vert_map z) x = Some n \<and> edge_of (dbm_g z) n 0 = Some k)"
proof (cases "om_lookup (vert_map z) x")
  case (Some n)
  then have "live (dbm_g z) n" using shape_vert[OF assms] by blast
  then have "g_elem (dbm_g z) n 0 \<longleftrightarrow> edge_of (dbm_g z) n 0 \<noteq> None" using g_elem_edge[OF shape_graph[OF assms]] shape_zero[OF assms] by blast
  then show ?thesis using Some g_edge_val_edge[OF shape_graph[OF assms]]
    by (cases "edge_of (dbm_g z) n 0") (simp_all add: get_lb_def get_vertid_def)
qed (simp add: get_lb_def get_vertid_def)

lemma get_ub_ok:
  assumes "dbm_shape V X z"
  shows "get_ub z x = plus_infinity \<or> (\<exists>k n. get_ub z x = ext_of k \<and> om_lookup (vert_map z) x = Some n \<and> edge_of (dbm_g z) 0 n = Some k)"
proof (cases "om_lookup (vert_map z) x")
  case (Some n)
  then have "live (dbm_g z) n" using shape_vert[OF assms] by blast
  then have "g_elem (dbm_g z) 0 n \<longleftrightarrow> edge_of (dbm_g z) 0 n \<noteq> None" using g_elem_edge[OF shape_graph[OF assms]] shape_zero[OF assms] by blast
  then show ?thesis using Some g_edge_val_edge[OF shape_graph[OF assms]]
    by (cases "edge_of (dbm_g z) 0 n") (simp_all add: get_ub_def get_vertid_def)
qed (simp add: get_ub_def get_vertid_def)

lemma get_bounds_sound:
  assumes s: "dbm_shape V X z" and m: "dbm_sat z \<sigma>"
  shows "ext_abs (get_lb z x) \<le> Fin (\<sigma> x)" "Fin (\<sigma> x) \<le> ext_abs (get_ub z x)"
proof -
  obtain val where val: "val 0 = 0" "sat val (edge_of (dbm_g z))" "\<And>n. om_lookup (vert_map z) x = Some n \<Longrightarrow> val n = \<sigma> x"
    using m by (auto simp: dbm_sat_def models_def)
  show "ext_abs (get_lb z x) \<le> Fin (\<sigma> x)" using get_lb_ok[OF s, of x] val by (auto dest: satD)
  show "Fin (\<sigma> x) \<le> ext_abs (get_ub z x)" using get_ub_ok[OF s, of x] val by (auto dest: satD)
qed

lemma bounds_wf: "dbm_shape V X z \<Longrightarrow> ext_wf (get_lb z x) \<and> ext_wf (get_ub z x) \<and> ext_abs (get_lb z x) \<noteq> PInf \<and> ext_abs (get_ub z x) \<noteq> MInf"
  using get_lb_ok[of V X z x] get_ub_ok[of V X z x] by auto

lemma get_interval_ok:
  assumes "dbm_shape V X z"
  shows "iv_wf (get_interval z x)" "dbm_sat z \<sigma> \<Longrightarrow> \<sigma> x \<in> iv_gamma (get_interval z x)"
  using bounds_wf[OF assms, of x] get_bounds_sound[OF assms, of \<sigma> x] by (auto simp: get_interval_def iv_wf_make iv_make_memI)

lemma eval_interval_ok:
  assumes s: "dbm_shape V X z"
  shows "\<exists>i. eval_interval z e = Inr i \<and> iv_wf i \<and> (\<forall>\<sigma>. dbm_sat z \<sigma> \<longrightarrow> le_eval \<sigma> e \<in> iv_gamma i)"
proof -
  let ?f = "\<lambda>(v, c) r. iv_add r (iv_mul (iv_of c) (get_interval z v))"
  have "\<exists>i. rfold ?f ts r = Inr i \<and> iv_wf i \<and> (\<forall>\<sigma>. dbm_sat z \<sigma> \<longrightarrow> a \<sigma> + terms_eval \<sigma> ts \<in> iv_gamma i)"
    if "iv_wf r" "\<forall>\<sigma>. dbm_sat z \<sigma> \<longrightarrow> a \<sigma> \<in> iv_gamma r" for ts r and a :: "(Variable \<Rightarrow> int) \<Rightarrow> int"
    using that
  proof (induction ts arbitrary: r a)
    case (Cons t ts)
    obtain v c where t: "t = (v, c)" by (cases t)
    have m: "iv_wf (iv_mul (iv_of c) (get_interval z v))" "dbm_sat z \<sigma> \<Longrightarrow> c * \<sigma> v \<in> iv_gamma (iv_mul (iv_of c) (get_interval z v))" for \<sigma>
      using iv_mul_ok[of "iv_of c" "get_interval z v"] get_interval_ok(1)[OF s, of v] get_interval_ok(2)[OF s, of _ v] by auto
    obtain r' where r': "iv_add r (iv_mul (iv_of c) (get_interval z v)) = Inr r'" "iv_wf r'" "\<And>\<sigma>. dbm_sat z \<sigma> \<Longrightarrow> a \<sigma> + c * \<sigma> v \<in> iv_gamma r'"
      using iv_add_ok[OF Cons.prems(1) m(1)] m(2) Cons.prems(2) by blast
    show ?case using Cons.IH[of r' "\<lambda>\<sigma>. a \<sigma> + c * \<sigma> v"] r' by (auto simp: t add.assoc)
  qed auto
  from this[of "iv_of (constant_term e)" "\<lambda>_. constant_term e"] show ?thesis by (simp add: eval_interval_def le_eval_def)
qed

section \<open>Changing the graph\<close>

lemma shape_graph_upd:
  assumes "dbm_shape V X z" "graph_inv g" "live g = live (dbm_g z)" "g_size g = g_size (dbm_g z)" "length p = length (potential z)"
  shows "dbm_shape V X (z\<lparr>dbm_g := g, potential := p\<rparr>)"
  using assms unfolding dbm_shape_def by simp

lemma adapt_verts: "graph_inv g \<Longrightarrow> set (v_verts (adapt_view g)) = {v. live g v}"
  by (simp add: adapt_view_def)

lemma excl_verts: "graph_inv g \<Longrightarrow> set (v_verts (sub_graph (adapt_view g) 0)) = {v. live g v \<and> v \<noteq> 0}"
  by (auto simp: adapt_view_def sub_graph_def)

lemma sat_without: "sat val E \<Longrightarrow> sat val (without v E)"
  by (auto simp: sat_def without_def)

text \<open>Applying consequences of the constraints.\<close>

lemma apply_implied:
  assumes "graph_inv g" "delta_ok E vs delta" "vs \<subseteq> {v. live g v}" "\<And>val. sat val (edge_of g) \<Longrightarrow> sat val E"
  shows "extends g (apply_delta g delta)"
  using apply_delta_ok[OF assms(1,2)] assms(3,4) by (auto simp: extends_def)

lemma assign_closure:
  assumes "graph_inv g" "live g v"
  shows "extends g (apply_delta g (close_after_assign (adapt_view g) p v))"
    "v \<noteq> 0 \<Longrightarrow> extends g (apply_delta g (close_after_assign (sub_graph (adapt_view g) 0) p v))"
  using apply_implied[OF assms(1) close_after_assign_ok[OF adapt_view_ok[OF assms(1)], of v p]]
    apply_implied[OF assms(1) close_after_assign_ok[OF sub_graph_ok[OF adapt_view_ok[OF assms(1)]], of v 0 p]] assms
  by (auto simp: adapt_verts excl_verts sat_without)

lemma normalize_stable [simp]: "unstable z = [] \<Longrightarrow> normalize z = ret z"
  by (simp add: normalize_def)

lemma extends_zone:
  assumes "zone_inv V z" "extends (dbm_g z) g"
  shows "zone_inv V (z\<lparr>dbm_g := g\<rparr>)" "models z \<sigma> val \<Longrightarrow> models (z\<lparr>dbm_g := g\<rparr>) \<sigma> val" "dbm_sat z \<sigma> \<Longrightarrow> dbm_sat (z\<lparr>dbm_g := g\<rparr>) \<sigma>"
  using assms shape_graph_upd[of V "{}" z g "potential z"] by (auto simp: zone_inv_def extends_def dbm_sat_def models_def)

end
