(* ===== verification/Zone_Constraints.thy ===== *)
theory Zone_Constraints
  imports Zone_State
begin

text \<open>
  Adding constraints to a zone. A step narrows a zone with respect to a condition when it returns, keeps the
  invariant, and keeps every state that satisfies the condition; it may answer bottom only when no state of the
  zone does. The steps of \<open>add_constraint\<close> are composed with the rules for sequences and loops.
\<close>

section \<open>Steps that narrow a zone\<close>

definition narrows :: "(SplitDBM \<Rightarrow> bool) \<Rightarrow> ((Variable \<Rightarrow> int) \<Rightarrow> bool) \<Rightarrow> SplitDBM option out \<Rightarrow> SplitDBM \<Rightarrow> bool" where
  "narrows I P m z \<longleftrightarrow> (\<exists>r. m = ret r \<and> (\<forall>z'. r = Some z' \<longrightarrow> I z') \<and>
     (\<forall>\<sigma>. dbm_sat z \<sigma> \<longrightarrow> P \<sigma> \<longrightarrow> (\<exists>z'. r = Some z' \<and> dbm_sat z' \<sigma>)))"

lemma narrows_ret: "I z' \<Longrightarrow> (\<And>\<sigma>. dbm_sat z \<sigma> \<Longrightarrow> P \<sigma> \<Longrightarrow> dbm_sat z' \<sigma>) \<Longrightarrow> narrows I P (ret (Some z')) z"
  by (simp add: narrows_def)

lemma narrows_bottom: "(\<And>\<sigma>. dbm_sat z \<sigma> \<Longrightarrow> \<not> P \<sigma>) \<Longrightarrow> narrows I P (ret None) z"
  by (auto simp: narrows_def)

lemma narrows_weaken:
  "narrows I P m z1 \<Longrightarrow> (\<And>z'. I z' \<Longrightarrow> J z') \<Longrightarrow> (\<And>\<sigma>. dbm_sat z \<sigma> \<Longrightarrow> Q \<sigma> \<Longrightarrow> dbm_sat z1 \<sigma> \<and> P \<sigma>) \<Longrightarrow> narrows J Q m z"
  unfolding narrows_def by (elim exE conjE, intro exI conjI) auto

lemma narrows_cases:
  assumes "narrows I P m z"
  obtains (bottom) "m = ret None" "\<And>\<sigma>. dbm_sat z \<sigma> \<Longrightarrow> \<not> P \<sigma>"
    | (zone) z' where "m = ret (Some z')" "I z'" "\<And>\<sigma>. dbm_sat z \<sigma> \<Longrightarrow> P \<sigma> \<Longrightarrow> dbm_sat z' \<sigma>"
proof -
  from assms obtain r where "m = ret r" "\<forall>z'. r = Some z' \<longrightarrow> I z'" "\<forall>\<sigma>. dbm_sat z \<sigma> \<longrightarrow> P \<sigma> \<longrightarrow> (\<exists>z'. r = Some z' \<and> dbm_sat z' \<sigma>)"
    unfolding narrows_def by blast
  then show thesis using bottom zone by (cases r) auto
qed

lemma zbind_ret [simp]: "zbind (ret None) f = ret None" "zbind (ret (Some z)) f = f z"
  by (simp_all add: zbind_def obind_def)

lemma narrows_bind:
  assumes "narrows I P m z" "\<And>z'. I z' \<Longrightarrow> narrows J P (f z') z'"
  shows "narrows J P (zbind m f) z"
proof -
  obtain r where r: "m = ret r" "\<And>z'. r = Some z' \<Longrightarrow> I z'" "\<And>\<sigma>. dbm_sat z \<sigma> \<Longrightarrow> P \<sigma> \<Longrightarrow> \<exists>z'. r = Some z' \<and> dbm_sat z' \<sigma>"
    using assms(1) unfolding narrows_def by blast
  show ?thesis
  proof (cases r)
    case None
    then show ?thesis using r by (auto intro!: narrows_bottom)
  next
    case (Some z1)
    then have "narrows J P (f z1) z1" "zbind m f = f z1" using assms(2) r by auto
    then show ?thesis using r(3) Some by (auto intro: narrows_weaken)
  qed
qed

lemma narrows_fold:
  assumes "\<And>x z. x \<in> set xs \<Longrightarrow> I z \<Longrightarrow> narrows I P (f x z) z" "I z"
  shows "narrows I P (zfold f xs z) z"
  using assms
proof (induction xs arbitrary: z)
  case (Cons x xs)
  then show ?case by (auto intro!: narrows_bind)
qed (auto intro: narrows_ret)

section \<open>One edge\<close>

text \<open>A new bound on one edge, after which the potentials are repaired.\<close>

lemma repair_narrows:
  assumes z: "zone_inv V z" and e: "graph_inv g" "live g = live (dbm_g z)" "g_size g = g_size (dbm_g z)" "edge_of g = edge_upd (edge_of (dbm_g z)) s d w"
    and P: "\<And>\<sigma> val. models z \<sigma> val \<Longrightarrow> P \<sigma> \<Longrightarrow> val d \<le> val s + w"
  shows "narrows (\<lambda>z'. zone_inv V z' \<and> vert_map z' = vert_map z \<and> live (dbm_g z') = live (dbm_g z) \<and> edge_of (dbm_g z') = edge_of g) P
    (dbm_repair_potential s d (z\<lparr>dbm_g := g\<rparr>)) z"
proof -
  have s: "dbm_shape V {} z" and p: "sat (pot_fun z) (edge_of (dbm_g z))" using z by (auto simp: zone_inv_def)
  have ex: "edges_except s d (potential z) (edge_of g)" using p by (auto simp: edges_except_def e(4) edge_upd_def sat_def)
  have len: "v < length (potential z)" if "v \<in> set (v_verts (adapt_view g))" for v
    using that shape_pot[OF s] by (auto simp: adapt_verts[OF e(1)] e(2) live_def)
  obtain b p' where r: "repair_potential (adapt_view g) (potential z) s d = Some (b, p')" "length p' = length (potential z)"
      "if b then sat (\<lambda>v. p' ! v) (edge_of g) else p' = potential z \<and> (\<forall>val. \<not> sat val (edge_of g))"
    using repair_potential_ok[OF adapt_view_ok[OF e(1)] _ ex len, of w] e(4) by auto
  have sat: "models (z\<lparr>dbm_g := g, potential := q\<rparr>) \<sigma> val" if "models z \<sigma> val" "P \<sigma>" for \<sigma> val q
    using that P[OF that] by (auto simp: models_def e(4) intro: sat_edge_upd)
  show ?thesis
  proof (cases b)
    case True
    have "zone_inv V (z\<lparr>dbm_g := g, potential := p'\<rparr>)" using shape_graph_upd[OF s e(1,2,3) r(2)] r(3) True by (simp add: zone_inv_def)
    moreover have "dbm_sat (z\<lparr>dbm_g := g, potential := p'\<rparr>) \<sigma>" if "dbm_sat z \<sigma>" "P \<sigma>" for \<sigma> using sat that by (fastforce simp: dbm_sat_def)
    ultimately show ?thesis using True e(2) by (auto simp: dbm_repair_potential_def r(1) intro!: narrows_ret)
  next
    case False
    moreover have "sat val (edge_of g)" if "models z \<sigma> val" "P \<sigma>" for \<sigma> val using sat[OF that, of "potential z"] by (simp add: models_def)
    ultimately have "\<not> P \<sigma>" if "dbm_sat z \<sigma>" for \<sigma> using r(3) that unfolding dbm_sat_def by auto
    then show ?thesis using False by (auto simp: dbm_repair_potential_def r(1) intro!: narrows_bottom)
  qed
qed

text \<open>Both forms of the update.\<close>

lemma set_narrows:
  assumes "zone_inv V z" "live (dbm_g z) s" "live (dbm_g z) d" "\<And>\<sigma> val. models z \<sigma> val \<Longrightarrow> P \<sigma> \<Longrightarrow> val d \<le> val s + w"
  shows "narrows (\<lambda>z'. zone_inv V z' \<and> vert_map z' = vert_map z \<and> live (dbm_g z') = live (dbm_g z) \<and> (\<exists>k. edge_of (dbm_g z') s d = Some k)) P
    (dbm_repair_potential s d (z\<lparr>dbm_g := set_edge s w d (dbm_g z)\<rparr>)) z"
proof -
  have "graph_inv (dbm_g z)" using assms(1) by (auto simp: zone_inv_def shape_graph)
  from set_edge_ok[OF this assms(2,3) refl, of w]
  show ?thesis by (auto intro!: narrows_weaken[OF repair_narrows[OF assms(1) _ _ _ _ assms(4)]])
qed

lemma update_narrows:
  assumes "zone_inv V z" "live (dbm_g z) s" "live (dbm_g z) d" "\<And>\<sigma> val. models z \<sigma> val \<Longrightarrow> P \<sigma> \<Longrightarrow> val d \<le> val s + w"
  shows "narrows (\<lambda>z'. zone_inv V z' \<and> vert_map z' = vert_map z \<and> live (dbm_g z') = live (dbm_g z) \<and> (\<exists>k. edge_of (dbm_g z') s d = Some k)) P
    (dbm_repair_potential s d (z\<lparr>dbm_g := update_edge s w d (dbm_g z)\<rparr>)) z"
proof -
  have g: "graph_inv (dbm_g z)" using assms(1) by (auto simp: zone_inv_def shape_graph)
  have "val d \<le> val s + min_weight (edge_of (dbm_g z) s d) w" if "models z \<sigma> val" "P \<sigma>" for \<sigma> val
    using assms(4)[OF that] that satD[of val "edge_of (dbm_g z)" s d] by (auto simp: models_def min_weight_def min_def split: option.splits)
  with update_edge_ok[OF g assms(2,3) refl, of w]
  show ?thesis by (auto intro!: narrows_weaken[OF repair_narrows[OF assms(1)]])
qed


section \<open>Bounds and differences\<close>

lemma get_vert_zone:
  assumes z: "zone_inv V z" and v: "v \<in> V" and r: "get_vert v z = (n, z1)"
  shows "zone_inv V z1" "live (dbm_g z1) n" "n \<noteq> 0" "om_lookup (vert_map z1) v = Some n" "dbm_sat z \<sigma> \<Longrightarrow> dbm_sat z1 \<sigma>"
    "om_lookup (vert_map z1) = (om_lookup (vert_map z))(v \<mapsto> n)" "edge_of (dbm_g z1) = edge_of (dbm_g z)"
    "live (dbm_g z) m \<Longrightarrow> live (dbm_g z1) m" "om_lookup (vert_map z) u = Some m \<Longrightarrow> om_lookup (vert_map z1) u = Some m"
proof -
  have s: "dbm_shape V {} z" using z by (simp add: zone_inv_def)
  note g = get_vert_ok[OF s v r] and m = get_vert_models[OF s v r]
  show "zone_inv V z1" using z g(1) m(3) by (simp add: zone_inv_def)
  show l: "om_lookup (vert_map z1) v = Some n" by (simp add: g(2))
  show "live (dbm_g z1) n" "n \<noteq> 0" using shape_vert[OF g(1) l] by auto
  show "dbm_sat z \<sigma> \<Longrightarrow> dbm_sat z1 \<sigma>" using m(1) by (auto simp: dbm_sat_def)
  show "om_lookup (vert_map z1) = (om_lookup (vert_map z))(v \<mapsto> n)" "edge_of (dbm_g z1) = edge_of (dbm_g z)" by (rule g(2), rule g(3))
  show "live (dbm_g z) m \<Longrightarrow> live (dbm_g z1) m" by (rule m(6))
  show "om_lookup (vert_map z) u = Some m \<Longrightarrow> om_lookup (vert_map z1) u = Some m" by (rule m(7))
qed

lemma zoneD:
  assumes "zone_inv V z"
  shows zone_shape: "dbm_shape V {} z" and zone_zero: "live (dbm_g z) 0" and zone_graph: "graph_inv (dbm_g z)" and zone_stable: "unstable z = []"
    and zone_pot: "sat (pot_fun z) (edge_of (dbm_g z))"
  using assms by (auto simp: zone_inv_def intro: shape_zero shape_graph shape_stable)

lemma lower_bound_narrows:
  assumes "zone_inv V z" "v \<in> V" "\<And>\<sigma>. P \<sigma> \<Longrightarrow> n \<le> \<sigma> v"
  shows "narrows (zone_inv V) P (add_lower_bound (v, n) z) z"
proof -
  obtain vert z1 where r: "get_vert v z = (vert, z1)" by fastforce
  note g = get_vert_zone[OF assms(1,2) r]
  have "narrows (zone_inv V) P (dbm_repair_potential vert 0 (z1\<lparr>dbm_g := set_edge vert (- n) 0 (dbm_g z1)\<rparr>)) z1"
    by (rule narrows_weaken[OF set_narrows[OF g(1,2) zone_zero[OF g(1)], where P = P]]) (use g(4) assms(3) in \<open>auto simp: models_def\<close>)
  then have "narrows (zone_inv V) P (dbm_repair_potential vert 0 (z1\<lparr>dbm_g := set_edge vert (- n) 0 (dbm_g z1)\<rparr>)) z"
    by (rule narrows_weaken) (use g(5) in auto)
  then show ?thesis using g(1,5) by (auto simp: add_lower_bound_def r split: option.splits intro!: narrows_ret)
qed

lemma upper_bound_narrows:
  assumes "zone_inv V z" "v \<in> V" "\<And>\<sigma>. P \<sigma> \<Longrightarrow> \<sigma> v \<le> n"
  shows "narrows (zone_inv V) P (add_upper_bound (v, n) z) z"
proof -
  obtain vert z1 where r: "get_vert v z = (vert, z1)" by fastforce
  note g = get_vert_zone[OF assms(1,2) r]
  have "narrows (zone_inv V) P (dbm_repair_potential 0 vert (z1\<lparr>dbm_g := set_edge 0 n vert (dbm_g z1)\<rparr>)) z1"
    by (rule narrows_weaken[OF set_narrows[OF g(1) zone_zero[OF g(1)] g(2), where P = P]]) (use g(4) assms(3) in \<open>auto simp: models_def\<close>)
  then have "narrows (zone_inv V) P (dbm_repair_potential 0 vert (z1\<lparr>dbm_g := set_edge 0 n vert (dbm_g z1)\<rparr>)) z"
    by (rule narrows_weaken) (use g(5) in auto)
  then show ?thesis using g(1,5) by (auto simp: add_upper_bound_def r split: option.splits intro!: narrows_ret)
qed

lemma difference_narrows:
  assumes "zone_inv V z" "x \<in> V" "y \<in> V" "\<And>\<sigma>. P \<sigma> \<Longrightarrow> \<sigma> x - \<sigma> y \<le> k"
  shows "narrows (zone_inv V) P (add_difference ((x, y), k) z) z"
proof -
  obtain src z1 where r1: "get_vert y z = (src, z1)" by fastforce
  note g1 = get_vert_zone[OF assms(1,3) r1]
  obtain dest z2 where r2: "get_vert x z1 = (dest, z2)" by fastforce
  note g2 = get_vert_zone[OF g1(1) assms(2) r2]
  have src: "live (dbm_g z2) src" using g2(8) g1(2) .
  have "om_lookup (vert_map z2) y = Some src" using g1(4) by (rule g2(9))
  then have "val dest \<le> val src + k" if "models z2 \<sigma> val" "P \<sigma>" for \<sigma> val using that assms(4)[of \<sigma>] g2(4) by (auto simp: models_def)
  note u = update_narrows[OF g2(1) src g2(2) this]
  have "narrows (zone_inv V) P (add_difference ((x, y), k) z) z2"
    unfolding add_difference_def r1 r2 Let_def prod.case
  proof (rule narrows_bind[OF u])
    fix z' assume z': "zone_inv V z' \<and> vert_map z' = vert_map z2 \<and> live (dbm_g z') = live (dbm_g z2) \<and> (\<exists>k. edge_of (dbm_g z') src dest = Some k)"
    then have "extends (dbm_g z') (close_over_edge (dbm_g z') src dest)"
      using close_over_edge_ok[of "dbm_g z'" src dest] g1(3) g2(3) by (auto simp: zone_inv_def shape_graph)
    then show "narrows (zone_inv V) P (ret (Some (z'\<lparr>dbm_g := close_over_edge (dbm_g z') src dest\<rparr>))) z'"
      using z' extends_zone[of V z'] by (auto intro!: narrows_ret)
  qed
  then show ?thesis by (rule narrows_weaken) (use g1(5) g2(5) in auto)
qed

section \<open>Linear inequalities\<close>

definition le_vars :: "LinearExpression \<Rightarrow> Variable set" where
  "le_vars e = fst ` set (variable_terms e)"

lemma le_vars_sub: "le_vars (plus_number e k) \<subseteq> le_vars e" "le_vars (le_negate e) \<subseteq> le_vars e"
  by (force simp: le_vars_def plus_number_def le_negate_def le_multiply_def le_make_def)+


definition slack_lb :: "(Variable \<Rightarrow> int) \<Rightarrow> (int \<times> Variable \<times> int) list \<Rightarrow> int" where
  "slack_lb \<sigma> ps = (\<Sum>(c, v, k)\<leftarrow>ps. c * (\<sigma> v - k))"

definition slack_ub :: "(Variable \<Rightarrow> int) \<Rightarrow> (int \<times> Variable \<times> int) list \<Rightarrow> int" where
  "slack_ub \<sigma> ns = (\<Sum>(c, v, k)\<leftarrow>ns. c * (k - \<sigma> v))"

definition opt_term :: "(Variable \<Rightarrow> int) \<Rightarrow> (Variable \<times> int) option \<Rightarrow> int" where
  "opt_term \<sigma> t = (case t of None \<Rightarrow> 0 | Some (x, c) \<Rightarrow> c * \<sigma> x)"

definition leq_value :: "(Variable \<Rightarrow> int) \<Rightarrow> Leq_State \<Rightarrow> int" where
  "leq_value \<sigma> st = opt_term \<sigma> (unbounded_lb st) - opt_term \<sigma> (unbounded_ub st) + slack_lb \<sigma> (pos_terms st) + slack_ub \<sigma> (neg_terms st) - exp_ub st"

text \<open>The terms seen so far have positive coefficients, variables of the expression, and bounds that hold.\<close>

definition leq_ok :: "Variable set \<Rightarrow> (Variable \<Rightarrow> int) \<Rightarrow> Leq_State \<Rightarrow> bool" where
  "leq_ok V \<sigma> st \<longleftrightarrow>
     (\<forall>(c, v, k) \<in> set (pos_terms st). 0 < c \<and> v \<in> V \<and> k \<le> \<sigma> v) \<and> (\<forall>(c, v, k) \<in> set (neg_terms st). 0 < c \<and> v \<in> V \<and> \<sigma> v \<le> k) \<and>
     (\<forall>x c. unbounded_lb st = Some (x, c) \<longrightarrow> 0 < c \<and> x \<in> V) \<and> (\<forall>x c. unbounded_ub st = Some (x, c) \<longrightarrow> 0 < c \<and> x \<in> V)"

lemma finite_bounds_hold:
  assumes s: "dbm_shape V X z" and m: "dbm_sat z \<sigma>"
  shows "\<not> is_infinite (get_lb z y) \<Longrightarrow> ext_n (get_lb z y) \<le> \<sigma> y" "\<not> is_infinite (get_ub z y) \<Longrightarrow> \<sigma> y \<le> ext_n (get_ub z y)"
    "iv_ub (get_interval z y) = get_ub z y" "iv_lb (get_interval z y) = get_lb z y"
proof -
  note b = get_bounds_sound[OF s m, of y] and w = bounds_wf[OF s, of y]
  show "\<not> is_infinite (get_lb z y) \<Longrightarrow> ext_n (get_lb z y) \<le> \<sigma> y" "\<not> is_infinite (get_ub z y) \<Longrightarrow> \<sigma> y \<le> ext_n (get_ub z y)"
    using b by (simp_all add: ext_abs_def)
  have "ext_abs (get_lb z y) \<le> ext_abs (get_ub z y)" using b order_trans by blast
  then show "iv_ub (get_interval z y) = get_ub z y" "iv_lb (get_interval z y) = get_lb z y"
    using w by (simp_all add: get_interval_def iv_make_bounds)
qed

lemma leq_terms_ok:
  assumes s: "dbm_shape V X z" and m: "dbm_sat z \<sigma>"
  shows "leq_terms z ts st = Some st' \<Longrightarrow> leq_ok U \<sigma> st \<Longrightarrow> \<forall>(v, c) \<in> set ts. c \<noteq> 0 \<and> v \<in> U \<Longrightarrow>
    leq_ok U \<sigma> st' \<and> leq_value \<sigma> st' = leq_value \<sigma> st + terms_eval \<sigma> ts"
proof (induction ts arbitrary: st)
  case (Cons t ts)
  obtain y coeff where t: "t = (y, coeff)" by (cases t)
  note b = finite_bounds_hold[OF s m, of y]
  define lb ub where "lb = get_lb z y" and "ub = get_ub z y"
  have y: "y \<in> U" "coeff \<noteq> 0" using Cons.prems(3) by (auto simp: t)
  define st1 where "st1 =
     (if coeff > 0 then
        if is_infinite lb then st\<lparr>unbounded_lb := Some (y, coeff)\<rparr>
        else st\<lparr>exp_ub := exp_ub st - ext_n lb * coeff, pos_terms := pos_terms st @ [(coeff, y, ext_n lb)]\<rparr>
      else if is_infinite ub then st\<lparr>unbounded_ub := Some (y, - coeff)\<rparr>
        else st\<lparr>exp_ub := exp_ub st - ext_n ub * coeff, neg_terms := neg_terms st @ [(- coeff, y, ext_n ub)]\<rparr>)"
  have r: "leq_terms z ts st1 = Some st'" "coeff > 0 \<and> is_infinite lb \<Longrightarrow> unbounded_lb st = None" "\<not> coeff > 0 \<and> is_infinite ub \<Longrightarrow> unbounded_ub st = None"
    using Cons.prems(1) by (auto simp: t b(3) st1_def lb_def ub_def Let_def simp del: not_None_eq split: if_splits)
  have "leq_ok U \<sigma> st1" using Cons.prems(2) y b(1,2) by (auto simp: st1_def leq_ok_def lb_def ub_def)
  moreover have "leq_value \<sigma> st1 = leq_value \<sigma> st + coeff * \<sigma> y" using r(2,3)
    by (auto simp: st1_def leq_value_def opt_term_def slack_lb_def slack_ub_def algebra_simps)
  ultimately show ?case using Cons.IH[OF r(1)] Cons.prems(3) by (simp add: t)
qed simp

text \<open>The bounds that follow from one term of a sum whose terms are not negative.\<close>

lemma slack_nonneg:
  assumes "leq_ok U \<sigma> st"
  shows "0 \<le> slack_lb \<sigma> (pos_terms st)" "0 \<le> slack_ub \<sigma> (neg_terms st)"
    "(c, v, k) \<in> set (pos_terms st) \<Longrightarrow> c * (\<sigma> v - k) \<le> slack_lb \<sigma> (pos_terms st)"
    "(c, v, k) \<in> set (neg_terms st) \<Longrightarrow> c * (k - \<sigma> v) \<le> slack_ub \<sigma> (neg_terms st)"
proof -
  have p: "\<forall>x \<in> set (map (\<lambda>(c, v, k). c * (\<sigma> v - k)) (pos_terms st)). 0 \<le> x" using assms by (auto simp: leq_ok_def)
  have n: "\<forall>x \<in> set (map (\<lambda>(c, v, k). c * (k - \<sigma> v)) (neg_terms st)). 0 \<le> x" using assms by (auto simp: leq_ok_def)
  have *: "\<forall>x \<in> set xs. (0::int) \<le> x \<Longrightarrow> 0 \<le> sum_list xs \<and> (\<forall>x \<in> set xs. x \<le> sum_list xs)" for xs
    by (induction xs) auto
  show "0 \<le> slack_lb \<sigma> (pos_terms st)" "0 \<le> slack_ub \<sigma> (neg_terms st)" using *[OF p] *[OF n] by (simp_all add: slack_lb_def slack_ub_def)
  show "(c, v, k) \<in> set (pos_terms st) \<Longrightarrow> c * (\<sigma> v - k) \<le> slack_lb \<sigma> (pos_terms st)"
    "(c, v, k) \<in> set (neg_terms st) \<Longrightarrow> c * (k - \<sigma> v) \<le> slack_ub \<sigma> (neg_terms st)"
    using *[OF p] *[OF n] by (fastforce simp: slack_lb_def slack_ub_def)+
qed

lemma trunc_bounds:
  assumes "0 < (c::int)"
  shows "c * x \<le> b \<Longrightarrow> x \<le> b sdiv c" "b \<le> c * x \<Longrightarrow> b sdiv c \<le> x"
proof -
  have "(c * y) sdiv c = y" if "0 \<le> y" for y using sdiv_eq_div_pos[of "c * y" c] that assms by simp
  from this[of x] this[of "- x"] have "(c * x) sdiv c = x" using sdiv_neg_left[of "c * x" c] by (cases "0 \<le> x") auto
  then show "c * x \<le> b \<Longrightarrow> x \<le> b sdiv c" "b \<le> c * x \<Longrightarrow> b sdiv c \<le> x"
    using sdiv_mono_pos[of "c * x" b c] sdiv_mono_pos[of b "c * x" c] assms by auto
qed

lemma mult_ge_self: "0 < (c::int) \<Longrightarrow> 0 \<le> d \<Longrightarrow> d \<le> c * d"
  using mult_right_mono[of 1 c d] by simp

definition diffcsts_vars :: "Variable set \<Rightarrow> Diffcsts \<Rightarrow> bool" where
  "diffcsts_vars U cs \<longleftrightarrow> fst ` set (dc_lbs cs) \<subseteq> U \<and> fst ` set (dc_ubs cs) \<subseteq> U \<and> fst ` set (dc_csts cs) \<subseteq> U \<times> U"

definition diffcsts_hold :: "(Variable \<Rightarrow> int) \<Rightarrow> Diffcsts \<Rightarrow> bool" where
  "diffcsts_hold \<sigma> cs \<longleftrightarrow> (\<forall>(v, n) \<in> set (dc_lbs cs). n \<le> \<sigma> v) \<and> (\<forall>(v, n) \<in> set (dc_ubs cs). \<sigma> v \<le> n) \<and>
     (\<forall>((x, y), k) \<in> set (dc_csts cs). \<sigma> x - \<sigma> y \<le> k)"

lemma diffcsts_of_lin_leq_ok:
  assumes s: "dbm_shape V X z" and m: "dbm_sat z \<sigma>" and e: "le_wf e" "le_vars e \<subseteq> U"
  shows "diffcsts_vars U (diffcsts_of_lin_leq z e)" "le_eval \<sigma> e \<le> 0 \<Longrightarrow> diffcsts_hold \<sigma> (diffcsts_of_lin_leq z e)"
proof -
  let ?st0 = "\<lparr>exp_ub = - constant_term e, unbounded_lb = None, unbounded_ub = None, pos_terms = [], neg_terms = []\<rparr>"
  have ts: "\<forall>(v, c) \<in> set (variable_terms e). c \<noteq> 0 \<and> v \<in> U" using e by (force simp: le_wf_def le_vars_def)
  have "leq_ok U \<sigma> ?st0" "leq_value \<sigma> ?st0 = constant_term e" by (simp_all add: leq_ok_def leq_value_def opt_term_def slack_lb_def slack_ub_def)
  then have ok: "leq_ok U \<sigma> st" "leq_value \<sigma> st = le_eval \<sigma> e" if "leq_terms z (variable_terms e) ?st0 = Some st" for st
    using leq_terms_ok[OF s m that _ ts] by (auto simp: le_eval_def)
  show "diffcsts_vars U (diffcsts_of_lin_leq z e)"
  proof (cases "leq_terms z (variable_terms e) ?st0")
    case (Some st)
    then show ?thesis using ok(1)[OF Some] by (fastforce simp: diffcsts_vars_def diffcsts_of_lin_leq_def leq_ok_def split: option.splits)
  qed (simp add: diffcsts_vars_def diffcsts_of_lin_leq_def)
  assume e0: "le_eval \<sigma> e \<le> 0"
  show "diffcsts_hold \<sigma> (diffcsts_of_lin_leq z e)"
  proof (cases "leq_terms z (variable_terms e) ?st0")
    case (Some st)
    note ok = ok[OF Some]
    note sl = slack_nonneg[OF ok(1)]
    have le: "opt_term \<sigma> (unbounded_lb st) - opt_term \<sigma> (unbounded_ub st) + slack_lb \<sigma> (pos_terms st) + slack_ub \<sigma> (neg_terms st) \<le> exp_ub st"
      using ok(2) e0 by (simp add: leq_value_def)
    have pos: "0 < c" "\<sigma> v - k \<le> slack_lb \<sigma> (pos_terms st)" "c * (\<sigma> v - k) \<le> slack_lb \<sigma> (pos_terms st)" if "(c, v, k) \<in> set (pos_terms st)" for c v k
      using ok(1) that sl(3)[OF that] mult_ge_self[of c "\<sigma> v - k"] by (auto simp: leq_ok_def)
    have neg: "0 < c" "k - \<sigma> v \<le> slack_ub \<sigma> (neg_terms st)" "c * (k - \<sigma> v) \<le> slack_ub \<sigma> (neg_terms st)" if "(c, v, k) \<in> set (neg_terms st)" for c v k
      using ok(1) that sl(4)[OF that] mult_ge_self[of c "k - \<sigma> v"] by (auto simp: leq_ok_def)
    have lb: "0 < c" if "unbounded_lb st = Some (x, c)" for x c using ok(1) that by (auto simp: leq_ok_def)
    have ub: "0 < c" if "unbounded_ub st = Some (x, c)" for x c using ok(1) that by (auto simp: leq_ok_def)
    consider (both) x lc y uc where "unbounded_lb st = Some (x, lc)" "unbounded_ub st = Some (y, uc)"
      | (lower) x lc where "unbounded_lb st = Some (x, lc)" "unbounded_ub st = None"
      | (upper) y uc where "unbounded_lb st = None" "unbounded_ub st = Some (y, uc)"
      | (none) "unbounded_lb st = None" "unbounded_ub st = None"
      by (cases "unbounded_lb st"; cases "unbounded_ub st") auto
    then show ?thesis
    proof cases
      case both
      then show ?thesis using lb ub le sl(1,2) by (auto simp: diffcsts_hold_def diffcsts_of_lin_leq_def Some opt_term_def)
    next
      case lower
      have "\<sigma> x \<le> exp_ub st sdiv lc" using le sl(1,2) lb lower by (intro trunc_bounds) (auto simp: opt_term_def)
      moreover have "\<sigma> x - \<sigma> v \<le> exp_ub st - k" if "lc = 1" "(c, v, k) \<in> set (neg_terms st)" for c v k
        using neg[OF that(2)] le sl(1) lower that(1) by (simp add: opt_term_def)
      ultimately show ?thesis using lower by (auto simp: diffcsts_hold_def diffcsts_of_lin_leq_def Some)
    next
      case upper
      have "(- exp_ub st) sdiv uc \<le> \<sigma> y" using le sl(1,2) ub upper by (intro trunc_bounds) (auto simp: opt_term_def)
      moreover have "\<sigma> v - \<sigma> y \<le> exp_ub st + k" if "uc = 1" "(c, v, k) \<in> set (pos_terms st)" for c v k
        using pos[OF that(2)] le sl(2) upper that(1) by (simp add: opt_term_def)
      ultimately show ?thesis using upper by (auto simp: diffcsts_hold_def diffcsts_of_lin_leq_def Some)
    next
      case none
      have "(- exp_ub st) sdiv c \<le> \<sigma> v - k" if "(c, v, k) \<in> set (neg_terms st)" for c v k
        by (rule trunc_bounds) (use neg[OF that] le sl(1) none in \<open>auto simp: opt_term_def algebra_simps\<close>)
      moreover have "\<sigma> v - k \<le> exp_ub st sdiv c" if "(c, v, k) \<in> set (pos_terms st)" for c v k
        by (rule trunc_bounds) (use pos[OF that] le sl(2) none in \<open>auto simp: opt_term_def algebra_simps\<close>)
      moreover have "\<sigma> pv - \<sigma> nv \<le> exp_ub st - nk + pk" if "(nc, nv, nk) \<in> set (neg_terms st)" "(pc, pv, pk) \<in> set (pos_terms st)" for nc nv nk pc pv pk
        using neg(2)[OF that(1)] pos(2)[OF that(2)] le none by (simp add: opt_term_def)
      ultimately show ?thesis using none by (fastforce simp: diffcsts_hold_def diffcsts_of_lin_leq_def Some)
    qed
  qed (simp add: diffcsts_hold_def diffcsts_of_lin_leq_def)
qed


lemma zone_inhabited: "zone_inv V z \<Longrightarrow> \<exists>\<sigma>. dbm_sat z \<sigma>"
proof -
  assume z: "zone_inv V z"
  let ?val = "\<lambda>n. potential z ! n - potential z ! 0" and ?\<sigma> = "\<lambda>v. potential z ! the (om_lookup (vert_map z) v) - potential z ! 0"
  have "models z ?\<sigma> ?val" using z by (auto simp: models_def zone_inv_def sat_def)
  then show ?thesis by (auto simp: dbm_sat_def)
qed

lemma add_linear_leq_narrows:
  assumes z: "zone_inv V z" and e: "le_wf e" "le_vars e \<subseteq> V" and P: "\<And>\<sigma>. P \<sigma> \<Longrightarrow> le_eval \<sigma> e \<le> 0"
  shows "narrows (zone_inv V) P (add_linear_leq e z) z"
proof -
  have s: "dbm_shape V {} z" using z by (simp add: zone_inv_def)
  define cs where "cs = diffcsts_of_lin_leq z e"
  obtain \<sigma>0 where "dbm_sat z \<sigma>0" using zone_inhabited[OF z] by blast
  then have vars: "diffcsts_vars V cs" using diffcsts_of_lin_leq_ok(1)[OF s _ e] by (simp add: cs_def)
  define Q where "Q \<sigma> \<longleftrightarrow> dbm_sat z \<sigma> \<and> P \<sigma>" for \<sigma>
  have hold: "diffcsts_hold \<sigma> cs" if "Q \<sigma>" for \<sigma> using diffcsts_of_lin_leq_ok(2)[OF s _ e] P that by (simp add: cs_def Q_def)
  have cs: "(v, n) \<in> set (dc_lbs cs) \<Longrightarrow> v \<in> V" "(v, n) \<in> set (dc_ubs cs) \<Longrightarrow> v \<in> V"
      "((v, u), n) \<in> set (dc_csts cs) \<Longrightarrow> v \<in> V" "((v, u), n) \<in> set (dc_csts cs) \<Longrightarrow> u \<in> V"
      "(v, n) \<in> set (dc_lbs cs) \<Longrightarrow> Q \<sigma> \<Longrightarrow> n \<le> \<sigma> v" "(v, n) \<in> set (dc_ubs cs) \<Longrightarrow> Q \<sigma> \<Longrightarrow> \<sigma> v \<le> n"
      "((v, u), n) \<in> set (dc_csts cs) \<Longrightarrow> Q \<sigma> \<Longrightarrow> \<sigma> v - \<sigma> u \<le> n" for v u n \<sigma>
    using vars hold[of \<sigma>] by (auto simp: diffcsts_hold_def diffcsts_vars_def image_subset_iff)
  have "narrows (zone_inv V) Q (add_linear_leq e z) z" unfolding add_linear_leq_def Let_def cs_def[symmetric]
  proof (intro narrows_bind[where I = "zone_inv V"] narrows_fold z)
    show "narrows (zone_inv V) Q (add_lower_bound x z') z'" if "x \<in> set (dc_lbs cs)" "zone_inv V z'" for x z'
    proof -
      obtain v n where x: "x = (v, n)" by (cases x)
      show ?thesis using that cs by (auto simp: x intro!: lower_bound_narrows)
    qed
    show "narrows (zone_inv V) Q (add_upper_bound x z') z'" if "x \<in> set (dc_ubs cs)" "zone_inv V z'" for x z'
    proof -
      obtain v n where x: "x = (v, n)" by (cases x)
      show ?thesis using that cs by (auto simp: x intro!: upper_bound_narrows)
    qed
    show "narrows (zone_inv V) Q (add_difference x z') z'" if "x \<in> set (dc_csts cs)" "zone_inv V z'" for x z'
    proof -
      obtain u w k where x: "x = ((u, w), k)" by (metis surj_pair)
      show ?thesis using that cs by (auto simp: x intro!: difference_narrows)
    qed
    fix z' assume z': "zone_inv V z'"
    let ?g = "apply_delta (dbm_g z') (close_after_assign (adapt_view (dbm_g z')) (pot_fun z') 0)"
    have "extends (dbm_g z') ?g" using assign_closure(1)[OF zone_graph[OF z'] zone_zero[OF z']] .
    then show "narrows (zone_inv V) Q (obind (normalize (z'\<lparr>dbm_g := ?g\<rparr>)) (\<lambda>z. ret (Some z))) z'"
      using extends_zone[OF z'] zone_stable[OF z'] by (auto simp: obind_def intro!: narrows_ret)
  qed
  then show ?thesis by (rule narrows_weaken) (auto simp: Q_def)
qed


section \<open>Disequations\<close>

lemma compute_residual_ok:
  assumes s: "dbm_shape V X z"
  shows "\<exists>i. compute_residual z e x = Inr i \<and> iv_wf i \<and>
    (\<forall>\<sigma>. dbm_sat z \<sigma> \<longrightarrow> - constant_term e - terms_eval \<sigma> (filter (\<lambda>(v, c). v \<noteq> x) (variable_terms e)) \<in> iv_gamma i)"
proof -
  let ?f = "\<lambda>(v, c) r. if v \<noteq> x then iv_sub r (iv_mul (iv_of c) (get_interval z v)) else Inr r"
  have "\<exists>i. rfold ?f ts r = Inr i \<and> iv_wf i \<and> (\<forall>\<sigma>. dbm_sat z \<sigma> \<longrightarrow> a \<sigma> - terms_eval \<sigma> (filter (\<lambda>(v, c). v \<noteq> x) ts) \<in> iv_gamma i)"
    if "iv_wf r" "\<forall>\<sigma>. dbm_sat z \<sigma> \<longrightarrow> a \<sigma> \<in> iv_gamma r" for ts r and a :: "(Variable \<Rightarrow> int) \<Rightarrow> int"
    using that
  proof (induction ts arbitrary: r a)
    case (Cons t ts)
    obtain v c where t: "t = (v, c)" by (cases t)
    have m: "iv_wf (iv_mul (iv_of c) (get_interval z v))" "dbm_sat z \<sigma> \<Longrightarrow> c * \<sigma> v \<in> iv_gamma (iv_mul (iv_of c) (get_interval z v))" for \<sigma>
      using iv_mul_ok[of "iv_of c" "get_interval z v"] get_interval_ok(1)[OF s, of v] get_interval_ok(2)[OF s, of _ v] by auto
    obtain r' where r': "iv_sub r (iv_mul (iv_of c) (get_interval z v)) = Inr r'" "iv_wf r'" "\<And>\<sigma>. dbm_sat z \<sigma> \<Longrightarrow> a \<sigma> - c * \<sigma> v \<in> iv_gamma r'"
      using iv_sub_ok[OF Cons.prems(1) m(1)] m(2) Cons.prems(2) by blast
    show ?case using Cons.IH[of r' "\<lambda>\<sigma>. a \<sigma> - c * \<sigma> v"] Cons.IH[of r a] Cons.prems r' by (cases "v = x") (auto simp: t diff_diff_eq)
  qed auto
  from this[of "iv_of (- constant_term e)" "\<lambda>_. - constant_term e"] show ?thesis by (simp add: compute_residual_def)
qed

lemma residual_value:
  assumes "om_wf ts" "(x, c) \<in> set ts"
  shows "terms_eval \<sigma> ts = c * \<sigma> x + terms_eval \<sigma> (filter (\<lambda>(v, c). v \<noteq> x) ts)"
  using assms
proof (induction ts)
  case (Cons t ts)
  obtain v k where t: "t = (v, k)" by (cases t)
  show ?case
  proof (cases "v = x")
    case True
    then have "(x, d) \<notin> set ts" for d using Cons.prems(1) by (force simp: t om_wf_def)
    then have "filter (\<lambda>(v, c). v \<noteq> x) ts = ts" by (auto simp: filter_id_conv)
    then show ?thesis using Cons.prems True \<open>\<And>d. (x, d) \<notin> set ts\<close> by (auto simp: t)
  qed (use Cons in \<open>auto simp: t om_wf_def\<close>)
qed simp

text \<open>Division by a unit keeps the values.\<close>

lemma unit_division:
  assumes "iv_wf i" "i \<noteq> iv_bottom" "c = 1 \<or> c = -1"
  shows "\<exists>r. iv_div i (iv_of c) = Inr r \<and> (\<forall>k. iv_singleton r = Some k \<longrightarrow> i = iv_of (c * k))"
proof -
  have nb: "\<not> iv_is_bottom i" "\<not> iv_is_bottom (iv_of c)" "iv_singleton (iv_of c) = Some c"
    using assms by (simp_all add: iv_is_bottom_iff iv_singleton_iff)
  show ?thesis
  proof (cases "c = 1")
    case True
    then show ?thesis using nb assms(1) by (simp add: iv_div.simps[of i] iv_singleton_iff)
  next
    case False
    then have c: "c = -1" using assms(3) by simp
    have d: "ext_div (ext_of a) (ext_of (-1)) = Inr (ext_of (- a))" "ext_div plus_infinity (ext_of (-1)) = Inr plus_infinity"
      "ext_div minus_infinity (ext_of (-1)) = Inr minus_infinity" for a
      by (simp_all add: ext_div_def ext_AbsDiv_def num_div_def ext_of_def plus_infinity_def minus_infinity_def ext_make_def)
    have w: "ext_wf (iv_lb i)" "ext_wf (iv_ub i)" "lbx i \<le> ubx i" "lbx i \<noteq> PInf" "ubx i \<noteq> MInf" using assms(1,2) iv_wfD iv_wf_bounds by blast+
    have bot: "iv_singleton iv_bottom = None" by (simp add: iv_singleton_def iv_is_singleton_def iv_bottom_def ext_of_def)
    have lu: "iv_lb i = minus_infinity \<or> (\<exists>a. iv_lb i = ext_of a)" "iv_ub i = plus_infinity \<or> (\<exists>b. iv_ub i = ext_of b)"
      using w by (auto elim!: ext_wf_cases)
    show ?thesis
    proof (cases "(\<exists>a. iv_lb i = ext_of a) \<and> (\<exists>b. iv_ub i = ext_of b)")
      case True
      then obtain a b where ab: "iv_lb i = ext_of a" "iv_ub i = ext_of b" by blast
      then have "a \<le> b" using w(3) by simp
      then have "iv_div i (iv_of c) = Inr \<lparr>iv_lb = ext_of (- b), iv_ub = ext_of (- a)\<rparr>"
        using nb by (simp add: iv_div.simps[of i] c ab d iv_make_bounds)
      then show ?thesis using ab c by (cases i) (auto simp: iv_singleton_def iv_is_singleton_def iv_of_def ext_of_def ext_number_def)
    next
      case False
      then have "iv_div i (iv_of c) = Inr iv_bottom" using lu nb by (auto simp: iv_div.simps[of i] c d iv_make_empty)
      then show ?thesis using bot by simp
    qed
  qed
qed


text \<open>The value of a vertex is determined by the state.\<close>

lemma models_unique:
  assumes "dbm_shape V {} z" "models z \<sigma> val" "models z' \<sigma> val'" "vert_map z' = vert_map z" "live (dbm_g z) n"
  shows "val n = val' n"
  using assms(5) by (rule shape_cases[OF assms(1)]) (use assms(2-4) in \<open>auto simp: models_def\<close>)

abbreviation same_verts :: "Variable set \<Rightarrow> SplitDBM \<Rightarrow> SplitDBM \<Rightarrow> bool" where
  "same_verts V z z' \<equiv> zone_inv V z' \<and> vert_map z' = vert_map z \<and> live (dbm_g z') = live (dbm_g z)"

text \<open>Updating edges that follow from the constraints of \<open>z1\<close> and the condition.\<close>

lemma update_loop_narrows:
  assumes z1: "zone_inv V z1" and es: "\<And>u w. (u, w) \<in> set es \<Longrightarrow> live (dbm_g z1) (s u) \<and> live (dbm_g z1) (d u)"
    and P: "\<And>u w \<sigma> val. (u, w) \<in> set es \<Longrightarrow> models z1 \<sigma> val \<Longrightarrow> P \<sigma> \<Longrightarrow> val (d u) \<le> val (s u) + (w + k)"
  shows "narrows (same_verts V z1) P
    (zfold (\<lambda>(u, w) z. if u = 0 then ret (Some z) else dbm_repair_potential (s u) (d u) (z\<lparr>dbm_g := update_edge (s u) (w + k) (d u) (dbm_g z)\<rparr>)) es z1) z1"
proof -
  define Q where "Q \<sigma> \<longleftrightarrow> P \<sigma> \<and> dbm_sat z1 \<sigma>" for \<sigma>
  have "narrows (same_verts V z1) Q
    (zfold (\<lambda>(u, w) z. if u = 0 then ret (Some z) else dbm_repair_potential (s u) (d u) (z\<lparr>dbm_g := update_edge (s u) (w + k) (d u) (dbm_g z)\<rparr>)) es z1) z1"
  proof (rule narrows_fold)
    fix x z assume x: "x \<in> set es" and z: "same_verts V z1 z"
    obtain u w where e: "x = (u, w)" by (cases x)
    have l: "live (dbm_g z1) (s u)" "live (dbm_g z1) (d u)" using es x by (auto simp: e)
    have "val (d u) \<le> val (s u) + (w + k)" if m: "models z \<sigma> val" and q: "Q \<sigma>" for \<sigma> val
    proof -
      obtain val1 where v1: "models z1 \<sigma> val1" using q by (auto simp: Q_def dbm_sat_def)
      have "val1 n = val n" if "live (dbm_g z1) n" for n using models_unique[OF zone_shape[OF z1] v1 m] z that by simp
      then show ?thesis using P[OF x[unfolded e] v1] q l by (simp add: Q_def)
    qed
    then have "narrows (same_verts V z1) Q (dbm_repair_potential (s u) (d u) (z\<lparr>dbm_g := update_edge (s u) (w + k) (d u) (dbm_g z)\<rparr>)) z"
      by (intro narrows_weaken[OF update_narrows[of V z "s u" "d u" Q "w + k"]]) (use z l in auto)
    then show "narrows (same_verts V z1) Q ((case x of (u, w) \<Rightarrow> \<lambda>z. if u = 0 then ret (Some z)
        else dbm_repair_potential (s u) (d u) (z\<lparr>dbm_g := update_edge (s u) (w + k) (d u) (dbm_g z)\<rparr>)) z) z"
      using z by (auto simp: e intro!: narrows_ret)
  qed (use z1 in simp)
  then show ?thesis by (rule narrows_weaken) (auto simp: Q_def)
qed

lemma strengthen_lb_narrows:
  assumes z: "zone_inv V z" and v: "om_lookup (vert_map z) x = Some v" and P: "\<And>\<sigma>. P \<sigma> \<Longrightarrow> - k \<le> \<sigma> x"
  shows "narrows (same_verts V z) P (strengthen_lb v k z) z"
proof -
  have lv: "live (dbm_g z) v" using shape_vert[OF zone_shape[OF z] v] by blast
  have val: "val 0 \<le> val v + k" if "models z' \<sigma> val" "P \<sigma>" "vert_map z' = vert_map z" for z' \<sigma> val using that v P[of \<sigma>] by (auto simp: models_def)
  have "narrows (same_verts V z) P
      (zbind (dbm_repair_potential v 0 (z\<lparr>dbm_g := set_edge v k 0 (dbm_g z)\<rparr>)) (\<lambda>z.
         zfold (\<lambda>(u, w) z. if u = 0 then ret (Some z) else dbm_repair_potential u 0 (z\<lparr>dbm_g := update_edge u (w + k) 0 (dbm_g z)\<rparr>)) (g_e_preds (dbm_g z) v) z)) z"
  proof (rule narrows_bind[OF narrows_weaken[OF set_narrows[OF z lv zone_zero[OF z], of P k]]])
    fix z1 assume z1: "same_verts V z z1"
    have p: "set (g_e_preds (dbm_g z1) v) = {(u, w). edge_of (dbm_g z1) u v = Some w}" using g_e_preds_set(1)[of "dbm_g z1" v] z1 lv zone_graph by auto
    have "narrows (same_verts V z1) P
       (zfold (\<lambda>(u, w) z. if u = 0 then ret (Some z) else dbm_repair_potential u 0 (z\<lparr>dbm_g := update_edge u (w + k) 0 (dbm_g z)\<rparr>)) (g_e_preds (dbm_g z1) v) z1) z1"
    proof (rule update_loop_narrows)
      fix u w assume uw: "(u, w) \<in> set (g_e_preds (dbm_g z1) v)"
      then show "live (dbm_g z1) u \<and> live (dbm_g z1) 0" using p edge_of_live[of "dbm_g z1" u v w] z1 zone_graph zone_zero[OF z] by auto
      show "val 0 \<le> val u + (w + k)" if "models z1 \<sigma> val" "P \<sigma>" for \<sigma> val
        using val[OF that] z1 uw p satD[of val "edge_of (dbm_g z1)" u v w] that(1) by (auto simp: models_def)
    qed (use z1 in simp)
    then show "narrows (same_verts V z) P
       (zfold (\<lambda>(u, w) z. if u = 0 then ret (Some z) else dbm_repair_potential u 0 (z\<lparr>dbm_g := update_edge u (w + k) 0 (dbm_g z)\<rparr>)) (g_e_preds (dbm_g z1) v) z1) z1"
      by (rule narrows_weaken) (use z1 in auto)
  qed (use val in auto)
  then show ?thesis using z by (auto simp: strengthen_lb_def split: option.splits intro!: narrows_ret)
qed

lemma strengthen_ub_narrows:
  assumes z: "zone_inv V z" and v: "om_lookup (vert_map z) x = Some v" and P: "\<And>\<sigma>. P \<sigma> \<Longrightarrow> \<sigma> x \<le> k"
  shows "narrows (same_verts V z) P (strengthen_ub v k z) z"
proof -
  have lv: "live (dbm_g z) v" using shape_vert[OF zone_shape[OF z] v] by blast
  have val: "val v \<le> val 0 + k" if "models z' \<sigma> val" "P \<sigma>" "vert_map z' = vert_map z" for z' \<sigma> val using that v P[of \<sigma>] by (auto simp: models_def)
  have "narrows (same_verts V z) P
      (zbind (dbm_repair_potential 0 v (z\<lparr>dbm_g := set_edge 0 k v (dbm_g z)\<rparr>)) (\<lambda>z.
         zfold (\<lambda>(u, w) z. if u = 0 then ret (Some z) else dbm_repair_potential 0 u (z\<lparr>dbm_g := update_edge 0 (w + k) u (dbm_g z)\<rparr>)) (g_e_succs (dbm_g z) v) z)) z"
  proof (rule narrows_bind[OF narrows_weaken[OF set_narrows[OF z zone_zero[OF z] lv, of P k]]])
    fix z1 assume z1: "same_verts V z z1"
    have p: "set (g_e_succs (dbm_g z1) v) = {(u, w). edge_of (dbm_g z1) v u = Some w}" using g_e_succs_set(1)[of "dbm_g z1" v] z1 lv zone_graph by auto
    have "narrows (same_verts V z1) P
       (zfold (\<lambda>(u, w) z. if u = 0 then ret (Some z) else dbm_repair_potential 0 u (z\<lparr>dbm_g := update_edge 0 (w + k) u (dbm_g z)\<rparr>)) (g_e_succs (dbm_g z1) v) z1) z1"
    proof (rule update_loop_narrows)
      fix u w assume uw: "(u, w) \<in> set (g_e_succs (dbm_g z1) v)"
      then show "live (dbm_g z1) 0 \<and> live (dbm_g z1) u" using p edge_of_live[of "dbm_g z1" v u w] z1 zone_graph zone_zero[OF z] by auto
      show "val u \<le> val 0 + (w + k)" if "models z1 \<sigma> val" "P \<sigma>" for \<sigma> val
        using val[OF that] z1 uw p satD[of val "edge_of (dbm_g z1)" v u w] that(1) by (auto simp: models_def)
    qed (use z1 in simp)
    then show "narrows (same_verts V z) P
       (zfold (\<lambda>(u, w) z. if u = 0 then ret (Some z) else dbm_repair_potential 0 u (z\<lparr>dbm_g := update_edge 0 (w + k) u (dbm_g z)\<rparr>)) (g_e_succs (dbm_g z1) v) z1) z1"
      by (rule narrows_weaken) (use z1 in auto)
  qed (use val in auto)
  then show ?thesis using z by (auto simp: strengthen_ub_def split: option.splits intro!: narrows_ret)
qed


lemma trim_interval_ok:
  assumes "iv_wf i" "m \<in> iv_gamma i" "m \<noteq> n" "\<not> iv_is_top i"
  shows "iv_wf (trim_interval i n)" "m \<in> iv_gamma (trim_interval i n)"
proof -
  have w: "ext_wf (iv_lb i)" "ext_wf (iv_ub i)" "lbx i \<le> Fin m" "Fin m \<le> ubx i" using assms iv_wf_bounds iv_gammaD by blast+
  then have "iv_wf (trim_interval i n) \<and> m \<in> iv_gamma (trim_interval i n)"
    using assms by (auto simp: trim_interval_def intro!: iv_wf_make_nonempty[where n = m] iv_make_memI)
  then show "iv_wf (trim_interval i n)" "m \<in> iv_gamma (trim_interval i n)" by auto
qed

lemma normalize_narrows: "zone_inv V z \<Longrightarrow> narrows (zone_inv V) P (obind (normalize z) (\<lambda>z. ret (Some z))) z"
  by (auto simp: zone_stable obind_def intro!: narrows_ret)

lemma strengthen_none:
  assumes "graph_inv (dbm_g z)" "live (dbm_g z) v" "live (dbm_g z) 0"
  shows "edge_of (dbm_g z) v 0 = None \<Longrightarrow> strengthen_lb v k z = ret (Some z)" "edge_of (dbm_g z) 0 v = None \<Longrightarrow> strengthen_ub v k z = ret (Some z)"
  using assms by (simp_all add: strengthen_lb_def strengthen_ub_def g_lookup_edge)

lemma top_no_edges:
  assumes z: "zone_inv V z" and x: "x \<in> V" and r: "get_vert x z = (v, z1)" and top: "iv_is_top (get_interval z x)"
  shows "edge_of (dbm_g z1) v 0 = None \<and> edge_of (dbm_g z1) 0 v = None"
proof -
  obtain \<sigma> where m: "dbm_sat z \<sigma>" using zone_inhabited[OF z] by blast
  note s = zone_shape[OF z]
  note b = finite_bounds_hold(3,4)[OF s m, of x]
  have inf: "get_lb z x = minus_infinity" "get_ub z x = plus_infinity"
    using top get_lb_ok[OF s, of x] get_ub_ok[OF s, of x] by (auto simp: iv_is_top_def b ext_of_def)
  note g = get_vert_zone[OF z x r] get_vert_ok(4)[OF s x r]
  show ?thesis
  proof (cases "om_lookup (vert_map z) x")
    case None
    then have "\<not> live (dbm_g z) v" using g(10) by simp
    then show ?thesis using edge_of_live[OF zone_graph[OF z]] g(7) by (metis option.exhaust)
  next
    case (Some v')
    then have "v' = v" "z1 = z" using r by (auto simp: get_vert_def)
    moreover have "live (dbm_g z) v" using shape_vert[OF s Some] \<open>v' = v\<close> by blast
    ultimately show ?thesis using inf Some g_elem_edge[OF zone_graph[OF z]] zone_zero[OF z]
      by (auto simp: get_lb_def get_ub_def get_vertid_def minus_infinity_def plus_infinity_def ext_make_def ext_of_def split: if_splits)
  qed
qed

lemma univar_disequation_narrows:
  assumes z: "zone_inv V z" and x: "x \<in> V" and P: "\<And>\<sigma>. P \<sigma> \<Longrightarrow> \<sigma> x \<noteq> n"
  shows "narrows (zone_inv V) P (add_univar_disequation x n z) z"
proof -
  define i where "i = get_interval z x"
  define new_i where "new_i = trim_interval i n"
  define Q where "Q \<sigma> \<longleftrightarrow> P \<sigma> \<and> dbm_sat z \<sigma>" for \<sigma>
  obtain v z1 where r: "get_vert x z = (v, z1)" by fastforce
  note g = get_vert_zone[OF z x r]
  have iw: "iv_wf i" "dbm_sat z \<sigma> \<Longrightarrow> \<sigma> x \<in> iv_gamma i" for \<sigma> using get_interval_ok[OF zone_shape[OF z]] by (simp_all add: i_def)
  have mem: "iv_wf new_i" "\<sigma> x \<in> iv_gamma new_i" if "Q \<sigma>" "\<not> iv_is_top i" for \<sigma>
    using trim_interval_ok[OF iw(1) iw(2)[of \<sigma>] P[of \<sigma>] that(2)] that(1) by (auto simp: Q_def new_i_def)
  have bot: "\<not> iv_is_bottom new_i" if "iv_is_top i"
    using that by (auto simp: new_i_def trim_interval_def iv_is_top_def ext_of_def iv_is_bottom_def iv_make_def ext_gt_def ext_le_def)
      (use iw(1) that in \<open>auto simp: iv_is_top_def iv_wf_iff ext_abs_def ext_wf_def iv_bottom_def ext_of_def split: if_splits\<close>)
  have lb: "- (- ext_n (iv_lb new_i)) \<le> \<sigma> x" if "is_finite (iv_lb new_i)" "Q \<sigma>" "\<not> iv_is_top i" for \<sigma>
    using iv_gammaD[OF mem(2,1)[OF that(2,3)]] that(1) by (simp add: is_finite_def ext_abs_def)
  have ub: "\<sigma> x \<le> ext_n (iv_ub new_i)" if "is_finite (iv_ub new_i)" "Q \<sigma>" "\<not> iv_is_top i" for \<sigma>
    using iv_gammaD[OF mem(2,1)[OF that(2,3)]] that(1) by (simp add: is_finite_def ext_abs_def)
  have "narrows (zone_inv V) Q (add_univar_disequation x n z) z"
  proof (cases "iv_is_bottom new_i")
    case True
    then have "\<not> Q \<sigma>" for \<sigma> using bot mem[of \<sigma>] iv_is_bottom_iff[of new_i] iv_gamma_consts(1) by (cases "iv_is_top i") auto
    then show ?thesis using True by (auto simp: add_univar_disequation_def i_def new_i_def intro!: narrows_bottom)
  next
    case nb: False
    show ?thesis
    proof (cases "iv_is_top new_i \<or> \<not> iv_le new_i i")
      case True
      then show ?thesis using nb z by (auto simp: add_univar_disequation_def i_def[symmetric] new_i_def[symmetric] intro!: narrows_ret)
    next
      case False
      let ?m = "zbind (if is_finite (iv_lb new_i) then strengthen_lb v (- ext_n (iv_lb new_i)) z1 else ret (Some z1)) (\<lambda>z.
        zbind (if is_finite (iv_ub new_i) then strengthen_ub v (ext_n (iv_ub new_i)) z else ret (Some z)) (\<lambda>z.
          obind (normalize z) (\<lambda>z. ret (Some z))))"
      have eq: "add_univar_disequation x n z = ?m" using False nb unfolding add_univar_disequation_def Let_def i_def[symmetric] new_i_def[symmetric] r by simp
      have "narrows (zone_inv V) Q ?m z1"
      proof (cases "iv_is_top i")
        case True
        note e = top_no_edges[OF z x r True[unfolded i_def]]
        have "?m = obind (normalize z1) (\<lambda>z. ret (Some z))"
          using strengthen_none[OF zone_graph[OF g(1)] g(2) zone_zero[OF g(1)]] e by simp
        then show ?thesis using normalize_narrows[OF g(1)] by simp
      next
        case top: False
        show ?thesis
        proof (rule narrows_bind[where I = "same_verts V z1"])
          show "narrows (same_verts V z1) Q (if is_finite (iv_lb new_i) then strengthen_lb v (- ext_n (iv_lb new_i)) z1 else ret (Some z1)) z1"
            using strengthen_lb_narrows[OF g(1,4), of Q] lb top g(1) by (auto intro!: narrows_ret)
          fix z2 assume z2: "same_verts V z1 z2"
          then have "narrows (same_verts V z2) Q (if is_finite (iv_ub new_i) then strengthen_ub v (ext_n (iv_ub new_i)) z2 else ret (Some z2)) z2"
            using strengthen_ub_narrows[of V z2 x v Q] ub top g(4) by (auto intro!: narrows_ret)
          then show "narrows (zone_inv V) Q (zbind (if is_finite (iv_ub new_i) then strengthen_ub v (ext_n (iv_ub new_i)) z2 else ret (Some z2))
              (\<lambda>z. obind (normalize z) (\<lambda>z. ret (Some z)))) z2"
            by (rule narrows_bind) (simp add: normalize_narrows)
        qed
      qed
      then show ?thesis unfolding eq by (rule narrows_weaken) (use g(5) in auto)
    qed
  qed
  then show ?thesis by (rule narrows_weaken) (auto simp: Q_def)
qed


definition unit_coefficients :: "LinearExpression \<Rightarrow> bool" where
  "unit_coefficients e \<longleftrightarrow> (\<forall>(v, c) \<in> set (variable_terms e). c = 1 \<or> c = -1)"

lemma disequation_term_narrows:
  assumes z: "zone_inv V z" and e: "le_wf e" "le_vars e \<subseteq> V" "(x, c) \<in> set (variable_terms e)" "c = 1 \<or> c = -1"
    and P: "\<And>\<sigma>. P \<sigma> \<Longrightarrow> le_eval \<sigma> e \<noteq> 0"
  shows "narrows (zone_inv V) P (add_disequation_term e (x, c) z) z"
proof -
  obtain i where i: "compute_residual z e x = Inr i" "iv_wf i"
      "\<And>\<sigma>. dbm_sat z \<sigma> \<Longrightarrow> - constant_term e - terms_eval \<sigma> (filter (\<lambda>(v, c). v \<noteq> x) (variable_terms e)) \<in> iv_gamma i"
    using compute_residual_ok[OF zone_shape[OF z], of e x] by blast
  obtain \<sigma>0 where "dbm_sat z \<sigma>0" using zone_inhabited[OF z] by blast
  then have "i \<noteq> iv_bottom" using i(3) by fastforce
  then obtain r where r: "iv_div i (iv_of c) = Inr r" "\<And>k. iv_singleton r = Some k \<Longrightarrow> i = iv_of (c * k)"
    using unit_division[OF i(2) _ e(4)] by blast
  have eq: "add_disequation_term e (x, c) z = (case iv_singleton r of Some k \<Rightarrow> add_univar_disequation x k z | None \<Rightarrow> ret (Some z))"
    by (simp add: add_disequation_term_def i(1) r(1) obind_def)
  define Q where "Q \<sigma> \<longleftrightarrow> P \<sigma> \<and> dbm_sat z \<sigma>" for \<sigma>
  have "narrows (zone_inv V) Q (add_disequation_term e (x, c) z) z"
  proof (cases "iv_singleton r")
    case (Some k)
    have ne: "\<sigma> x \<noteq> k" if "Q \<sigma>" for \<sigma>
    proof
      assume "\<sigma> x = k"
      moreover have "- constant_term e - terms_eval \<sigma> (filter (\<lambda>(v, c). v \<noteq> x) (variable_terms e)) = c * k"
        using i(3)[of \<sigma>] that r(2)[OF Some] by (simp add: Q_def)
      ultimately have "le_eval \<sigma> e = 0" using residual_value[OF _ e(3), of \<sigma>] e(1) by (simp add: le_eval_def le_wf_def)
      then show False using P that by (simp add: Q_def)
    qed
    have "x \<in> V" using e(2,3) by (force simp: le_vars_def)
    then show ?thesis using univar_disequation_narrows[OF z, of x Q k] ne by (simp add: eq Some)
  qed (use z in \<open>auto simp: eq intro!: narrows_ret\<close>)
  then show ?thesis by (rule narrows_weaken) (auto simp: Q_def)
qed

section \<open>Constraints and queries\<close>

lemma add_constraint_narrows:
  assumes z: "zone_inv V z" and c: "le_wf (lc_expression cst)" "le_vars (lc_expression cst) \<subseteq> V"
    and u: "lc_kind cst = NOT_ZERO \<Longrightarrow> unit_coefficients (lc_expression cst)"
  shows "narrows (zone_inv V) (\<lambda>\<sigma>. lc_holds \<sigma> cst) (add_constraint cst z) z"
proof -
  let ?P = "\<lambda>\<sigma>. lc_holds \<sigma> cst" and ?e = "lc_expression cst"
  have v: "le_vars (plus_number ?e 1) \<subseteq> V" "le_vars (le_negate ?e) \<subseteq> V"
    using c(2) le_vars_sub by (meson subset_trans)+
  have leq: "narrows (zone_inv V) ?P (add_linear_leq e z') z'"
    if "zone_inv V z'" "e = ?e \<or> e = plus_number ?e 1 \<or> e = le_negate ?e" "\<And>\<sigma>. ?P \<sigma> \<Longrightarrow> le_eval \<sigma> e \<le> 0" for e z'
    by (rule add_linear_leq_narrows) (use that c v in auto)
  have "narrows (zone_inv V) ?P
      (case lc_kind cst of
             LESS_THAN_OR_EQUALS_ZERO \<Rightarrow> add_linear_leq ?e z
           | LESS_THAN_ZERO \<Rightarrow> add_linear_leq (plus_number ?e 1) z
           | EQUALS_ZERO \<Rightarrow> zbind (add_linear_leq ?e z) (add_linear_leq (le_negate ?e))
           | NOT_ZERO \<Rightarrow> zfold (add_disequation_term ?e) (variable_terms ?e) z) z"
  proof (cases "lc_kind cst")
    case EQUALS_ZERO
    have "narrows (zone_inv V) ?P (zbind (add_linear_leq ?e z) (add_linear_leq (le_negate ?e))) z"
      by (rule narrows_bind[where I = "zone_inv V"]; rule leq) (use z EQUALS_ZERO in \<open>auto simp: lc_holds_def\<close>)
    then show ?thesis using EQUALS_ZERO by simp
  next
    case NOT_ZERO
    have "narrows (zone_inv V) ?P (add_disequation_term ?e t z') z'" if "t \<in> set (variable_terms ?e)" "zone_inv V z'" for t z'
      using that u[OF NOT_ZERO] c NOT_ZERO by (cases t) (auto simp: unit_coefficients_def lc_holds_def intro!: disequation_term_narrows)
    then show ?thesis using NOT_ZERO z by (auto intro!: narrows_fold)
  next
    case LESS_THAN_OR_EQUALS_ZERO
    then show ?thesis using leq[of z ?e] z by (simp add: lc_holds_def)
  next
    case LESS_THAN_ZERO
    then show ?thesis using leq[of z "plus_number ?e 1"] z by (simp add: lc_holds_def)
  qed
  note main = narrows_bind[OF this normalize_narrows]
  show ?thesis
  proof (cases "is_tautology cst")
    case True
    then show ?thesis using z by (auto simp: add_constraint_def intro!: narrows_ret)
  next
    case taut: False
    show ?thesis
    proof (cases "is_contradiction cst")
      case True
      then show ?thesis using taut is_contradiction_holds[OF True] by (auto simp: add_constraint_def intro!: narrows_bottom)
    next
      case False
      then show ?thesis using main taut by (simp add: add_constraint_def Let_def)
    qed
  qed
qed

lemma entail_aux_ok:
  assumes z: "zone_inv V z" and c: "le_wf (lc_expression cst)" "le_vars (lc_expression cst) \<subseteq> V" "lc_kind cst \<noteq> EQUALS_ZERO"
  shows "\<exists>b. entail_aux z cst = ret b \<and> (b \<longrightarrow> (\<forall>\<sigma>. dbm_sat z \<sigma> \<longrightarrow> lc_holds \<sigma> cst))"
proof -
  have "le_wf (lc_expression (lc_negate cst))" "le_vars (lc_expression (lc_negate cst)) \<subseteq> V" "lc_kind (lc_negate cst) \<noteq> NOT_ZERO"
    using c le_vars_sub(2)[of "lc_expression cst"] by (auto simp: lc_negate_def split: ConstraintKind.splits)
  then have "narrows (zone_inv V) (\<lambda>\<sigma>. lc_holds \<sigma> (lc_negate cst)) (add_constraint (lc_negate cst) z) z"
    by (intro add_constraint_narrows[OF z]) auto
  then show ?thesis by (cases rule: narrows_cases) (auto simp: entail_aux_def obind_def lc_negate_holds)
qed

lemma interval_entails_ok:
  assumes "iv_wf i" "n \<in> iv_gamma i" "interval_entails i k"
  shows "kind_holds k n"
  using iv_gammaD[OF assms(2,1)] iv_wf_bounds[OF assms(1)] assms(2,3)
  by (cases k) (auto simp: interval_entails_def bound_simps iv_singleton_iff[OF assms(1)] dest: order_trans le_less_trans less_le_trans)

lemma entail_ok:
  assumes z: "zone_inv V z" and c: "le_wf (lc_expression cst)" "le_vars (lc_expression cst) \<subseteq> V"
  shows "\<exists>b. entail z cst = ret b \<and> (b \<longrightarrow> (\<forall>\<sigma>. dbm_sat z \<sigma> \<longrightarrow> lc_holds \<sigma> cst))"
proof -
  let ?e = "lc_expression cst"
  obtain i where i: "eval_interval z ?e = Inr i" "iv_wf i" "\<And>\<sigma>. dbm_sat z \<sigma> \<Longrightarrow> le_eval \<sigma> ?e \<in> iv_gamma i"
    using eval_interval_ok[OF zone_shape[OF z]] by blast
  have ie: "lc_holds \<sigma> cst" if "interval_entails i (lc_kind cst)" "dbm_sat z \<sigma>" for \<sigma> using interval_entails_ok[OF i(2) i(3)[OF that(2)] that(1)] by (simp add: lc_holds_def)
  show ?thesis
  proof (cases "is_tautology cst \<or> is_contradiction cst \<or> interval_entails i (lc_kind cst)")
    case True
    then show ?thesis using is_tautology_holds ie by (auto simp: entail_def i(1) obind_def)
  next
    case False
    show ?thesis
    proof (cases "lc_kind cst = EQUALS_ZERO")
      case True
      let ?c1 = "\<lparr>lc_expression = ?e, lc_kind = LESS_THAN_OR_EQUALS_ZERO\<rparr>" and ?c2 = "\<lparr>lc_expression = le_negate ?e, lc_kind = LESS_THAN_OR_EQUALS_ZERO\<rparr>"
      have v: "le_vars (le_negate ?e) \<subseteq> V" using c(2) le_vars_sub(2) by (meson subset_trans)
      obtain b1 b2 where b: "entail_aux z ?c1 = ret b1" "b1 \<Longrightarrow> dbm_sat z \<sigma> \<Longrightarrow> lc_holds \<sigma> ?c1" "entail_aux z ?c2 = ret b2" "b2 \<Longrightarrow> dbm_sat z \<sigma> \<Longrightarrow> lc_holds \<sigma> ?c2" for \<sigma>
        using entail_aux_ok[OF z, of ?c1] entail_aux_ok[OF z, of ?c2] c v by auto
      have "entail z cst = ret (b1 \<and> b2)" using False True b(1,3) i(1) by (simp add: entail_def obind_def)
      then show ?thesis using b(2,4) True by (fastforce simp: lc_holds_def)
    next
      case neq: False
      have "entail z cst = entail_aux z cst" using False neq i(1) by (simp add: entail_def obind_def)
      then show ?thesis using entail_aux_ok[OF z c neq] by simp
    qed
  qed
qed


lemma intersect_ok:
  assumes z: "zone_inv V z" and c: "le_wf (lc_expression cst)" "le_vars (lc_expression cst) \<subseteq> V" "lc_kind cst = NOT_ZERO \<Longrightarrow> unit_coefficients (lc_expression cst)"
  shows "\<exists>b. intersect z cst = ret b \<and> (\<not> b \<longrightarrow> (\<forall>\<sigma>. dbm_sat z \<sigma> \<longrightarrow> \<not> lc_holds \<sigma> cst))"
  using add_constraint_narrows[OF z c] is_contradiction_holds
  by (cases rule: narrows_cases) (auto simp: intersect_def obind_def)

lemma implies_ok:
  assumes z: "zone_inv V z" and c: "le_wf (lc_expression c1)" "le_vars (lc_expression c1) \<subseteq> V" "lc_kind c1 = NOT_ZERO \<Longrightarrow> unit_coefficients (lc_expression c1)"
    and d: "le_wf (lc_expression c2)" "le_vars (lc_expression c2) \<subseteq> V"
  shows "\<exists>b. implies z c1 c2 = ret b \<and> (b \<longrightarrow> (\<forall>\<sigma>. dbm_sat z \<sigma> \<longrightarrow> lc_holds \<sigma> c1 \<longrightarrow> lc_holds \<sigma> c2))"
proof (rule narrows_cases[OF add_constraint_narrows[OF z c]])
  fix z' assume z': "add_constraint c1 z = ret (Some z')" "zone_inv V z'" "\<And>\<sigma>. dbm_sat z \<sigma> \<Longrightarrow> lc_holds \<sigma> c1 \<Longrightarrow> dbm_sat z' \<sigma>"
  then show ?thesis using entail_ok[OF z'(2) d] by (auto simp: implies_def obind_def)
qed (auto simp: implies_def obind_def)

end
