(* ===== verification/Zone_Assign.thy ===== *)
theory Zone_Assign
  imports Zone_Constraints
begin

text \<open>
  Forgetting a variable, and assigning an interval or the value of a linear expression. The potentials of a zone are
  themselves a solution, so what is shown for all states of the zone also shows that the potentials stay valid.
\<close>

section \<open>Forgetting a variable\<close>

lemma havoc_shape:
  assumes s: "dbm_shape V X z" and v: "om_lookup (vert_map z) v = Some y"
  defines "z' \<equiv> z\<lparr>dbm_g := g_forget y (dbm_g z), rev_map := (rev_map z)[y := None], vert_map := filter (\<lambda>(u, n). u \<noteq> v) (vert_map z)\<rparr>"
  shows "dbm_shape V X z'" "om_lookup (vert_map z') = (om_lookup (vert_map z))(v := None)" "edge_of (dbm_g z') = without y (edge_of (dbm_g z))"
    "live (dbm_g z') = (live (dbm_g z))(y := False)"
proof -
  have y: "live (dbm_g z) y" "y \<noteq> 0" "y \<notin> X" "y < g_size (dbm_g z)" using shape_vert[OF s v] by (auto simp: live_def)
  note f = g_forget_ok[OF shape_graph[OF s] y(1) refl]
  show lk: "om_lookup (vert_map z') = (om_lookup (vert_map z))(v := None)" by (auto simp: z'_def om_lookup_filter fun_eq_iff)
  show "edge_of (dbm_g z') = without y (edge_of (dbm_g z))" "live (dbm_g z') = (live (dbm_g z))(y := False)"
    using f by (simp_all add: z'_def without_def)
  have lk': "om_lookup (filter (\<lambda>(u, n). u \<noteq> v) (vert_map z)) = (om_lookup (vert_map z))(v := None)" using lk by (simp add: z'_def)
  have "dbm_shape V X \<lparr>vert_map = filter (\<lambda>(u, n). u \<noteq> v) (vert_map z), rev_map = (rev_map z)[y := None], dbm_g = g_forget y (dbm_g z), potential = potential z, unstable = []\<rparr>"
  proof (rule dbm_shapeI)
    show "om_lookup (filter (\<lambda>(u, n). u \<noteq> v) (vert_map z)) u = Some n \<longleftrightarrow>
        n < g_size (g_forget y (dbm_g z)) \<and> (rev_map z)[y := None] ! n = Some u \<and> n \<notin> X" for u n
      unfolding lk' using f y v shape_lookup[OF s, of u n] shape_lookup[OF s, of v n] shape_lookup[OF s, of v y] shape_rev[OF s]
      by (cases "n = y") (auto simp: nth_list_update)
    show "live (g_forget y (dbm_g z)) n \<longleftrightarrow> n < g_size (g_forget y (dbm_g z)) \<and> (n = 0 \<or> (rev_map z)[y := None] ! n \<noteq> None)" for n
      using f y shape_live[OF s, of n] shape_rev[OF s] by (cases "n = y") (auto simp: nth_list_update)
    show "dom (om_lookup (filter (\<lambda>(u, n). u \<noteq> v) (vert_map z))) \<subseteq> V" unfolding lk' using s by (auto simp: dbm_shape_def)
    show "X \<subseteq> {n. live (g_forget y (dbm_g z)) n} - {0}" using f y s by (auto simp: dbm_shape_def)
  qed (use f y s in \<open>auto simp: dbm_shape_def om_wf_filter nth_list_update\<close>)
  then show "dbm_shape V X z'" using shape_stable[OF s] by (cases z) (simp add: z'_def)
qed

lemma havoc_ok:
  assumes s: "dbm_shape V X z"
  shows "\<exists>z'. havoc v z = ret z' \<and> dbm_shape V X z' \<and> om_lookup (vert_map z') = (om_lookup (vert_map z))(v := None) \<and>
    (\<forall>n. n \<in> X \<longrightarrow> rev_map z' ! n = rev_map z ! n) \<and> potential z' = potential z \<and>
    (\<forall>val. sat val (edge_of (dbm_g z)) \<longrightarrow> sat val (edge_of (dbm_g z'))) \<and> (\<forall>\<sigma> val k. models z \<sigma> val \<longrightarrow> models z' (\<sigma>(v := k)) val)"
proof (cases "om_lookup (vert_map z) v")
  case (Some y)
  note h = havoc_shape[OF s Some]
  have "rev_map z ! n = (rev_map z)[y := None] ! n" if "n \<in> X" for n using shape_vert[OF s Some] that by (cases "n = y") auto
  then show ?thesis using Some h shape_stable[OF s] sat_without by (auto simp: havoc_def models_def)
qed (use s in \<open>auto simp: havoc_def models_def fun_upd_idem\<close>)

lemma havoc_zone:
  assumes "zone_inv V z"
  shows "\<exists>z'. havoc v z = ret z' \<and> zone_inv V z' \<and> om_lookup (vert_map z') = (om_lookup (vert_map z))(v := None) \<and>
    (\<forall>\<sigma> k. dbm_sat z \<sigma> \<longrightarrow> dbm_sat z' (\<sigma>(v := k)))"
  using havoc_ok[OF zone_shape[OF assms], of v] zone_pot[OF assms] by (auto simp: zone_inv_def dbm_sat_def) metis

section \<open>Setting an interval\<close>

lemma zone_set_edge:
  assumes z: "zone_inv V z" and l: "live (dbm_g z) s" "live (dbm_g z) d" and p: "length p = length (potential z)"
    "sat (\<lambda>v. p ! v) (edge_upd (edge_of (dbm_g z)) s d w)"
  defines "z' \<equiv> z\<lparr>potential := p, dbm_g := set_edge s w d (dbm_g z)\<rparr>"
  shows "zone_inv V z'" "edge_of (dbm_g z') = edge_upd (edge_of (dbm_g z)) s d w" "live (dbm_g z') = live (dbm_g z)" "vert_map z' = vert_map z"
    "models z \<sigma> val \<Longrightarrow> val d \<le> val s + w \<Longrightarrow> models z' \<sigma> val"
proof -
  note e = set_edge_ok[OF zone_graph[OF z] l refl, of w]
  show "edge_of (dbm_g z') = edge_upd (edge_of (dbm_g z)) s d w" "live (dbm_g z') = live (dbm_g z)" "vert_map z' = vert_map z" using e by (simp_all add: z'_def)
  show "models z \<sigma> val \<Longrightarrow> val d \<le> val s + w \<Longrightarrow> models z' \<sigma> val" using e by (auto simp: models_def z'_def intro: sat_edge_upd)
  show "zone_inv V z'" using shape_graph_upd[OF zone_shape[OF z], of "set_edge s w d (dbm_g z)" p] e p by (cases z) (simp add: zone_inv_def z'_def)
qed


text \<open>An edge between zero and a vertex \<open>v\<close> that has edges with zero only, with the potential of \<open>v\<close> changed.\<close>

definition fresh_vertex :: "SplitDBM \<Rightarrow> VertId \<Rightarrow> bool" where
  "fresh_vertex z v \<longleftrightarrow> live (dbm_g z) v \<and> v \<noteq> 0 \<and> (\<forall>u. u \<noteq> 0 \<longrightarrow> edge_of (dbm_g z) u v = None \<and> edge_of (dbm_g z) v u = None)"

lemma fresh_set_ub:
  fixes u :: int
  assumes z: "zone_inv V z" and f: "fresh_vertex z v" "edge_of (dbm_g z) 0 v = None" "edge_of (dbm_g z) v 0 = None"
  defines "z' \<equiv> z\<lparr>potential := (potential z)[v := potential z ! 0 + u], dbm_g := set_edge 0 u v (dbm_g z)\<rparr>"
  shows "zone_inv V z' \<and> fresh_vertex z' v \<and> edge_of (dbm_g z') 0 v = Some u \<and> edge_of (dbm_g z') v 0 = None \<and> vert_map z' = vert_map z \<and>
    potential z' ! 0 = potential z ! 0 \<and> (\<forall>\<sigma> val. models z \<sigma> val \<longrightarrow> val v \<le> u \<longrightarrow> models z' \<sigma> val)"
proof -
  have v: "live (dbm_g z) v" "v \<noteq> 0" "v < length (potential z)" using f(1) shape_pot[OF zone_shape[OF z]] by (auto simp: fresh_vertex_def live_def)
  have no: "edge_of (dbm_g z) n v = None" "edge_of (dbm_g z) v n = None" for n using f by (cases "n = 0"; simp add: fresh_vertex_def)+
  have "sat (\<lambda>n. (potential z)[v := potential z ! 0 + u] ! n) (edge_upd (edge_of (dbm_g z)) 0 v u)"
    using zone_pot[OF z] no v by (auto simp: sat_def edge_upd_def nth_list_update)
  from zone_set_edge[OF z zone_zero[OF z] v(1) _ this, folded z'_def]
  show ?thesis using f v no by (auto simp: fresh_vertex_def models_def edge_upd_def) (auto simp: z'_def)
qed

lemma fresh_set_lb:
  assumes z: "zone_inv V z" and f: "fresh_vertex z v" "\<And>u. edge_of (dbm_g z) 0 v = Some u \<Longrightarrow> l \<le> u"
  defines "z' \<equiv> z\<lparr>potential := (potential z)[v := potential z ! 0 + l], dbm_g := set_edge v (- l) 0 (dbm_g z)\<rparr>"
  shows "zone_inv V z' \<and> edge_of (dbm_g z') = edge_upd (edge_of (dbm_g z)) v 0 (- l) \<and> vert_map z' = vert_map z \<and>
    (\<forall>\<sigma> val. models z \<sigma> val \<longrightarrow> l \<le> val v \<longrightarrow> models z' \<sigma> val)"
proof -
  have v: "live (dbm_g z) v" "v \<noteq> 0" "v < length (potential z)" using f(1) shape_pot[OF zone_shape[OF z]] by (auto simp: fresh_vertex_def live_def)
  have no: "n \<noteq> 0 \<Longrightarrow> edge_of (dbm_g z) n v = None" "n \<noteq> 0 \<Longrightarrow> edge_of (dbm_g z) v n = None" for n using f by (simp_all add: fresh_vertex_def)
  have "sat (\<lambda>n. (potential z)[v := potential z ! 0 + l] ! n) (edge_upd (edge_of (dbm_g z)) v 0 (- l))"
    unfolding sat_def
  proof (intro allI impI)
    fix s d w assume e: "edge_upd (edge_of (dbm_g z)) v 0 (- l) s d = Some w"
    consider "s = v" "d = 0" "w = - l" | "s = 0" "d = v" "l \<le> w" | "s \<noteq> v" "d \<noteq> v" "edge_of (dbm_g z) s d = Some w"
    proof -
      assume a: "s = v \<Longrightarrow> d = 0 \<Longrightarrow> w = - l \<Longrightarrow> thesis" "s = 0 \<Longrightarrow> d = v \<Longrightarrow> l \<le> w \<Longrightarrow> thesis" "s \<noteq> v \<Longrightarrow> d \<noteq> v \<Longrightarrow> edge_of (dbm_g z) s d = Some w \<Longrightarrow> thesis"
      show thesis
      proof (cases "s = v \<and> d = 0")
        case False
        then have "edge_of (dbm_g z) s d = Some w" using e unfolding edge_upd_def by (simp only: if_False)
        then show thesis using a(2,3) no(1)[of s] no(2)[of d] f(2)[of w] False by (cases "d = v"; cases "s = v"; cases "s = 0") auto
      qed (use a(1) e in simp)
    qed
    then show "(potential z)[v := potential z ! 0 + l] ! d \<le> (potential z)[v := potential z ! 0 + l] ! s + w"
      using v satD[OF zone_pot[OF z]] by cases (auto simp: nth_list_update)
  qed
  from zone_set_edge[OF z v(1) zone_zero[OF z] _ this, folded z'_def]
  show ?thesis by (auto simp: models_def)
qed

text \<open>The bounds that a state stores for a variable are the ones of an interval it was set to.\<close>

lemma get_interval_edges:
  assumes "zone_inv V z" "om_lookup (vert_map z) x = Some v"
  shows "get_interval z x = iv_make (case edge_of (dbm_g z) v 0 of None \<Rightarrow> minus_infinity | Some k \<Rightarrow> ext_of (- k))
    (case edge_of (dbm_g z) 0 v of None \<Rightarrow> plus_infinity | Some k \<Rightarrow> ext_of k)"
proof -
  have "live (dbm_g z) v" using shape_vert[OF zone_shape[OF assms(1)] assms(2)] by blast
  note e = g_elem_edge[OF zone_graph[OF assms(1)] this zone_zero[OF assms(1)]] g_elem_edge[OF zone_graph[OF assms(1)] zone_zero[OF assms(1)] this]
  show ?thesis using e g_edge_val_edge[OF zone_graph[OF assms(1)]] assms(2)
    by (auto simp: get_interval_def get_lb_def get_ub_def get_vertid_def split: option.splits)
qed

lemma iv_from_bounds:
  assumes "iv_wf i" "i \<noteq> iv_bottom"
  shows "iv_make (if is_finite (iv_lb i) then ext_of (ext_n (iv_lb i)) else minus_infinity) (if is_finite (iv_ub i) then ext_of (ext_n (iv_ub i)) else plus_infinity) = i"
proof -
  have lb: "(if is_finite (iv_lb i) then ext_of (ext_n (iv_lb i)) else minus_infinity) = iv_lb i"
    and ub: "(if is_finite (iv_ub i) then ext_of (ext_n (iv_ub i)) else plus_infinity) = iv_ub i"
    using assms by (auto simp: iv_wf_def ext_wf_def is_finite_def ext_of_def minus_infinity_def plus_infinity_def ext_make_def is_plus_infinity_def
        is_minus_infinity_def intro!: ExtendedNumber.equality)
  have "\<not> ext_gt (iv_lb i) (iv_ub i)" using assms iv_is_bottom_iff[of i] by (simp add: iv_is_bottom_def)
  then show ?thesis unfolding lb ub by (cases i) (simp add: iv_make_def)
qed

lemma dbm_set_exact:
  assumes z: "zone_inv V z" and x: "x \<in> V" and i: "iv_wf i" "i \<noteq> iv_bottom"
  shows "\<exists>z'. dbm_set x i z = ret z' \<and> zone_inv V z' \<and> get_interval z' x = i \<and> (\<forall>\<sigma> k. dbm_sat z \<sigma> \<longrightarrow> k \<in> iv_gamma i \<longrightarrow> dbm_sat z' (\<sigma>(x := k)))"
proof -
  obtain z1 where h: "havoc x z = ret z1" "zone_inv V z1" "om_lookup (vert_map z1) x = None" "\<And>\<sigma> k. dbm_sat z \<sigma> \<Longrightarrow> dbm_sat z1 (\<sigma>(x := k))"
    using havoc_zone[OF z, of x] by auto
  have nb: "\<not> iv_is_bottom i" using i by (simp add: iv_is_bottom_iff)
  show ?thesis
  proof (cases "iv_is_top i")
    case True
    then have "get_interval z1 x = i" using iv_from_bounds[OF i] h(3) by (simp add: get_interval_def get_lb_def get_ub_def get_vertid_def iv_is_top_def is_finite_def)
    then show ?thesis using h nb True by (auto simp: dbm_set_def obind_def)
  next
    case False
    obtain v z2 where r: "get_vert x z1 = (v, z2)" by fastforce
    note g = get_vert_zone[OF h(2) x r]
    have "\<not> live (dbm_g z1) v" using get_vert_ok(4)[OF zone_shape[OF h(2)] x r h(3)] .
    then have no: "edge_of (dbm_g z2) n v = None" "edge_of (dbm_g z2) v n = None" for n using edge_of_live[OF zone_graph[OF h(2)]] unfolding g(7) by (metis option.exhaust)+
    have f: "fresh_vertex z2 v" using g(2,3) no by (simp add: fresh_vertex_def)
    define z3 where "z3 = (if is_finite (iv_ub i) then
        z2\<lparr>potential := (potential z2)[v := potential z2 ! 0 + ext_n (iv_ub i)], dbm_g := set_edge 0 (ext_n (iv_ub i)) v (dbm_g z2)\<rparr> else z2)"
    define z4 where "z4 = (if is_finite (iv_lb i) then
        z3\<lparr>potential := (potential z3)[v := potential z3 ! 0 + ext_n (iv_lb i)], dbm_g := set_edge v (- ext_n (iv_lb i)) 0 (dbm_g z3)\<rparr> else z3)"
    have w: "lbx i \<le> ubx i" "ext_wf (iv_lb i)" "ext_wf (iv_ub i)" using i iv_wfD iv_wf_bounds by blast+
    have bnd: "lbx i \<le> Fin k \<and> Fin k \<le> ubx i" if "k \<in> iv_gamma i" for k using iv_gammaD[OF that i(1)] .
    have z3: "zone_inv V z3" "fresh_vertex z3 v" "vert_map z3 = vert_map z2"
        "edge_of (dbm_g z3) 0 v = (if is_finite (iv_ub i) then Some (ext_n (iv_ub i)) else None)" "edge_of (dbm_g z3) v 0 = None"
        "\<And>\<sigma> val. models z2 \<sigma> val \<Longrightarrow> val v \<in> iv_gamma i \<Longrightarrow> models z3 \<sigma> val"
      using fresh_set_ub[OF g(1) f no(1) no(2), of "ext_n (iv_ub i)"] g(1) f no bnd by (auto simp: z3_def is_finite_def ext_abs_def split: if_splits)
    have le: "ext_n (iv_lb i) \<le> u" if "edge_of (dbm_g z3) 0 v = Some u" "is_finite (iv_lb i)" for u
      using z3(4) that w(1) by (simp add: is_finite_def ext_abs_def split: if_splits)
    have z4: "zone_inv V z4" "vert_map z4 = vert_map z2"
        "edge_of (dbm_g z4) = (if is_finite (iv_lb i) then edge_upd (edge_of (dbm_g z3)) v 0 (- ext_n (iv_lb i)) else edge_of (dbm_g z3))" "\<And>\<sigma> val. models z3 \<sigma> val \<Longrightarrow> val v \<in> iv_gamma i \<Longrightarrow> models z4 \<sigma> val"
      using fresh_set_lb[OF z3(1,2) le] z3(1,3) bnd by (auto simp: z4_def is_finite_def ext_abs_def)
    have "v \<noteq> 0" using f by (simp add: fresh_vertex_def)
    then have "get_interval z4 x = i"
      using get_interval_edges[OF z4(1), of x v] g(4) iv_from_bounds[OF i] by (cases "is_finite (iv_lb i)"; cases "is_finite (iv_ub i)") (simp_all add: z4(2,3) z3(4,5) edge_upd_def)
    moreover have "dbm_sat z4 (\<sigma>(x := k))" if "dbm_sat z \<sigma>" "k \<in> iv_gamma i" for \<sigma> k
    proof -
      obtain val where m: "models z2 (\<sigma>(x := k)) val" using g(5)[OF h(4)] \<open>dbm_sat z \<sigma>\<close> unfolding dbm_sat_def by blast
      then have "val v = k" using g(4) by (auto simp: models_def)
      then show ?thesis using z3(6)[OF m] z4(4) that(2) by (auto simp: dbm_sat_def)
    qed
    moreover have "dbm_set x i z = normalize z4" using h(1) nb False
      by (simp only: dbm_set_def obind_def r Let_def z3_def[symmetric] z4_def[symmetric] option.case sum.case prod.case if_False)
    moreover have "normalize z4 = ret z4" using zone_stable[OF z4(1)] by simp
    ultimately show ?thesis using z4(1) by auto
  qed
qed

lemma dbm_set_ok:
  assumes "zone_inv V z" "x \<in> V" "iv_wf i" "i \<noteq> iv_bottom"
  shows "\<exists>z'. dbm_set x i z = ret z' \<and> zone_inv V z' \<and> (\<forall>\<sigma> k. dbm_sat z \<sigma> \<longrightarrow> k \<in> iv_gamma i \<longrightarrow> dbm_sat z' (\<sigma>(x := k)))"
  using dbm_set_exact[OF assms] by (elim exE conjE) (intro exI conjI)

section \<open>Difference constraints of an assignment\<close>

text \<open>The comparison of a value with its bound, in the direction that is computed.\<close>

definition dir_le :: "bool \<Rightarrow> int \<Rightarrow> int \<Rightarrow> bool" where
  "dir_le up a b \<longleftrightarrow> (if up then a \<le> b else b \<le> a)"

lemma dir_le_add: "dir_le up a b \<Longrightarrow> dir_le up c d \<Longrightarrow> dir_le up (a + c) (b + d)"
  by (auto simp: dir_le_def)

lemma dir_le_mult: "dir_le up a b \<Longrightarrow> 0 \<le> c \<Longrightarrow> dir_le up (c * a) (c * b)" "dir_le (\<not> up) a b \<Longrightarrow> c \<le> 0 \<Longrightarrow> dir_le up (c * a) (c * b)"
  by (auto simp: dir_le_def mult_left_mono mult_left_mono_neg split: if_splits)

definition assign_ok :: "bool \<Rightarrow> Variable set \<Rightarrow> (Variable \<Rightarrow> int) \<Rightarrow> int \<Rightarrow> int \<times> Variable option \<times> (Variable \<times> int) list \<Rightarrow> bool" where
  "assign_ok up U \<sigma> a st \<longleftrightarrow> (case st of (residual, ub, terms) \<Rightarrow>
     let r = residual + (case ub of None \<Rightarrow> 0 | Some y \<Rightarrow> \<sigma> y) in
     dir_le up a r \<and> (\<forall>(v, k) \<in> set terms. v \<in> U \<and> dir_le up (a - \<sigma> v) (r - k)) \<and> (\<forall>y. ub = Some y \<longrightarrow> y \<in> U))"

lemma dir_bounds:
  assumes s: "dbm_shape V X z" and m: "dbm_sat z \<sigma>"
  shows "\<not> is_infinite (if up then get_ub z y else get_lb z y) \<Longrightarrow> dir_le up (\<sigma> y) (ext_n (if up then get_ub z y else get_lb z y))"
    "\<not> is_infinite (if up then get_lb z y else get_ub z y) \<Longrightarrow> dir_le (\<not> up) (\<sigma> y) (ext_n (if up then get_lb z y else get_ub z y))"
  using finite_bounds_hold(1,2)[OF s m, of y] by (auto simp: dir_le_def)

lemma assign_terms_ok:
  assumes s: "dbm_shape V X z" and m: "dbm_sat z \<sigma>"
  shows "assign_terms z up ts st = Some st' \<Longrightarrow> assign_ok up U \<sigma> a st \<Longrightarrow> \<forall>(v, c) \<in> set ts. c \<noteq> 0 \<and> v \<in> U \<Longrightarrow>
    assign_ok up U \<sigma> (a + terms_eval \<sigma> ts) st'"
proof (induction ts arbitrary: st a)
  case (Cons t ts)
  obtain y c where t: "t = (y, c)" by (cases t)
  obtain residual ub terms where st: "st = (residual, ub, terms)" by (cases st)
  let ?same = "if up then get_ub z y else get_lb z y" and ?other = "if up then get_lb z y else get_ub z y"
  note b = dir_bounds[OF s m, where up = up and y = y]
  have y: "y \<in> U" "c \<noteq> 0" using Cons.prems(3) by (auto simp: t)
  let ?r = "residual + (case ub of None \<Rightarrow> 0 | Some y \<Rightarrow> \<sigma> y)"
  have ok: "dir_le up a ?r" "\<And>v k. (v, k) \<in> set terms \<Longrightarrow> v \<in> U \<and> dir_le up (a - \<sigma> v) (?r - k)" "\<And>y. ub = Some y \<Longrightarrow> y \<in> U"
    using Cons.prems(2) by (auto simp: assign_ok_def st Let_def)
  have shift: "dir_le up (a + d) (?r + e) \<and> (\<forall>(v, k) \<in> set terms. v \<in> U \<and> dir_le up (a + d - \<sigma> v) (?r + e - k))" if "dir_le up d e" for d e
    using dir_le_add[OF ok(1) that] dir_le_add[OF conjunct2[OF ok(2)] that] ok(2) by (auto simp: algebra_simps)
  obtain st1 where st1: "assign_terms z up ts st1 = Some st'" "assign_ok up U \<sigma> (a + c * \<sigma> y) st1"
  proof (cases "c < 0")
    case True
    have fin: "\<not> is_infinite ?other" using Cons.prems(1) True by (auto simp: t st Let_def)
    have "dir_le up (c * \<sigma> y) (ext_n ?other * c)" using dir_le_mult(2)[OF b(2)[OF fin], of c] True by (simp add: mult.commute)
    note sh = shift[OF this]
    have "assign_ok up U \<sigma> (a + c * \<sigma> y) (residual + ext_n ?other * c, ub, terms)" using sh ok(3) by (auto simp: assign_ok_def Let_def algebra_simps)
    moreover have "assign_terms z up ts (residual + ext_n ?other * c, ub, terms) = Some st'" using Cons.prems(1) True fin by (simp add: t st Let_def)
    ultimately show thesis using that by blast
  next
    case neg: False
    then have c: "1 \<le> c" using y(2) by simp
    show thesis
    proof (cases "is_infinite ?same")
      case True
      then have u: "ub = None" "c = 1" "assign_terms z up ts (residual, Some y, terms) = Some st'"
        using Cons.prems(1) neg by (auto simp: t st Let_def simp del: not_None_eq split: if_splits)
      have "assign_ok up U \<sigma> (a + c * \<sigma> y) (residual, Some y, terms)" using shift[of "\<sigma> y" "\<sigma> y"] u(1,2) y(1) by (auto simp: assign_ok_def Let_def dir_le_def algebra_simps)
      then show thesis using that u(3) by blast
    next
      case fin: False
      have d: "dir_le up (c * \<sigma> y) (ext_n ?same * c)" using dir_le_mult(1)[OF b(1)[OF fin], of c] c by (simp add: mult.commute)
      have "dir_le up ((c - 1) * \<sigma> y) ((c - 1) * ext_n ?same)" using dir_le_mult(1)[OF b(1)[OF fin], of "c - 1"] c by simp
      note new = dir_le_add[OF ok(1) this]
      have "assign_ok up U \<sigma> (a + c * \<sigma> y) (residual + ext_n ?same * c, ub, terms @ [(y, ext_n ?same)])"
        using shift[OF d] new ok(3) y(1) by (auto simp: assign_ok_def Let_def algebra_simps)
      moreover have "assign_terms z up ts (residual + ext_n ?same * c, ub, terms @ [(y, ext_n ?same)]) = Some st'" using Cons.prems(1) neg fin by (simp add: t st Let_def)
      ultimately show thesis using that by blast
    qed
  qed
  then show ?case using Cons.IH[OF st1] Cons.prems(3) by (simp add: t add.assoc)
qed simp

lemma diffcsts_of_assign_ok:
  assumes s: "dbm_shape V X z" and m: "dbm_sat z \<sigma>" and e: "le_wf e" and d: "(v, n) \<in> set (diffcsts_of_assign z e up)"
  shows "v \<in> le_vars e" "dir_le up (le_eval \<sigma> e) (\<sigma> v + n)"
proof -
  have ts: "\<forall>(v, c) \<in> set (variable_terms e). c \<noteq> 0 \<and> v \<in> le_vars e" using e by (force simp: le_wf_def le_vars_def)
  obtain residual ub terms where st: "assign_terms z up (variable_terms e) (constant_term e, None, []) = Some (residual, ub, terms)"
    using d by (cases "assign_terms z up (variable_terms e) (constant_term e, None, [])") (auto simp: diffcsts_of_assign_def)
  have "assign_ok up (le_vars e) \<sigma> (constant_term e) (constant_term e, None, [])" by (simp add: assign_ok_def Let_def dir_le_def)
  from assign_terms_ok[OF s m st this ts]
  show "v \<in> le_vars e" "dir_le up (le_eval \<sigma> e) (\<sigma> v + n)"
    using d st by (auto simp: diffcsts_of_assign_def assign_ok_def Let_def le_eval_def dir_le_def algebra_simps split: option.splits if_splits)
qed


section \<open>Assignment\<close>

text \<open>Giving vertices to variables changes neither the edges nor what is known about the old vertices.\<close>

definition verts_grown :: "Variable set \<Rightarrow> VertId set \<Rightarrow> SplitDBM \<Rightarrow> SplitDBM \<Rightarrow> bool" where
  "verts_grown V X z z' \<longleftrightarrow> dbm_shape V X z' \<and> edge_of (dbm_g z') = edge_of (dbm_g z) \<and> (\<forall>u. pot_value z' u = pot_value z u) \<and>
     (\<forall>m. live (dbm_g z) m \<longrightarrow> live (dbm_g z') m \<and> potential z' ! m = potential z ! m \<and> rev_map z' ! m = rev_map z ! m) \<and>
     (\<forall>u k. om_lookup (vert_map z) u = Some k \<longrightarrow> om_lookup (vert_map z') u = Some k) \<and>
     (\<forall>\<sigma> val. models z \<sigma> val \<longrightarrow> (\<exists>val'. models z' \<sigma> val' \<and> (\<forall>m. live (dbm_g z) m \<longrightarrow> val' m = val m)))"

lemma verts_grown_refl: "dbm_shape V X z \<Longrightarrow> verts_grown V X z z"
  by (auto simp: verts_grown_def)

lemma verts_grown_trans: "verts_grown V X z z1 \<Longrightarrow> verts_grown V X z1 z2 \<Longrightarrow> verts_grown V X z z2"
  unfolding verts_grown_def by (elim conjE, intro conjI) (simp_all, metis)

lemma get_vert_verts_grown:
  assumes "dbm_shape V X z" "v \<in> V" "get_vert v z = (n, z')"
  shows "verts_grown V X z z'" "om_lookup (vert_map z') v = Some n"
proof -
  note g = get_vert_ok[OF assms] and m = get_vert_models[OF assms]
  show "om_lookup (vert_map z') v = Some n" by (simp add: g(2))
  have "\<exists>val'. models z' \<sigma> val' \<and> (\<forall>m. live (dbm_g z) m \<longrightarrow> val' m = val m)" if "models z \<sigma> val" for \<sigma> val
    using m(1)[OF that] m(2)[OF that] by blast
  then show "verts_grown V X z z'" using g(1,3,6,7) m(4,6,7) by (simp add: verts_grown_def)
qed

lemma assign_edges_ok:
  assumes "dbm_shape V X z" "fst ` set ds \<subseteq> V" "assign_edges f ds z = (es, z')"
  shows "verts_grown V X z z' \<and> (\<forall>e \<in> set es. \<exists>v n k. (v, n) \<in> set ds \<and> om_lookup (vert_map z') v = Some k \<and> e = f k n)"
  using assms
proof (induction ds arbitrary: z es z')
  case (Cons d ds)
  obtain var n where d: "d = (var, n)" by (cases d)
  obtain v z1 where r: "get_vert var z = (v, z1)" by fastforce
  obtain es1 where e: "assign_edges f ds z1 = (es1, z')" "es = f v n # es1" using Cons.prems(3) by (auto simp: d r split: prod.splits)
  have var: "var \<in> V" using Cons.prems(2) by (simp add: d)
  note g = get_vert_verts_grown[OF Cons.prems(1) var r]
  have IH: "verts_grown V X z1 z'" "\<forall>e \<in> set es1. \<exists>v n k. (v, n) \<in> set ds \<and> om_lookup (vert_map z') v = Some k \<and> e = f k n"
    using Cons.IH[OF _ _ e(1)] g(1) Cons.prems(2) by (auto simp: verts_grown_def)
  have "om_lookup (vert_map z') var = Some v" using IH(1) g(2) by (simp add: verts_grown_def)
  then show ?case using verts_grown_trans[OF g(1) IH(1)] IH(2) by (fastforce simp: d e(2))
qed (simp add: verts_grown_refl)

text \<open>The vertex of an assigned variable before the variable is bound to it.\<close>

lemma new_assign_vertex:
  assumes z: "dbm_shape V {} z" and V: "card V + 1 < 2 ^ 16" and g: "new_vertex (dbm_g z) = (vert, g)"
    and z1: "z1 = (if vert = length (rev_map z) then z\<lparr>dbm_g := g, rev_map := rev_map z @ [Some lhs], potential := potential z @ [p]\<rparr>
        else z\<lparr>dbm_g := g, potential := (potential z)[vert := p], rev_map := (rev_map z)[vert := Some lhs]\<rparr>)"
  shows "dbm_shape V {vert} z1" "vert_map z1 = vert_map z" "edge_of (dbm_g z1) = edge_of (dbm_g z)" "\<not> live (dbm_g z) vert" "vert \<noteq> 0"
    "live (dbm_g z1) = (live (dbm_g z))(vert := True)" "potential z1 ! vert = p" "rev_map z1 ! vert = Some lhs"
    "\<And>m. live (dbm_g z) m \<Longrightarrow> potential z1 ! m = potential z ! m"
proof -
  have room: "free_id (dbm_g z) = [] \<Longrightarrow> g_size (dbm_g z) < 2 ^ 16" using shape_room[OF z] V by simp
  define rm where "rm = (if vert < length (rev_map z) then (rev_map z)[vert := Some lhs] else rev_map z @ [Some lhs])"
  define ps where "ps = (if vert < length (rev_map z) then (potential z)[vert := p] else potential z @ [p])"
  note nv = new_vertex_arrays[OF z room g rm_def ps_def]
  have "vert \<le> g_size (dbm_g z)" using new_vertex_ok[OF shape_graph[OF z] room g] by blast
  then have eq: "z1 = \<lparr>vert_map = vert_map z, rev_map = rm, dbm_g = g, potential = ps, unstable = []\<rparr>"
    using shape_rev[OF z] shape_stable[OF z] by (cases z) (auto simp: z1 rm_def ps_def)
  have "om_lookup (vert_map z) u = Some m \<longleftrightarrow> m < g_size g \<and> rm ! m = Some u \<and> m \<notin> {vert}" for u m
    using nv(16)[of m u] shape_lookup[OF z, of u m] nv(4) shape_vert[OF z, of u m] by auto
  moreover have "{vert} \<subseteq> {m. live g m} - {0}" "finite V" "card V + card {vert} < 2 ^ 16" "dom (om_lookup (vert_map z)) \<subseteq> V"
    using nv(3,5) z V by (auto simp: dbm_shape_def)
  ultimately show "dbm_shape V {vert} z1" unfolding eq using nv(1,7,8,11,12,15) by (intro dbm_shapeI) (simp_all only: shape_om[OF z])
  show "vert_map z1 = vert_map z" "edge_of (dbm_g z1) = edge_of (dbm_g z)" "\<not> live (dbm_g z) vert" "vert \<noteq> 0"
    "live (dbm_g z1) = (live (dbm_g z))(vert := True)" "potential z1 ! vert = p" "rev_map z1 ! vert = Some lhs"
    "\<And>m. live (dbm_g z) m \<Longrightarrow> potential z1 ! m = potential z ! m"
    using nv(2,3,4,5,9,10,14) by (simp_all add: eq)
qed


lemma eval_expression_value: "eval_expression z e = le_eval (\<lambda>v. pot_value z v - potential z ! 0) e"
proof -
  have "fold (\<lambda>(v, c) out. out + (pot_value z v - potential z ! 0) * c) ts a = a + terms_eval (\<lambda>v. pot_value z v - potential z ! 0) ts" for ts a
    by (induction ts arbitrary: a) (auto simp: algebra_simps)
  then show ?thesis by (simp add: eval_expression_def le_eval_def)
qed

definition assign_graph :: "AdaptGraph \<Rightarrow> (VertId \<times> VertId \<times> int) list \<Rightarrow> (VertId \<Rightarrow> int) \<Rightarrow> VertId \<Rightarrow> Interval \<Rightarrow> AdaptGraph" where
  "assign_graph g es p vert i =
     (let g = apply_delta g es;
          g = apply_delta g (close_after_assign (sub_graph (adapt_view g) 0) p vert);
          g = (if is_finite (iv_lb i) then update_edge vert (- ext_n (iv_lb i)) 0 g else g)
      in if is_finite (iv_ub i) then update_edge 0 (ext_n (iv_ub i)) vert g else g)"

text \<open>The graph of an assignment is satisfied by the solutions that satisfy the new constraints.\<close>

lemma assign_graph_ok:
  assumes g: "graph_inv g" "live g 0" "live g vert" "vert \<noteq> 0" and es: "\<forall>(s, d, w) \<in> set es. live g s \<and> live g d"
  shows "graph_inv (assign_graph g es p vert i) \<and> live (assign_graph g es p vert i) = live g \<and> g_size (assign_graph g es p vert i) = g_size g \<and>
    (\<forall>val. sat val (edge_of g) \<longrightarrow> (\<forall>(s, d, w) \<in> set es. val d \<le> val s + w) \<longrightarrow> lbx i \<le> Fin (val vert - val 0) \<longrightarrow> Fin (val vert - val 0) \<le> ubx i \<longrightarrow>
      sat val (edge_of (assign_graph g es p vert i)))"
proof -
  define g1 where "g1 = apply_delta g es"
  define g2 where "g2 = apply_delta g1 (close_after_assign (sub_graph (adapt_view g1) 0) p vert)"
  define g3 where "g3 = (if is_finite (iv_lb i) then update_edge vert (- ext_n (iv_lb i)) 0 g2 else g2)"
  have g1: "graph_inv g1" "live g1 = live g" "g_size g1 = g_size g"
      "\<And>val. sat val (edge_of g) \<Longrightarrow> \<forall>(s, d, w) \<in> set es. val d \<le> val s + w \<Longrightarrow> sat val (edge_of g1)"
    using sg.put_all[OF g(1) es] by (simp_all add: g1_def apply_delta_size) (simp_all add: apply_delta_def)
  have "extends g1 g2" unfolding g2_def using assign_closure(2)[OF g1(1)] g(3,4) g1(2) by simp
  then have g2: "graph_inv g2" "live g2 = live g" "g_size g2 = g_size g" "\<And>val. sat val (edge_of g1) \<Longrightarrow> sat val (edge_of g2)"
    using g1(2,3) by (auto simp: extends_def)
  have l: "live g2 vert" "live g2 0" using g g2(2) by simp_all
  have g3: "graph_inv g3" "live g3 = live g" "g_size g3 = g_size g"
      "\<And>val. sat val (edge_of g2) \<Longrightarrow> lbx i \<le> Fin (val vert - val 0) \<Longrightarrow> sat val (edge_of g3)"
    using update_edge_ok[OF g2(1) l refl, of "- ext_n (iv_lb i)"] g2(1-3) by (auto simp: g3_def is_finite_def ext_abs_def intro: sat_edge_min)
  then have l: "live g3 vert" "live g3 0" using g by simp_all
  show ?thesis
    using update_edge_ok[OF g3(1) l(2,1) refl, of "ext_n (iv_ub i)"] g3(1-3) g1(4) g2(4) g3(4)
    unfolding assign_graph_def Let_def g1_def[symmetric] g2_def[symmetric] g3_def[symmetric]
    by (auto simp: is_finite_def ext_abs_def intro: sat_edge_min)
qed

lemma sat_shift: "sat (\<lambda>n. val n - c) E \<longleftrightarrow> sat val E"
  by (simp add: sat_def)

text \<open>Binding the variable to its vertex.\<close>

lemma bind_vertex:
  assumes s: "dbm_shape V {vert} z" and x: "om_lookup (vert_map z) x = None" "rev_map z ! vert = Some x" "x \<in> V"
  defines "z' \<equiv> z\<lparr>vert_map := om_update x vert (vert_map z)\<rparr>"
  shows "dbm_shape V {} z'" "models z \<sigma> val \<Longrightarrow> val vert = \<sigma> x \<Longrightarrow> models z' \<sigma> val"
proof -
  have v: "live (dbm_g z) vert" "vert < g_size (dbm_g z)" using shape_special[OF s, of vert] by (auto simp: live_def)
  have lk: "om_lookup (om_update x vert (vert_map z)) = (om_lookup (vert_map z))(x \<mapsto> vert)" using om_lookup_update[OF shape_om[OF s]] .
  have "((om_lookup (vert_map z))(x \<mapsto> vert)) u = Some m \<longleftrightarrow> m < g_size (dbm_g z) \<and> rev_map z ! m = Some u" for u m
    using shape_lookup[OF s, of u m] shape_lookup[OF s, of x m] x(1,2) v(2) by (cases "u = x"; cases "m = vert") auto
  then show "dbm_shape V {} z'" using s x(3) unfolding dbm_shape_def z'_def by (auto simp: lk om_wf_update)
  show "models z \<sigma> val \<Longrightarrow> val vert = \<sigma> x \<Longrightarrow> models z' \<sigma> val" by (auto simp: models_def z'_def lk)
qed


lemma assign_new_ok:
  assumes z: "zone_inv V z" and V: "card V + 1 < 2 ^ 16" and x: "lhs \<in> V" and e: "le_wf e" "le_vars e \<subseteq> V"
    and i: "iv_wf i" "\<And>\<sigma>. dbm_sat z \<sigma> \<Longrightarrow> le_eval \<sigma> e \<in> iv_gamma i"
    and g: "new_vertex (dbm_g z) = (vert, g)"
    and z1: "z1 = (if vert = length (rev_map z) then z\<lparr>dbm_g := g, rev_map := rev_map z @ [Some lhs], potential := potential z @ [potential z ! 0 + eval_expression z e]\<rparr>
        else z\<lparr>dbm_g := g, potential := (potential z)[vert := potential z ! 0 + eval_expression z e], rev_map := (rev_map z)[vert := Some lhs]\<rparr>)"
    and e1: "assign_edges (\<lambda>v n. (vert, v, - n)) (diffcsts_of_assign z e False) z1 = (es1, za)"
    and e2: "assign_edges (\<lambda>v n. (v, vert, n)) (diffcsts_of_assign z e True) za = (es2, z2)"
  defines "z3 \<equiv> z2\<lparr>dbm_g := assign_graph (dbm_g z2) (es1 @ es2) (pot_fun z2) vert i\<rparr>"
  shows "\<exists>z4. havoc lhs z3 = ret z4 \<and> zone_inv V (z4\<lparr>vert_map := om_update lhs vert (vert_map z4)\<rparr>) \<and>
    (\<forall>\<sigma>. dbm_sat z \<sigma> \<longrightarrow> dbm_sat (z4\<lparr>vert_map := om_update lhs vert (vert_map z4)\<rparr>) (\<sigma>(lhs := le_eval \<sigma> e)))"
proof -
  note s = zone_shape[OF z]
  note nv = new_assign_vertex[OF s V g z1]
  obtain \<sigma>0 where \<sigma>0: "dbm_sat z \<sigma>0" using zone_inhabited[OF z] by blast
  have vars: "fst ` set (diffcsts_of_assign z e up) \<subseteq> V" for up using diffcsts_of_assign_ok(1)[OF s \<sigma>0 e(1)] e(2) by auto
  note a1 = assign_edges_ok[OF nv(1) vars e1]
  have sa: "dbm_shape V {vert} za" using a1 by (simp add: verts_grown_def)
  note a2 = assign_edges_ok[OF sa vars e2]
  have gr: "verts_grown V {vert} z1 z2" using verts_grown_trans a1 a2 by blast
  have s2: "dbm_shape V {vert} z2" and ed: "edge_of (dbm_g z2) = edge_of (dbm_g z)" using gr nv(3) by (simp_all add: verts_grown_def)
  have lv: "live (dbm_g z2) vert" using shape_special[OF s2] by simp
  have old: "live (dbm_g z) m \<Longrightarrow> live (dbm_g z1) m" for m using nv(6) by simp
  have es: "(\<exists>v n k. (v, n) \<in> set (diffcsts_of_assign z e False) \<and> om_lookup (vert_map z2) v = Some k \<and> t = (vert, k, - n)) \<or>
      (\<exists>v n k. (v, n) \<in> set (diffcsts_of_assign z e True) \<and> om_lookup (vert_map z2) v = Some k \<and> t = (k, vert, n))" if "t \<in> set (es1 @ es2)" for t
  proof (cases "t \<in> set es1")
    case True
    then obtain v n k where "(v, n) \<in> set (diffcsts_of_assign z e False)" "om_lookup (vert_map za) v = Some k" "t = (vert, k, - n)" using conjunct2[OF a1] by blast
    moreover from this(2) have "om_lookup (vert_map z2) v = Some k" using conjunct1[OF a2] unfolding verts_grown_def by blast
    ultimately show ?thesis by blast
  next
    case False
    then show ?thesis using that conjunct2[OF a2] by simp
  qed
  have "\<forall>(s, d, w) \<in> set (es1 @ es2). live (dbm_g z2) s \<and> live (dbm_g z2) d" using es lv shape_vert[OF s2] by blast
  note ag = assign_graph_ok[OF shape_graph[OF s2] shape_zero[OF s2] lv nv(5) this, of "pot_fun z2" i]
  have s3: "dbm_shape V {vert} z3" using shape_graph_upd[OF s2, of _ "potential z2"] ag by (simp add: z3_def)
  have core: "sat val (edge_of (dbm_g z3))"
    if m: "dbm_sat z \<sigma>" and v: "val 0 = 0" "sat val (edge_of (dbm_g z2))" "\<And>u k. om_lookup (vert_map z2) u = Some k \<Longrightarrow> val k = \<sigma> u" "val vert = le_eval \<sigma> e" for \<sigma> val
  proof -
    have "val d \<le> val s' + w" if "(s', d, w) \<in> set (es1 @ es2)" for s' d w
      using es[OF that]
    proof (elim disjE exE conjE)
      fix u n k assume u: "(u, n) \<in> set (diffcsts_of_assign z e False)" "om_lookup (vert_map z2) u = Some k" "(s', d, w) = (vert, k, - n)"
      show ?thesis using diffcsts_of_assign_ok(2)[OF s m e(1) u(1)] u(3) v(3)[OF u(2)] v(4) by (simp add: dir_le_def)
    next
      fix u n k assume u: "(u, n) \<in> set (diffcsts_of_assign z e True)" "om_lookup (vert_map z2) u = Some k" "(s', d, w) = (k, vert, n)"
      show ?thesis using diffcsts_of_assign_ok(2)[OF s m e(1) u(1)] u(3) v(3)[OF u(2)] v(4) by (simp add: dir_le_def)
    qed
    then have "\<forall>(s, d, w) \<in> set (es1 @ es2). val d \<le> val s + w" by blast
    then show ?thesis using ag iv_gammaD[OF i(2)[OF m] i(1)] v(1,2,4) by (simp add: z3_def)
  qed
  obtain z4 where h: "havoc lhs z3 = ret z4" "dbm_shape V {vert} z4" "om_lookup (vert_map z4) = (om_lookup (vert_map z3))(lhs := None)"
      "rev_map z4 ! vert = rev_map z3 ! vert" "potential z4 = potential z3" "\<And>val. sat val (edge_of (dbm_g z3)) \<Longrightarrow> sat val (edge_of (dbm_g z4))"
      "\<And>\<sigma> val k. models z3 \<sigma> val \<Longrightarrow> models z4 (\<sigma>(lhs := k)) val"
    using havoc_ok[OF s3, of lhs] by auto
  have rv: "rev_map z4 ! vert = Some lhs" using gr nv(6,8) h(4) by (simp add: verts_grown_def z3_def)
  note b = bind_vertex[OF h(2) _ rv x, simplified h(3), simplified]
  have p2: "potential z2 ! m = potential z1 ! m" if "live (dbm_g z1) m" for m using gr that by (simp add: verts_grown_def)
  have "sat (\<lambda>n. potential z2 ! n - potential z2 ! 0) (edge_of (dbm_g z3))"
  proof (rule core)
    let ?\<sigma> = "\<lambda>v. pot_value z v - potential z ! 0"
    have p0: "potential z2 ! 0 = potential z ! 0" using p2[OF old[OF shape_zero[OF s]]] nv(9)[OF shape_zero[OF s]] by simp
    have "models z ?\<sigma> (\<lambda>n. potential z ! n - potential z ! 0)" using zone_pot[OF z] by (auto simp: models_def sat_shift pot_value_def)
    then show "dbm_sat z ?\<sigma>" by (auto simp: dbm_sat_def)
    have "sat (pot_fun z2) (edge_of (dbm_g z))" by (rule sat_live_cong[OF shape_graph[OF s] _ zone_pot[OF z]]) (simp add: p2 old nv(9))
    then show "sat (\<lambda>n. potential z2 ! n - potential z2 ! 0) (edge_of (dbm_g z2))" by (simp add: sat_shift ed)
    have pv: "pot_value z2 u = pot_value z u" for u
      using gr nv(2) nv(9) shape_vert[OF s] by (auto simp: verts_grown_def pot_value_def split: option.splits)
    show "potential z2 ! k - potential z2 ! 0 = ?\<sigma> u" if "om_lookup (vert_map z2) u = Some k" for u k
      using pv[of u, symmetric] that p0 by (simp add: pot_value_def[of z2 u])
    show "potential z2 ! vert - potential z2 ! 0 = le_eval ?\<sigma> e" using p2[of vert] nv(6,7) p0 by (simp add: eval_expression_value)
  qed simp
  then have pot: "sat (pot_fun z4) (edge_of (dbm_g z4))" using h(5,6) by (simp add: sat_shift z3_def)
  have "dbm_sat (z4\<lparr>vert_map := om_update lhs vert (vert_map z4)\<rparr>) (\<sigma>(lhs := le_eval \<sigma> e))" if m: "dbm_sat z \<sigma>" for \<sigma>
  proof -
    obtain val where v: "models z \<sigma> val" using m by (auto simp: dbm_sat_def)
    have "sat (val(vert := le_eval \<sigma> e)) (edge_of (dbm_g z))" by (rule sat_live_cong[OF shape_graph[OF s], of val]) (use v nv(4) in \<open>auto simp: models_def\<close>)
    then have "models z1 \<sigma> (val(vert := le_eval \<sigma> e))" using v nv(2-5) shape_vert[OF s] by (auto simp: models_def)
    then obtain val2 where v2: "models z2 \<sigma> val2" "\<And>m. live (dbm_g z1) m \<Longrightarrow> val2 m = (val(vert := le_eval \<sigma> e)) m" using gr unfolding verts_grown_def by blast
    have vv: "val2 vert = le_eval \<sigma> e" using v2(2)[of vert] nv(6) by simp
    then have "models z3 \<sigma> val2" using core[OF m, of val2] v2(1) by (auto simp: models_def z3_def)
    then show ?thesis using b(2)[OF h(7), of \<sigma> val2 "le_eval \<sigma> e"] vv by (auto simp: dbm_sat_def)
  qed
  then show ?thesis using h(1) b(1) pot by (auto simp: zone_inv_def)
qed


lemma obind_ret: "obind (ret x) f = f x"
  by (simp add: obind_def)

lemma dbm_assign_ok:
  assumes z: "zone_inv V z" and V: "card V + 1 < 2 ^ 16" and x: "lhs \<in> V" and e: "le_wf e" "le_vars e \<subseteq> V"
  shows "\<exists>z'. dbm_assign lhs e z = ret z' \<and> zone_inv V z' \<and> (\<forall>\<sigma>. dbm_sat z \<sigma> \<longrightarrow> dbm_sat z' (\<sigma>(lhs := le_eval \<sigma> e)))"
proof -
  obtain i where i: "eval_interval z e = Inr i" "iv_wf i" "\<And>\<sigma>. dbm_sat z \<sigma> \<Longrightarrow> le_eval \<sigma> e \<in> iv_gamma i"
    using eval_interval_ok[OF zone_shape[OF z], of e] by blast
  have nb: "i \<noteq> iv_bottom" using i(3) zone_inhabited[OF z] by fastforce
  define dl du where "dl = diffcsts_of_assign z e False" and "du = diffcsts_of_assign z e True"
  show ?thesis
  proof (cases "iv_is_singleton i \<or> dl = [] \<and> du = []")
    case True
    obtain z' where z': "dbm_set lhs i z = ret z'" "zone_inv V z'" "\<And>\<sigma> k. dbm_sat z \<sigma> \<Longrightarrow> k \<in> iv_gamma i \<Longrightarrow> dbm_sat z' (\<sigma>(lhs := k))"
      using dbm_set_ok[OF z x i(2) nb] by blast
    have "dbm_assign lhs e z = ret z'" using True z'(1) zone_stable[OF z'(2)] by (auto simp: dbm_assign_def obind_def i(1) dl_def du_def)
    then show ?thesis using z'(2,3) i(3) by blast
  next
    case False
    obtain vert g where g: "new_vertex (dbm_g z) = (vert, g)" by fastforce
    let ?p = "potential z ! 0 + eval_expression z e"
    define z1 where "z1 = (if vert = length (rev_map z) then z\<lparr>dbm_g := g, rev_map := rev_map z @ [Some lhs], potential := potential z @ [?p]\<rparr>
        else z\<lparr>dbm_g := g, potential := (potential z)[vert := ?p], rev_map := (rev_map z)[vert := Some lhs]\<rparr>)"
    obtain es1 za where e1: "assign_edges (\<lambda>v n. (vert, v, - n)) dl z1 = (es1, za)" by fastforce
    obtain es2 z2 where e2: "assign_edges (\<lambda>v n. (v, vert, n)) du za = (es2, z2)" by fastforce
    define z3 where "z3 = z2\<lparr>dbm_g := assign_graph (dbm_g z2) (es1 @ es2) (pot_fun z2) vert i\<rparr>"
    obtain z4 where z4: "havoc lhs z3 = ret z4" "zone_inv V (z4\<lparr>vert_map := om_update lhs vert (vert_map z4)\<rparr>)"
        "\<And>\<sigma>. dbm_sat z \<sigma> \<Longrightarrow> dbm_sat (z4\<lparr>vert_map := om_update lhs vert (vert_map z4)\<rparr>) (\<sigma>(lhs := le_eval \<sigma> e))"
      using assign_new_ok[OF z V x e i(2,3) g z1_def e1[unfolded dl_def] e2[unfolded du_def]] unfolding z3_def by blast
    have "dbm_assign lhs e z = obind (havoc lhs z3) (\<lambda>z. normalize (z\<lparr>vert_map := om_update lhs vert (vert_map z)\<rparr>))"
    proof -
      have z1': "(if vert = length (rev_map (z\<lparr>dbm_g := g\<rparr>)) then z\<lparr>dbm_g := g, rev_map := rev_map (z\<lparr>dbm_g := g\<rparr>) @ [Some lhs],
            potential := potential (z\<lparr>dbm_g := g\<rparr>) @ [potential (z\<lparr>dbm_g := g\<rparr>) ! 0 + eval_expression z e]\<rparr>
          else z\<lparr>dbm_g := g, potential := (potential (z\<lparr>dbm_g := g\<rparr>))[vert := potential (z\<lparr>dbm_g := g\<rparr>) ! 0 + eval_expression z e],
            rev_map := (rev_map (z\<lparr>dbm_g := g\<rparr>))[vert := Some lhs]\<rparr>) = z1" by (simp add: z1_def)
      have "\<not> iv_is_singleton i" "(dl = [] \<and> du = []) = False" using False by auto
      then show ?thesis unfolding dbm_assign_def i(1) dl_def[symmetric] du_def[symmetric] z3_def assign_graph_def
        by (simp only: obind_ret Let_def g prod.case if_False z1' e1 e2)
    qed
    then show ?thesis using z4 zone_stable[OF z4(2)] by (auto simp: obind_def)
  qed
qed

section \<open>The remaining transformers\<close>

lemma apply_ok:
  assumes z: "zone_inv V z" and V: "card V + 1 < 2 ^ 16" and x: "x \<in> V" "y \<in> V" "u \<in> V"
  shows "\<exists>z'. dbm_apply op1 x y u z = ret z' \<and> zone_inv V z' \<and>
      (\<forall>\<sigma>. dbm_sat z \<sigma> \<longrightarrow> dbm_sat z' (\<sigma>(x := (case op1 of ADD \<Rightarrow> \<sigma> y + \<sigma> u | SUB \<Rightarrow> \<sigma> y - \<sigma> u | MUL \<Rightarrow> \<sigma> y * \<sigma> u))))"
    "\<exists>z'. dbm_apply_number op1 x y k z = ret z' \<and> zone_inv V z' \<and>
      (\<forall>\<sigma>. dbm_sat z \<sigma> \<longrightarrow> dbm_sat z' (\<sigma>(x := (case op1 of ADD \<Rightarrow> \<sigma> y + k | SUB \<Rightarrow> \<sigma> y - k | MUL \<Rightarrow> k * \<sigma> y))))"
proof -
  have vars: "le_vars (plus_variable (le_variable y) u) \<subseteq> V" "le_vars (subtract_variable (le_variable y) u) \<subseteq> V"
      "le_vars (plus_number (le_variable y) k) \<subseteq> V" "le_vars (subtract_number (le_variable y) k) \<subseteq> V" "le_vars (le_term k y) \<subseteq> V"
    using x by (auto simp: le_vars_def plus_variable_def subtract_variable_def plus_number_def subtract_number_def le_term_def le_variable_def le_make_def split: if_splits)
  have fin: "obind m normalize = m" if "m = ret z'" "zone_inv V z'" for m z' using that zone_stable by (auto simp: obind_def)
  let ?i = "iv_mul (get_interval z y) (get_interval z u)"
  have mul: "iv_wf ?i" "\<And>\<sigma>. dbm_sat z \<sigma> \<Longrightarrow> \<sigma> y * \<sigma> u \<in> iv_gamma ?i"
    using iv_mul_ok[OF get_interval_ok(1) get_interval_ok(1), OF zone_shape[OF z] zone_shape[OF z], of y u] get_interval_ok(2)[OF zone_shape[OF z]] by blast+
  then have "?i \<noteq> iv_bottom" using zone_inhabited[OF z] by fastforce
  note set = dbm_set_ok[OF z x(1) mul(1) this]
  have as: "\<exists>z'. obind (dbm_assign x e z) normalize = ret z' \<and> zone_inv V z' \<and> (\<forall>\<sigma>. dbm_sat z \<sigma> \<longrightarrow> dbm_sat z' (\<sigma>(x := le_eval \<sigma> e)))"
    if "le_wf e" "le_vars e \<subseteq> V" for e
  proof -
    note a = dbm_assign_ok[OF z V x(1) that]
    from a obtain z' where "dbm_assign x e z = ret z'" "zone_inv V z'" "\<forall>\<sigma>. dbm_sat z \<sigma> \<longrightarrow> dbm_sat z' (\<sigma>(x := le_eval \<sigma> e))" by (elim exE conjE) (rule that)
    then show ?thesis using fin[of "dbm_assign x e z" z'] by (intro exI[of _ z']) simp
  qed
  show "\<exists>z'. dbm_apply op1 x y u z = ret z' \<and> zone_inv V z' \<and>
      (\<forall>\<sigma>. dbm_sat z \<sigma> \<longrightarrow> dbm_sat z' (\<sigma>(x := (case op1 of ADD \<Rightarrow> \<sigma> y + \<sigma> u | SUB \<Rightarrow> \<sigma> y - \<sigma> u | MUL \<Rightarrow> \<sigma> y * \<sigma> u))))"
  proof (cases op1)
    case MUL
    obtain z' where z': "dbm_set x ?i z = ret z'" "zone_inv V z'" "\<forall>\<sigma> k. dbm_sat z \<sigma> \<longrightarrow> k \<in> iv_gamma ?i \<longrightarrow> dbm_sat z' (\<sigma>(x := k))" using set by blast
    then show ?thesis using fin[OF z'(1,2)] mul(2) MUL by (simp add: dbm_apply_def z'(1))
  qed (use as[OF _ vars(1)] as[OF _ vars(2)] in \<open>simp_all add: dbm_apply_def\<close>)
  show "\<exists>z'. dbm_apply_number op1 x y k z = ret z' \<and> zone_inv V z' \<and>
      (\<forall>\<sigma>. dbm_sat z \<sigma> \<longrightarrow> dbm_sat z' (\<sigma>(x := (case op1 of ADD \<Rightarrow> \<sigma> y + k | SUB \<Rightarrow> \<sigma> y - k | MUL \<Rightarrow> k * \<sigma> y))))"
    by (cases op1) (use as[OF _ vars(3)] as[OF _ vars(4)] as[OF _ vars(5)] in \<open>simp_all add: dbm_apply_number_def\<close>)
qed

lemma forget_ok:
  assumes z: "zone_inv V z"
  shows "\<exists>z'. dbm_forget vs z = ret z' \<and> zone_inv V z' \<and> (\<forall>\<sigma> \<sigma>'. dbm_sat z \<sigma> \<longrightarrow> (\<forall>v. v \<notin> set vs \<longrightarrow> \<sigma>' v = \<sigma> v) \<longrightarrow> dbm_sat z' \<sigma>')"
proof -
  have all: "\<exists>z'. havoc_all vs z = ret z' \<and> zone_inv V z' \<and> (\<forall>\<sigma> \<sigma>'. dbm_sat z \<sigma> \<longrightarrow> (\<forall>v. v \<notin> set vs \<longrightarrow> \<sigma>' v = \<sigma> v) \<longrightarrow> dbm_sat z' \<sigma>')" if "zone_inv V z" for vs z
    using that
  proof (induction vs arbitrary: z)
    case Nil
    then show ?case by (auto simp: fun_eq_iff[symmetric])
  next
    case (Cons v vs)
    obtain z1 where z1: "(if om_lookup (vert_map z) v \<noteq> None then havoc v z else ret z) = ret z1" "zone_inv V z1" "\<And>\<sigma> k. dbm_sat z \<sigma> \<Longrightarrow> dbm_sat z1 (\<sigma>(v := k))"
    proof (cases "om_lookup (vert_map z) v")
      case None
      then have "models z (\<sigma>(v := k)) val" if "models z \<sigma> val" for \<sigma> k val using that by (auto simp: models_def)
      then have "dbm_sat z (\<sigma>(v := k))" if "dbm_sat z \<sigma>" for \<sigma> k using that by (auto simp: dbm_sat_def)
      then show thesis using that[of z] Cons.prems None by auto
    qed (use havoc_zone[OF Cons.prems, of v] that in auto)
    obtain z2 where z2: "havoc_all vs z1 = ret z2" "zone_inv V z2" "\<And>\<sigma> \<sigma>'. dbm_sat z1 \<sigma> \<Longrightarrow> \<forall>v. v \<notin> set vs \<longrightarrow> \<sigma>' v = \<sigma> v \<Longrightarrow> dbm_sat z2 \<sigma>'"
      using Cons.IH[OF z1(2)] by blast
    have "dbm_sat z2 \<sigma>'" if "dbm_sat z \<sigma>" "\<forall>u. u \<notin> set (v # vs) \<longrightarrow> \<sigma>' u = \<sigma> u" for \<sigma> \<sigma>'
      using z2(3)[OF z1(3)[OF that(1)], of \<sigma>' "\<sigma>' v"] that(2) by auto
    then show ?case using z1(1) z2(1,2) by (auto simp: obind_def)
  qed
  show ?thesis
  proof (cases "dbm_is_top z")
    case True
    then have "edge_of (dbm_g z) s d = None" for s d using g_is_empty_edges[OF zone_graph[OF z]] by (simp add: dbm_is_top_def)
    then have "models z \<sigma> (\<lambda>n. case rev_map z ! n of None \<Rightarrow> 0 | Some v \<Rightarrow> \<sigma> v)" for \<sigma>
      using zone_shape[OF z] shape_lookup[OF zone_shape[OF z]] by (auto simp: models_def sat_def dbm_shape_def)
    then show ?thesis using True z by (auto simp: dbm_forget_def dbm_sat_def)
  next
    case False
    then show ?thesis using all[OF z, of vs] zone_stable by (auto simp: dbm_forget_def obind_def)
  qed
qed

end
