(* ===== verification/Zone_Lattice.thy ===== *)
theory Zone_Lattice
  imports Zone_Assign
begin

text \<open>
  Join, widening and inclusion of zones. The operands are viewed over the variables they share; every edge of
  the result is a consequence of the constraints of each operand, so every state of either operand is kept.
\<close>

section \<open>Inclusion\<close>

lemma models_canonical:
  assumes s: "dbm_shape V {} z" and e: "\<And>a b w. edge_of (dbm_g z) a b = Some w \<Longrightarrow>
      (case rev_map z ! b of None \<Rightarrow> 0 | Some v \<Rightarrow> \<sigma> v) \<le> (case rev_map z ! a of None \<Rightarrow> 0 | Some v \<Rightarrow> \<sigma> v) + w"
  shows "dbm_sat z \<sigma>"
proof -
  have "rev_map z ! 0 = None" using s by (simp add: dbm_shape_def)
  then have "models z \<sigma> (\<lambda>n. case rev_map z ! n of None \<Rightarrow> 0 | Some v \<Rightarrow> \<sigma> v)" using e shape_lookup[OF s] by (auto simp: models_def sat_def)
  then show ?thesis by (auto simp: dbm_sat_def)
qed

lemma top_sat:
  assumes z: "zone_inv V z" and t: "dbm_is_top z"
  shows "dbm_sat z \<sigma>"
proof -
  have "edge_of (dbm_g z) a b = None" for a b using t g_is_empty_edges[OF zone_graph[OF z]] by (simp add: dbm_is_top_def)
  then show ?thesis by (intro models_canonical[OF zone_shape[OF z]]) simp
qed

definition has_edge :: "AdaptGraph \<Rightarrow> VertId \<Rightarrow> bool" where
  "has_edge g n \<longleftrightarrow> g_succs g n \<noteq> [] \<or> g_preds g n \<noteq> []"

lemma vert_renaming_ok:
  assumes s: "dbm_shape V {} o2" and r: "vert_renaming z o2 = Some ren"
  shows "ren ! 0 = Some 0" "om_lookup (vert_map o2) v = Some n \<Longrightarrow> has_edge (dbm_g o2) n \<Longrightarrow> \<exists>y. om_lookup (vert_map z) v = Some y \<and> ren ! n = Some y"
proof -
  let ?f = "\<lambda>(v, n) r. case r of None \<Rightarrow> None
         | Some ren \<Rightarrow> if g_succs (dbm_g o2) n = [] \<and> g_preds (dbm_g o2) n = [] then Some ren
             else (case om_lookup (vert_map z) v of Some y \<Rightarrow> Some (ren[n := Some y]) | None \<Rightarrow> None)"
  have none: "fold ?f vs None = None" for vs by (induction vs) auto
  have *: "(\<forall>m. m \<notin> snd ` set vs \<longrightarrow> ren ! m = ren0 ! m) \<and> (\<forall>(v, n) \<in> set vs. has_edge (dbm_g o2) n \<longrightarrow> (\<exists>y. om_lookup (vert_map z) v = Some y \<and> ren ! n = Some y))"
    if "fold ?f vs (Some ren0) = Some ren" "distinct (map snd vs)" "\<forall>n \<in> snd ` set vs. n < length ren0" for vs ren0
    using that
  proof (induction vs arbitrary: ren0)
    case (Cons a vs)
    obtain u k where a: "a = (u, k)" by (cases a)
    show ?case
    proof (cases "has_edge (dbm_g o2) k")
      case True
      then obtain y where y: "om_lookup (vert_map z) u = Some y" "fold ?f vs (Some (ren0[k := Some y])) = Some ren"
        using Cons.prems(1) none by (auto simp: a has_edge_def split: option.splits if_splits)
      have "k < length ren0" "k \<notin> snd ` set vs" using Cons.prems(2,3) by (auto simp: a)
      then show ?thesis using Cons.IH[OF y(2)] Cons.prems(2,3) y(1) by (auto simp: a)
    next
      case False
      then have "fold ?f vs (Some ren0) = Some ren" using Cons.prems(1) by (simp add: a has_edge_def)
      then show ?thesis using Cons.IH[of ren0] Cons.prems(2,3) False by (auto simp: a)
    qed
  qed simp
  let ?vs = "vert_map o2" and ?ren0 = "(replicate (g_size (dbm_g o2)) None)[0 := Some 0]"
  have dk: "distinct (map fst ?vs)" using shape_om[OF s] by (simp add: om_wf_def strict_sorted_iff)
  have mem: "(v, n) \<in> set ?vs \<longleftrightarrow> om_lookup ?vs v = Some n" for v n using map_of_eq_Some_iff[OF dk] by auto
  have "distinct (map snd ?vs)"
    using dk mem shape_inj[OF s] by (auto simp: distinct_map inj_on_def)
  note ds = this
  have n: "n < g_size (dbm_g o2)" "n \<noteq> 0" if "(v, n) \<in> set ?vs" for v n using shape_vert[OF s] that by (auto simp: mem live_def)
  have "\<forall>n \<in> snd ` set ?vs. n < length ?ren0" using n(1) by auto
  from *[OF r[unfolded vert_renaming_def] ds this] have m: "\<forall>m. m \<notin> snd ` set ?vs \<longrightarrow> ren ! m = ?ren0 ! m" "\<forall>(v, n) \<in> set ?vs. has_edge (dbm_g o2) n \<longrightarrow> (\<exists>y. om_lookup (vert_map z) v = Some y \<and> ren ! n = Some y)"
    by auto
  have "0 \<notin> snd ` set ?vs" using n by force
  then show "ren ! 0 = Some 0" using m(1) s by (simp add: dbm_shape_def)
  show "om_lookup ?vs v = Some n \<Longrightarrow> has_edge (dbm_g o2) n \<Longrightarrow> \<exists>y. om_lookup (vert_map z) v = Some y \<and> ren ! n = Some y" using m(2) mem by blast
qed

lemma dbm_leq_sound:
  assumes z: "zone_inv V z" and o: "zone_inv W o2" and le: "dbm_leq z o2" and m: "dbm_sat z \<sigma>"
  shows "dbm_sat o2 \<sigma>"
proof (cases "dbm_is_top o2")
  case True
  then show ?thesis using top_sat[OF o] by simp
next
  case False
  note s = zone_shape[OF z] and so = zone_shape[OF o]
  obtain ren where ren: "vert_renaming z o2 = Some ren" and
      all: "list_all (\<lambda>ox. list_all (\<lambda>(oy, ow). edge_entailed (dbm_g z) (the (ren ! ox)) (the (ren ! oy)) ow) (g_e_succs (dbm_g o2) ox)) (g_verts (dbm_g o2))"
    using le False by (auto simp: dbm_leq_def split: if_splits option.splits)
  obtain val where v: "val 0 = 0" "sat val (edge_of (dbm_g z))" "\<And>u n. om_lookup (vert_map z) u = Some n \<Longrightarrow> val n = \<sigma> u" using m by (auto simp: dbm_sat_def models_def)
  let ?c = "\<lambda>n. case rev_map o2 ! n of None \<Rightarrow> 0 | Some v \<Rightarrow> \<sigma> v"
  have rn: "live (dbm_g z) (the (ren ! n)) \<and> val (the (ren ! n)) = ?c n" if "live (dbm_g o2) n" "has_edge (dbm_g o2) n" for n
    using that(1)
  proof (rule shape_cases[OF so])
    assume "n = 0"
    then show ?thesis using vert_renaming_ok(1)[OF so ren] shape_zero[OF s] v(1) so by (simp add: dbm_shape_def)
  next
    fix u assume u: "om_lookup (vert_map o2) u = Some n"
    then show ?thesis using vert_renaming_ok(2)[OF so ren u that(2)] shape_lookup[OF so, of u n] shape_vert[OF s] v(3) by auto
  qed simp
  show ?thesis
  proof (rule models_canonical[OF so])
    fix a b w assume e: "edge_of (dbm_g o2) a b = Some w"
    have l: "live (dbm_g o2) a" "live (dbm_g o2) b" using edge_of_live[OF zone_graph[OF o] e] by auto
    have "has_edge (dbm_g o2) a" "has_edge (dbm_g o2) b"
      using g_succs_live[OF zone_graph[OF o] l(1), of b] g_preds_live[OF zone_graph[OF o] l(2), of a] e by (auto simp: has_edge_def)
    note ra = rn[OF l(1) this(1)] and rb = rn[OF l(2) this(2)]
    have "edge_entailed (dbm_g z) (the (ren ! a)) (the (ren ! b)) w"
      using all l(1) e g_e_succs_set(1)[OF zone_graph[OF o] l(1)] g_verts_live(1)[OF zone_graph[OF o]] by (auto simp: list_all_iff)
    then consider (direct) w' where "edge_of (dbm_g z) (the (ren ! a)) (the (ren ! b)) = Some w'" "w' \<le> w"
      | (zero) wx wy where "edge_of (dbm_g z) (the (ren ! a)) 0 = Some wx" "edge_of (dbm_g z) 0 (the (ren ! b)) = Some wy" "wx + wy \<le> w"
      unfolding edge_entailed_def g_lookup_edge[OF zone_graph[OF z] conjunct1[OF ra] conjunct1[OF rb]]
        g_lookup_edge[OF zone_graph[OF z] conjunct1[OF ra] zone_zero[OF z]] g_lookup_edge[OF zone_graph[OF z] zone_zero[OF z] conjunct1[OF rb]]
      by (auto split: option.splits if_splits)
    then have "val (the (ren ! b)) \<le> val (the (ren ! a)) + w"
    proof cases
      case direct
      then show ?thesis using satD[OF v(2) direct(1)] by simp
    next
      case zero
      then show ?thesis using satD[OF v(2) zero(1)] satD[OF v(2) zero(2)] by simp
    qed
    then show "?c b \<le> ?c a + w" using ra rb by simp
  qed
qed

section \<open>The operands over their shared variables\<close>

text \<open>The value of a vertex of a state whose vertices are numbered along a list of variables.\<close>

definition vert_val :: "Variable list \<Rightarrow> (Variable \<Rightarrow> int) \<Rightarrow> VertId \<Rightarrow> int" where
  "vert_val vs \<sigma> n = (case (None # map Some vs) ! n of None \<Rightarrow> 0 | Some v \<Rightarrow> \<sigma> v)"

lemma vert_val_simps [simp]: "vert_val vs \<sigma> 0 = 0" "k < length vs \<Longrightarrow> vert_val vs \<sigma> (Suc k) = \<sigma> (vs ! k)"
  by (simp_all add: vert_val_def)

definition var_perm :: "SplitDBM \<Rightarrow> Variable list \<Rightarrow> VertId option list" where
  "var_perm z vs = Some 0 # map (om_lookup (vert_map z)) vs"

definition perm_edges :: "SplitDBM \<Rightarrow> Variable list \<Rightarrow> nat \<Rightarrow> nat \<Rightarrow> int option" where
  "perm_edges z vs = permuted (var_perm z vs) (edge_of (dbm_g z))"

definition perm_view :: "SplitDBM \<Rightarrow> Variable list \<Rightarrow> Graph_View" where
  "perm_view z vs = graph_perm (var_perm z vs) (adapt_view (dbm_g z))"

lemma perm_view_size [simp]: "v_size (perm_view z vs) = Suc (length vs)" "v_verts (perm_view z vs) = [0..<Suc (length vs)]"
  by (simp_all add: perm_view_def graph_perm_def Let_def var_perm_def)

lemma perm_view_ok:
  assumes s: "dbm_shape V {} z" and d: "distinct vs"
  shows "view_ok (perm_view z vs) (perm_edges z vs)"
proof -
  have nth: "var_perm z vs ! x = Some p \<longleftrightarrow> x = 0 \<and> p = 0 \<or> (\<exists>k. x = Suc k \<and> om_lookup (vert_map z) (vs ! k) = Some p)" if "x < length (var_perm z vs)" for x p
    using that by (cases x) (auto simp: var_perm_def)
  have "p \<in> set (v_verts (adapt_view (dbm_g z)))" if "x < length (var_perm z vs)" "var_perm z vs ! x = Some p" for x p
    using that shape_zero[OF s] shape_vert[OF s] by (auto simp: nth adapt_verts[OF shape_graph[OF s]])
  moreover have "x = y" if xy: "x < length (var_perm z vs)" "y < length (var_perm z vs)" "var_perm z vs ! x = Some p" "var_perm z vs ! y = Some p" for x y p
  proof (cases x; cases y)
    fix i j assume "x = Suc i" "y = Suc j"
    then show ?thesis using xy nth shape_inj[OF s, of "vs ! i" p "vs ! j"] d by (auto simp: var_perm_def nth_eq_iff_index_eq)
  qed (use xy nth shape_vert[OF s] in auto)
  ultimately have "perm_ok (var_perm z vs) (set (v_verts (adapt_view (dbm_g z))))" by (auto simp: perm_ok_def)
  then show ?thesis unfolding perm_view_def perm_edges_def by (rule graph_perm_ok[OF adapt_view_ok[OF shape_graph[OF s]]])
qed

lemma perm_edges_shift:
  assumes v: "sat val (edge_of (dbm_g z))" and z: "val' 0 = val 0 - c"
    and n: "\<And>k n. k < length vs \<Longrightarrow> om_lookup (vert_map z) (vs ! k) = Some n \<Longrightarrow> val' (Suc k) = val n - c"
  shows "sat val' (perm_edges z vs)"
proof -
  have *: "val' x = val a - c" if "x < length (var_perm z vs)" "var_perm z vs ! x = Some a" for x a
    using that z n by (cases x) (auto simp: var_perm_def)
  show ?thesis unfolding sat_def
  proof (intro allI impI)
    fix x y w assume "perm_edges z vs x y = Some w"
    then obtain a b where "x < length (var_perm z vs)" "y < length (var_perm z vs)" "var_perm z vs ! x = Some a" "var_perm z vs ! y = Some b" "edge_of (dbm_g z) a b = Some w"
      by (auto simp: perm_edges_def permuted_Some)
    then show "val' y \<le> val' x + w" using *[of x a] *[of y b] satD[OF v, of a b w] by simp
  qed
qed

lemma perm_edges_sat: "dbm_sat z \<sigma> \<Longrightarrow> sat (vert_val vs \<sigma>) (perm_edges z vs)"
  unfolding dbm_sat_def models_def
proof (elim exE conjE)
  fix val assume v: "val 0 = 0" "sat val (edge_of (dbm_g z))" "\<forall>v n. om_lookup (vert_map z) v = Some n \<longrightarrow> val n = \<sigma> v"
  then show ?thesis by (intro perm_edges_shift[OF v(2), where c = 0]) auto
qed

text \<open>A state rebuilt over a sorted list of variables.\<close>

lemma renumber_lookup:
  assumes "distinct vs"
  shows "om_lookup (renumber vs) v = Some n \<longleftrightarrow> (\<exists>k < length vs. n = Suc k \<and> vs ! k = v)"
proof -
  have "distinct (map fst (renumber vs))" using assms by (simp add: renumber_def)
  from map_of_eq_Some_iff[OF this] have "om_lookup (renumber vs) v = Some n \<longleftrightarrow> (\<exists>k < length vs. vs ! k = v \<and> [1..<Suc (length vs)] ! k = n)"
    by (auto simp: renumber_def in_set_zip simp del: upt_Suc)
  moreover have "[1..<Suc (length vs)] ! k = Suc k" if "k < length vs" for k using that by (simp del: upt_Suc)
  ultimately show ?thesis by auto
qed

lemma rebuilt_shape:
  assumes g: "graph_inv g" "live g = (\<lambda>n. n < Suc (length vs))" "g_size g = Suc (length vs)" and p: "length ps = Suc (length vs)"
    and vs: "distinct vs" "set vs \<subseteq> V" and V: "finite V" "card V < 2 ^ 16" and vm: "om_wf vm" "om_lookup vm = om_lookup (renumber vs)"
  shows "dbm_shape V {} \<lparr>vert_map = vm, rev_map = None # map Some vs, dbm_g = g, potential = ps, unstable = []\<rparr>"
proof (rule dbm_shapeI)
  show "live g n \<longleftrightarrow> n < g_size g \<and> (n = 0 \<or> (None # map Some vs) ! n \<noteq> None)" for n using g by (cases n) auto
  show "om_lookup vm v = Some n \<longleftrightarrow> n < g_size g \<and> (None # map Some vs) ! n = Some v \<and> n \<notin> {}" for v n
    unfolding vm(2) renumber_lookup[OF vs(1)] by (cases n) (auto simp: g)
  show "dom (om_lookup vm) \<subseteq> V" unfolding vm(2) using vs(2) nth_mem by (fastforce simp: renumber_lookup[OF vs(1)])
qed (use g p V vm in simp_all)

lemma rebuilt_sat:
  assumes "distinct vs" "om_lookup (vert_map z) = om_lookup (renumber vs)" "sat (vert_val vs \<sigma>) (edge_of (dbm_g z))"
  shows "dbm_sat z \<sigma>"
  unfolding dbm_sat_def models_def using assms by (intro exI[of _ "vert_val vs \<sigma>"]) (auto simp: renumber_lookup)

lemma renumber_wf: "sorted_wrt (<) vs \<Longrightarrow> om_wf (renumber vs)"
  by (simp add: om_wf_def renumber_def)

lemma shape_size:
  assumes "dbm_shape V {} z" "distinct vs" "set vs \<subseteq> V"
  shows "Suc (length vs) \<le> 2 ^ 16" "finite V" "card V < 2 ^ 16"
  using assms card_mono[OF _ assms(3)] by (auto simp: dbm_shape_def distinct_card)

lemma common_vars_ok:
  assumes l: "dbm_shape V {} l" and r: "dbm_shape V {} r"
  defines "vs \<equiv> map fst (common_vars l r)"
  shows "sorted_wrt (<) vs" "set vs \<subseteq> V" "map Some (0 # map (fst \<circ> snd) (common_vars l r)) = var_perm l vs"
    "map Some (0 # map (snd \<circ> snd) (common_vars l r)) = var_perm r vs" "length (common_vars l r) = length vs"
proof -
  have dk: "distinct (map fst (vert_map l))" using shape_om[OF l] by (simp add: om_wf_def strict_sorted_iff)
  have c: "common_vars l r = map (\<lambda>(v, n). (v, n, the (om_lookup (vert_map r) v))) (filter (\<lambda>(v, n). om_lookup (vert_map r) v \<noteq> None) (vert_map l))"
    by (auto simp: common_vars_def List.map_filter_def intro!: map_cong filter_cong)
  have vs: "vs = map fst (filter (\<lambda>(v, n). om_lookup (vert_map r) v \<noteq> None) (vert_map l))" by (auto simp: vs_def c)
  show "sorted_wrt (<) vs" using om_wf_filter[OF shape_om[OF l]] by (simp add: vs om_wf_def)
  show "set vs \<subseteq> V" using shape_var[OF r] by (auto simp: vs)
  show "map Some (0 # map (fst \<circ> snd) (common_vars l r)) = var_perm l vs" "map Some (0 # map (snd \<circ> snd) (common_vars l r)) = var_perm r vs"
    using map_of_is_SomeI[OF dk] by (auto simp: c vs var_perm_def)
  show "length (common_vars l r) = length vs" by (simp add: vs_def)
qed

lemma shifted_pots_ok:
  assumes z: "zone_inv V z" and ns: "map Some (0 # ns) = var_perm z vs"
  shows "length (shifted_pots z ns) = Suc (length vs)" "sat (\<lambda>n. shifted_pots z ns ! n) (perm_edges z vs)"
proof -
  show "length (shifted_pots z ns) = Suc (length vs)" using arg_cong[OF ns, of length] by (simp add: shifted_pots_def var_perm_def)
  have "k < length ns \<and> ns ! k = n" if "k < length vs" "om_lookup (vert_map z) (vs ! k) = Some n" for k n
    using arg_cong[OF ns, of length] arg_cong[OF ns, of "\<lambda>l. l ! Suc k"] that by (simp add: var_perm_def)
  then show "sat (\<lambda>n. shifted_pots z ns ! n) (perm_edges z vs)"
    by (intro perm_edges_shift[OF zone_pot[OF z], where c = "potential z ! 0"]) (auto simp: shifted_pots_def)
qed

section \<open>The join\<close>

text \<open>A view over the vertices below \<open>m\<close>.\<close>

definition full_view :: "nat \<Rightarrow> Graph_View \<Rightarrow> (nat \<Rightarrow> nat \<Rightarrow> int option) \<Rightarrow> bool" where
  "full_view m x E \<longleftrightarrow> view_ok x E \<and> v_size x = m \<and> v_verts x = [0..<m] \<and> 0 < m \<and> m \<le> 2 ^ 16"

lemma full_viewD:
  assumes "full_view m x E"
  shows "view_ok x E" "v_size x = m" "v_verts x = [0..<m]" "0 < m" "m \<le> 2 ^ 16" "E s d = Some w \<Longrightarrow> s < m \<and> d < m"
    "s < m \<Longrightarrow> d < m \<Longrightarrow> v_lookup x s d = E s d"
  using assms view_edge[of x E s d w] view_lookup[of x E s d] by (auto simp: full_view_def)

text \<open>A graph over the vertices below \<open>m\<close> whose constraints follow from \<open>P\<close>.\<close>

definition weakens :: "nat \<Rightarrow> ((nat \<Rightarrow> int) \<Rightarrow> bool) \<Rightarrow> AdaptGraph \<Rightarrow> bool" where
  "weakens m P g \<longleftrightarrow> graph_inv g \<and> live g = (\<lambda>v. v < m) \<and> g_size g = m \<and> (\<forall>val. P val \<longrightarrow> sat val (edge_of g))"

lemma weakens_view: "weakens m (\<lambda>val. sat val E) g \<Longrightarrow> 0 < m \<Longrightarrow> m \<le> 2 ^ 16 \<Longrightarrow> view_ok (adapt_view g) (edge_of g) \<and> v_size (adapt_view g) = m \<and> set (v_verts (adapt_view g)) = {..<m}"
  using adapt_view_ok[of g] adapt_verts[of g] by (auto simp: weakens_def adapt_view_def)

lemma deferred_relations_ok:
  assumes x: "full_view m gx E" and y: "full_view m gy F"
  shows "weakens m (\<lambda>val. sat val E) (deferred_relations gx gy m)"
proof -
  let ?f = "\<lambda>s d val. case (v_lookup gx s 0, v_lookup gx 0 d) of (Some w1, Some w2) \<Rightarrow> Some (w1 + w2) | _ \<Rightarrow> None"
  note dx = full_viewD[OF x] and dy = full_viewD[OF y]
  have "(\<lambda>(s, d, val) g. case (v_lookup gx s 0, v_lookup gx 0 d) of (Some w1, Some w2) \<Rightarrow> add_edge s (w1 + w2) d g | _ \<Rightarrow> g) = cond_add ?f"
    by (auto simp: cond_add_def fun_eq_iff split: option.splits)
  then have g: "deferred_relations gx gy m = fold (cond_add ?f) (edge_list (sub_graph gy 0)) (growTo m empty_graph)"
    by (simp add: deferred_relations_def)
  have "set (v_verts (sub_graph gy 0)) \<subseteq> {..<m}" using dy(3) by (auto simp: sub_graph_def)
  note b = build_graph[OF sub_graph_ok[OF dy(1)] this dx(5) g]
  have "sat val (edge_of (deferred_relations gx gy m))" if "sat val E" for val
    unfolding sat_def
  proof (intro allI impI)
    fix s d w assume "edge_of (deferred_relations gx gy m) s d = Some w"
    then obtain w0 w1 w2 where e: "F s d = Some w0" "v_lookup gx s 0 = Some w1" "v_lookup gx 0 d = Some w2" "w = w1 + w2"
      unfolding b(5) by (auto simp: without_def split: option.splits if_splits)
    then have "E s 0 = Some w1" "E 0 d = Some w2" using dx(4,7) dy(6)[OF e(1)] by simp_all
    then show "val d \<le> val s + w" using satD[OF that, of s 0 w1] satD[OF that, of 0 d w2] e(4) by simp
  qed
  then show ?thesis using b by (simp add: weakens_def)
qed

lemma reclose_ok:
  assumes x: "full_view m gx E" and i: "weakens m (\<lambda>val. sat val E) ix" and p: "sat val0 E"
  shows "\<exists>g. reclose gx ix pots = Some g \<and> weakens m (\<lambda>val. sat val E) g"
proof -
  note dx = full_viewD[OF x] and iv = weakens_view[OF i full_viewD(4,5)[OF x]]
  let ?g = "graph_meet gx (adapt_view ix)"
  have g: "graph_inv ?g" "live ?g = (\<lambda>v. v < m)" "g_size ?g = m" "sat val E \<Longrightarrow> sat val (edge_of ?g)" for val
    using graph_meet_ok[of gx E "adapt_view ix" "edge_of ix"] dx iv i by (auto simp: weakens_def)
  note c = close_after_meet_ok[OF sub_graph_ok[OF adapt_view_ok[OF g(1)], of 0], where p = "\<lambda>v. pots ! v" and l = gx and r = "adapt_view ix"]
  obtain delta where d: "close_after_meet (sub_graph (adapt_view ?g) 0) (\<lambda>v. pots ! v) gx (adapt_view ix) = Some delta"
    using c(2)[OF sat_without[OF g(4)[OF p]]] by blast
  have "extends ?g (apply_delta ?g delta)"
    by (rule apply_implied[OF g(1) c(1)[OF d]]) (auto simp: excl_verts[OF g(1)] intro: sat_without)
  then show ?thesis using d g by (auto simp: reclose_def Let_def weakens_def extends_def)
qed

lemma put_weakens:
  assumes "weakens m P g" "s < m" "d < m" "\<And>val. P val \<Longrightarrow> val d \<le> val s + w"
  shows "weakens m P (update_edge s w d g)"
  using assms update_edge_ok[of g s d "update_edge s w d g" w] ug.put_sat[of g s d _ w] by (auto simp: weakens_def)

lemma bounds_moved_mem:
  assumes "v \<in> set (bounds_moved lt bx by1 vs)"
  shows "v \<in> set vs \<and> (\<exists>wx wy. bx v = Some wx \<and> by1 v = Some wy)"
  using assms by (auto simp: bounds_moved_def split: option.splits)

text \<open>The relation of two bounds that moved independently follows from the bounds of each operand.\<close>

lemma add_independent_ok:
  assumes x: "full_view m gx E" and y: "full_view m gy F" and g: "weakens m (\<lambda>val. sat val E \<or> sat val F) g"
    and lbs: "\<And>s. s \<in> set lbs \<Longrightarrow> s < m \<and> (\<exists>wx wy. v_lookup gx s 0 = Some wx \<and> v_lookup gy s 0 = Some wy)"
    and ubs: "\<And>d. d \<in> set ubs \<Longrightarrow> d < m \<and> (\<exists>wx wy. v_lookup gx 0 d = Some wx \<and> v_lookup gy 0 d = Some wy)"
  shows "weakens m (\<lambda>val. sat val E \<or> sat val F) (add_independent gx gy lbs ubs g)"
  unfolding add_independent_def
proof (rule fold_invariant[where Q = "\<lambda>s. s \<in> set lbs"], assumption, rule g)
  fix s g1 assume s: "s \<in> set lbs" and g1: "weakens m (\<lambda>val. sat val E \<or> sat val F) g1"
  note dx = full_viewD[OF x] and dy = full_viewD[OF y]
  note vx = view_edge_val[OF dx(1)] and vy = view_edge_val[OF dy(1)]
  show "weakens m (\<lambda>val. sat val E \<or> sat val F) (fold (\<lambda>d g. if s = d then g
      else update_edge s (max (v_edge_val gx s 0 + v_edge_val gx 0 d) (v_edge_val gy s 0 + v_edge_val gy 0 d)) d g) ubs g1)"
  proof (rule fold_invariant[where Q = "\<lambda>d. d \<in> set ubs"], assumption, rule g1)
    fix d g2 assume d: "d \<in> set ubs" and g2: "weakens m (\<lambda>val. sat val E \<or> sat val F) g2"
    obtain a b a' b' where e: "E s 0 = Some a" "F s 0 = Some b" "E 0 d = Some a'" "F 0 d = Some b'"
      using lbs[OF s] ubs[OF d] dx(4,7) dy(7) by auto
    have "val d \<le> val s + max (a + a') (b + b')" if "sat val E \<or> sat val F" for val
      using that satD[of val E, OF _ e(1)] satD[of val E, OF _ e(3)] satD[of val F, OF _ e(2)] satD[of val F, OF _ e(4)] by (auto simp: le_max_iff_disj)
    then show "weakens m (\<lambda>val. sat val E \<or> sat val F) (if s = d then g2
        else update_edge s (max (v_edge_val gx s 0 + v_edge_val gx 0 d) (v_edge_val gy s 0 + v_edge_val gy 0 d)) d g2)"
      using g2 put_weakens[OF g2] lbs[OF s] ubs[OF d] vx[OF e(1)] vx[OF e(3)] vy[OF e(2)] vy[OF e(4)] by simp
  qed
qed

lemma graph_join_weakens:
  assumes a: "weakens m (\<lambda>val. sat val E) g1" and b: "weakens m (\<lambda>val. sat val F) g2" and m: "0 < m" "m \<le> 2 ^ 16"
  shows "weakens m (\<lambda>val. sat val E \<or> sat val F) (graph_join (adapt_view g1) (adapt_view g2))"
proof -
  note va = weakens_view[OF a m] and vb = weakens_view[OF b m]
  have j: "view_ok (adapt_view g1) (edge_of g1)" "v_size (adapt_view g1) \<le> 2 ^ 16" "view_ok (adapt_view g2) (edge_of g2)"
    "set (v_verts (adapt_view g1)) \<subseteq> set (v_verts (adapt_view g2))" using va vb m by auto
  note o = graph_join_ok[OF j]
  have "sat val (edge_of (graph_join (adapt_view g1) (adapt_view g2)))" if "sat val E \<or> sat val F" for val
    unfolding sat_def
  proof (intro allI impI)
    fix s d w assume "edge_of (graph_join (adapt_view g1) (adapt_view g2)) s d = Some w"
    then obtain w1 w2 where w: "edge_of g1 s d = Some w1" "edge_of g2 s d = Some w2" "w = max w1 w2" unfolding o(5) by blast
    have "sat val (edge_of g1) \<or> sat val (edge_of g2)" using that a b by (auto simp: weakens_def)
    then show "val d \<le> val s + w" using satD[of val "edge_of g1" s d w1] satD[of val "edge_of g2" s d w2] w by (auto simp: le_max_iff_disj)
  qed
  then show ?thesis using o va by (simp add: weakens_def)
qed

lemma collect_garbage_ok:
  assumes z: "zone_inv V z"
  shows "zone_inv V (collect_garbage z) \<and> (\<forall>\<sigma>. dbm_sat z \<sigma> \<longrightarrow> dbm_sat (collect_garbage z) \<sigma>)"
proof -
  define f :: "VertId \<Rightarrow> SplitDBM \<Rightarrow> SplitDBM" where "f = (\<lambda>v z. if v \<noteq> 0 \<and> g_succs (dbm_g z) v = [] \<and> g_preds (dbm_g z) v = [] then
           let z = z\<lparr>dbm_g := g_forget v (dbm_g z)\<rparr> in
           case rev_map z ! v of
             Some x \<Rightarrow> z\<lparr>vert_map := filter (\<lambda>(u, n). u \<noteq> x) (vert_map z), rev_map := (rev_map z)[v := None]\<rparr>
           | None \<Rightarrow> z
         else z)"
  have step: "zone_inv V (f v z) \<and> (\<forall>\<sigma>. dbm_sat z \<sigma> \<longrightarrow> dbm_sat (f v z) \<sigma>) \<and> (\<forall>n. n \<noteq> v \<longrightarrow> live (dbm_g z) n \<longrightarrow> live (dbm_g (f v z)) n)"
    if z: "zone_inv V z" and v: "live (dbm_g z) v" for v z
  proof (cases "v \<noteq> 0 \<and> g_succs (dbm_g z) v = [] \<and> g_preds (dbm_g z) v = []")
    case True
    note s = zone_shape[OF z]
    obtain x where x: "rev_map z ! v = Some x" "om_lookup (vert_map z) x = Some v"
      using shape_cases[OF s v] True shape_lookup[OF s] by (metis empty_iff)
    note h = havoc_shape[OF s x(2)]
    let ?z = "z\<lparr>dbm_g := g_forget v (dbm_g z), rev_map := (rev_map z)[v := None], vert_map := filter (\<lambda>(u, n). u \<noteq> x) (vert_map z)\<rparr>"
    have "f v z = ?z" using True x(1) by (simp add: f_def)
    moreover have "models ?z \<sigma> val" if "models z \<sigma> val" for \<sigma> val
      using that h(2,3) sat_without[of val "edge_of (dbm_g z)" v] unfolding models_def by simp
    moreover have "sat (pot_fun ?z) (edge_of (dbm_g ?z))" using h(3) sat_without[OF zone_pot[OF z], of v] by simp
    ultimately show ?thesis using h(1,4) by (auto simp: zone_inv_def dbm_sat_def)
  next
    case False
    then have "f v z = z" by (simp only: f_def if_False)
    then show ?thesis using z by simp
  qed
  have "zone_inv V (fold f vs z) \<and> (\<forall>\<sigma>. dbm_sat z \<sigma> \<longrightarrow> dbm_sat (fold f vs z) \<sigma>)"
    if "zone_inv V z" "distinct vs" "\<forall>v \<in> set vs. live (dbm_g z) v" for vs z
    using that
  proof (induction vs arbitrary: z)
    case (Cons v vs)
    then have st: "zone_inv V (f v z)" "\<forall>\<sigma>. dbm_sat z \<sigma> \<longrightarrow> dbm_sat (f v z) \<sigma>" "\<forall>u \<in> set vs. live (dbm_g (f v z)) u"
      using step[OF Cons.prems(1), of v] by (simp, simp, metis distinct.simps(2) list.set_intros(1,2))
    then show ?case using Cons.IH[OF st(1) _ st(3)] Cons.prems(2) by simp
  qed simp
  moreover have "collect_garbage z = fold f (g_verts (dbm_g z)) z" by (simp only: collect_garbage_def f_def)
  ultimately show ?thesis using z g_verts_live(1)[OF zone_graph[OF z]] by simp
qed

lemma perm_full:
  assumes "zone_inv V z" "distinct vs" "set vs \<subseteq> V"
  shows "full_view (Suc (length vs)) (perm_view z vs) (perm_edges z vs)"
  using perm_view_ok[OF zone_shape[OF assms(1)] assms(2)] shape_size[OF zone_shape[OF assms(1)] assms(2,3)] by (simp add: full_view_def)

lemma rebuilt_zone:
  assumes g: "weakens (Suc (length vs)) P g" and p: "length ps = Suc (length vs)" "P (\<lambda>n. ps ! n)"
    and vs: "distinct vs" "set vs \<subseteq> V" and V: "finite V" "card V < 2 ^ 16" and vm: "om_wf vm" "om_lookup vm = om_lookup (renumber vs)"
  defines "z \<equiv> \<lparr>vert_map = vm, rev_map = None # map Some vs, dbm_g = g, potential = ps, unstable = []\<rparr>"
  shows "zone_inv V z" "P (vert_val vs \<sigma>) \<Longrightarrow> dbm_sat z \<sigma>"
  using rebuilt_shape[of g vs ps V vm] rebuilt_sat[of vs z \<sigma>] assms by (auto simp: zone_inv_def weakens_def z_def)

theorem dbm_join_ok:
  assumes l: "zone_inv V l" and r: "zone_inv V r"
  shows "\<exists>z. dbm_join l r = ret z \<and> zone_inv V z \<and> (\<forall>\<sigma>. dbm_sat l \<sigma> \<or> dbm_sat r \<sigma> \<longrightarrow> dbm_sat z \<sigma>)"
proof (cases "dbm_is_top r \<or> dbm_is_top l")
  case True
  then show ?thesis using l r top_sat[OF l] top_sat[OF r] by (auto simp: dbm_join_def)
next
  case False
  define vs where "vs = map fst (common_vars l r)"
  define xs ys where "xs = map (fst \<circ> snd) (common_vars l r)" and "ys = map (snd \<circ> snd) (common_vars l r)"
  define gx gy where "gx = perm_view l vs" and "gy = perm_view r vs"
  note c = common_vars_ok[OF zone_shape[OF l] zone_shape[OF r], folded vs_def xs_def ys_def]
  have d: "distinct vs" using c(1) by (simp add: strict_sorted_iff)
  note x = perm_full[OF l d c(2), folded gx_def] and y = perm_full[OF r d c(2), folded gy_def]
  note px = shifted_pots_ok[OF l c(3)] and py = shifted_pots_ok[OF r c(4)]
  note m = full_viewD(4,5)[OF x] and dx = full_viewD[OF x] and dy = full_viewD[OF y]
  let ?m = "Suc (length vs)" and ?P = "\<lambda>val. sat val (perm_edges l vs) \<or> sat val (perm_edges r vs)"
  obtain g1 where g1: "reclose gx (deferred_relations gx gy ?m) (shifted_pots l xs) = Some g1" "weakens ?m (\<lambda>val. sat val (perm_edges l vs)) g1"
    using reclose_ok[OF x deferred_relations_ok[OF x y] px(2)] by blast
  obtain g2 where g2: "reclose gy (deferred_relations gy gx ?m) (shifted_pots r ys) = Some g2" "weakens ?m (\<lambda>val. sat val (perm_edges r vs)) g2"
    using reclose_ok[OF y deferred_relations_ok[OF y x] py(2)] by blast
  define verts where "verts = v_verts (sub_graph gx 0)"
  define join_g where "join_g = add_independent gx gy (bounds_moved (<) (\<lambda>v. v_lookup gx v 0) (\<lambda>v. v_lookup gy v 0) verts)
      (bounds_moved (\<lambda>wx wy. wy < wx) (v_lookup gx 0) (v_lookup gy 0) verts)
      (add_independent gx gy (bounds_moved (\<lambda>wx wy. wy < wx) (\<lambda>v. v_lookup gx v 0) (\<lambda>v. v_lookup gy v 0) verts)
        (bounds_moved (<) (v_lookup gx 0) (v_lookup gy 0) verts) (graph_join (adapt_view g1) (adapt_view g2)))"
  define z where "z = \<lparr>vert_map = renumber vs, rev_map = None # map Some vs, dbm_g = join_g, potential = shifted_pots l xs, unstable = []\<rparr>"
  have vm: "v \<in> set verts \<Longrightarrow> v < ?m" for v using dx(3) by (auto simp: verts_def sub_graph_def simp del: upt_Suc)
  have g: "weakens ?m ?P join_g"
    unfolding join_g_def by (intro add_independent_ok[OF x y] graph_join_weakens[OF g1(2) g2(2) m]) (auto dest!: bounds_moved_mem vm)
  note z = rebuilt_zone[OF g px(1) _ d c(2) shape_size(2,3)[OF zone_shape[OF l] d c(2)] renumber_wf[OF c(1)] refl, folded z_def]
  have views: "graph_perm (map Some (0 # xs)) (adapt_view (dbm_g l)) = gx" "graph_perm (map Some (0 # ys)) (adapt_view (dbm_g r)) = gy"
    by (simp_all only: c(3,4) gx_def gy_def perm_view_def)
  have nt: "dbm_is_top r = False" "dbm_is_top l = False" using False by simp_all
  have "dbm_join l r = normalize (collect_garbage z)"
    by (simp only: dbm_join_def Let_def nt if_False vs_def[symmetric] xs_def[symmetric] ys_def[symmetric] c(5) views g1(1) g2(1) option.case
      verts_def[symmetric] join_g_def[symmetric] z_def[symmetric])
  moreover have "normalize (collect_garbage z) = ret (collect_garbage z)" using collect_garbage_ok[OF z(1)] px(2) by (intro normalize_stable) (auto dest: zone_stable)
  ultimately show ?thesis using collect_garbage_ok[OF z(1)] px(2) z(2) perm_edges_sat by auto
qed

section \<open>The widening\<close>

lemma normalize_ok:
  assumes z: "zone_inv V (z\<lparr>unstable := []\<rparr>)"
  shows "\<exists>z'. normalize z = ret z' \<and> zone_inv V z' \<and> (\<forall>\<sigma>. dbm_sat (z\<lparr>unstable := []\<rparr>) \<sigma> \<longrightarrow> dbm_sat z' \<sigma>)"
proof (cases "unstable z = []")
  case True
  then have "z\<lparr>unstable := []\<rparr> = z" by (cases z) simp
  then show ?thesis using z normalize_stable[OF True] by metis
next
  case False
  have g: "graph_inv (dbm_g z)" "live (dbm_g z) 0" "sat (pot_fun z) (edge_of (dbm_g z))" using zoneD[OF z] by simp_all
  note c = close_after_widen_ok[OF sub_graph_ok[OF adapt_view_ok[OF g(1)], of 0], where p = "pot_fun z" and is_stable = "\<lambda>v. v \<in> set (unstable z)"]
  obtain delta where d: "close_after_widen (sub_graph (adapt_view (dbm_g z)) 0) (pot_fun z) (\<lambda>v. v \<in> set (unstable z)) = Some delta"
    using c(2)[OF sat_without[OF g(3)]] by blast
  define g1 where "g1 = apply_delta (dbm_g z) delta"
  have e1: "extends (dbm_g z) g1"
    unfolding g1_def by (rule apply_implied[OF g(1) c(1)[OF d]]) (auto simp: excl_verts[OF g(1)] intro: sat_without)
  then have "graph_inv g1" "live g1 0" using g(2) by (auto simp: extends_def)
  from assign_closure(1)[OF this, of "pot_fun z"] have "extends (dbm_g z) (apply_delta g1 (close_after_assign (adapt_view g1) (pot_fun z) 0))"
    by (rule extends_trans[OF e1])
  then have "extends (dbm_g (z\<lparr>unstable := []\<rparr>)) (apply_delta g1 (close_after_assign (adapt_view g1) (pot_fun z) 0))" by simp
  note e = extends_zone[OF z this]
  have "normalize z = ret (z\<lparr>unstable := [], dbm_g := apply_delta g1 (close_after_assign (adapt_view g1) (pot_fun z) 0)\<rparr>)"
    using False d by (simp add: normalize_def Let_def g1_def)
  then show ?thesis using e(1,3) by blast
qed

theorem dbm_widen_ok:
  assumes l: "zone_inv V l" and r: "zone_inv V r"
  shows "\<exists>z. dbm_widen l r = ret z \<and> zone_inv V z \<and> (\<forall>\<sigma>. dbm_sat l \<sigma> \<or> dbm_sat r \<sigma> \<longrightarrow> dbm_sat z \<sigma>)"
proof -
  define vs where "vs = map fst (common_vars l r)"
  define xs ys where "xs = map (fst \<circ> snd) (common_vars l r)" and "ys = map (snd \<circ> snd) (common_vars l r)"
  note c = common_vars_ok[OF zone_shape[OF l] zone_shape[OF r], folded vs_def xs_def ys_def]
  have d: "distinct vs" using c(1) by (simp add: strict_sorted_iff)
  note x = perm_full[OF l d c(2)] and y = perm_full[OF r d c(2)]
  note px = shifted_pots_ok[OF l c(3)] and dx = full_viewD[OF x] and dy = full_viewD[OF y]
  obtain g u where gu: "graph_widen (perm_view l vs) (perm_view r vs) (unstable l) = (g, u)" by fastforce
  have sz: "v_size (perm_view l vs) \<le> 2 ^ 16" "set (v_verts (perm_view r vs)) \<subseteq> set (v_verts (perm_view l vs))" using dx(2,5) by simp_all
  note w = graph_widen_ok[OF dx(1) sz(1) dy(1) sz(2) gu]
  let ?m = "Suc (length vs)" and ?P = "\<lambda>val. sat val (perm_edges l vs) \<or> sat val (perm_edges r vs)"
  have "sat val (edge_of g)" if "?P val" for val
    unfolding sat_def
  proof (intro allI impI)
    fix s t k assume "edge_of g s t = Some k"
    then obtain b where e: "perm_edges l vs s t = Some k" "perm_edges r vs s t = Some b" "b \<le> k" unfolding w(5) by blast
    then show "val t \<le> val s + k" using that satD[of val "perm_edges l vs" s t k] satD[of val "perm_edges r vs" s t b] by auto
  qed
  then have g: "weakens ?m ?P g" using w(1-3) dx(2) by (simp add: weakens_def)
  define z where "z = \<lparr>vert_map = renumber vs, rev_map = None # map Some vs, dbm_g = g, potential = shifted_pots l xs, unstable = u\<rparr>"
  note z = rebuilt_zone[OF g px(1) _ d c(2) shape_size(2,3)[OF zone_shape[OF l] d c(2)] renumber_wf[OF c(1)] refl]
  have eq: "dbm_widen l r = normalize z"
    by (simp only: dbm_widen_def Let_def vs_def[symmetric] xs_def[symmetric] ys_def[symmetric] c(3,4) perm_view_def[symmetric] gu prod.case z_def[symmetric])
  have "zone_inv V (z\<lparr>unstable := []\<rparr>)" "\<And>\<sigma>. dbm_sat l \<sigma> \<or> dbm_sat r \<sigma> \<Longrightarrow> dbm_sat (z\<lparr>unstable := []\<rparr>) \<sigma>"
    using z px(2) perm_edges_sat by (auto simp: z_def)
  then show ?thesis unfolding eq using normalize_ok[of V z] by metis
qed

section \<open>The meet\<close>

lemma meet_vars_ok:
  assumes l: "dbm_shape V {} l" and r: "dbm_shape V {} r"
  defines "extra \<equiv> filter (\<lambda>(v, n). om_lookup (vert_map l) v = None) (vert_map r)"
  defines "vs \<equiv> map fst (vert_map l) @ map fst extra"
  shows "distinct vs" "set vs \<subseteq> V"
    "Some 0 # map (Some \<circ> snd) (vert_map l) @ map (\<lambda>_. None) extra = var_perm l vs"
    "Some 0 # map (\<lambda>(v, n). om_lookup (vert_map r) v) (vert_map l) @ map (Some \<circ> snd) extra = var_perm r vs"
    "om_wf (fold (\<lambda>(v, n). om_update v n) (renumber vs) [])" "om_lookup (fold (\<lambda>(v, n). om_update v n) (renumber vs) []) = om_lookup (renumber vs)"
proof -
  have dl: "distinct (map fst (vert_map l))" and dr: "distinct (map fst (vert_map r))" using shape_om[OF l] shape_om[OF r] by (simp_all add: om_wf_def strict_sorted_iff)
  show d: "distinct vs" using dl dr by (force simp: vs_def extra_def distinct_map_filter map_of_eq_None_iff)
  show "set vs \<subseteq> V" using shape_var[OF l map_of_is_SomeI[OF dl]] shape_var[OF r map_of_is_SomeI[OF dr]] by (auto simp: vs_def extra_def)
  show "Some 0 # map (Some \<circ> snd) (vert_map l) @ map (\<lambda>_. None) extra = var_perm l vs"
    "Some 0 # map (\<lambda>(v, n). om_lookup (vert_map r) v) (vert_map l) @ map (Some \<circ> snd) extra = var_perm r vs"
    using map_of_is_SomeI[OF dl] map_of_is_SomeI[OF dr] by (auto simp: vs_def extra_def var_perm_def)
  have "om_wf m \<Longrightarrow> distinct (map fst us) \<Longrightarrow> om_lookup (fold (\<lambda>(v, n). om_update v n) us m) = om_lookup m ++ om_lookup us" for us m
  proof (induction us arbitrary: m)
    case (Cons u us)
    obtain v n where u: "u = (v, n)" by (cases u)
    have "om_lookup us v = None" using Cons.prems(2) by (auto simp: u map_of_eq_None_iff)
    then show ?case using Cons by (auto simp: u om_wf_update om_lookup_update fun_eq_iff map_add_def split: option.splits)
  qed simp
  from this[of "[]" "renumber vs"] show "om_lookup (fold (\<lambda>(v, n). om_update v n) (renumber vs) []) = om_lookup (renumber vs)"
    using d by (simp add: om_wf_def renumber_def)
  show "om_wf (fold (\<lambda>(v, n). om_update v n) (renumber vs) [])"
    using om_wf_fold_update[of "[]" "\<lambda>v n. n" "renumber vs"] by (simp add: om_wf_def)
qed

theorem dbm_meet_sound:
  assumes l: "zone_inv V l" and r: "zone_inv V r" and m: "dbm_meet l r = ret (Some z)"
  shows "dbm_shape V {} z \<and> (\<forall>\<sigma>. dbm_sat l \<sigma> \<longrightarrow> dbm_sat r \<sigma> \<longrightarrow> dbm_sat z \<sigma>)"
proof (cases "dbm_is_top l \<or> dbm_is_top r")
  case True
  then show ?thesis using l r m by (auto simp: dbm_meet_def zone_shape split: if_splits)
next
  case False
  define extra where "extra = filter (\<lambda>(v, n). om_lookup (vert_map l) v = None) (vert_map r)"
  define vs where "vs = map fst (vert_map l) @ map fst extra"
  note v = meet_vars_ok[OF zone_shape[OF l] zone_shape[OF r], folded extra_def, folded vs_def]
  note x = perm_full[OF l v(1,2)] and y = perm_full[OF r v(1,2)]
  note dx = full_viewD[OF x] and dy = full_viewD[OF y]
  let ?m = "Suc (length vs)" and ?P = "\<lambda>val. sat val (perm_edges l vs) \<and> sat val (perm_edges r vs)"
  define g where "g = graph_meet (perm_view l vs) (perm_view r vs)"
  have g: "weakens ?m ?P g"
    using graph_meet_ok[OF dx(1) _ dy(1)] dx(2,5) dy(2) by (simp add: weakens_def g_def)
  then have gi: "graph_inv g" by (simp add: weakens_def)
  define pi0 where "pi0 = shifted_pots l (map snd (vert_map l)) @ map (\<lambda>(v, n). potential r ! n - potential r ! 0) extra"
  define vm where "vm = fold (\<lambda>(v, n). om_update v n) (renumber vs) []"
  have nt: "dbm_is_top l = False" "dbm_is_top r = False" using False by simp_all
  note m' = m[unfolded dbm_meet_def Let_def nt if_False, folded extra_def, folded vs_def pi0_def vm_def, unfolded v(3,4), folded perm_view_def, folded g_def]
  obtain pi1 where p: "select_potentials (adapt_view g) pi0 = Some (Some pi1)" using m' by (auto split: option.splits)
  obtain delta where d: "close_after_meet (sub_graph (adapt_view g) 0) (\<lambda>v. pi1 ! v) (perm_view l vs) (perm_view r vs) = Some delta"
    using m' p by (auto split: option.splits)
  define g1 where "g1 = apply_delta g delta"
  define g2 where "g2 = apply_delta g1 (close_after_assign (adapt_view g1) (\<lambda>v. pi1 ! v) 0)"
  have "extends g g1" unfolding g1_def
    by (rule apply_implied[OF gi close_after_meet_ok(1)[OF sub_graph_ok[OF adapt_view_ok[OF gi]] d]]) (auto simp: excl_verts[OF gi] intro: sat_without)
  moreover from this have "extends g1 g2"
    unfolding g2_def using g by (intro assign_closure(1)) (auto simp: extends_def weakens_def)
  ultimately have w: "weakens ?m ?P g2" using g extends_trans[of g g1 g2] by (auto simp: extends_def weakens_def)
  have len: "length pi1 = ?m"
    using select_potentials_total[OF adapt_view_ok[OF gi], of pi0] p by (auto simp: pi0_def shifted_pots_def vs_def)
  have z: "z = \<lparr>vert_map = vm, rev_map = None # map Some vs, dbm_g = g2, potential = pi1, unstable = []\<rparr>"
    using m' p d by (simp add: g2_def g1_def obind_def)
  note V = shape_size(2,3)[OF zone_shape[OF l] v(1,2)]
  have "dbm_shape V {} z"
    unfolding z by (rule rebuilt_shape) (use w len v V in \<open>auto simp: weakens_def vm_def\<close>)
  moreover have "dbm_sat z \<sigma>" if "dbm_sat l \<sigma>" "dbm_sat r \<sigma>" for \<sigma>
    by (rule rebuilt_sat[OF v(1)]) (use w v(6) perm_edges_sat that in \<open>auto simp: z weakens_def vm_def\<close>)
  ultimately show ?thesis by blast
qed

end
