(* ===== verification/Zone_Props.thy ===== *)
theory Zone_Props
  imports Zone_Lattice
begin

text \<open>
  The properties of the zone domain: constraints, assignments, lattice operations and the repair of potentials.
  A state of the domain stands for the valuations of the variables that satisfy the constraints of its graph
  (\<open>dbm_sat\<close>), and \<open>zone_inv V\<close> is the invariant of states over the variables \<open>V\<close>.
\<close>

section \<open>Concrete states\<close>

text \<open>The states \<open>b \<le> a\<close> and \<open>a \<le> -5\<close>, where \<open>a\<close> is variable 0 and \<open>b\<close> variable 1, and the state \<open>a = 2\<close>.\<close>

definition zone_b_le_a :: SplitDBM where
  "zone_b_le_a = \<lparr>vert_map = renumber [0, 1], rev_map = None # map Some [0, 1], dbm_g = add_edge 1 0 2 (growTo 3 empty_graph),
     potential = [0, 0, 0], unstable = []\<rparr>"

definition zone_a_le :: SplitDBM where
  "zone_a_le = \<lparr>vert_map = renumber [0], rev_map = None # map Some [0], dbm_g = add_edge 0 (- 5) 1 (growTo 2 empty_graph),
     potential = [0, - 5], unstable = []\<rparr>"

definition zone_a_is :: SplitDBM where
  "zone_a_is = \<lparr>vert_map = renumber [0], rev_map = None # map Some [0], dbm_g = add_edge 1 (- 2) 0 (add_edge 0 2 1 (growTo 2 empty_graph)),
     potential = [0, 2], unstable = []\<rparr>"

lemma one_edge:
  assumes "m \<le> 2 ^ 16" "s < m" "d < m"
  shows "weakens m (\<lambda>val. val d \<le> val s + w) (add_edge s w d (growTo m empty_graph))"
    "edge_of (add_edge s w d (growTo m empty_graph)) = (\<lambda>a b. if a = s \<and> b = d then Some w else None)"
proof -
  note g = growTo_empty[OF assms(1)]
  have "live (growTo m empty_graph) s" "live (growTo m empty_graph) d" "edge_of (growTo m empty_graph) s d = None" using g assms by auto
  note a = add_edge_ok[OF g(1) this refl, of w]
  then show e: "edge_of (add_edge s w d (growTo m empty_graph)) = (\<lambda>a b. if a = s \<and> b = d then Some w else None)"
    using g by (auto simp: edge_upd_def fun_eq_iff)
  show "weakens m (\<lambda>val. val d \<le> val s + w) (add_edge s w d (growTo m empty_graph))"
  proof -
    have "sat val (edge_of (add_edge s w d (growTo m empty_graph)))" if "val d \<le> val s + w" for val :: "nat \<Rightarrow> int"
      using that by (auto simp: e sat_def)
    then show ?thesis using a g by (simp add: weakens_def)
  qed
qed

lemma two_edges:
  assumes "m \<le> 2 ^ 16" "s < m" "d < m" "s \<noteq> d"
  shows "weakens m (\<lambda>val. val d \<le> val s + w \<and> val s \<le> val d + k) (add_edge d k s (add_edge s w d (growTo m empty_graph)))"
proof -
  note e = one_edge[OF assms(1-3), of w]
  have "graph_inv (add_edge s w d (growTo m empty_graph))" "live (add_edge s w d (growTo m empty_graph)) d" "live (add_edge s w d (growTo m empty_graph)) s"
    "edge_of (add_edge s w d (growTo m empty_graph)) d s = None" using e assms by (auto simp: weakens_def)
  note a = add_edge_ok[OF this refl, of k]
  show ?thesis using a e(1) assms(4) unfolding weakens_def by (auto simp: e(2) sat_def edge_upd_def split: if_splits)
qed

lemma concrete_zones:
  "zone_inv {0, 1} zone_b_le_a" "\<sigma> 1 \<le> \<sigma> 0 \<Longrightarrow> dbm_sat zone_b_le_a \<sigma>"
  "zone_inv {0, 1} zone_a_le" "\<sigma> 0 \<le> - 5 \<Longrightarrow> dbm_sat zone_a_le \<sigma>"
  "zone_inv {0, 1} zone_a_is" "\<sigma> 0 = 2 \<Longrightarrow> dbm_sat zone_a_is \<sigma>"
proof -
  have V: "finite {0, 1 :: Variable}" "card {0, 1 :: Variable} < 2 ^ 16" by simp_all
  note z = rebuilt_zone[OF _ _ _ _ _ V renumber_wf refl]
  have s: "sorted_wrt (<) [0, 1 :: Variable]" "sorted_wrt (<) [0 :: Variable]" "distinct [0, 1 :: Variable]" "distinct [0 :: Variable]" by simp_all
  have len: "Suc (length [0, 1 :: Variable]) = 3" "Suc (length [0 :: Variable]) = 2" by simp_all
  have w: "weakens (Suc (length [0, 1 :: Variable])) (\<lambda>val. val 2 \<le> val 1 + 0) (add_edge 1 0 2 (growTo 3 empty_graph))"
    "weakens (Suc (length [0 :: Variable])) (\<lambda>val. val 1 \<le> val 0 + - 5) (add_edge 0 (- 5) 1 (growTo 2 empty_graph))"
    "weakens (Suc (length [0 :: Variable])) (\<lambda>val. val 1 \<le> val 0 + 2 \<and> val 0 \<le> val 1 + - 2) (add_edge 1 (- 2) 0 (add_edge 0 2 1 (growTo 2 empty_graph)))"
    using one_edge(1)[of 3 1 2 0] one_edge(1)[of 2 0 1 "- 5"] two_edges[of 2 0 1 2 "- 2"] unfolding len by simp_all
  show "zone_inv {0, 1} zone_b_le_a" "\<sigma> 1 \<le> \<sigma> 0 \<Longrightarrow> dbm_sat zone_b_le_a \<sigma>"
    unfolding zone_b_le_a_def using z[OF w(1) _ _ s(3) _ s(1), of "[0, 0, 0]"] by (simp_all add: vert_val_def numeral_2_eq_2)
  show "zone_inv {0, 1} zone_a_le" "\<sigma> 0 \<le> - 5 \<Longrightarrow> dbm_sat zone_a_le \<sigma>"
    unfolding zone_a_le_def using z[OF w(2) _ _ s(4) _ s(2), of "[0, - 5]"] by (simp_all add: vert_val_def)
  show "zone_inv {0, 1} zone_a_is" "\<sigma> 0 = 2 \<Longrightarrow> dbm_sat zone_a_is \<sigma>"
    unfolding zone_a_is_def using z[OF w(3) _ _ s(4) _ s(2), of "[0, 2]"] by (simp_all add: vert_val_def)
qed

text \<open>Evaluation of the meet of the first two states.\<close>

definition meet_graph :: AdaptGraph where
  "meet_graph = \<lparr>preds_of = [[], [(0, 1)], [(1, 0)]], succs_of = [[(1, 1)], [(2, 0)], []], g_ws = [0, - 5], edge_count = 2,
     is_free = [False, False, False], free_id = [], free_widx = []\<rparr>"

lemma grown_graphs:
  "growTo 2 empty_graph = \<lparr>preds_of = [[], []], succs_of = [[], []], g_ws = [], edge_count = 0, is_free = [False, False], free_id = [], free_widx = []\<rparr>"
  "growTo 3 empty_graph = \<lparr>preds_of = [[], [], []], succs_of = [[], [], []], g_ws = [], edge_count = 0, is_free = [False, False, False], free_id = [], free_widx = []\<rparr>"
  by (simp_all add: growTo.simps g_size_def empty_graph_def new_vertex_def)

lemmas eval_edges = grown_graphs add_edge_def tsm_add_def key_of_def g_lookup_def tsm_lookup_def

lemma zone_literals:
  "zone_b_le_a = \<lparr>vert_map = [(0, 1), (1, 2)], rev_map = [None, Some 0, Some 1],
     dbm_g = \<lparr>preds_of = [[], [], [(1, 0)]], succs_of = [[], [(2, 0)], []], g_ws = [0], edge_count = 1, is_free = [False, False, False], free_id = [], free_widx = []\<rparr>,
     potential = [0, 0, 0], unstable = []\<rparr>"
  "zone_a_le = \<lparr>vert_map = [(0, 1)], rev_map = [None, Some 0],
     dbm_g = \<lparr>preds_of = [[], [(0, 0)]], succs_of = [[(1, 0)], []], g_ws = [- 5], edge_count = 1, is_free = [False, False], free_id = [], free_widx = []\<rparr>,
     potential = [0, - 5], unstable = []\<rparr>"
  "zone_a_is = \<lparr>vert_map = [(0, 1)], rev_map = [None, Some 0],
     dbm_g = \<lparr>preds_of = [[(1, 1)], [(0, 0)]], succs_of = [[(1, 0)], [(0, 1)]], g_ws = [2, - 2], edge_count = 2, is_free = [False, False], free_id = [], free_widx = []\<rparr>,
     potential = [0, 2], unstable = []\<rparr>"
  by (simp_all add: zone_b_le_a_def zone_a_le_def zone_a_is_def eval_edges renumber_def upt_rec)

lemmas eval_views = edge_list_def graph_perm_def Let_def adapt_view_def perm_inverse_def adj_edges_def g_e_succs_def g_size_def map_filter_simps

lemma permuted_edges:
  "edge_list (graph_perm [Some 0, Some (Suc 0), Some 2] (adapt_view (dbm_g zone_b_le_a))) = [(1, 2, 0)]"
  "edge_list (graph_perm [Some 0, Some (Suc 0), None] (adapt_view (dbm_g zone_a_le))) = [(0, 1, - 5)]"
  "v_size (graph_perm [Some 0, Some (Suc 0), Some 2] (adapt_view (dbm_g zone_b_le_a))) = 3"
  by (simp_all add: zone_literals eval_views upt_rec numeral_2_eq_2)

lemma meet_graph_eq:
  "graph_meet (graph_perm [Some 0, Some (Suc 0), Some 2] (adapt_view (dbm_g zone_b_le_a))) (graph_perm [Some 0, Some (Suc 0), None] (adapt_view (dbm_g zone_a_le))) = meet_graph"
  by (simp add: graph_meet_def graph_copy_def permuted_edges eval_edges meet_graph_def)

lemma meet_graph_view:
  "v_succs (adapt_view meet_graph) 0 = [1]" "v_succs (adapt_view meet_graph) (Suc 0) = [2]" "v_succs (adapt_view meet_graph) 2 = []"
  "v_e_succs (adapt_view meet_graph) 0 = [(1, - 5)]" "v_e_succs (adapt_view meet_graph) (Suc 0) = [(2, 0)]" "v_e_succs (adapt_view meet_graph) 2 = []"
  "v_verts (adapt_view meet_graph) = [0, 1, 2]"
  by (simp_all add: adapt_view_def meet_graph_def g_succs_def g_e_succs_def g_verts_def upt_rec)

lemma meet_graph_sccs: "compute_sccs (adapt_view meet_graph) = Some [[2], [1], [0]]"
  by (simp add: compute_sccs_def meet_graph_view scc_enter_def scc_leave_def numeral_3_eq_3)

lemma meet_graph_rejected: "select_potentials (adapt_view meet_graph) [0, 0, 0] = Some None"
  by (simp add: select_potentials_def meet_graph_sccs bf_vertex_def bf_relax_def Let_def meet_graph_view bf_feasible_def BF_SCC_def BF_SCC_QUEUED_def)

lemma meet_is_bottom: "dbm_meet zone_b_le_a zone_a_le = ret None"
  using meet_graph_eq meet_graph_rejected by (simp add: dbm_meet_def zone_literals dbm_is_top_def g_is_empty_def Let_def shifted_pots_def)

lemma disequation_is_bottom:
  "add_constraint \<lparr>lc_expression = le_make [(0, 2)] (- 5), lc_kind = NOT_ZERO\<rparr> zone_a_is = ret None"
proof -
  have d: "iv_div (iv_of 5) (iv_of 2) = Inr (iv_of 2)" "iv_is_bottom (trim_interval (iv_make (ext_of 2) (ext_of 2)) 2)" "iv_singleton (iv_of 2) = Some 2"
    by code_simp+
  have g: "get_interval zone_a_is 0 = iv_make (ext_of 2) (ext_of 2)"
    by (simp add: zone_literals get_interval_def get_lb_def get_ub_def get_vertid_def g_elem_def tsm_contains_def g_edge_val_def eval_edges)
  show ?thesis
    by (simp add: add_constraint_def is_tautology_def is_contradiction_def is_constant_def le_make_def add_disequation_term_def compute_residual_def
      add_univar_disequation_def Let_def zbind_def obind_def d g)
qed

section \<open>Properties\<close>





text \<open>
  C18. The transformers of the zone domain end without an error, keep the invariant, and the new state
  contains the result of the operation on every valuation of the old one: assignment of a linear expression, arithmetic with a
  variable or a number, assignment of an interval, forgetting one or several variables. After a variable was set to an
  interval, the bounds read back are exactly that interval. Assignments use one vertex more than there are variables, and
  vertices are 16-bit keys.
\<close>

theorem zone_transformers_sound:
  assumes "zone_inv V z" "card V + 1 < 2 ^ 16" "x \<in> V" "y \<in> V" "u \<in> V" "le_wf e" "le_vars e \<subseteq> V" "iv_wf i" "i \<noteq> iv_bottom"
  shows "(\<exists>z'. dbm_assign x e z = ret z' \<and> zone_inv V z' \<and> (\<forall>\<sigma>. dbm_sat z \<sigma> \<longrightarrow> dbm_sat z' (\<sigma>(x := le_eval \<sigma> e)))) \<and>
    (\<exists>z'. dbm_apply op1 x y u z = ret z' \<and> zone_inv V z' \<and>
      (\<forall>\<sigma>. dbm_sat z \<sigma> \<longrightarrow> dbm_sat z' (\<sigma>(x := (case op1 of ADD \<Rightarrow> \<sigma> y + \<sigma> u | SUB \<Rightarrow> \<sigma> y - \<sigma> u | MUL \<Rightarrow> \<sigma> y * \<sigma> u))))) \<and>
    (\<exists>z'. dbm_apply_number op1 x y k z = ret z' \<and> zone_inv V z' \<and>
      (\<forall>\<sigma>. dbm_sat z \<sigma> \<longrightarrow> dbm_sat z' (\<sigma>(x := (case op1 of ADD \<Rightarrow> \<sigma> y + k | SUB \<Rightarrow> \<sigma> y - k | MUL \<Rightarrow> k * \<sigma> y))))) \<and>
    (\<exists>z'. dbm_set x i z = ret z' \<and> zone_inv V z' \<and> get_interval z' x = i \<and>
      (\<forall>\<sigma> k. dbm_sat z \<sigma> \<longrightarrow> k \<in> iv_gamma i \<longrightarrow> dbm_sat z' (\<sigma>(x := k)))) \<and>
    (\<exists>z'. dbm_forget vs z = ret z' \<and> zone_inv V z' \<and>
      (\<forall>\<sigma> \<sigma>'. dbm_sat z \<sigma> \<longrightarrow> (\<forall>v. v \<notin> set vs \<longrightarrow> \<sigma>' v = \<sigma> v) \<longrightarrow> dbm_sat z' \<sigma>'))"
  by (intro conjI dbm_assign_ok[OF assms(1-3,6,7)] apply_ok[OF assms(1-5)] dbm_set_exact[OF assms(1,3,8,9)] forget_ok[OF assms(1)])

theorem zone_transformers_sound_witness:
  "\<exists>z. dbm_assign 1 (le_make [(0, 2)] 3) zone_a_le = ret z \<and> dbm_sat z ((\<lambda>v. 0)(0 := - 9, 1 := - 15))"
proof -
  have e: "le_wf (le_make [(0, 2)] 3)" "le_vars (le_make [(0, 2)] 3) \<subseteq> {0, 1}" by (simp_all add: le_wf_def le_make_def le_vars_def om_wf_def)
  have i: "iv_wf iv_top" "iv_top \<noteq> iv_bottom" by code_simp+
  have V: "card {0, 1 :: Variable} + 1 < 2 ^ 16" "(0 :: Variable) \<in> {0, 1}" "(1 :: Variable) \<in> {0, 1}" by simp_all
  obtain z where z: "dbm_assign 1 (le_make [(0, 2)] 3) zone_a_le = ret z"
      "\<And>\<sigma>. dbm_sat zone_a_le \<sigma> \<Longrightarrow> dbm_sat z (\<sigma>(1 := le_eval \<sigma> (le_make [(0, 2)] 3)))"
    using zone_transformers_sound[OF concrete_zones(3) V(1,3,2,2) e i] by blast
  moreover have "dbm_sat zone_a_le ((\<lambda>v. 0)(0 := - 9))" by (rule concrete_zones(4)) simp
  ultimately show ?thesis by fastforce
qed

text \<open>
  C19. The lattice operations of the zone domain: join and widening end without an error, keep the
  invariant and contain every valuation of each operand; when the comparison answers true, every valuation of the left state is one
  of the right state; and a meet that is not bottom contains the common valuations.
\<close>

theorem zone_lattice_sound:
  assumes "zone_inv V l" "zone_inv V r"
  shows "(\<exists>z. dbm_join l r = ret z \<and> zone_inv V z \<and> (\<forall>\<sigma>. dbm_sat l \<sigma> \<or> dbm_sat r \<sigma> \<longrightarrow> dbm_sat z \<sigma>)) \<and>
    (\<exists>z. dbm_widen l r = ret z \<and> zone_inv V z \<and> (\<forall>\<sigma>. dbm_sat l \<sigma> \<or> dbm_sat r \<sigma> \<longrightarrow> dbm_sat z \<sigma>)) \<and>
    (dbm_leq l r \<longrightarrow> (\<forall>\<sigma>. dbm_sat l \<sigma> \<longrightarrow> dbm_sat r \<sigma>)) \<and>
    (\<forall>z. dbm_meet l r = ret (Some z) \<longrightarrow> (\<forall>\<sigma>. dbm_sat l \<sigma> \<longrightarrow> dbm_sat r \<sigma> \<longrightarrow> dbm_sat z \<sigma>))"
  using dbm_join_ok[OF assms] dbm_widen_ok[OF assms] dbm_leq_sound[OF assms] dbm_meet_sound[OF assms] by blast

theorem zone_lattice_sound_witness:
  "\<exists>z. dbm_join zone_b_le_a zone_a_le = ret z \<and> dbm_sat z (\<lambda>v. 4) \<and> dbm_sat z ((\<lambda>v. 0)(0 := - 9))"
proof -
  have "dbm_sat zone_b_le_a (\<lambda>v. 4)" by (rule concrete_zones(2)) simp
  moreover have "dbm_sat zone_a_le ((\<lambda>v. 0)(0 := - 9))" by (rule concrete_zones(4)) simp
  ultimately show ?thesis using zone_lattice_sound[OF concrete_zones(1,3)] by blast
qed

text \<open>
  C20. Repairing the potentials after an edge was added to a graph always ends, and decides whether the
  constraints of the graph are still satisfiable: it answers true exactly then, and the repaired potentials are a solution; otherwise the
  potentials are unchanged.
\<close>

theorem repair_potential_decides:
  assumes "graph_inv g" "edge_of g ii jj = Some w" "length p = g_size g"
    and "\<And>s d k. edge_of g s d = Some k \<Longrightarrow> (s, d) \<noteq> (ii, jj) \<Longrightarrow> p ! d \<le> p ! s + k"
  shows "\<exists>b p'. repair_potential (adapt_view g) p ii jj = Some (b, p') \<and> length p' = length p \<and>
    (b \<longleftrightarrow> (\<exists>val. sat val (edge_of g))) \<and> (b \<longrightarrow> sat (\<lambda>v. p' ! v) (edge_of g)) \<and> (\<not> b \<longrightarrow> p' = p)"
proof -
  have ex: "edges_except ii jj p (edge_of g)" using assms(4) by (simp add: edges_except_def)
  have len: "v < length p" if "v \<in> set (v_verts (adapt_view g))" for v using that assms(3) by (simp add: adapt_verts[OF assms(1)] live_def)
  from repair_potential_ok[OF adapt_view_ok[OF assms(1)] assms(2) ex len, simplified]
  obtain b p' where r: "repair_potential (adapt_view g) p ii jj = Some (b, p')" "length p' = length p"
    "if b then sat (\<lambda>v. p' ! v) (edge_of g) else p' = p \<and> (\<forall>val. \<not> sat val (edge_of g))" by blast
  show ?thesis by (rule exI[of _ b], rule exI[of _ p']) (use r in \<open>auto split: if_splits\<close>)
qed

theorem repair_potential_decides_witness:
  "\<exists>p'. repair_potential (adapt_view (dbm_g zone_a_le)) [0, 0] 0 1 = Some (True, p') \<and> p' ! 1 \<le> p' ! 0 - 5"
proof -
  have g: "graph_inv (dbm_g zone_a_le)" "g_size (dbm_g zone_a_le) = 2" using zone_graph[OF concrete_zones(3)] by (simp_all add: zone_literals g_size_def)
  have e: "edge_of (dbm_g zone_a_le) = (\<lambda>a b. if a = 0 \<and> b = 1 then Some (- 5) else None)"
    using one_edge(2)[of 2 0 1 "- 5"] by (simp add: zone_a_le_def)
  have p: "sat (\<lambda>v. - 5 * int v) (edge_of (dbm_g zone_a_le))" and e1: "edge_of (dbm_g zone_a_le) 0 1 = Some (- 5)" by (auto simp: e sat_def)
  have other: "[0, 0] ! d \<le> [0, 0] ! s + k" if "edge_of (dbm_g zone_a_le) s d = Some k" "(s, d) \<noteq> (0, 1)" for s d :: nat and k :: int
    using that by (simp add: e split: if_splits)
  have len: "length [0, 0 :: int] = g_size (dbm_g zone_a_le)" using g(2) by simp
  have "\<exists>b p'. repair_potential (adapt_view (dbm_g zone_a_le)) [0, 0] 0 1 = Some (b, p') \<and> length p' = length [0, 0 :: int] \<and>
      (b \<longleftrightarrow> (\<exists>val. sat val (edge_of (dbm_g zone_a_le)))) \<and> (b \<longrightarrow> sat (\<lambda>v. p' ! v) (edge_of (dbm_g zone_a_le))) \<and> (\<not> b \<longrightarrow> p' = [0, 0])"
    by (rule repair_potential_decides[OF g(1) e1 len]) (rule other)
  moreover have "\<exists>val. sat val (edge_of (dbm_g zone_a_le))" by (rule exI[of _ "\<lambda>v. - 5 * int v"]) (rule p)
  ultimately obtain p' where "repair_potential (adapt_view (dbm_g zone_a_le)) [0, 0] 0 1 = Some (True, p')" "sat (\<lambda>v. p' ! v) (edge_of (dbm_g zone_a_le))"
    by auto
  then show ?thesis using satD[of "\<lambda>v. p' ! v" "edge_of (dbm_g zone_a_le)" 0 1 "- 5"] e1 by auto
qed

text \<open>
  C39. Two operations of the zone domain lose valuations. The meet of \<open>b \<le> a\<close> and \<open>a \<le> -5\<close> is bottom
  although both hold for \<open>a = b = -9\<close>: the selection of potentials gives up after as many rounds as the component has
  vertices, while the vertices it requeues belong to components processed before. And the disequation
  \<open>2 * a - 5 \<noteq> 0\<close> makes the state \<open>a = 2\<close> bottom although it holds there: the value removed is the
  truncated quotient of 5 by 2.
\<close>

theorem zone_operations_unsound:
  "zone_inv {0, 1} zone_b_le_a \<and> zone_inv {0, 1} zone_a_le \<and> dbm_sat zone_b_le_a (\<lambda>v. - 9) \<and> dbm_sat zone_a_le (\<lambda>v. - 9) \<and>
    dbm_meet zone_b_le_a zone_a_le = ret None \<and>
    zone_inv {0, 1} zone_a_is \<and> dbm_sat zone_a_is (\<lambda>v. 2) \<and> lc_holds (\<lambda>v. 2) \<lparr>lc_expression = le_make [(0, 2)] (- 5), lc_kind = NOT_ZERO\<rparr> \<and>
    add_constraint \<lparr>lc_expression = le_make [(0, 2)] (- 5), lc_kind = NOT_ZERO\<rparr> zone_a_is = ret None"
  using concrete_zones meet_is_bottom disequation_is_bottom by (auto simp: lc_holds_def)

end
