(* ===== verification/Spec2Isabelle.thy ===== *)
theory Spec2Isabelle
  imports Interval_Props Codec_Props Analysis_Props Linux_Props Zone_Props
begin

text \<open>
  Verification development of PREVAIL, a verifier for eBPF programs by abstract interpretation.

  \<^bold>\<open>The program.\<close> A raw program is a list of 64-bit instructions. The decoder
  (\<^verbatim>\<open>ir/unmarshal.cpp\<close>) turns it into a sequence of labelled instructions, using the prototypes of
  helper functions that the platform supplies (\<^verbatim>\<open>linux/\<close>). \<^verbatim>\<open>ir/cfg_builder.cpp\<close> builds
  the control-flow graph: conditional jumps become assumptions on edges, local functions are inlined, loop counters are
  inserted at loop heads, and every label gets the assertions that make its instruction safe
  (\<^verbatim>\<open>ir/assertions.cpp\<close>). \<^verbatim>\<open>cfg/wto.cpp\<close> orders the graph into nested cycles, and \<^verbatim>\<open>fwd_analyzer.cpp\<close>
  iterates an abstract domain along that order until it is stable, checking the assertions.
  Intervals (\<^verbatim>\<open>crab/interval.cpp\<close>) over arbitrary precision numbers (\<^verbatim>\<open>arith/\<close>) are the numeric domain at the
  bottom; zones (\<^verbatim>\<open>crab/split_dbm.cpp\<close>) relate variables by difference constraints, kept as the edges of a
  weighted graph (\<^verbatim>\<open>crab_utils/\<close>) with a potential for each vertex. \<^verbatim>\<open>ir/marshal.cpp\<close> encodes instructions again.

  \<^bold>\<open>Conventions.\<close> Errors are values: a function that may throw returns \<open>error + 'a\<close>, and \<open>Inl\<close>
  carries the exception. A loop that is not bounded by its data returns an option, with \<^const>\<open>None\<close> for no result (fuel, or
  \<open>while_option\<close>); termination is then a theorem. Machine integers are words where their width
  matters; \<open>Number\<close> is \<open>int\<close>. A \<^verbatim>\<open>std::map\<close> or \<^verbatim>\<open>std::set\<close> is a sorted list (\<open>Containers\<close>).

  \<^bold>\<open>Theories and sources.\<close>
  \<^item> \<open>Prelude\<close>, \<open>Containers\<close>: results, loops, sorted maps and sets.
  \<^item> \<open>Number_Big\<close>, \<open>Number_Extended\<close>, \<open>Interval_Domain\<close>: \<^verbatim>\<open>arith/num_big.hpp\<close>, \<^verbatim>\<open>arith/num_extended.hpp\<close>,
    \<^verbatim>\<open>crab/interval.hpp\<close>, \<^verbatim>\<open>crab/interval.cpp\<close>, one definition per method. \<open>Abstract_Domain\<close> holds the contract
    of an abstract domain as locales; \<open>Interval_Sound\<close>, \<open>Interval_Arith\<close>, \<open>Interval_Bits\<close> prove that intervals satisfy it and that
    their operations contain the concrete results; \<open>Interval_Props\<close> states the properties.
  \<^item> \<open>Vm_Isa\<close>, \<open>Labels\<close>, \<open>Asm_Syntax\<close>: \<^verbatim>\<open>spec/vm_isa.hpp\<close>, \<^verbatim>\<open>cfg/label.hpp\<close>, \<^verbatim>\<open>ir/syntax.hpp\<close>.
    \<open>Unmarshal\<close>, \<open>Marshal\<close>: the decoder and the encoder, function by function. \<open>Roundtrip\<close>, \<open>Codec_Props\<close>: encoding after
    decoding, jump targets, arguments of calls.
  \<^item> \<open>Cfg\<close>, \<open>Cfg_Builder\<close>, \<open>Cfg_Blocks\<close>: \<^verbatim>\<open>cfg/cfg.hpp\<close>, \<^verbatim>\<open>ir/program.hpp\<close>, \<^verbatim>\<open>ir/cfg_builder.cpp\<close>; \<open>Assertions\<close>:
    \<^verbatim>\<open>ir/assertions.cpp\<close>. \<open>Cfg_Sound\<close>, \<open>Cfg_Props\<close>: the invariant of programs, that a step in the graph is a step of
    the instruction sequence, inlining and its bound on the depth of frames, loop counters, basic blocks.
  \<^item> \<open>Wto\<close>: \<^verbatim>\<open>cfg/wto.cpp\<close> with its stack of tasks and its store of shared cycles. \<open>Wto_State\<close>, \<open>Wto_Contract\<close>,
    \<open>Wto_Visit\<close>, \<open>Wto_Correct\<close> prove that the construction ends and yields a weak topological order: a contract for the
    visit of a list of labels, its composition, the three ways in which a visit ends, and an induction on the
    number of labels without a number.
  \<^item> \<open>Fwd_Analyzer\<close>: \<^verbatim>\<open>fwd_analyzer.cpp\<close> over a record of domain operations. \<open>Fwd_Sound\<close> (a locale that states what
    the iterator needs of a domain, and soundness in it), \<open>Fwd_Termination\<close>; \<open>Register_Interval\<close> interprets the locale with the
    interval of one register over an execution semantics of instructions; \<open>Analysis_Props\<close> states
    the properties.
  \<^item> \<open>Linux_Prototypes\<close>, \<open>Linux_Platform\<close>, \<open>Linux_Props\<close>: the helper prototypes, program types and maps of the Linux
    platform, and that they fit the decoder.
  \<^item> \<open>Linear\<close>: \<^verbatim>\<open>arith/linear_expression.hpp\<close>, \<^verbatim>\<open>arith/linear_constraint.hpp\<close>, \<^verbatim>\<open>arith/dsl_syntax.hpp\<close> with the values of
    expressions. \<open>Min_Heap\<close>: \<^verbatim>\<open>crab_utils/heap.hpp\<close> (a locale for a priority queue, interpreted on the heap). \<open>Adapt_Graph\<close>,
    \<open>Graph_Views\<close>: \<^verbatim>\<open>crab_utils/adapt_sgraph.hpp\<close> and the views of a graph, each with the map of edges it stands for.
    \<open>Graph_Ops\<close>: the algorithms of \<^verbatim>\<open>crab_utils/graph_ops.hpp\<close>; \<open>Graph_Ops_Sound\<close>, \<open>Graph_Closure\<close>, \<open>Graph_Lattice\<close> show
    that every edge they add follows from the constraints, that their loops end on satisfiable graphs, and that repairing
    potentials decides satisfiability.
  \<^item> \<open>Split_Dbm\<close>: \<^verbatim>\<open>crab/split_dbm.cpp\<close>, one definition per method. \<open>Zone_State\<close> (the invariant of a state and the valuations it
    stands for), \<open>Zone_Constraints\<close>, \<open>Zone_Assign\<close>, \<open>Zone_Lattice\<close> prove the operations sound; \<open>Zone_Props\<close> states
    the properties. Asserts of these files are preconditions, scratch arrays are local, \<^verbatim>\<open>std::sort\<close> is a stable
    sort, and the sentinel vertex is \<^const>\<open>None\<close>.

  \<^bold>\<open>Bounds and fuel.\<close> Inlining recurses at most as deep as the 8 frames of the call stack. The fuel of
  the iterator bounds the rounds on each cycle; that some fuel is enough is a theorem under
  well-founded widening. The order is built with \<open>while_option\<close>; it ends, and depth-first numbers stay below
  the value that marks finished labels, on graphs of at most 65535 nodes. Following the nesting of cycles takes
  at most one step more than there are cycles. Vertices of a zone are 16-bit keys, so the invariant asks for fewer than 65536
  variables; the depth of the search for components is bounded by the number of vertices, and its fuel is one more.

  \<^bold>\<open>Not modelled.\<close> Printing, parsing of text, statistics and command line programs (input and output only); the
  ELF loader except its cache of maps (it drives libraries that are not in the repository). The domains above zones
  (finite-width arithmetic, arrays, types) and the transfer functions over them: the iterator is proved for
  every domain that satisfies its contract, and the interval of a register is the instance given here.
\<close>

end
